(* ===== verification/Prelude.thy ===== *)
theory Prelude
  imports Main "HOL-Library.Word" "HOL-Library.List_Lexorder" "HOL-Library.Char_ord"
    "HOL-Library.AList" "HOL-Library.Sublist"
begin

unbundle bit_operations_syntax

text \<open>
  Shared vocabulary of the development: the Rust types the components use, and the functions of
  Rust's standard library that the sources call.
  A byte is a \<^typ>\<open>char\<close> (Isabelle characters are 8-bit), so \<open>&str\<close>, \<open>String\<close>, \<open>&[u8]\<close> and
  \<open>Vec<u8>\<close> are all lists of characters and \<open>str::len\<close> counts bytes, as in Rust. The order of
  \<open>HOL-Library.List_Lexorder\<close> on such lists is Rust's \<open>Ord for str\<close>. \<open>Result<T, E>\<close> is the sum
  \<open>'e + 't\<close> with \<^term>\<open>Inl\<close> the error. A \<open>HashMap\<close> is an association list with distinct keys
  whose list order is the (unspecified) iteration order; a \<open>BTreeMap\<close> is an association list
  sorted strictly by key.
\<close>

named_theorems meta_simps \<open>state reads after one metadata operation\<close>
named_theorems meta_invs \<open>preservation of the metadata invariants\<close>

type_synonym bytes = string
type_synonym u8 = "8 word"
type_synonym u32 = "32 word"
type_synonym u64 = "64 word"
type_synonym ('k, 'v) hash_map = "('k \<times> 'v) list"
type_synonym ('k, 'v) btree_map = "('k \<times> 'v) list"

section \<open>Results\<close>

definition and_then :: "'e + 'a \<Rightarrow> ('a \<Rightarrow> 'e + 'b) \<Rightarrow> 'e + 'b" where
  "and_then r f = (case r of Inl e \<Rightarrow> Inl e | Inr x \<Rightarrow> f x)"

definition map_err :: "('e \<Rightarrow> 'f) \<Rightarrow> 'e + 'a \<Rightarrow> 'f + 'a" where
  "map_err g r = (case r of Inl e \<Rightarrow> Inl (g e) | Inr x \<Rightarrow> Inr x)"

definition ok_or :: "'e \<Rightarrow> 'a option \<Rightarrow> 'e + 'a" where
  "ok_or e v = (case v of None \<Rightarrow> Inl e | Some x \<Rightarrow> Inr x)"

definition is_ok :: "'e + 'a \<Rightarrow> bool" where
  "is_ok r = (case r of Inl _ \<Rightarrow> False | Inr _ \<Rightarrow> True)"

lemma and_then_simps [simp]:
  "and_then (Inl e) f = Inl e" "and_then (Inr x) f = f x"
  by (simp_all add: and_then_def)

lemma map_err_simps [simp]:
  "map_err g (Inl e) = Inl (g e)" "map_err g (Inr x) = Inr x"
  by (simp_all add: map_err_def)

lemma ok_or_simps [simp]:
  "ok_or e None = Inl e" "ok_or e (Some x) = Inr x"
  by (simp_all add: ok_or_def)

lemma is_ok_simps [simp]:
  "\<not> is_ok (Inl e)" "is_ok (Inr x)"
  by (simp_all add: is_ok_def)

text \<open>A loop over a list whose body may fail.\<close>

fun try_fold :: "('a \<Rightarrow> 's \<Rightarrow> 'e + 's) \<Rightarrow> 'a list \<Rightarrow> 's \<Rightarrow> 'e + 's" where
  "try_fold f [] s = Inr s"
| "try_fold f (x # xs) s = and_then (f x s) (try_fold f xs)"

lemma and_then_Inr_iff: "and_then r f = Inr y \<longleftrightarrow> (\<exists>x. r = Inr x \<and> f x = Inr y)"
  by (cases r) simp_all

lemma map_err_Inr_iff [simp]: "map_err g r = Inr y \<longleftrightarrow> r = Inr y"
  by (cases r) simp_all

lemma ok_or_Inr_iff [simp]: "ok_or e v = Inr y \<longleftrightarrow> v = Some y"
  by (cases v) simp_all

text \<open>Collecting an iterator of results stops at the first error.\<close>

fun collect_results :: "('a \<Rightarrow> 'e + 'b) \<Rightarrow> 'a list \<Rightarrow> 'e + 'b list" where
  "collect_results f [] = Inr []"
| "collect_results f (x # xs) =
     and_then (f x) (\<lambda>y. and_then (collect_results f xs) (\<lambda>ys. Inr (y # ys)))"

lemma collect_results_Inr_iff:
  "collect_results f xs = Inr ys \<longleftrightarrow> list_all2 (\<lambda>x y. f x = Inr y) xs ys"
  by (induction xs arbitrary: ys) (auto simp: and_then_Inr_iff list_all2_Cons1)

section \<open>Strings\<close>

text \<open>\<open>str::split(c)\<close>: always at least one part, empty parts kept.\<close>

fun split_on :: "char \<Rightarrow> string \<Rightarrow> string list" where
  "split_on c [] = [[]]"
| "split_on c (x # xs) =
     (if x = c then [] # split_on c xs
      else (case split_on c xs of [] \<Rightarrow> [[x]] | s # ss \<Rightarrow> (x # s) # ss))"

text \<open>\<open>[&str]::join\<close> with a one-character separator.\<close>

fun join_with :: "char \<Rightarrow> string list \<Rightarrow> string" where
  "join_with c [] = []"
| "join_with c [s] = s"
| "join_with c (s # t # ss) = s @ c # join_with c (t # ss)"

text \<open>\<open>str::split_once(c)\<close>: the parts around the first occurrence.\<close>

fun split_once :: "char \<Rightarrow> string \<Rightarrow> (string \<times> string) option" where
  "split_once c [] = None"
| "split_once c (x # xs) =
     (if x = c then Some ([], xs)
      else map_option (\<lambda>(a, b). (x # a, b)) (split_once c xs))"

lemma split_on_nonempty [simp]: "split_on c s \<noteq> []"
  by (induction s) (auto split: list.splits)

lemma join_split [simp]: "join_with c (split_on c s) = s"
proof (induction s)
  case (Cons x xs)
  obtain p ps where s: "split_on c xs = p # ps" by (meson neq_Nil_conv split_on_nonempty)
  with Cons show ?case by (cases ps) auto
qed simp

lemma split_on_no_sep: "p \<in> set (split_on c s) \<Longrightarrow> c \<notin> set p"
proof (induction s arbitrary: p)
  case (Cons x xs)
  obtain q qs where s: "split_on c xs = q # qs" by (meson neq_Nil_conv split_on_nonempty)
  with Cons show ?case by (auto split: if_splits)
qed simp

lemma split_on_single: "c \<notin> set s \<Longrightarrow> split_on c s = [s]"
  by (induction s) auto

lemma split_on_append: "c \<notin> set s \<Longrightarrow> split_on c (s @ c # t) = s # split_on c t"
  by (induction s) auto

lemma split_join:
  "ss \<noteq> [] \<Longrightarrow> \<forall>s\<in>set ss. c \<notin> set s \<Longrightarrow> split_on c (join_with c ss) = ss"
  by (induction c ss rule: join_with.induct) (auto simp: split_on_single split_on_append)

lemma split_once_Some_iff:
  "split_once c s = Some (a, b) \<longleftrightarrow> s = a @ c # b \<and> c \<notin> set a"
  proof (induction s arbitrary: a)
  case (Cons x xs)
  then show ?case by (cases a) auto
qed simp

lemma split_once_None_iff [simp]: "split_once c s = None \<longleftrightarrow> c \<notin> set s"
  by (induction s) auto

text \<open>\<open>str::strip_prefix\<close>.\<close>

definition strip_prefix :: "string \<Rightarrow> string \<Rightarrow> string option" where
  "strip_prefix p s = (if prefix p s then Some (drop (length p) s) else None)"

lemma strip_prefix_Some_iff: "strip_prefix p s = Some t \<longleftrightarrow> s = p @ t"
  by (auto simp: strip_prefix_def prefix_def)

definition is_ascii_lowercase :: "char \<Rightarrow> bool" where
  "is_ascii_lowercase c \<longleftrightarrow> CHR ''a'' \<le> c \<and> c \<le> CHR ''z''"

definition is_ascii_uppercase :: "char \<Rightarrow> bool" where
  "is_ascii_uppercase c \<longleftrightarrow> CHR ''A'' \<le> c \<and> c \<le> CHR ''Z''"

definition is_ascii_digit :: "char \<Rightarrow> bool" where
  "is_ascii_digit c \<longleftrightarrow> CHR ''0'' \<le> c \<and> c \<le> CHR ''9''"

definition is_ascii_hexdigit :: "char \<Rightarrow> bool" where
  "is_ascii_hexdigit c \<longleftrightarrow> is_ascii_digit c \<or> (CHR ''a'' \<le> c \<and> c \<le> CHR ''f'')
     \<or> (CHR ''A'' \<le> c \<and> c \<le> CHR ''F'')"

definition ascii_lower :: "char \<Rightarrow> char" where
  "ascii_lower c = (if is_ascii_uppercase c then char_of (of_char c + 32 :: nat) else c)"

definition to_ascii_lowercase :: "string \<Rightarrow> string" where
  "to_ascii_lowercase s = map ascii_lower s"

definition eq_ignore_ascii_case :: "string \<Rightarrow> string \<Rightarrow> bool" where
  "eq_ignore_ascii_case a b \<longleftrightarrow> to_ascii_lowercase a = to_ascii_lowercase b"

lemmas ascii_class_defs = is_ascii_lowercase_def is_ascii_uppercase_def is_ascii_digit_def
  is_ascii_hexdigit_def

text \<open>\<open>u64::from_str\<close>: an optional plus sign, then one or more digits, within the type's range.\<close>

definition digit_value :: "char \<Rightarrow> nat" where
  "digit_value c = of_char c - 48"

definition decimal_value :: "string \<Rightarrow> nat" where
  "decimal_value s = foldl (\<lambda>n c. 10 * n + digit_value c) 0 s"

definition parse_u64 :: "string \<Rightarrow> u64 option" where
  "parse_u64 s =
     (let ds = (case s of c # cs \<Rightarrow> if c = CHR ''+'' then cs else s | [] \<Rightarrow> s)
      in if ds = [] \<or> \<not> list_all is_ascii_digit ds \<or> 2 ^ 64 \<le> decimal_value ds then None
         else Some (of_nat (decimal_value ds)))"

text \<open>\<open>Display\<close> of an unsigned integer.\<close>

fun show_nat :: "nat \<Rightarrow> string" where
  "show_nat n = (if n < 10 then [char_of (48 + n)]
                 else show_nat (n div 10) @ [char_of (48 + n mod 10)])"

declare show_nat.simps [simp del]

definition show_u64 :: "u64 \<Rightarrow> string" where
  "show_u64 w = show_nat (unat w)"

lemma char_of_digit:
  assumes "d < 10"
  shows "of_char (char_of (48 + d) :: char) = 48 + (d::nat)"
  using assms by simp

lemma is_ascii_digit_nat: "is_ascii_digit c \<longleftrightarrow> 48 \<le> (of_char c :: nat) \<and> (of_char c :: nat) \<le> 57"
  by (simp add: is_ascii_digit_def less_eq_char_def)

lemma show_nat_digits: "list_all is_ascii_digit (show_nat n) \<and> show_nat n \<noteq> []"
proof (induction n rule: show_nat.induct)
  case (1 n)
  then show ?case
    by (cases "n < 10") (simp_all add: show_nat.simps [of n] is_ascii_digit_nat char_of_digit)
qed

lemma decimal_value_snoc [simp]:
  "decimal_value (s @ [c]) = 10 * decimal_value s + digit_value c"
  by (simp add: decimal_value_def)

lemma decimal_value_show: "decimal_value (show_nat n) = n"
proof (induction n rule: show_nat.induct)
  case (1 n)
  then show ?case
    by (cases "n < 10")
      (simp_all add: show_nat.simps [of n] char_of_digit digit_value_def, simp add: decimal_value_def digit_value_def)
qed

lemma unat_u64_less: "unat (w::u64) < 18446744073709551616"
proof -
  have "unat w < 2 ^ LENGTH(64)" by (rule unsigned_less)
  then show ?thesis by simp
qed

lemma unat_u32_less: "unat (w::u32) < 4294967296"
proof -
  have "unat w < 2 ^ LENGTH(32)" by (rule unsigned_less)
  then show ?thesis by simp
qed

lemma parse_show_u64 [simp]: "parse_u64 (show_u64 w) = Some w"
proof -
  obtain c cs where s: "show_nat (unat w) = c # cs"
    using show_nat_digits by (metis neq_Nil_conv)
  moreover have "is_ascii_digit c"
    using show_nat_digits [of "unat w"] s by simp
  then have "c \<noteq> CHR ''+''" by (auto simp: ascii_class_defs)
  ultimately show ?thesis
    using show_nat_digits [of "unat w"] decimal_value_show [of "unat w"]
    by (auto simp: parse_u64_def show_u64_def Let_def) (use unat_u64_less [of w] in simp)
qed

section \<open>Machine integers\<close>

definition saturating_add64 :: "u64 \<Rightarrow> u64 \<Rightarrow> u64" where
  "saturating_add64 a b = (if unat a + unat b < 2 ^ 64 then a + b else - 1)"

definition saturating_sub64 :: "u64 \<Rightarrow> u64 \<Rightarrow> u64" where
  "saturating_sub64 a b = (if b \<le> a then a - b else 0)"

lemma unat_saturating_add64: "unat (saturating_add64 a b) = min (unat a + unat b) (2 ^ 64 - 1)"
  proof (cases "unat a + unat b < 2 ^ 64")
  case True
  then have "unat (a + b) = unat a + unat b"
    by (subst unat_add_lem [symmetric]) simp
  with True show ?thesis by (simp add: saturating_add64_def)
next
  case False
  have "unat (- 1 :: u64) = 2 ^ 64 - 1" by (simp add: unsigned_minus_1_eq_mask mask_eq_exp_minus_1)
  with False show ?thesis by (simp add: saturating_add64_def)
qed

lemma unat_saturating_sub64: "unat (saturating_sub64 a b) = unat a - unat b"
  by (auto simp: saturating_sub64_def unat_sub word_le_nat_alt)

text \<open>A byte as the \<open>u8\<close> that bitwise code works on.\<close>

definition u8_of :: "char \<Rightarrow> u8" where
  "u8_of c = word_of_nat (of_char c)"

lemma u8_of_inject [simp]: "u8_of a = u8_of b \<longleftrightarrow> a = b"
proof -
  have "unat (u8_of c) = of_char c" for c
    by (simp add: u8_of_def unat_of_nat)
  then show ?thesis by (metis of_char_eq_iff)
qed

lemma xor_eq_0_iff_eq: "a XOR b = 0 \<longleftrightarrow> a = (b :: 'a::len word)"
  by (metis word_bw_same(3) xor.assoc xor.left_neutral xor.right_neutral)

text \<open>Little-endian byte encodings (\<open>to_le_bytes\<close>, \<open>from_le_bytes\<close>).\<close>

fun le_bytes :: "nat \<Rightarrow> nat \<Rightarrow> bytes" where
  "le_bytes 0 v = []"
| "le_bytes (Suc n) v = char_of (v mod 256) # le_bytes n (v div 256)"

fun le_value :: "bytes \<Rightarrow> nat" where
  "le_value [] = 0"
| "le_value (c # cs) = of_char c + 256 * le_value cs"

lemma length_le_bytes [simp]: "length (le_bytes n v) = n"
  by (induction n arbitrary: v) auto

lemma le_value_le_bytes [simp]: "le_value (le_bytes n v) = v mod 256 ^ n"
  by (induction n arbitrary: v) (simp_all add: mod_mult2_eq)

lemma le_value_bound: "le_value cs < 256 ^ length cs"
proof (induction cs)
  case (Cons c cs)
  have "of_char c < (256::nat)" by simp
  with Cons have "of_char c + 256 * le_value cs < 256 * Suc (le_value cs)" by simp
  also have "\<dots> \<le> 256 * 256 ^ length cs" using Cons by (intro mult_le_mono) auto
  finally show ?case by simp
qed simp

section \<open>Maps\<close>

text \<open>\<open>BTreeMap::insert\<close> keeps the keys in strictly ascending order.\<close>

fun bt_insert :: "'k::linorder \<Rightarrow> 'v \<Rightarrow> ('k, 'v) btree_map \<Rightarrow> ('k, 'v) btree_map" where
  "bt_insert k v [] = [(k, v)]"
| "bt_insert k v (kv # m) =
     (if fst kv < k then kv # bt_insert k v m
      else if k = fst kv then (k, v) # m
      else (k, v) # kv # m)"

definition bt_remove :: "'k \<Rightarrow> ('k, 'v) btree_map \<Rightarrow> ('k, 'v) btree_map" where
  "bt_remove k m = filter (\<lambda>kv. fst kv \<noteq> k) m"

definition bt_invar :: "('k::linorder, 'v) btree_map \<Rightarrow> bool" where
  "bt_invar m \<longleftrightarrow> sorted_wrt (<) (map fst m)"

lemma bt_invar_Nil [simp]: "bt_invar []"
  by (simp add: bt_invar_def)

lemma bt_invar_Cons:
  "bt_invar (kv # m) \<longleftrightarrow> (\<forall>kv'\<in>set m. fst kv < fst kv') \<and> bt_invar m"
  by (simp add: bt_invar_def)

lemma bt_invar_distinct: "bt_invar m \<Longrightarrow> distinct (map fst m)"
  by (simp add: bt_invar_def strict_sorted_iff)

lemma set_bt_insert: "set (bt_insert k v m) \<subseteq> insert (k, v) (set m)"
  by (induction m) auto

lemma bt_invar_insert [simp]: "bt_invar m \<Longrightarrow> bt_invar (bt_insert k v m)"
proof (induction m)
  case (Cons kv m)
  show ?case
  proof (cases "fst kv < k")
    case True
    with Cons set_bt_insert [of k v m] show ?thesis by (auto simp: bt_invar_Cons)
  next
    case False
    with Cons show ?thesis by (auto simp: bt_invar_Cons)
  qed
qed (simp add: bt_invar_Cons)

lemma map_of_bt_insert [simp]: "map_of (bt_insert k v m) = (map_of m)(k \<mapsto> v)"
  by (induction m) auto

lemma bt_invar_filter [simp]: "bt_invar m \<Longrightarrow> bt_invar (filter P m)"
  by (induction m) (auto simp: bt_invar_Cons)

lemma bt_invar_remove [simp]: "bt_invar m \<Longrightarrow> bt_invar (bt_remove k m)"
  by (simp add: bt_remove_def)

lemma map_of_bt_remove [simp]: "map_of (bt_remove k m) = (map_of m)(k := None)"
  by (induction m) (auto simp: bt_remove_def fun_eq_iff)

text \<open>Two sorted maps with the same bindings are equal, so a \<open>BTreeMap\<close> is determined by its
  lookups.\<close>

lemma bt_ext:
  assumes "bt_invar m" and "bt_invar n" and "map_of m = map_of n"
  shows "m = n"
proof -
  have d: "distinct (map fst m)" "distinct (map fst n)"
    using assms by (simp_all add: bt_invar_distinct)
  have dom: "set (map fst m) = set (map fst n)"
    using assms(3) by (metis dom_map_of_conv_image_fst list.set_map)
  have keys: "map fst m = map fst n"
    using assms dom by (intro strict_sorted_equal) (simp_all add: bt_invar_def)
  have "set m = set n"
    using d assms(3) by (simp add: map_of_inject_set)
  then have "x \<in> set m \<longleftrightarrow> x \<in> set n" for x by simp
  show ?thesis
  proof (rule nth_equalityI)
    show "length m = length n" using keys by (metis length_map)
    fix i assume i: "i < length m"
    then have "map_of m (fst (m ! i)) = Some (snd (m ! i))"
      using d by (simp add: map_of_eq_Some_iff)
    moreover have "map_of n (fst (n ! i)) = Some (snd (n ! i))"
      using d i keys by (metis length_map map_of_eq_Some_iff nth_mem prod.collapse)
    moreover have "fst (m ! i) = fst (n ! i)"
      using keys i by (metis length_map nth_map)
    ultimately show "m ! i = n ! i"
      using assms(3) by (simp add: prod_eq_iff)
  qed
qed

text \<open>\<open>HashMap::retain\<close> over the values; the closure may update the value it keeps.\<close>

definition retain_map :: "('v \<Rightarrow> 'v) \<Rightarrow> ('v \<Rightarrow> bool) \<Rightarrow> ('k \<times> 'v) list \<Rightarrow> ('k \<times> 'v) list" where
  "retain_map f p m = filter (\<lambda>(k, v). p v) (map (\<lambda>(k, v). (k, f v)) m)"

lemma map_of_retain_map:
  "distinct (map fst m) \<Longrightarrow>
   map_of (retain_map f p m) k =
     (case map_of m k of None \<Rightarrow> None | Some v \<Rightarrow> if p (f v) then Some (f v) else None)"
proof (induction m)
  case (Cons kv m)
  have "fst kv \<notin> fst ` set m \<Longrightarrow> map_of (retain_map f p m) (fst kv) = None"
    by (auto simp: retain_map_def map_of_eq_None_iff image_iff)
  with Cons show ?case by (cases kv) (auto simp: retain_map_def)
qed (simp add: retain_map_def)

lemma distinct_retain_map [simp]:
  "distinct (map fst m) \<Longrightarrow> distinct (map fst (retain_map f p m))"
  by (induction m) (auto simp: retain_map_def image_iff)

end
