(* ===== verification/Storage_Error.thy ===== *)
theory Storage_Error
  imports Prelude
begin

text \<open>
  The error type of the storage crate (\<open>roci-storage/src/error.rs\<close>). \<open>io::Error\<close> is reduced to its
  kind and its text: the code branches on the kind only.
\<close>

datatype io_kind = KNotFound | KAlreadyExists | KInvalidData | KInvalidInput | KUnsupported | KUnexpectedEof | KOther

datatype io_error = Io_Error (io_kind_of: io_kind) (io_text: string)

datatype quota_scope = Repository | Total

datatype storage_error =
    NotFound
  | BadDigest string
  | DigestMismatch string string
  | Io io_error
  | BadPath string
  | RangeNotSatisfiable u64 u64
  | TooLarge u64 u64
  | QuotaExceeded quota_scope u64 u64
  | MissingReference string
  | TooManySessions nat
  | Unavailable string

definition quota_scope_display :: "quota_scope \<Rightarrow> string" where
  "quota_scope_display s = (case s of Repository \<Rightarrow> ''repository'' | Total \<Rightarrow> ''registry'')"

text \<open>The \<open>Display\<close> text derived by \<open>thiserror\<close> from the format attributes.\<close>

definition storage_error_display :: "storage_error \<Rightarrow> string" where
  "storage_error_display e = (case e of
      NotFound \<Rightarrow> ''not found''
    | BadDigest d \<Rightarrow> ''malformed digest: '' @ d
    | DigestMismatch x a \<Rightarrow> ''digest mismatch: expected '' @ x @ '', got '' @ a
    | Io i \<Rightarrow> ''io error: '' @ io_text i
    | BadPath p \<Rightarrow> ''unsafe path component: '' @ p
    | RangeNotSatisfiable x g \<Rightarrow> ''content range start '' @ show_u64 g
        @ '' does not match current offset '' @ show_u64 x
    | TooLarge l a \<Rightarrow> ''upload size '' @ show_u64 a @ '' exceeds maximum '' @ show_u64 l
    | QuotaExceeded s l r \<Rightarrow> quota_scope_display s @ '' quota of '' @ show_u64 l
        @ '' bytes exceeded ('' @ show_u64 r @ '' bytes requested)''
    | MissingReference d \<Rightarrow> ''referenced blob '' @ d @ '' is not present''
    | TooManySessions l \<Rightarrow> ''too many concurrent upload sessions (limit '' @ show_nat l @ '')''
    | Unavailable d \<Rightarrow> ''storage unavailable: '' @ d)"

definition map_not_found :: "io_error \<Rightarrow> storage_error" where
  "map_not_found e = (if io_kind_of e = KNotFound then NotFound else Io e)"

end
