(* ===== verification/Digest.thy ===== *)
theory Digest
  imports Storage_Error
begin

text \<open>
  Content digests (\<open>roci-storage/src/digest.rs\<close>). The hash functions belong to the packages
  \<open>sha2\<close>, \<open>hex\<close> and \<open>crc32c\<close> and are the fields of the parameter record \<open>hash_api\<close>: the lower-case
  hexadecimal text of a hash, and the incremental CRC. An incremental hasher is the bytes fed to
  it so far, which is what \<open>update\<close>/\<open>finalize\<close> promise.
\<close>

record digest =
  algorithm :: string
  hex :: string

record hash_api =
  sha256_hex :: "bytes \<Rightarrow> string"
  sha512_hex :: "bytes \<Rightarrow> string"
  crc32c_append :: "u32 \<Rightarrow> bytes \<Rightarrow> u32"

definition lower_hex :: "string \<Rightarrow> bool" where
  "lower_hex s \<longleftrightarrow> list_all (\<lambda>c. is_ascii_hexdigit c \<and> \<not> is_ascii_uppercase c) s"

text \<open>What the packages document: fixed-length lower-case output and a streaming CRC.\<close>

definition hash_api_ok :: "'a hash_api_scheme \<Rightarrow> bool" where
  "hash_api_ok H \<longleftrightarrow>
     (\<forall>b. length (sha256_hex H b) = 64 \<and> lower_hex (sha256_hex H b)) \<and>
     (\<forall>b. length (sha512_hex H b) = 128 \<and> lower_hex (sha512_hex H b)) \<and>
     (\<forall>c. crc32c_append H c [] = c) \<and>
     (\<forall>c a b. crc32c_append H (crc32c_append H c a) b = crc32c_append H c (a @ b))"

definition parse_digest :: "string \<Rightarrow> storage_error + digest" where
  "parse_digest s =
     (case split_once CHR '':'' s of
        None \<Rightarrow> Inl (BadDigest s)
      | Some (alg, hx) \<Rightarrow>
          and_then (if alg = ''sha256'' then Inr 64
                    else if alg = ''sha512'' then Inr 128
                    else Inl (BadDigest s))
            (\<lambda>ok_len. if length hx \<noteq> ok_len \<or> \<not> list_all is_ascii_hexdigit hx
                      then Inl (BadDigest s)
                      else Inr \<lparr>algorithm = alg, hex = to_ascii_lowercase hx\<rparr>))"

definition digest_display :: "digest \<Rightarrow> string" where
  "digest_display d = algorithm d @ '':'' @ hex d"

definition ct_diff :: "string \<Rightarrow> string \<Rightarrow> u8" where
  "ct_diff xs ys = fold (\<lambda>(a, b) diff. diff OR (u8_of a XOR u8_of b)) (zip xs ys) 0"

definition digest_ct_eq :: "digest \<Rightarrow> digest \<Rightarrow> bool" where
  "digest_ct_eq d e \<longleftrightarrow>
     (if algorithm d \<noteq> algorithm e \<or> length (hex d) \<noteq> length (hex e) then False
      else ct_diff (hex d) (hex e) = 0)"

definition sha256_of :: "'a hash_api_scheme \<Rightarrow> bytes \<Rightarrow> digest" where
  "sha256_of H data = \<lparr>algorithm = ''sha256'', hex = sha256_hex H data\<rparr>"

definition digest_of :: "'a hash_api_scheme \<Rightarrow> bytes \<Rightarrow> string \<Rightarrow> digest" where
  "digest_of H data alg =
     (if alg = ''sha512'' then \<lparr>algorithm = ''sha512'', hex = sha512_hex H data\<rparr>
      else sha256_of H data)"

definition finish_sha256 :: "'a hash_api_scheme \<Rightarrow> bytes \<Rightarrow> digest" where
  "finish_sha256 H fed = \<lparr>algorithm = ''sha256'', hex = sha256_hex H fed\<rparr>"

text \<open>
  The read loop of \<open>hash_std\<close> and \<open>hash_file\<close>. Its input is the sequence of results that
  successive \<open>read\<close> calls return; an empty read, or the end of the sequence, is end of file.
\<close>

fun hash_run :: "'a hash_api_scheme \<Rightarrow> (io_error + bytes) list \<Rightarrow> bytes \<Rightarrow> u32 \<Rightarrow> io_error + (bytes \<times> u32)" where
  "hash_run H [] fed crc = Inr (fed, crc)"
| "hash_run H (Inl e # rs) fed crc = Inl e"
| "hash_run H (Inr buf # rs) fed crc =
     (if buf = [] then Inr (fed, crc)
      else hash_run H rs (fed @ buf) (crc32c_append H crc buf))"

definition hash_std :: "'a hash_api_scheme \<Rightarrow> (io_error + bytes) list \<Rightarrow> string \<Rightarrow> io_error + (digest \<times> u32)" where
  "hash_std H reads alg =
     (if alg = ''sha512''
      then and_then (hash_run H reads [] 0)
             (\<lambda>(fed, crc). Inr (\<lparr>algorithm = ''sha512'', hex = sha512_hex H fed\<rparr>, crc))
      else and_then (hash_run H reads [] 0)
             (\<lambda>(fed, crc). Inr (\<lparr>algorithm = ''sha256'', hex = sha256_hex H fed\<rparr>, crc)))"

definition hash_reader :: "'a hash_api_scheme \<Rightarrow> (io_error + bytes) list \<Rightarrow> string \<Rightarrow> io_error + (digest \<times> u32)" where
  "hash_reader H reads alg =
     and_then (hash_run H reads [] 0)
       (\<lambda>(fed, crc).
          if alg = ''sha512'' then Inr (\<lparr>algorithm = ''sha512'', hex = sha512_hex H fed\<rparr>, crc)
          else Inr (\<lparr>algorithm = ''sha256'', hex = sha256_hex H fed\<rparr>, crc))"

definition crc32c :: "'a hash_api_scheme \<Rightarrow> bytes \<Rightarrow> u32" where
  "crc32c H data = crc32c_append H 0 data"

section \<open>Well-formed digests\<close>

text \<open>The digests that parsing and hashing produce.\<close>

definition digest_wf :: "digest \<Rightarrow> bool" where
  "digest_wf d \<longleftrightarrow>
     (algorithm d = ''sha256'' \<and> length (hex d) = 64 \<or>
      algorithm d = ''sha512'' \<and> length (hex d) = 128) \<and> lower_hex (hex d)"

lemma lower_hexdigit:
  "is_ascii_hexdigit c \<Longrightarrow>
     is_ascii_hexdigit (ascii_lower c) \<and> \<not> is_ascii_uppercase (ascii_lower c)"
  by (auto simp: ascii_class_defs ascii_lower_def less_eq_char_def)

lemma lower_hex_lowercase:
  "list_all is_ascii_hexdigit s \<Longrightarrow> lower_hex (to_ascii_lowercase s)"
  by (induction s) (auto simp: lower_hex_def to_ascii_lowercase_def lower_hexdigit)

lemma lowercase_id: "lower_hex s \<Longrightarrow> to_ascii_lowercase s = s"
  by (induction s) (auto simp: lower_hex_def to_ascii_lowercase_def ascii_lower_def)

lemma parse_digest_wf: "parse_digest s = Inr d \<Longrightarrow> digest_wf d"
  by (auto simp: parse_digest_def digest_wf_def and_then_Inr_iff to_ascii_lowercase_def
      lower_hex_lowercase [unfolded to_ascii_lowercase_def] split: option.splits if_splits)

lemma parse_digest_display: "digest_wf d \<Longrightarrow> parse_digest (digest_display d) = Inr d"
proof -
  assume wf: "digest_wf d"
  then have "CHR '':'' \<notin> set (algorithm d)" by (auto simp: digest_wf_def)
  then have "split_once CHR '':'' (digest_display d) = Some (algorithm d, hex d)"
    by (simp add: split_once_Some_iff digest_display_def)
  moreover have "list_all is_ascii_hexdigit (hex d)"
    using wf by (auto simp: digest_wf_def lower_hex_def list_all_iff)
  ultimately show ?thesis
    using wf by (auto simp: parse_digest_def digest_wf_def lowercase_id)
qed

lemma digest_of_wf: "hash_api_ok H \<Longrightarrow> digest_wf (digest_of H data alg)"
  by (simp add: hash_api_ok_def digest_of_def sha256_of_def digest_wf_def)

lemma digest_display_inject:
  "digest_wf d \<Longrightarrow> digest_wf e \<Longrightarrow> digest_display d = digest_display e \<longleftrightarrow> d = e"
  by (metis parse_digest_display sum.inject(2))

section \<open>Constant-time comparison\<close>

lemma ct_diff_acc_zero_iff:
  "length xs = length ys \<Longrightarrow>
   fold (\<lambda>(a, b) diff. diff OR (u8_of a XOR u8_of b)) (zip xs ys) (acc :: u8) = 0
     \<longleftrightarrow> acc = 0 \<and> xs = ys"
proof (induction xs ys arbitrary: acc rule: list_induct2)
  case (Cons x xs y ys)
  have "acc OR (u8_of x XOR u8_of y) = 0 \<longleftrightarrow> acc = 0 \<and> x = y"
    by (simp add: or_eq_0_iff xor_eq_0_iff_eq)
  with Cons show ?case by auto
qed simp

lemma digest_ct_eq_iff: "digest_ct_eq d e \<longleftrightarrow> d = e"
  by (auto simp: digest_ct_eq_def ct_diff_def ct_diff_acc_zero_iff)

section \<open>Streaming hashes\<close>

lemma hash_run_chunks:
  assumes "hash_api_ok H" and "[] \<notin> set chunks"
  shows "hash_run H (map Inr chunks) fed crc = Inr (fed @ concat chunks, crc32c_append H crc (concat chunks))"
  using assms(2)
  by (induction chunks arbitrary: fed crc) (use assms(1) in \<open>auto simp: hash_api_ok_def\<close>)

lemma hash_std_chunks:
  assumes "hash_api_ok H" and "[] \<notin> set chunks"
  shows "hash_std H (map Inr chunks) alg = Inr (digest_of H (concat chunks) alg, crc32c H (concat chunks))"
  using hash_run_chunks [OF assms, of "[]" 0]
  by (simp add: hash_std_def digest_of_def sha256_of_def crc32c_def)

end
