(* ===== verification/Json.thy ===== *)
theory Json
  imports Prelude
begin

text \<open>
  JSON values as \<open>serde_json::Value\<close> represents them. Objects are \<open>serde_json::Map\<close>, which is a
  \<open>BTreeMap\<close> in this build (the \<open>preserve_order\<close> feature is off), so an object is an association
  list in ascending key order. Parsing and printing belong to the \<open>serde_json\<close> package and stay
  parameters where a definition needs them.
\<close>

datatype number = PosInt u64 | NegInt int | Float u64

datatype json =
    JNull
  | JBool bool
  | JNumber number
  | JString string
  | JArray "json list"
  | JObject "(string \<times> json) list"

definition json_get :: "string \<Rightarrow> json \<Rightarrow> json option" where
  "json_get k v = (case v of JObject kvs \<Rightarrow> map_of kvs k | _ \<Rightarrow> None)"

definition as_str :: "json \<Rightarrow> string option" where
  "as_str v = (case v of JString s \<Rightarrow> Some s | _ \<Rightarrow> None)"

definition as_array :: "json \<Rightarrow> json list option" where
  "as_array v = (case v of JArray vs \<Rightarrow> Some vs | _ \<Rightarrow> None)"

definition as_object :: "json \<Rightarrow> (string \<times> json) list option" where
  "as_object v = (case v of JObject kvs \<Rightarrow> Some kvs | _ \<Rightarrow> None)"

definition as_u64 :: "json \<Rightarrow> u64 option" where
  "as_u64 v = (case v of JNumber (PosInt n) \<Rightarrow> Some n | _ \<Rightarrow> None)"

text \<open>\<open>value.get(k).and_then(Value::as_str)\<close>, the accessor most of the code uses.\<close>

definition get_str :: "string \<Rightarrow> json \<Rightarrow> string option" where
  "get_str k v = Option.bind (json_get k v) as_str"

definition get_array :: "string \<Rightarrow> json \<Rightarrow> json list" where
  "get_array k v = (case Option.bind (json_get k v) as_array of None \<Rightarrow> [] | Some vs \<Rightarrow> vs)"

text \<open>\<open>map.insert(k, v)\<close> on an object under construction.\<close>

definition obj_insert :: "string \<Rightarrow> json \<Rightarrow> json \<Rightarrow> json" where
  "obj_insert k w v = (case v of JObject kvs \<Rightarrow> JObject (bt_insert k w kvs) | _ \<Rightarrow> v)"

lemma json_get_simps [simp]:
  "json_get k (JObject kvs) = map_of kvs k"
  "json_get k JNull = None" "json_get k (JBool b) = None" "json_get k (JNumber n) = None"
  "json_get k (JString s) = None" "json_get k (JArray vs) = None"
  by (simp_all add: json_get_def)

lemma as_str_Some_iff [simp]: "as_str v = Some s \<longleftrightarrow> v = JString s"
  by (cases v) (auto simp: as_str_def)

lemma as_str_simps [simp]: "as_str (JString s) = Some s"
  by (simp add: as_str_def)

lemma as_array_Some_iff [simp]: "as_array v = Some vs \<longleftrightarrow> v = JArray vs"
  by (cases v) (auto simp: as_array_def)

end
