(* ===== verification/Utf8.thy ===== *)
theory Utf8
  imports Prelude
begin

text \<open>
  \<open>String::from_utf8_lossy\<close> of the Rust standard library. A scan step looks at the bytes from a
  position: \<open>Inr n\<close> is a valid sequence of \<open>n\<close> bytes, \<open>Inl n\<close> an invalid one whose \<open>n\<close> bytes become
  one U+FFFD. \<open>utf8_valid\<close> is the invariant of every Rust \<open>str\<close>.
\<close>

definition byte_at :: "bytes \<Rightarrow> nat \<Rightarrow> nat" where
  "byte_at s i = (if i < length s then of_char (s ! i) else 0)"

definition is_cont :: "nat \<Rightarrow> bool" where
  "is_cont b \<longleftrightarrow> 128 \<le> b \<and> b \<le> 191"

definition second_of_three :: "nat \<Rightarrow> nat \<Rightarrow> bool" where
  "second_of_three a b \<longleftrightarrow>
     (if a = 224 then 160 \<le> b \<and> b \<le> 191
      else if a = 237 then 128 \<le> b \<and> b \<le> 159
      else is_cont b)"

definition second_of_four :: "nat \<Rightarrow> nat \<Rightarrow> bool" where
  "second_of_four a b \<longleftrightarrow>
     (if a = 240 then 144 \<le> b \<and> b \<le> 191
      else if a = 244 then 128 \<le> b \<and> b \<le> 143
      else is_cont b)"

definition utf8_scan :: "bytes \<Rightarrow> nat + nat" where
  "utf8_scan s =
     (let a = byte_at s 0; b = byte_at s 1; c = byte_at s 2; d = byte_at s 3 in
      if a < 128 then Inr 1
      else if 194 \<le> a \<and> a \<le> 223 then (if is_cont b then Inr 2 else Inl 1)
      else if 224 \<le> a \<and> a \<le> 239 then
        (if \<not> second_of_three a b then Inl 1 else if \<not> is_cont c then Inl 2 else Inr 3)
      else if 240 \<le> a \<and> a \<le> 244 then
        (if \<not> second_of_four a b then Inl 1 else if \<not> is_cont c then Inl 2
         else if \<not> is_cont d then Inl 3 else Inr 4)
      else Inl 1)"

definition replacement_char :: bytes where
  "replacement_char = [CHR 0xEF, CHR 0xBF, CHR 0xBD]"

lemma utf8_scan_pos: "utf8_scan s = Inr n \<Longrightarrow> 0 < n" "utf8_scan s = Inl n \<Longrightarrow> 0 < n"
  by (auto simp: utf8_scan_def Let_def split: if_splits)

function from_utf8_lossy :: "bytes \<Rightarrow> string" where
  "from_utf8_lossy s =
     (if s = [] then []
      else case utf8_scan s of
             Inr n \<Rightarrow> take n s @ from_utf8_lossy (drop n s)
           | Inl n \<Rightarrow> replacement_char @ from_utf8_lossy (drop n s))"
  by pat_completeness auto
termination
  by (relation "measure length") (auto dest: utf8_scan_pos)

function utf8_valid :: "bytes \<Rightarrow> bool" where
  "utf8_valid s \<longleftrightarrow>
     (if s = [] then True
      else case utf8_scan s of Inr n \<Rightarrow> utf8_valid (drop n s) | Inl _ \<Rightarrow> False)"
  by pat_completeness auto
termination
  by (relation "measure length") (auto dest: utf8_scan_pos)

declare from_utf8_lossy.simps [simp del] utf8_valid.simps [simp del]

lemma utf8_Nil [simp]: "from_utf8_lossy [] = []" "utf8_valid []"
  by (simp_all add: from_utf8_lossy.simps utf8_valid.simps)

lemma utf8_valid_ascii_Cons: "of_char c < (128::nat) \<Longrightarrow> utf8_valid (c # s) = utf8_valid s"
  by (subst utf8_valid.simps) (simp add: utf8_scan_def byte_at_def Let_def)

lemma utf8_valid_ascii: "list_all (\<lambda>c. of_char c < (128::nat)) s \<Longrightarrow> utf8_valid s"
  by (induction s) (simp_all add: utf8_valid_ascii_Cons)

text \<open>Converting valid text loses nothing.\<close>

lemma from_utf8_lossy_valid: "utf8_valid s \<Longrightarrow> from_utf8_lossy s = s"
proof (induction s rule: utf8_valid.induct)
  case (1 s)
  then show ?case
    by (cases "s = []"; cases "utf8_scan s")
      (simp_all add: from_utf8_lossy.simps [of s] utf8_valid.simps [of s])
qed

text \<open>The conversion always yields valid text.\<close>

lemma utf8_scan_length: "utf8_scan s = Inr n \<Longrightarrow> s \<noteq> [] \<Longrightarrow> n \<le> length s"
  by (auto simp: utf8_scan_def byte_at_def is_cont_def second_of_three_def second_of_four_def
      Let_def Suc_le_eq split: if_splits)

lemma byte_at_take: "i < n \<Longrightarrow> n \<le> length s \<Longrightarrow> byte_at (take n s @ t) i = byte_at s i"
  by (simp add: byte_at_def nth_append)

lemma utf8_scan_take:
  assumes "utf8_scan s = Inr n" and "s \<noteq> []"
  shows "utf8_scan (take n s @ t) = Inr n"
proof -
  have b: "byte_at (take n s @ t) i = byte_at s i" if "i < n" for i
    using byte_at_take that utf8_scan_length [OF assms] by blast
  have "n \<in> {1, 2, 3, 4}"
    using assms(1) by (auto simp: utf8_scan_def Let_def split: if_splits)
  then consider "n = 1" | "n = 2" | "n = 3" | "n = 4" by blast
  then show ?thesis
    using assms(1) b by cases (auto simp: utf8_scan_def Let_def split: if_splits)
qed

lemma utf8_valid_append_scan:
  assumes "utf8_scan s = Inr n" and "s \<noteq> []"
  shows "utf8_valid (take n s @ t) = utf8_valid t"
proof -
  have "n \<le> length s" "0 < n"
    using utf8_scan_length [OF assms] utf8_scan_pos(1) [OF assms(1)] by auto
  then show ?thesis
    using utf8_scan_take [OF assms, of t] assms(2)
    by (subst utf8_valid.simps) auto
qed

lemma utf8_valid_lossy [simp]: "utf8_valid (from_utf8_lossy s)"
proof (induction s rule: from_utf8_lossy.induct)
  case (1 s)
  show ?case
  proof (cases "s = []")
    case False
    show ?thesis
    proof (cases "utf8_scan s")
      case (Inr n)
      with False 1 show ?thesis
        by (simp add: from_utf8_lossy.simps [of s] utf8_valid_append_scan)
    next
      case (Inl n)
      have "utf8_valid (replacement_char @ t) = utf8_valid t" for t
        by (subst utf8_valid.simps)
          (simp add: replacement_char_def utf8_scan_def byte_at_def is_cont_def second_of_three_def)
      with Inl False 1 show ?thesis
        by (simp add: from_utf8_lossy.simps [of s])
    qed
  qed simp
qed

section \<open>White space\<close>

text \<open>
  \<open>str::trim\<close> removes the Unicode white space at both ends; outside ASCII these are the code points
  U+0085, U+00A0, U+1680, U+2000 to U+200A, U+2028, U+2029, U+202F, U+205F and U+3000.
\<close>

definition wide_spaces :: "nat list list" where
  "wide_spaces = [[0xC2, 0x85], [0xC2, 0xA0], [0xE1, 0x9A, 0x80], [0xE2, 0x80, 0xA8], [0xE2, 0x80, 0xA9],
     [0xE2, 0x80, 0xAF], [0xE2, 0x81, 0x9F], [0xE3, 0x80, 0x80]] @ map (\<lambda>b. [0xE2, 0x80, b]) [0x80..<0x8B]"

definition leading_space :: "nat list list \<Rightarrow> bytes \<Rightarrow> nat" where
  "leading_space wide s =
     (case s of [] \<Rightarrow> 0 | c # _ \<Rightarrow>
        if of_char c \<in> {9 :: nat, 10, 11, 12, 13, 32} then 1
        else if map of_char (take 2 s) \<in> set wide then 2
        else if map of_char (take 3 s) \<in> set wide then 3
        else 0)"

function trim_leading :: "nat list list \<Rightarrow> bytes \<Rightarrow> bytes" where
  "trim_leading wide s =
     (let n = leading_space wide s in if n = 0 \<or> s = [] then s else trim_leading wide (drop n s))"
  by pat_completeness auto
termination by (relation "measure (\<lambda>(_, s). length s)") (auto simp: Let_def)

declare trim_leading.simps [simp del]

definition str_trim :: "string \<Rightarrow> string" where
  "str_trim s = rev (trim_leading (map rev wide_spaces) (rev (trim_leading wide_spaces s)))"

text \<open>\<open>str::lines\<close>: a line break is a line feed with an optional carriage return before it.\<close>

definition strip_cr :: "string \<Rightarrow> string" where
  "strip_cr s = (if s \<noteq> [] \<and> last s = CHR 0x0D then butlast s else s)"

definition str_lines :: "string \<Rightarrow> string list" where
  "str_lines s =
     (let parts = split_on CHR 0x0A s
      in map strip_cr (butlast parts) @ (if last parts = [] then [] else [last parts]))"

end
