(* ===== verification/Meta_Ops.thy ===== *)
theory Meta_Ops
  imports Digest Json Utf8
begin

text \<open>
  The metadata vocabulary of \<open>roci-storage/src/metadata/mod.rs\<close>: the operations a metadata engine
  records and replays, cursor pagination, and the contract of \<open>trait MetadataStore\<close>. The contract
  is stated over a view of the store, one finite map per kind of record; each engine refines it.
\<close>

section \<open>Operations and pages\<close>

datatype meta_op =
    PutManifest string string string "string option" "string list" "(string \<times> bytes) option"
  | PutBackrefs string string "string list"
  | DeleteManifest string string
  | PutReferrer string string string bytes
  | PutChecksum string string u32 u64
  | DeleteBlob string string

record blob_checksum =
  ck_crc32c :: u32
  ck_size :: u64

type_synonym referrer = "string \<times> bytes"

record 'a page =
  page_items :: "'a list"
  page_more :: bool

definition default_page :: "'a page" where
  "default_page = \<lparr>page_items = [], page_more = False\<rparr>"

definition take_page :: "'a list \<Rightarrow> nat \<Rightarrow> 'a page" where
  "take_page it limit = \<lparr>page_items = take limit it, page_more = (drop limit it \<noteq> [])\<rparr>"

definition after :: "string option \<Rightarrow> string \<Rightarrow> bool" where
  "after cursor k \<longleftrightarrow> (case cursor of None \<Rightarrow> True | Some l \<Rightarrow> l < k)"

text \<open>
  A client walks a listing by asking for the page after the last item it has seen, while the
  server says there is more. \<open>walk_pages\<close> is that loop over a server function; the fuel bounds the
  number of requests.
\<close>

fun walk_pages :: "(string option \<Rightarrow> 'a page) \<Rightarrow> ('a \<Rightarrow> string) \<Rightarrow> nat \<Rightarrow> string option \<Rightarrow> 'a list option" where
  "walk_pages server key 0 cursor = None"
| "walk_pages server key (Suc fuel) cursor =
     (let p = server cursor in
      if page_more p \<and> page_items p \<noteq> []
      then map_option (append (page_items p)) (walk_pages server key fuel (Some (key (last (page_items p)))))
      else Some (page_items p))"

lemma filter_after_last:
  assumes "sorted_wrt (<) (map key xs)" and "take n xs \<noteq> []"
  shows "filter (\<lambda>x. after (Some (key (last (take n xs)))) (key x)) xs = drop n xs"
proof -
  let ?l = "last (take n xs)"
  have split: "xs = take n xs @ drop n xs" by simp
  have "sorted_wrt (<) (map key (take n xs @ drop n xs))" using assms(1) by simp
  then have s: "sorted_wrt (<) (map key (take n xs))"
      "\<forall>x\<in>set (take n xs). \<forall>y\<in>set (drop n xs). key x < key y"
    by (simp_all only: map_append sorted_wrt_append set_map) blast
  have le: "key x \<le> key ?l" if "x \<in> set (take n xs)" for x
  proof -
    obtain ys l where ys: "take n xs = ys @ [l]" using assms(2) by (metis rev_exhaust)
    with s(1) have "\<forall>y\<in>set ys. key y < key l" by (simp add: sorted_wrt_append)
    with that show ?thesis by (auto simp: ys)
  qed
  have "filter (\<lambda>x. after (Some (key ?l)) (key x)) (take n xs) = []"
    using le by (auto simp: filter_empty_conv after_def not_less)
  moreover have "filter (\<lambda>x. after (Some (key ?l)) (key x)) (drop n xs) = drop n xs"
    using s(2) assms(2) by (auto simp: filter_id_conv after_def)
  ultimately show ?thesis by (metis append.left_neutral filter_append split)
qed

lemma filter_after_suffix:
  assumes "sorted_wrt (<) (map key xs)" and "filter (\<lambda>x. after cursor (key x)) xs = drop m xs"
    and "take n (drop m xs) \<noteq> []"
  shows "filter (\<lambda>x. after (Some (key (last (take n (drop m xs))))) (key x)) xs = drop (m + n) xs"
proof -
  have eq: "take (m + n) xs = take m xs @ take n (drop m xs)" by (rule take_add)
  then have "last (take n (drop m xs)) = last (take (m + n) xs)"
    using assms(3) by simp
  with filter_after_last [OF assms(1), of "m + n"] eq assms(3) show ?thesis by simp
qed

lemma walk_pages_suffix:
  assumes "sorted_wrt (<) (map key xs)" and "0 < limit"
    and "filter (\<lambda>x. after cursor (key x)) xs = drop m xs" and "length xs - m < fuel"
  shows "walk_pages (\<lambda>l. take_page (filter (\<lambda>x. after l (key x)) xs) limit) key fuel cursor
         = Some (drop m xs)"
  using assms(3,4)
proof (induction fuel arbitrary: cursor m)
  case (Suc fuel)
  let ?p = "take_page (filter (\<lambda>x. after cursor (key x)) xs) limit"
  have p: "page_items ?p = take limit (drop m xs)" "page_more ?p \<longleftrightarrow> limit < length xs - m"
    using Suc.prems(1) by (auto simp: take_page_def)
  show ?case
  proof (cases "page_more ?p")
    case True
    then have ne: "take limit (drop m xs) \<noteq> []" using assms(2) p(2) by auto
    have next_eq: "filter (\<lambda>x. after (Some (key (last (take limit (drop m xs))))) (key x)) xs
        = drop (m + limit) xs"
      using filter_after_suffix [OF assms(1) Suc.prems(1) ne] .
    moreover have "length xs - (m + limit) < fuel" using Suc.prems(2) True p(2) assms(2) by simp
    ultimately show ?thesis
      using Suc.IH [OF next_eq] True ne p
      by (simp add: Let_def) (metis add.commute append_take_drop_id drop_drop)
  next
    case False
    then show ?thesis using p by (simp add: Let_def)
  qed
qed simp

lemma walk_pages_complete:
  assumes "sorted_wrt (<) (map key xs)" and "0 < limit"
  shows "walk_pages (\<lambda>l. take_page (filter (\<lambda>x. after l (key x)) xs) limit) key (Suc (length xs)) None
         = Some xs"
  using walk_pages_suffix [OF assms, of None 0 "Suc (length xs)"] by (simp add: after_def)

lemma take_page_bounded: "length (page_items (take_page xs limit)) \<le> limit"
  by (simp add: take_page_def)

section \<open>The view of a store\<close>

record meta_view =
  v_tags :: "string \<Rightarrow> string \<rightharpoonup> (string \<times> string)"
  v_media :: "string \<Rightarrow> string \<rightharpoonup> string"
  v_referrers :: "string \<Rightarrow> string \<Rightarrow> string \<rightharpoonup> bytes"
  v_backrefs :: "string \<Rightarrow> string \<Rightarrow> string set"
  v_checksums :: "string \<Rightarrow> string \<rightharpoonup> blob_checksum"

definition view_empty :: meta_view where
  "view_empty = \<lparr>v_tags = \<lambda>_. Map.empty, v_media = \<lambda>_. Map.empty, v_referrers = \<lambda>_ _. Map.empty,
     v_backrefs = \<lambda>_ _. {}, v_checksums = \<lambda>_. Map.empty\<rparr>"

definition upd2 :: "'a \<Rightarrow> 'b \<Rightarrow> 'c \<Rightarrow> ('a \<Rightarrow> 'b \<Rightarrow> 'c) \<Rightarrow> 'a \<Rightarrow> 'b \<Rightarrow> 'c" where
  "upd2 a b c f = f(a := (f a)(b := c))"

lemma upd2_apply: "upd2 a b c f x y = (if x = a \<and> y = b then c else f x y)"
  by (simp add: upd2_def)

definition view_backrefs :: "string \<Rightarrow> string \<Rightarrow> string list \<Rightarrow> meta_view \<Rightarrow> meta_view" where
  "view_backrefs repo manifest blobs v = v\<lparr>v_backrefs := (\<lambda>r b.
     if r = repo \<and> b \<in> set blobs then insert manifest (v_backrefs v r b) else v_backrefs v r b)\<rparr>"

definition view_referrer :: "string \<Rightarrow> string \<Rightarrow> string \<Rightarrow> bytes \<Rightarrow> meta_view \<Rightarrow> meta_view" where
  "view_referrer repo subject referrer desc v = v\<lparr>v_referrers :=
     upd2 repo subject ((v_referrers v repo subject)(referrer \<mapsto> desc)) (v_referrers v)\<rparr>"

text \<open>What each operation does to the view.\<close>

fun view_apply :: "meta_op \<Rightarrow> meta_view \<Rightarrow> meta_view" where
  "view_apply (PutManifest repo digest mt tag references ref) v =
     (let v1 = v\<lparr>v_media := upd2 repo digest (Some mt) (v_media v)\<rparr>;
          v2 = (case tag of None \<Rightarrow> v1 | Some t \<Rightarrow> v1\<lparr>v_tags := upd2 repo t (Some (digest, mt)) (v_tags v1)\<rparr>);
          v3 = view_backrefs repo digest references v2
      in case ref of None \<Rightarrow> v3 | Some (subject, desc) \<Rightarrow> view_referrer repo subject digest desc v3)"
| "view_apply (PutBackrefs repo manifest blobs) v = view_backrefs repo manifest blobs v"
| "view_apply (DeleteManifest repo digest) v =
     v\<lparr>v_checksums := upd2 repo digest None (v_checksums v),
       v_media := upd2 repo digest None (v_media v),
       v_tags := (\<lambda>r t. if r = repo \<and> (\<exists>m. v_tags v r t = Some (digest, m)) then None else v_tags v r t),
       v_referrers := (\<lambda>r s d. if r = repo \<and> d = digest then None else v_referrers v r s d),
       v_backrefs := (\<lambda>r b. if r = repo then v_backrefs v r b - {digest} else v_backrefs v r b)\<rparr>"
| "view_apply (PutReferrer repo subject referrer desc) v = view_referrer repo subject referrer desc v"
| "view_apply (PutChecksum repo digest crc sz) v =
     v\<lparr>v_checksums := upd2 repo digest (Some \<lparr>ck_crc32c = crc, ck_size = sz\<rparr>) (v_checksums v)\<rparr>"
| "view_apply (DeleteBlob repo digest) v = v\<lparr>v_checksums := upd2 repo digest None (v_checksums v)\<rparr>"

definition view_run :: "meta_op list \<Rightarrow> meta_view \<Rightarrow> meta_view" where
  "view_run ops v = fold view_apply ops v"

lemma view_run_simps [simp]:
  "view_run [] v = v" "view_run (op # ops) v = view_run ops (view_apply op v)"
  "view_run (ops @ ops') v = view_run ops' (view_run ops v)"
  by (simp_all add: view_run_def)

lemma view_eqI:
  "\<lbrakk>\<And>r t. v_tags v r t = v_tags w r t; \<And>r d. v_media v r d = v_media w r d;
    \<And>r s d. v_referrers v r s d = v_referrers w r s d; \<And>r b. v_backrefs v r b = v_backrefs w r b;
    \<And>r d. v_checksums v r d = v_checksums w r d\<rbrakk> \<Longrightarrow> v = (w :: meta_view)"
  by (intro meta_view.equality) (auto simp: fun_eq_iff)

lemma view_backrefs_sel [simp]:
  "v_tags (view_backrefs r m bs v) = v_tags v" "v_media (view_backrefs r m bs v) = v_media v"
  "v_referrers (view_backrefs r m bs v) = v_referrers v"
  "v_checksums (view_backrefs r m bs v) = v_checksums v"
  "v_backrefs (view_backrefs r m bs v) r' b =
     (if r' = r \<and> b \<in> set bs then insert m (v_backrefs v r' b) else v_backrefs v r' b)"
  by (simp_all add: view_backrefs_def)

lemma view_referrer_sel [simp]:
  "v_tags (view_referrer r s d x v) = v_tags v" "v_media (view_referrer r s d x v) = v_media v"
  "v_backrefs (view_referrer r s d x v) = v_backrefs v"
  "v_checksums (view_referrer r s d x v) = v_checksums v"
  "v_referrers (view_referrer r s d x v) r' s' =
     (if r' = r \<and> s' = s then (v_referrers v r' s')(d \<mapsto> x) else v_referrers v r' s')"
  by (auto simp: view_referrer_def upd2_def)

lemma view_apply_put_tags [meta_simps]:
  "v_tags (view_apply (PutManifest repo digest mt tag refs ref) v) r t =
     (if r = repo \<and> tag = Some t then Some (digest, mt) else v_tags v r t)"
  by (auto simp: Let_def upd2_apply split: option.splits)

lemma view_apply_put_media [meta_simps]:
  "v_media (view_apply (PutManifest repo digest mt tag refs ref) v) r d =
     (if r = repo \<and> d = digest then Some mt else v_media v r d)"
  by (auto simp: Let_def upd2_apply split: option.splits)

lemma view_apply_put_backrefs [meta_simps]:
  "v_backrefs (view_apply (PutManifest repo digest mt tag refs ref) v) r b =
     (if r = repo \<and> b \<in> set refs then insert digest (v_backrefs v r b) else v_backrefs v r b)"
  by (auto simp: Let_def split: option.splits)

lemma view_apply_put_referrers [meta_simps]:
  "v_referrers (view_apply (PutManifest repo digest mt tag refs ref) v) r s d =
     (if r = repo \<and> d = digest \<and> map_option fst ref = Some s then map_option snd ref
      else v_referrers v r s d)"
  by (auto simp: Let_def split: option.splits)

lemma view_apply_put_checksums [meta_simps]:
  "v_checksums (view_apply (PutManifest repo digest mt tag refs ref) v) = v_checksums v"
  by (auto simp: Let_def split: option.splits)

section \<open>Images\<close>

text \<open>
  A list of put operations reproduces a view when every write it makes agrees with the view and
  every entry of the view is written. Repeated writes do no harm, so the order of the list and
  of the engine's iteration does not matter.
\<close>

fun op_agrees :: "meta_view \<Rightarrow> meta_op \<Rightarrow> bool" where
  "op_agrees v (PutManifest r d mt tag refs ref) \<longleftrightarrow>
     refs = [] \<and> ref = None \<and> v_media v r d = Some mt \<and> pred_option (\<lambda>t. v_tags v r t = Some (d, mt)) tag"
| "op_agrees v (PutBackrefs r m bs) \<longleftrightarrow> (\<forall>b\<in>set bs. m \<in> v_backrefs v r b)"
| "op_agrees v (PutReferrer r s d x) \<longleftrightarrow> v_referrers v r s d = Some x"
| "op_agrees v (PutChecksum r d c z) \<longleftrightarrow> v_checksums v r d = Some \<lparr>ck_crc32c = c, ck_size = z\<rparr>"
| "op_agrees v _ \<longleftrightarrow> False"

definition view_le :: "meta_view \<Rightarrow> meta_view \<Rightarrow> bool" where
  "view_le v w \<longleftrightarrow> (\<forall>r t x. v_tags v r t = Some x \<longrightarrow> v_tags w r t = Some x)
     \<and> (\<forall>r d x. v_media v r d = Some x \<longrightarrow> v_media w r d = Some x)
     \<and> (\<forall>r s d x. v_referrers v r s d = Some x \<longrightarrow> v_referrers w r s d = Some x)
     \<and> (\<forall>r b m. m \<in> v_backrefs v r b \<longrightarrow> m \<in> v_backrefs w r b)
     \<and> (\<forall>r d x. v_checksums v r d = Some x \<longrightarrow> v_checksums w r d = Some x)"

definition image_covers :: "meta_view \<Rightarrow> meta_op list \<Rightarrow> bool" where
  "image_covers v ops \<longleftrightarrow>
     (\<forall>r t d m. v_tags v r t = Some (d, m) \<longrightarrow> PutManifest r d m (Some t) [] None \<in> set ops)
     \<and> (\<forall>r d m. v_media v r d = Some m \<longrightarrow> (\<exists>tag. PutManifest r d m tag [] None \<in> set ops))
     \<and> (\<forall>r b m. m \<in> v_backrefs v r b \<longrightarrow> PutBackrefs r m [b] \<in> set ops)
     \<and> (\<forall>r s d x. v_referrers v r s d = Some x \<longrightarrow> PutReferrer r s d x \<in> set ops)
     \<and> (\<forall>r d k. v_checksums v r d = Some k \<longrightarrow> PutChecksum r d (ck_crc32c k) (ck_size k) \<in> set ops)"

lemma view_le_refl [simp]: "view_le v v"
  by (simp add: view_le_def)

lemma view_le_trans: "view_le u v \<Longrightarrow> view_le v w \<Longrightarrow> view_le u w"
  unfolding view_le_def by simp

lemma view_le_empty [simp]: "view_le view_empty v"
  by (simp add: view_le_def view_empty_def)

lemma option_le_antisym:
  "(\<And>y. a = Some y \<Longrightarrow> b = Some y) \<Longrightarrow> (\<And>y. b = Some y \<Longrightarrow> a = Some y) \<Longrightarrow> a = b"
  by (cases a; cases b) auto

lemma view_leD:
  assumes "view_le v w"
  shows "v_tags v r t = Some x \<Longrightarrow> v_tags w r t = Some x"
    and "v_media v r d = Some y \<Longrightarrow> v_media w r d = Some y"
    and "v_referrers v r s d = Some y \<Longrightarrow> v_referrers w r s d = Some y"
    and "v_checksums v r d = Some k \<Longrightarrow> v_checksums w r d = Some k"
    and "m \<in> v_backrefs v r b \<Longrightarrow> m \<in> v_backrefs w r b"
  using assms by (simp_all add: view_le_def del: split_paired_All)

lemma view_le_antisym:
  assumes "view_le v w" and "view_le w v"
  shows "v = w"
proof (rule view_eqI)
  show "v_tags v r t = v_tags w r t" for r t
    by (rule option_le_antisym) (rule view_leD(1), rule assms, assumption)+
  show "v_media v r d = v_media w r d" for r d
    by (rule option_le_antisym) (rule view_leD(2), rule assms, assumption)+
  show "v_referrers v r s d = v_referrers w r s d" for r s d
    by (rule option_le_antisym) (rule view_leD(3), rule assms, assumption)+
  show "v_checksums v r d = v_checksums w r d" for r d
    by (rule option_le_antisym) (rule view_leD(4), rule assms, assumption)+
  show "v_backrefs v r b = v_backrefs w r b" for r b
    by (intro set_eqI iffI) (rule view_leD(5), rule assms, assumption)+
qed

lemma op_agrees_mono: "op_agrees v op \<Longrightarrow> view_le v w \<Longrightarrow> op_agrees w op"
  by (cases op) (auto simp: view_le_def pred_option_def)

lemma op_agrees_apply: "op_agrees V op \<Longrightarrow> op_agrees (view_apply op v) op"
  by (cases op) (auto simp: upd2_apply Let_def split: option.splits)

lemma view_apply_le: "op_agrees V op \<Longrightarrow> view_le v V \<Longrightarrow> view_le (view_apply op v) V"
  by (cases op)
    (auto simp: view_le_def upd2_apply Let_def pred_option_def subset_iff split: option.splits if_splits)

lemma view_apply_ge: "op_agrees V op \<Longrightarrow> view_le v V \<Longrightarrow> view_le v (view_apply op v)"
  by (cases op) (force simp: view_le_def upd2_apply Let_def pred_option_def split: option.splits)+

lemma view_run_agrees:
  assumes "list_all (op_agrees V) ops" and "view_le v V"
  shows "view_le (view_run ops v) V" and "view_le v (view_run ops v)"
    and "list_all (op_agrees (view_run ops v)) ops"
  using assms
proof (induction ops arbitrary: v)
  case (Cons op ops)
  case 1
  with Cons.IH(1) [of "view_apply op v"] show ?case by (simp add: view_apply_le)
next
  case (Cons op ops)
  case 2
  with Cons.IH(2) [of "view_apply op v"] have "view_le (view_apply op v) (view_run (op # ops) v)"
    by (simp add: view_apply_le)
  with 2 view_le_trans [OF view_apply_ge [of V op v]] show ?case by simp
next
  case (Cons op ops)
  case 3
  then have le: "view_le (view_apply op v) V" by (simp add: view_apply_le)
  with 3 Cons.IH(2,3) [of "view_apply op v"] show ?case
    by (auto intro: op_agrees_mono op_agrees_apply)
qed simp_all

lemma view_le_of_covers:
  assumes "image_covers v ops" and "list_all (op_agrees w) ops"
  shows "view_le v w"
proof -
  have ag: "op_agrees w op" if "op \<in> set ops" for op
    using assms(2) that by (simp add: list_all_iff)
  show ?thesis
    unfolding view_le_def
  proof (intro conjI allI impI)
    fix r t x assume "v_tags v r t = Some x"
    then have "PutManifest r (fst x) (snd x) (Some t) [] None \<in> set ops"
      using assms(1) by (cases x) (simp add: image_covers_def)
    then show "v_tags w r t = Some x" using ag by fastforce
  next
    fix r d x assume "v_media v r d = Some x"
    then obtain tag where "PutManifest r d x tag [] None \<in> set ops"
      using assms(1) unfolding image_covers_def by meson
    then show "v_media w r d = Some x" using ag by fastforce
  next
    fix r s d x assume "v_referrers v r s d = Some x"
    then have "PutReferrer r s d x \<in> set ops" using assms(1) by (simp add: image_covers_def)
    then show "v_referrers w r s d = Some x" using ag by fastforce
  next
    fix r b m assume "m \<in> v_backrefs v r b"
    then have "PutBackrefs r m [b] \<in> set ops" using assms(1) by (simp add: image_covers_def)
    then show "m \<in> v_backrefs w r b" using ag by fastforce
  next
    fix r d x assume "v_checksums v r d = Some x"
    then have "PutChecksum r d (ck_crc32c x) (ck_size x) \<in> set ops"
      using assms(1) by (simp add: image_covers_def)
    then show "v_checksums w r d = Some x" using ag by fastforce
  qed
qed

lemma image_reproduces:
  assumes "list_all (op_agrees v) ops" and "image_covers v ops"
  shows "view_run ops view_empty = v"
  using view_run_agrees [OF assms(1) view_le_empty] view_le_of_covers [OF assms(2)]
  by (intro view_le_antisym) auto

text \<open>Every tag carries the media type recorded for its manifest.\<close>

definition tags_typed :: "meta_view \<Rightarrow> bool" where
  "tags_typed v \<longleftrightarrow> (\<forall>r t d m. v_tags v r t = Some (d, m) \<longrightarrow> v_media v r d = Some m)"

text \<open>A history that never gives one manifest two media types keeps tags typed.\<close>

definition op_typed :: "(string \<Rightarrow> string \<Rightarrow> string) \<Rightarrow> meta_op \<Rightarrow> bool" where
  "op_typed mt_of op \<longleftrightarrow> (case op of PutManifest r d m _ _ _ \<Rightarrow> m = mt_of r d | _ \<Rightarrow> True)"

definition view_typed :: "(string \<Rightarrow> string \<Rightarrow> string) \<Rightarrow> meta_view \<Rightarrow> bool" where
  "view_typed mt_of v \<longleftrightarrow> tags_typed v \<and> (\<forall>r d m. v_media v r d = Some m \<longrightarrow> m = mt_of r d)"

lemma view_typed_empty [simp]: "view_typed f view_empty"
  by (simp add: view_typed_def tags_typed_def view_empty_def)

lemma view_typed_apply: "view_typed f v \<Longrightarrow> op_typed f op \<Longrightarrow> view_typed f (view_apply op v)"
proof (cases op)
  case (PutManifest r d m tag refs ref)
  assume a: "view_typed f v" "op_typed f op"
  then have "m = f r d" by (simp add: op_typed_def PutManifest)
  with a show ?thesis
    unfolding view_typed_def tags_typed_def PutManifest view_apply_put_tags view_apply_put_media
    by auto
qed (auto simp: view_typed_def tags_typed_def upd2_apply split: if_splits)

lemma view_typed_run: "view_typed f v \<Longrightarrow> list_all (op_typed f) ops \<Longrightarrow> view_typed f (view_run ops v)"
  by (induction ops arbitrary: v) (auto simp: view_typed_apply)

section \<open>The contract of a metadata engine\<close>

definition view_tags_page :: "meta_view \<Rightarrow> string \<Rightarrow> string option \<Rightarrow> nat \<Rightarrow> string page option" where
  "view_tags_page v repo cursor limit =
     (if v_tags v repo = Map.empty then None
      else Some (take_page (filter (after cursor) (sorted_list_of_set (dom (v_tags v repo)))) limit))"

definition view_referrers_page ::
  "(bytes \<Rightarrow> string option) \<Rightarrow> meta_view \<Rightarrow> string \<Rightarrow> string \<Rightarrow> string option \<Rightarrow> string option \<Rightarrow> nat
   \<Rightarrow> referrer page option" where
  "view_referrers_page aty v repo subject at cursor limit =
     (let m = v_referrers v repo subject;
          wanted = (\<lambda>d. at = None \<or> aty (the (m d)) = at)
      in if m = Map.empty then None
         else Some (take_page (map (\<lambda>d. (d, the (m d)))
                (filter (after cursor) (filter wanted (sorted_list_of_set (dom m))))) limit))"

text \<open>
  \<open>trait MetadataStore\<close> over an engine whose laws its invariant carries. \<open>view\<close> reads the state as a view; \<open>op_ok\<close> and \<open>key_ok\<close> are the operations
  and query arguments the engine can represent; \<open>aty\<close> extracts a descriptor's artifact type.
\<close>

locale metadata_engine =
  fixes view :: "'s \<Rightarrow> meta_view"
    and invar :: "'s \<Rightarrow> bool"
    and apply_op :: "meta_op \<Rightarrow> 's \<Rightarrow> 's"
    and op_ok :: "meta_op \<Rightarrow> bool"
    and key_ok :: "string \<Rightarrow> bool"
    and aty :: "bytes \<Rightarrow> string option"
    and resolve_tag :: "'s \<Rightarrow> string \<Rightarrow> string \<Rightarrow> (string \<times> string) option"
    and manifest_media_type :: "'s \<Rightarrow> string \<Rightarrow> string \<Rightarrow> string option"
    and tags_page :: "'s \<Rightarrow> string \<Rightarrow> string option \<Rightarrow> nat \<Rightarrow> string page option"
    and referrers_page :: "'s \<Rightarrow> string \<Rightarrow> string \<Rightarrow> string option \<Rightarrow> string option \<Rightarrow> nat \<Rightarrow> referrer page option"
    and has_referrer :: "'s \<Rightarrow> string \<Rightarrow> string \<Rightarrow> string \<Rightarrow> bool"
    and backrefs :: "'s \<Rightarrow> string \<Rightarrow> string \<Rightarrow> string list"
    and checksum :: "'s \<Rightarrow> string \<Rightarrow> string \<Rightarrow> blob_checksum option"
  assumes invar_apply: "\<lbrakk>invar s; op_ok op\<rbrakk> \<Longrightarrow> invar (apply_op op s)"
    and view_apply_op: "\<lbrakk>invar s; op_ok op\<rbrakk> \<Longrightarrow> view (apply_op op s) = view_apply op (view s)"
    and finite_tags: "invar s \<Longrightarrow> finite (dom (v_tags (view s) r))"
    and resolve_tag_view: "\<lbrakk>invar s; key_ok r; key_ok t\<rbrakk> \<Longrightarrow> resolve_tag s r t = v_tags (view s) r t"
    and media_type_view: "\<lbrakk>invar s; key_ok r; key_ok d\<rbrakk> \<Longrightarrow> manifest_media_type s r d = v_media (view s) r d"
    and tags_page_view: "\<lbrakk>invar s; key_ok r; pred_option key_ok c\<rbrakk> \<Longrightarrow>
        tags_page s r c n = view_tags_page (view s) r c n"
    and referrers_page_view: "\<lbrakk>invar s; key_ok r; key_ok sub; pred_option key_ok at; pred_option key_ok c\<rbrakk> \<Longrightarrow>
        referrers_page s r sub at c n = view_referrers_page aty (view s) r sub at c n"
    and has_referrer_view: "\<lbrakk>invar s; key_ok r; key_ok sub; key_ok d\<rbrakk> \<Longrightarrow>
        has_referrer s r sub d \<longleftrightarrow> v_referrers (view s) r sub d \<noteq> None"
    and backrefs_view: "\<lbrakk>invar s; key_ok r; key_ok b\<rbrakk> \<Longrightarrow>
        set (backrefs s r b) = v_backrefs (view s) r b \<and> distinct (backrefs s r b)"
    and checksum_view: "\<lbrakk>invar s; key_ok r; key_ok d\<rbrakk> \<Longrightarrow> checksum s r d = v_checksums (view s) r d"
begin

lemma run_invar: "\<lbrakk>invar s; list_all op_ok ops\<rbrakk> \<Longrightarrow> invar (fold apply_op ops s)"
  by (induction ops arbitrary: s) (auto simp: invar_apply)

lemma run_view:
  "\<lbrakk>invar s; list_all op_ok ops\<rbrakk> \<Longrightarrow> view (fold apply_op ops s) = view_run ops (view s)"
  by (induction ops arbitrary: s) (auto simp: invar_apply view_apply_op)

text \<open>A tag resolves to what was last pushed under it.\<close>

lemma put_resolves:
  assumes "invar s" "op_ok (PutManifest r d mt (Some t) refs ref)" "key_ok r" "key_ok t"
  shows "resolve_tag (apply_op (PutManifest r d mt (Some t) refs ref) s) r t = Some (d, mt)"
  using assms by (simp only: resolve_tag_view invar_apply view_apply_op view_apply_put_tags) simp

text \<open>Deleting a manifest removes every trace of it from the repository.\<close>

lemma delete_forgets:
  assumes "invar s" "op_ok (DeleteManifest r d)" "key_ok r" "key_ok t" "key_ok d" "key_ok x"
  shows "resolve_tag (apply_op (DeleteManifest r d) s) r t \<noteq> Some (d, mt)"
    and "manifest_media_type (apply_op (DeleteManifest r d) s) r d = None"
    and "\<not> has_referrer (apply_op (DeleteManifest r d) s) r x d"
    and "d \<notin> set (backrefs (apply_op (DeleteManifest r d) s) r x)"
    and "checksum (apply_op (DeleteManifest r d) s) r d = None"
  using assms
  by (simp_all add: resolve_tag_view media_type_view has_referrer_view backrefs_view checksum_view
      invar_apply view_apply_op upd2_apply)

text \<open>Walking the pages lists every tag once, in order.\<close>

lemma tags_walk:
  assumes "invar s" "key_ok r" "\<And>c. key_ok c" "0 < n" "v_tags (view s) r \<noteq> Map.empty"
  shows "walk_pages (\<lambda>c. the (tags_page s r c n)) id (Suc (card (dom (v_tags (view s) r)))) None
         = Some (sorted_list_of_set (dom (v_tags (view s) r)))"
proof -
  let ?xs = "sorted_list_of_set (dom (v_tags (view s) r))"
  have "pred_option key_ok c" for c using assms(3) by (simp add: pred_option_def)
  then have "(\<lambda>c. the (tags_page s r c n)) = (\<lambda>c. take_page (filter (\<lambda>x. after c (id x)) ?xs) n)"
    using assms by (simp add: tags_page_view view_tags_page_def)
  moreover have "sorted_wrt (<) (map id ?xs)" by simp
  ultimately show ?thesis
    using walk_pages_complete [of id ?xs n] assms(4) by simp
qed

end

text \<open>An engine that starts empty.\<close>

locale metadata_store = metadata_engine +
  fixes fresh
  assumes invar_fresh: "invar fresh"
    and view_fresh: "view fresh = view_empty"
begin

lemma run_fresh_view: "list_all op_ok ops \<Longrightarrow> view (fold apply_op ops fresh) = view_run ops view_empty"
  by (simp add: run_view invar_fresh view_fresh)

end

end
