(* ===== verification/Packages.thy ===== *)
theory Packages
  imports Digest Json Utf8
begin

text \<open>
  The third-party packages the metadata and HTTP layers call, as one parameter record:
  \<open>serde_json::from_slice\<close> and \<open>to_vec\<close>, and the HMAC-SHA256 of the \<open>hmac\<close> package (key, data).
  The hash functions come from \<open>hash_api\<close>.
\<close>

record ext_api = hash_api +
  from_slice :: "bytes \<Rightarrow> json option"
  to_vec :: "json \<Rightarrow> bytes"
  hmac_tag :: "bytes \<Rightarrow> bytes \<Rightarrow> bytes"
  hmac_verify :: "bytes \<Rightarrow> bytes \<Rightarrow> bytes \<Rightarrow> bool"

text \<open>The JSON values a Rust program can build from integers and strings: every string is valid
  UTF-8 and every object is in key order.\<close>

fun json_wf :: "json \<Rightarrow> bool" where
  "json_wf JNull \<longleftrightarrow> True"
| "json_wf (JBool b) \<longleftrightarrow> True"
| "json_wf (JNumber n) \<longleftrightarrow> (case n of PosInt _ \<Rightarrow> True | NegInt i \<Rightarrow> - (2 ^ 63) \<le> i \<and> i < 0 | Float _ \<Rightarrow> False)"
| "json_wf (JString s) \<longleftrightarrow> utf8_valid s"
| "json_wf (JArray vs) \<longleftrightarrow> list_all json_wf vs"
| "json_wf (JObject kvs) \<longleftrightarrow> bt_invar kvs \<and> list_all (\<lambda>(k, v). utf8_valid k \<and> json_wf v) kvs"

text \<open>The text of a compaction's generation marker, and the value it denotes.\<close>

definition gen_marker_text :: "u64 \<Rightarrow> bytes" where
  "gen_marker_text g = ''{'' @ [CHR 0x22] @ ''op'' @ [CHR 0x22] @ '':'' @ [CHR 0x22] @ ''gen''
     @ [CHR 0x22] @ '','' @ [CHR 0x22] @ ''gen'' @ [CHR 0x22] @ '':'' @ show_u64 g @ ''}''"

definition gen_marker_json :: "u64 \<Rightarrow> json" where
  "gen_marker_json g = JObject [(''gen'', JNumber (PosInt g)), (''op'', JString ''gen'')]"

text \<open>
  What the packages document: printing and then parsing a value gives it back, the marker text is
  the JSON it spells, and a MAC has 32 bytes and verifies exactly against the tag of the same key
  and data.
\<close>

definition ext_ok :: "'a ext_api_scheme \<Rightarrow> bool" where
  "ext_ok E \<longleftrightarrow>
     (\<forall>v. json_wf v \<longrightarrow> from_slice E (to_vec E v) = Some v) \<and>
     (\<forall>g. from_slice E (gen_marker_text g) = Some (gen_marker_json g)) \<and>
     (\<forall>k d. length (hmac_tag E k d) = 32) \<and>
     (\<forall>k d t. hmac_verify E k d t \<longleftrightarrow> t = hmac_tag E k d)"

lemma ext_okD:
  assumes "ext_ok E"
  shows "json_wf v \<Longrightarrow> from_slice E (to_vec E v) = Some v"
    and "from_slice E (gen_marker_text g) = Some (gen_marker_json g)"
    and "length (hmac_tag E k d) = 32"
    and "hmac_verify E k d t \<longleftrightarrow> t = hmac_tag E k d"
  using assms by (auto simp: ext_ok_def)

end
