(* ===== verification/Sample_Packages.thy ===== *)
theory Sample_Packages
  imports Packages
begin

text \<open>
  A concrete instance of the package parameters, for the examples that evaluate the model: a
  self-delimiting binary encoding of JSON values with its decoder, and simple functions of the
  right shape for the hashes and the MAC. It shows that the laws assumed of the packages can hold.
\<close>

definition unary :: "nat \<Rightarrow> bytes" where
  "unary n = replicate n CHR ''1'' @ ''0''"

fun read_unary :: "bytes \<Rightarrow> nat \<times> bytes" where
  "read_unary (c # s) = (if c = CHR ''1'' then (case read_unary s of (n, t) \<Rightarrow> (Suc n, t)) else (0, s))"
| "read_unary [] = (0, [])"

lemma read_unary_unary [simp]: "read_unary (unary n @ s) = (n, s)"
  unfolding unary_def by (induction n) auto

definition enc_str :: "string \<Rightarrow> bytes" where
  "enc_str s = unary (length s) @ s"

definition dec_str :: "bytes \<Rightarrow> string \<times> bytes" where
  "dec_str b = (case read_unary b of (n, s) \<Rightarrow> (take n s, drop n s))"

lemma dec_enc_str [simp]: "dec_str (enc_str s @ r) = (s, r)"
  by (simp add: dec_str_def enc_str_def)

fun enc_number :: "number \<Rightarrow> bytes" where
  "enc_number (PosInt w) = CHR ''p'' # le_bytes 8 (unat w)"
| "enc_number (NegInt i) = CHR ''m'' # le_bytes 8 (nat (- i))"
| "enc_number (Float w) = CHR ''d'' # le_bytes 8 (unat w)"

fun enc_json :: "json \<Rightarrow> bytes" where
  "enc_json JNull = ''n''"
| "enc_json (JBool b) = (if b then ''t'' else ''f'')"
| "enc_json (JNumber n) = enc_number n"
| "enc_json (JString s) = CHR ''s'' # enc_str s"
| "enc_json (JArray vs) = CHR ''a'' # unary (length vs) @ concat (map enc_json vs)"
| "enc_json (JObject kvs) =
     CHR ''o'' # unary (length kvs) @ concat (map (\<lambda>(k, v). enc_str k @ enc_json v) kvs)"

primrec read_many :: "nat \<Rightarrow> (bytes \<Rightarrow> ('a \<times> bytes) option) \<Rightarrow> bytes \<Rightarrow> ('a list \<times> bytes) option" where
  "read_many 0 f s = Some ([], s)"
| "read_many (Suc n) f s =
     Option.bind (f s) (\<lambda>(x, t). map_option (\<lambda>(xs, u). (x # xs, u)) (read_many n f t))"

primrec dec_json :: "nat \<Rightarrow> bytes \<Rightarrow> (json \<times> bytes) option" where
  "dec_json 0 b = None"
| "dec_json (Suc fuel) b =
     (case b of [] \<Rightarrow> None | c # s \<Rightarrow>
        if c = CHR ''n'' then Some (JNull, s)
        else if c = CHR ''t'' then Some (JBool True, s)
        else if c = CHR ''f'' then Some (JBool False, s)
        else if c = CHR ''p'' then Some (JNumber (PosInt (of_nat (le_value (take 8 s)))), drop 8 s)
        else if c = CHR ''m'' then Some (JNumber (NegInt (- int (le_value (take 8 s)))), drop 8 s)
        else if c = CHR ''s'' then (case dec_str s of (x, t) \<Rightarrow> Some (JString x, t))
        else if c = CHR ''a'' then
          (case read_unary s of (n, t) \<Rightarrow>
             map_option (\<lambda>(vs, u). (JArray vs, u)) (read_many n (dec_json fuel) t))
        else if c = CHR ''o'' then
          (case read_unary s of (n, t) \<Rightarrow>
             map_option (\<lambda>(vs, u). (JObject vs, u))
               (read_many n (\<lambda>b. case dec_str b of (k, u) \<Rightarrow>
                  map_option (\<lambda>(v, w). ((k, v), w)) (dec_json fuel u)) t))
        else None)"

lemma size_list_member: "x \<in> set xs \<Longrightarrow> f x \<le> size_list f xs"
  by (induction xs) auto

lemma read_many_concat:
  assumes "\<And>x r. x \<in> set xs \<Longrightarrow> f (g x @ r) = Some (x, r)"
  shows "read_many (length xs) f (concat (map g xs) @ r) = Some (xs, r)"
  using assms by (induction xs) auto

lemma dec_enc_json: "json_wf v \<Longrightarrow> size v \<le> fuel \<Longrightarrow> dec_json (Suc fuel) (enc_json v @ r) = Some (v, r)"
proof (induction v arbitrary: fuel r)
  case (JNumber n)
  have "unat (w::u64) mod 18446744073709551616 = unat w" for w using unat_u64_less [of w] by simp
  moreover have "nat (- i) mod 18446744073709551616 = nat (- i)" if "- (2 ^ 63) \<le> i" for i
    using that by simp
  ultimately show ?case using JNumber by (cases n) auto
next
  case (JArray vs)
  have "dec_json fuel (enc_json v @ r) = Some (v, r)" if "v \<in> set vs" for v r
  proof -
    have "size v \<le> size_list size vs" using that by (simp add: size_list_estimation')
    then obtain k where "fuel = Suc k" "size v \<le> k" using JArray.prems(2) by (cases fuel) auto
    then show ?thesis using JArray that by (simp add: list_all_iff)
  qed
  then show ?case using read_many_concat [of vs "dec_json fuel" enc_json r] by simp
next
  case (JObject kvs)
  let ?f = "\<lambda>b. case dec_str b of (k, u) \<Rightarrow> map_option (\<lambda>(v, w). ((k, v), w)) (dec_json fuel u)"
  have "?f ((case kv of (k, v) \<Rightarrow> enc_str k @ enc_json v) @ r) = Some (kv, r)" if "kv \<in> set kvs" for kv r
  proof -
    obtain k v where kv: "kv = (k, v)" by (cases kv)
    have "size v \<le> size_prod (\<lambda>_. 0) size kv" by (simp add: kv)
    also have "\<dots> \<le> size_list (size_prod (\<lambda>_. 0) size) kvs" using that by (rule size_list_member)
    finally obtain f where f: "fuel = Suc f" "size v \<le> f" using JObject.prems(2) by (cases fuel) auto
    moreover have "json_wf v" using JObject.prems(1) that kv by (auto simp: list_all_iff)
    moreover have "v \<in> Basic_BNFs.snds kv" by (simp add: kv)
    ultimately have "dec_json (Suc f) (enc_json v @ r) = Some (v, r)"
      using JObject.IH [OF that] by blast
    then show ?thesis by (simp add: kv f)
  qed
  then show ?case
    using read_many_concat [of kvs ?f "\<lambda>(k, v). enc_str k @ enc_json v" r] by simp
qed auto

lemma length_concat_ge:
  "(\<And>x. x \<in> set xs \<Longrightarrow> f x \<le> length (g x)) \<Longrightarrow> size_list f xs \<le> length xs + length (concat (map g xs))"
proof (induction xs)
  case (Cons a xs)
  have "f a \<le> length (g a)" by (simp add: Cons.prems)
  moreover have "size_list f xs \<le> length xs + length (concat (map g xs))"
    by (rule Cons.IH) (simp add: Cons.prems)
  ultimately show ?case by simp
qed simp

lemma enc_json_length: "size v \<le> length (enc_json v)"
proof (induction v)
  case (JNumber n)
  then show ?case by (cases n) auto
next
  case (JArray vs)
  then show ?case using length_concat_ge [of vs size enc_json] by (simp add: unary_def)
next
  case (JObject kvs)
  have "size_prod (\<lambda>_. 0) size kv \<le> length (case kv of (k, v) \<Rightarrow> enc_str k @ enc_json v)"
    if "kv \<in> set kvs" for kv
  proof -
    obtain k v where kv: "kv = (k, v)" by (cases kv)
    have "size v \<le> length (enc_json v)" by (rule JObject.IH [OF that]) (simp add: kv)
    then show ?thesis by (simp add: kv enc_str_def unary_def)
  qed
  then show ?case
    using length_concat_ge [of kvs "size_prod (\<lambda>_. 0) size" "\<lambda>(k, v). enc_str k @ enc_json v"]
    by (simp add: unary_def)
qed simp_all

text \<open>The decoder of the instance also reads the generation marker's literal text.\<close>

definition marker_head :: bytes where
  "marker_head = ''{'' @ [CHR 0x22] @ ''op'' @ [CHR 0x22] @ '':'' @ [CHR 0x22] @ ''gen''
     @ [CHR 0x22] @ '','' @ [CHR 0x22] @ ''gen'' @ [CHR 0x22] @ '':''"

definition sample_from_slice :: "bytes \<Rightarrow> json option" where
  "sample_from_slice b =
     (if take 1 b = ''{''
      then map_option gen_marker_json (parse_u64 (takeWhile is_ascii_digit (drop (length marker_head) b)))
      else case dec_json (Suc (length b)) b of Some (v, []) \<Rightarrow> Some v | _ \<Rightarrow> None)"

definition sample_ext :: ext_api where
  "sample_ext = \<lparr>
     sha256_hex = (\<lambda>b. replicate 63 CHR ''0'' @ [if even (length b) then CHR ''a'' else CHR ''b'']),
     sha512_hex = (\<lambda>b. replicate 127 CHR ''0'' @ [if even (length b) then CHR ''a'' else CHR ''b'']),
     crc32c_append = (\<lambda>c b. foldl (\<lambda>a x. a + of_nat (of_char x)) c b),
     from_slice = sample_from_slice,
     to_vec = enc_json,
     hmac_tag = (\<lambda>k d. le_bytes 32 (le_value k + le_value d)),
     hmac_verify = (\<lambda>k d t. t = le_bytes 32 (le_value k + le_value d))\<rparr>"

lemma enc_json_hd: "take 1 (enc_json v) \<noteq> ''{''"
proof (cases v)
  case (JNumber n)
  then show ?thesis by (cases n) auto
qed simp_all

lemma sample_from_slice_marker: "sample_from_slice (gen_marker_text g) = Some (gen_marker_json g)"
proof -
  have t: "gen_marker_text g = marker_head @ show_u64 g @ ''}''"
    by (simp add: gen_marker_text_def marker_head_def)
  have digits: "\<forall>c\<in>set (show_u64 g). is_ascii_digit c"
    using show_nat_digits [of "unat g"] by (simp add: show_u64_def list_all_iff)
  have "takeWhile is_ascii_digit (show_u64 g @ ''}'') = show_u64 g"
    using digits by (simp add: takeWhile_append2) (simp add: is_ascii_digit_def)
  then show ?thesis
    by (simp add: sample_from_slice_def t) (simp add: marker_head_def)
qed

lemma sample_ext_ok: "ext_ok sample_ext"
proof -
  have "sample_from_slice (enc_json v) = Some v" if "json_wf v" for v
    using dec_enc_json [OF that enc_json_length, of "[]"] enc_json_hd [of v]
    by (simp add: sample_from_slice_def del: dec_json.simps)
  then show ?thesis
    by (simp add: ext_ok_def sample_ext_def sample_from_slice_marker)
qed

lemma sample_hash_ok: "hash_api_ok sample_ext"
  by (simp add: hash_api_ok_def sample_ext_def lower_hex_def list_all_iff ascii_class_defs)

end
