(* ===== verification/Meta_Log.thy ===== *)
theory Meta_Log
  imports Meta_Ops Sample_Packages
begin

text \<open>
  The in-memory state of the default metadata engine (\<open>roci-storage/src/metadata/log.rs\<close>): the maps
  per repository, how each operation changes them, the queries, and the operation image that
  compaction and export write. The engine implements the contract of \<open>Meta_Ops\<close>.
\<close>

section \<open>State\<close>

record subject_referrers =
  by_digest :: "(string, string option \<times> bytes) btree_map"
  by_type :: "(string, string list) hash_map"

record repo_state =
  rs_tags :: "(string, string \<times> string) btree_map"
  rs_media_types :: "(string, string) hash_map"
  rs_referrers :: "(string, subject_referrers) hash_map"
  rs_backrefs :: "(string, string list) hash_map"
  rs_checksums :: "(string, blob_checksum) hash_map"

record state =
  repos :: "(string, repo_state) hash_map"
  media_type_interner :: "string list"

definition subject_referrers_default :: subject_referrers where
  "subject_referrers_default = \<lparr>by_digest = [], by_type = []\<rparr>"

definition repo_state_default :: repo_state where
  "repo_state_default = \<lparr>rs_tags = [], rs_media_types = [], rs_referrers = [], rs_backrefs = [],
     rs_checksums = []\<rparr>"

definition state_default :: state where
  "state_default = \<lparr>repos = [], media_type_interner = []\<rparr>"

text \<open>\<open>map.entry(k).or_default()\<close>: the value an update starts from.\<close>

definition entry_or :: "'v \<Rightarrow> 'k \<Rightarrow> ('k \<times> 'v) list \<Rightarrow> 'v" where
  "entry_or d k m = (case map_of m k of None \<Rightarrow> d | Some v \<Rightarrow> v)"

section \<open>Referrers of one subject\<close>

definition artifact_type_of :: "'a ext_api_scheme \<Rightarrow> bytes \<Rightarrow> string option" where
  "artifact_type_of E descriptor = Option.bind (from_slice E descriptor) (get_str ''artifactType'')"

definition sr_remove :: "string \<Rightarrow> subject_referrers \<Rightarrow> subject_referrers" where
  "sr_remove ref sr =
     (let removed = map_of (by_digest sr) ref;
          sr1 = sr\<lparr>by_digest := bt_remove ref (by_digest sr)\<rparr>
      in case removed of
           Some (Some t, _) \<Rightarrow>
             (case map_of (by_type sr1) t of
                None \<Rightarrow> sr1
              | Some set0 \<Rightarrow>
                  (let set1 = removeAll ref set0
                   in if set1 = [] then sr1\<lparr>by_type := AList.delete t (by_type sr1)\<rparr>
                      else sr1\<lparr>by_type := AList.update t set1 (by_type sr1)\<rparr>))
         | _ \<Rightarrow> sr1)"

definition sr_insert :: "'a ext_api_scheme \<Rightarrow> string \<Rightarrow> bytes \<Rightarrow> subject_referrers \<Rightarrow> subject_referrers" where
  "sr_insert E ref descriptor sr =
     (let artifact_type = artifact_type_of E descriptor;
          sr1 = sr_remove ref sr;
          sr2 = (case artifact_type of
                   None \<Rightarrow> sr1
                 | Some t \<Rightarrow> sr1\<lparr>by_type := AList.update t (insort_insert ref (entry_or [] t (by_type sr1)))
                                            (by_type sr1)\<rparr>)
      in sr2\<lparr>by_digest := bt_insert ref (artifact_type, descriptor) (by_digest sr2)\<rparr>)"

definition sr_page :: "string option \<Rightarrow> string option \<Rightarrow> nat \<Rightarrow> subject_referrers \<Rightarrow> referrer page" where
  "sr_page artifact_type cursor limit sr =
     (case artifact_type of
        None \<Rightarrow> take_page (map (\<lambda>(d, (_, b)). (d, b)) (filter (\<lambda>(d, _). after cursor d) (by_digest sr))) limit
      | Some t \<Rightarrow>
          (case map_of (by_type sr) t of
             Some ds \<Rightarrow> take_page (map (\<lambda>d. (d, snd (the (map_of (by_digest sr) d)))) (filter (after cursor) ds)) limit
           | None \<Rightarrow> default_page))"

section \<open>Operations\<close>

definition intern_media_type :: "string \<Rightarrow> state \<Rightarrow> string \<times> state" where
  "intern_media_type s st =
     (if s \<in> set (media_type_interner st) then (s, st)
      else (s, st\<lparr>media_type_interner := s # media_type_interner st\<rparr>))"

text \<open>\<open>repo_mut\<close> followed by an update of the repository's state in place.\<close>

definition repo_mut :: "string \<Rightarrow> (repo_state \<Rightarrow> repo_state) \<Rightarrow> state \<Rightarrow> state" where
  "repo_mut repo f st =
     st\<lparr>repos := AList.update repo (f (entry_or repo_state_default repo (repos st))) (repos st)\<rparr>"

definition push_backref :: "string \<Rightarrow> string \<Rightarrow> (string, string list) hash_map \<Rightarrow> (string, string list) hash_map" where
  "push_backref manifest blob m =
     (let set0 = entry_or [] blob m
      in AList.update blob (if manifest \<in> set set0 then set0 else set0 @ [manifest]) m)"

definition add_backrefs :: "string \<Rightarrow> string \<Rightarrow> string list \<Rightarrow> state \<Rightarrow> state" where
  "add_backrefs repo manifest blobs st =
     repo_mut repo (\<lambda>rs. rs\<lparr>rs_backrefs := fold (push_backref manifest) blobs (rs_backrefs rs)\<rparr>) st"

definition add_referrer :: "'a ext_api_scheme \<Rightarrow> string \<Rightarrow> string \<Rightarrow> string \<Rightarrow> bytes \<Rightarrow> state \<Rightarrow> state" where
  "add_referrer E repo subject ref descriptor st =
     repo_mut repo (\<lambda>rs. rs\<lparr>rs_referrers :=
       AList.update subject (sr_insert E ref descriptor (entry_or subject_referrers_default subject (rs_referrers rs)))
         (rs_referrers rs)\<rparr>) st"

definition delete_manifest_rs :: "string \<Rightarrow> repo_state \<Rightarrow> repo_state" where
  "delete_manifest_rs digest rs =
     rs\<lparr>rs_checksums := AList.delete digest (rs_checksums rs),
        rs_media_types := AList.delete digest (rs_media_types rs),
        rs_tags := filter (\<lambda>(_, (d, _)). d \<noteq> digest) (rs_tags rs),
        rs_referrers := retain_map (sr_remove digest) (\<lambda>refs. by_digest refs \<noteq> []) (rs_referrers rs),
        rs_backrefs := retain_map (filter (\<lambda>m. m \<noteq> digest)) (\<lambda>ms. ms \<noteq> []) (rs_backrefs rs)\<rparr>"

fun apply_in_ram :: "'a ext_api_scheme \<Rightarrow> meta_op \<Rightarrow> state \<Rightarrow> state" where
  "apply_in_ram E (PutManifest repo digest media_type tag references referrer) st =
     (let (mt, st1) = intern_media_type media_type st;
          st2 = repo_mut repo (\<lambda>rs.
            let rs1 = rs\<lparr>rs_media_types := AList.update digest mt (rs_media_types rs)\<rparr>
            in case tag of
                 None \<Rightarrow> rs1
               | Some t \<Rightarrow> rs1\<lparr>rs_tags := bt_insert t (digest, mt) (rs_tags rs1)\<rparr>) st1;
          st3 = add_backrefs repo digest references st2
      in case referrer of
           None \<Rightarrow> st3
         | Some (subject, descriptor) \<Rightarrow> add_referrer E repo subject digest descriptor st3)"
| "apply_in_ram E (DeleteManifest repo digest) st = repo_mut repo (delete_manifest_rs digest) st"
| "apply_in_ram E (PutBackrefs repo manifest blobs) st = add_backrefs repo manifest blobs st"
| "apply_in_ram E (PutReferrer repo subject referrer descriptor) st =
     add_referrer E repo subject referrer descriptor st"
| "apply_in_ram E (PutChecksum repo digest crc sz) st =
     repo_mut repo (\<lambda>rs. rs\<lparr>rs_checksums := AList.update digest \<lparr>ck_crc32c = crc, ck_size = sz\<rparr> (rs_checksums rs)\<rparr>) st"
| "apply_in_ram E (DeleteBlob repo digest) st =
     repo_mut repo (\<lambda>rs. rs\<lparr>rs_checksums := AList.delete digest (rs_checksums rs)\<rparr>) st"

section \<open>Queries\<close>

definition log_resolve_tag :: "state \<Rightarrow> string \<Rightarrow> string \<Rightarrow> (string \<times> string) option" where
  "log_resolve_tag st repo tag = Option.bind (map_of (repos st) repo) (\<lambda>rs. map_of (rs_tags rs) tag)"

definition log_manifest_media_type :: "state \<Rightarrow> string \<Rightarrow> string \<Rightarrow> string option" where
  "log_manifest_media_type st repo digest =
     Option.bind (map_of (repos st) repo) (\<lambda>rs. map_of (rs_media_types rs) digest)"

definition log_tags_page :: "state \<Rightarrow> string \<Rightarrow> string option \<Rightarrow> nat \<Rightarrow> string page option" where
  "log_tags_page st repo cursor limit =
     Option.bind (map_of (repos st) repo) (\<lambda>rs.
       if rs_tags rs = [] then None
       else Some (take_page (map fst (filter (\<lambda>(t, _). after cursor t) (rs_tags rs))) limit))"

definition log_referrers_page ::
  "state \<Rightarrow> string \<Rightarrow> string \<Rightarrow> string option \<Rightarrow> string option \<Rightarrow> nat \<Rightarrow> referrer page option" where
  "log_referrers_page st repo subject artifact_type cursor limit =
     Option.bind (map_of (repos st) repo) (\<lambda>rs.
       Option.bind (map_of (rs_referrers rs) subject) (\<lambda>refs.
         Some (sr_page artifact_type cursor limit refs)))"

definition log_has_referrer :: "state \<Rightarrow> string \<Rightarrow> string \<Rightarrow> string \<Rightarrow> bool" where
  "log_has_referrer st repo subject ref =
     (case Option.bind (map_of (repos st) repo) (\<lambda>rs. map_of (rs_referrers rs) subject) of
        None \<Rightarrow> False
      | Some refs \<Rightarrow> map_of (by_digest refs) ref \<noteq> None)"

definition log_backrefs :: "state \<Rightarrow> string \<Rightarrow> string \<Rightarrow> string list" where
  "log_backrefs st repo blob =
     (case Option.bind (map_of (repos st) repo) (\<lambda>rs. map_of (rs_backrefs rs) blob) of
        None \<Rightarrow> [] | Some ms \<Rightarrow> ms)"

definition log_checksum :: "state \<Rightarrow> string \<Rightarrow> string \<Rightarrow> blob_checksum option" where
  "log_checksum st repo digest =
     Option.bind (map_of (repos st) repo) (\<lambda>rs. map_of (rs_checksums rs) digest)"

definition log_repos :: "state \<Rightarrow> string list" where
  "log_repos st = sort (map fst (filter (\<lambda>(_, rs). rs_media_types rs \<noteq> [] \<or> rs_referrers rs \<noteq> []) (repos st)))"

definition log_manifests :: "state \<Rightarrow> string \<Rightarrow> string list" where
  "log_manifests st repo =
     (case map_of (repos st) repo of None \<Rightarrow> [] | Some rs \<Rightarrow> map fst (rs_media_types rs))"

definition log_tags_snapshot :: "state \<Rightarrow> string \<Rightarrow> (string \<times> string \<times> string) list" where
  "log_tags_snapshot st repo =
     (case map_of (repos st) repo of
        None \<Rightarrow> [] | Some rs \<Rightarrow> map (\<lambda>(t, (d, m)). (t, d, m)) (rs_tags rs))"

definition log_referrers_snapshot :: "state \<Rightarrow> string \<Rightarrow> (string \<times> referrer list) list" where
  "log_referrers_snapshot st repo =
     (case map_of (repos st) repo of
        None \<Rightarrow> []
      | Some rs \<Rightarrow> map (\<lambda>(subject, sr). (subject, map (\<lambda>(d, (_, b)). (d, b)) (by_digest sr)))
                      (filter (\<lambda>(_, sr). by_digest sr \<noteq> []) (rs_referrers rs)))"

section \<open>The image\<close>

text \<open>The operations that \<open>write_log_image\<close> and \<open>export_state\<close> emit, in their five passes.\<close>

definition image_tags :: "state \<Rightarrow> meta_op list" where
  "image_tags st = concat (map (\<lambda>(repo, rs).
     map (\<lambda>(tag, (digest, media_type)). PutManifest repo digest media_type (Some tag) [] None) (rs_tags rs))
     (repos st))"

definition image_tagged :: "state \<Rightarrow> (string \<times> string) list" where
  "image_tagged st = concat (map (\<lambda>(repo, rs). map (\<lambda>(tag, (digest, _)). (repo, digest)) (rs_tags rs)) (repos st))"

definition image_untagged :: "state \<Rightarrow> meta_op list" where
  "image_untagged st = concat (map (\<lambda>(repo, rs).
     map (\<lambda>(digest, media_type). PutManifest repo digest media_type None [] None)
       (filter (\<lambda>(digest, _). (repo, digest) \<notin> set (image_tagged st)) (rs_media_types rs))) (repos st))"

definition image_backrefs :: "state \<Rightarrow> meta_op list" where
  "image_backrefs st = concat (map (\<lambda>(repo, rs).
     concat (map (\<lambda>(blob, manifests). map (\<lambda>m. PutBackrefs repo m [blob]) manifests) (rs_backrefs rs)))
     (repos st))"

definition image_referrers :: "state \<Rightarrow> meta_op list" where
  "image_referrers st = concat (map (\<lambda>(repo, rs).
     concat (map (\<lambda>(subject, refs).
       map (\<lambda>(ref, (_, descriptor)). PutReferrer repo subject ref descriptor) (by_digest refs))
       (rs_referrers rs))) (repos st))"

definition image_checksums :: "state \<Rightarrow> meta_op list" where
  "image_checksums st = concat (map (\<lambda>(repo, rs).
     map (\<lambda>(digest, ck). PutChecksum repo digest (ck_crc32c ck) (ck_size ck)) (rs_checksums rs)) (repos st))"

definition image_ops :: "state \<Rightarrow> meta_op list" where
  "image_ops st = image_tags st @ image_untagged st @ image_backrefs st @ image_referrers st
     @ image_checksums st"

text \<open>\<open>export_state\<close> feeds the image to a sink and stops at the sink's first error.\<close>

definition export_state :: "state \<Rightarrow> (meta_op \<Rightarrow> 's \<Rightarrow> io_error + 's) \<Rightarrow> 's \<Rightarrow> io_error + 's" where
  "export_state full sink s = try_fold sink (image_ops full) s"

section \<open>The referrer index invariant\<close>

definition typed_digests :: "string \<Rightarrow> (string, string option \<times> bytes) btree_map \<Rightarrow> string list" where
  "typed_digests t m = map fst (filter (\<lambda>kv. fst (snd kv) = Some t) m)"

text \<open>The secondary index lists, per artifact type, exactly the digests recorded with that type, in
  order, and has no empty sets.\<close>

definition sr_inv :: "'a ext_api_scheme \<Rightarrow> subject_referrers \<Rightarrow> bool" where
  "sr_inv E sr \<longleftrightarrow> bt_invar (by_digest sr) \<and> distinct (map fst (by_type sr))
     \<and> (\<forall>d a x. map_of (by_digest sr) d = Some (a, x) \<longrightarrow> a = artifact_type_of E x)
     \<and> (\<forall>t. map_of (by_type sr) t =
          (let ds = typed_digests t (by_digest sr) in if ds = [] then None else Some ds))"

lemma sr_inv_default [simp]: "sr_inv E subject_referrers_default"
  by (simp add: sr_inv_def subject_referrers_default_def typed_digests_def)

lemma typed_digests_sorted: "bt_invar m \<Longrightarrow> sorted_wrt (<) (typed_digests t m)"
  unfolding typed_digests_def using bt_invar_filter [of m] by (simp add: bt_invar_def)

lemma set_typed_digests:
  "bt_invar m \<Longrightarrow> set (typed_digests t m) = {d. \<exists>x. map_of m d = Some (Some t, x)}"
  by (force simp: typed_digests_def map_of_eq_Some_iff [OF bt_invar_distinct] image_iff)

lemma typed_digests_remove: "typed_digests t (bt_remove ref m) = removeAll ref (typed_digests t m)"
  by (induction m) (auto simp: typed_digests_def bt_remove_def)

lemma typed_digests_insert:
  assumes "bt_invar m" and "map_of m ref = None"
  shows "typed_digests t (bt_insert ref (a, x) m) =
    (if a = Some t then insort_insert ref (typed_digests t m) else typed_digests t m)"
proof (rule strict_sorted_equal)
  have s: "sorted (typed_digests t m)" "distinct (typed_digests t m)"
    using typed_digests_sorted [OF assms(1)] by (simp_all add: strict_sorted_iff)
  show "sorted_wrt (<) (typed_digests t (bt_insert ref (a, x) m))"
    using assms(1) by (simp add: typed_digests_sorted)
  show "sorted_wrt (<) (if a = Some t then insort_insert ref (typed_digests t m) else typed_digests t m)"
    using s by (auto simp: strict_sorted_iff sorted_insort_insert distinct_insort_insert)
  show "set (typed_digests t (bt_insert ref (a, x) m)) =
      set (if a = Some t then insort_insert ref (typed_digests t m) else typed_digests t m)"
    using assms by (auto simp: set_typed_digests set_insort_insert split: if_splits)
qed

lemma sr_remove_by_digest [simp]: "by_digest (sr_remove ref sr) = bt_remove ref (by_digest sr)"
  by (auto simp: sr_remove_def Let_def split: option.splits)

lemma sr_insert_by_digest [simp]:
  "by_digest (sr_insert E ref x sr) =
     bt_insert ref (artifact_type_of E x, x) (bt_remove ref (by_digest sr))"
  by (auto simp: sr_insert_def Let_def split: option.splits)

lemma sr_remove_inv:
  assumes inv: "sr_inv E sr"
  shows "sr_inv E (sr_remove ref sr)"
proof -
  let ?m = "by_digest sr"
  have bt: "bt_invar ?m" using inv by (simp add: sr_inv_def)
  have mem: "ref \<in> set (typed_digests t ?m) \<longleftrightarrow> (\<exists>x. map_of ?m ref = Some (Some t, x))" for t
    using set_typed_digests [OF bt] by simp
  have idx: "map_of (by_type sr) t = (if typed_digests t ?m = [] then None else Some (typed_digests t ?m))" for t
    using inv by (simp add: sr_inv_def Let_def)
  have types: "map_of (by_type (sr_remove ref sr)) t =
      (let ds = removeAll ref (typed_digests t ?m) in if ds = [] then None else Some ds)" for t
  proof (cases "\<exists>t0 x. map_of ?m ref = Some (Some t0, x)")
    case True
    then obtain t0 x where r: "map_of ?m ref = Some (Some t0, x)" by blast
    then have in0: "ref \<in> set (typed_digests t0 ?m)" using mem by blast
    then have "typed_digests t0 ?m \<noteq> []" by auto
    moreover have "t \<noteq> t0 \<Longrightarrow> removeAll ref (typed_digests t ?m) = typed_digests t ?m"
      using mem [of t] r by (simp add: removeAll_id)
    ultimately show ?thesis
      using r idx by (simp add: sr_remove_def Let_def update_conv' delete_conv')
  next
    case False
    then have "ref \<notin> set (typed_digests t ?m)" using mem by blast
    moreover have "by_type (sr_remove ref sr) = by_type sr"
      using False by (auto simp: sr_remove_def Let_def split: option.splits)
    ultimately show ?thesis using idx by (simp add: Let_def)
  qed
  have "distinct (map fst (by_type (sr_remove ref sr)))"
    using inv by (auto simp: sr_inv_def sr_remove_def Let_def distinct_update distinct_delete split: option.splits)
  with types show ?thesis
    using inv bt by (auto simp: sr_inv_def typed_digests_remove)
qed

lemma sr_insert_inv:
  assumes "sr_inv E sr"
  shows "sr_inv E (sr_insert E ref x sr)"
proof -
  let ?sr = "sr_remove ref sr"
  have inv: "sr_inv E ?sr" using assms by (rule sr_remove_inv)
  have n: "map_of (by_digest ?sr) ref = None" by simp
  have bt: "bt_invar (by_digest ?sr)" using inv by (simp add: sr_inv_def)
  have idx: "map_of (by_type ?sr) t = (let ds = typed_digests t (by_digest ?sr) in if ds = [] then None else Some ds)" for t
    using inv by (simp add: sr_inv_def del: sr_remove_by_digest)
  have ne: "insort_insert ref ds \<noteq> []" for ds
    by (metis insertI1 length_pos_if_in_set less_numeral_extra(3) list.size(3) set_insort_insert)
  have "map_of (by_type (sr_insert E ref x sr)) t =
      (let ds = typed_digests t (by_digest (sr_insert E ref x sr)) in if ds = [] then None else Some ds)" for t
    using idx [of t] ne typed_digests_insert [OF bt n, of t "artifact_type_of E x" x]
    by (cases "artifact_type_of E x")
      (simp_all add: sr_insert_def Let_def update_conv' entry_or_def split: option.splits if_splits)
  moreover have "distinct (map fst (by_type (sr_insert E ref x sr)))"
    using inv by (auto simp: sr_insert_def Let_def sr_inv_def distinct_update split: option.splits)
  ultimately show ?thesis
    using inv bt by (auto simp: sr_inv_def split: if_splits)
qed

section \<open>The state invariant\<close>

definition rs_inv :: "'a ext_api_scheme \<Rightarrow> repo_state \<Rightarrow> bool" where
  "rs_inv E rs \<longleftrightarrow> bt_invar (rs_tags rs) \<and> distinct (map fst (rs_media_types rs))
     \<and> distinct (map fst (rs_referrers rs)) \<and> distinct (map fst (rs_backrefs rs))
     \<and> distinct (map fst (rs_checksums rs))
     \<and> (\<forall>s refs. map_of (rs_referrers rs) s = Some refs \<longrightarrow> sr_inv E refs \<and> by_digest refs \<noteq> [])
     \<and> (\<forall>b ms. map_of (rs_backrefs rs) b = Some ms \<longrightarrow> ms \<noteq> [] \<and> distinct ms)"

definition state_inv :: "'a ext_api_scheme \<Rightarrow> state \<Rightarrow> bool" where
  "state_inv E st \<longleftrightarrow> distinct (map fst (repos st))
     \<and> (\<forall>r rs. map_of (repos st) r = Some rs \<longrightarrow> rs_inv E rs)"

definition repo_of :: "state \<Rightarrow> string \<Rightarrow> repo_state" where
  "repo_of st r = entry_or repo_state_default r (repos st)"

definition referrers_of :: "repo_state \<Rightarrow> string \<Rightarrow> subject_referrers" where
  "referrers_of rs s = entry_or subject_referrers_default s (rs_referrers rs)"

definition log_view :: "state \<Rightarrow> meta_view" where
  "log_view st = \<lparr>
     v_tags = \<lambda>r. map_of (rs_tags (repo_of st r)),
     v_media = \<lambda>r. map_of (rs_media_types (repo_of st r)),
     v_referrers = \<lambda>r s d. map_option snd (map_of (by_digest (referrers_of (repo_of st r) s)) d),
     v_backrefs = \<lambda>r b. set (entry_or [] b (rs_backrefs (repo_of st r))),
     v_checksums = \<lambda>r. map_of (rs_checksums (repo_of st r))\<rparr>"

lemma log_view_sel [simp]:
  "v_tags (log_view st) r t = map_of (rs_tags (repo_of st r)) t"
  "v_media (log_view st) r d = map_of (rs_media_types (repo_of st r)) d"
  "v_referrers (log_view st) r s d = map_option snd (map_of (by_digest (referrers_of (repo_of st r) s)) d)"
  "v_backrefs (log_view st) r b = set (entry_or [] b (rs_backrefs (repo_of st r)))"
  "v_checksums (log_view st) r d = map_of (rs_checksums (repo_of st r)) d"
  by (simp_all add: log_view_def)

lemma entry_or_update [simp]:
  "entry_or d k (AList.update k' v m) = (if k = k' then v else entry_or d k m)"
  by (simp add: entry_or_def update_conv')

lemma entry_or_Nil [simp]: "entry_or d k [] = d"
  by (simp add: entry_or_def)

lemma repo_of_mut [simp]:
  "repo_of (repo_mut repo f st) r = (if r = repo then f (repo_of st repo) else repo_of st r)"
  by (simp add: repo_of_def repo_mut_def)

lemma repo_of_intern [simp]: "repo_of (snd (intern_media_type s st)) r = repo_of st r"
  by (simp add: repo_of_def intern_media_type_def)

lemma intern_fst [simp]: "fst (intern_media_type s st) = s"
  by (simp add: intern_media_type_def)

lemma rs_inv_default [simp]: "rs_inv E repo_state_default"
  by (simp add: rs_inv_def repo_state_default_def)

lemma state_inv_default [simp]: "state_inv E state_default"
  by (simp add: state_inv_def state_default_def)

lemma rs_inv_repo_of: "state_inv E st \<Longrightarrow> rs_inv E (repo_of st r)"
  by (auto simp: state_inv_def repo_of_def entry_or_def split: option.splits)

lemma sr_inv_referrers_of: "rs_inv E rs \<Longrightarrow> sr_inv E (referrers_of rs s)"
  by (auto simp: rs_inv_def referrers_of_def entry_or_def split: option.splits)

lemma repo_mut_inv:
  assumes "state_inv E st" and "\<And>rs. rs_inv E rs \<Longrightarrow> rs_inv E (f rs)"
  shows "state_inv E (repo_mut repo f st)"
  using assms(1) assms(2) [OF rs_inv_repo_of [OF assms(1)]]
  by (auto simp: state_inv_def repo_mut_def distinct_update update_conv' repo_of_def)

lemma intern_inv: "state_inv E st \<Longrightarrow> state_inv E (snd (intern_media_type s st))"
  by (simp add: intern_media_type_def state_inv_def)

lemma push_backref_entry:
  "entry_or [] b (push_backref m blob bm) =
     (if b = blob then (if m \<in> set (entry_or [] b bm) then entry_or [] b bm else entry_or [] b bm @ [m])
      else entry_or [] b bm)"
  by (simp add: push_backref_def Let_def)

lemma set_push_backrefs:
  "set (entry_or [] b (fold (push_backref m) blobs bm)) =
     (if b \<in> set blobs then insert m (set (entry_or [] b bm)) else set (entry_or [] b bm))"
  by (induction blobs arbitrary: bm) (auto simp: push_backref_entry)

definition backrefs_inv :: "(string, string list) hash_map \<Rightarrow> bool" where
  "backrefs_inv bm \<longleftrightarrow> distinct (map fst bm) \<and> (\<forall>b ms. map_of bm b = Some ms \<longrightarrow> ms \<noteq> [] \<and> distinct ms)"

lemma push_backref_inv: "backrefs_inv bm \<Longrightarrow> backrefs_inv (push_backref m blob bm)"
  by (cases "map_of bm blob")
    (auto simp: backrefs_inv_def push_backref_def Let_def distinct_update update_conv' entry_or_def
      simp del: map_of_eq_Some_iff)

lemma push_backrefs_inv: "backrefs_inv bm \<Longrightarrow> backrefs_inv (fold (push_backref m) blobs bm)"
  by (induction blobs arbitrary: bm) (auto simp: push_backref_inv)

lemma add_backrefs_inv:
  assumes "state_inv E st"
  shows "state_inv E (add_backrefs repo m blobs st)"
  unfolding add_backrefs_def
proof (rule repo_mut_inv [OF assms])
  fix rs assume "rs_inv E rs"
  then show "rs_inv E (rs\<lparr>rs_backrefs := fold (push_backref m) blobs (rs_backrefs rs)\<rparr>)"
    using push_backrefs_inv [of "rs_backrefs rs" m blobs]
    by (simp add: rs_inv_def backrefs_inv_def)
qed

lemma bt_insert_nonempty [simp]: "bt_insert k v m \<noteq> []"
  by (cases m) auto

lemma add_referrer_inv:
  assumes "state_inv E st"
  shows "state_inv E (add_referrer E repo s ref x st)"
  unfolding add_referrer_def
proof (rule repo_mut_inv [OF assms])
  fix rs assume rs: "rs_inv E rs"
  then have "sr_inv E (sr_insert E ref x (entry_or subject_referrers_default s (rs_referrers rs)))"
    using sr_inv_referrers_of sr_insert_inv unfolding referrers_of_def by blast
  with rs show "rs_inv E (rs\<lparr>rs_referrers := AList.update s (sr_insert E ref x
      (entry_or subject_referrers_default s (rs_referrers rs))) (rs_referrers rs)\<rparr>)"
    by (auto simp: rs_inv_def distinct_update update_conv')
qed

lemma delete_manifest_rs_inv:
  assumes "rs_inv E rs"
  shows "rs_inv E (delete_manifest_rs d rs)"
proof -
  have "sr_inv E (sr_remove d refs) \<and> by_digest (sr_remove d refs) \<noteq> []"
    if "map_of (rs_referrers rs) s = Some refs" "bt_remove d (by_digest refs) \<noteq> []" for s refs
  proof -
    have "sr_inv E refs" using assms that(1) unfolding rs_inv_def by blast
    with that(2) show ?thesis by (simp add: sr_remove_inv)
  qed
  moreover have "bt_invar (filter (\<lambda>(_, (d', _)). d' \<noteq> d) (rs_tags rs))"
    using assms by (simp add: rs_inv_def)
  ultimately show ?thesis
    using assms unfolding rs_inv_def delete_manifest_rs_def
    by (auto simp: distinct_delete map_of_retain_map simp del: map_of_eq_Some_iff split: option.splits if_splits)
qed

lemma apply_in_ram_inv [meta_invs]: "state_inv E st \<Longrightarrow> state_inv E (apply_in_ram E op st)"
proof (cases op)
  case (PutManifest repo digest mt tag refs ref)
  assume inv: "state_inv E st"
  let ?f = "\<lambda>rs. let rs1 = rs\<lparr>rs_media_types := AList.update digest mt (rs_media_types rs)\<rparr>
      in case tag of None \<Rightarrow> rs1 | Some t \<Rightarrow> rs1\<lparr>rs_tags := bt_insert t (digest, mt) (rs_tags rs1)\<rparr>"
  have "rs_inv E rs \<Longrightarrow> rs_inv E (?f rs)" for rs
    by (cases tag) (simp_all add: rs_inv_def distinct_update)
  moreover obtain st1 where i: "intern_media_type mt st = (mt, st1)"
    by (metis intern_fst prod.collapse)
  ultimately have "state_inv E (repo_mut repo ?f st1)"
    using intern_inv [OF inv, of mt] by (intro repo_mut_inv) auto
  then show ?thesis
    by (simp add: PutManifest i Let_def add_backrefs_inv add_referrer_inv split: option.splits)
next
  case (DeleteManifest repo d)
  assume "state_inv E st"
  then show ?thesis by (simp add: DeleteManifest repo_mut_inv delete_manifest_rs_inv)
next
  case (PutChecksum repo d c z)
  assume "state_inv E st"
  then show ?thesis by (auto simp: PutChecksum rs_inv_def distinct_update intro!: repo_mut_inv)
next
  case (DeleteBlob repo d)
  assume "state_inv E st"
  then show ?thesis by (auto simp: DeleteBlob rs_inv_def distinct_delete intro!: repo_mut_inv)
qed (simp_all add: add_backrefs_inv add_referrer_inv)

section \<open>Refinement of the view\<close>

lemma log_view_default [simp]: "log_view state_default = view_empty"
  by (rule view_eqI)
    (simp_all add: view_empty_def repo_of_def state_default_def repo_state_default_def referrers_of_def
      subject_referrers_default_def)

lemma log_view_backrefs:
  "log_view (add_backrefs repo m blobs st) = view_backrefs repo m blobs (log_view st)"
  by (rule view_eqI) (simp_all add: add_backrefs_def set_push_backrefs referrers_of_def)

lemma log_view_referrer:
  "log_view (add_referrer E repo s ref x st) = view_referrer repo s ref x (log_view st)"
  by (rule view_eqI) (auto simp: add_referrer_def referrers_of_def)

lemma retain_backrefs_entry:
  "distinct (map fst bm) \<Longrightarrow>
   set (entry_or [] b (retain_map (filter (\<lambda>m. m \<noteq> d)) (\<lambda>ms. ms \<noteq> []) bm)) = set (entry_or [] b bm) - {d}"
  by (cases "map_of bm b") (auto simp: entry_or_def map_of_retain_map filter_empty_conv simp del: map_of_eq_Some_iff)

lemma retain_referrers_entry:
  "distinct (map fst rm) \<Longrightarrow>
   map_of (by_digest (entry_or subject_referrers_default s
     (retain_map (sr_remove d) (\<lambda>refs. by_digest refs \<noteq> []) rm))) =
   (map_of (by_digest (entry_or subject_referrers_default s rm)))(d := None)"
  by (cases "map_of rm s")
    (auto simp: entry_or_def map_of_retain_map subject_referrers_default_def bt_remove_def
      simp flip: map_of_bt_remove simp del: map_of_eq_Some_iff)

lemma log_view_delete:
  assumes "state_inv E st"
  shows "log_view (repo_mut repo (delete_manifest_rs d) st) = view_apply (DeleteManifest repo d) (log_view st)"
proof -
  have rs: "rs_inv E (repo_of st repo)" using assms by (rule rs_inv_repo_of)
  then have dist: "distinct (map fst (rs_referrers (repo_of st repo)))"
      "distinct (map fst (rs_backrefs (repo_of st repo)))" "distinct (map fst (rs_tags (repo_of st repo)))"
    by (simp_all add: rs_inv_def bt_invar_distinct)
  have tags: "map_of (filter (\<lambda>(_, (d', _)). d' \<noteq> d) m) t =
      (if \<exists>x. map_of m t = Some (d, x) then None else map_of m t)"
    if "distinct (map fst m)" for m :: "(string \<times> string \<times> string) list" and t
    using that
  proof (induction m)
    case (Cons kv m)
    have "map_of m (fst kv) = None" using Cons.prems by (simp add: map_of_eq_None_iff)
    moreover have "map_of (filter (\<lambda>(_, (d', _)). d' \<noteq> d) m) (fst kv) = None"
      using Cons.prems by (auto simp: map_of_eq_None_iff)
    ultimately show ?case
      using Cons by (cases kv) (auto simp del: map_of_eq_Some_iff)
  qed simp
  show ?thesis
    using dist
    by (intro view_eqI)
      (simp_all add: delete_manifest_rs_def delete_conv' tags upd2_apply retain_backrefs_entry
        referrers_of_def retain_referrers_entry)
qed

lemma log_view_apply [meta_simps]:
  assumes "state_inv E st"
  shows "log_view (apply_in_ram E op st) = view_apply op (log_view st)"
proof (cases op)
  case (PutManifest repo digest mt tag refs ref)
  let ?f = "\<lambda>rs. let rs1 = rs\<lparr>rs_media_types := AList.update digest mt (rs_media_types rs)\<rparr>
      in case tag of None \<Rightarrow> rs1 | Some t \<Rightarrow> rs1\<lparr>rs_tags := bt_insert t (digest, mt) (rs_tags rs1)\<rparr>"
  let ?v = "(log_view st)\<lparr>v_media := upd2 repo digest (Some mt) (v_media (log_view st))\<rparr>"
  obtain st1 where i: "intern_media_type mt st = (mt, st1)"
    by (metis intern_fst prod.collapse)
  then have st1: "repo_of st1 r = repo_of st r" for r
    using repo_of_intern [of mt st r] by simp
  have "log_view (repo_mut repo ?f st1) =
      (case tag of None \<Rightarrow> ?v | Some t \<Rightarrow> ?v\<lparr>v_tags := upd2 repo t (Some (digest, mt)) (v_tags ?v)\<rparr>)"
    by (cases tag) (auto intro!: view_eqI simp: st1 upd2_apply update_conv' referrers_of_def split: if_splits)
  then show ?thesis
    by (simp add: PutManifest i Let_def log_view_backrefs log_view_referrer split: option.splits)
next
  case (DeleteManifest repo d)
  then show ?thesis using log_view_delete [OF assms] by simp
next
  case (PutChecksum repo d c z)
  then show ?thesis by (auto intro!: view_eqI simp: upd2_apply update_conv' referrers_of_def split: if_splits)
next
  case (DeleteBlob repo d)
  then show ?thesis by (auto intro!: view_eqI simp: upd2_apply delete_conv' referrers_of_def split: if_splits)
qed (simp_all add: log_view_backrefs log_view_referrer)

section \<open>Pages\<close>

lemma bt_keys_list:
  assumes "bt_invar m"
  shows "sorted_list_of_set (dom (map_of m)) = map fst m"
proof -
  have "sorted (map fst m)" "distinct (map fst m)"
    using assms by (simp_all add: bt_invar_def strict_sorted_iff)
  then have "sorted_list_of_set (set (map fst m)) = map fst m"
    by (rule sorted_list_of_set.idem_if_sorted_distinct)
  then show ?thesis by (simp add: dom_map_of_conv_image_fst)
qed

lemma map_of_empty_iff: "map_of m = Map.empty \<longleftrightarrow> m = []"
  by (cases m) (auto simp: fun_eq_iff)

lemma repo_of_cases:
  "(map_of (repos st) r = None \<and> repo_of st r = repo_state_default) \<or> map_of (repos st) r = Some (repo_of st r)"
  by (auto simp: repo_of_def entry_or_def split: option.splits)

lemma log_tags_page_view:
  assumes "state_inv E st"
  shows "log_tags_page st r c n = view_tags_page (log_view st) r c n"
proof -
  have bt: "bt_invar (rs_tags (repo_of st r))" using rs_inv_repo_of [OF assms] by (simp add: rs_inv_def)
  have v: "v_tags (log_view st) r = map_of (rs_tags (repo_of st r))" by (simp add: log_view_def)
  have f: "map fst (filter (\<lambda>(t, _). after c t) m) = filter (after c) (map fst m)"
    for m :: "(string \<times> string \<times> string) list"
    by (induction m) auto
  from repo_of_cases [of st r] show ?thesis
  proof
    assume "map_of (repos st) r = None \<and> repo_of st r = repo_state_default"
    then show ?thesis by (simp add: log_tags_page_def view_tags_page_def v repo_state_default_def)
  next
    assume "map_of (repos st) r = Some (repo_of st r)"
    then show ?thesis
      using bt by (simp add: log_tags_page_def view_tags_page_def v bt_keys_list map_of_empty_iff f)
  qed
qed

lemma map_of_by_digest:
  assumes "sr_inv E sr" and "(d, (a, x)) \<in> set (by_digest sr)"
  shows "map_of (by_digest sr) d = Some (a, x)" and "a = artifact_type_of E x"
proof -
  show m: "map_of (by_digest sr) d = Some (a, x)"
    using assms by (simp add: sr_inv_def bt_invar_distinct)
  then show "a = artifact_type_of E x" using assms(1) unfolding sr_inv_def by blast
qed

lemma typed_digests_filter:
  assumes "sr_inv E sr"
  shows "typed_digests t (by_digest sr) =
    filter (\<lambda>d. artifact_type_of E (snd (the (map_of (by_digest sr) d))) = Some t) (map fst (by_digest sr))"
proof -
  have "filter (\<lambda>kv. fst (snd kv) = Some t) (by_digest sr) =
      filter (\<lambda>kv. artifact_type_of E (snd (the (map_of (by_digest sr) (fst kv)))) = Some t) (by_digest sr)"
    using map_of_by_digest [OF assms] by (intro filter_cong) force+
  then show ?thesis by (simp add: typed_digests_def filter_map comp_def)
qed

lemma sr_page_spec:
  assumes inv: "sr_inv E sr"
  shows "sr_page at c n sr = take_page
    (map (\<lambda>d. (d, snd (the (map_of (by_digest sr) d))))
       (filter (after c) (filter (\<lambda>d. at = None \<or> artifact_type_of E (snd (the (map_of (by_digest sr) d))) = at)
          (map fst (by_digest sr))))) n"
proof (cases at)
  case None
  let ?g = "\<lambda>d. (d, snd (the (map_of (by_digest sr) d)))"
  have "map (\<lambda>(d, (_, b)). (d, b)) (filter (\<lambda>(d, _). after c d) (by_digest sr)) =
      map (?g \<circ> fst) (filter (\<lambda>(d, _). after c d) (by_digest sr))"
    using map_of_by_digest(1) [OF inv] by (intro map_cong refl) fastforce
  also have "\<dots> = map ?g (filter (after c) (map fst (by_digest sr)))"
    by (simp add: filter_map comp_def case_prod_unfold)
  finally show ?thesis by (simp add: sr_page_def None)
next
  case (Some t)
  have "map_of (by_type sr) t = (let ds = typed_digests t (by_digest sr) in if ds = [] then None else Some ds)"
    using inv by (simp add: sr_inv_def)
  moreover have f: "filter (\<lambda>d. at = None \<or> artifact_type_of E (snd (the (map_of (by_digest sr) d))) = at)
      (map fst (by_digest sr)) = typed_digests t (by_digest sr)"
    by (simp add: Some typed_digests_filter [OF inv])
  ultimately show ?thesis
    by (simp only: f) (simp add: sr_page_def Some Let_def take_page_def default_page_def)
qed

lemma log_referrers_page_view:
  assumes "state_inv E st"
  shows "log_referrers_page st r sub at c n
       = view_referrers_page (artifact_type_of E) (log_view st) r sub at c n"
proof -
  let ?rs = "repo_of st r"
  have rs: "rs_inv E ?rs" using assms by (rule rs_inv_repo_of)
  have v: "v_referrers (log_view st) r sub = (\<lambda>d. map_option snd (map_of (by_digest (referrers_of ?rs sub)) d))"
    by (simp add: fun_eq_iff)
  have lookup: "log_referrers_page st r sub at c n =
      map_option (\<lambda>refs. sr_page at c n refs) (map_of (rs_referrers ?rs) sub)"
    using repo_of_cases [of st r]
    by (cases "map_of (repos st) r"; cases "map_of (rs_referrers ?rs) sub")
      (auto simp: log_referrers_page_def repo_state_default_def)
  show ?thesis
  proof (cases "map_of (rs_referrers ?rs) sub")
    case None
    then show ?thesis
      by (simp add: lookup view_referrers_page_def v referrers_of_def entry_or_def subject_referrers_default_def Let_def)
  next
    case (Some refs)
    then have inv: "sr_inv E refs" "by_digest refs \<noteq> []" and ro: "referrers_of ?rs sub = refs"
      using rs unfolding rs_inv_def by (blast, blast, simp add: referrers_of_def entry_or_def)
    have dom: "dom (\<lambda>d. map_option snd (map_of (by_digest refs) d)) = dom (map_of (by_digest refs))"
      by auto
    have ne: "(\<lambda>d. map_option snd (map_of (by_digest refs) d)) \<noteq> Map.empty"
      using inv(2) dom by (metis dom_eq_empty_conv map_of_empty_iff)
    have bt: "bt_invar (by_digest refs)" using inv(1) by (simp add: sr_inv_def)
    have the_eq: "the (map_option snd (map_of (by_digest refs) d)) = snd (the (map_of (by_digest refs) d))"
      if "d \<in> set (map fst (by_digest refs))" for d
      by (cases "map_of (by_digest refs) d") (use that in \<open>simp_all add: map_of_eq_None_iff\<close>)
    let ?w = "\<lambda>d. at = None \<or> artifact_type_of E (snd (the (map_of (by_digest refs) d))) = at"
    let ?w' = "\<lambda>d. at = None \<or> artifact_type_of E (the (map_option snd (map_of (by_digest refs) d))) = at"
    have fw: "filter ?w' (map fst (by_digest refs)) = filter ?w (map fst (by_digest refs))"
      using the_eq by (intro filter_cong refl) simp
    have eq: "map (\<lambda>d. (d, the (map_option snd (map_of (by_digest refs) d)))) (filter (after c) (filter ?w (map fst (by_digest refs))))
        = map (\<lambda>d. (d, snd (the (map_of (by_digest refs) d)))) (filter (after c) (filter ?w (map fst (by_digest refs))))"
      using the_eq by (intro map_cong refl) simp
    have "view_referrers_page (artifact_type_of E) (log_view st) r sub at c n = Some (take_page
        (map (\<lambda>d. (d, the (map_option snd (map_of (by_digest refs) d)))) (filter (after c) (filter ?w' (map fst (by_digest refs))))) n)"
      by (simp only: view_referrers_page_def v ro Let_def ne dom bt_keys_list [OF bt] if_False)
    then show ?thesis
      by (simp only: fw eq lookup Some option.map sr_page_spec [OF inv(1)])
  qed
qed

section \<open>The engine meets the contract\<close>

interpretation log: metadata_store log_view "state_inv E" "apply_in_ram E" "\<lambda>_. True" "\<lambda>_. True"
  "artifact_type_of E" log_resolve_tag log_manifest_media_type log_tags_page log_referrers_page
  log_has_referrer log_backrefs log_checksum state_default for E :: "'a ext_api_scheme"
proof
  fix s :: state and r t d sub :: string
  assume inv: "state_inv E s"
  have rs: "rs_inv E (repo_of s r)" using inv by (rule rs_inv_repo_of)
  note cases = repo_of_cases [of s r]
  show "finite (dom (v_tags (log_view s) r))" by (simp add: log_view_def finite_dom_map_of)
  show "log_resolve_tag s r t = v_tags (log_view s) r t"
    using cases by (auto simp: log_resolve_tag_def repo_state_default_def)
  show "log_manifest_media_type s r d = v_media (log_view s) r d"
    using cases by (auto simp: log_manifest_media_type_def repo_state_default_def)
  show "log_checksum s r d = v_checksums (log_view s) r d"
    using cases by (auto simp: log_checksum_def repo_state_default_def)
  show "log_has_referrer s r sub d \<longleftrightarrow> v_referrers (log_view s) r sub d \<noteq> None"
    using cases by (auto simp: log_has_referrer_def repo_state_default_def referrers_of_def entry_or_def
        subject_referrers_default_def split: option.splits)
  have "distinct ms" if "map_of (rs_backrefs (repo_of s r)) t = Some ms" for ms
    using rs that unfolding rs_inv_def by blast
  then show "set (log_backrefs s r t) = v_backrefs (log_view s) r t \<and> distinct (log_backrefs s r t)"
    using cases
    by (cases "map_of (rs_backrefs (repo_of s r)) t")
      (auto simp: log_backrefs_def repo_state_default_def entry_or_def simp del: map_of_eq_Some_iff)
qed (simp_all add: apply_in_ram_inv log_view_apply log_tags_page_view log_referrers_page_view)

section \<open>The image reproduces the state\<close>

lemma repos_entry:
  assumes "state_inv E st" and "(r, rs) \<in> set (repos st)"
  shows "repo_of st r = rs"
proof -
  have "map_of (repos st) r = Some rs" using assms by (simp add: state_inv_def)
  then show ?thesis by (simp add: repo_of_def entry_or_def)
qed

lemma repos_entryI: "repo_of st r \<noteq> repo_state_default \<Longrightarrow> (r, repo_of st r) \<in> set (repos st)"
  using repo_of_cases [of st r] by (auto dest: map_of_SomeD)

lemma image_agrees:
  assumes inv: "state_inv E st" and typed: "tags_typed (log_view st)"
  shows "list_all (op_agrees (log_view st)) (image_ops st)"
proof -
  have tag: "map_of (rs_tags rs) t = Some (d, m)"
    if "(r, rs) \<in> set (repos st)" "(t, (d, m)) \<in> set (rs_tags rs)" for r rs t d m
    using that rs_inv_repo_of [OF inv, of r] repos_entry [OF inv that(1)]
    by (simp add: rs_inv_def bt_invar_distinct)
  have dist: "distinct (map fst (rs_media_types rs)) \<and> distinct (map fst (rs_backrefs rs))
      \<and> distinct (map fst (rs_referrers rs)) \<and> distinct (map fst (rs_checksums rs))"
    if "(r, rs) \<in> set (repos st)" for r rs
    using rs_inv_repo_of [OF inv, of r] repos_entry [OF inv that] by (simp add: rs_inv_def)
  have refs: "map_of (by_digest sr) d = Some (a, x) \<and> referrers_of rs s = sr"
    if "(r, rs) \<in> set (repos st)" "(s, sr) \<in> set (rs_referrers rs)" "(d, (a, x)) \<in> set (by_digest sr)"
    for r rs s sr d a x
  proof -
    have m: "map_of (rs_referrers rs) s = Some sr" using dist [OF that(1)] that(2) by simp
    then have "sr_inv E sr" 
      using rs_inv_repo_of [OF inv, of r] unfolding repos_entry [OF inv that(1)] rs_inv_def by blast
    with m that(3) show ?thesis by (simp add: map_of_by_digest referrers_of_def entry_or_def)
  qed
  have "list_all (op_agrees (log_view st)) (image_tags st)"
    using tag typed repos_entry [OF inv]
    by (fastforce simp: list_all_iff image_tags_def tags_typed_def)
  moreover have "list_all (op_agrees (log_view st)) (image_untagged st)"
    using dist repos_entry [OF inv] by (fastforce simp: list_all_iff image_untagged_def)
  moreover have "list_all (op_agrees (log_view st)) (image_backrefs st)"
    using dist repos_entry [OF inv] by (fastforce simp: list_all_iff image_backrefs_def entry_or_def)
  moreover have "list_all (op_agrees (log_view st)) (image_referrers st)"
    using refs repos_entry [OF inv] by (fastforce simp: list_all_iff image_referrers_def)
  moreover have "list_all (op_agrees (log_view st)) (image_checksums st)"
    using dist repos_entry [OF inv] by (fastforce simp: list_all_iff image_checksums_def)
  ultimately show ?thesis by (simp add: image_ops_def)
qed

lemma image_tags_mem:
  assumes "map_of (rs_tags (repo_of st r)) t = Some (d, m)"
  shows "PutManifest r d m (Some t) [] None \<in> set (image_tags st)"
proof -
  have "(r, repo_of st r) \<in> set (repos st)"
    using assms by (intro repos_entryI) (auto simp: repo_state_default_def)
  moreover have "(t, (d, m)) \<in> set (rs_tags (repo_of st r))" using assms by (rule map_of_SomeD)
  ultimately show ?thesis by (force simp: image_tags_def)
qed

lemma image_media_mem:
  assumes inv: "state_inv E st" and typed: "tags_typed (log_view st)"
    and m: "map_of (rs_media_types (repo_of st r)) d = Some m"
  shows "\<exists>tag. PutManifest r d m tag [] None \<in> set (image_tags st @ image_untagged st)"
proof (cases "(r, d) \<in> set (image_tagged st)")
  case True
  then obtain rs t m' where rs: "(r, rs) \<in> set (repos st)" "(t, (d, m')) \<in> set (rs_tags rs)"
    by (auto simp: image_tagged_def)
  then have tag: "map_of (rs_tags (repo_of st r)) t = Some (d, m')"
    using rs_inv_repo_of [OF inv, of r] repos_entry [OF inv rs(1)] by (simp add: rs_inv_def bt_invar_distinct)
  then have "v_media (log_view st) r d = Some m'" using typed by (simp only: tags_typed_def log_view_sel)
  with m have "m' = m" by simp
  with image_tags_mem [OF tag] show ?thesis by auto
next
  case False
  have "(r, repo_of st r) \<in> set (repos st)"
    using m by (intro repos_entryI) (auto simp: repo_state_default_def)
  moreover have "(d, m) \<in> set (rs_media_types (repo_of st r))" using m by (rule map_of_SomeD)
  ultimately have "PutManifest r d m None [] None \<in> set (image_untagged st)"
    using False by (force simp: image_untagged_def)
  then show ?thesis by auto
qed

lemma image_covers_state:
  assumes inv: "state_inv E st" and typed: "tags_typed (log_view st)"
  shows "image_covers (log_view st) (image_ops st)"
  unfolding image_covers_def log_view_sel
proof (intro conjI allI impI)
  fix r t d m assume "map_of (rs_tags (repo_of st r)) t = Some (d, m)"
  then show "PutManifest r d m (Some t) [] None \<in> set (image_ops st)"
    by (simp add: image_ops_def image_tags_mem)
next
  fix r d m assume "map_of (rs_media_types (repo_of st r)) d = Some m"
  then show "\<exists>tag. PutManifest r d m tag [] None \<in> set (image_ops st)"
    using image_media_mem [OF inv typed] by (fastforce simp: image_ops_def)
next
  fix r b m assume m: "m \<in> set (entry_or [] b (rs_backrefs (repo_of st r)))"
  then obtain ms where ms: "(b, ms) \<in> set (rs_backrefs (repo_of st r))" "m \<in> set ms"
    by (cases "map_of (rs_backrefs (repo_of st r)) b") (auto simp: entry_or_def dest: map_of_SomeD)
  then have "(r, repo_of st r) \<in> set (repos st)"
    by (intro repos_entryI) (auto simp: repo_state_default_def)
  with ms show "PutBackrefs r m [b] \<in> set (image_ops st)"
    by (force simp: image_ops_def image_backrefs_def)
next
  fix r s d x assume "map_option snd (map_of (by_digest (referrers_of (repo_of st r) s)) d) = Some x"
  then obtain a where "map_of (by_digest (referrers_of (repo_of st r) s)) d = Some (a, x)" by auto
  then have "(d, (a, x)) \<in> set (by_digest (referrers_of (repo_of st r) s))" by (rule map_of_SomeD)
  moreover from this obtain refs where "(s, refs) \<in> set (rs_referrers (repo_of st r))"
      "referrers_of (repo_of st r) s = refs"
    by (auto simp: referrers_of_def entry_or_def subject_referrers_default_def split: option.splits dest: map_of_SomeD)
  moreover from this have "(r, repo_of st r) \<in> set (repos st)"
    by (intro repos_entryI) (auto simp: repo_state_default_def)
  ultimately show "PutReferrer r s d x \<in> set (image_ops st)"
    by (force simp: image_ops_def image_referrers_def)
next
  fix r d k assume "map_of (rs_checksums (repo_of st r)) d = Some k"
  then have k: "(d, k) \<in> set (rs_checksums (repo_of st r))" by (rule map_of_SomeD)
  then have "(r, repo_of st r) \<in> set (repos st)"
    by (intro repos_entryI) (auto simp: repo_state_default_def)
  with k show "PutChecksum r d (ck_crc32c k) (ck_size k) \<in> set (image_ops st)"
    by (force simp: image_ops_def image_checksums_def)
qed

lemma image_view:
  assumes "state_inv E st" and "tags_typed (log_view st)"
  shows "view_run (image_ops st) view_empty = log_view st"
  by (rule image_reproduces [OF image_agrees [OF assms] image_covers_state [OF assms]])

text \<open>The state an operation history leads to.\<close>

definition log_run :: "'a ext_api_scheme \<Rightarrow> meta_op list \<Rightarrow> state" where
  "log_run E ops = fold (apply_in_ram E) ops state_default"

lemma log_run_view: "log_view (log_run E ops) = view_run ops view_empty"
  using log.run_fresh_view [of ops E] by (simp add: log_run_def list_all_iff)

lemma log_run_inv: "state_inv E (log_run E ops)"
  using log.run_invar [of E state_default ops] by (simp add: log_run_def list_all_iff)

lemma log_engine_view_media:
  "log_manifest_media_type (log_run E ops) r d = v_media (view_run ops view_empty) r d"
  using log.media_type_view [OF log_run_inv, of E ops r d] by (simp add: log_run_view del: log_view_sel)

section \<open>Properties of the engine\<close>

text \<open>
  (C5) Functional correctness of the log engine. After any history of operations, every query of
  the engine answers what the specification of the history says: tag resolution, media types,
  the page of tags and the page of referrers (with and without an artifact-type filter), referrer
  membership, back references and checksums.
\<close>

theorem log_engine_refines:
  "log_resolve_tag (log_run E ops) r t = v_tags (view_run ops view_empty) r t
   \<and> log_manifest_media_type (log_run E ops) r d = v_media (view_run ops view_empty) r d
   \<and> log_tags_page (log_run E ops) r c n = view_tags_page (view_run ops view_empty) r c n
   \<and> log_referrers_page (log_run E ops) r sub at c n
       = view_referrers_page (artifact_type_of E) (view_run ops view_empty) r sub at c n
   \<and> (log_has_referrer (log_run E ops) r sub d \<longleftrightarrow> v_referrers (view_run ops view_empty) r sub d \<noteq> None)
   \<and> set (log_backrefs (log_run E ops) r b) = v_backrefs (view_run ops view_empty) r b
   \<and> log_checksum (log_run E ops) r d = v_checksums (view_run ops view_empty) r d"
  using log_run_inv [of E ops] log_run_view [of E ops]
  by (simp add: log.resolve_tag_view [where E = E] log.media_type_view [where E = E]
      log.tags_page_view [where E = E] log.referrers_page_view [where E = E]
      log.has_referrer_view [where E = E] log.backrefs_view [where E = E]
      log.checksum_view [where E = E] pred_option_def del: log_view_sel)

text \<open>
  (C6) The referrer index. In every reachable state the artifact-type index of every subject lists,
  for each type, exactly the digests whose descriptor has that type, in ascending order, and holds
  no empty set; so the lookup \<open>self.by_digest[d]\<close> of a typed page cannot fail.
\<close>

theorem referrer_index_exact:
  "sr_inv E (referrers_of (repo_of (log_run E ops) r) subject)"
  by (rule sr_inv_referrers_of [OF rs_inv_repo_of [OF log_run_inv]])

text \<open>
  (C17) Replaying the image that compaction and export write gives back the state, for every history
  that never records one manifest under two media types.
\<close>

theorem image_roundtrip:
  assumes "list_all (op_typed mt_of) ops"
  shows "log_view (log_run E (image_ops (log_run E ops))) = log_view (log_run E ops)"
proof -
  have "view_typed mt_of (log_view (log_run E ops))"
    using view_typed_run [OF view_typed_empty assms] by (simp add: log_run_view)
  then show ?thesis
    using image_view [OF log_run_inv, of E ops] by (simp add: log_run_view view_typed_def)
qed

definition sample_ops :: "meta_op list" where
  "sample_ops = [PutManifest ''r'' ''d1'' ''m1'' (Some ''a'') [''b1'', ''b2''] None,
     PutManifest ''r'' ''d2'' ''m2'' None [''b2''] (Some (''d1'', ''x'')),
     PutChecksum ''r'' ''b1'' 7 3, DeleteBlob ''r'' ''b1'', DeleteManifest ''r'' ''d1'',
     PutManifest ''r'' ''d1'' ''m1'' (Some ''b'') [''b1''] None]"

definition sample_media :: "string \<Rightarrow> string \<Rightarrow> string" where
  "sample_media r d = (if d = ''d1'' then ''m1'' else ''m2'')"

theorem image_roundtrip_witness:
  "list_all (op_typed sample_media) sample_ops
   \<and> log_view (log_run sample_ext (image_ops (log_run sample_ext sample_ops))) = log_view (log_run sample_ext sample_ops)"
proof -
  have "list_all (op_typed sample_media) sample_ops"
    by (simp add: sample_ops_def op_typed_def sample_media_def)
  with image_roundtrip [OF this, of sample_ext] show ?thesis by simp
qed

text \<open>
  (C22) Without that restriction the image is not faithful: a manifest pushed under tag \<open>b\<close> with one
  media type and then under tag \<open>a\<close> with another is served with a different media type after the
  log has been compacted and replayed.
\<close>

theorem image_changes_media_type:
  "\<exists>ops. log_manifest_media_type (log_run E ops) ''r'' ''d'' = Some ''m2''
     \<and> log_manifest_media_type (log_run E (image_ops (log_run E ops))) ''r'' ''d'' = Some ''m1''"
proof -
  let ?ops = "[PutManifest ''r'' ''d'' ''m1'' (Some ''b'') [] None, PutManifest ''r'' ''d'' ''m2'' (Some ''a'') [] None]"
  have st: "log_run E ?ops = \<lparr>repos = [(''r'', \<lparr>rs_tags = [(''a'', (''d'', ''m2'')), (''b'', (''d'', ''m1''))],
      rs_media_types = [(''d'', ''m2'')], rs_referrers = [], rs_backrefs = [], rs_checksums = []\<rparr>)],
      media_type_interner = [''m2'', ''m1'']\<rparr>"
    by (simp add: log_run_def state_default_def intern_media_type_def repo_mut_def entry_or_def
        repo_state_default_def add_backrefs_def Let_def)
  have "image_ops (log_run E ?ops) =
      [PutManifest ''r'' ''d'' ''m2'' (Some ''a'') [] None, PutManifest ''r'' ''d'' ''m1'' (Some ''b'') [] None]"
    by (simp add: st image_ops_def image_tags_def image_untagged_def image_tagged_def image_backrefs_def
        image_referrers_def image_checksums_def)
  then have "log_manifest_media_type (log_run E (image_ops (log_run E ?ops))) ''r'' ''d'' = Some ''m1''"
    by (simp add: log_engine_view_media upd2_apply)
  moreover have "log_manifest_media_type (log_run E ?ops) ''r'' ''d'' = Some ''m2''"
    by (simp add: st log_manifest_media_type_def)
  ultimately show ?thesis by blast
qed

text \<open>
  (C18) Walking the tag listing page by page, each time from the last tag seen, ends after at most one
  request per tag and lists every tag of the repository exactly once, in ascending order.
\<close>

theorem tags_walk_complete:
  assumes "0 < n" and "v_tags (view_run ops view_empty) r \<noteq> Map.empty"
  shows "walk_pages (\<lambda>c. the (log_tags_page (log_run E ops) r c n)) id
           (Suc (card (dom (v_tags (view_run ops view_empty) r)))) None
         = Some (sorted_list_of_set (dom (v_tags (view_run ops view_empty) r)))"
  using log.tags_walk [OF log_run_inv, of n E ops r] assms by (simp add: log_run_view)

theorem tags_walk_complete_witness:
  "v_tags (view_run sample_ops view_empty) ''r'' \<noteq> Map.empty
   \<and> walk_pages (\<lambda>c. the (log_tags_page (log_run sample_ext sample_ops) ''r'' c 1)) id
       (Suc (card (dom (v_tags (view_run sample_ops view_empty) ''r'')))) None
     = Some (sorted_list_of_set (dom (v_tags (view_run sample_ops view_empty) ''r'')))"
proof -
  have "v_tags (view_run sample_ops view_empty) ''r'' ''b'' = Some (''d1'', ''m1'')"
    by (simp add: sample_ops_def upd2_apply Let_def)
  then have "v_tags (view_run sample_ops view_empty) ''r'' \<noteq> Map.empty" by auto
  with tags_walk_complete [of 1 sample_ops "''r''" sample_ext] show ?thesis by simp
qed

end
