(* ===== verification/Wal_Codec.thy ===== *)
theory Wal_Codec
  imports Meta_Log
begin

text \<open>
  The write-ahead log's format (\<open>metadata/log.rs\<close> from \<open>encode_record\<close> on, and \<open>metadata/wal_hmac.rs\<close>):
  the JSON text of an operation, the CRC-framed and optionally authenticated record, the header
  record, the framing check and the replay loops. A position into the file is the suffix of the
  file that starts there.
\<close>

section \<open>Keys and headers\<close>

datatype framing_mode = Plain | HmacSha256

definition load_hmac_key :: "string \<Rightarrow> io_error + bytes \<Rightarrow> io_error + bytes" where
  "load_hmac_key path file =
     (case file of
        Inl e \<Rightarrow> Inl (Io_Error (io_kind_of e)
                  (''storage.metadata.hmac_key_file: cannot read '' @ path @ '': '' @ io_text e))
      | Inr raw \<Rightarrow>
          if length raw < 32
          then Inl (Io_Error KInvalidInput (''storage.metadata.hmac_key_file: key in '' @ path @ '' is ''
                 @ show_nat (length raw) @ '' bytes, minimum is 32''))
          else Inr raw)"

definition framing_mode_of :: "bytes option \<Rightarrow> framing_mode" where
  "framing_mode_of key = (if key \<noteq> None then HmacSha256 else Plain)"

definition HEADER_MAGIC :: bytes where
  "HEADER_MAGIC = ''roci-wal'' @ [CHR 0x00]"

definition encode_header :: "framing_mode \<Rightarrow> bytes" where
  "encode_header mode = HEADER_MAGIC @ [case mode of Plain \<Rightarrow> CHR 0x00 | HmacSha256 \<Rightarrow> CHR 0x01]"

definition decode_header :: "bytes \<Rightarrow> framing_mode option" where
  "decode_header payload =
     (if length payload < length HEADER_MAGIC + 1 then None
      else if take (length HEADER_MAGIC) payload \<noteq> HEADER_MAGIC then None
      else if payload ! length HEADER_MAGIC = CHR 0x00 then Some Plain
      else if payload ! length HEADER_MAGIC = CHR 0x01 then Some HmacSha256
      else None)"

lemma decode_encode_header [simp]: "decode_header (encode_header mode) = Some mode"
  by (cases mode) (simp_all add: decode_header_def encode_header_def HEADER_MAGIC_def)

section \<open>The text of an operation\<close>

definition json_object :: "(string \<times> json) list \<Rightarrow> json" where
  "json_object kvs = JObject (fold (\<lambda>(k, v). bt_insert k v) kvs [])"

definition json_opt_str :: "string option \<Rightarrow> json" where
  "json_opt_str v = (case v of None \<Rightarrow> JNull | Some s \<Rightarrow> JString s)"

fun op_json :: "meta_op \<Rightarrow> json" where
  "op_json (PutManifest repo digest media_type tag references referrer) =
     (let v = json_object [(''op'', JString ''put_manifest''), (''repo'', JString repo),
            (''digest'', JString digest), (''media_type'', JString media_type), (''tag'', json_opt_str tag)];
          v1 = (if references \<noteq> [] then obj_insert ''references'' (JArray (map JString references)) v else v)
      in case referrer of
           None \<Rightarrow> v1
         | Some (subject, descriptor) \<Rightarrow>
             obj_insert ''descriptor'' (JString (from_utf8_lossy descriptor))
               (obj_insert ''subject'' (JString subject) v1))"
| "op_json (DeleteManifest repo digest) =
     json_object [(''op'', JString ''delete_manifest''), (''repo'', JString repo), (''digest'', JString digest)]"
| "op_json (PutReferrer repo subject referrer descriptor) =
     json_object [(''op'', JString ''put_referrer''), (''repo'', JString repo), (''subject'', JString subject),
       (''referrer'', JString referrer), (''descriptor'', JString (from_utf8_lossy descriptor))]"
| "op_json (PutBackrefs repo manifest blobs) =
     json_object [(''op'', JString ''put_backrefs''), (''repo'', JString repo), (''manifest'', JString manifest),
       (''blobs'', JArray (map JString blobs))]"
| "op_json (PutChecksum repo digest crc sz) =
     json_object [(''op'', JString ''put_checksum''), (''repo'', JString repo), (''digest'', JString digest),
       (''crc32c'', JNumber (PosInt (ucast crc))), (''size'', JNumber (PosInt sz))]"
| "op_json (DeleteBlob repo digest) =
     json_object [(''op'', JString ''delete_blob''), (''repo'', JString repo), (''digest'', JString digest)]"

definition serialize_op :: "'a ext_api_scheme \<Rightarrow> meta_op \<Rightarrow> bytes" where
  "serialize_op E op = to_vec E (op_json op)"

definition get_strings :: "string \<Rightarrow> json \<Rightarrow> string list" where
  "get_strings k v = List.map_filter as_str (get_array k v)"

definition option_zip :: "'a option \<Rightarrow> 'b option \<Rightarrow> ('a \<times> 'b) option" where
  "option_zip a b = Option.bind a (\<lambda>x. Option.bind b (\<lambda>y. Some (x, y)))"

definition u32_try_from :: "u64 \<Rightarrow> u32 option" where
  "u32_try_from w = (if unat w < 2 ^ 32 then Some (ucast w) else None)"

definition op_of_json :: "json \<Rightarrow> meta_op option" where
  "op_of_json v =
     (let s = (\<lambda>k. get_str k v); strings = (\<lambda>k. get_strings k v) in
      Option.bind (s ''op'') (\<lambda>op.
        if op = ''put_manifest'' then
          Option.bind (s ''repo'') (\<lambda>repo. Option.bind (s ''digest'') (\<lambda>digest.
            Option.bind (s ''media_type'') (\<lambda>mt.
              Some (PutManifest repo digest mt (s ''tag'') (strings ''references'')
                     (option_zip (s ''subject'') (s ''descriptor''))))))
        else if op = ''delete_manifest'' then
          Option.bind (s ''repo'') (\<lambda>repo. Option.bind (s ''digest'') (\<lambda>digest.
            Some (DeleteManifest repo digest)))
        else if op = ''put_referrer'' then
          Option.bind (s ''repo'') (\<lambda>repo. Option.bind (s ''subject'') (\<lambda>subject.
            Option.bind (s ''referrer'') (\<lambda>referrer. Option.bind (s ''descriptor'') (\<lambda>descriptor.
              Some (PutReferrer repo subject referrer descriptor)))))
        else if op = ''put_backrefs'' then
          Option.bind (s ''repo'') (\<lambda>repo. Option.bind (s ''manifest'') (\<lambda>manifest.
            Some (PutBackrefs repo manifest (strings ''blobs''))))
        else if op = ''put_checksum'' then
          Option.bind (s ''repo'') (\<lambda>repo. Option.bind (s ''digest'') (\<lambda>digest.
            Option.bind (json_get ''crc32c'' v) (\<lambda>c. Option.bind (as_u64 c) (\<lambda>c64.
              Option.bind (u32_try_from c64) (\<lambda>crc.
                Option.bind (json_get ''size'' v) (\<lambda>z. Option.bind (as_u64 z) (\<lambda>sz.
                  Some (PutChecksum repo digest crc sz))))))))
        else if op = ''delete_blob'' then
          Option.bind (s ''repo'') (\<lambda>repo. Option.bind (s ''digest'') (\<lambda>digest.
            Some (DeleteBlob repo digest)))
        else None))"

definition deserialize_op :: "'a ext_api_scheme \<Rightarrow> bytes \<Rightarrow> meta_op option" where
  "deserialize_op E payload = Option.bind (from_slice E payload) op_of_json"

section \<open>Records\<close>

definition encode_record_raw :: "'a ext_api_scheme \<Rightarrow> bytes option \<Rightarrow> bytes \<Rightarrow> bytes" where
  "encode_record_raw E key payload =
     le_bytes 4 (unat (of_nat (length payload) :: u32)) @ le_bytes 4 (unat (crc32c E payload)) @ payload
     @ (case key of None \<Rightarrow> [] | Some k \<Rightarrow> hmac_tag E k payload)"

definition encode_record :: "'a ext_api_scheme \<Rightarrow> bytes option \<Rightarrow> meta_op \<Rightarrow> bytes" where
  "encode_record E key op = encode_record_raw E key (serialize_op E op)"

datatype log_framing_check = Compatible | Incompatible | NoHeader

definition check_log_framing :: "'a ext_api_scheme \<Rightarrow> bytes \<Rightarrow> framing_mode \<Rightarrow> bytes option \<Rightarrow> log_framing_check" where
  "check_log_framing E bs expected key =
     (if length bs < 8 then NoHeader
      else
        let len = le_value (take 4 bs); crc = le_value (take 4 (drop 4 bs)); payload_end = 8 + len in
        if length bs < payload_end then NoHeader
        else
          let payload = take len (drop 8 bs) in
          if unat (crc32c E payload) \<noteq> crc then NoHeader
          else case decode_header payload of
                 None \<Rightarrow> NoHeader
               | Some mode \<Rightarrow>
                   if mode = expected then
                     (case key of
                        None \<Rightarrow> Compatible
                      | Some k \<Rightarrow>
                          if length bs < payload_end + 32 then Incompatible
                          else if \<not> hmac_verify E k payload (take 32 (drop payload_end bs)) then Incompatible
                          else Compatible)
                   else Incompatible)"

definition generation_marker :: "'a ext_api_scheme \<Rightarrow> bytes \<Rightarrow> u64 option" where
  "generation_marker E payload =
     Option.bind (from_slice E payload) (\<lambda>v.
       Option.bind (get_str ''op'' v) (\<lambda>op.
         if op \<noteq> ''gen'' then None else Option.bind (json_get ''gen'' v) as_u64))"

text \<open>
  One turn of a replay loop's framing part: the payload at the start of the remaining bytes and the
  bytes after the record, or \<open>None\<close> where the loop ends (a truncated tail, a corrupt record, a failed
  authentication).
\<close>

definition next_record :: "'a ext_api_scheme \<Rightarrow> bytes option \<Rightarrow> bytes \<Rightarrow> (bytes \<times> bytes) option" where
  "next_record E key bs =
     (if length bs < 8 then None
      else
        let len = le_value (take 4 bs); crc = le_value (take 4 (drop 4 bs));
            record_end = 8 + len + (if key \<noteq> None then 32 else 0) in
        if length bs < record_end then None
        else
          let payload = take len (drop 8 bs) in
          if unat (crc32c E payload) \<noteq> crc then None
          else if (case key of None \<Rightarrow> False | Some k \<Rightarrow> \<not> hmac_verify E k payload (take 32 (drop (8 + len) bs)))
          then None
          else Some (payload, drop record_end bs))"

definition replay_payload :: "'a ext_api_scheme \<Rightarrow> nat \<Rightarrow> bytes \<Rightarrow> state \<times> u64 \<Rightarrow> state \<times> u64" where
  "replay_payload E index payload sg =
     (if index = 1 \<and> decode_header payload \<noteq> None then sg
      else case (if index \<le> 2 then generation_marker E payload else None) of
             Some g \<Rightarrow> (fst sg, g)
           | None \<Rightarrow> (case deserialize_op E payload of
                        Some op \<Rightarrow> (apply_in_ram E op (fst sg), snd sg)
                      | None \<Rightarrow> sg))"

lemma next_record_shorter: "next_record E key bs = Some (p, rest) \<Longrightarrow> length rest < length bs"
  by (auto simp: next_record_def Let_def split: if_splits option.splits)

function replay_loop :: "'a ext_api_scheme \<Rightarrow> bytes option \<Rightarrow> bytes \<Rightarrow> nat \<Rightarrow> state \<times> u64 \<Rightarrow> state \<times> u64" where
  "replay_loop E key bs index sg =
     (case next_record E key bs of
        None \<Rightarrow> sg
      | Some (payload, rest) \<Rightarrow>
          replay_loop E key rest (index + 1) (replay_payload E (index + 1) payload sg))"
  by pat_completeness auto
termination
  by (relation "measure (\<lambda>(_, _, bs, _, _). length bs)") (auto dest: next_record_shorter)

declare replay_loop.simps [simp del]

definition replay_log :: "'a ext_api_scheme \<Rightarrow> bytes option \<Rightarrow> bytes \<Rightarrow> state \<times> u64 \<Rightarrow> state \<times> u64" where
  "replay_log E key bs sg = replay_loop E key bs 0 sg"

function replay_legacy :: "'a ext_api_scheme \<Rightarrow> bytes \<Rightarrow> state \<Rightarrow> state" where
  "replay_legacy E bs st =
     (case next_record E None bs of
        None \<Rightarrow> st
      | Some (payload, rest) \<Rightarrow>
          replay_legacy E rest
            (case deserialize_op E payload of Some op \<Rightarrow> apply_in_ram E op st | None \<Rightarrow> st))"
  by pat_completeness auto
termination
  by (relation "measure (\<lambda>(_, bs, _). length bs)") (auto dest: next_record_shorter)

declare replay_legacy.simps [simp del]

section \<open>Round trips\<close>

lemma json_get_object [simp]: "json_get k (json_object kvs) = map_of (rev kvs) k"
proof -
  have "map_of (fold (\<lambda>(k, v). bt_insert k v) kvs m) = map_of m ++ map_of (rev kvs)" for m
    by (induction kvs arbitrary: m) (auto simp: map_add_def fun_eq_iff split: option.splits)
  then show ?thesis by (simp add: json_object_def)
qed

lemma json_get_insert [simp]:
  "json_get k (obj_insert k' w v) = (case v of JObject _ \<Rightarrow> if k = k' then Some w else json_get k v | _ \<Rightarrow> json_get k v)"
  by (cases v) (auto simp: obj_insert_def)

definition is_object :: "json \<Rightarrow> bool" where
  "is_object v = (case v of JObject _ \<Rightarrow> True | _ \<Rightarrow> False)"

lemma is_object_simps [simp]: "is_object (json_object kvs)" "is_object (obj_insert k w v) = is_object v"
  by (simp_all add: is_object_def json_object_def obj_insert_def split: json.splits)

lemma json_get_insert_object [simp]:
  "is_object v \<Longrightarrow> json_get k (obj_insert k' w v) = (if k = k' then Some w else json_get k v)"
  by (cases v) (auto simp: is_object_def obj_insert_def)

declare json_get_insert [simp del]

lemma list_all_bt_insert: "list_all P m \<Longrightarrow> P (k, v) \<Longrightarrow> list_all P (bt_insert k v m)"
  by (induction m) auto

lemma fold_bt_insert_inv: "bt_invar m \<Longrightarrow> bt_invar (fold (\<lambda>(k, v). bt_insert k v) kvs m)"
  by (induction kvs arbitrary: m) (simp_all add: split_beta)

lemma fold_bt_insert_all:
  "list_all P kvs \<Longrightarrow> list_all P m \<Longrightarrow> list_all P (fold (\<lambda>(k, v). bt_insert k v) kvs m)"
  by (induction kvs arbitrary: m) (simp_all add: split_beta list_all_bt_insert)

lemma json_wf_object:
  assumes "list_all (\<lambda>(k, v). utf8_valid k \<and> json_wf v) kvs"
  shows "json_wf (json_object kvs)"
  using fold_bt_insert_inv [of "[]" kvs] fold_bt_insert_all [OF assms, of "[]"]
  by (simp add: json_object_def)

lemma json_wf_insert:
  "json_wf v \<Longrightarrow> utf8_valid k \<Longrightarrow> json_wf w \<Longrightarrow> json_wf (obj_insert k w v)"
  by (cases v) (auto simp: obj_insert_def list_all_bt_insert)

text \<open>Every Rust \<open>String\<close> of an operation is valid UTF-8; a descriptor is arbitrary bytes.\<close>

fun op_strings :: "meta_op \<Rightarrow> string list" where
  "op_strings (PutManifest r d m t refs ref) =
     [r, d, m] @ (case t of None \<Rightarrow> [] | Some x \<Rightarrow> [x]) @ refs @ (case ref of None \<Rightarrow> [] | Some (s, _) \<Rightarrow> [s])"
| "op_strings (PutBackrefs r m bs) = [r, m] @ bs"
| "op_strings (DeleteManifest r d) = [r, d]"
| "op_strings (PutReferrer r s d x) = [r, s, d]"
| "op_strings (PutChecksum r d c z) = [r, d]"
| "op_strings (DeleteBlob r d) = [r, d]"

definition op_utf8 :: "meta_op \<Rightarrow> bool" where
  "op_utf8 op \<longleftrightarrow> list_all utf8_valid (op_strings op)"

fun op_lossy :: "meta_op \<Rightarrow> meta_op" where
  "op_lossy (PutManifest r d m t refs ref) =
     PutManifest r d m t refs (map_option (\<lambda>(s, x). (s, from_utf8_lossy x)) ref)"
| "op_lossy (PutReferrer r s d x) = PutReferrer r s d (from_utf8_lossy x)"
| "op_lossy op = op"

definition op_text :: "meta_op \<Rightarrow> bool" where
  "op_text op \<longleftrightarrow> op_utf8 op \<and> (case op of
      PutManifest _ _ _ _ _ (Some (_, x)) \<Rightarrow> utf8_valid x
    | PutReferrer _ _ _ x \<Rightarrow> utf8_valid x
    | _ \<Rightarrow> True)"

lemma op_lossy_text: "op_text op \<Longrightarrow> op_lossy op = op"
  by (cases op) (auto simp: op_text_def from_utf8_lossy_valid split: option.splits)

lemma op_json_wf: "op_utf8 op \<Longrightarrow> json_wf (op_json op)"
proof -
  assume u: "op_utf8 op"
  have keys: "utf8_valid ''op''" "utf8_valid ''repo''" "utf8_valid ''digest''" "utf8_valid ''media_type''"
    "utf8_valid ''tag''" "utf8_valid ''references''" "utf8_valid ''subject''" "utf8_valid ''descriptor''"
    "utf8_valid ''referrer''" "utf8_valid ''manifest''" "utf8_valid ''blobs''" "utf8_valid ''crc32c''"
    "utf8_valid ''size''" "utf8_valid ''put_manifest''" "utf8_valid ''delete_manifest''"
    "utf8_valid ''put_referrer''" "utf8_valid ''put_backrefs''" "utf8_valid ''put_checksum''"
    "utf8_valid ''delete_blob''"
    by (simp_all add: utf8_valid_ascii)
  show ?thesis
  proof (cases op)
    case (PutManifest r d m t refs ref)
    then show ?thesis
      using u by (cases t; cases ref)
        (auto simp: op_utf8_def Let_def json_opt_str_def list_all_iff json_wf_insert json_wf_object keys)
  qed (use u in \<open>simp_all add: op_utf8_def list_all_iff json_wf_object keys\<close>)
qed

lemma get_strings_map:
  "json_get k v = Some (JArray (map JString ss)) \<Longrightarrow> get_strings k v = ss"
  by (simp add: get_strings_def get_array_def as_array_def map_filter_def comp_def)

lemma get_strings_None: "json_get k v = None \<Longrightarrow> get_strings k v = []"
  by (simp add: get_strings_def get_array_def map_filter_def)

lemma ucast_u32_u64: "unat (ucast (w::u32) :: u64) = unat w"
  using unat_u32_less [of w] by (simp add: unsigned_ucast_eq take_bit_nat_eq_self)

lemma u32_try_from_ucast [simp]: "u32_try_from (ucast (w::u32)) = Some w"
proof -
  have "unat (ucast (ucast w :: u64) :: u32) = unat w"
    using unat_u32_less [of w] by (simp add: unsigned_ucast_eq take_bit_nat_eq_self take_bit_word_eq_self)
  then have "(ucast (ucast w :: u64) :: u32) = w" by (rule unsigned_word_eqI)
  then show ?thesis using unat_u32_less [of w] by (simp add: u32_try_from_def ucast_u32_u64)
qed

lemma op_of_op_json: "op_of_json (op_json op) = Some (op_lossy op)"
proof (cases op)
  case (PutManifest r d m t refs ref)
  let ?v = "op_json op"
  have "get_strings ''references'' ?v = refs"
    by (cases "refs = []"; cases ref)
      (auto simp: PutManifest Let_def intro!: get_strings_map get_strings_None)
  moreover have "get_str ''tag'' ?v = t"
    by (cases t; cases ref) (auto simp: PutManifest Let_def get_str_def json_opt_str_def as_str_def)
  moreover have "option_zip (get_str ''subject'' ?v) (get_str ''descriptor'' ?v)
      = map_option (\<lambda>(s, x). (s, from_utf8_lossy x)) ref"
    by (cases ref) (auto simp: PutManifest Let_def get_str_def option_zip_def)
  moreover have "get_str ''op'' ?v = Some ''put_manifest''" "get_str ''repo'' ?v = Some r"
      "get_str ''digest'' ?v = Some d" "get_str ''media_type'' ?v = Some m"
    by (cases ref; auto simp: PutManifest Let_def get_str_def)+
  ultimately show ?thesis
    unfolding op_of_json_def Let_def by (simp add: PutManifest del: op_json.simps)
next
  case (PutBackrefs r m bs)
  then show ?thesis
    using get_strings_map [of "''blobs''" "op_json op" bs] by (simp add: op_of_json_def get_str_def)
qed (simp_all add: op_of_json_def get_str_def as_u64_def)

lemma deserialize_serialize:
  assumes "ext_ok E" and "op_utf8 op"
  shows "deserialize_op E (serialize_op E op) = Some (op_lossy op)"
  using ext_okD(1) [OF assms(1) op_json_wf [OF assms(2)]]
  by (simp add: deserialize_op_def serialize_op_def op_of_op_json)

lemma op_json_not_marker: "get_str ''op'' (op_json op) \<noteq> Some ''gen''"
  by (cases op) (auto simp: get_str_def Let_def split: option.splits)

lemma generation_marker_op:
  assumes "ext_ok E" and "op_utf8 op"
  shows "generation_marker E (serialize_op E op) = None"
  using ext_okD(1) [OF assms(1) op_json_wf [OF assms(2)]] op_json_not_marker [of op]
  by (cases "get_str ''op'' (op_json op)") (auto simp: generation_marker_def serialize_op_def)

lemma generation_marker_text: "ext_ok E \<Longrightarrow> generation_marker E (gen_marker_text g) = Some g"
  by (simp add: generation_marker_def ext_okD(2) gen_marker_json_def get_str_def as_u64_def)

section \<open>Framing\<close>

definition tag_len :: "bytes option \<Rightarrow> nat" where
  "tag_len key = (if key \<noteq> None then 32 else 0)"

lemma length_encode_raw:
  "ext_ok E \<Longrightarrow> length (encode_record_raw E key p) = 8 + length p + tag_len key"
  by (cases key) (simp_all add: encode_record_raw_def tag_len_def ext_okD(3))

lemma unat_len_u32: "length p < 2 ^ 32 \<Longrightarrow> unat (of_nat (length p) :: u32) = length p"
  by (simp add: unsigned_of_nat take_bit_nat_eq_self)

lemma encode_raw_fields:
  assumes "length p < 2 ^ 32"
  shows "le_value (take 4 (encode_record_raw E key p @ r)) = length p"
    and "le_value (take 4 (drop 4 (encode_record_raw E key p @ r))) = unat (crc32c E p)"
    and "drop 8 (encode_record_raw E key p @ r) =
         p @ (case key of None \<Rightarrow> [] | Some k \<Rightarrow> hmac_tag E k p) @ r"
  using assms unat_len_u32 [OF assms] unat_u32_less [of "crc32c E p"]
  by (simp_all add: encode_record_raw_def)

lemma next_record_encode:
  assumes "ext_ok E" and "length p < 2 ^ 32"
  shows "next_record E key (encode_record_raw E key p @ r) = Some (p, r)"
proof -
  let ?b = "encode_record_raw E key p @ r"
  have len: "length ?b = 8 + length p + tag_len key + length r"
    using length_encode_raw [OF assms(1)] by simp
  have rest: "drop (8 + length p + tag_len key) ?b = r"
    using length_encode_raw [OF assms(1), of key p] by simp
  have tag: "take 32 (drop (8 + length p) ?b) = hmac_tag E k p" if "key = Some k" for k
  proof -
    have "drop (8 + length p) ?b = drop (length p) (drop 8 ?b)"
      by (simp only: drop_drop add.commute)
    also have "\<dots> = hmac_tag E k p @ r"
      unfolding encode_raw_fields(3) [OF assms(2), of E key r] using that by simp
    finally show ?thesis using ext_okD(3) [OF assms(1), of k p] by simp
  qed
  show ?thesis
    using len rest tag assms encode_raw_fields [OF assms(2), of E key r]
    by (cases key) (simp_all add: next_record_def Let_def tag_len_def ext_okD(3,4))
qed

text \<open>A record that was cut short is never accepted, whatever its checksum says.\<close>

lemma next_record_torn:
  assumes "ext_ok E" and "length p < 2 ^ 32" and "n < length (encode_record_raw E key p)"
  shows "next_record E key (take n (encode_record_raw E key p)) = None"
proof (cases "n < 8")
  case False
  let ?b = "take n (encode_record_raw E key p)"
  have "take 4 ?b = take 4 (encode_record_raw E key p @ [])"
    using False by (simp add: min_def)
  then have "le_value (take 4 ?b) = length p"
    using encode_raw_fields(1) [OF assms(2), of E key "[]"] by simp
  then show ?thesis
    using assms(3) False by (simp add: next_record_def Let_def length_encode_raw [OF assms(1)] tag_len_def)
qed (use assms in \<open>simp add: next_record_def\<close>)

fun replay_payloads :: "'a ext_api_scheme \<Rightarrow> nat \<Rightarrow> bytes list \<Rightarrow> state \<times> u64 \<Rightarrow> state \<times> u64" where
  "replay_payloads E i [] sg = sg"
| "replay_payloads E i (p # ps) sg = replay_payloads E (i + 1) ps (replay_payload E (i + 1) p sg)"

lemma replay_loop_records:
  assumes "ext_ok E" and "list_all (\<lambda>p. length p < 2 ^ 32) ps"
  shows "replay_loop E key (concat (map (encode_record_raw E key) ps) @ r) i sg
       = replay_loop E key r (i + length ps) (replay_payloads E i ps sg)"
  using assms(2)
proof (induction ps arbitrary: i sg)
  case (Cons p ps)
  then show ?case
    using next_record_encode [OF assms(1), of p key "concat (map (encode_record_raw E key) ps) @ r"]
    by (subst replay_loop.simps) simp
qed simp

lemma replay_loop_stop: "next_record E key r = None \<Longrightarrow> replay_loop E key r i sg = sg"
  by (subst replay_loop.simps) simp

lemma next_record_Nil [simp]: "next_record E key [] = None"
  by (simp add: next_record_def)

lemma replay_payloads_append:
  "replay_payloads E i (ps @ qs) sg = replay_payloads E (i + length ps) qs (replay_payloads E i ps sg)"
  by (induction ps arbitrary: i sg) auto

text \<open>Past the header, the payloads of operations replay as the operations.\<close>

lemma replay_payload_op:
  assumes "ext_ok E" and "op_utf8 op" and "0 < i"
  shows "replay_payload E (i + 1) (serialize_op E op) sg = (apply_in_ram E (op_lossy op) (fst sg), snd sg)"
  using assms by (simp add: replay_payload_def generation_marker_op deserialize_serialize)

lemma replay_payloads_ops:
  assumes "ext_ok E" and "list_all op_utf8 ops" and "0 < i"
  shows "replay_payloads E i (map (serialize_op E) ops) sg
       = (fold (apply_in_ram E) (map op_lossy ops) (fst sg), snd sg)"
  using assms(2,3)
proof (induction ops arbitrary: i sg)
  case (Cons op ops)
  then show ?case using replay_payload_op [OF assms(1), of op i sg] by simp
qed simp

section \<open>Authenticity\<close>

text \<open>The payloads a replay accepts.\<close>

function accepted :: "'a ext_api_scheme \<Rightarrow> bytes option \<Rightarrow> bytes \<Rightarrow> bytes list" where
  "accepted E key bs =
     (case next_record E key bs of None \<Rightarrow> [] | Some (p, rest) \<Rightarrow> p # accepted E key rest)"
  by pat_completeness auto
termination
  by (relation "measure (\<lambda>(_, _, bs). length bs)") (auto dest: next_record_shorter)

declare accepted.simps [simp del]

lemma replay_loop_accepted: "replay_loop E key bs i sg = replay_payloads E i (accepted E key bs) sg"
proof (induction E key bs i sg rule: replay_loop.induct)
  case (1 E key bs i sg)
  then show ?case
    by (cases "next_record E key bs")
      (auto simp: replay_loop.simps [of E key bs] accepted.simps [of E key bs])
qed

lemma next_record_authentic:
  assumes "next_record E (Some k) bs = Some (p, rest)"
  shows "\<exists>pre t. bs = pre @ p @ t @ rest \<and> length t = 32 \<and> hmac_verify E k p t"
proof -
  let ?len = "le_value (take 4 bs)"
  have b: "\<not> length bs < 8 + ?len + 32" "p = take ?len (drop 8 bs)" "rest = drop (8 + ?len + 32) bs"
      "hmac_verify E k p (take 32 (drop (8 + ?len) bs))"
    using assms by (auto simp: next_record_def Let_def split: if_splits)
  have "bs = take 8 bs @ p @ take 32 (drop (8 + ?len) bs) @ rest"
    unfolding b(2,3)
    by (metis (no_types, opaque_lifting) append_take_drop_id drop_drop add.commute)
  moreover have "length (take 32 (drop (8 + ?len) bs)) = 32" using b(1) by simp
  ultimately show ?thesis using b(4) by blast
qed

lemma accepted_authentic:
  "p \<in> set (accepted E (Some k) bs) \<Longrightarrow> \<exists>t. length t = 32 \<and> hmac_verify E k p t \<and> sublist (p @ t) bs"
proof (induction E "Some k" bs rule: accepted.induct)
  case (1 E bs)
  show ?case
  proof (cases "next_record E (Some k) bs")
    case None
    with 1 show ?thesis by (simp add: accepted.simps [of E "Some k" bs])
  next
    case (Some pr)
    obtain q rest where pr: "pr = (q, rest)" by (cases pr)
    obtain pre t where bs: "bs = pre @ q @ t @ rest" "length t = 32" "hmac_verify E k q t"
      using next_record_authentic Some pr by blast
    have "p = q \<or> p \<in> set (accepted E (Some k) rest)"
      using 1(2) Some pr by (simp add: accepted.simps [of E "Some k" bs])
    then show ?thesis
    proof
      assume "p = q"
      then show ?thesis using bs by (metis append.assoc sublist_appendI)
    next
      assume "p \<in> set (accepted E (Some k) rest)"
      then obtain t' where t': "length t' = 32" "hmac_verify E k p t'" "sublist (p @ t') rest"
        using 1(1) Some pr by blast
      then have "sublist (p @ t') bs" by (simp add: bs(1) sublist_append sublist_appendI)
      then show ?thesis using t' by blast
    qed
  qed
qed

section \<open>Properties of the codec\<close>

text \<open>
  (C14) Round trip of a log record. Whatever follows it in the file, an encoded operation is read back
  as one record whose payload decodes to the operation, and the reader continues right after it;
  with or without authentication.
\<close>

theorem record_roundtrip:
  assumes "ext_ok E" and "op_text op" and "length (serialize_op E op) < 2 ^ 32"
  shows "next_record E key (encode_record E key op @ rest) = Some (serialize_op E op, rest)
     \<and> deserialize_op E (serialize_op E op) = Some op"
  using next_record_encode [OF assms(1,3), of key rest] deserialize_serialize [OF assms(1), of op]
    op_lossy_text [OF assms(2)] assms(2)
  by (simp add: encode_record_def op_text_def)

theorem record_roundtrip_witness:
  "next_record sample_ext (Some ''key'') (encode_record sample_ext (Some ''key'') (PutChecksum ''r'' ''d'' 7 9) @ ''more'')
     = Some (serialize_op sample_ext (PutChecksum ''r'' ''d'' 7 9), ''more'')
   \<and> deserialize_op sample_ext (serialize_op sample_ext (PutChecksum ''r'' ''d'' 7 9)) = Some (PutChecksum ''r'' ''d'' 7 9)"
proof (rule record_roundtrip [OF sample_ext_ok])
  show "op_text (PutChecksum ''r'' ''d'' 7 9)" by (simp add: op_text_def op_utf8_def utf8_valid_ascii)
  show "length (serialize_op sample_ext (PutChecksum ''r'' ''d'' 7 9)) < 2 ^ 32"
    by (simp add: serialize_op_def sample_ext_def json_object_def enc_str_def unary_def)
qed

text \<open>
  A record cut anywhere before its last byte is never read as a record, so the replay of a log
  whose last record is torn sees exactly the records before it.
\<close>

theorem torn_record_ignored:
  assumes "ext_ok E" and "list_all (\<lambda>p. length p < 2 ^ 32) (ps @ [q])"
    and "n < length (encode_record_raw E key q)"
  shows "replay_log E key (concat (map (encode_record_raw E key) ps) @ take n (encode_record_raw E key q)) sg
       = replay_log E key (concat (map (encode_record_raw E key) ps)) sg"
proof -
  have small: "list_all (\<lambda>p. length p < 2 ^ 32) ps" "length q < 2 ^ 32" using assms(2) by simp_all
  show ?thesis
    using replay_loop_records [OF assms(1) small(1), of key _ 0 sg] replay_loop_stop
      next_record_torn [OF assms(1) small(2) assms(3)]
    by (metis append.right_neutral next_record_Nil replay_log_def)
qed

theorem torn_record_ignored_witness:
  "replay_log sample_ext None (concat (map (encode_record_raw sample_ext None) [''a'']) @ take 8 (encode_record_raw sample_ext None ''b'')) (state_default, 0)
     = replay_log sample_ext None (concat (map (encode_record_raw sample_ext None) [''a''])) (state_default, 0)"
  using torn_record_ignored [OF sample_ext_ok, of "[''a'']" "''b''" 8 None "(state_default, 0)"]
    length_encode_raw [OF sample_ext_ok, of None "''b''"] by simp

end
