(* ===== verification/Meta_Wal.thy ===== *)
theory Meta_Wal
  imports Wal_Codec
begin

text \<open>
  The log engine with its file (\<open>LogMetadataStore\<close> in \<open>metadata/log.rs\<close>): opening and replay, the
  append under the state lock, the group commit under the sync lock, and compaction with the
  atomic replacement of the log. The disk is explicit: the bytes of the log file, how many of them
  would survive a power failure, and the file an unlinked handle still writes. Every system call
  that can fail has its outcome as a parameter. The counters are natural numbers.
\<close>

section \<open>Disk and store\<close>

datatype log_handle = OnPath | Unlinked

record disk =
  d_log :: "bytes option"
  d_durable :: nat
  d_orphan :: bytes
  d_aside :: "bytes list"

definition empty_disk :: disk where
  "empty_disk = \<lparr>d_log = None, d_durable = 0, d_orphan = [], d_aside = []\<rparr>"

record log_store =
  ls_state :: state
  ls_log :: "log_handle option"
  ls_appended :: nat
  ls_synced :: nat
  ls_handle :: "log_handle option"
  ls_threshold :: nat
  ls_key :: "bytes option"
  ls_generation :: u64
  ls_image_len :: nat
  ls_disk :: disk

definition log_bytes :: "disk \<Rightarrow> bytes" where
  "log_bytes d = (case d_log d of None \<Rightarrow> [] | Some b \<Rightarrow> b)"

definition discard_log :: "disk \<Rightarrow> disk" where
  "discard_log d = (case d_log d of
      None \<Rightarrow> d
    | Some b \<Rightarrow> d\<lparr>d_log := None, d_durable := 0, d_aside := b # d_aside d\<rparr>)"

definition open_inner :: "'a ext_api_scheme \<Rightarrow> nat \<Rightarrow> bytes option \<Rightarrow> disk \<Rightarrow> log_store" where
  "open_inner E threshold key d =
     (let (st, generation, d1) =
        (case d_log d of
           None \<Rightarrow> (state_default, 0, d)
         | Some bs \<Rightarrow>
             if bs = [] then (state_default, 0, d)
             else (case check_log_framing E bs (framing_mode_of key) key of
                     Compatible \<Rightarrow> (case replay_log E key bs (state_default, 0) of (st, g) \<Rightarrow> (st, g, d))
                   | Incompatible \<Rightarrow> (state_default, 0, discard_log d)
                   | NoHeader \<Rightarrow>
                       if key \<noteq> None then (state_default, 0, discard_log d)
                       else (replay_legacy E bs state_default, 0, d)))
      in \<lparr>ls_state = st, ls_log = None, ls_appended = 0, ls_synced = 0, ls_handle = None,
          ls_threshold = threshold, ls_key = key, ls_generation = generation,
          ls_image_len = length (log_bytes d1), ls_disk = d1\<rparr>)"

definition file_append :: "log_handle \<Rightarrow> bytes \<Rightarrow> disk \<Rightarrow> disk" where
  "file_append h data d = (case h of
      OnPath \<Rightarrow> d\<lparr>d_log := Some (log_bytes d @ data)\<rparr>
    | Unlinked \<Rightarrow> d\<lparr>d_orphan := d_orphan d @ data\<rparr>)"

section \<open>Appending\<close>

text \<open>How an append can go wrong: opening the file, the calls between opening and writing, or a
  write that stores only a prefix.\<close>

datatype append_fault = NoFault | FailOpen io_error | FailSetup io_error | FailWrite nat io_error

definition append_record ::
  "'a ext_api_scheme \<Rightarrow> append_fault \<Rightarrow> meta_op \<Rightarrow> log_store \<Rightarrow> log_store \<times> (io_error + nat)" where
  "append_record E fault op ls =
     (let record = encode_record E (ls_key ls) op in
      case ls_log ls of
        None \<Rightarrow>
          (case fault of
             FailOpen e \<Rightarrow> (ls, Inl e)
           | _ \<Rightarrow>
               let ls1 = ls\<lparr>ls_disk := (ls_disk ls)\<lparr>d_log := Some (log_bytes (ls_disk ls))\<rparr>\<rparr>;
                   data = (if log_bytes (ls_disk ls1) = []
                           then encode_record_raw E (ls_key ls) (encode_header (framing_mode_of (ls_key ls))) @ record
                           else record)
               in case fault of
                    FailSetup e \<Rightarrow> (ls1, Inl e)
                  | FailWrite n e \<Rightarrow> (ls1\<lparr>ls_disk := file_append OnPath (take n data) (ls_disk ls1)\<rparr>, Inl e)
                  | _ \<Rightarrow>
                      let seq = ls_appended ls + 1
                      in (ls1\<lparr>ls_disk := file_append OnPath data (ls_disk ls1), ls_log := Some OnPath,
                             ls_handle := Some OnPath, ls_appended := seq,
                             ls_state := apply_in_ram E op (ls_state ls)\<rparr>, Inr seq))
      | Some h \<Rightarrow>
          (case fault of
             FailWrite n e \<Rightarrow> (ls\<lparr>ls_disk := file_append h (take n record) (ls_disk ls)\<rparr>, Inl e)
           | _ \<Rightarrow>
               let seq = ls_appended ls + 1
               in (ls\<lparr>ls_disk := file_append h record (ls_disk ls), ls_appended := seq,
                      ls_state := apply_in_ram E op (ls_state ls)\<rparr>, Inr seq)))"

definition sync_data :: "log_handle option \<Rightarrow> disk \<Rightarrow> disk" where
  "sync_data h d = (if h = Some OnPath then d\<lparr>d_durable := length (log_bytes d)\<rparr> else d)"

definition group_commit_through :: "io_error option \<Rightarrow> nat \<Rightarrow> log_store \<Rightarrow> log_store \<times> (io_error + unit)" where
  "group_commit_through fault my_seq ls =
     (if my_seq \<le> ls_synced ls then (ls, Inr ())
      else
        let covered = ls_appended ls in
        case fault of
          Some e \<Rightarrow> (ls, Inl e)
        | None \<Rightarrow> (ls\<lparr>ls_disk := sync_data (ls_handle ls) (ls_disk ls),
                      ls_synced := max (ls_synced ls) covered\<rparr>, Inr ()))"

text \<open>\<open>MetadataStore::apply\<close> and \<open>apply_relaxed\<close>.\<close>

definition log_apply :: "'a ext_api_scheme \<Rightarrow> append_fault \<Rightarrow> io_error option \<Rightarrow> meta_op \<Rightarrow> log_store
    \<Rightarrow> log_store \<times> (io_error + unit)" where
  "log_apply E fault sync_fault op ls =
     (case append_record E fault op ls of
        (ls1, Inl e) \<Rightarrow> (ls1, Inl e)
      | (ls1, Inr seq) \<Rightarrow> group_commit_through sync_fault seq ls1)"

definition log_apply_relaxed :: "'a ext_api_scheme \<Rightarrow> append_fault \<Rightarrow> meta_op \<Rightarrow> log_store
    \<Rightarrow> log_store \<times> (io_error + unit)" where
  "log_apply_relaxed E fault op ls =
     (case append_record E fault op ls of
        (ls1, Inl e) \<Rightarrow> (ls1, Inl e)
      | (ls1, Inr seq) \<Rightarrow> (ls1, Inr ()))"

section \<open>Compaction\<close>

definition write_log_image :: "'a ext_api_scheme \<Rightarrow> bytes option \<Rightarrow> state \<Rightarrow> u64 option \<Rightarrow> bytes" where
  "write_log_image E key full gen =
     encode_record_raw E key (encode_header (framing_mode_of key))
     @ (case gen of None \<Rightarrow> [] | Some g \<Rightarrow> encode_record_raw E key (gen_marker_text g))
     @ concat (map (encode_record E key) (image_ops full))"

text \<open>Compaction can fail while writing the image, at the rename, or after the rename (syncing the
  directory, reopening the new file).\<close>

datatype maintain_fault = MaintainOk | FailImage io_error | FailRename io_error | FailInstall io_error

definition unlink_handle :: "log_handle option \<Rightarrow> log_handle option" where
  "unlink_handle h = map_option (\<lambda>_. Unlinked) h"

definition install_log :: "maintain_fault \<Rightarrow> bytes \<Rightarrow> log_store \<Rightarrow> log_store \<times> (io_error + unit)" where
  "install_log fault tmp ls =
     (case fault of
        FailRename e \<Rightarrow> (ls, Inl e)
      | _ \<Rightarrow>
          let d = ls_disk ls;
              ls1 = ls\<lparr>ls_disk := d\<lparr>d_log := Some tmp, d_durable := length tmp, d_orphan := log_bytes d\<rparr>,
                       ls_log := unlink_handle (ls_log ls), ls_handle := unlink_handle (ls_handle ls)\<rparr>
          in case fault of
               FailInstall e \<Rightarrow> (ls1, Inl e)
             | _ \<Rightarrow> (ls1\<lparr>ls_log := Some OnPath, ls_handle := Some OnPath, ls_synced := ls_appended ls1\<rparr>, Inr ()))"

definition do_maintain :: "'a ext_api_scheme \<Rightarrow> maintain_fault \<Rightarrow> log_store \<Rightarrow> log_store \<times> (io_error + unit)" where
  "do_maintain E fault ls =
     (let log_size = length (log_bytes (ls_disk ls)); grown = log_size - ls_image_len ls in
      if ls_threshold ls = 0 \<or> grown \<le> ls_threshold ls then (ls, Inr ())
      else
        let gen_next = ls_generation ls + 1 in
        case fault of
          FailImage e \<Rightarrow> (ls, Inl e)
        | _ \<Rightarrow>
            let tmp = write_log_image E (ls_key ls) (ls_state ls) (Some gen_next) in
            (case install_log fault tmp ls of
               (ls1, Inl e) \<Rightarrow> (ls1, Inl e)
             | (ls1, Inr u) \<Rightarrow> (ls1\<lparr>ls_image_len := length tmp, ls_generation := gen_next\<rparr>, Inr ())))"

section \<open>Runs\<close>

text \<open>
  What the engine and its callers can do, in any order: append a record, wait for the group commit
  of an earlier append, run maintenance, and restart from the disk. Failures that leave the file
  intact are included. The second argument is the history of appended operations; \<open>base\<close> counts
  those before the last restart and \<open>acked\<close> those a successful commit has reported durable. A record
  holds less than 4 GiB, and a manifest keeps one media type.
\<close>

definition wal_op_ok :: "'a ext_api_scheme \<Rightarrow> (string \<Rightarrow> string \<Rightarrow> string) \<Rightarrow> meta_op \<Rightarrow> bool" where
  "wal_op_ok E mt_of op \<longleftrightarrow> op_text op \<and> op_typed mt_of op \<and> length (serialize_op E op) < 2 ^ 32"

inductive wal_run ::
  "'a ext_api_scheme \<Rightarrow> nat \<Rightarrow> bytes option \<Rightarrow> (string \<Rightarrow> string \<Rightarrow> string)
   \<Rightarrow> log_store \<Rightarrow> meta_op list \<Rightarrow> nat \<Rightarrow> nat \<Rightarrow> bool"
  for E :: "'a ext_api_scheme" and threshold key mt_of where
  start: "wal_run E threshold key mt_of (open_inner E threshold key empty_disk) [] 0 0"
| append: "\<lbrakk>wal_run E threshold key mt_of ls ops base acked; wal_op_ok E mt_of op;
     append_record E NoFault op ls = (ls', Inr seq)\<rbrakk>
     \<Longrightarrow> wal_run E threshold key mt_of ls' (ops @ [op]) base acked"
| append_failed: "\<lbrakk>wal_run E threshold key mt_of ls ops base acked; \<forall>n e. fault \<noteq> FailWrite n e;
     append_record E fault op ls = (ls', Inl err)\<rbrakk>
     \<Longrightarrow> wal_run E threshold key mt_of ls' ops base acked"
| commit: "\<lbrakk>wal_run E threshold key mt_of ls ops base acked; 0 < seq; seq \<le> ls_appended ls;
     group_commit_through fault seq ls = (ls', Inr ())\<rbrakk>
     \<Longrightarrow> wal_run E threshold key mt_of ls' ops base (max acked (base + seq))"
| maintain: "\<lbrakk>wal_run E threshold key mt_of ls ops base acked; \<forall>e. fault \<noteq> FailInstall e;
     list_all (\<lambda>op. length (serialize_op E op) < 2 ^ 32) (image_ops (ls_state ls));
     do_maintain E fault ls = (ls', res)\<rbrakk>
     \<Longrightarrow> wal_run E threshold key mt_of ls' ops base acked"
| restart: "wal_run E threshold key mt_of ls ops base acked
     \<Longrightarrow> wal_run E threshold key mt_of (open_inner E threshold key (ls_disk ls)) ops (length ops) acked"

section \<open>Replay of a cut file\<close>

lemma encode_raw_nonempty [simp]: "encode_record_raw E key p \<noteq> []"
proof -
  have "length (le_bytes 4 v) \<noteq> 0" for v by simp
  then have "le_bytes 4 v \<noteq> []" for v by (metis length_0_conv)
  then show ?thesis by (simp add: encode_record_raw_def)
qed

definition frames :: "'a ext_api_scheme \<Rightarrow> bytes option \<Rightarrow> bytes list \<Rightarrow> bytes" where
  "frames E key ps = concat (map (encode_record_raw E key) ps)"

lemma frames_simps [simp]:
  "frames E key [] = []" "frames E key (p # ps) = encode_record_raw E key p @ frames E key ps"
  "frames E key (ps @ qs) = frames E key ps @ frames E key qs"
  by (simp_all add: frames_def)

text \<open>However a sequence of records is cut, the replay sees a prefix of the records, and all those
  that lie before the cut.\<close>

lemma replay_cut:
  assumes E: "ext_ok E" and "list_all (\<lambda>p. length p < 2 ^ 32) ps"
  shows "\<exists>k\<le>length ps. (\<forall>i sg. replay_loop E key (take n (frames E key ps)) i sg = replay_payloads E i (take k ps) sg)
    \<and> (\<forall>m\<le>length ps. length (frames E key (take m ps)) \<le> n \<longrightarrow> m \<le> k)"
  using assms(2)
proof (induction ps arbitrary: n)
  case Nil
  then show ?case by (auto simp: replay_loop_stop)
next
  case (Cons p ps)
  let ?r = "encode_record_raw E key p"
  have len: "8 \<le> length ?r" using length_encode_raw [OF E] by simp
  show ?case
  proof (cases "n < length ?r")
    case True
    then have stop: "next_record E key (take n (frames E key (p # ps))) = None"
      using next_record_torn [OF E, of p n key] Cons.prems by simp
    have "\<forall>m\<le>length (p # ps). length (frames E key (take m (p # ps))) \<le> n \<longrightarrow> m \<le> 0"
      using True by (auto simp: take_Cons split: nat.splits)
    then show ?thesis using replay_loop_stop [OF stop] by (intro exI [of _ 0]) simp
  next
    case False
    obtain k where k: "k \<le> length ps"
        "\<And>i sg. replay_loop E key (take (n - length ?r) (frames E key ps)) i sg = replay_payloads E i (take k ps) sg"
        "\<And>m. m \<le> length ps \<Longrightarrow> length (frames E key (take m ps)) \<le> n - length ?r \<Longrightarrow> m \<le> k"
      using Cons.IH [of "n - length ?r"] Cons.prems by auto
    have "take n (frames E key (p # ps)) = ?r @ take (n - length ?r) (frames E key ps)"
      using False by simp
    then have "replay_loop E key (take n (frames E key (p # ps))) i sg = replay_payloads E i (take (Suc k) (p # ps)) sg" for i sg
      using next_record_encode [OF E, of p key] Cons.prems k(2) by (subst replay_loop.simps) simp
    moreover have "m \<le> Suc k" if "m \<le> length (p # ps)" "length (frames E key (take m (p # ps))) \<le> n" for m
      using that k(3) [of "m - 1"] False by (cases m) auto
    ultimately show ?thesis using k(1) by (intro exI [of _ "Suc k"]) simp
  qed
qed

definition header_payload :: "bytes option \<Rightarrow> bytes" where
  "header_payload key = encode_header (framing_mode_of key)"

definition wal_payloads :: "'a ext_api_scheme \<Rightarrow> bytes option \<Rightarrow> u64 option \<Rightarrow> meta_op list \<Rightarrow> bytes list" where
  "wal_payloads E key mk ops =
     header_payload key # (case mk of None \<Rightarrow> [] | Some g \<Rightarrow> [gen_marker_text g]) @ map (serialize_op E) ops"

lemma header_payload_length: "length (header_payload key) = 10"
  by (simp add: header_payload_def encode_header_def HEADER_MAGIC_def)

lemma show_nat_short: "n < 10 ^ Suc k \<Longrightarrow> length (show_nat n) \<le> Suc k"
proof (induction k arbitrary: n)
  case 0
  then show ?case by (simp add: show_nat.simps)
next
  case (Suc k)
  show ?case
  proof (cases "n < 10")
    case False
    have "n div 10 < 10 ^ Suc k" using Suc.prems by (simp add: div_less_iff_less_mult mult.commute)
    with Suc.IH False show ?thesis by (simp add: show_nat.simps [of n])
  qed (simp add: show_nat.simps)
qed

lemma gen_marker_small: "length (gen_marker_text g) < 2 ^ 32"
proof -
  have "unat g < 10 ^ Suc 19" using unat_u64_less [of g] by simp
  from show_nat_short [OF this] have "length (show_u64 g) \<le> 20" by (simp add: show_u64_def)
  then show ?thesis by (simp add: gen_marker_text_def)
qed

lemma wal_payloads_small:
  "list_all (\<lambda>op. length (serialize_op E op) < 2 ^ 32) ops \<Longrightarrow>
   list_all (\<lambda>p. length p < 2 ^ 32) (wal_payloads E key mk ops)"
  using gen_marker_small
  by (cases mk) (auto simp: wal_payloads_def header_payload_length list_all_iff)

lemma replay_payloads_wal:
  assumes "ext_ok E" and "list_all op_text ops"
  shows "fst (replay_payloads E 0 (wal_payloads E key mk ops) (state_default, 0)) = log_run E ops"
proof -
  have h: "replay_payload E 1 (header_payload key) sg = sg" for sg
    by (simp add: replay_payload_def header_payload_def)
  have m: "decode_header (gen_marker_text g) = None" for g
    by (simp add: decode_header_def HEADER_MAGIC_def gen_marker_text_def)
  have u: "list_all op_utf8 ops" using assms(2) by (auto simp: list_all_iff op_text_def)
  have l: "map op_lossy ops = ops" using assms(2) by (auto simp: list_all_iff op_lossy_text intro!: map_idI)
  show ?thesis
    using replay_payloads_ops [OF assms(1) u] h
    by (cases mk)
      (auto simp: wal_payloads_def l log_run_def replay_payload_def m generation_marker_text [OF assms(1)])
qed

lemma check_framing_header:
  assumes "ext_ok E"
  shows "check_log_framing E (encode_record_raw E key (header_payload key) @ r) (framing_mode_of key) key = Compatible"
proof -
  let ?p = "header_payload key"
  let ?b = "encode_record_raw E key ?p @ r"
  have small: "length ?p < 2 ^ 32" by (simp add: header_payload_length)
  note f = encode_raw_fields [OF small, of E key r]
  have "drop (8 + length ?p) ?b = (case key of None \<Rightarrow> [] | Some k \<Rightarrow> hmac_tag E k ?p) @ r"
    by (metis (no_types, lifting) add.commute append_eq_conv_conj drop_drop f(3))
  then show ?thesis
    using f length_encode_raw [OF assms, of key ?p] assms
    by (cases key) (simp_all add: check_log_framing_def Let_def header_payload_length tag_len_def
        ext_okD(3,4) header_payload_def)
qed

text \<open>A file cut inside its header record opens as an empty store.\<close>

lemma check_framing_torn:
  assumes "ext_ok E" and "n < length (encode_record_raw E key (header_payload key))"
  shows "check_log_framing E (take n (encode_record_raw E key (header_payload key))) (framing_mode_of key) key \<noteq> Compatible"
proof -
  let ?p = "header_payload key"
  let ?b = "take n (encode_record_raw E key ?p)"
  have small: "length ?p < 2 ^ 32" by (simp add: header_payload_length)
  have le: "le_value (take 4 ?b) = 10" if "8 \<le> n"
  proof -
    have "take 4 ?b = take 4 (encode_record_raw E key ?p @ [])" using that by (simp add: min_def)
    then show ?thesis using encode_raw_fields(1) [OF small, of E key "[]"] by (simp add: header_payload_length)
  qed
  show ?thesis
    using assms(2) le length_encode_raw [OF assms(1), of key ?p]
    by (cases key) (auto simp: check_log_framing_def Let_def header_payload_length tag_len_def
        split: option.splits)
qed

section \<open>Images are text\<close>

definition view_text :: "meta_view \<Rightarrow> bool" where
  "view_text v \<longleftrightarrow>
     (\<forall>r t d m. v_tags v r t = Some (d, m) \<longrightarrow> list_all utf8_valid [r, t, d, m])
     \<and> (\<forall>r d m. v_media v r d = Some m \<longrightarrow> list_all utf8_valid [r, d, m])
     \<and> (\<forall>r s d x. v_referrers v r s d = Some x \<longrightarrow> list_all utf8_valid [r, s, d, x])
     \<and> (\<forall>r b m. m \<in> v_backrefs v r b \<longrightarrow> list_all utf8_valid [r, b, m])
     \<and> (\<forall>r d k. v_checksums v r d = Some k \<longrightarrow> list_all utf8_valid [r, d])"

lemma view_text_empty [simp]: "view_text view_empty"
  by (simp add: view_text_def view_empty_def)

lemma view_text_put:
  assumes v: "view_text v" and t: "op_text (PutManifest r d m tag refs ref)"
  shows "view_text (view_apply (PutManifest r d m tag refs ref) v)"
proof -
  have u: "utf8_valid r" "utf8_valid d" "utf8_valid m" "\<And>x. tag = Some x \<Longrightarrow> utf8_valid x"
      "\<And>b. b \<in> set refs \<Longrightarrow> utf8_valid b" "\<And>s x. ref = Some (s, x) \<Longrightarrow> utf8_valid s \<and> utf8_valid x"
    using t by (auto simp: op_text_def op_utf8_def list_all_iff split: option.splits)
  show ?thesis
    using v u
    unfolding view_text_def view_apply_put_tags view_apply_put_media view_apply_put_backrefs
      view_apply_put_referrers view_apply_put_checksums
    by (auto split: if_splits)
qed

lemma view_text_apply: "view_text v \<Longrightarrow> op_text op \<Longrightarrow> view_text (view_apply op v)"
proof (cases op)
  case (PutManifest r d m tag refs ref)
  assume "view_text v" "op_text op"
  then show ?thesis unfolding PutManifest by (rule view_text_put)
qed (auto simp: view_text_def op_text_def op_utf8_def list_all_iff upd2_apply split: if_splits)

lemma view_text_run: "view_text v \<Longrightarrow> list_all op_text ops \<Longrightarrow> view_text (view_run ops v)"
  by (induction ops arbitrary: v) (auto simp: view_text_apply)

lemma op_agrees_text:
  assumes "view_text v" and "op_agrees v op" and "\<And>r m. op \<noteq> PutBackrefs r m []"
  shows "op_text op"
proof (cases op)
  case (PutManifest r d m tag refs ref)
  then have "v_media v r d = Some m" "refs = []" "ref = None"
      "\<And>t. tag = Some t \<Longrightarrow> v_tags v r t = Some (d, m)"
    using assms(2) by auto
  then show ?thesis
    using assms(1) unfolding view_text_def PutManifest
    by (fastforce simp: op_text_def op_utf8_def split: option.splits)
next
  case (PutBackrefs r m bs)
  then have bs: "bs \<noteq> []" "\<And>b. b \<in> set bs \<Longrightarrow> m \<in> v_backrefs v r b" using assms(2,3) by auto
  have "utf8_valid r \<and> utf8_valid b \<and> utf8_valid m" if "b \<in> set bs" for b
    using assms(1) bs(2) [OF that] unfolding view_text_def by simp
  moreover have "hd bs \<in> set bs" using bs(1) by simp
  ultimately have "utf8_valid r \<and> utf8_valid m \<and> (\<forall>b\<in>set bs. utf8_valid b)" by blast
  then show ?thesis by (simp add: PutBackrefs op_text_def op_utf8_def list_all_iff)
next
  case (PutReferrer r s d x)
  then have "v_referrers v r s d = Some x" using assms(2) by simp
  then show ?thesis using assms(1) unfolding view_text_def by (auto simp: PutReferrer op_text_def op_utf8_def)
next
  case (PutChecksum r d c z)
  then have "v_checksums v r d = Some \<lparr>ck_crc32c = c, ck_size = z\<rparr>" using assms(2) by simp
  then have "list_all utf8_valid [r, d]" using assms(1) unfolding view_text_def by blast
  then show ?thesis by (simp add: PutChecksum op_text_def op_utf8_def)
qed (use assms(2) in simp_all)

lemma image_ops_backrefs: "op \<in> set (image_ops st) \<Longrightarrow> op \<noteq> PutBackrefs r m []"
  by (auto simp: image_ops_def image_tags_def image_untagged_def image_backrefs_def image_referrers_def
      image_checksums_def)

lemma image_ops_text:
  assumes "state_inv E st" and "view_typed mt_of (log_view st)" and "view_text (log_view st)"
  shows "list_all op_text (image_ops st)"
proof -
  have "list_all (op_agrees (log_view st)) (image_ops st)"
    using image_agrees [OF assms(1)] assms(2) by (simp add: view_typed_def)
  then show ?thesis
    using op_agrees_text [OF assms(3)] image_ops_backrefs by (fastforce simp: list_all_iff)
qed

section \<open>Opening a file\<close>

definition wal_file :: "'a ext_api_scheme \<Rightarrow> bytes option \<Rightarrow> u64 option \<Rightarrow> meta_op list \<Rightarrow> bytes" where
  "wal_file E key mk ops = frames E key (wal_payloads E key mk ops)"

lemma wal_file_split:
  "wal_file E key mk ops = encode_record_raw E key (header_payload key)
     @ (case mk of None \<Rightarrow> [] | Some g \<Rightarrow> encode_record_raw E key (gen_marker_text g))
     @ concat (map (encode_record E key) ops)"
  by (cases mk) (simp_all add: wal_file_def wal_payloads_def frames_def encode_record_def [abs_def] comp_def)

lemma wal_file_append: "wal_file E key mk (ops @ ops') = wal_file E key mk ops @ concat (map (encode_record E key) ops')"
  by (simp add: wal_file_split)

lemma wal_file_nonempty [simp]: "wal_file E key mk ops \<noteq> []"
  by (simp add: wal_file_split)

definition head_len :: "u64 option \<Rightarrow> nat" where
  "head_len mk = (case mk of None \<Rightarrow> 1 | Some _ \<Rightarrow> 2)"

lemma take_wal_payloads: "take (head_len mk + m) (wal_payloads E key mk ops) = wal_payloads E key mk (take m ops)"
  by (cases mk) (simp_all add: wal_payloads_def head_len_def take_map)

lemma length_wal_payloads: "length (wal_payloads E key mk ops) = head_len mk + length ops"
  by (cases mk) (simp_all add: wal_payloads_def head_len_def)

lemma open_compatible:
  assumes "ext_ok E" and "d_log d = Some (encode_record_raw E key (header_payload key) @ r)"
  shows "ls_state (open_inner E thr key d) =
      fst (replay_log E key (encode_record_raw E key (header_payload key) @ r) (state_default, 0))"
    and "ls_disk (open_inner E thr key d) = d"
proof -
  show "ls_state (open_inner E thr key d) =
      fst (replay_log E key (encode_record_raw E key (header_payload key) @ r) (state_default, 0))"
    and "ls_disk (open_inner E thr key d) = d"
    using check_framing_header [OF assms(1), of key r] assms(2)
    by (simp_all add: open_inner_def Let_def split_beta)
qed

lemma open_torn_header:
  assumes "ext_ok E" and "n < length (encode_record_raw E key (header_payload key))"
    and "d_log d = Some (take n (encode_record_raw E key (header_payload key)))"
  shows "ls_state (open_inner E thr key d) = state_default"
proof -
  let ?b = "take n (encode_record_raw E key (header_payload key))"
  have nc: "check_log_framing E ?b (framing_mode_of key) key \<noteq> Compatible"
    by (rule check_framing_torn [OF assms(1,2)])
  have "next_record E key ?b = None"
    using next_record_torn [OF assms(1) _ assms(2)] by (simp add: header_payload_length)
  then have "replay_legacy E ?b state_default = state_default" if "key = None"
    using that by (simp add: replay_legacy.simps)
  with nc assms(3) show ?thesis
    by (cases "check_log_framing E ?b (framing_mode_of key) key")
      (auto simp: open_inner_def Let_def split_beta)
qed

lemma open_cut:
  assumes E: "ext_ok E" and txt0: "list_all op_text ops"
    and small: "list_all (\<lambda>op. length (serialize_op E op) < 2 ^ 32) ops"
    and d: "d_log d = Some (take n (wal_file E key mk ops))"
    and full: "length (wal_file E key mk (take m ops)) \<le> n" "m \<le> length ops"
  shows "\<exists>k. m \<le> k \<and> k \<le> length ops \<and> ls_state (open_inner E thr key d) = log_run E (take k ops)"
proof -
  let ?hd = "encode_record_raw E key (header_payload key)"
  let ?ps = "wal_payloads E key mk ops"
  have hd: "length ?hd \<le> n" using full(1) by (simp add: wal_file_split)
  then obtain r where r: "take n (wal_file E key mk ops) = ?hd @ r"
    by (simp add: wal_file_split)
  obtain k where k: "k \<le> length ?ps"
      "\<And>i sg. replay_loop E key (take n (wal_file E key mk ops)) i sg = replay_payloads E i (take k ?ps) sg"
      "\<And>j. j \<le> length ?ps \<Longrightarrow> length (frames E key (take j ?ps)) \<le> n \<Longrightarrow> j \<le> k"
    using replay_cut [OF E wal_payloads_small [OF small], where key = key and n = n] unfolding wal_file_def by blast
  have "head_len mk + m \<le> k"
    using k(3) [of "head_len mk + m"] full by (simp add: take_wal_payloads length_wal_payloads wal_file_def)
  then obtain j where j: "k = head_len mk + j" "m \<le> j" using le_Suc_ex by (metis add_le_cancel_left le_add1 le_trans)
  have jl: "j \<le> length ops" using k(1) j by (simp add: length_wal_payloads)
  have tj: "list_all op_text (take j ops)" using txt0 by (auto simp: list_all_iff dest: in_set_takeD)
  have "ls_state (open_inner E thr key d) = fst (replay_payloads E 0 (take k ?ps) (state_default, 0))"
    using open_compatible(1) [OF E, of d key r thr] d r k(2) [of 0] by (simp add: replay_log_def)
  also have "\<dots> = log_run E (take j ops)"
    using replay_payloads_wal [OF E tj] by (simp add: j take_wal_payloads)
  finally show ?thesis using j(2) jl by blast
qed

lemma open_full:
  assumes "ext_ok E" and "list_all op_text ops"
    and "list_all (\<lambda>op. length (serialize_op E op) < 2 ^ 32) ops"
    and "d_log d = Some (wal_file E key mk ops)"
  shows "ls_state (open_inner E thr key d) = log_run E ops" and "ls_disk (open_inner E thr key d) = d"
proof -
  show "ls_state (open_inner E thr key d) = log_run E ops"
    using open_cut [OF assms(1-3), of d "length (wal_file E key mk ops)" key mk "length ops" thr] assms(4) by auto
  show "ls_disk (open_inner E thr key d) = d"
    using open_compatible(2) [OF assms(1), of d key _ thr] assms(4) by (simp add: wal_file_split)
qed

section \<open>The durability invariant\<close>

text \<open>
  The file is a header, an optional generation marker with the image of the history's prefix
  \<open>pre\<close>, and one record per later operation; what was reported durable lies in the durable part.
\<close>

definition small_op :: "'a ext_api_scheme \<Rightarrow> meta_op \<Rightarrow> bool" where
  "small_op E op \<longleftrightarrow> length (serialize_op E op) < 2 ^ 32"

definition durable_to ::
  "'a ext_api_scheme \<Rightarrow> bytes option \<Rightarrow> disk \<Rightarrow> u64 option \<Rightarrow> meta_op list \<Rightarrow> meta_op list \<Rightarrow> meta_op list \<Rightarrow> nat \<Rightarrow> bool" where
  "durable_to E key d mk pre iops tail n \<longleftrightarrow> (n = 0 \<and> mk = None)
     \<or> length (wal_file E key mk (iops @ take (n - length pre) tail)) \<le> d_durable d"

definition wal_shape ::
  "'a ext_api_scheme \<Rightarrow> bytes option \<Rightarrow> log_store \<Rightarrow> meta_op list \<Rightarrow> nat \<Rightarrow> nat
   \<Rightarrow> u64 option \<Rightarrow> meta_op list \<Rightarrow> meta_op list \<Rightarrow> meta_op list \<Rightarrow> bool" where
  "wal_shape E key ls ops base acked mk pre iops tail \<longleftrightarrow>
     d_log (ls_disk ls) = Some (wal_file E key mk (iops @ tail)) \<and> ops = pre @ tail
     \<and> list_all op_text iops \<and> list_all (small_op E) iops
     \<and> view_run iops view_empty = view_run pre view_empty \<and> (mk = None \<longrightarrow> iops = [] \<and> pre = [])
     \<and> durable_to E key (ls_disk ls) mk pre iops tail acked
     \<and> (0 < ls_synced ls \<longrightarrow> durable_to E key (ls_disk ls) mk pre iops tail (base + ls_synced ls))"

definition wal_core :: "'a ext_api_scheme \<Rightarrow> bytes option \<Rightarrow> (string \<Rightarrow> string \<Rightarrow> string) \<Rightarrow> log_store
    \<Rightarrow> meta_op list \<Rightarrow> nat \<Rightarrow> nat \<Rightarrow> bool" where
  "wal_core E key mt_of ls ops base acked \<longleftrightarrow>
     state_inv E (ls_state ls) \<and> log_view (ls_state ls) = view_run ops view_empty \<and> ls_key ls = key
     \<and> list_all (wal_op_ok E mt_of) ops \<and> base \<le> length ops \<and> ls_appended ls = length ops - base
     \<and> ls_synced ls \<le> ls_appended ls \<and> acked \<le> length ops \<and> ls_handle ls = ls_log ls
     \<and> (ls_log ls = None \<and> ls_appended ls = 0 \<or> ls_log ls = Some OnPath)"

definition wal_inv where
  "wal_inv E key mt_of ls ops base acked \<longleftrightarrow> wal_core E key mt_of ls ops base acked
     \<and> (log_bytes (ls_disk ls) = [] \<and> ops = [] \<and> ls_log ls = None
        \<or> (\<exists>mk pre iops tail. wal_shape E key ls ops base acked mk pre iops tail))"

lemma wal_ops_text:
  "list_all (wal_op_ok E mt_of) ops \<Longrightarrow>
   list_all op_text ops \<and> list_all (small_op E) ops \<and> list_all (op_typed mt_of) ops"
  by (auto simp: list_all_iff wal_op_ok_def small_op_def)

lemma wal_file_mono: "length (wal_file E key mk (iops @ take m tail)) \<le> length (wal_file E key mk (iops @ tail))"
proof -
  have "wal_file E key mk (iops @ tail) = wal_file E key mk (iops @ take m tail) @ concat (map (encode_record E key) (drop m tail))"
    by (metis append.assoc append_take_drop_id wal_file_append)
  then show ?thesis by simp
qed

lemma durable_to_mono:
  assumes "durable_to E key d mk pre iops tail n" and "m \<le> n"
  shows "durable_to E key d mk pre iops tail m"
proof -
  have "length (wal_file E key mk (iops @ take (m - length pre) tail))
      \<le> length (wal_file E key mk (iops @ take (n - length pre) tail))"
    using wal_file_mono [of E key mk iops "m - length pre" "take (n - length pre) tail"] assms(2)
    by (simp add: min_absorb1 diff_le_mono)
  then show ?thesis using assms unfolding durable_to_def by auto
qed

lemma durable_to_all:
  "d_durable d = length (wal_file E key mk (iops @ tail)) \<Longrightarrow> durable_to E key d mk pre iops tail n"
  by (simp add: durable_to_def wal_file_mono)

lemma wal_inv_empty:
  assumes "wal_inv E key mt_of ls ops base acked" and "log_bytes (ls_disk ls) = []"
  shows "ops = [] \<and> acked = 0 \<and> ls_log ls = None \<and> ls_synced ls = 0"
proof -
  have "\<not> wal_shape E key ls ops base acked mk pre iops tail" for mk pre iops tail
    using assms(2) by (auto simp: wal_shape_def log_bytes_def)
  with assms(1,2) have "ops = []" "ls_log ls = None" "wal_core E key mt_of ls ops base acked"
    unfolding wal_inv_def by blast+
  then show ?thesis by (simp add: wal_core_def)
qed

lemma wal_inv_start: "wal_inv E key mt_of (open_inner E thr key empty_disk) [] 0 0"
  by (simp add: wal_inv_def wal_core_def open_inner_def empty_disk_def log_bytes_def)

lemma wal_inv_append:
  assumes inv: "wal_inv E key mt_of ls ops base acked" and op: "wal_op_ok E mt_of op"
    and step: "append_record E NoFault op ls = (ls', Inr seq)"
  shows "wal_inv E key mt_of ls' (ops @ [op]) base acked"
proof -
  have core: "wal_core E key mt_of ls ops base acked" using inv by (simp add: wal_inv_def)
  then have log: "ls_log ls = None \<or> ls_log ls = Some OnPath" and key: "ls_key ls = key"
    by (auto simp: wal_core_def)
  have core': "wal_core E key mt_of ls' (ops @ [op]) base acked"
    using core step op log
    by (auto simp: wal_core_def append_record_def Let_def apply_in_ram_inv log_view_apply)
  let ?hd = "encode_record_raw E key (header_payload key)"
  show ?thesis
  proof (cases "log_bytes (ls_disk ls) = []")
    case True
    then have e: "ops = []" "ls_log ls = None" "acked = 0" "ls_synced ls = 0"
      using wal_inv_empty [OF inv] by auto
    have "wal_shape E key ls' (ops @ [op]) base acked None [] [] [op]"
      using step e True key
      by (auto simp: append_record_def Let_def wal_shape_def file_append_def log_bytes_def durable_to_def
          wal_file_split header_payload_def)
    with core' show ?thesis unfolding wal_inv_def by blast
  next
    case False
    then obtain mk pre iops tail where sh: "wal_shape E key ls ops base acked mk pre iops tail"
      using inv by (auto simp: wal_inv_def)
    have disk: "d_log (ls_disk ls') = Some (log_bytes (ls_disk ls) @ encode_record E key op)"
        "d_durable (ls_disk ls') = d_durable (ls_disk ls)" "ls_synced ls' = ls_synced ls"
      using step False log key by (auto simp: append_record_def Let_def file_append_def log_bytes_def)
    have dur: "durable_to E key (ls_disk ls') mk pre iops (tail @ [op]) n"
      if "durable_to E key (ls_disk ls) mk pre iops tail n" "n \<le> length ops" for n
      using that disk(2) sh by (simp add: durable_to_def wal_shape_def)
    have "acked \<le> length ops" "base + ls_synced ls \<le> length ops"
      using core by (auto simp: wal_core_def)
    moreover have "wal_file E key mk (iops @ tail @ [op]) = wal_file E key mk (iops @ tail) @ encode_record E key op"
      using wal_file_append [of E key mk "iops @ tail" "[op]"] by simp
    ultimately have "wal_shape E key ls' (ops @ [op]) base acked mk pre iops (tail @ [op])"
      using sh disk dur unfolding wal_shape_def by (simp add: log_bytes_def)
    with core' show ?thesis unfolding wal_inv_def by blast
  qed
qed

lemma wal_inv_append_failed:
  assumes inv: "wal_inv E key mt_of ls ops base acked" and "\<forall>n e. fault \<noteq> FailWrite n e"
    and step: "append_record E fault op ls = (ls', Inl err)"
  shows "wal_inv E key mt_of ls' ops base acked"
proof -
  have same: "ls' = ls \<or> ls' = ls\<lparr>ls_disk := (ls_disk ls)\<lparr>d_log := Some (log_bytes (ls_disk ls))\<rparr>\<rparr>"
    using step assms(2) by (auto simp: append_record_def Let_def split: option.splits append_fault.splits)
  then have core: "wal_core E key mt_of ls' ops base acked" and bytes: "log_bytes (ls_disk ls') = log_bytes (ls_disk ls)"
      and log: "ls_log ls' = ls_log ls"
    using inv by (auto simp: wal_inv_def wal_core_def log_bytes_def)
  have "wal_shape E key ls' ops base acked mk pre iops tail"
    if "wal_shape E key ls ops base acked mk pre iops tail" for mk pre iops tail
    using same that by (elim disjE) (simp_all add: wal_shape_def log_bytes_def durable_to_def)
  then show ?thesis using inv core bytes log unfolding wal_inv_def by metis
qed

lemma wal_inv_commit:
  assumes inv: "wal_inv E key mt_of ls ops base acked" and seq: "0 < seq" "seq \<le> ls_appended ls"
    and step: "group_commit_through fault seq ls = (ls', Inr ())"
  shows "wal_inv E key mt_of ls' ops base (max acked (base + seq))"
proof -
  have core: "wal_core E key mt_of ls ops base acked" using inv by (simp add: wal_inv_def)
  then have app: "base + ls_appended ls = length ops" "ls_synced ls \<le> ls_appended ls" "acked \<le> length ops"
      "ls_handle ls = Some OnPath" "ls_log ls = Some OnPath"
    using seq by (auto simp: wal_core_def)
  then obtain mk pre iops tail where sh: "wal_shape E key ls ops base acked mk pre iops tail"
    using inv by (auto simp: wal_inv_def)
  show ?thesis
  proof (cases "seq \<le> ls_synced ls")
    case True
    then have eq: "ls' = ls" using step by (simp add: group_commit_through_def)
    have "durable_to E key (ls_disk ls) mk pre iops tail (max acked (base + seq))"
      using sh True seq(1) durable_to_mono [of E key "ls_disk ls" mk pre iops tail "base + ls_synced ls" "base + seq"]
      by (auto simp: wal_shape_def max_def)
    with sh have "wal_shape E key ls' ops base (max acked (base + seq)) mk pre iops tail"
      by (simp add: wal_shape_def eq)
    moreover have "wal_core E key mt_of ls' ops base (max acked (base + seq))"
      using core app seq by (auto simp: wal_core_def eq)
    ultimately show ?thesis unfolding wal_inv_def by blast
  next
    case False
    then have ls': "ls' = ls\<lparr>ls_disk := sync_data (Some OnPath) (ls_disk ls), ls_synced := max (ls_synced ls) (ls_appended ls)\<rparr>"
      using step app(4) by (auto simp: group_commit_through_def Let_def split: option.splits)
    have "d_durable (ls_disk ls') = length (wal_file E key mk (iops @ tail))"
      using sh by (simp add: ls' sync_data_def wal_shape_def log_bytes_def)
    then have "durable_to E key (ls_disk ls') mk pre iops tail n" for n by (rule durable_to_all)
    moreover have "d_log (ls_disk ls') = d_log (ls_disk ls)" by (simp add: ls' sync_data_def)
    ultimately have "wal_shape E key ls' ops base (max acked (base + seq)) mk pre iops tail"
      using sh unfolding wal_shape_def by simp
    moreover have "wal_core E key mt_of ls' ops base (max acked (base + seq))"
      using core app seq by (auto simp: wal_core_def ls')
    ultimately show ?thesis unfolding wal_inv_def by blast
  qed
qed

lemma write_log_image_file: "write_log_image E key st (Some g) = wal_file E key (Some g) (image_ops st)"
  by (simp add: write_log_image_def wal_file_split header_payload_def)

lemma wal_inv_maintain:
  assumes inv: "wal_inv E key mt_of ls ops base acked" and "\<forall>e. fault \<noteq> FailInstall e"
    and small: "list_all (\<lambda>op. length (serialize_op E op) < 2 ^ 32) (image_ops (ls_state ls))"
    and step: "do_maintain E fault ls = (ls', res)"
  shows "wal_inv E key mt_of ls' ops base acked"
proof (cases "ls' = ls")
  case False
  let ?st = "ls_state ls"
  let ?g = "ls_generation ls + 1"
  let ?tmp = "wal_file E key (Some ?g) (image_ops ?st)"
  have core: "wal_core E key mt_of ls ops base acked" using inv by (simp add: wal_inv_def)
  then have key: "ls_key ls = key" and ok: "list_all (wal_op_ok E mt_of) ops"
      and st: "state_inv E ?st" "log_view ?st = view_run ops view_empty"
    by (simp_all add: wal_core_def)
  have ls': "ls_state ls' = ?st" "ls_log ls' = Some OnPath" "ls_handle ls' = Some OnPath" "ls_key ls' = key"
      "ls_appended ls' = ls_appended ls" "ls_synced ls' = ls_appended ls"
      "d_log (ls_disk ls') = Some ?tmp" "d_durable (ls_disk ls') = length ?tmp"
    using step False assms(2) key
    by (auto simp: do_maintain_def install_log_def Let_def write_log_image_file
        split: if_splits maintain_fault.splits)
  have typed: "view_typed mt_of (log_view ?st)" and vt: "view_text (log_view ?st)"
    using view_typed_run [OF view_typed_empty] view_text_run [OF view_text_empty] wal_ops_text [OF ok]
    by (auto simp: st(2))
  have img: "view_run (image_ops ?st) view_empty = view_run ops view_empty" "list_all op_text (image_ops ?st)"
    using image_view [OF st(1)] image_ops_text [OF st(1) typed vt] typed st(2) by (auto simp: view_typed_def)
  have "wal_shape E key ls' ops base acked (Some ?g) ops (image_ops ?st) []"
    using img small durable_to_all [of "ls_disk ls'" E key "Some ?g" "image_ops ?st" "[]" ops] ls'(7,8)
    unfolding wal_shape_def small_op_def [abs_def] by simp
  moreover have "wal_core E key mt_of ls' ops base acked"
    using core ls' by (auto simp: wal_core_def)
  ultimately show ?thesis unfolding wal_inv_def by blast
qed (use inv in simp)

lemma wal_inv_restart:
  assumes E: "ext_ok E" and inv: "wal_inv E key mt_of ls ops base acked"
  shows "wal_inv E key mt_of (open_inner E thr key (ls_disk ls)) ops (length ops) acked"
proof -
  let ?o = "open_inner E thr key (ls_disk ls)"
  have core: "wal_core E key mt_of ls ops base acked" using inv by (simp add: wal_inv_def)
  have o: "ls_key ?o = key" "ls_appended ?o = 0" "ls_synced ?o = 0" "ls_handle ?o = None" "ls_log ?o = None"
    by (simp_all add: open_inner_def Let_def split_beta)
  show ?thesis
  proof (cases "log_bytes (ls_disk ls) = []")
    case True
    then have e: "ops = []" "ls_state ?o = state_default" "ls_disk ?o = ls_disk ls" "acked = 0"
      using wal_inv_empty [OF inv] by (auto simp: log_bytes_def open_inner_def Let_def split: option.splits)
    then have "wal_core E key mt_of ?o ops (length ops) acked" using o by (simp add: wal_core_def)
    with e True o show ?thesis by (simp add: wal_inv_def)
  next
    case False
    then obtain mk pre iops tail where sh: "wal_shape E key ls ops base acked mk pre iops tail"
      using inv by (auto simp: wal_inv_def)
    have ok: "list_all (wal_op_ok E mt_of) (pre @ tail)" using core sh by (simp add: wal_core_def wal_shape_def)
    have t: "list_all op_text (iops @ tail)" "list_all (\<lambda>op. length (serialize_op E op) < 2 ^ 32) (iops @ tail)"
      using sh wal_ops_text [OF ok] by (simp_all add: wal_shape_def small_op_def [abs_def])
    have "d_log (ls_disk ls) = Some (wal_file E key mk (iops @ tail))" using sh by (simp add: wal_shape_def)
    note op = open_full [OF E t this, of thr]
    have "log_view (ls_state ?o) = view_run ops view_empty"
      using sh by (simp add: op log_run_view wal_shape_def)
    then have "wal_core E key mt_of ?o ops (length ops) acked"
      using core o op log_run_inv by (auto simp: wal_core_def)
    moreover have "wal_shape E key ?o ops (length ops) acked mk pre iops tail"
      using sh o op by (simp add: wal_shape_def)
    ultimately show ?thesis unfolding wal_inv_def by blast
  qed
qed

lemma wal_run_inv:
  assumes "ext_ok E" and "wal_run E thr key mt_of ls ops base acked"
  shows "wal_inv E key mt_of ls ops base acked"
  using assms(2)
proof (induction rule: wal_run.induct)
  case start
  show ?case by (rule wal_inv_start)
next
  case (append ls ops base acked op ls' seq)
  then show ?case by (blast intro: wal_inv_append)
next
  case (append_failed ls ops base acked fault op ls' err)
  then show ?case by (blast intro: wal_inv_append_failed)
next
  case (commit ls ops base acked seq fault ls')
  then show ?case by (blast intro: wal_inv_commit)
next
  case (maintain ls ops base acked fault ls' res)
  then show ?case by (blast intro: wal_inv_maintain)
next
  case (restart ls ops base acked)
  then show ?case by (blast intro: wal_inv_restart assms(1))
qed

section \<open>Durability and crash safety\<close>

text \<open>A power failure: the file keeps any prefix that includes the durable part.\<close>

definition crash_disk :: "nat \<Rightarrow> disk \<Rightarrow> disk" where
  "crash_disk n d = d\<lparr>d_log := map_option (take n) (d_log d)\<rparr>"

lemma crash_recovers_prefix:
  assumes E: "ext_ok E" and inv: "wal_inv E key mt_of ls ops base acked" and n: "d_durable (ls_disk ls) \<le> n"
  shows "\<exists>k. acked \<le> k \<and> k \<le> length ops \<and>
    log_view (ls_state (open_inner E thr key (crash_disk n (ls_disk ls)))) = view_run (take k ops) view_empty"
proof (cases "log_bytes (ls_disk ls) = []")
  case True
  then have "ops = []" "acked = 0" using wal_inv_empty [OF inv] by auto
  moreover have "ls_state (open_inner E thr key (crash_disk n (ls_disk ls))) = state_default"
    using True by (auto simp: open_inner_def crash_disk_def log_bytes_def Let_def split: option.splits)
  ultimately show ?thesis by simp
next
  case False
  then obtain mk pre iops tail where sh: "wal_shape E key ls ops base acked mk pre iops tail"
    using inv by (auto simp: wal_inv_def)
  let ?f = "wal_file E key mk (iops @ tail)"
  let ?hd = "encode_record_raw E key (header_payload key)"
  have ok: "list_all (wal_op_ok E mt_of) (pre @ tail)" "acked \<le> length ops"
    using inv sh by (auto simp: wal_inv_def wal_core_def wal_shape_def)
  have t: "list_all op_text (iops @ tail)" "list_all (\<lambda>op. length (serialize_op E op) < 2 ^ 32) (iops @ tail)"
    using sh wal_ops_text [OF ok(1)] by (simp_all add: wal_shape_def small_op_def [abs_def])
  have d: "d_log (crash_disk n (ls_disk ls)) = Some (take n ?f)" using sh by (simp add: crash_disk_def wal_shape_def)
  have dur: "acked = 0 \<and> mk = None \<or> length (wal_file E key mk (iops @ take (acked - length pre) tail)) \<le> n"
    using sh n by (auto simp: wal_shape_def durable_to_def)
  show ?thesis
  proof (cases "n < length ?hd")
    case True
    then have z: "acked = 0" using dur by (auto simp: wal_file_split)
    have "take n ?f = take n ?hd" using True by (simp add: wal_file_split)
    then have "ls_state (open_inner E thr key (crash_disk n (ls_disk ls))) = state_default"
      using open_torn_header [OF E True] d by simp
    then show ?thesis using z by (intro exI [of _ 0]) simp
  next
    case ge: False
    let ?m = "if mk = None \<and> acked = 0 then 0 else length iops + (acked - length pre)"
    have m: "?m \<le> length (iops @ tail)" using ok(2) sh by (auto simp: wal_shape_def)
    have "length (wal_file E key mk (take ?m (iops @ tail))) \<le> n"
      using dur ge by (auto simp: wal_file_split)
    from open_cut [OF E t d this m, of thr]
    obtain k where k: "?m \<le> k" "k \<le> length (iops @ tail)"
        "ls_state (open_inner E thr key (crash_disk n (ls_disk ls))) = log_run E (take k (iops @ tail))"
      by blast
    have ki: "length iops \<le> k" using k(1) sh by (auto simp: wal_shape_def split: if_splits)
    have "view_run (take k (iops @ tail)) view_empty = view_run (take (length pre + (k - length iops)) ops) view_empty"
      using sh ki by (simp add: wal_shape_def)
    moreover have "acked \<le> length pre + (k - length iops)" using k(1) by (auto split: if_splits)
    moreover have "length pre + (k - length iops) \<le> length ops" using k(2) sh by (simp add: wal_shape_def)
    ultimately show ?thesis using k(3) by (metis log_run_view)
  qed
qed


definition sample_op :: meta_op where
  "sample_op = PutManifest ''r'' ''d'' ''m2'' (Some ''t'') [''b''] None"

definition sample_store1 :: log_store where
  "sample_store1 = fst (append_record sample_ext NoFault sample_op (open_inner sample_ext 0 None empty_disk))"

definition sample_store2 :: log_store where
  "sample_store2 = fst (group_commit_through None 1 sample_store1)"

lemma sample_op_ok: "wal_op_ok sample_ext sample_media sample_op"
proof -
  have "length (serialize_op sample_ext sample_op) < 2 ^ 32"
    by (simp add: sample_op_def serialize_op_def sample_ext_def json_object_def json_opt_str_def
        obj_insert_def enc_str_def unary_def)
  then show ?thesis
    by (simp add: wal_op_ok_def sample_op_def op_text_def op_utf8_def utf8_valid_ascii op_typed_def sample_media_def)
qed

lemma sample_store_run: "wal_run sample_ext 0 None sample_media sample_store2 [sample_op] 0 1"
proof -
  let ?s0 = "open_inner sample_ext 0 None empty_disk"
  have a: "append_record sample_ext NoFault sample_op ?s0 = (sample_store1, Inr 1)"
    by (simp add: sample_store1_def append_record_def Let_def open_inner_def empty_disk_def)
  have r1: "wal_run sample_ext 0 None sample_media sample_store1 [sample_op] 0 0"
    using wal_run.append [OF wal_run.start sample_op_ok a] by simp
  have "ls_appended sample_store1 = 1" "ls_synced sample_store1 = 0"
    by (simp_all add: sample_store1_def append_record_def Let_def open_inner_def empty_disk_def)
  moreover from this have "group_commit_through None 1 sample_store1 = (sample_store2, Inr ())"
    by (simp add: sample_store2_def group_commit_through_def Let_def)
  ultimately show ?thesis using wal_run.commit [OF r1, of 1 None sample_store2] by simp
qed




text \<open>
  (C15) Authenticity. With a key configured, the state a replay builds depends only on payloads that
  occur in the file followed by a 32-byte tag that verifies for them under the key, whatever the
  file contains.
\<close>

theorem wal_authentic:
  "replay_log E (Some k) bs sg = replay_payloads E 0 (accepted E (Some k) bs) sg
   \<and> list_all (\<lambda>p. \<exists>t. length t = 32 \<and> hmac_verify E k p t \<and> sublist (p @ t) bs) (accepted E (Some k) bs)"
  using accepted_authentic [of _ E k bs]
  by (simp add: replay_log_def replay_loop_accepted list_all_iff)



section \<open>What a torn tail costs\<close>

lemma open_with_tail:
  assumes "ext_ok E" and "list_all op_text ops" and "list_all (small_op E) ops"
    and "next_record E key t = None" and "d_log d = Some (wal_file E key None ops @ t)"
  shows "ls_state (open_inner E thr key d) = log_run E ops \<and> ls_disk (open_inner E thr key d) = d"
proof -
  let ?ps = "wal_payloads E key None ops"
  have small: "list_all (\<lambda>p. length p < 2 ^ 32) ?ps"
    using assms(3) by (intro wal_payloads_small) (simp add: small_op_def [abs_def])
  have "replay_log E key (wal_file E key None ops @ t) (state_default, 0) = replay_payloads E 0 ?ps (state_default, 0)"
    using replay_loop_records [OF assms(1) small, of key t 0] replay_loop_stop [OF assms(4)]
    by (simp add: replay_log_def wal_file_def frames_def)
  then have "fst (replay_log E key (wal_file E key None ops @ t) (state_default, 0)) = log_run E ops"
    using replay_payloads_wal [OF assms(1,2), of key None] by simp
  moreover obtain r where "wal_file E key None ops @ t = encode_record_raw E key (header_payload key) @ r"
    by (simp add: wal_file_split)
  ultimately show ?thesis
    using open_compatible [OF assms(1), of d key r thr] assms(5) by simp
qed

lemma next_record_behind_torn:
  assumes "length p < 2 ^ 32" and "8 \<le> j" and "j + length r < 8 + length p + tag_len key"
    and "j \<le> length (encode_record_raw E key p)"
  shows "next_record E key (take j (encode_record_raw E key p) @ r) = None"
proof -
  let ?b = "take j (encode_record_raw E key p) @ r"
  have "take 4 ?b = take 4 (encode_record_raw E key p @ [])" using assms(2,4) by (simp add: min_def)
  then have "le_value (take 4 ?b) = length p" using encode_raw_fields(1) [OF assms(1), of E key "[]"] by simp
  then show ?thesis using assms(3,4) by (simp add: next_record_def Let_def tag_len_def)
qed

text \<open>
  (C20) Opening does not remove a torn record from the end of the log, and later appends go behind it.
  If a crash leaves a record's first bytes (its length field included) at the end, an operation that
  is then applied, synced and acknowledged is gone after the next restart as long as the bytes after
  the last good record are fewer than the torn record announces.
\<close>

theorem torn_tail_loses_acknowledged:
  assumes "ext_ok E" and "list_all op_text ops" and "list_all (small_op E) ops" and "length p < 2 ^ 32"
    and "8 \<le> j" and "j + length (encode_record E key op) < length (encode_record_raw E key p)"
    and "d_log d = Some (wal_file E key None ops @ take j (encode_record_raw E key p))"
  shows "\<exists>ls. log_apply E NoFault None op (open_inner E thr key d) = (ls, Inr ())
     \<and> ls_state ls = apply_in_ram E op (log_run E ops)
     \<and> d_durable (ls_disk ls) = length (log_bytes (ls_disk ls))
     \<and> ls_state (open_inner E thr key (ls_disk ls)) = log_run E ops"
proof -
  let ?ls0 = "open_inner E thr key d"
  let ?torn = "take j (encode_record_raw E key p)"
  have j: "j < length (encode_record_raw E key p)" using assms(6) by simp
  have o: "ls_state ?ls0 = log_run E ops" "ls_disk ?ls0 = d"
    using open_with_tail [OF assms(1-3) next_record_torn [OF assms(1,4) j] assms(7)] by auto
  have o': "ls_log ?ls0 = None" "ls_key ?ls0 = key" "ls_appended ?ls0 = 0" "ls_synced ?ls0 = 0"
    by (simp_all add: open_inner_def Let_def split_beta)
  define ls where "ls = fst (log_apply E NoFault None op ?ls0)"
  have lb: "log_bytes d = wal_file E key None ops @ ?torn" using assms(7) by (simp add: log_bytes_def)
  have ls: "log_apply E NoFault None op ?ls0 = (ls, Inr ())" "ls_state ls = apply_in_ram E op (log_run E ops)"
      "d_log (ls_disk ls) = Some (wal_file E key None ops @ ?torn @ encode_record E key op)"
      "d_durable (ls_disk ls) = length (log_bytes (ls_disk ls))"
    using o o' lb
    by (simp_all add: ls_def log_apply_def append_record_def Let_def group_commit_through_def
        file_append_def sync_data_def log_bytes_def)
  have "next_record E key (?torn @ encode_record E key op) = None"
    using next_record_behind_torn [OF assms(4,5), of "encode_record E key op" key E] assms(6) j
    by (simp add: length_encode_raw [OF assms(1)])
  then have "ls_state (open_inner E thr key (ls_disk ls)) = log_run E ops"
    using open_with_tail [OF assms(1-3) _ ls(3)] by blast
  then show ?thesis using ls by blast
qed

definition sample_torn_payload :: bytes where
  "sample_torn_payload = replicate 100 CHR ''x''"

definition sample_small_op :: meta_op where
  "sample_small_op = DeleteBlob ''r'' ''b''"

definition sample_torn_disk :: disk where
  "sample_torn_disk = \<lparr>d_log = Some (wal_file sample_ext None None [sample_op]
      @ take 8 (encode_record_raw sample_ext None sample_torn_payload)), d_durable = 0, d_orphan = [], d_aside = []\<rparr>"

theorem torn_tail_loses_acknowledged_witness:
  "\<exists>ls. log_apply sample_ext NoFault None sample_small_op (open_inner sample_ext 0 None sample_torn_disk) = (ls, Inr ())
     \<and> ls_state ls = apply_in_ram sample_ext sample_small_op (log_run sample_ext [sample_op])
     \<and> d_durable (ls_disk ls) = length (log_bytes (ls_disk ls))
     \<and> ls_state (open_inner sample_ext 0 None (ls_disk ls)) = log_run sample_ext [sample_op]"
proof -
  have ok: "list_all op_text [sample_op]" "list_all (small_op sample_ext) [sample_op]"
    using sample_op_ok by (simp_all add: wal_op_ok_def small_op_def)
  have p: "length sample_torn_payload = 100" by (simp add: sample_torn_payload_def)
  have l1: "length (encode_record_raw sample_ext None sample_torn_payload) = 108"
    using length_encode_raw [OF sample_ext_ok, of None sample_torn_payload] by (simp add: p tag_len_def)
  have "length (serialize_op sample_ext sample_small_op) < 90"
    by (simp add: sample_small_op_def serialize_op_def sample_ext_def json_object_def enc_str_def unary_def)
  then have l2: "8 + length (encode_record sample_ext None sample_small_op)
      < length (encode_record_raw sample_ext None sample_torn_payload)"
    using length_encode_raw [OF sample_ext_ok, of None "serialize_op sample_ext sample_small_op"]
    by (simp add: encode_record_def l1 tag_len_def)
  show ?thesis
    using torn_tail_loses_acknowledged [OF sample_ext_ok ok _ _ l2, of sample_torn_disk 0]
    by (simp add: p sample_torn_disk_def)
qed

text \<open>
  (C21) If syncing the directory or reopening the log fails after compaction has renamed the new image
  into place, the store keeps writing to the file that the rename unlinked: the next operation is
  applied, synced and acknowledged, and the log at the path does not change.
\<close>

theorem failed_install_loses_acknowledged:
  assumes "ls_log ls = Some OnPath" and "ls_handle ls = Some OnPath" and "0 < ls_threshold ls"
    and "ls_image_len ls + ls_threshold ls < length (log_bytes (ls_disk ls))" and "ls_synced ls \<le> ls_appended ls"
  shows "\<exists>ls1 ls2. do_maintain E (FailInstall e) ls = (ls1, Inl e)
     \<and> log_apply E NoFault None op ls1 = (ls2, Inr ())
     \<and> ls_state ls2 = apply_in_ram E op (ls_state ls)
     \<and> d_log (ls_disk ls2) = d_log (ls_disk ls1)
     \<and> d_log (ls_disk ls1) = Some (write_log_image E (ls_key ls) (ls_state ls) (Some (ls_generation ls + 1)))"
  using assms
  by (simp add: do_maintain_def install_log_def Let_def unlink_handle_def log_apply_def append_record_def
      group_commit_through_def file_append_def sync_data_def)

definition sample_grown_store :: log_store where
  "sample_grown_store = \<lparr>ls_state = state_default, ls_log = Some OnPath, ls_appended = 1, ls_synced = 1,
     ls_handle = Some OnPath, ls_threshold = 1, ls_key = None, ls_generation = 0, ls_image_len = 0,
     ls_disk = \<lparr>d_log = Some ''abc'', d_durable = 3, d_orphan = [], d_aside = []\<rparr>\<rparr>"

theorem failed_install_loses_acknowledged_witness:
  "\<exists>ls1 ls2. do_maintain sample_ext (FailInstall (Io_Error KOther ''fsync'')) sample_grown_store
        = (ls1, Inl (Io_Error KOther ''fsync''))
     \<and> log_apply sample_ext NoFault None sample_op ls1 = (ls2, Inr ())
     \<and> ls_state ls2 = apply_in_ram sample_ext sample_op state_default
     \<and> d_log (ls_disk ls2) = d_log (ls_disk ls1)"
  using failed_install_loses_acknowledged
    [of sample_grown_store sample_ext "Io_Error KOther ''fsync''" sample_op]
  by (auto simp: sample_grown_store_def log_bytes_def)

end
