(* ===== verification/Policy.thy ===== *)
theory Policy
  imports Prelude
begin

text \<open>
  Access control (\<open>roci-core/src/auth/policy.rs\<close> and the action sets of \<open>auth/mod.rs\<close>): the glob
  patterns with their matching table, the choice of the rule for a repository and the actions a
  principal holds. The matcher is proved to implement the declarative meaning of the tokens.
\<close>

section \<open>Action sets\<close>

datatype action = Pull | Push | Delete

type_synonym action_set = u8

definition NO_ACTIONS :: action_set where
  "NO_ACTIONS = 0"

definition ALL_ACTIONS :: action_set where
  "ALL_ACTIONS = 7"

definition action_bit :: "action \<Rightarrow> action_set" where
  "action_bit a = (case a of Pull \<Rightarrow> 1 | Push \<Rightarrow> 2 | Delete \<Rightarrow> 4)"

definition set_union :: "action_set \<Rightarrow> action_set \<Rightarrow> action_set" where
  "set_union s t = s OR t"

definition from_actions :: "action list \<Rightarrow> action_set" where
  "from_actions as = fold (\<lambda>a s. set_union s (action_bit a)) as NO_ACTIONS"

definition set_contains :: "action_set \<Rightarrow> action \<Rightarrow> bool" where
  "set_contains s a \<longleftrightarrow> s AND action_bit a \<noteq> 0"

lemma set_contains_union [simp]: "set_contains (set_union s t) a \<longleftrightarrow> set_contains s a \<or> set_contains t a"
proof -
  have "(s OR t) AND action_bit a = (s AND action_bit a) OR (t AND action_bit a)"
    by (simp add: bit_eq_iff bit_simps, blast)
  then show ?thesis by (simp add: set_contains_def set_union_def or_eq_0_iff)
qed

lemma set_contains_simps [simp]:
  "\<not> set_contains NO_ACTIONS a" "set_contains ALL_ACTIONS a" "set_contains (action_bit b) a \<longleftrightarrow> a = b"
  by (simp add: set_contains_def NO_ACTIONS_def)
    (cases a; cases b; simp add: set_contains_def ALL_ACTIONS_def action_bit_def)+

lemma set_contains_from_actions: "set_contains (from_actions as) a \<longleftrightarrow> a \<in> set as"
proof -
  have "set_contains (fold (\<lambda>a s. set_union s (action_bit a)) as s) a \<longleftrightarrow> set_contains s a \<or> a \<in> set as" for s
    by (induction as arbitrary: s) auto
  then show ?thesis by (simp add: from_actions_def)
qed

section \<open>Patterns\<close>

datatype tok = Lit char | Star | AnyTail | AnyDirs

text \<open>The loop over the components; \<open>i\<close> counts them and \<open>after_dirs\<close> suppresses the separator.\<close>

fun tokenize_comps :: "bool \<Rightarrow> bool \<Rightarrow> string list \<Rightarrow> tok list" where
  "tokenize_comps is_first after_dirs [] = []"
| "tokenize_comps is_first after_dirs (part # comps) =
     (let sep = (if \<not> is_first \<and> \<not> after_dirs then [Lit CHR ''/''] else [])
      in if part = ''**'' then
           (if comps = [] then sep @ [AnyTail] @ tokenize_comps False False comps
            else sep @ [AnyDirs] @ tokenize_comps False True comps)
         else sep @ map (\<lambda>b. if b = CHR ''*'' then Star else Lit b) part @ tokenize_comps False False comps)"

definition tokenize :: "string \<Rightarrow> tok list" where
  "tokenize pattern = tokenize_comps True False (split_on CHR ''/'' pattern)"

text \<open>
  One row of the matching table, filled from the right. The arguments are the token, the name and
  the previous row (\<open>next\<close>); the result is the new row (\<open>cur\<close>) and the flag \<open>dirs\<close>.
\<close>

fun glob_row :: "tok \<Rightarrow> bytes \<Rightarrow> bool list \<Rightarrow> bool list \<times> bool" where
  "glob_row tok [] bs = ([(tok = Star \<or> tok = AnyTail \<or> tok = AnyDirs) \<and> hd bs], False)"
| "glob_row tok (c # cs) bs =
     (let (cur, dirs) = glob_row tok cs (tl bs)
      in case tok of
           Lit x \<Rightarrow> ((c = x \<and> hd (tl bs)) # cur, dirs)
         | Star \<Rightarrow> ((hd bs \<or> (c \<noteq> CHR ''/'' \<and> hd cur)) # cur, dirs)
         | AnyTail \<Rightarrow> ((hd bs \<or> hd cur) # cur, dirs)
         | AnyDirs \<Rightarrow> (let dirs1 = dirs \<or> (c = CHR ''/'' \<and> hd (tl bs)) in ((hd bs \<or> dirs1) # cur, dirs1)))"

definition glob_match :: "tok list \<Rightarrow> bytes \<Rightarrow> bool" where
  "glob_match toks name =
     hd (foldr (\<lambda>tok row. fst (glob_row tok name row)) toks (replicate (length name) False @ [True]))"

section \<open>The meaning of patterns\<close>

text \<open>A star stands for any text within one component, a final double star for any text, an inner
  double star for zero or more whole components.\<close>

inductive glob_matches :: "tok list \<Rightarrow> bytes \<Rightarrow> bool" where
  empty: "glob_matches [] []"
| lit: "glob_matches ts s \<Longrightarrow> glob_matches (Lit c # ts) (c # s)"
| star: "glob_matches ts s \<Longrightarrow> CHR ''/'' \<notin> set u \<Longrightarrow> glob_matches (Star # ts) (u @ s)"
| tail: "glob_matches ts s \<Longrightarrow> glob_matches (AnyTail # ts) (u @ s)"
| dirs: "glob_matches ts s \<Longrightarrow> u = [] \<or> last u = CHR ''/'' \<Longrightarrow> glob_matches (AnyDirs # ts) (u @ s)"

inductive_simps glob_matches_simps:
  "glob_matches [] s" "glob_matches (Lit c # ts) s" "glob_matches (Star # ts) s"
  "glob_matches (AnyTail # ts) s" "glob_matches (AnyDirs # ts) s"

fun tails :: "bytes \<Rightarrow> bytes list" where
  "tails [] = [[]]"
| "tails (c # cs) = (c # cs) # tails cs"

lemma tails_hd [simp]: "hd (map f (tails s)) = f s" "tl (map f (tails (c # s))) = map f (tails s)"
  by (cases s; simp)+

lemma map_tails_Cons: "map f (tails (c # s)) = f (c # s) # map f (tails s)"
  by simp

lemma star_Cons:
  "(\<exists>u t. c # s = u @ t \<and> P t \<and> x \<notin> set u) \<longleftrightarrow> P (c # s) \<or> (c \<noteq> x \<and> (\<exists>u t. s = u @ t \<and> P t \<and> x \<notin> set u))"
  (is "?l \<longleftrightarrow> ?r")
proof
  assume ?l
  then obtain u t where u: "c # s = u @ t" "P t" "x \<notin> set u" by blast
  then show ?r by (cases u) auto
next
  assume ?r
  then show ?l
  proof
    assume "P (c # s)"
    then show ?l by (intro exI [of _ "[]"] exI [of _ "c # s"]) simp
  next
    assume "c \<noteq> x \<and> (\<exists>u t. s = u @ t \<and> P t \<and> x \<notin> set u)"
    then obtain u t where "c \<noteq> x" "s = u @ t" "P t" "x \<notin> set u" by blast
    then show ?l by (intro exI [of _ "c # u"] exI [of _ t]) auto
  qed
qed

lemma tail_Cons: "(\<exists>u t. c # s = u @ t \<and> P t) \<longleftrightarrow> P (c # s) \<or> (\<exists>u t. s = u @ t \<and> P t)"
  by (auto simp: Cons_eq_append_conv)

definition after_slash :: "(bytes \<Rightarrow> bool) \<Rightarrow> bytes \<Rightarrow> bool" where
  "after_slash P s \<longleftrightarrow> (\<exists>u t. s = u @ CHR ''/'' # t \<and> P t)"

lemma after_slash_simps [simp]:
  "\<not> after_slash P []" "after_slash P (c # s) \<longleftrightarrow> after_slash P s \<or> (c = CHR ''/'' \<and> P s)"
  by (auto simp: after_slash_def Cons_eq_append_conv)

lemma dirs_iff: "(\<exists>u t. s = u @ t \<and> P t \<and> (u = [] \<or> last u = CHR ''/'')) \<longleftrightarrow> P s \<or> after_slash P s"
proof
  assume "\<exists>u t. s = u @ t \<and> P t \<and> (u = [] \<or> last u = CHR ''/'')"
  then obtain u t where u: "s = u @ t" "P t" "u = [] \<or> last u = CHR ''/''" by blast
  show "P s \<or> after_slash P s"
  proof (cases u rule: rev_cases)
    case (snoc w x)
    with u have "s = w @ CHR ''/'' # t" by simp
    with u show ?thesis by (auto simp: after_slash_def)
  qed (use u in simp)
next
  assume "P s \<or> after_slash P s"
  then show "\<exists>u t. s = u @ t \<and> P t \<and> (u = [] \<or> last u = CHR ''/'')"
  proof
    assume "after_slash P s"
    then obtain u t where "s = u @ CHR ''/'' # t" "P t" by (auto simp: after_slash_def)
    then show ?thesis by (intro exI [of _ "u @ [CHR ''/'']"] exI [of _ t]) simp
  qed (metis append_Nil)
qed

lemma glob_row_lit:
  "glob_row (Lit x) s (map P (tails s)) = (map (\<lambda>t. t \<noteq> [] \<and> hd t = x \<and> P (tl t)) (tails s), False)"
proof (induction s)
  case (Cons c s)
  then show ?case by (simp del: list.map tails.simps(2)) simp
qed simp

lemma glob_row_star:
  "glob_row Star s (map P (tails s)) = (map (\<lambda>r. \<exists>u t. r = u @ t \<and> P t \<and> CHR ''/'' \<notin> set u) (tails s), False)"
proof (induction s)
  case (Cons c s)
  then show ?case by (simp add: star_Cons [of c s P "CHR ''/''"] del: list.map tails.simps(2)) (simp add: star_Cons)
qed simp

lemma glob_row_tail: "glob_row AnyTail s (map P (tails s)) = (map (\<lambda>r. \<exists>u t. r = u @ t \<and> P t) (tails s), False)"
proof (induction s)
  case (Cons c s)
  then show ?case by (simp del: list.map tails.simps(2)) (simp add: tail_Cons)
qed simp

lemma glob_row_dirs:
  "glob_row AnyDirs s (map P (tails s)) = (map (\<lambda>r. P r \<or> after_slash P r) (tails s), after_slash P s)"
proof (induction s)
  case (Cons c s)
  then show ?case by (simp add: Let_def del: list.map tails.simps(2)) simp
qed simp

lemma glob_row_correct:
  "fst (glob_row tok s (map (glob_matches ts) (tails s))) = map (glob_matches (tok # ts)) (tails s)"
proof (cases tok)
  case (Lit x)
  have "(t \<noteq> [] \<and> hd t = x \<and> glob_matches ts (tl t)) = glob_matches (Lit x # ts) t" for t
    by (cases t) (auto simp: glob_matches_simps)
  then show ?thesis by (simp add: Lit glob_row_lit)
next
  case Star
  then show ?thesis by (simp add: glob_row_star glob_matches_simps) (metis (no_types, lifting))
next
  case AnyTail
  then show ?thesis by (simp add: glob_row_tail glob_matches_simps) (metis (no_types, lifting))
next
  case AnyDirs
  have "(P r \<or> after_slash P r) = (\<exists>u t. r = u @ t \<and> P t \<and> (u = [] \<or> last u = CHR ''/''))" for P r
    by (simp only: dirs_iff)
  then show ?thesis by (simp add: AnyDirs glob_row_dirs glob_matches_simps) (metis (no_types, lifting))
qed

lemma tails_empty_pattern: "map (glob_matches []) (tails s) = replicate (length s) False @ [True]"
  by (induction s) (auto simp: glob_matches_simps)

lemma glob_match_correct: "glob_match toks name \<longleftrightarrow> glob_matches toks name"
proof -
  have "foldr (\<lambda>tok row. fst (glob_row tok name row)) toks (map (glob_matches []) (tails name))
      = map (glob_matches toks) (tails name)"
    by (induction toks) (simp_all add: glob_row_correct)
  then show ?thesis by (simp add: glob_match_def flip: tails_empty_pattern)
qed

section \<open>Rules\<close>

record identity_policy =
  ip_users :: "string list"
  ip_groups :: "string list"
  ip_actions :: "action list"

record repository_policy =
  rp_pattern :: string
  rp_anonymous :: "action list"
  rp_authenticated :: "action list"
  rp_policies :: "identity_policy list"

record access_control_config =
  ac_admins :: "string list"
  ac_groups :: "(string, string list) btree_map"
  ac_repositories :: "repository_policy list"

record rule =
  rl_toks :: "tok list"
  rl_literal_len :: nat
  rl_stars :: nat
  rl_anonymous :: action_set
  rl_authenticated :: action_set
  rl_policies :: "(string list \<times> string list \<times> action_set) list"

record access_policy =
  ap_admins :: "string list"
  ap_user_groups :: "(string, string list) hash_map"
  ap_rules :: "rule list"

definition is_lit :: "tok \<Rightarrow> bool" where
  "is_lit t = (case t of Lit _ \<Rightarrow> True | _ \<Rightarrow> False)"

definition groups_of :: "(string, string list) hash_map \<Rightarrow> string \<Rightarrow> string list" where
  "groups_of m n = (case map_of m n of None \<Rightarrow> [] | Some gs \<Rightarrow> gs)"

definition add_member :: "string \<Rightarrow> string \<Rightarrow> (string, string list) hash_map \<Rightarrow> (string, string list) hash_map" where
  "add_member grp u m =
     AList.update u (groups_of m u @ [grp]) m"

definition compile_rule :: "repository_policy \<Rightarrow> rule" where
  "compile_rule r =
     (let toks = tokenize (rp_pattern r)
      in \<lparr>rl_toks = toks,
          rl_literal_len = length (filter is_lit toks),
          rl_stars = length (filter (\<lambda>t. \<not> is_lit t) toks),
          rl_anonymous = from_actions (rp_anonymous r),
          rl_authenticated = from_actions (rp_authenticated r),
          rl_policies = map (\<lambda>p. (ip_users p, ip_groups p, from_actions (ip_actions p))) (rp_policies r)\<rparr>)"

definition compile :: "access_control_config \<Rightarrow> access_policy" where
  "compile ac =
     \<lparr>ap_admins = ac_admins ac,
      ap_user_groups = fold (\<lambda>(grp, users) m. fold (add_member grp) users m) (ac_groups ac) [],
      ap_rules = map compile_rule (ac_repositories ac)\<rparr>"

text \<open>\<open>(r.literal_len, Reverse(r.stars)) > (b.literal_len, Reverse(b.stars))\<close>\<close>

definition more_specific :: "rule \<Rightarrow> rule \<Rightarrow> bool" where
  "more_specific r b \<longleftrightarrow>
     rl_literal_len b < rl_literal_len r \<or> (rl_literal_len r = rl_literal_len b \<and> rl_stars r < rl_stars b)"

definition winning_rule :: "access_policy \<Rightarrow> string \<Rightarrow> rule option" where
  "winning_rule pol repo =
     fold (\<lambda>r best.
       if \<not> glob_match (rl_toks r) repo then best
       else if (case best of None \<Rightarrow> True | Some b \<Rightarrow> more_specific r b) then Some r
       else best) (ap_rules pol) None"

definition grants :: "access_policy \<Rightarrow> string option \<Rightarrow> string list \<Rightarrow> string \<Rightarrow> action_set" where
  "grants pol name ldap_groups repo =
     (if (case name of None \<Rightarrow> False | Some n \<Rightarrow> n \<in> set (ap_admins pol)) then ALL_ACTIONS
      else case winning_rule pol repo of
             None \<Rightarrow> NO_ACTIONS
           | Some rule \<Rightarrow>
               (case name of
                  None \<Rightarrow> rl_anonymous rule
                | Some n \<Rightarrow>
                    let config_groups = groups_of (ap_user_groups pol) n
                    in fold (\<lambda>(_, _, a) s. set_union s a)
                         (filter (\<lambda>(users, groups, _). n \<in> set users
                              \<or> list_ex (\<lambda>g. g \<in> set groups) (config_groups @ ldap_groups))
                            (rl_policies rule))
                         (set_union (rl_anonymous rule) (rl_authenticated rule))))"

section \<open>Which rule governs\<close>

text \<open>
  The rule that governs a repository, by the configuration: a matching one with the most literal
  characters, among those the fewest wildcards, among those the first.
\<close>

definition literal_len :: "repository_policy \<Rightarrow> nat" where
  "literal_len r = length (filter is_lit (tokenize (rp_pattern r)))"

definition wildcards :: "repository_policy \<Rightarrow> nat" where
  "wildcards r = length (filter (\<lambda>t. \<not> is_lit t) (tokenize (rp_pattern r)))"

definition pattern_matches :: "repository_policy \<Rightarrow> string \<Rightarrow> bool" where
  "pattern_matches r repo \<longleftrightarrow> glob_matches (tokenize (rp_pattern r)) repo"

definition governs :: "access_control_config \<Rightarrow> string \<Rightarrow> repository_policy \<Rightarrow> bool" where
  "governs ac repo r \<longleftrightarrow>
     (\<exists>i<length (ac_repositories ac). r = ac_repositories ac ! i \<and> pattern_matches r repo
        \<and> (\<forall>j<length (ac_repositories ac). pattern_matches (ac_repositories ac ! j) repo \<longrightarrow>
             (let q = ac_repositories ac ! j in
              literal_len q < literal_len r
              \<or> literal_len q = literal_len r \<and> wildcards r < wildcards q
              \<or> literal_len q = literal_len r \<and> wildcards r = wildcards q \<and> i \<le> j)))"

lemma winning_rule_snoc:
  "winning_rule (pol\<lparr>ap_rules := rs @ [r]\<rparr>) repo =
     (let best = winning_rule (pol\<lparr>ap_rules := rs\<rparr>) repo in
      if \<not> glob_match (rl_toks r) repo then best
      else if (case best of None \<Rightarrow> True | Some b \<Rightarrow> more_specific r b) then Some r else best)"
  by (simp add: winning_rule_def Let_def)

definition best_index :: "repository_policy list \<Rightarrow> string \<Rightarrow> nat \<Rightarrow> bool" where
  "best_index rs repo i \<longleftrightarrow> i < length rs \<and> pattern_matches (rs ! i) repo
     \<and> (\<forall>j<length rs. pattern_matches (rs ! j) repo \<longrightarrow>
          literal_len (rs ! j) < literal_len (rs ! i)
          \<or> literal_len (rs ! j) = literal_len (rs ! i) \<and> wildcards (rs ! i) < wildcards (rs ! j)
          \<or> literal_len (rs ! j) = literal_len (rs ! i) \<and> wildcards (rs ! i) = wildcards (rs ! j) \<and> i \<le> j)"

lemma compile_rule_sel [simp]:
  "rl_toks (compile_rule r) = tokenize (rp_pattern r)"
  "rl_literal_len (compile_rule r) = literal_len r" "rl_stars (compile_rule r) = wildcards r"
  by (simp_all add: compile_rule_def Let_def literal_len_def wildcards_def)

lemma winning_rule_best:
  "case winning_rule \<lparr>ap_admins = a, ap_user_groups = g, ap_rules = map compile_rule rs\<rparr> repo of
     None \<Rightarrow> (\<forall>r\<in>set rs. \<not> pattern_matches r repo)
   | Some w \<Rightarrow> \<exists>i. best_index rs repo i \<and> w = compile_rule (rs ! i)"
proof (induction rs rule: rev_induct)
  case (snoc r rs)
  let ?pol = "\<lambda>rs. \<lparr>ap_admins = a, ap_user_groups = g, ap_rules = map compile_rule rs\<rparr>"
  let ?w = "winning_rule (?pol rs) repo"
  have step: "winning_rule (?pol (rs @ [r])) repo =
      (if \<not> pattern_matches r repo then ?w
       else if (case ?w of None \<Rightarrow> True | Some b \<Rightarrow> more_specific (compile_rule r) b) then Some (compile_rule r) else ?w)"
    using winning_rule_snoc [where pol = "?pol rs" and rs = "map compile_rule rs" and r = "compile_rule r" and repo = repo]
    by (simp add: Let_def glob_match_correct pattern_matches_def)
  show ?case
  proof (cases ?w)
    case None
    with snoc have no: "\<forall>r\<in>set rs. \<not> pattern_matches r repo" by simp
    have "best_index (rs @ [r]) repo (length rs)" if "pattern_matches r repo"
      using that no by (auto simp: best_index_def nth_append less_Suc_eq)
    with no None step show ?thesis by (auto intro!: exI [of _ "length rs"])
  next
    case (Some w)
    with snoc obtain i where i: "best_index rs repo i" "w = compile_rule (rs ! i)" by auto
    have il: "i < length rs" using i(1) by (simp add: best_index_def)
    have keep: "best_index (rs @ [r]) repo i"
      if "\<not> (pattern_matches r repo \<and> more_specific (compile_rule r) w)"
      using i that by (auto simp: best_index_def nth_append less_Suc_eq more_specific_def)
    have new: "best_index (rs @ [r]) repo (length rs)"
      if "pattern_matches r repo" "more_specific (compile_rule r) w"
      using i that by (fastforce simp: best_index_def nth_append less_Suc_eq more_specific_def)
    show ?thesis
    proof (cases "pattern_matches r repo \<and> more_specific (compile_rule r) w")
      case True
      then show ?thesis using step Some new by (auto intro!: exI [of _ "length rs"])
    next
      case False
      then have "winning_rule (?pol (rs @ [r])) repo = Some w" using step Some by auto
      with keep [OF False] i(2) il show ?thesis by (auto simp: nth_append intro!: exI [of _ i])
    qed
  qed
qed (simp add: winning_rule_def)

lemma governs_iff: "governs ac repo r \<longleftrightarrow> (\<exists>i. best_index (ac_repositories ac) repo i \<and> r = ac_repositories ac ! i)"
  by (auto simp: governs_def best_index_def Let_def)

lemma best_index_unique: "best_index rs repo i \<Longrightarrow> best_index rs repo j \<Longrightarrow> i = j"
  unfolding best_index_def by (metis less_asym less_irrefl order.antisym)

lemma winning_rule_governs:
  "winning_rule (compile ac) repo = Some w \<Longrightarrow> \<exists>r. governs ac repo r \<and> w = compile_rule r"
  "winning_rule (compile ac) repo = None \<Longrightarrow> \<not> governs ac repo r"
  using winning_rule_best [where a = "ac_admins ac" and g = "ap_user_groups (compile ac)"
      and rs = "ac_repositories ac" and repo = repo]
  by (auto simp: compile_def governs_iff best_index_def)

lemma governs_unique: "governs ac repo r \<Longrightarrow> governs ac repo r' \<Longrightarrow> r = r'"
  by (auto simp: governs_iff dest: best_index_unique)

lemma user_groups_member:
  "g \<in> set (groups_of (ap_user_groups (compile ac)) n)
   \<longleftrightarrow> (\<exists>us. (g, us) \<in> set (ac_groups ac) \<and> n \<in> set us)"
proof -
  have one: "set (groups_of (add_member h u m) n) = set (groups_of m n) \<union> (if u = n then {h} else {})" for h u m
    by (auto simp: add_member_def groups_of_def update_conv')
  have many: "set (groups_of (fold (add_member h) us m) n) = set (groups_of m n) \<union> (if n \<in> set us then {h} else {})" for h us m
    by (induction us arbitrary: m) (auto simp: one)
  have "set (groups_of (fold (\<lambda>(grp, users) m. fold (add_member grp) users m) gs m) n)
      = set (groups_of m n) \<union> {g. \<exists>us. (g, us) \<in> set gs \<and> n \<in> set us}" for gs m
    by (induction gs arbitrary: m) (auto simp: many split: if_splits)
  from this [of "ac_groups ac" "[]"] show ?thesis by (simp add: compile_def groups_of_def [of "[]"])
qed

lemma set_contains_fold_union:
  "set_contains (fold (\<lambda>(_, _, a) s. set_union s a) ps s) x \<longleftrightarrow> set_contains s x \<or> (\<exists>(u, g, a)\<in>set ps. set_contains a x)"
  by (induction ps arbitrary: s) auto

text \<open>
  (C23) Access decisions. A principal holds an action on a repository exactly when it is an admin, or
  the governing rule grants the action to everyone, to authenticated users (for a named principal),
  or to a policy that lists the user or one of the user's configured or directory groups. Without a
  governing rule nothing is granted.
\<close>

theorem grants_iff:
  "set_contains (grants (compile ac) name ldap_groups repo) a \<longleftrightarrow>
     (case name of
        None \<Rightarrow> (\<exists>r. governs ac repo r \<and> a \<in> set (rp_anonymous r))
      | Some n \<Rightarrow> n \<in> set (ac_admins ac)
          \<or> (\<exists>r. governs ac repo r \<and>
              (a \<in> set (rp_anonymous r) \<or> a \<in> set (rp_authenticated r)
               \<or> (\<exists>p\<in>set (rp_policies r). a \<in> set (ip_actions p) \<and>
                    (n \<in> set (ip_users p)
                     \<or> (\<exists>g\<in>set (ip_groups p). g \<in> set ldap_groups
                          \<or> (\<exists>us. (g, us) \<in> set (ac_groups ac) \<and> n \<in> set us)))))))"
proof (cases "winning_rule (compile ac) repo")
  case None
  then show ?thesis
    using winning_rule_governs(2) [OF None]
    by (cases name) (auto simp: grants_def compile_def)
next
  case (Some w)
  then obtain r where r: "governs ac repo r" "w = compile_rule r" using winning_rule_governs(1) by blast
  then have only: "governs ac repo r' \<longleftrightarrow> r' = r" for r' using governs_unique by blast
  have adm: "ap_admins (compile ac) = ac_admins ac" by (simp add: compile_def)
  show ?thesis
  proof (cases name)
    case None
    then show ?thesis
      using Some by (simp add: grants_def only r(2) compile_rule_def Let_def set_contains_from_actions)
  next
    case (Some n)
    have "set_contains (grants (compile ac) name ldap_groups repo) a \<longleftrightarrow>
        n \<in> set (ac_admins ac) \<or> a \<in> set (rp_anonymous r) \<or> a \<in> set (rp_authenticated r)
        \<or> (\<exists>p\<in>set (rp_policies r). a \<in> set (ip_actions p) \<and>
             (n \<in> set (ip_users p) \<or> (\<exists>g\<in>set (ip_groups p). g \<in> set ldap_groups
                \<or> g \<in> set (groups_of (ap_user_groups (compile ac)) n))))"
      using \<open>winning_rule (compile ac) repo = Some w\<close>
      by (auto simp: grants_def adm Some r(2) compile_rule_def Let_def set_contains_from_actions
          set_contains_fold_union list_ex_iff)
    then show ?thesis by (simp only: user_groups_member Some option.case only) blast
  qed
qed

text \<open>
  (C24) The matching table computes the declarative meaning of a pattern: a star stays within a path
  component, a final double star takes any rest, an inner double star takes whole components.
\<close>

theorem glob_match_meaning:
  "glob_match (tokenize pattern) name \<longleftrightarrow> glob_matches (tokenize pattern) name"
  by (rule glob_match_correct)

end
