(* ===== verification/Bearer.thy ===== *)
theory Bearer
  imports Policy Utf8 Digest
begin

text \<open>
  Bearer tokens (\<open>roci-core/src/auth/bearer.rs\<close>): loading the verification keys, checking a compact
  JWS and the actions its claims grant. Signatures, base64, the certificate and PEM parsers and the
  derived JSON decoders of the two token segments are parameters.
\<close>

section \<open>Parameters\<close>

record jws_header =
  jh_alg :: string
  jh_jwk :: bool
  jh_jku :: bool
  jh_x5u :: bool

datatype audience = AudOne string | AudMany "string list"

record access_entry =
  ae_kind :: string
  ae_name :: string
  ae_actions :: "string list"

record claims =
  cl_iss :: string
  cl_aud :: audience
  cl_exp :: u64
  cl_nbf :: "u64 option"
  cl_sub :: "string option"
  cl_access :: "access_entry list"

record spki =
  spki_algorithm :: string
  spki_curve :: "string option"
  spki_data :: bytes

record pem_block =
  pem_label :: string
  pem_contents :: bytes

text \<open>
  The packages: \<open>http\<close> header values, \<open>base64\<close>, \<open>sha2\<close>, \<open>bcrypt\<close>, \<open>ring\<close> signatures (key, message,
  signature), \<open>serde\<close> decoders, \<open>x509_parser\<close> with its object identifiers, and the reads of the
  configured files.
\<close>

record auth_api =
  header_to_str :: "bytes \<Rightarrow> string option"
  header_from_str :: "string \<Rightarrow> string option"
  b64_std :: "string \<Rightarrow> bytes option"
  b64_url :: "string \<Rightarrow> bytes option"
  sha256_raw :: "bytes \<Rightarrow> bytes"
  bcrypt_verify :: "string \<Rightarrow> string \<Rightarrow> bool option"
  bcrypt_hash :: "string \<Rightarrow> u32 \<Rightarrow> string + string"
  ecdsa_p256_verify :: "bytes \<Rightarrow> bytes \<Rightarrow> bytes \<Rightarrow> bool"
  rsa_pkcs1_verify :: "bytes \<Rightarrow> bytes \<Rightarrow> bytes \<Rightarrow> bool"
  jws_header_of :: "bytes \<Rightarrow> jws_header option"
  claims_of :: "bytes \<Rightarrow> claims option"
  pem_iter :: "bytes \<Rightarrow> (string + pem_block) list"
  parse_x509 :: "pem_block \<Rightarrow> string + spki"
  spki_from_der :: "bytes \<Rightarrow> string + spki"
  oid_ec_public_key :: string
  oid_ec_p256 :: string
  oid_rsa_encryption :: string
  fs_read :: "string \<Rightarrow> string + bytes"
  fs_read_to_string :: "string \<Rightarrow> string + string"

section \<open>Keys\<close>

datatype verify_key = Es256 bytes | Rs256 bytes

record bearer_config =
  bc_verify_key_file :: string
  bc_realm :: string
  bc_service :: string
  bc_issuer :: string

record bearer_verifier =
  bv_issuer :: string
  bv_service :: string
  bv_keys :: "verify_key list"

record verified =
  vf_subject :: "string option"
  vf_grants :: "(string \<times> action_set) list"

definition key_from_spki :: "auth_api \<Rightarrow> spki \<Rightarrow> string + verify_key" where
  "key_from_spki A k =
     (if spki_algorithm k = oid_ec_public_key A then
        (if spki_curve k = Some (oid_ec_p256 A) then Inr (Es256 (spki_data k))
         else Inl ''unsupported key algorithm (EC keys must be P-256)'')
      else if spki_algorithm k = oid_rsa_encryption A then Inr (Rs256 (spki_data k))
      else Inl ''unsupported key algorithm'')"

definition load_block :: "auth_api \<Rightarrow> string + pem_block \<Rightarrow> string + verify_key" where
  "load_block A b =
     and_then (map_err (\<lambda>e. ''invalid PEM: '' @ e) b) (\<lambda>block.
       if pem_label block = ''CERTIFICATE'' then
         and_then (map_err (\<lambda>e. ''invalid certificate: '' @ e) (parse_x509 A block)) (key_from_spki A)
       else if pem_label block = ''PUBLIC KEY'' then
         and_then (map_err (\<lambda>e. ''invalid public key: '' @ e) (spki_from_der A (pem_contents block)))
           (key_from_spki A)
       else Inl (''unexpected PEM block '' @ [CHR 0x60] @ pem_label block @ [CHR 0x60]))"

definition load_verifier :: "auth_api \<Rightarrow> bearer_config \<Rightarrow> string + bearer_verifier" where
  "load_verifier A cfg =
     and_then (map_err (\<lambda>e. ''reading '' @ bc_verify_key_file cfg @ '': '' @ e)
                 (fs_read A (bc_verify_key_file cfg))) (\<lambda>pem.
     and_then (collect_results (load_block A) (pem_iter A pem)) (\<lambda>keys.
       if keys = [] then Inl ''no public keys found''
       else Inr \<lparr>bv_issuer = bc_issuer cfg, bv_service = bc_service cfg, bv_keys = keys\<rparr>))"

section \<open>Verification\<close>

definition MAX_TOKEN_LEN :: nat where
  "MAX_TOKEN_LEN = 8192"

definition MAX_ACCESS_ENTRIES :: nat where
  "MAX_ACCESS_ENTRIES = 64"

definition LEEWAY_SECS :: u64 where
  "LEEWAY_SECS = 30"

definition decode_json :: "auth_api \<Rightarrow> (bytes \<Rightarrow> 'a option) \<Rightarrow> string \<Rightarrow> string + 'a" where
  "decode_json A of_bytes segment =
     and_then (ok_or ''bad base64url segment'' (b64_url A segment)) (\<lambda>bytes.
       ok_or ''bad JSON segment'' (of_bytes bytes))"

definition key_verifies :: "auth_api \<Rightarrow> bool \<Rightarrow> bytes \<Rightarrow> bytes \<Rightarrow> verify_key \<Rightarrow> bool" where
  "key_verifies A es256 msg sig k =
     (case k of
        Es256 pk \<Rightarrow> es256 \<and> ecdsa_p256_verify A pk msg sig
      | Rs256 pk \<Rightarrow> \<not> es256 \<and> rsa_pkcs1_verify A pk msg sig)"

definition claim_action :: "string \<Rightarrow> action_set" where
  "claim_action a =
     (if a = ''pull'' then action_bit Pull
      else if a = ''push'' then action_bit Push
      else if a = ''delete'' then action_bit Delete
      else if a = ''*'' then ALL_ACTIONS
      else NO_ACTIONS)"

definition claim_grants :: "access_entry list \<Rightarrow> (string \<times> action_set) list" where
  "claim_grants access =
     map (\<lambda>e. (ae_name e, fold (\<lambda>a s. set_union s (claim_action a)) (ae_actions e) NO_ACTIONS))
       (filter (\<lambda>e. ae_kind e = ''repository'') access)"

definition check_claims :: "bearer_verifier \<Rightarrow> claims \<Rightarrow> u64 \<Rightarrow> string + verified" where
  "check_claims v c now =
     (if cl_iss c \<noteq> bv_issuer v then Inl ''issuer mismatch''
      else if \<not> (case cl_aud c of AudOne a \<Rightarrow> a = bv_service v | AudMany as \<Rightarrow> bv_service v \<in> set as)
      then Inl ''audience mismatch''
      else if saturating_add64 (cl_exp c) LEEWAY_SECS < now then Inl ''expired''
      else if (case cl_nbf c of None \<Rightarrow> False | Some nbf \<Rightarrow> saturating_add64 now LEEWAY_SECS < nbf)
      then Inl ''not yet valid''
      else if MAX_ACCESS_ENTRIES < length (cl_access c) then Inl ''too many access entries''
      else Inr \<lparr>vf_subject = cl_sub c, vf_grants = claim_grants (cl_access c)\<rparr>)"

definition check_signature :: "auth_api \<Rightarrow> bearer_verifier \<Rightarrow> string \<Rightarrow> bytes \<Rightarrow> string \<Rightarrow> string + unit" where
  "check_signature A v h msg s =
     and_then (decode_json A (jws_header_of A) h) (\<lambda>header.
       if jh_jwk header \<or> jh_jku header \<or> jh_x5u header then Inl ''key-carrying header''
       else and_then (if jh_alg header = ''ES256'' then Inr True
                      else if jh_alg header = ''RS256'' then Inr False
                      else Inl ''unsupported alg'') (\<lambda>es256.
         and_then (ok_or ''bad signature encoding'' (b64_url A s)) (\<lambda>sig.
           if \<not> list_ex (key_verifies A es256 msg sig) (bv_keys v) then Inl ''signature mismatch''
           else Inr ())))"

definition verify_token :: "auth_api \<Rightarrow> bearer_verifier \<Rightarrow> string \<Rightarrow> u64 \<Rightarrow> string + verified" where
  "verify_token A v token now =
     (if MAX_TOKEN_LEN < length token then Inl ''token too long''
      else case split_on CHR ''.'' token of
        [h, p, s] \<Rightarrow>
          and_then (check_signature A v h (take (length h + 1 + length p) token) s) (\<lambda>_.
          and_then (decode_json A (claims_of A) p) (\<lambda>c. check_claims v c now))
      | _ \<Rightarrow> Inl ''not a three-segment JWS'')"

definition ct_eq :: "bytes \<Rightarrow> bytes \<Rightarrow> bool" where
  "ct_eq a b \<longleftrightarrow>
     length a = length b \<and> fold (\<lambda>(x, y) acc. acc OR (u8_of x XOR u8_of y)) (zip a b) 0 = 0"

definition grants_allow :: "(string \<times> action_set) list \<Rightarrow> string \<Rightarrow> action \<Rightarrow> bool" where
  "grants_allow gs repo a = list_ex (\<lambda>(name, s). ct_eq name repo \<and> set_contains s a) gs"

section \<open>What a token grants\<close>

lemma ct_eq_iff [simp]: "ct_eq a b \<longleftrightarrow> a = b"
  by (auto simp: ct_eq_def ct_diff_acc_zero_iff)

text \<open>The action a claim names: its own label or the wildcard.\<close>

definition action_label :: "action \<Rightarrow> string" where
  "action_label a = (case a of Pull \<Rightarrow> ''pull'' | Push \<Rightarrow> ''push'' | Delete \<Rightarrow> ''delete'')"

lemma claim_action_contains:
  "set_contains (claim_action l) a \<longleftrightarrow> l = action_label a \<or> l = ''*''"
  by (cases a) (auto simp: claim_action_def action_label_def)

lemma claim_set_contains:
  "set_contains (fold (\<lambda>l s. set_union s (claim_action l)) ls s) a
     \<longleftrightarrow> set_contains s a \<or> action_label a \<in> set ls \<or> ''*'' \<in> set ls"
  by (induction ls arbitrary: s) (auto simp: claim_action_contains)

lemma grants_allow_claims:
  "grants_allow (claim_grants access) repo a \<longleftrightarrow>
     (\<exists>e\<in>set access. ae_kind e = ''repository'' \<and> ae_name e = repo
        \<and> (action_label a \<in> set (ae_actions e) \<or> ''*'' \<in> set (ae_actions e)))"
  by (auto simp: grants_allow_def claim_grants_def list_ex_iff claim_set_contains)

lemma leeway_iff:
  "saturating_add64 e LEEWAY_SECS < n \<longleftrightarrow> unat e + 30 < unat n"
proof -
  have "unat (saturating_add64 e LEEWAY_SECS) = min (unat e + 30) (2 ^ 64 - 1)"
    by (simp add: unat_saturating_add64 LEEWAY_SECS_def)
  then show ?thesis using unat_u64_less [of n] by (auto simp: word_less_nat_alt min_def)
qed

definition claims_valid :: "bearer_verifier \<Rightarrow> claims \<Rightarrow> u64 \<Rightarrow> bool" where
  "claims_valid v c now \<longleftrightarrow>
     cl_iss c = bv_issuer v
     \<and> (cl_aud c = AudOne (bv_service v) \<or> (\<exists>as. cl_aud c = AudMany as \<and> bv_service v \<in> set as))
     \<and> unat now \<le> unat (cl_exp c) + 30
     \<and> (cl_nbf c = None \<or> (\<exists>nbf. cl_nbf c = Some nbf \<and> unat nbf \<le> unat now + 30))
     \<and> length (cl_access c) \<le> 64"

lemma check_claims_iff:
  "check_claims v c now = Inr w \<longleftrightarrow>
     claims_valid v c now \<and> w = \<lparr>vf_subject = cl_sub c, vf_grants = claim_grants (cl_access c)\<rparr>"
  unfolding check_claims_def claims_valid_def
  by (cases "cl_aud c"; cases "cl_nbf c") (auto simp: leeway_iff MAX_ACCESS_ENTRIES_def)

text \<open>A token in three segments whose header names the algorithm of a configured key that verifies
  the signature over the first two, and carries no key of its own.\<close>

definition signed_by :: "auth_api \<Rightarrow> bearer_verifier \<Rightarrow> string \<Rightarrow> string \<Rightarrow> string \<Rightarrow> bool" where
  "signed_by A v h p s \<longleftrightarrow>
     (\<exists>hb header sig k. b64_url A h = Some hb \<and> jws_header_of A hb = Some header
        \<and> \<not> jh_jwk header \<and> \<not> jh_jku header \<and> \<not> jh_x5u header
        \<and> b64_url A s = Some sig \<and> k \<in> set (bv_keys v)
        \<and> (jh_alg header = ''ES256'' \<and> (\<exists>pk. k = Es256 pk \<and> ecdsa_p256_verify A pk (h @ ''.'' @ p) sig)
           \<or> jh_alg header = ''RS256'' \<and> (\<exists>pk. k = Rs256 pk \<and> rsa_pkcs1_verify A pk (h @ ''.'' @ p) sig)))"

lemma split_three_iff:
  "split_on c t = [h, p, s] \<longleftrightarrow>
     t = h @ [c] @ p @ [c] @ s \<and> c \<notin> set h \<and> c \<notin> set p \<and> c \<notin> set s"
proof
  assume a: "split_on c t = [h, p, s]"
  have "t = join_with c [h, p, s]" using join_split [of c t] a by simp
  moreover have "\<forall>x\<in>{h, p, s}. c \<notin> set x" using split_on_no_sep [of _ c t] a by auto
  ultimately show "t = h @ [c] @ p @ [c] @ s \<and> c \<notin> set h \<and> c \<notin> set p \<and> c \<notin> set s" by simp
next
  assume "t = h @ [c] @ p @ [c] @ s \<and> c \<notin> set h \<and> c \<notin> set p \<and> c \<notin> set s"
  then show "split_on c t = [h, p, s]" by (simp add: split_on_append split_on_single)
qed

lemma key_verifies_iff:
  "list_ex (key_verifies A es m sig) ks \<longleftrightarrow>
     (\<exists>k\<in>set ks. if es then (\<exists>pk. k = Es256 pk \<and> ecdsa_p256_verify A pk m sig)
                  else (\<exists>pk. k = Rs256 pk \<and> rsa_pkcs1_verify A pk m sig))"
  unfolding list_ex_iff by (rule bex_cong [OF refl]) (auto simp: key_verifies_def split: verify_key.splits)

lemma check_signature_iff: "check_signature A v h (h @ ''.'' @ p) s = Inr () \<longleftrightarrow> signed_by A v h p s"
proof (cases "b64_url A h")
  case (Some hb)
  show ?thesis
  proof (cases "jws_header_of A hb")
    case None
    then show ?thesis by (simp add: check_signature_def decode_json_def signed_by_def Some)
  next
    case header: (Some header)
    show ?thesis
    proof (cases "b64_url A s")
      case None
      then show ?thesis by (simp add: check_signature_def decode_json_def signed_by_def Some header and_then_Inr_iff)
    next
      case sig: (Some sig)
      show ?thesis
        by (auto simp: check_signature_def decode_json_def signed_by_def Some header sig key_verifies_iff)
    qed
  qed
qed (simp add: check_signature_def decode_json_def signed_by_def)

lemma verify_token_iff:
  "verify_token A v token now = Inr w \<longleftrightarrow>
     length token \<le> 8192 \<and>
     (\<exists>h p s pb c. token = h @ ''.'' @ p @ ''.'' @ s
        \<and> CHR ''.'' \<notin> set h \<and> CHR ''.'' \<notin> set p \<and> CHR ''.'' \<notin> set s
        \<and> signed_by A v h p s \<and> b64_url A p = Some pb \<and> claims_of A pb = Some c
        \<and> check_claims v c now = Inr w)"
proof (cases "\<exists>h p s. split_on CHR ''.'' token = [h, p, s]")
  case True
  then obtain h p s where sp: "split_on CHR ''.'' token = [h, p, s]" by blast
  then have t: "token = h @ ''.'' @ p @ ''.'' @ s" by (simp add: split_three_iff)
  have tk: "take (length h + 1 + length p) token = h @ ''.'' @ p" by (simp add: t)
  have uniq: "split_on CHR ''.'' token = [h', p', s'] \<longleftrightarrow> h' = h \<and> p' = p \<and> s' = s" for h' p' s'
    using sp by auto
  have "verify_token A v token now = Inr w \<longleftrightarrow>
      length token \<le> 8192 \<and> signed_by A v h p s
      \<and> (\<exists>pb c. b64_url A p = Some pb \<and> claims_of A pb = Some c \<and> check_claims v c now = Inr w)"
    using check_signature_iff [of A v h p s]
    unfolding verify_token_def sp list.case tk
    by (simp add: MAX_TOKEN_LEN_def decode_json_def and_then_Inr_iff not_less) blast
  then have "verify_token A v token now = Inr w \<longleftrightarrow>
      length token \<le> 8192 \<and> (\<exists>h' p' s' pb c. split_on CHR ''.'' token = [h', p', s'] \<and> signed_by A v h' p' s'
        \<and> b64_url A p' = Some pb \<and> claims_of A pb = Some c \<and> check_claims v c now = Inr w)"
    by (simp add: uniq)
  then show ?thesis by (simp add: split_three_iff)
next
  case False
  then have "verify_token A v token now \<noteq> Inr w"
    by (auto simp: verify_token_def split: list.splits)
  then show ?thesis using False unfolding split_three_iff by blast
qed

text \<open>
  (C25) Bearer authorization. A token lets its bearer act on a repository exactly when it has at most
  8192 bytes in three segments, a configured key of the algorithm its header names verifies the
  signature and the header carries no key; its claims name the configured issuer and service, are
  not expired and not early beyond the thirty second leeway, list at most 64 entries, and one of
  them is a repository entry for exactly this name with the action or the wildcard.
\<close>

theorem bearer_token_authorizes:
  "(\<exists>w. verify_token A v token now = Inr w \<and> grants_allow (vf_grants w) repo a) \<longleftrightarrow>
     length token \<le> 8192 \<and>
     (\<exists>h p s pb c e. token = h @ ''.'' @ p @ ''.'' @ s
        \<and> CHR ''.'' \<notin> set h \<and> CHR ''.'' \<notin> set p \<and> CHR ''.'' \<notin> set s
        \<and> signed_by A v h p s \<and> b64_url A p = Some pb \<and> claims_of A pb = Some c \<and> claims_valid v c now
        \<and> e \<in> set (cl_access c) \<and> ae_kind e = ''repository'' \<and> ae_name e = repo
        \<and> (action_label a \<in> set (ae_actions e) \<or> ''*'' \<in> set (ae_actions e)))"
proof -
  have "(\<exists>w. check_claims v c now = Inr w \<and> grants_allow (vf_grants w) repo a) \<longleftrightarrow>
      claims_valid v c now \<and> (\<exists>e\<in>set (cl_access c). ae_kind e = ''repository'' \<and> ae_name e = repo
        \<and> (action_label a \<in> set (ae_actions e) \<or> ''*'' \<in> set (ae_actions e)))" for c
    by (auto simp: check_claims_iff grants_allow_claims)
  then show ?thesis unfolding verify_token_iff by blast
qed

end
