(* ===== verification/Api_Error.thy ===== *)
theory Api_Error
  imports Storage_Error Json
begin

text \<open>
  The distribution-spec error vocabulary and its rendering as an HTTP response
  (\<open>roci-core/src/error.rs\<close>). An HTTP status is its number; a header map is an association list
  from lower-case header names; a response body is the bytes, or the JSON value whose printed text
  is the body, or the chunks of a stream, which may end in an error.
\<close>

datatype error_code =
    BlobUnknown | BlobUploadInvalid | BlobUploadUnknown | DigestInvalid | ManifestBlobUnknown
  | ManifestInvalid | ManifestUnknown | NameInvalid | NameUnknown | SizeInvalid | Unauthorized
  | Denied | Unsupported | TooManyRequests

datatype api_error =
    Spec error_code string
  | Internal string
  | PayloadTooLarge string
  | InsufficientStorage string
  | Unauthenticated string "string option"
  | TooEarly
  | ApiUnavailable string

type_synonym header_map = "(string \<times> string) list"

datatype body = EmptyBody | BytesBody bytes | JsonBody json | StreamBody "(io_error + bytes) list"

record response =
  resp_status :: nat
  resp_headers :: header_map
  resp_body :: body

definition error_parts :: "error_code \<Rightarrow> string \<times> nat" where
  "error_parts c = (case c of
      BlobUnknown \<Rightarrow> (''BLOB_UNKNOWN'', 404)
    | BlobUploadInvalid \<Rightarrow> (''BLOB_UPLOAD_INVALID'', 400)
    | BlobUploadUnknown \<Rightarrow> (''BLOB_UPLOAD_UNKNOWN'', 404)
    | DigestInvalid \<Rightarrow> (''DIGEST_INVALID'', 400)
    | ManifestBlobUnknown \<Rightarrow> (''MANIFEST_BLOB_UNKNOWN'', 400)
    | ManifestInvalid \<Rightarrow> (''MANIFEST_INVALID'', 400)
    | ManifestUnknown \<Rightarrow> (''MANIFEST_UNKNOWN'', 404)
    | NameInvalid \<Rightarrow> (''NAME_INVALID'', 400)
    | NameUnknown \<Rightarrow> (''NAME_UNKNOWN'', 404)
    | SizeInvalid \<Rightarrow> (''SIZE_INVALID'', 400)
    | Unauthorized \<Rightarrow> (''UNAUTHORIZED'', 401)
    | Denied \<Rightarrow> (''DENIED'', 403)
    | Unsupported \<Rightarrow> (''UNSUPPORTED'', 405)
    | TooManyRequests \<Rightarrow> (''TOOMANYREQUESTS'', 429))"

definition wire :: "error_code \<Rightarrow> string" where
  "wire c = fst (error_parts c)"

definition code_status :: "error_code \<Rightarrow> nat" where
  "code_status c = snd (error_parts c)"

definition name_invalid :: "string \<Rightarrow> api_error" where
  "name_invalid m = Spec NameInvalid m"

definition digest_invalid :: "string \<Rightarrow> api_error" where
  "digest_invalid m = Spec DigestInvalid m"

definition manifest_invalid :: "string \<Rightarrow> api_error" where
  "manifest_invalid m = Spec ManifestInvalid m"

definition manifest_blob_unknown :: "string \<Rightarrow> api_error" where
  "manifest_blob_unknown m = Spec ManifestBlobUnknown m"

definition payload_too_large :: "string \<Rightarrow> api_error" where
  "payload_too_large m = PayloadTooLarge m"

definition api_status :: "api_error \<Rightarrow> nat" where
  "api_status e = (case e of
      Spec c _ \<Rightarrow> code_status c
    | Internal _ \<Rightarrow> 500
    | PayloadTooLarge _ \<Rightarrow> 413
    | InsufficientStorage _ \<Rightarrow> 507
    | Unauthenticated _ _ \<Rightarrow> 401
    | TooEarly \<Rightarrow> 425
    | ApiUnavailable _ \<Rightarrow> 503)"

definition api_code :: "api_error \<Rightarrow> string" where
  "api_code e = (case e of
      Spec c _ \<Rightarrow> wire c
    | Internal _ \<Rightarrow> ''UNKNOWN''
    | ApiUnavailable _ \<Rightarrow> ''UNKNOWN''
    | PayloadTooLarge _ \<Rightarrow> wire SizeInvalid
    | InsufficientStorage _ \<Rightarrow> wire Denied
    | TooEarly \<Rightarrow> wire Denied
    | Unauthenticated _ _ \<Rightarrow> wire Unauthorized)"

definition api_message :: "api_error \<Rightarrow> string" where
  "api_message e = (case e of
      Spec _ m \<Rightarrow> m
    | Internal m \<Rightarrow> m
    | ApiUnavailable m \<Rightarrow> m
    | PayloadTooLarge m \<Rightarrow> m
    | InsufficientStorage m \<Rightarrow> m
    | Unauthenticated m _ \<Rightarrow> m
    | TooEarly \<Rightarrow> ''request sent in TLS early data; retry after the handshake completes'')"

definition into_response :: "api_error \<Rightarrow> response" where
  "into_response e =
     (let resp = \<lparr>resp_status = api_status e,
                  resp_headers = [(''content-type'', ''application/json'')],
                  resp_body = JsonBody (JObject [(''errors'', JArray [JObject
                    [(''code'', JString (api_code e)), (''message'', JString (api_message e))]])])\<rparr>
      in case e of
           Unauthenticated _ (Some c) \<Rightarrow>
             resp\<lparr>resp_headers := AList.update ''www-authenticate'' c (resp_headers resp)\<rparr>
         | _ \<Rightarrow> resp)"

definition api_error_from :: "storage_error \<Rightarrow> api_error" where
  "api_error_from e = (case e of
      NotFound \<Rightarrow> Spec NameUnknown ''repository name not known to registry''
    | BadDigest d \<Rightarrow> digest_invalid (''invalid digest: '' @ d)
    | DigestMismatch x a \<Rightarrow> digest_invalid (''digest mismatch: expected '' @ x @ '', got '' @ a)
    | BadPath p \<Rightarrow> name_invalid (''unsafe path component: '' @ p)
    | RangeNotSatisfiable _ _ \<Rightarrow> Spec BlobUploadInvalid ''content range does not match offset''
    | TooLarge l a \<Rightarrow> payload_too_large (''upload size '' @ show_u64 a
        @ '' exceeds maximum blob size '' @ show_u64 l)
    | QuotaExceeded Repository _ _ \<Rightarrow> payload_too_large (storage_error_display e)
    | QuotaExceeded Total _ _ \<Rightarrow> InsufficientStorage (storage_error_display e)
    | TooManySessions _ \<Rightarrow> Spec TooManyRequests (storage_error_display e)
    | MissingReference d \<Rightarrow> manifest_blob_unknown (''referenced blob '' @ d @ '' is not present'')
    | Io _ \<Rightarrow> Internal ''internal error''
    | Unavailable _ \<Rightarrow> ApiUnavailable ''storage temporarily unavailable'')"

definition not_found_as :: "api_error \<Rightarrow> storage_error \<Rightarrow> api_error" where
  "not_found_as unknown e = (case e of NotFound \<Rightarrow> unknown | other \<Rightarrow> api_error_from other)"

lemma wire_inject: "wire c = wire d \<longleftrightarrow> c = d"
  by (cases c; cases d) (simp_all add: wire_def error_parts_def)

lemma api_status_error: "400 \<le> api_status e \<and> api_status e < 600"
proof (cases e)
  case (Spec c m)
  then show ?thesis by (cases c) (simp_all add: api_status_def code_status_def error_parts_def)
qed (simp_all add: api_status_def)

text \<open>A backend's I/O detail never reaches the client: the message is a constant.\<close>

lemma api_error_from_hides_detail:
  "api_message (api_error_from (Io e)) = api_message (api_error_from (Io e'))"
  "api_message (api_error_from (Unavailable d)) = api_message (api_error_from (Unavailable d'))"
  by (simp_all add: api_error_from_def api_message_def)

lemma into_response_status [simp]: "resp_status (into_response e) = api_status e"
  by (auto simp: into_response_def Let_def split: api_error.splits option.splits)

end
