(* ===== verification/Auth.thy ===== *)
theory Auth
  imports Bearer Api_Error
begin

text \<open>
  Authentication and authorization (\<open>roci-core/src/auth/\<close>): the password file, directory binds, the
  credential cache, client certificates, the resolution of a request to a principal and the
  decision for one action. The directory server and the clock are arguments of each call.
\<close>

section \<open>Principals\<close>

datatype auth_method = Htpasswd_method | Ldap_method | Mtls_method

datatype principal =
    Anonymous
  | User string "string list" auth_method
  | Token "string option" "(string \<times> action_set) list"

definition method_label :: "principal \<Rightarrow> string" where
  "method_label p = (case p of
      Anonymous \<Rightarrow> ''anonymous''
    | User _ _ m \<Rightarrow> (case m of Htpasswd_method \<Rightarrow> ''htpasswd'' | Ldap_method \<Rightarrow> ''ldap'' | Mtls_method \<Rightarrow> ''mtls'')
    | Token _ _ \<Rightarrow> ''bearer'')"

definition principal_subject :: "principal \<Rightarrow> string option" where
  "principal_subject p = (case p of Anonymous \<Rightarrow> None | User name _ _ \<Rightarrow> Some name | Token s _ \<Rightarrow> s)"

section \<open>Password file\<close>

datatype htpasswd_result = PasswordOk | BadPassword | UnknownUser

record htpasswd =
  hp_users :: "(string, string) hash_map"
  hp_dummy :: string

definition BCRYPT_PREFIXES :: "string list" where
  "BCRYPT_PREFIXES = [''$2a$'', ''$2b$'', ''$2y$'']"

definition parse_u32 :: "string \<Rightarrow> u32 option" where
  "parse_u32 s = (case parse_u64 s of
      None \<Rightarrow> None
    | Some w \<Rightarrow> if unat w < 2 ^ 32 then Some (ucast w) else None)"

definition bcrypt_cost :: "string \<Rightarrow> u32 option" where
  "bcrypt_cost hash =
     (if list_ex (\<lambda>p. prefix p hash) BCRYPT_PREFIXES \<and> 6 \<le> length hash
      then parse_u32 (take 2 (drop 4 hash)) else None)"

text \<open>The loop over the numbered lines: the users read so far and the highest cost.\<close>

fun parse_lines :: "nat \<Rightarrow> string list \<Rightarrow> (string, string) hash_map \<Rightarrow> u32
    \<Rightarrow> string + (string, string) hash_map \<times> u32" where
  "parse_lines n [] users max_cost = Inr (users, max_cost)"
| "parse_lines n (raw # rest) users max_cost =
     (let line = str_trim raw in
      if line = [] \<or> prefix ''#'' line then parse_lines (n + 1) rest users max_cost
      else case split_once CHR '':'' line of
        None \<Rightarrow> Inl (''line '' @ show_nat n @ '': expected '' @ [CHR 0x60] @ ''user:bcrypt-hash'' @ [CHR 0x60])
      | Some (user, hash) \<Rightarrow>
          if user = [] then
            Inl (''line '' @ show_nat n @ '': expected '' @ [CHR 0x60] @ ''user:bcrypt-hash'' @ [CHR 0x60])
          else (case bcrypt_cost hash of
              None \<Rightarrow> Inl (''line '' @ show_nat n @ '': only bcrypt ($2a$/$2b$/$2y$) hashes are supported'')
            | Some cost \<Rightarrow>
                if map_of users user \<noteq> None then
                  Inl (''line '' @ show_nat n @ '': duplicate user '' @ [CHR 0x60] @ user @ [CHR 0x60])
                else parse_lines (n + 1) rest (AList.update user hash users) (max max_cost cost)))"

definition parse_htpasswd :: "auth_api \<Rightarrow> string \<Rightarrow> string + htpasswd" where
  "parse_htpasswd A txt =
     and_then (parse_lines 1 (str_lines txt) [] 0) (\<lambda>(users, max_cost).
       let cost = (if users = [] then 10 else max_cost)
       in and_then (map_err (\<lambda>e. ''bcrypt cost '' @ show_nat (unat cost) @ '': '' @ e)
                      (bcrypt_hash A ''roci-htpasswd-dummy'' cost)) (\<lambda>dummy.
            Inr \<lparr>hp_users = users, hp_dummy = dummy\<rparr>))"

definition load_htpasswd :: "auth_api \<Rightarrow> string \<Rightarrow> string + htpasswd" where
  "load_htpasswd A path =
     and_then (map_err (\<lambda>e. ''reading '' @ path @ '': '' @ e) (fs_read_to_string A path)) (parse_htpasswd A)"

definition htpasswd_verify :: "auth_api \<Rightarrow> htpasswd \<Rightarrow> string \<Rightarrow> string \<Rightarrow> htpasswd_result" where
  "htpasswd_verify A h user password =
     (let (hash, known) = (case map_of (hp_users h) user of Some x \<Rightarrow> (x, True) | None \<Rightarrow> (hp_dummy h, False));
          ok = (case bcrypt_verify A password hash of Some b \<Rightarrow> b | None \<Rightarrow> False)
      in if \<not> known then UnknownUser else if ok then PasswordOk else BadPassword)"

section \<open>Directory binds\<close>

record ldap_config =
  lc_url :: string
  lc_start_tls :: bool
  lc_bind_dn :: string
  lc_bind_password_file :: string
  lc_base_dn :: string
  lc_user_attribute :: string
  lc_user_filter :: "string option"
  lc_group_attribute :: "string option"
  lc_ca_file :: "string option"
  lc_timeout_secs :: u64

record ldap_authenticator =
  la_cfg :: ldap_config
  la_bind_password :: string

record search_entry =
  se_dn :: string
  se_attrs :: "(string \<times> string list) list"

text \<open>
  The directory as the \<open>ldap3\<close> package shows it during one call: whether the connection opens, the
  result code of a simple bind and of a search (none when the operation itself fails), the filter
  escaping, and whether the time limit fires first.
\<close>

record directory =
  dir_connect :: "ldap_config \<Rightarrow> bool"
  dir_bind :: "string \<Rightarrow> string \<Rightarrow> nat option"
  dir_search :: "string \<Rightarrow> string \<Rightarrow> string list \<Rightarrow> (nat \<times> search_entry list) option"
  dir_escape :: "string \<Rightarrow> string"
  dir_timeout :: bool

definition user_filter :: "directory \<Rightarrow> ldap_config \<Rightarrow> string \<Rightarrow> string" where
  "user_filter D cfg user =
     ''(&('' @ lc_user_attribute cfg @ ''='' @ dir_escape D user @ '')''
       @ (case lc_user_filter cfg of None \<Rightarrow> [] | Some f \<Rightarrow> f) @ '')''"

definition search_and_bind :: "directory \<Rightarrow> ldap_authenticator \<Rightarrow> string \<Rightarrow> string \<Rightarrow> unit + string list option" where
  "search_and_bind D l user password =
     (let cfg = la_cfg l in
      if \<not> dir_connect D cfg then Inl ()
      else if dir_bind D (lc_bind_dn cfg) (la_bind_password l) \<noteq> Some 0 then Inl ()
      else case dir_search D (lc_base_dn cfg) (user_filter D cfg user)
                  (case lc_group_attribute cfg of Some a \<Rightarrow> [a] | None \<Rightarrow> [''1.1'']) of
             Some (0, [entry]) \<Rightarrow>
               (case dir_bind D (se_dn entry) password of
                  None \<Rightarrow> Inl ()
                | Some rc \<Rightarrow>
                    if rc \<noteq> 0 then Inr None
                    else Inr (Some (case lc_group_attribute cfg of
                           None \<Rightarrow> []
                         | Some a \<Rightarrow> (case find (\<lambda>(k, _). eq_ignore_ascii_case k a) (se_attrs entry) of
                                        None \<Rightarrow> [] | Some (_, v) \<Rightarrow> v))))
           | Some (0, _) \<Rightarrow> Inr None
           | _ \<Rightarrow> Inl ())"

definition ldap_authenticate :: "directory \<Rightarrow> ldap_authenticator \<Rightarrow> string \<Rightarrow> string \<Rightarrow> string list option" where
  "ldap_authenticate D l user password =
     (if password = [] then None
      else if dir_timeout D then None
      else case search_and_bind D l user password of Inr groups \<Rightarrow> groups | Inl _ \<Rightarrow> None)"

section \<open>Credential cache\<close>

text \<open>Instants and durations are numbers of nanoseconds.\<close>

definition CAPACITY :: nat where
  "CAPACITY = 4096"

record cached_user =
  cu_name :: string
  cu_ldap_groups :: "string list"
  cu_method :: auth_method
  cu_expires :: nat

record credential_cache =
  cc_ttl :: nat
  cc_map :: "(bytes, cached_user) hash_map"

definition cache_key :: "auth_api \<Rightarrow> string \<Rightarrow> string \<Rightarrow> bytes" where
  "cache_key A user password = sha256_raw A (user @ [CHR 0x00] @ password)"

definition cache_new :: "nat \<Rightarrow> credential_cache" where
  "cache_new ttl = \<lparr>cc_ttl = ttl, cc_map = []\<rparr>"

definition cache_get :: "auth_api \<Rightarrow> nat \<Rightarrow> string \<Rightarrow> string \<Rightarrow> credential_cache
    \<Rightarrow> principal option \<times> credential_cache" where
  "cache_get A now user password c =
     (if cc_ttl c = 0 then (None, c)
      else let k = cache_key A user password in
           case map_of (cc_map c) k of
             None \<Rightarrow> (None, c)
           | Some hit \<Rightarrow>
               if cu_expires hit \<le> now then (None, c\<lparr>cc_map := AList.delete k (cc_map c)\<rparr>)
               else (Some (User (cu_name hit) (cu_ldap_groups hit) (cu_method hit)), c))"

definition cache_insert :: "auth_api \<Rightarrow> nat \<Rightarrow> string \<Rightarrow> string \<Rightarrow> string list \<Rightarrow> auth_method
    \<Rightarrow> credential_cache \<Rightarrow> principal \<times> credential_cache" where
  "cache_insert A now user password groups m c =
     (User user groups m,
      if cc_ttl c = 0 then c
      else let entries = (if CAPACITY \<le> length (cc_map c) then [] else cc_map c)
           in c\<lparr>cc_map := AList.update (cache_key A user password)
                  \<lparr>cu_name = user, cu_ldap_groups = groups, cu_method = m, cu_expires = now + cc_ttl c\<rparr>
                  entries\<rparr>)"

section \<open>Resolving the principal\<close>

record bearer =
  br_verifier :: bearer_verifier
  br_realm :: string
  br_service :: string

record auth =
  au_realm :: string
  au_htpasswd :: "htpasswd option"
  au_ldap :: "ldap_authenticator option"
  au_bearer :: "bearer option"
  au_mtls :: bool
  au_cache :: credential_cache
  au_policy :: "access_policy option"

text \<open>One request's view of the outside: the instants of the two cache calls, the wall clock in Unix
  seconds and the directory.\<close>

record moment =
  mo_get :: nat
  mo_insert :: nat
  mo_unix :: u64
  mo_dir :: directory

definition has_header_mechanism :: "auth \<Rightarrow> bool" where
  "has_header_mechanism au \<longleftrightarrow> au_htpasswd au \<noteq> None \<or> au_ldap au \<noteq> None \<or> au_bearer au \<noteq> None"

definition challenge_actions :: "action \<Rightarrow> string" where
  "challenge_actions a = (case a of Pull \<Rightarrow> ''pull'' | Push \<Rightarrow> ''pull,push'' | Delete \<Rightarrow> ''delete'')"

definition quoted :: "string \<Rightarrow> string" where
  "quoted s = CHR 0x22 # s @ [CHR 0x22]"

definition challenge :: "auth_api \<Rightarrow> auth \<Rightarrow> (string \<times> action) option \<Rightarrow> bool \<Rightarrow> string option" where
  "challenge A au scope insufficient =
     (case au_bearer au of
        Some b \<Rightarrow>
          header_from_str A (''Bearer realm='' @ quoted (br_realm b) @ '',service='' @ quoted (br_service b)
            @ (case scope of None \<Rightarrow> []
               | Some (repo, a) \<Rightarrow> '',scope='' @ quoted (''repository:'' @ repo @ '':'' @ challenge_actions a))
            @ (if insufficient then '',error='' @ quoted ''insufficient_scope'' else []))
      | None \<Rightarrow>
          if has_header_mechanism au then header_from_str A (''Basic realm='' @ quoted (au_realm au))
          else None)"

definition is_empty_basic :: "auth_api \<Rightarrow> bytes \<Rightarrow> bool" where
  "is_empty_basic A v =
     (case Option.bind (header_to_str A v) (split_once CHR '' '') of
        None \<Rightarrow> False
      | Some (scheme, cred) \<Rightarrow>
          eq_ignore_ascii_case scheme ''basic'' \<and> b64_std A (str_trim cred) = Some '':'')"

text \<open>The verification behind the cache: the password file, then the directory for users the file
  does not know. The error is the label of the mechanism.\<close>

definition verify_basic :: "auth_api \<Rightarrow> directory \<Rightarrow> auth \<Rightarrow> string \<Rightarrow> string \<Rightarrow> string
    \<Rightarrow> string + string list \<times> auth_method" where
  "verify_basic A D au label user password =
     (let ldap_step = (case au_ldap au of
            None \<Rightarrow> Inl label
          | Some l \<Rightarrow> (case ldap_authenticate D l user password of
              Some groups \<Rightarrow> Inr (groups, Ldap_method)
            | None \<Rightarrow> Inl ''ldap''))
      in case au_htpasswd au of
           None \<Rightarrow> ldap_step
         | Some h \<Rightarrow>
             (case htpasswd_verify A h user password of
                PasswordOk \<Rightarrow> Inr ([], Htpasswd_method)
              | BadPassword \<Rightarrow> Inl ''htpasswd''
              | UnknownUser \<Rightarrow> ldap_step))"

definition basic_label :: "auth \<Rightarrow> string" where
  "basic_label au = (if au_htpasswd au \<noteq> None \<or> au_ldap au = None then ''htpasswd'' else ''ldap'')"

definition decode_basic :: "auth_api \<Rightarrow> string \<Rightarrow> (string \<times> string) option" where
  "decode_basic A cred =
     Option.bind (b64_std A cred) (\<lambda>decoded.
       if utf8_valid decoded then
         Option.bind (split_once CHR '':'' decoded) (\<lambda>(user, password).
           if user = [] then None else Some (user, password))
       else None)"

definition authenticate_basic :: "auth_api \<Rightarrow> moment \<Rightarrow> auth \<Rightarrow> string \<Rightarrow> (string + principal) \<times> auth" where
  "authenticate_basic A m au cred =
     (case decode_basic A cred of
        None \<Rightarrow> (Inl (basic_label au), au)
      | Some (user, password) \<Rightarrow>
          (case cache_get A (mo_get m) user password (au_cache au) of
             (Some p, c) \<Rightarrow> (Inr p, au\<lparr>au_cache := c\<rparr>)
           | (None, c) \<Rightarrow>
               (case verify_basic A (mo_dir m) au (basic_label au) user password of
                  Inl label \<Rightarrow> (Inl label, au\<lparr>au_cache := c\<rparr>)
                | Inr (groups, how) \<Rightarrow>
                    let (p, c') = cache_insert A (mo_insert m) user password groups how c
                    in (Inr p, au\<lparr>au_cache := c'\<rparr>))))"

definition authenticate_header :: "auth_api \<Rightarrow> moment \<Rightarrow> auth \<Rightarrow> bytes \<Rightarrow> (string + principal) \<times> auth" where
  "authenticate_header A m au v =
     (case Option.bind (header_to_str A v) (split_once CHR '' '') of
        None \<Rightarrow> (Inl ''anonymous'', au)
      | Some (scheme, raw) \<Rightarrow>
          let cred = str_trim raw in
          if eq_ignore_ascii_case scheme ''basic'' then authenticate_basic A m au cred
          else if eq_ignore_ascii_case scheme ''bearer'' then
            (case au_bearer au of
               None \<Rightarrow> (Inl ''bearer'', au)
             | Some b \<Rightarrow>
                 (case verify_token A (br_verifier b) cred (mo_unix m) of
                    Inl _ \<Rightarrow> (Inl ''bearer'', au)
                  | Inr w \<Rightarrow> (Inr (Token (vf_subject w) (vf_grants w)), au)))
          else (Inl ''anonymous'', au))"

definition authenticate :: "auth_api \<Rightarrow> moment \<Rightarrow> auth \<Rightarrow> header_map \<Rightarrow> string option
    \<Rightarrow> (api_error + principal) \<times> auth" where
  "authenticate A m au headers cert =
     (case (case map_of headers ''authorization'' of
              None \<Rightarrow> None
            | Some v \<Rightarrow> if is_empty_basic A v then None else Some v) of
        Some v \<Rightarrow>
          (case authenticate_header A m au v of
             (Inl _, au') \<Rightarrow> (Inl (Unauthenticated ''invalid credentials'' (challenge A au None False)), au')
           | (Inr p, au') \<Rightarrow> (Inr p, au'))
      | None \<Rightarrow>
          (Inr (case cert of Some name \<Rightarrow> User name [] Mtls_method | None \<Rightarrow> Anonymous), au))"

section \<open>Authorization\<close>

definition allows :: "auth \<Rightarrow> principal \<Rightarrow> string \<Rightarrow> action \<Rightarrow> bool" where
  "allows au p repo a =
     (case p of
        Token _ gs \<Rightarrow> grants_allow gs repo a
      | User name groups _ \<Rightarrow>
          (case au_policy au of None \<Rightarrow> True | Some pol \<Rightarrow> set_contains (grants pol (Some name) groups repo) a)
      | Anonymous \<Rightarrow>
          (case au_policy au of None \<Rightarrow> False | Some pol \<Rightarrow> set_contains (grants pol None [] repo) a))"

definition authorize :: "auth_api \<Rightarrow> auth \<Rightarrow> principal \<Rightarrow> string \<Rightarrow> action \<Rightarrow> api_error + unit" where
  "authorize A au p repo a =
     (if allows au p repo a then Inr ()
      else Inl (case p of
        Token _ _ \<Rightarrow> Unauthenticated ''insufficient scope'' (challenge A au (Some (repo, a)) True)
      | User _ _ _ \<Rightarrow> Spec Denied ''access denied''
      | Anonymous \<Rightarrow>
          if has_header_mechanism au
          then Unauthenticated ''authentication required'' (challenge A au (Some (repo, a)) False)
          else Spec Denied (if au_mtls au
                 then ''authentication required: present a trusted client certificate''
                 else ''anonymous access denied by policy'')))"

definition base_challenge :: "auth_api \<Rightarrow> auth \<Rightarrow> api_error" where
  "base_challenge A au = Unauthenticated ''authentication required'' (challenge A au None False)"

definition reload_access_control :: "access_control_config option \<Rightarrow> auth \<Rightarrow> auth" where
  "reload_access_control ac au = au\<lparr>au_policy := map_option compile ac\<rparr>"

section \<open>Middleware\<close>

text \<open>A layer either answers the request itself or passes it on.\<close>

datatype 'a layer = Answer response | Continue 'a

definition early_data_middleware :: "string \<Rightarrow> header_map \<Rightarrow> unit layer" where
  "early_data_middleware verb headers =
     (if map_of headers ''early-data'' = Some ''1'' \<and> verb \<notin> {''GET'', ''HEAD'', ''OPTIONS''}
      then Answer (into_response TooEarly) else Continue ())"

definition authn_middleware :: "auth_api \<Rightarrow> moment \<Rightarrow> auth \<Rightarrow> string \<Rightarrow> header_map \<Rightarrow> string option
    \<Rightarrow> principal layer \<times> auth" where
  "authn_middleware A m au path headers cert =
     (case authenticate A m au headers cert of
        (Inl e, au') \<Rightarrow> (Answer (into_response e), au')
      | (Inr p, au') \<Rightarrow>
          (if path = ''/v2/'' \<and> p = Anonymous \<and> has_header_mechanism au'
           then Answer (into_response (base_challenge A au')) else Continue p, au'))"

section \<open>Client certificates\<close>

datatype general_name = DNSName string | OtherName

text \<open>The parts of a parsed certificate the code reads: the common names (none where the value is not
  a string) and the subject alternative names.\<close>

record x509_cert =
  xc_common_names :: "string option list"
  xc_san :: "general_name list option"

definition MAX_IDENTITY_LEN :: nat where
  "MAX_IDENTITY_LEN = 255"

fun has_control :: "string \<Rightarrow> bool" where
  "has_control [] = False"
| "has_control (c # s) =
     (of_char c < (32::nat) \<or> of_char c = (127::nat)
      \<or> of_char c = (0xC2::nat) \<and> s \<noteq> [] \<and> of_char (hd s) < (0xA0::nat)
      \<or> has_control s)"

definition usable :: "string \<Rightarrow> bool" where
  "usable name \<longleftrightarrow> name \<noteq> [] \<and> length name \<le> MAX_IDENTITY_LEN \<and> \<not> has_control name"

definition client_cert_identity :: "(bytes \<Rightarrow> x509_cert option) \<Rightarrow> bytes \<Rightarrow> string option" where
  "client_cert_identity parse_certificate leaf_der =
     (case parse_certificate leaf_der of
        None \<Rightarrow> None
      | Some cert \<Rightarrow>
          (case find usable (List.map_filter (\<lambda>cn. cn) (xc_common_names cert)) of
             Some cn \<Rightarrow> Some cn
           | None \<Rightarrow>
               Option.bind (xc_san cert) (\<lambda>names.
                 find usable (List.map_filter (\<lambda>g. case g of DNSName d \<Rightarrow> Some d | _ \<Rightarrow> None) names))))"

section \<open>Construction\<close>

datatype auth_error = Load string string

record auth_config =
  af_realm :: string
  af_cache_ttl_secs :: u64
  af_htpasswd :: "string option"
  af_ldap :: "ldap_config option"
  af_bearer :: "bearer_config option"
  af_client_auth :: bool
  af_access_control :: "access_control_config option"

definition load_err :: "string \<Rightarrow> string \<Rightarrow> auth_error" where
  "load_err field reason = Load field reason"

text \<open>\<open>transpose\<close> of an optional result.\<close>

definition transpose_opt :: "('e + 'a) option \<Rightarrow> 'e + 'a option" where
  "transpose_opt r = (case r of None \<Rightarrow> Inr None | Some x \<Rightarrow> and_then x (\<lambda>y. Inr (Some y)))"

text \<open>\<open>add_ca\<close> is the number of usable certificates the package finds in a file.\<close>

definition ldap_new :: "auth_api \<Rightarrow> (string \<Rightarrow> string + nat) \<Rightarrow> ldap_config \<Rightarrow> auth_error + ldap_authenticator" where
  "ldap_new A add_ca cfg =
     and_then (map_err (\<lambda>e. load_err ''auth.ldap.bind_password_file''
                          (''reading '' @ lc_bind_password_file cfg @ '': '' @ e))
                 (fs_read_to_string A (lc_bind_password_file cfg))) (\<lambda>txt.
     and_then (case lc_ca_file cfg of
                 None \<Rightarrow> Inr ()
               | Some path \<Rightarrow>
                   and_then (map_err (\<lambda>e. load_err ''auth.ldap.ca_file'' (path @ '': '' @ e)) (add_ca path)) (\<lambda>n.
                     if n = 0 then Inl (load_err ''auth.ldap.ca_file'' (path @ '' contains no usable CA certificates''))
                     else Inr ())) (\<lambda>_.
       Inr \<lparr>la_cfg = cfg, la_bind_password = str_trim txt\<rparr>))"

definition auth_from_config :: "auth_api \<Rightarrow> (string \<Rightarrow> string + nat) \<Rightarrow> auth_config \<Rightarrow> auth_error + auth option" where
  "auth_from_config A add_ca cfg =
     (if af_htpasswd cfg = None \<and> af_ldap cfg = None \<and> af_bearer cfg = None
         \<and> af_access_control cfg = None \<and> \<not> af_client_auth cfg then Inr None
      else
        and_then (transpose_opt (map_option (\<lambda>path. map_err (load_err ''auth.htpasswd.path'') (load_htpasswd A path))
                    (af_htpasswd cfg))) (\<lambda>htpasswd.
        and_then (transpose_opt (map_option (ldap_new A add_ca) (af_ldap cfg))) (\<lambda>ldap.
        and_then (transpose_opt (map_option (\<lambda>b.
                    and_then (map_err (load_err ''auth.bearer.verify_key_file'') (load_verifier A b)) (\<lambda>v.
                      Inr \<lparr>br_verifier = v, br_realm = bc_realm b, br_service = bc_service b\<rparr>))
                    (af_bearer cfg))) (\<lambda>bearer.
          Inr (Some \<lparr>au_realm = af_realm cfg, au_htpasswd = htpasswd, au_ldap = ldap, au_bearer = bearer,
                     au_mtls = af_client_auth cfg,
                     au_cache = cache_new (unat (af_cache_ttl_secs cfg) * 10 ^ 9),
                     au_policy = map_option compile (af_access_control cfg)\<rparr>)))))"

section \<open>The credential cache is sound\<close>

text \<open>A history of Basic authentications, each at its moment.\<close>

definition run_basic :: "auth_api \<Rightarrow> auth \<Rightarrow> (moment \<times> string) list \<Rightarrow> auth" where
  "run_basic A au events = fold (\<lambda>(m, cred) au. snd (authenticate_basic A m au cred)) events au"

definition verified_by :: "auth_api \<Rightarrow> auth \<Rightarrow> moment \<Rightarrow> string \<Rightarrow> string \<Rightarrow> string \<Rightarrow> principal \<Rightarrow> bool" where
  "verified_by A au m cred user password p \<longleftrightarrow>
     decode_basic A cred = Some (user, password)
     \<and> (\<exists>groups how. verify_basic A (mo_dir m) au (basic_label au) user password = Inr (groups, how)
          \<and> p = User user groups how)"

lemma verify_basic_cache [simp]:
  "verify_basic A D (au\<lparr>au_cache := c\<rparr>) l u pw = verify_basic A D au l u pw"
  "basic_label (au\<lparr>au_cache := c\<rparr>) = basic_label au"
  by (simp_all add: verify_basic_def basic_label_def)

lemma verified_by_cache [simp]: "verified_by A (au\<lparr>au_cache := c\<rparr>) = verified_by A au"
  by (simp add: verified_by_def fun_eq_iff)

definition entry_sound :: "auth_api \<Rightarrow> auth \<Rightarrow> nat \<Rightarrow> (moment \<times> string) list \<Rightarrow> bytes \<Rightarrow> cached_user \<Rightarrow> bool" where
  "entry_sound A au ttl events k cu \<longleftrightarrow>
     (\<exists>m cred u pw. (m, cred) \<in> set events \<and> k = cache_key A u pw \<and> cu_expires cu = mo_insert m + ttl
        \<and> verified_by A au m cred u pw (User (cu_name cu) (cu_ldap_groups cu) (cu_method cu)))"

definition cache_sound :: "auth_api \<Rightarrow> auth \<Rightarrow> nat \<Rightarrow> (moment \<times> string) list \<Rightarrow> credential_cache \<Rightarrow> bool" where
  "cache_sound A au ttl events c \<longleftrightarrow> cc_ttl c = ttl \<and> distinct (map fst (cc_map c))
     \<and> length (cc_map c) \<le> CAPACITY
     \<and> (\<forall>k cu. map_of (cc_map c) k = Some cu \<longrightarrow> entry_sound A au ttl events k cu)"

lemma entry_sound_mono: "entry_sound A au ttl es k cu \<Longrightarrow> set es \<subseteq> set es' \<Longrightarrow> entry_sound A au ttl es' k cu"
  by (auto simp: entry_sound_def)

lemma cache_sound_mono: "cache_sound A au ttl es c \<Longrightarrow> set es \<subseteq> set es' \<Longrightarrow> cache_sound A au ttl es' c"
  unfolding cache_sound_def by (blast intro: entry_sound_mono)

lemma cache_sound_delete: "cache_sound A au ttl es c \<Longrightarrow> cache_sound A au ttl es (c\<lparr>cc_map := AList.delete k (cc_map c)\<rparr>)"
  by (auto simp: cache_sound_def delete_conv' distinct_delete split: if_splits
      intro: order_trans [OF length_delete_le])

lemma length_update_le: "length (AList.update k v m) \<le> Suc (length m)"
  by (induction m) auto

lemma cache_sound_insert:
  assumes c: "cache_sound A au ttl es c" and m: "(m, cred) \<in> set es"
    and v: "verified_by A au m cred u pw (User u gs how)"
  shows "cache_sound A au ttl es (snd (cache_insert A (mo_insert m) u pw gs how c))"
proof -
  let ?cu = "\<lparr>cu_name = u, cu_ldap_groups = gs, cu_method = how, cu_expires = mo_insert m + cc_ttl c\<rparr>"
  let ?es = "if CAPACITY \<le> length (cc_map c) then [] else cc_map c"
  have es: "cache_sound A au ttl es (c\<lparr>cc_map := ?es\<rparr>)" "length ?es < CAPACITY"
    using c by (auto simp: cache_sound_def CAPACITY_def)
  have "entry_sound A au ttl es (cache_key A u pw) ?cu"
    using m v c by (auto simp: entry_sound_def cache_sound_def)
  then have "cache_sound A au ttl es (c\<lparr>cc_map := AList.update (cache_key A u pw) ?cu ?es\<rparr>)"
    using es length_update_le [of "cache_key A u pw" ?cu ?es]
    by (auto simp: cache_sound_def update_conv' distinct_update simp del: map_of_eq_Some_iff split: if_splits)
  then show ?thesis using c by (auto simp: cache_insert_def Let_def)
qed

lemma authenticate_basic_frame: "\<exists>c. snd (authenticate_basic A m au cred) = au\<lparr>au_cache := c\<rparr>"
  by (auto simp: authenticate_basic_def split: option.splits prod.splits sum.splits intro: exI [of _ "au_cache au"])

lemma cache_get_sound:
  assumes "cache_sound A au ttl es c" "cache_get A now u pw c = (r, c')"
  shows "cache_sound A au ttl es c'"
    and "r = Some p \<Longrightarrow> \<exists>cu. map_of (cc_map c) (cache_key A u pw) = Some cu \<and> now < cu_expires cu
           \<and> p = User (cu_name cu) (cu_ldap_groups cu) (cu_method cu)"
  using assms cache_sound_delete [OF assms(1)]
  by (auto simp: cache_get_def Let_def simp del: map_of_eq_Some_iff split: if_splits option.splits)

text \<open>A principal is justified at a moment by a verification that runs then, or by an earlier one
  under the same cache key that is still within its lifetime.\<close>

definition justified :: "auth_api \<Rightarrow> auth \<Rightarrow> nat \<Rightarrow> (moment \<times> string) list \<Rightarrow> moment \<Rightarrow> string \<Rightarrow> principal \<Rightarrow> bool" where
  "justified A au ttl es m cred p \<longleftrightarrow>
     (\<exists>m' cred' u' pw' u pw. verified_by A au m' cred' u' pw' p
        \<and> decode_basic A cred = Some (u, pw) \<and> cache_key A u pw = cache_key A u' pw'
        \<and> (m' = m \<and> cred' = cred \<or> (m', cred') \<in> set es \<and> mo_get m < mo_insert m' + ttl))"

lemma authenticate_basic_sound:
  assumes c: "cache_sound A au ttl es (au_cache au)" and step: "authenticate_basic A m au cred = (r, au')"
  shows "cache_sound A au ttl (es @ [(m, cred)]) (au_cache au')"
    and "r = Inr p \<Longrightarrow> justified A au ttl es m cred p"
proof -
  let ?es = "es @ [(m, cred)]"
  have "cache_sound A au ttl ?es (au_cache au') \<and> (\<forall>p. r = Inr p \<longrightarrow> justified A au ttl es m cred p)"
  proof (cases "decode_basic A cred")
    case None
    with step c show ?thesis by (auto simp: authenticate_basic_def intro: cache_sound_mono)
  next
    case (Some up)
    then obtain u pw where d: "decode_basic A cred = Some (u, pw)" by (cases up) auto
    obtain h c' where g: "cache_get A (mo_get m) u pw (au_cache au) = (h, c')" by (cases "cache_get A (mo_get m) u pw (au_cache au)")
    have c': "cache_sound A au ttl ?es c'"
      by (rule cache_sound_mono [OF cache_get_sound(1) [OF c g]]) auto
    show ?thesis
    proof (cases h)
      case (Some q)
      obtain cu where cu: "map_of (cc_map (au_cache au)) (cache_key A u pw) = Some cu"
        "mo_get m < cu_expires cu" "q = User (cu_name cu) (cu_ldap_groups cu) (cu_method cu)"
        using cache_get_sound(2) [OF c g Some] by blast
      then have "entry_sound A au ttl es (cache_key A u pw) cu" using c unfolding cache_sound_def by blast
      with cu obtain m' cred' u' pw' where "(m', cred') \<in> set es" "cache_key A u pw = cache_key A u' pw'"
        "mo_get m < mo_insert m' + ttl" "verified_by A au m' cred' u' pw' q" by (auto simp: entry_sound_def)
      moreover have "r = Inr q" "au' = au\<lparr>au_cache := c'\<rparr>"
        using step by (auto simp: authenticate_basic_def d g Some)
      ultimately show ?thesis using c' d unfolding justified_def by (simp, blast)
    next
      case None
      show ?thesis
      proof (cases "verify_basic A (mo_dir m) au (basic_label au) u pw")
        case (Inl l)
        then show ?thesis using step c' by (auto simp: authenticate_basic_def d g None)
      next
        case (Inr gh)
        then obtain gs how where v: "verify_basic A (mo_dir m) au (basic_label au) u pw = Inr (gs, how)" by (cases gh) auto
        then have vb: "verified_by A au m cred u pw (User u gs how)" by (simp add: verified_by_def d)
        have "cache_sound A au ttl ?es (snd (cache_insert A (mo_insert m) u pw gs how c'))"
          by (rule cache_sound_insert [OF c' _ vb]) simp
        moreover have "r = Inr (User u gs how)" "au_cache au' = snd (cache_insert A (mo_insert m) u pw gs how c')"
          using step by (auto simp: authenticate_basic_def d g None v cache_insert_def)
        ultimately show ?thesis using vb d unfolding justified_def by auto
      qed
    qed
  qed
  then show "cache_sound A au ttl ?es (au_cache au')"
    and "r = Inr p \<Longrightarrow> justified A au ttl es m cred p"
    by blast+
qed

lemma run_basic_sound:
  "cache_sound A au ttl es (au_cache (run_basic A (au\<lparr>au_cache := cache_new ttl\<rparr>) es))
   \<and> (\<exists>c. run_basic A (au\<lparr>au_cache := cache_new ttl\<rparr>) es = au\<lparr>au_cache := c\<rparr>)"
proof (induction es rule: rev_induct)
  case Nil
  show ?case by (auto simp: run_basic_def cache_sound_def cache_new_def)
next
  case (snoc e es)
  let ?au = "run_basic A (au\<lparr>au_cache := cache_new ttl\<rparr>) es"
  obtain m cred where e: "e = (m, cred)" by (cases e)
  obtain r au' where st: "authenticate_basic A m ?au cred = (r, au')" by (cases "authenticate_basic A m ?au cred")
  obtain c where c: "?au = au\<lparr>au_cache := c\<rparr>" using snoc by blast
  have same: "cache_sound A ?au ttl = cache_sound A au ttl"
    by (simp add: c cache_sound_def entry_sound_def fun_eq_iff)
  have "cache_sound A au ttl (es @ [e]) (au_cache au')"
    using authenticate_basic_sound(1) [of A ?au ttl es m cred r au'] snoc st by (simp only: same e)
  moreover have "\<exists>c. au' = au\<lparr>au_cache := c\<rparr>"
    using authenticate_basic_frame [of A m ?au cred] st c by auto
  moreover have "run_basic A (au\<lparr>au_cache := cache_new ttl\<rparr>) (es @ [e]) = au'"
    using st by (simp add: run_basic_def e)
  ultimately show ?case by simp
qed

text \<open>
  (C26) Cached credentials. After any history of Basic authentications from an empty cache, an
  authentication succeeds only with a principal that the password file or the directory verified
  for that very user, either now or in an earlier authentication whose password digest is the one
  presented and whose entry is younger than the configured lifetime.
\<close>

theorem credential_cache_sound:
  assumes "fst (authenticate_basic A m (run_basic A (au\<lparr>au_cache := cache_new ttl\<rparr>) es) cred) = Inr p"
  shows "\<exists>m' cred' user' password' user password.
           decode_basic A cred = Some (user, password)
           \<and> cache_key A user password = cache_key A user' password'
           \<and> verified_by A au m' cred' user' password' p
           \<and> (m' = m \<and> cred' = cred \<or> (m', cred') \<in> set es \<and> mo_get m < mo_insert m' + ttl)"
proof -
  let ?au = "run_basic A (au\<lparr>au_cache := cache_new ttl\<rparr>) es"
  obtain r au' where st: "authenticate_basic A m ?au cred = (r, au')" by (cases "authenticate_basic A m ?au cred")
  obtain c where c: "?au = au\<lparr>au_cache := c\<rparr>" using run_basic_sound by blast
  have same: "cache_sound A ?au ttl = cache_sound A au ttl"
    by (simp add: c cache_sound_def entry_sound_def fun_eq_iff)
  have "justified A ?au ttl es m cred p"
    using authenticate_basic_sound(2) [of A ?au ttl es m cred r au' p] run_basic_sound [of A au ttl es] st assms
    by (simp only: same) simp
  then show ?thesis unfolding justified_def c verified_by_cache by blast
qed

lemma credential_cache_bounded:
  "length (cc_map (au_cache (run_basic A (au\<lparr>au_cache := cache_new ttl\<rparr>) es))) \<le> 4096"
  using run_basic_sound [of A au ttl es] by (simp add: cache_sound_def CAPACITY_def)

section \<open>Decisions\<close>

text \<open>
  (C27) Bad credentials never pass as anonymous. A request resolves to the anonymous principal exactly
  when it has no client certificate and no Authorization header, or the header is the empty Basic
  pair; every other header value is authenticated or refused with 401.
\<close>

theorem anonymous_iff_no_credentials:
  "fst (authenticate A m au headers cert) = Inr Anonymous \<longleftrightarrow>
     cert = None \<and> (map_of headers ''authorization'' = None
       \<or> (\<exists>v. map_of headers ''authorization'' = Some v \<and> is_empty_basic A v))"
proof -
  have "fst (cache_insert A n u pw gs how c) \<noteq> Anonymous" for n u pw gs how c
    by (simp add: cache_insert_def)
  moreover have "fst (cache_get A n u pw c) \<noteq> Some Anonymous" for n u pw c
    by (auto simp: cache_get_def Let_def split: option.splits)
  ultimately have "fst (authenticate_basic A m au cred) \<noteq> Inr Anonymous" for cred
    unfolding authenticate_basic_def
    by (auto split: option.splits prod.splits sum.splits) (metis fst_conv)+
  then have "fst (authenticate_header A m au v) \<noteq> Inr Anonymous" for v
    by (auto simp: authenticate_header_def Let_def split: option.splits sum.splits)
  then show ?thesis
    unfolding authenticate_def
    by (auto split: option.splits prod.splits sum.splits) (metis fst_conv)+
qed

lemma authorize_Inr_iff [simp]: "authorize A au p repo a = Inr () \<longleftrightarrow> allows au p repo a"
  by (simp add: authorize_def)

lemma authorize_status:
  "authorize A au p repo a = Inl e \<Longrightarrow>
   api_status e = (case p of Token _ _ \<Rightarrow> 401 | User _ _ _ \<Rightarrow> 403
                   | Anonymous \<Rightarrow> if has_header_mechanism au then 401 else 403)"
  by (auto simp: authorize_def api_status_def code_status_def error_parts_def split: if_splits principal.splits)

lemma auth_open_iff:
  "auth_from_config A add_ca cfg = Inr None \<longleftrightarrow>
     af_htpasswd cfg = None \<and> af_ldap cfg = None \<and> af_bearer cfg = None
     \<and> af_access_control cfg = None \<and> \<not> af_client_auth cfg"
  by (auto simp: auth_from_config_def and_then_Inr_iff)

lemma ldap_authenticate_bind:
  "ldap_authenticate D l user password = Some groups \<Longrightarrow>
     password \<noteq> [] \<and> (\<exists>entry. dir_search D (lc_base_dn (la_cfg l)) (user_filter D (la_cfg l) user)
         (case lc_group_attribute (la_cfg l) of Some a \<Rightarrow> [a] | None \<Rightarrow> [''1.1'']) = Some (0, [entry])
       \<and> dir_bind D (se_dn entry) password = Some 0)"
  by (auto simp: ldap_authenticate_def search_and_bind_def Let_def
      split: if_splits option.splits sum.splits prod.splits list.splits nat.splits)

section \<open>The password file\<close>

definition account_line :: "string \<Rightarrow> string \<Rightarrow> string \<Rightarrow> bool" where
  "account_line raw user hash \<longleftrightarrow>
     \<not> prefix ''#'' (str_trim raw) \<and> str_trim raw = user @ '':'' @ hash \<and> user \<noteq> [] \<and> CHR '':'' \<notin> set user"

lemma account_line_skip: "str_trim raw = [] \<or> prefix ''#'' (str_trim raw) \<Longrightarrow> \<not> account_line raw u x"
  by (auto simp: account_line_def)

lemma account_line_split:
  "split_once CHR '':'' (str_trim raw) = Some (user, hash) \<Longrightarrow> user \<noteq> [] \<Longrightarrow> \<not> prefix ''#'' (str_trim raw)
   \<Longrightarrow> account_line raw u x \<longleftrightarrow> u = user \<and> x = hash"
  unfolding account_line_def by (metis append_Cons append_Nil option.inject prod.inject split_once_Some_iff)

lemma parse_lines_exact:
  "parse_lines n lines users cost = Inr (users', cost') \<Longrightarrow>
     (map_of users' u = Some x \<longleftrightarrow> map_of users u = Some x \<or> (\<exists>raw\<in>set lines. account_line raw u x))
     \<and> ((\<forall>y. map_of users u = Some y \<longrightarrow> bcrypt_cost y \<noteq> None) \<longrightarrow> map_of users' u = Some x \<longrightarrow> bcrypt_cost x \<noteq> None)"
proof (induction n lines users cost rule: parse_lines.induct)
  case (2 n raw rest users max_cost)
  show ?case
  proof (cases "str_trim raw = [] \<or> prefix ''#'' (str_trim raw)")
    case True
    then show ?thesis using 2 account_line_skip [OF True] by (auto simp: Let_def)
  next
    case False
    then obtain user hash c where s: "split_once CHR '':'' (str_trim raw) = Some (user, hash)" "user \<noteq> []"
        "bcrypt_cost hash = Some c" "map_of users user = None"
        and r: "parse_lines (n + 1) rest (AList.update user hash users) (max max_cost c) = Inr (users', cost')"
      using "2.prems" by (auto simp: Let_def split: option.splits if_splits)
    have line: "account_line raw u x \<longleftrightarrow> u = user \<and> x = hash" for u x
      using account_line_split s False by blast
    have ih: "(map_of users' u = Some x \<longleftrightarrow> map_of (AList.update user hash users) u = Some x \<or> (\<exists>raw\<in>set rest. account_line raw u x))
     \<and> ((\<forall>y. map_of (AList.update user hash users) u = Some y \<longrightarrow> bcrypt_cost y \<noteq> None) \<longrightarrow> map_of users' u = Some x \<longrightarrow> bcrypt_cost x \<noteq> None)"
      by (rule "2.IH"(2) [OF refl]) (use False s r in auto)
    show ?thesis using ih s by (auto simp: line update_conv')
  qed
qed auto

text \<open>
  (C28) The password file. When the file is accepted, a user has a hash exactly when some line that
  is not a comment reads, after trimming, the user, a colon and that hash, and every hash kept is a
  bcrypt hash with a cost.
\<close>

theorem htpasswd_exact:
  assumes "parse_htpasswd A txt = Inr h"
  shows "map_of (hp_users h) user = Some hash \<longleftrightarrow>
           bcrypt_cost hash \<noteq> None \<and> (\<exists>raw\<in>set (str_lines txt). account_line raw user hash)"
proof -
  obtain users cost where p: "parse_lines 1 (str_lines txt) [] 0 = Inr (users, cost)" "hp_users h = users"
    using assms by (auto simp: parse_htpasswd_def and_then_Inr_iff Let_def)
  show ?thesis using parse_lines_exact [OF p(1), of user hash] by (auto simp: p(2))
qed

section \<open>Examples\<close>

definition sample_auth_api :: auth_api where
  "sample_auth_api = \<lparr>header_to_str = Some, header_from_str = Some, b64_std = Some, b64_url = Some,
     sha256_raw = (\<lambda>b. b), bcrypt_verify = (\<lambda>pw hash. Some (hash = ''$2b$04$'' @ pw)),
     bcrypt_hash = (\<lambda>pw cost. Inr (''$2b$04$'' @ pw)),
     ecdsa_p256_verify = (\<lambda>pk msg sig. sig = pk), rsa_pkcs1_verify = (\<lambda>pk msg sig. sig = pk),
     jws_header_of = (\<lambda>b. None), claims_of = (\<lambda>b. None), pem_iter = (\<lambda>b. []),
     parse_x509 = (\<lambda>b. Inl []), spki_from_der = (\<lambda>b. Inl []),
     oid_ec_public_key = ''1.2.840.10045.2.1'', oid_ec_p256 = ''1.2.840.10045.3.1.7'',
     oid_rsa_encryption = ''1.2.840.113549.1.1.1'', fs_read = (\<lambda>p. Inl []), fs_read_to_string = (\<lambda>p. Inl [])\<rparr>"

definition sample_moment :: "nat \<Rightarrow> moment" where
  "sample_moment t = \<lparr>mo_get = t, mo_insert = t, mo_unix = 0,
     mo_dir = \<lparr>dir_connect = (\<lambda>c. False), dir_bind = (\<lambda>d p. None), dir_search = (\<lambda>b f a. None),
               dir_escape = (\<lambda>s. s), dir_timeout = False\<rparr>\<rparr>"

definition sample_auth :: auth where
  "sample_auth = \<lparr>au_realm = ''roci'',
     au_htpasswd = Some \<lparr>hp_users = [(''alice'', ''$2b$04$pw'')], hp_dummy = ''$2b$04$dummy''\<rparr>,
     au_ldap = None, au_bearer = None, au_mtls = False, au_cache = cache_new 0, au_policy = None\<rparr>"

theorem credential_cache_sound_witness:
  "fst (authenticate_basic sample_auth_api (sample_moment 7)
          (run_basic sample_auth_api (sample_auth\<lparr>au_cache := cache_new 5\<rparr>) [(sample_moment 3, ''alice:pw'')])
          ''alice:pw'') = Inr (User ''alice'' [] Htpasswd_method)
   \<and> (\<exists>m' cred' user' password' user password.
        decode_basic sample_auth_api ''alice:pw'' = Some (user, password)
        \<and> cache_key sample_auth_api user password = cache_key sample_auth_api user' password'
        \<and> verified_by sample_auth_api sample_auth m' cred' user' password' (User ''alice'' [] Htpasswd_method)
        \<and> (m' = sample_moment 7 \<and> cred' = ''alice:pw''
           \<or> (m', cred') \<in> set [(sample_moment 3, ''alice:pw'')] \<and> mo_get (sample_moment 7) < mo_insert m' + 5))"
proof -
  have run: "fst (authenticate_basic sample_auth_api (sample_moment 7)
          (run_basic sample_auth_api (sample_auth\<lparr>au_cache := cache_new 5\<rparr>) [(sample_moment 3, ''alice:pw'')])
          ''alice:pw'') = Inr (User ''alice'' [] Htpasswd_method)"
    by (simp add: authenticate_basic_def run_basic_def sample_auth_api_def sample_moment_def sample_auth_def
        decode_basic_def utf8_valid_ascii cache_get_def cache_insert_def cache_new_def
        verify_basic_def htpasswd_verify_def cache_key_def CAPACITY_def Let_def)
  show ?thesis using run credential_cache_sound [OF run] by (rule conjI)
qed

theorem htpasswd_exact_witness:
  "\<exists>h. parse_htpasswd sample_auth_api ''alice:$2b$04$pw'' = Inr h
     \<and> (map_of (hp_users h) ''alice'' = Some ''$2b$04$pw'' \<longleftrightarrow>
          bcrypt_cost ''$2b$04$pw'' \<noteq> None
          \<and> (\<exists>raw\<in>set (str_lines ''alice:$2b$04$pw''). account_line raw ''alice'' ''$2b$04$pw''))"
proof -
  have run: "parse_htpasswd sample_auth_api ''alice:$2b$04$pw'' =
      Inr \<lparr>hp_users = [(''alice'', ''$2b$04$pw'')], hp_dummy = ''$2b$04$roci-htpasswd-dummy''\<rparr>"
    by (simp add: parse_htpasswd_def sample_auth_api_def str_lines_def str_trim_def trim_leading.simps leading_space_def wide_spaces_def bcrypt_cost_def
        BCRYPT_PREFIXES_def parse_u32_def parse_u64_def decimal_value_def digit_value_def is_ascii_digit_def Let_def)
  show ?thesis by (rule exI, rule conjI [OF run htpasswd_exact [OF run]])
qed

end
