(* ===== verification/Layout.thy ===== *)
theory Layout
  imports Packages Meta_Ops
begin

text \<open>
  Image-layout helpers (\<open>roci-storage/src/layout.rs\<close>): descriptor accessors, the digests a manifest
  references, and the pages computed from an in-memory \<open>index.json\<close>.
\<close>

definition REF_NAME_ANNOTATION :: string where
  "REF_NAME_ANNOTATION = ''org.opencontainers.image.ref.name''"

definition MEDIA_TYPE_IMAGE_MANIFEST :: string where
  "MEDIA_TYPE_IMAGE_MANIFEST = ''application/vnd.oci.image.manifest.v1+json''"

definition MEDIA_TYPE_IMAGE_INDEX :: string where
  "MEDIA_TYPE_IMAGE_INDEX = ''application/vnd.oci.image.index.v1+json''"

definition empty_index :: json where
  "empty_index = JObject [(''manifests'', JArray []), (''mediaType'', JString MEDIA_TYPE_IMAGE_INDEX),
     (''schemaVersion'', JNumber (PosInt 2))]"

definition descriptor_tag :: "json \<Rightarrow> string option" where
  "descriptor_tag d = Option.bind (json_get ''annotations'' d) (get_str REF_NAME_ANNOTATION)"

definition layout_descriptor_digest :: "json \<Rightarrow> string option" where
  "layout_descriptor_digest d = get_str ''digest'' d"

definition index_manifests :: "json \<Rightarrow> json list" where
  "index_manifests v = get_array ''manifests'' v"

definition subject_digest :: "json \<Rightarrow> string option" where
  "subject_digest d = Option.bind (json_get ''subject'' d) (get_str ''digest'')"

definition parsed_digest :: "json \<Rightarrow> digest option" where
  "parsed_digest d =
     Option.bind (get_str ''digest'' d) (\<lambda>s. case parse_digest s of Inl _ \<Rightarrow> None | Inr x \<Rightarrow> Some x)"

definition manifest_references :: "json \<Rightarrow> digest list" where
  "manifest_references m =
     List.map_filter parsed_digest
       ((case json_get ''config'' m of None \<Rightarrow> [] | Some c \<Rightarrow> [c])
        @ concat (map (\<lambda>field. get_array field m) [''layers'', ''manifests''])
        @ (case json_get ''subject'' m of None \<Rightarrow> [] | Some s \<Rightarrow> [s]))"

section \<open>Pages\<close>

text \<open>\<open>partition_point\<close> on a sorted list is the length of the prefix that satisfies the predicate.\<close>

definition page_sorted :: "'a list \<Rightarrow> ('a \<Rightarrow> string) \<Rightarrow> string option \<Rightarrow> nat \<Rightarrow> 'a page" where
  "page_sorted items key last_seen limit =
     (let start = (case last_seen of None \<Rightarrow> 0 | Some l \<Rightarrow> length (takeWhile (\<lambda>i. key i \<le> l) items))
      in take_page (drop start items) limit)"

text \<open>\<open>Vec::dedup_by\<close> on adjacent equal keys keeps the first of each run.\<close>

fun dedup_key :: "('a \<Rightarrow> 'k) \<Rightarrow> 'a list \<Rightarrow> 'a list" where
  "dedup_key key (a # b # xs) = (if key a = key b then dedup_key key (a # xs) else a # dedup_key key (b # xs))"
| "dedup_key key xs = xs"

definition page_layout_referrers :: "'a ext_api_scheme \<Rightarrow> (string \<times> json) list \<Rightarrow> string option
    \<Rightarrow> string option \<Rightarrow> nat \<Rightarrow> (string \<times> bytes) page" where
  "page_layout_referrers E refs artifact_type last_seen limit =
     (let kept = filter (\<lambda>(_, d). case artifact_type of None \<Rightarrow> True
                           | Some t \<Rightarrow> get_str ''artifactType'' d = Some t) refs;
          p = page_sorted (dedup_key fst (sort_key fst kept)) fst last_seen limit
      in \<lparr>page_items = map (\<lambda>(d, v). (d, to_vec E v)) (page_items p), page_more = page_more p\<rparr>)"

definition layout_tags_page :: "json \<Rightarrow> string option \<Rightarrow> nat \<Rightarrow> string page" where
  "layout_tags_page index last_seen limit =
     page_sorted (dedup_key (\<lambda>t. t) (sort (List.map_filter descriptor_tag (index_manifests index)))) (\<lambda>t. t) last_seen limit"

definition layout_subject_referrers :: "json \<Rightarrow> string \<Rightarrow> (string \<times> json) list" where
  "layout_subject_referrers index subject =
     List.map_filter (\<lambda>e. map_option (\<lambda>d. (d, e)) (layout_descriptor_digest e))
       (filter (\<lambda>e. subject_digest e = Some subject) (index_manifests index))"

text \<open>The merged descriptor of a referrer; the text of a JSON error is the package's.\<close>

definition merged_referrer_descriptor :: "'a ext_api_scheme \<Rightarrow> digest \<Rightarrow> bytes \<Rightarrow> storage_error + bytes" where
  "merged_referrer_descriptor E subject descriptor =
     (case from_slice E descriptor of
        Some (JObject kvs) \<Rightarrow>
          Inr (to_vec E (obj_insert ''subject''
                 (JObject [(''digest'', JString (digest_display subject))]) (JObject kvs)))
      | _ \<Rightarrow> Inl (Io (Io_Error KInvalidData [])))"

definition same_manifest_set :: "'a ext_api_scheme \<Rightarrow> json \<Rightarrow> json \<Rightarrow> bool" where
  "same_manifest_set E a b \<longleftrightarrow>
     sort (map (to_vec E) (index_manifests a)) = sort (map (to_vec E) (index_manifests b))"

end
