(* ===== verification/Storage_Api.thy ===== *)
theory Storage_Api
  imports Meta_Ops
begin

text \<open>
  The storage contract (\<open>roci-storage/src/storage.rs\<close>): opened blobs and their byte streams, resolved
  manifests, the links committed with a manifest, and the \<open>Storage\<close> trait as a record of operations
  on a state. The stream of an open file is proved to deliver exactly the requested bytes.
\<close>

section \<open>Byte streams\<close>

type_synonym byte_stream = "(io_error + bytes) list"

definition FILE_CHUNK :: nat where
  "FILE_CHUNK = 256 * 1024"

text \<open>One chunk from the open file: the rest of its contents from the current offset is \<open>rest\<close>.\<close>

definition read_chunk :: "bytes \<Rightarrow> nat \<Rightarrow> io_error + bytes \<times> bytes" where
  "read_chunk rest n =
     (if length rest < n then Inl (Io_Error KUnexpectedEof ''blob file is shorter than its recorded size'')
      else Inr (take n rest, drop n rest))"

function stream_from :: "bytes \<Rightarrow> nat \<Rightarrow> nat \<Rightarrow> byte_stream" where
  "stream_from rest n remaining =
     (case read_chunk rest n of
        Inl e \<Rightarrow> [Inl e]
      | Inr (chunk, rest') \<Rightarrow>
          Inr chunk # (if remaining = 0 then []
                       else let k = min FILE_CHUNK remaining in stream_from rest' k (remaining - k)))"
  by pat_completeness auto
termination by (relation "measure (\<lambda>(_, _, remaining). remaining)") (auto simp: FILE_CHUNK_def)

declare stream_from.simps [simp del]

definition file_stream :: "bytes \<Rightarrow> nat \<Rightarrow> nat \<Rightarrow> byte_stream" where
  "file_stream content start len =
     (let n = min FILE_CHUNK len in stream_from (drop start content) n (len - n))"

datatype blob_source =
    FileSource bytes
  | RangedSource "u64 \<Rightarrow> u64 \<Rightarrow> io_error + byte_stream"
  | RedirectSource string

record blob_read =
  br_size :: u64
  br_source :: blob_source

definition redirect_url :: "blob_read \<Rightarrow> string option" where
  "redirect_url b = (case br_source b of RedirectSource url \<Rightarrow> Some url | _ \<Rightarrow> None)"

definition into_stream :: "blob_read \<Rightarrow> u64 \<Rightarrow> u64 \<Rightarrow> io_error + byte_stream" where
  "into_stream b start len =
     (case br_source b of
        FileSource content \<Rightarrow> Inr (file_stream content (unat start) (unat len))
      | RangedSource opener \<Rightarrow> opener start len
      | RedirectSource _ \<Rightarrow> Inl (Io_Error KUnsupported ''redirected blob has no local body''))"

text \<open>The bytes a client receives, or none when the stream breaks off.\<close>

fun stream_bytes :: "byte_stream \<Rightarrow> bytes option" where
  "stream_bytes [] = Some []"
| "stream_bytes (Inl e # _) = None"
| "stream_bytes (Inr c # cs) = map_option (\<lambda>r. c @ r) (stream_bytes cs)"

lemma stream_from_bytes:
  "stream_bytes (stream_from rest n remaining) =
     (if n + remaining \<le> length rest then Some (take (n + remaining) rest) else None)"
proof (induction rest n remaining rule: stream_from.induct)
  case (1 rest n remaining)
  show ?case
  proof (cases "length rest < n \<or> remaining = 0")
    case True
    then show ?thesis by (subst stream_from.simps) (auto simp: read_chunk_def)
  next
    case False
    let ?k = "min FILE_CHUNK remaining"
    have read: "read_chunk rest n = Inr (take n rest, drop n rest)" using False by (simp add: read_chunk_def)
    have ih: "stream_bytes (stream_from (drop n rest) ?k (remaining - ?k)) =
        (if remaining \<le> length rest - n then Some (take remaining (drop n rest)) else None)"
      using "1.IH" [OF read refl _ refl] False by simp
    show ?thesis
      by (subst stream_from.simps) (use False ih in \<open>auto simp: read Let_def take_add\<close>)
  qed
qed

lemma file_stream_bytes:
  "stream_bytes (file_stream content start len) =
     (if start + len \<le> length content \<or> len = 0 then Some (take len (drop start content)) else None)"
  by (auto simp: file_stream_def Let_def stream_from_bytes)

section \<open>The trait\<close>

record manifest_ref =
  mr_digest :: digest
  mr_media_type :: string
  mr_bytes :: bytes

record manifest_links =
  ml_references :: "digest list"
  ml_required :: "digest list"
  ml_subject :: "(digest \<times> bytes) option"

text \<open>An operation maps the state to a result and the state after it.\<close>

type_synonym ('s, 'a) op = "'s \<Rightarrow> (storage_error + 'a) \<times> 's"

record 's storage =
  blob_size :: "string \<Rightarrow> digest \<Rightarrow> ('s, u64) op"
  blob_exists :: "string \<Rightarrow> digest \<Rightarrow> ('s, bool) op"
  read_blob :: "string \<Rightarrow> digest \<Rightarrow> ('s, bytes) op"
  open_blob :: "string \<Rightarrow> digest \<Rightarrow> ('s, blob_read) op"
  begin_upload :: "string \<Rightarrow> ('s, string) op"
  append_upload :: "string \<Rightarrow> string \<Rightarrow> byte_stream \<Rightarrow> u64 option \<Rightarrow> u64 \<Rightarrow> ('s, u64) op"
  upload_size :: "string \<Rightarrow> string \<Rightarrow> ('s, u64) op"
  abort_upload :: "string \<Rightarrow> string \<Rightarrow> ('s, bool) op"
  mount_blob :: "string \<Rightarrow> string \<Rightarrow> digest \<Rightarrow> ('s, bool) op"
  finish_upload :: "string \<Rightarrow> string \<Rightarrow> digest \<Rightarrow> u64 \<Rightarrow> byte_stream \<Rightarrow> u64 \<Rightarrow> ('s, unit) op"
  put_blob :: "string \<Rightarrow> digest \<Rightarrow> bytes \<Rightarrow> ('s, unit) op"
  delete_blob :: "string \<Rightarrow> digest \<Rightarrow> ('s, unit) op"
  put_manifest :: "string \<Rightarrow> string option \<Rightarrow> digest \<Rightarrow> string \<Rightarrow> bytes \<Rightarrow> manifest_links \<Rightarrow> ('s, unit) op"
  get_manifest :: "string \<Rightarrow> string \<Rightarrow> ('s, manifest_ref) op"
  delete_manifest :: "string \<Rightarrow> digest \<Rightarrow> ('s, unit) op"
  list_tags :: "string \<Rightarrow> string option \<Rightarrow> nat \<Rightarrow> ('s, string page) op"
  list_referrers :: "string \<Rightarrow> digest \<Rightarrow> string option \<Rightarrow> string option \<Rightarrow> nat \<Rightarrow> ('s, (string \<times> bytes) page) op"

end
