(* ===== verification/Http_Util.thy ===== *)
theory Http_Util
  imports Auth Layout Storage_Api Sample_Packages
begin

text \<open>
  HTTP helpers (\<open>roci-core/src/http_util.rs\<close>): byte ranges, conditional requests, the headers of the
  common responses and bounded bodies, and the shape of a handler: a computation on the storage
  state that answers, fails with an API error, or panics where the code unwraps a header value.
\<close>

section \<open>Packages and handlers\<close>

text \<open>The HTTP layer's packages: those of the metadata and authentication layers, and the URL query
  encoding and its derived decoders.\<close>

record tags_query =
  tq_n :: "nat option"
  tq_last :: "string option"

record referrers_query =
  rq_artifact_type :: "string option"
  rq_n :: "nat option"
  rq_last :: "string option"

record upload_query =
  uq_digest :: "string option"
  uq_mount :: "string option"
  uq_from :: "string option"

record http_api = ext_api +
  http_auth :: auth_api
  urlencode :: "(string \<times> string) list \<Rightarrow> string"
  tags_query_of :: "string \<Rightarrow> tags_query option"
  referrers_query_of :: "string \<Rightarrow> referrers_query option"
  upload_query_of :: "string \<Rightarrow> upload_query option"

definition visible :: "string \<Rightarrow> bool" where
  "visible s \<longleftrightarrow> list_all (\<lambda>c. 32 \<le> (of_char c :: nat) \<and> (of_char c :: nat) < 127) s"

text \<open>The documented laws: a string of visible ASCII is a header value and is read back unchanged.\<close>

definition http_ok :: "http_api \<Rightarrow> bool" where
  "http_ok W \<longleftrightarrow> ext_ok W \<and> hash_api_ok W
     \<and> (\<forall>s. visible s \<longrightarrow> header_from_str (http_auth W) s = Some s \<and> header_to_str (http_auth W) s = Some s)"

datatype handler_error = Failed api_error | Panicked

type_synonym ('s, 'a) handler = "'s \<Rightarrow> (handler_error + 'a) \<times> 's"

definition hbind :: "(handler_error + 'a) \<times> 's \<Rightarrow> ('a \<Rightarrow> ('s, 'b) handler) \<Rightarrow> (handler_error + 'b) \<times> 's" where
  "hbind r f = (case r of (Inl e, s) \<Rightarrow> (Inl e, s) | (Inr x, s) \<Rightarrow> f x s)"

definition calls :: "(storage_error \<Rightarrow> api_error) \<Rightarrow> (storage_error + 'a) \<times> 's \<Rightarrow> (handler_error + 'a) \<times> 's" where
  "calls conv r = (case r of (x, s) \<Rightarrow> (map_err (\<lambda>e. Failed (conv e)) x, s))"

lemma hbind_simps [simp]: "hbind (Inl e, s) f = (Inl e, s)" "hbind (Inr x, s) f = f x s"
  by (simp_all add: hbind_def)

lemma calls_simps [simp]: "calls conv (Inl e, s) = (Inl (Failed (conv e)), s)" "calls conv (Inr x, s) = (Inr x, s)"
  by (simp_all add: calls_def)

section \<open>Header values\<close>

definition hv_static :: "string \<Rightarrow> handler_error + string" where
  "hv_static s = Inr s"

definition hv_str :: "http_api \<Rightarrow> string \<Rightarrow> handler_error + string" where
  "hv_str W s = ok_or Panicked (header_from_str (http_auth W) s)"

text \<open>A header map under construction, with the value each name receives.\<close>

definition header_list :: "(string \<times> (handler_error + string)) list \<Rightarrow> handler_error + header_map" where
  "header_list kvs = collect_results (\<lambda>(k, v). and_then v (\<lambda>x. Inr (k, x))) kvs"

definition respond :: "nat \<Rightarrow> (string \<times> (handler_error + string)) list \<Rightarrow> body \<Rightarrow> handler_error + response" where
  "respond status kvs b =
     and_then (header_list kvs) (\<lambda>hs. Inr \<lparr>resp_status = status, resp_headers = hs, resp_body = b\<rparr>)"

definition etag_value :: "http_api \<Rightarrow> string \<Rightarrow> handler_error + string" where
  "etag_value W digest = hv_str W (quoted digest)"

definition digest_value :: "http_api \<Rightarrow> string \<Rightarrow> handler_error + string" where
  "digest_value W digest = hv_str W digest"

definition DOCKER_CONTENT_DIGEST :: string where
  "DOCKER_CONTENT_DIGEST = ''docker-content-digest''"

definition CACHE_IMMUTABLE :: string where
  "CACHE_IMMUTABLE = ''max-age=31536000, immutable''"

definition not_modified :: "http_api \<Rightarrow> string \<Rightarrow> string \<Rightarrow> handler_error + response" where
  "not_modified W digest cache_control =
     respond 304 [(''etag'', etag_value W digest), (''cache-control'', hv_static cache_control)] EmptyBody"

definition created_headers :: "http_api \<Rightarrow> string \<Rightarrow> digest \<Rightarrow> (string \<times> (handler_error + string)) list" where
  "created_headers W location d =
     [(''location'', hv_str W location), (DOCKER_CONTENT_DIGEST, digest_value W (digest_display d))]"

definition created :: "http_api \<Rightarrow> string \<Rightarrow> digest \<Rightarrow> handler_error + response" where
  "created W location d = respond 201 (created_headers W location d) EmptyBody"

definition blob_location :: "string \<Rightarrow> digest \<Rightarrow> string" where
  "blob_location repo d = ''/v2/'' @ repo @ ''/blobs/'' @ digest_display d"

section \<open>Ranges and conditions\<close>

datatype range_outcome = Full | Partial u64 u64 | Unsatisfiable

definition get_header :: "http_api \<Rightarrow> header_map \<Rightarrow> string \<Rightarrow> string option" where
  "get_header W headers name = Option.bind (map_of headers name) (header_to_str (http_auth W))"

text \<open>The subtraction \<open>size - 1\<close> of the suffix form is the wrapping one of a release build.\<close>

definition range_bounds :: "string \<Rightarrow> string \<Rightarrow> u64 \<Rightarrow> range_outcome + u64 \<times> u64" where
  "range_bounds start_s end_s sz =
     (if start_s = [] then
        (case parse_u64 end_s of
           None \<Rightarrow> Inl Full
         | Some n \<Rightarrow> if n = 0 then Inl Unsatisfiable else Inr (saturating_sub64 sz n, sz - 1))
      else if end_s = [] then
        (case parse_u64 start_s of
           None \<Rightarrow> Inl Full
         | Some start \<Rightarrow> Inr (start, saturating_sub64 sz 1))
      else
        (case (parse_u64 start_s, parse_u64 end_s) of
           (Some start, Some e) \<Rightarrow>
             if e < start then Inl Full else Inr (start, min e (saturating_sub64 sz 1))
         | _ \<Rightarrow> Inl Full))"

definition parse_byte_range :: "http_api \<Rightarrow> header_map \<Rightarrow> u64 \<Rightarrow> range_outcome" where
  "parse_byte_range W headers sz =
     (case Option.bind (get_header W headers ''range'') (strip_prefix ''bytes='') of
        None \<Rightarrow> Full
      | Some spec \<Rightarrow>
          if CHR '','' \<in> set spec then Full
          else (case split_once CHR ''-'' spec of
              None \<Rightarrow> Full
            | Some (start_s, end_s) \<Rightarrow>
                (case range_bounds (str_trim start_s) (str_trim end_s) sz of
                   Inl outcome \<Rightarrow> outcome
                 | Inr (start, e) \<Rightarrow>
                     if sz = 0 \<or> sz \<le> start then Unsatisfiable else Partial start e)))"

definition trim_quotes :: "string \<Rightarrow> string" where
  "trim_quotes s =
     (let q = (\<lambda>c. c = CHR 0x22) in rev (dropWhile q (rev (dropWhile q s))))"

definition if_none_match_hit :: "http_api \<Rightarrow> header_map \<Rightarrow> string \<Rightarrow> bool" where
  "if_none_match_hit W headers digest =
     (case get_header W headers ''if-none-match'' of
        None \<Rightarrow> False
      | Some inm \<Rightarrow>
          list_ex (\<lambda>raw.
            let tag = str_trim raw in
            tag = ''*'' \<or>
            trim_quotes (case strip_prefix ''W/'' tag of Some t \<Rightarrow> t | None \<Rightarrow> tag) = digest)
            (split_on CHR '','' inm))"

section \<open>Bodies\<close>

text \<open>\<open>to_bytes\<close> collects the request body and fails when it breaks off or exceeds the limit.\<close>

definition read_body_limited :: "byte_stream \<Rightarrow> nat \<Rightarrow> api_error + bytes" where
  "read_body_limited body limit =
     (case stream_bytes body of
        Some b \<Rightarrow> if length b \<le> limit then Inr b else Inl (payload_too_large ''request body too large'')
      | None \<Rightarrow> Inl (payload_too_large ''request body too large''))"

section \<open>Correctness\<close>

lemma str_trim_visible:
  assumes "list_all (\<lambda>c. 32 < (of_char c :: nat) \<and> (of_char c :: nat) < 127) s"
  shows "str_trim s = s"
proof -
  have none: "leading_space w t = 0"
    if "list_all (\<lambda>c. 32 < (of_char c :: nat) \<and> (of_char c :: nat) < 127) t" "\<forall>x\<in>set w. x \<noteq> [] \<and> 127 < hd x" for w t
  proof (cases t)
    case (Cons c r)
    have c: "32 < (of_char c :: nat)" "(of_char c :: nat) < 127" using that(1) Cons by auto
    have "map of_char (take n t) \<notin> set w" if "0 < n" for n
      using that(1) \<open>\<forall>x\<in>set w. x \<noteq> [] \<and> 127 < hd x\<close> c by (cases n) (auto simp: Cons)
    then have "map of_char (take 2 t) \<notin> set w" "map of_char (take 3 t) \<notin> set w" by simp_all
    then show ?thesis using c unfolding leading_space_def by (simp only: Cons list.case) auto
  qed (simp add: leading_space_def)
  have "trim_leading w t = t"
    if "list_all (\<lambda>c. 32 < (of_char c :: nat) \<and> (of_char c :: nat) < 127) t" "\<forall>x\<in>set w. x \<noteq> [] \<and> 127 < hd x" for w t
    using none [OF that] by (subst trim_leading.simps) simp
  moreover have "\<forall>x\<in>set wide_spaces. x \<noteq> [] \<and> 127 < hd x" "\<forall>x\<in>set (map rev wide_spaces). x \<noteq> [] \<and> 127 < hd x"
    by (auto simp: wide_spaces_def)
  ultimately show ?thesis using assms by (simp add: str_trim_def)
qed

lemma show_u64_visible: "list_all (\<lambda>c. 32 < (of_char c :: nat) \<and> (of_char c :: nat) < 127) (show_u64 w)"
  using show_nat_digits [of "unat w"] by (auto simp: show_u64_def list_all_iff is_ascii_digit_nat)

lemma show_u64_chars [simp]:
  "show_u64 w \<noteq> []" "CHR ''-'' \<notin> set (show_u64 w)" "CHR '','' \<notin> set (show_u64 w)" "str_trim (show_u64 w) = show_u64 w"
  using show_nat_digits [of "unat w"] str_trim_visible [OF show_u64_visible]
  by (auto simp: show_u64_def list_all_iff is_ascii_digit_def)

lemma str_trim_Nil [simp]: "str_trim [] = []"
  by (rule str_trim_visible) simp

lemma split_once_append: "c \<notin> set s \<Longrightarrow> split_once c (s @ c # t) = Some (s, t)"
  by (simp add: split_once_Some_iff)

definition range_header :: "string \<Rightarrow> header_map" where
  "range_header r = [(''range'', ''bytes='' @ r)]"

lemma parse_range_header:
  assumes "http_ok W" and "visible r" and "CHR '','' \<notin> set r" and "split_once CHR ''-'' r = Some (a, b)"
  shows "parse_byte_range W (range_header r) sz =
    (case range_bounds (str_trim a) (str_trim b) sz of
       Inl outcome \<Rightarrow> outcome
     | Inr (start, e) \<Rightarrow> if sz = 0 \<or> sz \<le> start then Unsatisfiable else Partial start e)"
proof -
  have "visible (''bytes='' @ r)" using assms(2) by (simp add: visible_def)
  then have "get_header W (range_header r) ''range'' = Some (''bytes='' @ r)"
    using assms(1) by (simp add: get_header_def range_header_def http_ok_def)
  moreover have "strip_prefix ''bytes='' (''bytes='' @ r) = Some r" by (simp add: strip_prefix_Some_iff)
  ultimately show ?thesis using assms(3,4) by (simp add: parse_byte_range_def)
qed

lemma visible_show: "visible (show_u64 w)" "visible (a @ b) \<longleftrightarrow> visible a \<and> visible b" "visible (c # a) \<longleftrightarrow> 32 \<le> (of_char c :: nat) \<and> (of_char c :: nat) < 127 \<and> visible a" "visible []"
  using show_u64_visible [of w] by (auto simp: visible_def list_all_iff less_imp_le)

lemma last_byte:
  "sz \<noteq> 0 \<Longrightarrow> saturating_sub64 sz 1 = sz - 1"
  by (simp add: saturating_sub64_def word_le_nat_alt Suc_le_eq unat_gt_0)

lemma sub_not_le: "n \<noteq> 0 \<Longrightarrow> n \<le> sz \<Longrightarrow> \<not> sz \<le> sz - (n :: u64)"
  by (simp add: word_le_nat_alt unat_sub not_le unat_gt_0 diff_less_mono2 le_simps order_less_le_trans)
    (metis diff_less order.strict_trans2 unat_gt_0)

lemma byte_range_from_to:
  "http_ok W \<Longrightarrow> parse_byte_range W (range_header (show_u64 a @ ''-'' @ show_u64 b)) sz =
     (if b < a then Full else if a < sz then Partial a (min b (sz - 1)) else Unsatisfiable)"
  by (subst parse_range_header [where a = "show_u64 a" and b = "show_u64 b"])
    (auto simp: visible_show split_once_append range_bounds_def last_byte not_less)

lemma byte_range_from:
  "http_ok W \<Longrightarrow> parse_byte_range W (range_header (show_u64 a @ ''-'')) sz =
     (if a < sz then Partial a (sz - 1) else Unsatisfiable)"
  by (subst parse_range_header [where a = "show_u64 a" and b = "[]"])
    (auto simp: visible_show split_once_append range_bounds_def last_byte not_less)

lemma byte_range_suffix:
  "http_ok W \<Longrightarrow> parse_byte_range W (range_header (''-'' @ show_u64 n)) sz =
     (if n = 0 \<or> sz = 0 then Unsatisfiable else Partial (if n < sz then sz - n else 0) (sz - 1))"
  by (subst parse_range_header [where a = "[]" and b = "show_u64 n"])
    (auto simp: visible_show range_bounds_def last_byte not_less saturating_sub64_def sub_not_le)

text \<open>
  Byte ranges. The three forms of a single range, rendered as a client renders them, select
  what RFC 9110 says: from a to b inclusive clipped to the last byte, from a to the end, and the last
  n bytes; a range that starts past the end, an empty suffix and any range of an empty blob are
  unsatisfiable, and a reversed range is ignored.
\<close>

theorem byte_range_forms:
  assumes "http_ok W"
  shows "parse_byte_range W (range_header (show_u64 a @ ''-'' @ show_u64 b)) sz =
           (if b < a then Full else if a < sz then Partial a (min b (sz - 1)) else Unsatisfiable)
       \<and> parse_byte_range W (range_header (show_u64 a @ ''-'')) sz =
           (if a < sz then Partial a (sz - 1) else Unsatisfiable)
       \<and> parse_byte_range W (range_header (''-'' @ show_u64 n)) sz =
           (if n = 0 \<or> sz = 0 then Unsatisfiable
            else Partial (if n < sz then sz - n else 0) (sz - 1))"
  using byte_range_from_to [OF assms] byte_range_from [OF assms] byte_range_suffix [OF assms] by blast

text \<open>Whatever the header says, a partial answer lies within the blob.\<close>

lemma range_bounds_Inl: "range_bounds x y sz = Inl r \<Longrightarrow> r = Full \<or> r = Unsatisfiable"
  by (auto simp: range_bounds_def split: option.splits if_splits)

lemma parse_byte_range_bounds:
  assumes "parse_byte_range W headers sz = Partial a b"
  shows "a \<le> b \<and> b < sz"
proof -
  obtain x y where r: "range_bounds x y sz = Inr (a, b)" and ne: "sz \<noteq> 0" "a < sz"
    using assms by (auto simp: parse_byte_range_def not_le dest: range_bounds_Inl split: option.splits prod.splits sum.splits if_splits)
  have top: "sz - 1 < sz" "a \<le> sz - 1"
    using ne by (auto simp: word_less_nat_alt word_le_nat_alt unat_minus_one unat_gt_0)
  show ?thesis
    using r ne top
    by (auto simp: range_bounds_def last_byte min_def not_le not_less split: option.splits if_splits)
qed

section \<open>Example\<close>

definition sample_http :: http_api where
  "sample_http = ext_api.extend sample_ext
     (http_api.fields sample_auth_api (\<lambda>kvs. concat (map (\<lambda>(k, v). k @ ''='' @ v) kvs))
        (\<lambda>q. None) (\<lambda>q. None) (\<lambda>q. None))"

lemma sample_http_ok: "http_ok sample_http"
proof -
  have "ext_ok sample_http \<longleftrightarrow> ext_ok sample_ext" "hash_api_ok sample_http \<longleftrightarrow> hash_api_ok sample_ext"
    by (simp_all add: ext_ok_def hash_api_ok_def sample_http_def ext_api.defs http_api.defs)
  then show ?thesis
    by (simp add: http_ok_def sample_ext_ok sample_hash_ok)
      (simp add: sample_http_def ext_api.defs http_api.defs sample_auth_api_def)
qed

theorem byte_range_forms_witness:
  "parse_byte_range sample_http (range_header (show_u64 2 @ ''-'' @ show_u64 9)) 8 = Partial 2 7
   \<and> parse_byte_range sample_http (range_header (show_u64 5 @ ''-'')) 8 = Partial 5 7
   \<and> parse_byte_range sample_http (range_header (''-'' @ show_u64 3)) 8 = Partial 5 7"
  using byte_range_forms [OF sample_http_ok, where a = 2 and b = 9 and sz = 8 and n = 3]
    byte_range_forms [OF sample_http_ok, where a = 5 and sz = 8] by simp

end
