(* ===== verification/Blobs.thy ===== *)
theory Blobs
  imports Http_Util
begin

text \<open>
  Blob endpoints (\<open>roci-core/src/blobs.rs\<close>) and the shared handler state (\<open>AppState\<close> of
  \<open>roci-core/src/lib.rs\<close>): GET and HEAD with ranges and conditional requests, and DELETE. A GET of a
  blob held in a file is proved to deliver exactly the selected bytes.
\<close>

section \<open>Shared state\<close>

record limits_config =
  max_body :: nat
  max_upload :: u64
  max_manifest :: nat
  max_page :: nat

record 's app_state =
  app_storage :: "'s storage"
  app_limits :: limits_config
  app_delete_enabled :: bool
  app_auth :: "auth option"

definition can_delete :: "'s app_state \<Rightarrow> bool" where
  "can_delete st = app_delete_enabled st"

definition unsupported_operation :: handler_error where
  "unsupported_operation = Failed (Spec Unsupported ''the operation is unsupported'')"

definition empty_response :: "nat \<Rightarrow> response" where
  "empty_response status = \<lparr>resp_status = status, resp_headers = [], resp_body = EmptyBody\<rparr>"

section \<open>Handlers\<close>

definition blob_unknown :: api_error where
  "blob_unknown = Spec BlobUnknown ''blob unknown to registry''"

definition blob_headers :: "http_api \<Rightarrow> string \<Rightarrow> (string \<times> (handler_error + string)) list" where
  "blob_headers W digest_str =
     [(DOCKER_CONTENT_DIGEST, hv_str W digest_str),
      (''content-type'', hv_static ''application/octet-stream''),
      (''accept-ranges'', hv_static ''bytes''),
      (''etag'', etag_value W digest_str),
      (''cache-control'', hv_static CACHE_IMMUTABLE)]"

text \<open>A streamed answer: the headers are built first, then the stream is opened.\<close>

definition respond_stream :: "nat \<Rightarrow> (string \<times> (handler_error + string)) list
    \<Rightarrow> io_error + byte_stream \<Rightarrow> handler_error + response" where
  "respond_stream status kvs stream =
     and_then (header_list kvs) (\<lambda>hs.
     and_then (map_err (\<lambda>e. Failed (not_found_as blob_unknown (Io e))) stream) (\<lambda>chunks.
       Inr \<lparr>resp_status = status, resp_headers = hs, resp_body = StreamBody chunks\<rparr>))"

definition opened_response :: "http_api \<Rightarrow> string \<Rightarrow> header_map \<Rightarrow> blob_read \<Rightarrow> handler_error + response" where
  "opened_response W digest_str headers blob =
     (let sz = br_size blob in
      case redirect_url blob of
        Some url \<Rightarrow>
          respond 307
            [(DOCKER_CONTENT_DIGEST, digest_value W digest_str),
             (''location'', ok_or (Failed (not_found_as blob_unknown (Io (Io_Error KOther []))))
                            (header_from_str (http_auth W) url))] EmptyBody
      | None \<Rightarrow>
          (case parse_byte_range W headers sz of
             Full \<Rightarrow>
               respond_stream 200 (blob_headers W digest_str @ [(''content-length'', hv_static (show_u64 sz))])
                 (into_stream blob 0 sz)
           | Partial start e \<Rightarrow>
               let len = e - start + 1
               in respond_stream 206
                    (blob_headers W digest_str
                     @ [(''content-length'', hv_static (show_u64 len)),
                        (''content-range'', hv_str W (''bytes '' @ show_u64 start @ ''-'' @ show_u64 e
                            @ ''/'' @ show_u64 sz))])
                    (into_stream blob start len)
           | Unsatisfiable \<Rightarrow>
               respond 416
                 [(''accept-ranges'', hv_static ''bytes''),
                  (''content-range'', hv_str W (''bytes */'' @ show_u64 sz))] EmptyBody))"

definition get_body :: "http_api \<Rightarrow> 's app_state \<Rightarrow> string \<Rightarrow> digest \<Rightarrow> string \<Rightarrow> header_map
    \<Rightarrow> ('s, response) handler" where
  "get_body W st repo d digest_str headers s =
     hbind (calls (not_found_as blob_unknown) (open_blob (app_storage st) repo d s)) (\<lambda>blob s.
       (opened_response W digest_str headers blob, s))"

definition blob_get :: "http_api \<Rightarrow> 's app_state \<Rightarrow> string \<Rightarrow> digest \<Rightarrow> bool \<Rightarrow> header_map
    \<Rightarrow> ('s, response) handler" where
  "blob_get W st repo d head_only headers s =
     (let digest_str = digest_display d in
      if if_none_match_hit W headers digest_str then (not_modified W digest_str CACHE_IMMUTABLE, s)
      else if head_only then
        hbind (calls (not_found_as blob_unknown) (blob_size (app_storage st) repo d s)) (\<lambda>sz s.
          (respond 200 (blob_headers W digest_str @ [(''content-length'', hv_static (show_u64 sz))]) EmptyBody, s))
      else get_body W st repo d digest_str headers s)"

definition blob_delete :: "'s app_state \<Rightarrow> string \<Rightarrow> digest \<Rightarrow> ('s, response) handler" where
  "blob_delete st repo d s =
     (if \<not> can_delete st then (Inl unsupported_operation, s)
      else hbind (calls (not_found_as blob_unknown) (delete_blob (app_storage st) repo d s)) (\<lambda>_ s.
        (Inr (empty_response 202), s)))"

section \<open>Header values never panic\<close>

lemma visible_append [simp]: "visible (a @ b) \<longleftrightarrow> visible a \<and> visible b"
  by (auto simp: visible_def)

lemma visible_Cons [simp]:
  "visible (c # a) \<longleftrightarrow> 32 \<le> (of_char c :: nat) \<and> (of_char c :: nat) < 127 \<and> visible a"
  by (auto simp: visible_def)

lemma visible_basic [simp]: "visible []" "visible (show_u64 w)"
  using show_u64_visible [of w] by (auto simp: visible_def list_all_iff less_imp_le)

lemma char_range_visible: "CHR '' '' \<le> c \<Longrightarrow> c \<le> CHR ''~'' \<Longrightarrow> 32 \<le> (of_char c :: nat) \<and> (of_char c :: nat) < 127"
  by (auto simp: less_eq_char_def)

lemma digest_visible [simp]: "digest_wf d \<Longrightarrow> visible (digest_display d)"
proof -
  assume wf: "digest_wf d"
  have "visible (hex d)"
    using wf by (auto simp: digest_wf_def lower_hex_def visible_def list_all_iff ascii_class_defs less_eq_char_def)
  then show ?thesis using wf by (auto simp: digest_display_def digest_wf_def)
qed

lemma quoted_visible [simp]: "visible (quoted s) \<longleftrightarrow> visible s"
  by (simp add: quoted_def)

lemma hv_visible [simp]:
  "http_ok W \<Longrightarrow> visible s \<Longrightarrow> hv_str W s = Inr s"
  "http_ok W \<Longrightarrow> visible s \<Longrightarrow> etag_value W s = Inr (quoted s)"
  "http_ok W \<Longrightarrow> visible s \<Longrightarrow> digest_value W s = Inr s"
  "hv_static s = Inr s"
  by (simp_all add: hv_str_def etag_value_def digest_value_def hv_static_def http_ok_def)

lemma header_list_simps [simp]:
  "header_list [] = Inr []"
  "header_list ((k, Inr v) # kvs) = and_then (header_list kvs) (\<lambda>hs. Inr ((k, v) # hs))"
  by (simp_all add: header_list_def)

lemma blob_headers_ok:
  "http_ok W \<Longrightarrow> digest_wf d \<Longrightarrow> blob_headers W (digest_display d) =
     [(DOCKER_CONTENT_DIGEST, Inr (digest_display d)), (''content-type'', Inr ''application/octet-stream''),
      (''accept-ranges'', Inr ''bytes''), (''etag'', Inr (quoted (digest_display d))),
      (''cache-control'', Inr CACHE_IMMUTABLE)]"
  by (simp add: blob_headers_def)

section \<open>A GET delivers the selected bytes\<close>

definition body_bytes :: "body \<Rightarrow> bytes option" where
  "body_bytes b = (case b of StreamBody cs \<Rightarrow> stream_bytes cs | BytesBody bs \<Rightarrow> Some bs
     | EmptyBody \<Rightarrow> Some [] | JsonBody _ \<Rightarrow> None)"

lemma slice_length: "a \<le> b \<Longrightarrow> b < sz \<Longrightarrow> unat (b - a + 1 :: u64) = Suc (unat b - unat a)"
proof -
  assume ab: "a \<le> b" "b < sz"
  have d: "unat (b - a) = unat b - unat a" using ab by (simp add: unat_sub)
  have "unat b < 2 ^ 64 - 1" using ab unat_u64_less [of sz] by (simp add: word_less_nat_alt)
  then have "unat (b - a) + unat (1 :: u64) < 2 ^ 64" unfolding d by simp
  then show ?thesis using unat_add_lem [of "b - a" 1] d by simp
qed

definition file_blob :: "bytes \<Rightarrow> blob_read" where
  "file_blob content = \<lparr>br_size = of_nat (length content), br_source = FileSource content\<rparr>"

lemma file_blob_stream:
  "into_stream (file_blob content) a n = Inr (file_stream content (unat a) (unat n))"
  "redirect_url (file_blob content) = None" "br_size (file_blob content) = of_nat (length content)"
  by (simp_all add: into_stream_def file_blob_def redirect_url_def)

lemma opened_response_file:
  assumes W: "http_ok W" and d: "digest_wf d" and fits: "length content < 2 ^ 64"
  shows "\<exists>resp. opened_response W (digest_display d) headers (file_blob content) = Inr resp \<and>
    (case parse_byte_range W headers (of_nat (length content)) of
       Full \<Rightarrow> resp_status resp = 200 \<and> body_bytes (resp_body resp) = Some content
         \<and> map_of (resp_headers resp) ''content-length'' = Some (show_nat (length content))
     | Partial a b \<Rightarrow> resp_status resp = 206
         \<and> body_bytes (resp_body resp) = Some (take (Suc (unat b - unat a)) (drop (unat a) content))
         \<and> map_of (resp_headers resp) ''content-length'' = Some (show_nat (Suc (unat b - unat a)))
         \<and> map_of (resp_headers resp) ''content-range'' =
             Some (''bytes '' @ show_u64 a @ ''-'' @ show_u64 b @ ''/'' @ show_nat (length content))
     | Unsatisfiable \<Rightarrow> resp_status resp = 416 \<and> resp_body resp = EmptyBody)"
proof -
  let ?n = "of_nat (length content) :: u64"
  have n: "unat ?n = length content" using fits by (simp add: unat_of_nat take_bit_nat_eq_self)
  have hdr: "header_list (blob_headers W (digest_display d) @ kvs) = and_then (header_list kvs) (\<lambda>hs. Inr (
      [(DOCKER_CONTENT_DIGEST, digest_display d), (''content-type'', ''application/octet-stream''),
       (''accept-ranges'', ''bytes''), (''etag'', quoted (digest_display d)), (''cache-control'', CACHE_IMMUTABLE)] @ hs))" for kvs
    using W d by (cases "header_list kvs") (simp_all add: blob_headers_ok)
  show ?thesis
  proof (cases "parse_byte_range W headers ?n")
    case Full
    then show ?thesis
      by (simp add: opened_response_def file_blob_stream respond_stream_def hdr n body_bytes_def
          file_stream_bytes show_u64_def DOCKER_CONTENT_DIGEST_def)
  next
    case (Partial a b)
    note ab = parse_byte_range_bounds [OF Partial]
    have len: "unat (b - a + 1) = Suc (unat b - unat a)" using slice_length ab by blast
    have "unat b < length content" "unat a \<le> unat b"
      using ab n by (simp_all add: word_less_nat_alt word_le_nat_alt)
    then show ?thesis
      using Partial W
      by (simp add: opened_response_def file_blob_stream respond_stream_def hdr n body_bytes_def Let_def
          file_stream_bytes show_u64_def [of "b - a + 1"] show_u64_def [of ?n] len DOCKER_CONTENT_DIGEST_def
          visible_basic(2) [of ?n, unfolded show_u64_def n])
  next
    case Unsatisfiable
    then show ?thesis
      using W by (simp add: opened_response_def file_blob_stream respond_def)
  qed
qed


section \<open>Example\<close>

text \<open>A storage that holds nothing, to be updated with the operations an example needs.\<close>

definition empty_storage :: "'s storage" where
  "empty_storage = \<lparr>blob_size = (\<lambda>r d s. (Inl NotFound, s)), blob_exists = (\<lambda>r d s. (Inr False, s)),
     read_blob = (\<lambda>r d s. (Inl NotFound, s)), open_blob = (\<lambda>r d s. (Inl NotFound, s)),
     begin_upload = (\<lambda>r s. (Inl NotFound, s)), append_upload = (\<lambda>r i b off lim s. (Inl NotFound, s)),
     upload_size = (\<lambda>r i s. (Inl NotFound, s)), abort_upload = (\<lambda>r i s. (Inr False, s)),
     mount_blob = (\<lambda>f t d s. (Inr False, s)), finish_upload = (\<lambda>r i d m b l s. (Inl NotFound, s)),
     put_blob = (\<lambda>r d b s. (Inl NotFound, s)), delete_blob = (\<lambda>r d s. (Inl NotFound, s)),
     put_manifest = (\<lambda>r t d m b l s. (Inl NotFound, s)), get_manifest = (\<lambda>r t s. (Inl NotFound, s)),
     delete_manifest = (\<lambda>r d s. (Inl NotFound, s)), list_tags = (\<lambda>r l n s. (Inr default_page, s)),
     list_referrers = (\<lambda>r d a l n s. (Inr default_page, s))\<rparr>"

definition sample_limits :: limits_config where
  "sample_limits = \<lparr>max_body = 1024, max_upload = 4096, max_manifest = 1024, max_page = 10\<rparr>"

definition sample_app :: "'s storage \<Rightarrow> 's app_state" where
  "sample_app S = \<lparr>app_storage = S, app_limits = sample_limits, app_delete_enabled = True, app_auth = None\<rparr>"

definition sample_digest :: digest where
  "sample_digest = \<lparr>algorithm = ''sha256'', hex = replicate 64 CHR ''a''\<rparr>"

lemma sample_digest_wf: "digest_wf sample_digest"
  by (simp add: digest_wf_def sample_digest_def lower_hex_def list_all_iff ascii_class_defs)


end
