(* ===== verification/Names.thy ===== *)
theory Names
  imports Api_Error
begin

text \<open>
  Validated repository names (\<open>roci-core/src/names.rs\<close>), against the distribution-spec grammar
  \<open>[a-z0-9]+((\.|_|__|-+)[a-z0-9]+)*\<close> for each component.
\<close>

definition MAX_NAME :: nat where
  "MAX_NAME = 255"

definition is_lower_alnum :: "char \<Rightarrow> bool" where
  "is_lower_alnum b \<longleftrightarrow> is_ascii_lowercase b \<or> is_ascii_digit b"

definition is_separator :: "char \<Rightarrow> bool" where
  "is_separator b \<longleftrightarrow> b = CHR ''.'' \<or> b = CHR ''_'' \<or> b = CHR ''-''"

definition valid_separator_run :: "string \<Rightarrow> bool" where
  "valid_separator_run run \<longleftrightarrow>
     (if run = ''.'' then True
      else if run = ''_'' then True
      else if run = ''__'' then True
      else list_all (\<lambda>b. b = CHR ''-'') run)"

lemma separator_not_alnum: "is_separator b \<Longrightarrow> \<not> is_lower_alnum b"
  by (auto simp: is_separator_def is_lower_alnum_def ascii_class_defs)

text \<open>The scan over the component; the argument is the part not scanned yet.\<close>

function validate_scan :: "string \<Rightarrow> api_error + unit" where
  "validate_scan [] = Inr ()"
| "validate_scan (b # bs) =
     (if is_lower_alnum b then validate_scan bs
      else if \<not> valid_separator_run (takeWhile is_separator (b # bs))
        then Inl (name_invalid ''invalid repository name separator'')
      else if dropWhile is_separator (b # bs) = []
              \<or> \<not> is_lower_alnum (hd (dropWhile is_separator (b # bs)))
        then Inl (name_invalid ''separator not followed by [a-z0-9]'')
      else validate_scan (dropWhile is_separator (b # bs)))"
  by pat_completeness auto
termination
  by (relation "measure length") (auto simp: less_Suc_eq_le length_dropWhile_le split: if_splits)

declare validate_scan.simps(2) [simp del]

definition validate_name_component :: "string \<Rightarrow> api_error + unit" where
  "validate_name_component c =
     (if c = [] \<or> c = ''.'' \<or> c = ''..''
      then Inl (name_invalid ''empty or dot repository component'')
      else if \<not> is_lower_alnum (hd c) \<or> \<not> is_lower_alnum (last c)
      then Inl (name_invalid ''repository component must start and end with [a-z0-9]'')
      else validate_scan c)"

definition parse_repository_name :: "string \<Rightarrow> api_error + string" where
  "parse_repository_name s =
     (if s = [] \<or> MAX_NAME < length s
      then Inl (name_invalid ''repository name length out of range'')
      else and_then (collect_results validate_name_component (split_on CHR ''/'' s)) (\<lambda>_. Inr s))"

section \<open>The grammar\<close>

inductive name_separator :: "string \<Rightarrow> bool" where
  "name_separator ''.''"
| "name_separator ''_''"
| "name_separator ''__''"
| "0 < n \<Longrightarrow> name_separator (replicate n CHR ''-'')"

inductive name_component :: "string \<Rightarrow> bool" where
  word: "\<lbrakk>w \<noteq> []; list_all is_lower_alnum w\<rbrakk> \<Longrightarrow> name_component w"
| more: "\<lbrakk>w \<noteq> []; list_all is_lower_alnum w; name_separator run; name_component c\<rbrakk>
         \<Longrightarrow> name_component (w @ run @ c)"

lemma name_separator_iff:
  "name_separator run \<longleftrightarrow> run \<noteq> [] \<and> list_all is_separator run \<and> valid_separator_run run"
proof
  assume "name_separator run"
  then show "run \<noteq> [] \<and> list_all is_separator run \<and> valid_separator_run run"
    by cases (auto simp: is_separator_def valid_separator_run_def list_all_iff)
next
  assume r: "run \<noteq> [] \<and> list_all is_separator run \<and> valid_separator_run run"
  show "name_separator run"
  proof (cases "run \<in> {''.'', ''_'', ''__''}")
    case True
    then show ?thesis by (auto intro: name_separator.intros)
  next
    case False
    with r have "run = replicate (length run) CHR ''-''"
      by (auto simp: valid_separator_run_def list_all_iff intro!: replicate_eqI split: if_splits)
    with r show ?thesis by (metis length_greater_0_conv name_separator.intros(4))
  qed
qed

lemma name_component_hd: "name_component c \<Longrightarrow> c \<noteq> [] \<and> is_lower_alnum (hd c)"
  by (induction rule: name_component.induct) (auto simp: neq_Nil_conv)

lemma name_component_last: "name_component c \<Longrightarrow> is_lower_alnum (last c)"
  by (induction rule: name_component.induct) (auto simp: name_component_hd list_all_iff)

lemma validate_scan_alnum: "list_all is_lower_alnum w \<Longrightarrow> validate_scan (w @ s) = validate_scan s"
  by (induction w) (auto simp: validate_scan.simps)

lemma validate_scan_run:
  assumes "run \<noteq> []" and "list_all is_separator run" and "c = [] \<or> \<not> is_separator (hd c)"
  shows "validate_scan (run @ c) =
    (if \<not> valid_separator_run run then Inl (name_invalid ''invalid repository name separator'')
     else if c = [] \<or> \<not> is_lower_alnum (hd c)
     then Inl (name_invalid ''separator not followed by [a-z0-9]'')
     else validate_scan c)"
proof -
  obtain b bs where run: "run = b # bs" using assms(1) by (cases run) auto
  have "takeWhile is_separator (run @ c) = run" "dropWhile is_separator (run @ c) = c"
    using assms(2,3) by (cases c; simp add: list_all_iff takeWhile_append2 dropWhile_append2)+
  moreover have "\<not> is_lower_alnum b" using assms(2) run separator_not_alnum by auto
  ultimately show ?thesis by (simp add: run validate_scan.simps)
qed

lemma validate_scan_complete: "name_component c \<Longrightarrow> validate_scan c = Inr ()"
proof (induction rule: name_component.induct)
  case (word w)
  then show ?case using validate_scan_alnum [of w "[]"] by simp
next
  case (more w run c)
  then have "\<not> is_separator (hd c)" "c \<noteq> []" "is_lower_alnum (hd c)"
    using name_component_hd separator_not_alnum by auto
  with more show ?case
    by (simp add: validate_scan_alnum validate_scan_run name_separator_iff)
qed

lemma validate_scan_sound:
  "\<lbrakk>validate_scan c = Inr (); c \<noteq> []; is_lower_alnum (hd c)\<rbrakk> \<Longrightarrow> name_component c"
proof (induction "length c" arbitrary: c rule: less_induct)
  case less
  define w where "w = takeWhile is_lower_alnum c"
  define t where "t = dropWhile is_lower_alnum c"
  define run where "run = takeWhile is_separator t"
  define rest where "rest = dropWhile is_separator t"
  have c: "c = w @ t" by (simp add: w_def t_def)
  have w: "w \<noteq> []" "list_all is_lower_alnum w"
    using less.prems(2,3) by (cases c; auto simp: w_def list_all_iff dest: set_takeWhileD)+
  show ?case
  proof (cases "t = []")
    case True
    with w c show ?thesis by (simp add: name_component.word)
  next
    case False
    have t: "t = run @ rest" by (simp add: run_def rest_def)
    have "validate_scan t = Inr ()"
      using less.prems(1) by (simp add: c validate_scan_alnum w)
    moreover have "\<not> is_lower_alnum (hd t)"
      using False by (simp add: t_def hd_dropWhile)
    ultimately have ok: "valid_separator_run run" "rest \<noteq> []" "is_lower_alnum (hd rest)"
        "validate_scan rest = Inr ()"
      using False by (auto simp: run_def rest_def neq_Nil_conv validate_scan.simps(2) split: if_splits)
    have "run \<noteq> []" using ok t \<open>\<not> is_lower_alnum (hd t)\<close> by auto
    then have "name_separator run"
      using ok by (auto simp: name_separator_iff list_all_iff run_def dest: set_takeWhileD)
    moreover have "length rest < length c" using \<open>run \<noteq> []\<close> by (simp add: c t)
    ultimately show ?thesis
      using less.hyps [of rest] ok w by (simp add: c t name_component.more)
  qed
qed

lemma validate_name_component_iff:
  "validate_name_component c = Inr () \<longleftrightarrow> name_component c"
proof -
  have "name_component c \<Longrightarrow> c \<noteq> ''.'' \<and> c \<noteq> ''..''"
    using name_component_hd [of c] by (auto simp: is_lower_alnum_def ascii_class_defs)
  then show ?thesis
    using name_component_hd [of c] name_component_last [of c] validate_scan_complete [of c]
      validate_scan_sound [of c]
    by (auto simp: validate_name_component_def)
qed

lemma collect_validate_iff:
  "is_ok (collect_results validate_name_component cs) \<longleftrightarrow> list_all name_component cs"
proof (induction cs)
  case (Cons c cs)
  show ?case
  proof (cases "validate_name_component c")
    case (Inr u)
    with Cons validate_name_component_iff [of c] show ?thesis
      by (cases "collect_results validate_name_component cs") auto
  next
    case (Inl e)
    with validate_name_component_iff [of c] show ?thesis by auto
  qed
qed simp

lemma parse_repository_name_iff:
  "parse_repository_name s = Inr n \<longleftrightarrow>
     n = s \<and> s \<noteq> [] \<and> length s \<le> 255 \<and> list_all name_component (split_on CHR ''/'' s)"
  using collect_validate_iff [of "split_on CHR ''/'' s"]
  by (cases "collect_results validate_name_component (split_on CHR ''/'' s)")
    (auto simp: parse_repository_name_def MAX_NAME_def not_less)

text \<open>
  (C19) A repository name is accepted exactly when it has 1 to 255 bytes and every
  \<open>/\<close>-separated component belongs to the distribution-spec grammar; the accepted name is returned
  unchanged.
\<close>

theorem repository_name_grammar:
  "parse_repository_name s = Inr n \<longleftrightarrow>
     n = s \<and> 0 < length s \<and> length s \<le> 255 \<and> list_all name_component (split_on CHR ''/'' s)"
  by (simp add: parse_repository_name_iff)

text \<open>What the path builders rely on: no component of a valid name is empty or a dot segment.\<close>

lemma name_component_safe:
  assumes "name_component c"
  shows "c \<noteq> [] \<and> c \<noteq> ''.'' \<and> c \<noteq> ''..'' \<and> CHR ''/'' \<notin> set c \<and> CHR 0x00 \<notin> set c"
proof -
  have "list_all (\<lambda>b. is_lower_alnum b \<or> is_separator b) c"
    using assms by (induction rule: name_component.induct) (auto simp: name_separator_iff list_all_iff)
  then have "CHR ''/'' \<notin> set c \<and> CHR 0x00 \<notin> set c"
    by (auto simp: list_all_iff is_lower_alnum_def is_separator_def ascii_class_defs)
  moreover have "c \<noteq> ''.'' \<and> c \<noteq> ''..''"
    using name_component_hd [OF assms] by (auto simp: is_lower_alnum_def ascii_class_defs)
  ultimately show ?thesis using name_component_hd [OF assms] by simp
qed

lemma parse_repository_name_no_nul:
  assumes "parse_repository_name s = Inr n"
  shows "CHR 0x00 \<notin> set n"
proof -
  have "CHR 0x00 \<notin> set (join_with CHR ''/'' ps)"
    if "list_all name_component ps" for ps
    using that by (induction "CHR ''/''" ps rule: join_with.induct) (auto dest: name_component_safe)
  then show ?thesis
    using assms by (metis parse_repository_name_iff join_split)
qed

end
