(* ===== verification/Uploads.thy ===== *)
theory Uploads
  imports Blobs Names
begin

text \<open>
  Upload sessions (\<open>roci-core/src/uploads.rs\<close>): start with cross-repository mount or a monolithic
  body, PATCH, PUT and status; and the listing endpoints (\<open>roci-core/src/listing.rs\<close>).
\<close>

section \<open>Requests\<close>

record request =
  rq_method :: string
  rq_query :: "string option"
  rq_headers :: header_map
  rq_body :: byte_stream
  rq_principal :: "principal option"

definition principal_of :: "request \<Rightarrow> principal" where
  "principal_of req = (case rq_principal req of Some p \<Rightarrow> p | None \<Rightarrow> Anonymous)"

section \<open>Upload sessions\<close>

definition upload_location :: "string \<Rightarrow> string \<Rightarrow> string" where
  "upload_location repo sid = ''/v2/'' @ repo @ ''/blobs/uploads/'' @ sid"

definition upload_headers :: "http_api \<Rightarrow> string \<Rightarrow> string \<Rightarrow> u64 \<Rightarrow> (string \<times> (handler_error + string)) list" where
  "upload_headers W repo sid received =
     [(''location'', hv_str W (upload_location repo sid)),
      (''range'', hv_str W (''0-'' @ show_u64 (saturating_sub64 received 1)))]"

definition upload_progress :: "http_api \<Rightarrow> nat \<Rightarrow> string \<Rightarrow> string \<Rightarrow> u64 \<Rightarrow> handler_error + response" where
  "upload_progress W status repo sid received =
     respond status (upload_headers W repo sid received @ [(''docker-upload-uuid'', hv_str W sid)]) EmptyBody"

definition source_readable :: "'s app_state \<Rightarrow> request \<Rightarrow> string \<Rightarrow> bool" where
  "source_readable st req from_repo \<longleftrightarrow>
     is_ok (parse_repository_name from_repo)
     \<and> (case app_auth st of None \<Rightarrow> True | Some au \<Rightarrow> allows au (principal_of req) from_repo Pull)"

text \<open>The mount of the first branch: the digest when it succeeded, and the state after it.\<close>

definition try_mount :: "'s app_state \<Rightarrow> string \<Rightarrow> upload_query \<Rightarrow> request \<Rightarrow> 's \<Rightarrow> digest option \<times> 's" where
  "try_mount st repo q req s =
     (case (uq_mount q, uq_from q) of
        (Some mount, Some from_repo) \<Rightarrow>
          (case (source_readable st req from_repo, parse_digest mount) of
             (True, Inr d) \<Rightarrow>
               (case mount_blob (app_storage st) from_repo repo d s of
                  (Inr True, s') \<Rightarrow> (Some d, s')
                | (_, s') \<Rightarrow> (None, s'))
           | _ \<Rightarrow> (None, s))
      | _ \<Rightarrow> (None, s))"

definition monolithic :: "http_api \<Rightarrow> 's app_state \<Rightarrow> string \<Rightarrow> string \<Rightarrow> request \<Rightarrow> ('s, response) handler" where
  "monolithic W st repo digest_text req s =
     (let S = app_storage st in
      case parse_digest digest_text of
        Inl e \<Rightarrow> (Inl (Failed (api_error_from e)), s)
      | Inr d \<Rightarrow>
          hbind (calls api_error_from (begin_upload S repo s)) (\<lambda>sid s.
            let limit = min (of_nat (max_body (app_limits st))) (max_upload (app_limits st));
                stored = (case append_upload S repo sid (rq_body req) None limit s of
                            (Inl e, s) \<Rightarrow> (Inl e, s)
                          | (Inr _, s) \<Rightarrow> finish_upload S repo sid d (max_upload (app_limits st)) [] 0 s)
            in case stored of
                 (Inl e, s) \<Rightarrow> (Inl (Failed (api_error_from e)), snd (abort_upload S repo sid s))
               | (Inr _, s) \<Rightarrow> (created W (blob_location repo d) d, s)))"

definition upload_start :: "http_api \<Rightarrow> 's app_state \<Rightarrow> string \<Rightarrow> upload_query \<Rightarrow> request \<Rightarrow> ('s, response) handler" where
  "upload_start W st repo q req s =
     (case try_mount st repo q req s of
        (Some d, s) \<Rightarrow> (created W (blob_location repo d) d, s)
      | (None, s) \<Rightarrow>
          (case uq_digest q of
             Some digest_text \<Rightarrow> monolithic W st repo digest_text req s
           | None \<Rightarrow>
               hbind (calls api_error_from (begin_upload (app_storage st) repo s)) (\<lambda>sid s.
                 (upload_progress W 202 repo sid 0, s))))"

definition range_start :: "http_api \<Rightarrow> header_map \<Rightarrow> u64 option" where
  "range_start W headers =
     Option.bind (get_header W headers ''content-range'') (\<lambda>v. parse_u64 (str_trim (hd (split_on CHR ''-'' v))))"

definition upload_patch :: "http_api \<Rightarrow> 's app_state \<Rightarrow> string \<Rightarrow> string \<Rightarrow> request \<Rightarrow> ('s, response) handler" where
  "upload_patch W st repo sid req s =
     (let S = app_storage st; limit = of_nat (max_body (app_limits st)) in
      case append_upload S repo sid (rq_body req) (range_start W (rq_headers req)) limit s of
        (Inl (RangeNotSatisfiable expected _), s) \<Rightarrow>
          (respond 416 (upload_headers W repo sid expected) EmptyBody, s)
      | (Inl e, s) \<Rightarrow> (Inl (Failed (api_error_from e)), s)
      | (Inr received, s) \<Rightarrow>
          if max_upload (app_limits st) < received
          then (Inl (Failed (payload_too_large ''upload exceeds maximum blob size'')),
                snd (abort_upload S repo sid s))
          else (upload_progress W 202 repo sid received, s))"

definition upload_finish :: "http_api \<Rightarrow> 's app_state \<Rightarrow> string \<Rightarrow> string \<Rightarrow> upload_query \<Rightarrow> request
    \<Rightarrow> ('s, response) handler" where
  "upload_finish W st repo sid q req s =
     (case uq_digest q of
        None \<Rightarrow> (Inl (Failed (digest_invalid ''missing digest on upload completion'')), s)
      | Some digest_text \<Rightarrow>
          (case parse_digest digest_text of
             Inl e \<Rightarrow> (Inl (Failed (api_error_from e)), s)
           | Inr d \<Rightarrow>
               hbind (calls api_error_from (finish_upload (app_storage st) repo sid d
                        (max_upload (app_limits st)) (rq_body req) (of_nat (max_body (app_limits st))) s)) (\<lambda>_ s.
                 (created W (blob_location repo d) d, s))))"

definition upload_status :: "http_api \<Rightarrow> 's app_state \<Rightarrow> string \<Rightarrow> string \<Rightarrow> ('s, response) handler" where
  "upload_status W st repo sid s =
     hbind (calls api_error_from (upload_size (app_storage st) repo sid s)) (\<lambda>received s.
       (upload_progress W 204 repo sid received, s))"

section \<open>Listings\<close>

definition page_limit :: "nat option \<Rightarrow> nat \<Rightarrow> nat" where
  "page_limit n most = (case n of None \<Rightarrow> most | Some k \<Rightarrow> min k most)"

definition insert_next_link :: "http_api \<Rightarrow> header_map \<Rightarrow> string \<Rightarrow> (string \<times> string) list \<Rightarrow> header_map" where
  "insert_next_link W headers path query =
     (case header_from_str (http_auth W) (''<'' @ path @ ''?'' @ urlencode W query @ ''>; rel='' @ quoted ''next'') of
        Some v \<Rightarrow> AList.update ''link'' v headers
      | None \<Rightarrow> headers)"

definition tags :: "http_api \<Rightarrow> 's app_state \<Rightarrow> string \<Rightarrow> tags_query \<Rightarrow> ('s, response) handler" where
  "tags W st repo q s =
     (let limit = page_limit (tq_n q) (max_page (app_limits st)) in
      hbind (calls api_error_from (list_tags (app_storage st) repo (tq_last q) limit s)) (\<lambda>page s.
        let headers = [(''content-type'', ''application/json'')];
            cursor = (if page_items page = [] then [] else last (page_items page));
            headers = (if page_more page \<and> 0 < limit
                       then insert_next_link W headers (''/v2/'' @ repo @ ''/tags/list'')
                              [(''n'', show_nat limit), (''last'', cursor)]
                       else headers)
        in (Inr \<lparr>resp_status = 200, resp_headers = headers,
                 resp_body = JsonBody (JObject [(''name'', JString repo),
                   (''tags'', JArray (map JString (page_items page)))])\<rparr>, s)))"

definition referrers :: "http_api \<Rightarrow> 's app_state \<Rightarrow> string \<Rightarrow> digest \<Rightarrow> referrers_query \<Rightarrow> 's \<Rightarrow> response \<times> 's" where
  "referrers W st repo subject q s =
     (let limit = page_limit (rq_n q) (max_page (app_limits st));
          filt = rq_artifact_type q in
      case list_referrers (app_storage st) repo subject filt (rq_last q) limit s of (r, s) \<Rightarrow>
      let page = (case r of Inr p \<Rightarrow> p | Inl _ \<Rightarrow> default_page);
          manifests = List.map_filter (\<lambda>(_, bs). from_slice W bs) (page_items page);
          headers = [(''content-type'', MEDIA_TYPE_IMAGE_INDEX)]
            @ (if filt = None then [] else [(''oci-filters-applied'', ''artifactType''), (''vary'', ''Accept'')]);
          cursor = (if page_items page = [] then [] else fst (last (page_items page)));
          headers = (if page_more page \<and> 0 < limit
                     then insert_next_link W headers (''/v2/'' @ repo @ ''/referrers/'' @ digest_display subject)
                            ([(''n'', show_nat limit), (''last'', cursor)]
                             @ (case filt of None \<Rightarrow> [] | Some f \<Rightarrow> [(''artifactType'', f)]))
                     else headers)
      in (\<lparr>resp_status = 200, resp_headers = headers,
           resp_body = JsonBody (JObject [(''manifests'', JArray manifests),
             (''mediaType'', JString MEDIA_TYPE_IMAGE_INDEX), (''schemaVersion'', JNumber (PosInt 2))])\<rparr>, s))"

end
