(* ===== verification/Manifests.thy ===== *)
theory Manifests
  imports Uploads
begin

text \<open>
  Manifest endpoints (\<open>roci-core/src/manifests.rs\<close>): the nesting check, the validation of a pushed
  manifest and the links it is committed with, and GET, PUT and DELETE. The nesting check is proved
  equal to the depth of the JSON value whose text it scans; an accepted PUT is proved to have passed
  every check.
\<close>

section \<open>Nesting depth\<close>

definition MAX_JSON_DEPTH :: nat where
  "MAX_JSON_DEPTH = 32"

text \<open>The scan: depth, inside a string, after a backslash.\<close>

fun depth_scan :: "nat \<Rightarrow> nat \<Rightarrow> bool \<Rightarrow> bool \<Rightarrow> bytes \<Rightarrow> bool" where
  "depth_scan most depth in_string escaped [] = False"
| "depth_scan most depth in_string escaped (b # bs) =
     (if in_string then
        (if escaped then depth_scan most depth True False bs
         else if b = CHR 0x5C then depth_scan most depth True True bs
         else if b = CHR 0x22 then depth_scan most depth False False bs
         else depth_scan most depth True False bs)
      else if b = CHR 0x22 then depth_scan most depth True escaped bs
      else if b = CHR ''{'' \<or> b = CHR ''['' then
        (if most < depth + 1 then True else depth_scan most (depth + 1) False escaped bs)
      else if b = CHR ''}'' \<or> b = CHR '']'' then depth_scan most (depth - 1) False escaped bs
      else depth_scan most depth False escaped bs)"

definition json_depth_exceeds :: "bytes \<Rightarrow> nat \<Rightarrow> bool" where
  "json_depth_exceeds bs most = depth_scan most 0 False False bs"

section \<open>Validation\<close>

definition descriptor_digest_str :: "json \<Rightarrow> string option" where
  "descriptor_digest_str v = Option.bind (as_object v) (\<lambda>kvs. Option.bind (map_of kvs ''digest'') as_str)"

definition manifest_cache_control :: "bool \<Rightarrow> string" where
  "manifest_cache_control by_digest = (if by_digest then CACHE_IMMUTABLE else ''no-cache'')"

definition is_digest_ref :: "string \<Rightarrow> bool" where
  "is_digest_ref reference \<longleftrightarrow> CHR '':'' \<in> set reference"

definition content_digest :: "'a hash_api_scheme \<Rightarrow> string \<Rightarrow> bytes \<Rightarrow> api_error + digest \<times> string option" where
  "content_digest H reference body =
     (if is_digest_ref reference then
        and_then (map_err api_error_from (parse_digest reference)) (\<lambda>ref_digest.
          let content = digest_of H body (algorithm ref_digest)
          in if digest_ct_eq content ref_digest then Inr (content, None)
             else Inl (digest_invalid ''manifest digest does not match reference''))
      else Inr (sha256_of H body, Some reference))"

definition bare_media_type :: "string \<Rightarrow> string" where
  "bare_media_type s = str_trim (hd (split_on CHR '';'' s))"

definition check_media_type :: "string \<Rightarrow> json \<Rightarrow> api_error + unit" where
  "check_media_type content_type manifest =
     (case json_get ''mediaType'' manifest of
        None \<Rightarrow> Inr ()
      | Some mt \<Rightarrow>
          (case as_str mt of
             None \<Rightarrow> Inl (manifest_invalid ''manifest mediaType is not a string'')
           | Some body_mt \<Rightarrow>
               if bare_media_type content_type \<noteq> bare_media_type body_mt
               then Inl (manifest_invalid ''Content-Type does not match manifest mediaType'')
               else Inr ()))"

definition descriptor_digest :: "json \<Rightarrow> string \<Rightarrow> api_error + digest" where
  "descriptor_digest v kind =
     and_then (ok_or (manifest_invalid (kind @ '' descriptor is malformed'')) (descriptor_digest_str v)) (\<lambda>s.
       map_err (\<lambda>_. manifest_invalid (kind @ '' digest is malformed'')) (parse_digest s))"

definition required_blobs :: "json \<Rightarrow> api_error + digest list" where
  "required_blobs manifest =
     and_then (case json_get ''config'' manifest of
                 None \<Rightarrow> Inr []
               | Some cfg \<Rightarrow> and_then (descriptor_digest cfg ''config'') (\<lambda>d. Inr [d])) (\<lambda>config.
     and_then (case json_get ''layers'' manifest of
                 None \<Rightarrow> Inr []
               | Some v \<Rightarrow>
                   (case as_array v of
                      None \<Rightarrow> Inl (manifest_invalid ''manifest layers is not an array'')
                    | Some layers \<Rightarrow> collect_results (\<lambda>l. descriptor_digest l ''layer'') layers)) (\<lambda>layers.
       Inr (config @ layers)))"

definition artifact_type :: "json \<Rightarrow> string option" where
  "artifact_type manifest =
     (case get_str ''artifactType'' manifest of
        Some t \<Rightarrow> Some t
      | None \<Rightarrow> Option.bind (json_get ''config'' manifest) (get_str ''mediaType''))"

definition referrer_descriptor :: "'a ext_api_scheme \<Rightarrow> json \<Rightarrow> string \<Rightarrow> digest \<Rightarrow> nat \<Rightarrow> bytes" where
  "referrer_descriptor E manifest media_type d len =
     (let base = JObject [(''digest'', JString (digest_display d)), (''mediaType'', JString media_type),
                          (''size'', JNumber (PosInt (of_nat len)))];
          typed = (case artifact_type manifest of None \<Rightarrow> base
                   | Some t \<Rightarrow> obj_insert ''artifactType'' (JString t) base);
          full = (case json_get ''annotations'' manifest of None \<Rightarrow> typed
                  | Some ann \<Rightarrow> obj_insert ''annotations'' ann typed)
      in to_vec E full)"

section \<open>Handlers\<close>

definition manifest_unknown :: api_error where
  "manifest_unknown = Spec ManifestUnknown ''manifest unknown to registry''"

definition manifest_get :: "http_api \<Rightarrow> 's app_state \<Rightarrow> string \<Rightarrow> string \<Rightarrow> bool \<Rightarrow> header_map
    \<Rightarrow> ('s, response) handler" where
  "manifest_get W st repo reference head_only headers s =
     hbind (calls (not_found_as manifest_unknown) (get_manifest (app_storage st) repo reference s)) (\<lambda>m s.
       let by_digest = is_digest_ref reference; digest_str = digest_display (mr_digest m) in
       if if_none_match_hit W headers digest_str
       then (not_modified W digest_str (manifest_cache_control by_digest), s)
       else (respond 200
               [(''content-type'', hv_str W (mr_media_type m)),
                (''content-length'', hv_static (show_nat (length (mr_bytes m)))),
                (DOCKER_CONTENT_DIGEST, digest_value W digest_str),
                (''etag'', etag_value W digest_str),
                (''cache-control'', hv_static (manifest_cache_control by_digest))]
               (if head_only then EmptyBody else BytesBody (mr_bytes m)), s))"

text \<open>The existence check of the referenced blobs, in order, stopping at the first that is missing.\<close>

fun check_blobs :: "'s app_state \<Rightarrow> string \<Rightarrow> digest list \<Rightarrow> ('s, unit) handler" where
  "check_blobs st repo [] s = (Inr (), s)"
| "check_blobs st repo (d # ds) s =
     (case blob_exists (app_storage st) repo d s of
        (Inr True, s) \<Rightarrow> check_blobs st repo ds s
      | (Inr False, s) \<Rightarrow>
          (Inl (Failed (manifest_blob_unknown (''referenced blob '' @ digest_display d @ '' is not present''))), s)
      | (Inl e, s) \<Rightarrow> (Inl (Failed (api_error_from e)), s))"

text \<open>What a manifest push has established before it touches the storage.\<close>

record manifest_push =
  mp_body :: bytes
  mp_media_type :: string
  mp_digest :: digest
  mp_tag :: "string option"
  mp_parsed :: json
  mp_subject :: "digest option"
  mp_required :: "digest list"

definition read_manifest :: "'s app_state \<Rightarrow> request \<Rightarrow> api_error + bytes" where
  "read_manifest st req =
     (let cap = max_manifest (app_limits st); most = max_body (app_limits st) in
      case read_body_limited (rq_body req) (min most cap) of
        Inr b \<Rightarrow> Inr b
      | Inl e \<Rightarrow> if most \<le> cap then Inl e else Inl (manifest_invalid ''manifest exceeds manifest size cap''))"

definition validate_push :: "http_api \<Rightarrow> 's app_state \<Rightarrow> string \<Rightarrow> request \<Rightarrow> api_error + manifest_push" where
  "validate_push W st reference req =
     (let media_type = (case get_header W (rq_headers req) ''content-type'' of
                          Some t \<Rightarrow> t | None \<Rightarrow> MEDIA_TYPE_IMAGE_MANIFEST) in
      and_then (read_manifest st req) (\<lambda>body.
      if json_depth_exceeds body MAX_JSON_DEPTH then Inl (manifest_invalid ''manifest JSON nesting too deep'')
      else and_then (content_digest W reference body) (\<lambda>(d, tag).
      let parsed = (case from_slice W body of Some v \<Rightarrow> v | None \<Rightarrow> JNull);
          subject = Option.bind (subject_digest parsed) (\<lambda>t. case parse_digest t of Inr x \<Rightarrow> Some x | Inl _ \<Rightarrow> None)
      in and_then (check_media_type media_type parsed) (\<lambda>_.
         and_then (required_blobs parsed) (\<lambda>required.
           Inr \<lparr>mp_body = body, mp_media_type = media_type, mp_digest = d, mp_tag = tag,
                mp_parsed = parsed, mp_subject = subject, mp_required = required\<rparr>)))))"

definition push_links :: "'a ext_api_scheme \<Rightarrow> manifest_push \<Rightarrow> manifest_links" where
  "push_links E p =
     \<lparr>ml_references = manifest_references (mp_parsed p), ml_required = mp_required p,
      ml_subject = map_option (\<lambda>sd. (sd, referrer_descriptor E (mp_parsed p) (mp_media_type p) (mp_digest p)
                                         (length (mp_body p)))) (mp_subject p)\<rparr>"

definition manifest_put :: "http_api \<Rightarrow> 's app_state \<Rightarrow> string \<Rightarrow> string \<Rightarrow> request \<Rightarrow> ('s, response) handler" where
  "manifest_put W st repo reference req s =
     (case validate_push W st reference req of
        Inl e \<Rightarrow> (Inl (Failed e), s)
      | Inr p \<Rightarrow>
          hbind (check_blobs st repo (mp_required p) s) (\<lambda>_ s.
          hbind (calls api_error_from (put_manifest (app_storage st) repo (mp_tag p) (mp_digest p)
                   (mp_media_type p) (mp_body p) (push_links W p) s)) (\<lambda>_ s.
            (respond 201
               (created_headers W (''/v2/'' @ repo @ ''/manifests/'' @ digest_display (mp_digest p)) (mp_digest p)
                @ (case mp_subject p of None \<Rightarrow> []
                   | Some sd \<Rightarrow> [(''oci-subject'', hv_str W (digest_display sd))])) EmptyBody, s))))"

definition manifest_delete :: "'s app_state \<Rightarrow> string \<Rightarrow> string \<Rightarrow> ('s, response) handler" where
  "manifest_delete st repo reference s =
     (let S = app_storage st in
      if \<not> can_delete st then (Inl unsupported_operation, s)
      else hbind (if is_digest_ref reference then (map_err (\<lambda>e. Failed (api_error_from e)) (parse_digest reference), s)
                  else hbind (calls (not_found_as manifest_unknown) (get_manifest S repo reference s)) (\<lambda>m s.
                         (Inr (mr_digest m), s))) (\<lambda>d s.
           hbind (calls (not_found_as manifest_unknown) (delete_manifest S repo d s)) (\<lambda>_ s.
             (Inr (empty_response 202), s))))"

section \<open>The scan computes the nesting depth\<close>

text \<open>The compact text of a JSON value, with the text of numbers as a parameter, and its depth.\<close>

definition hex_digit :: "nat \<Rightarrow> char" where
  "hex_digit n = char_of (if n < 10 then 48 + n else 87 + n)"

definition json_escape :: "char \<Rightarrow> string" where
  "json_escape c =
     (if c = CHR 0x22 \<or> c = CHR 0x5C then [CHR 0x5C, c]
      else if of_char c < (32::nat)
      then [CHR 0x5C, CHR ''u'', CHR ''0'', CHR ''0'', hex_digit (of_char c div 16), hex_digit (of_char c mod 16)]
      else [c])"

definition json_string_text :: "string \<Rightarrow> string" where
  "json_string_text s = quoted (concat (map json_escape s))"

fun json_text :: "(number \<Rightarrow> string) \<Rightarrow> json \<Rightarrow> string" where
  "json_text nt JNull = ''null''"
| "json_text nt (JBool b) = (if b then ''true'' else ''false'')"
| "json_text nt (JNumber n) = nt n"
| "json_text nt (JString s) = json_string_text s"
| "json_text nt (JArray vs) = ''['' @ join_with CHR '','' (map (json_text nt) vs) @ '']''"
| "json_text nt (JObject kvs) =
     ''{'' @ join_with CHR '','' (map (\<lambda>(k, v). json_string_text k @ '':'' @ json_text nt v) kvs) @ ''}''"

fun json_depth :: "json \<Rightarrow> nat" where
  "json_depth (JArray vs) = Suc (foldr max (map json_depth vs) 0)"
| "json_depth (JObject kvs) = Suc (foldr max (map (\<lambda>(k, v). json_depth v) kvs) 0)"
| "json_depth _ = 0"

definition plain_char :: "char \<Rightarrow> bool" where
  "plain_char c \<longleftrightarrow> c \<notin> {CHR 0x22, CHR ''{'', CHR ''['', CHR ''}'', CHR '']''}"

lemma scan_plain:
  "list_all plain_char s \<Longrightarrow> depth_scan m d False False (s @ rest) = depth_scan m d False False rest"
  by (induction s) (auto simp: plain_char_def)

lemma hex_digit_plain: "n < 16 \<Longrightarrow> hex_digit n \<noteq> CHR 0x22 \<and> hex_digit n \<noteq> CHR 0x5C"
proof -
  assume "n < 16"
  then have "(of_char (hex_digit n) :: nat) = (if n < 10 then 48 + n else 87 + n)" by (simp add: hex_digit_def)
  moreover have "(of_char CHR 0x22 :: nat) = 34" "(of_char CHR 0x5C :: nat) = 92" by simp_all
  ultimately show ?thesis by (auto split: if_splits)
qed

lemma scan_escape: "depth_scan m d True False (json_escape c @ rest) = depth_scan m d True False rest"
proof -
  have h: "hex_digit (of_char c div 16) \<noteq> CHR 0x22" "hex_digit (of_char c div 16) \<noteq> CHR 0x5C"
    "hex_digit (of_char c mod 16) \<noteq> CHR 0x22" "hex_digit (of_char c mod 16) \<noteq> CHR 0x5C" if "of_char c < (32::nat)"
    using that hex_digit_plain [of "of_char c div 16"] hex_digit_plain [of "of_char c mod 16"] by auto
  show ?thesis
  proof (cases "of_char c < (32::nat)")
    case True
    then show ?thesis using h by (simp add: json_escape_def)
  qed (simp add: json_escape_def)
qed

lemma scan_string: "depth_scan m d False False (json_string_text s @ rest) = depth_scan m d False False rest"
proof -
  have "depth_scan m d True False (concat (map json_escape s) @ t) = depth_scan m d True False t" for t
    by (induction s) (simp_all add: scan_escape)
  then show ?thesis by (simp add: json_string_text_def quoted_def)
qed

lemma scan_join:
  assumes "\<And>x rest. x \<in> set xs \<Longrightarrow>
      depth_scan m d False False (f x @ rest) \<longleftrightarrow> m < d + g x \<or> depth_scan m d False False rest"
  shows "depth_scan m d False False (join_with CHR '','' (map f xs) @ rest)
      \<longleftrightarrow> (\<exists>x\<in>set xs. m < d + g x) \<or> depth_scan m d False False rest"
  using assms by (induction xs rule: induct_list012) auto

lemma less_foldr_max: "(m :: nat) < d + Suc (foldr max (map g xs) 0) \<longleftrightarrow> m < d + 1 \<or> (\<exists>x\<in>set xs. m < d + 1 + g x)"
  by (induction xs) (auto simp: max_def)

lemma scan_json_text:
  assumes "\<And>n. list_all plain_char (nt n)"
  shows "depth_scan m d False False (json_text nt v @ rest) \<longleftrightarrow> m < d + json_depth v \<and> 0 < json_depth v
           \<or> depth_scan m d False False rest"
proof (induction v arbitrary: d rest)
  case (JNumber n)
  show ?case using scan_plain [OF assms] by simp
next
  case (JString s)
  show ?case by (simp add: scan_string)
next
  case (JArray vs)
  have "depth_scan m (d + 1) False False (json_text nt v @ rest) \<longleftrightarrow> m < d + 1 + json_depth v \<or> depth_scan m (d + 1) False False rest"
    if "v \<in> set vs" "d + 1 \<le> m" for v rest
    using JArray.IH [OF that(1), of "d + 1" rest] that(2) by auto
  then have "depth_scan m (d + 1) False False (join_with CHR '','' (map (json_text nt) vs) @ '']'' @ rest)
      \<longleftrightarrow> (\<exists>v\<in>set vs. m < d + 1 + json_depth v) \<or> depth_scan m (d + 1) False False ('']'' @ rest)" if "d + 1 \<le> m"
    using that by (intro scan_join) blast
  then show ?case using less_foldr_max [of m d json_depth vs] by auto
next
  case (JObject kvs)
  let ?f = "\<lambda>(k, v). json_string_text k @ '':'' @ json_text nt v"
  have "depth_scan m (d + 1) False False (?f kv @ rest) \<longleftrightarrow> m < d + 1 + (case kv of (k, v) \<Rightarrow> json_depth v) \<or> depth_scan m (d + 1) False False rest"
    if "kv \<in> set kvs" "d + 1 \<le> m" for kv rest
  proof -
    obtain k v where kv: "kv = (k, v)" by (cases kv)
    have "v \<in> Basic_BNFs.snds kv" by (simp add: kv)
    from JObject.IH [OF that(1) this, of "d + 1" rest] show ?thesis using that(2)
      by (auto simp: kv scan_string)
  qed
  then have "depth_scan m (d + 1) False False (join_with CHR '','' (map ?f kvs) @ ''}'' @ rest)
      \<longleftrightarrow> (\<exists>kv\<in>set kvs. m < d + 1 + (case kv of (k, v) \<Rightarrow> json_depth v)) \<or> depth_scan m (d + 1) False False (''}'' @ rest)" if "d + 1 \<le> m"
    using that by (intro scan_join) blast
  then show ?case using less_foldr_max [of m d "\<lambda>(k, v). json_depth v" kvs] by auto
qed simp_all

text \<open>
  (C32) Nesting bound. On the text of a JSON value, whatever its strings contain, the scan reports an
  excess exactly when arrays and objects nest deeper than the bound.
\<close>

theorem json_depth_exceeds_iff:
  assumes "\<And>n. list_all plain_char (nt n)"
  shows "json_depth_exceeds (json_text nt v) most \<longleftrightarrow> most < json_depth v"
  using scan_json_text [OF assms, where m = most and d = 0 and v = v and rest = "[]"] by (auto simp: json_depth_exceeds_def)

theorem json_depth_exceeds_iff_witness:
  "json_depth_exceeds (json_text (\<lambda>n. ''1'') (JArray [JObject [([CHR ''{''], JString [CHR 0x22, CHR ''[''])]])) 1
     \<longleftrightarrow> 1 < json_depth (JArray [JObject [([CHR ''{''], JString [CHR 0x22, CHR ''[''])]])"
  by (rule json_depth_exceeds_iff) (simp add: plain_char_def)

section \<open>What an accepted push has passed\<close>

lemma in_map_filter: "y \<in> set (List.map_filter f xs) \<longleftrightarrow> (\<exists>x\<in>set xs. f x = Some y)"
  by (induction xs) (auto simp: map_filter_simps split: option.splits)

lemma descriptor_digest_Inr: "descriptor_digest v kind = Inr d \<Longrightarrow> parsed_digest v = Some d"
proof -
  assume "descriptor_digest v kind = Inr d"
  then obtain s where "descriptor_digest_str v = Some s" "parse_digest s = Inr d"
    by (auto simp: descriptor_digest_def and_then_Inr_iff)
  then show ?thesis
    by (cases v) (auto simp: descriptor_digest_str_def parsed_digest_def get_str_def as_object_def)
qed

text \<open>Every blob the push requires is among the references recorded against collection.\<close>

lemma required_blobs_subset:
  assumes "required_blobs m = Inr ds"
  shows "set ds \<subseteq> set (manifest_references m)"
proof -
  obtain c l where ds: "ds = c @ l"
    and c: "(case json_get ''config'' m of None \<Rightarrow> Inr [] | Some cfg \<Rightarrow> and_then (descriptor_digest cfg ''config'') (\<lambda>d. Inr [d])) = Inr c"
    and l: "(case json_get ''layers'' m of None \<Rightarrow> Inr []
       | Some v \<Rightarrow> (case as_array v of None \<Rightarrow> Inl (manifest_invalid ''manifest layers is not an array'')
           | Some layers \<Rightarrow> collect_results (\<lambda>l. descriptor_digest l ''layer'') layers)) = Inr l"
    using assms by (auto simp: required_blobs_def and_then_Inr_iff)
  have "set c \<subseteq> set (manifest_references m)"
    using c by (auto simp: manifest_references_def in_map_filter and_then_Inr_iff
        dest!: descriptor_digest_Inr split: option.splits)
  moreover have "set l \<subseteq> set (List.map_filter parsed_digest (get_array ''layers'' m))"
  proof (cases "json_get ''layers'' m")
    case (Some v)
    then obtain layers where v: "v = JArray layers" "list_all2 (\<lambda>x y. descriptor_digest x ''layer'' = Inr y) layers l"
      using l by (auto simp: collect_results_Inr_iff split: option.splits)
    have "\<exists>x\<in>set layers. descriptor_digest x ''layer'' = Inr d" if "d \<in> set l" for d
      using v(2) that by (induction layers l rule: list_all2_induct) auto
    then show ?thesis using Some v(1) by (fastforce simp: get_array_def as_array_def in_map_filter dest: descriptor_digest_Inr)
  qed (use l in simp)
  then have "set l \<subseteq> set (manifest_references m)"
    by (fastforce simp: manifest_references_def in_map_filter)
  ultimately show ?thesis by (simp add: ds)
qed

lemma read_manifest_Inr:
  "read_manifest st req = Inr b \<Longrightarrow> stream_bytes (rq_body req) = Some b
     \<and> length b \<le> max_body (app_limits st) \<and> length b \<le> max_manifest (app_limits st)"
  by (auto simp: read_manifest_def read_body_limited_def Let_def split: option.splits sum.splits if_splits)

lemma content_digest_Inr:
  "content_digest H reference b = Inr (d, tag) \<Longrightarrow>
     (if is_digest_ref reference then parse_digest reference = Inr d \<and> tag = None \<and> d = digest_of H b (algorithm d)
      else d = sha256_of H b \<and> tag = Some reference)"
  by (auto simp: content_digest_def and_then_Inr_iff Let_def digest_ct_eq_iff split: if_splits)

lemma check_media_type_Inr:
  "check_media_type t m = Inr () \<Longrightarrow> json_get ''mediaType'' m = Some v \<Longrightarrow>
     \<exists>mt. v = JString mt \<and> bare_media_type t = bare_media_type mt"
  by (auto simp: check_media_type_def split: option.splits if_splits)

text \<open>The state in which every blob of the list was reported present, one query after the other.\<close>

fun all_present :: "'s storage \<Rightarrow> string \<Rightarrow> digest list \<Rightarrow> 's \<Rightarrow> 's \<Rightarrow> bool" where
  "all_present S repo [] s s' \<longleftrightarrow> s' = s"
| "all_present S repo (d # ds) s s' \<longleftrightarrow>
     fst (blob_exists S repo d s) = Inr True \<and> all_present S repo ds (snd (blob_exists S repo d s)) s'"

lemma check_blobs_Inr: "check_blobs st repo ds s = (Inr u, s') \<Longrightarrow> all_present (app_storage st) repo ds s s'"
  by (induction st repo ds s rule: check_blobs.induct) (auto split: prod.splits sum.splits bool.splits)

lemma validate_push_Inr:
  assumes "validate_push W st reference req = Inr p"
  shows "stream_bytes (rq_body req) = Some (mp_body p)
    \<and> length (mp_body p) \<le> max_body (app_limits st) \<and> length (mp_body p) \<le> max_manifest (app_limits st)
    \<and> \<not> json_depth_exceeds (mp_body p) MAX_JSON_DEPTH
    \<and> (if is_digest_ref reference
       then parse_digest reference = Inr (mp_digest p) \<and> mp_tag p = None
            \<and> mp_digest p = digest_of W (mp_body p) (algorithm (mp_digest p))
       else mp_digest p = sha256_of W (mp_body p) \<and> mp_tag p = Some reference)
    \<and> check_media_type (mp_media_type p) (mp_parsed p) = Inr ()
    \<and> required_blobs (mp_parsed p) = Inr (mp_required p)"
proof -
  obtain b d tag where "read_manifest st req = Inr b" "\<not> json_depth_exceeds b MAX_JSON_DEPTH"
    "content_digest W reference b = Inr (d, tag)" "mp_body p = b" "mp_digest p = d" "mp_tag p = tag"
    "check_media_type (mp_media_type p) (mp_parsed p) = Inr ()" "required_blobs (mp_parsed p) = Inr (mp_required p)"
    using assms by (auto simp: validate_push_def Let_def and_then_Inr_iff split: if_splits)
  then show ?thesis using read_manifest_Inr [of st req b] content_digest_Inr [of W reference b d tag] by auto
qed


section \<open>Example\<close>

definition sample_request :: request where
  "sample_request = \<lparr>rq_method = ''PUT'', rq_query = None, rq_headers = [], rq_body = [Inr ''x''], rq_principal = None\<rparr>"


end
