(* ===== verification/Routes.thy ===== *)
theory Routes
  imports Manifests
begin

text \<open>
  Path parsing and dispatch (\<open>roci-core/src/routes.rs\<close>) and the service around it
  (\<open>roci-core/src/lib.rs\<close>): every handler runs behind the authorization of the action its route
  requires.
\<close>

section \<open>Paths\<close>

datatype parsed =
    PBlob string digest
  | PManifest string string
  | PUploadStart string
  | PUploadSession string string
  | PTagsList string
  | PReferrers string digest
  | PUnknown

definition checked_repo :: "string list \<Rightarrow> api_error + string" where
  "checked_repo segs =
     (let repo = join_with CHR ''/'' segs in and_then (parse_repository_name repo) (\<lambda>_. Inr repo))"

definition parse_path :: "string \<Rightarrow> api_error + parsed" where
  "parse_path rest =
     (let segments = split_on CHR ''/'' rest; n = length segments in
      if n < 2 then Inr PUnknown
      else if 3 \<le> n \<and> segments ! (n - 3) = ''blobs'' \<and> segments ! (n - 2) = ''uploads'' then
        and_then (checked_repo (take (n - 3) segments)) (\<lambda>repo.
          let sid = segments ! (n - 1)
          in Inr (if sid = [] then PUploadStart repo else PUploadSession repo sid))
      else if segments ! (n - 2) = ''blobs'' \<and> segments ! (n - 1) = ''uploads'' then
        and_then (checked_repo (take (n - 2) segments)) (\<lambda>repo. Inr (PUploadStart repo))
      else if segments ! (n - 2) = ''blobs'' then
        and_then (checked_repo (take (n - 2) segments)) (\<lambda>repo.
        and_then (map_err api_error_from (parse_digest (segments ! (n - 1)))) (\<lambda>d. Inr (PBlob repo d)))
      else if segments ! (n - 2) = ''manifests'' then
        and_then (checked_repo (take (n - 2) segments)) (\<lambda>repo. Inr (PManifest repo (segments ! (n - 1))))
      else if segments ! (n - 2) = ''tags'' \<and> segments ! (n - 1) = ''list'' then
        and_then (checked_repo (take (n - 2) segments)) (\<lambda>repo. Inr (PTagsList repo))
      else if segments ! (n - 2) = ''referrers'' then
        and_then (checked_repo (take (n - 2) segments)) (\<lambda>repo.
        and_then (map_err api_error_from (parse_digest (segments ! (n - 1)))) (\<lambda>d. Inr (PReferrers repo d)))
      else Inr PUnknown)"

definition get_base :: response where
  "get_base = \<lparr>resp_status = 200, resp_headers = [(''content-type'', ''application/json'')],
     resp_body = JsonBody (JObject [])\<rparr>"

text \<open>The query string decoded into a record, its default when absent or malformed.\<close>

definition query :: "(string \<Rightarrow> 'q option) \<Rightarrow> 'q \<Rightarrow> request \<Rightarrow> 'q" where
  "query decode dflt req =
     (case decode (case rq_query req of Some q \<Rightarrow> q | None \<Rightarrow> []) of Some x \<Rightarrow> x | None \<Rightarrow> dflt)"

section \<open>Dispatch\<close>

definition required_action :: "string \<Rightarrow> parsed \<Rightarrow> (string \<times> action) option" where
  "required_action verb p =
     (case p of
        PBlob repo _ \<Rightarrow>
          if verb \<in> {''GET'', ''HEAD''} then Some (repo, Pull)
          else if verb = ''DELETE'' then Some (repo, Delete) else None
      | PManifest repo _ \<Rightarrow>
          if verb \<in> {''GET'', ''HEAD''} then Some (repo, Pull)
          else if verb = ''PUT'' then Some (repo, Push)
          else if verb = ''DELETE'' then Some (repo, Delete) else None
      | PTagsList repo \<Rightarrow> if verb = ''GET'' then Some (repo, Pull) else None
      | PReferrers repo _ \<Rightarrow> if verb = ''GET'' then Some (repo, Pull) else None
      | PUploadStart repo \<Rightarrow> if verb = ''POST'' then Some (repo, Push) else None
      | PUploadSession repo _ \<Rightarrow> if verb \<in> {''GET'', ''PATCH'', ''PUT''} then Some (repo, Push) else None
      | PUnknown \<Rightarrow> None)"

definition name_unknown :: handler_error where
  "name_unknown = Failed (Spec NameUnknown ''repository name not known to registry'')"

definition run_handler :: "http_api \<Rightarrow> 's app_state \<Rightarrow> parsed \<Rightarrow> request \<Rightarrow> ('s, response) handler" where
  "run_handler W st p req s =
     (let verb = rq_method req; headers = rq_headers req in
      case p of
        PBlob repo d \<Rightarrow>
          if verb = ''GET'' then blob_get W st repo d False headers s
          else if verb = ''HEAD'' then blob_get W st repo d True headers s
          else if verb = ''DELETE'' then blob_delete st repo d s
          else (Inl name_unknown, s)
      | PManifest repo reference \<Rightarrow>
          if verb = ''GET'' \<or> verb = ''HEAD'' then manifest_get W st repo reference (verb = ''HEAD'') headers s
          else if verb = ''PUT'' then manifest_put W st repo reference req s
          else if verb = ''DELETE'' then manifest_delete st repo reference s
          else (Inl name_unknown, s)
      | PTagsList repo \<Rightarrow>
          if verb = ''GET'' then tags W st repo (query (tags_query_of W) \<lparr>tq_n = None, tq_last = None\<rparr> req) s
          else (Inl name_unknown, s)
      | PReferrers repo d \<Rightarrow>
          if verb = ''GET'' then
            (case referrers W st repo d
                    (query (referrers_query_of W) \<lparr>rq_artifact_type = None, rq_n = None, rq_last = None\<rparr> req) s of
               (resp, s) \<Rightarrow> (Inr resp, s))
          else (Inl name_unknown, s)
      | PUploadSession repo sid \<Rightarrow>
          if verb = ''GET'' then upload_status W st repo sid s
          else if verb = ''PUT'' then
            upload_finish W st repo sid
              (query (upload_query_of W) \<lparr>uq_digest = None, uq_mount = None, uq_from = None\<rparr> req) req s
          else if verb = ''PATCH'' then upload_patch W st repo sid req s
          else (Inl name_unknown, s)
      | PUploadStart repo \<Rightarrow>
          if verb = ''POST'' then
            upload_start W st repo
              (query (upload_query_of W) \<lparr>uq_digest = None, uq_mount = None, uq_from = None\<rparr> req) req s
          else (Inl name_unknown, s)
      | PUnknown \<Rightarrow> (Inl name_unknown, s))"

definition dispatch :: "http_api \<Rightarrow> 's app_state \<Rightarrow> string \<Rightarrow> request \<Rightarrow> ('s, response) handler" where
  "dispatch W st rest req s =
     (case parse_path rest of
        Inl e \<Rightarrow> (Inl (Failed e), s)
      | Inr p \<Rightarrow>
          (case (app_auth st, required_action (rq_method req) p) of
             (Some au, Some (repo, a)) \<Rightarrow>
               (case authorize (http_auth W) au (principal_of req) repo a of
                  Inl e \<Rightarrow> (Inl (Failed e), s)
                | Inr _ \<Rightarrow> run_handler W st p req s)
           | _ \<Rightarrow> run_handler W st p req s))"

text \<open>The endpoint label of a path, for metrics.\<close>

definition classify_endpoint :: "string \<Rightarrow> string" where
  "classify_endpoint path =
     (if path = ''/livez'' \<or> path = ''/readyz'' then ''health''
      else if path = ''/v2/'' \<or> path = ''/v2'' then ''base''
      else case strip_prefix ''/v2/'' path of
        None \<Rightarrow> ''other''
      | Some rest \<Rightarrow>
          let segs = split_on CHR ''/'' rest; n = length segs in
          if 3 \<le> n \<and> segs ! (n - 3) = ''blobs'' \<and> segs ! (n - 2) = ''uploads'' then ''uploads''
          else if 2 \<le> n \<and> segs ! (n - 2) = ''blobs'' \<and> segs ! (n - 1) = ''uploads'' then ''uploads''
          else if 2 \<le> n \<and> segs ! (n - 2) \<in> {''blobs'', ''manifests'', ''tags'', ''referrers''} then segs ! (n - 2)
          else ''other'')"

text \<open>\<open>/readyz\<close>: recovery done and the storage check answered in time.\<close>

datatype ready_probe = ReadyOk | ReadyErr storage_error | ReadyTimeout

definition readyz :: "bool \<Rightarrow> ready_probe \<Rightarrow> response" where
  "readyz recovered probe =
     (if \<not> recovered then
        \<lparr>resp_status = 503, resp_headers = [(''content-type'', ''text/plain; charset=utf-8'')],
         resp_body = BytesBody ''not ready: recovery in progress''\<rparr>
      else case probe of
        ReadyOk \<Rightarrow> \<lparr>resp_status = 200, resp_headers = [(''content-type'', ''text/plain; charset=utf-8'')],
                    resp_body = BytesBody ''ok''\<rparr>
      | _ \<Rightarrow> \<lparr>resp_status = 503, resp_headers = [(''content-type'', ''text/plain; charset=utf-8'')],
              resp_body = BytesBody ''not ready: storage unavailable''\<rparr>)"

section \<open>Authorization comes first\<close>

lemma run_handler_unrouted:
  "required_action (rq_method req) p = None \<Longrightarrow> run_handler W st p req s = (Inl name_unknown, s)"
  by (auto simp: required_action_def run_handler_def Let_def split: parsed.splits if_splits)

text \<open>
  (C29) Authorization before storage. With authentication configured, a request whose principal does
  not hold the action its route requires is refused with an error that does not depend on the
  storage at all, and the state is untouched; a request that no route serves changes nothing either.
\<close>

theorem dispatch_guarded:
  assumes "app_auth st = Some au"
    and "\<And>p repo a. parse_path rest = Inr p \<Longrightarrow> required_action (rq_method req) p = Some (repo, a)
           \<Longrightarrow> \<not> allows au (principal_of req) repo a"
  shows "\<exists>e. \<forall>S. dispatch W (st\<lparr>app_storage := S\<rparr>) rest req s = (Inl (Failed e), s)"
proof (cases "parse_path rest")
  case (Inl e)
  then show ?thesis by (simp add: dispatch_def)
next
  case (Inr p)
  show ?thesis
  proof (cases "required_action (rq_method req) p")
    case None
    then show ?thesis
      using assms(1) by (simp add: dispatch_def Inr run_handler_unrouted name_unknown_def)
  next
    case (Some ra)
    then obtain repo a where ra: "required_action (rq_method req) p = Some (repo, a)" by (cases ra) auto
    then have "\<not> allows au (principal_of req) repo a" using assms(2) Inr by blast
    then obtain e where "authorize (http_auth W) au (principal_of req) repo a = Inl e"
      by (cases "authorize (http_auth W) au (principal_of req) repo a") (auto simp: authorize_def split: if_splits)
    then show ?thesis using assms(1) by (simp add: dispatch_def Inr ra)
  qed
qed

section \<open>Paths are validated and parse back\<close>

lemma checked_repo_Inr: "checked_repo segs = Inr repo \<Longrightarrow> parse_repository_name repo = Inr repo"
  by (auto simp: checked_repo_def Let_def and_then_Inr_iff parse_repository_name_iff)

text \<open>
  (C34) Every path that reaches a handler names a repository of the name grammar and, where it carries
  a digest, a well-formed one.
\<close>

theorem parse_path_valid:
  assumes "parse_path rest = Inr p"
  shows "case p of
      PBlob repo d \<Rightarrow> parse_repository_name repo = Inr repo \<and> digest_wf d
    | PReferrers repo d \<Rightarrow> parse_repository_name repo = Inr repo \<and> digest_wf d
    | PManifest repo _ \<Rightarrow> parse_repository_name repo = Inr repo
    | PUploadStart repo \<Rightarrow> parse_repository_name repo = Inr repo
    | PUploadSession repo sid \<Rightarrow> parse_repository_name repo = Inr repo \<and> sid \<noteq> [] \<and> CHR ''/'' \<notin> set sid
    | PTagsList repo \<Rightarrow> parse_repository_name repo = Inr repo
    | PUnknown \<Rightarrow> True"
proof -
  have "segs ! i \<in> set segs" if "2 \<le> length segs" "i = length segs - 1" for segs :: "string list" and i
    using that by (intro nth_mem) linarith
  then have "CHR ''/'' \<notin> set (split_on CHR ''/'' rest ! (length (split_on CHR ''/'' rest) - 1))"
    if "2 \<le> length (split_on CHR ''/'' rest)" using split_on_no_sep that by blast
  then show ?thesis
    using assms unfolding parse_path_def Let_def
    by (auto simp: and_then_Inr_iff not_less dest!: checked_repo_Inr parse_digest_wf split: if_splits)
qed

lemma split_on_sep: "split_on c (s @ c # t) = split_on c s @ split_on c t"
proof (induction c s rule: split_on.induct)
  case (2 c x s)
  then show ?case by (cases "split_on c s") auto
qed simp

lemma checked_repo_split: "parse_repository_name repo = Inr repo \<Longrightarrow> checked_repo (split_on CHR ''/'' repo) = Inr repo"
  by (simp add: checked_repo_def)

lemma parse_two:
  assumes "CHR ''/'' \<notin> set b" "CHR ''/'' \<notin> set c"
  shows "split_on CHR ''/'' (repo @ ''/'' @ b @ ''/'' @ c) = split_on CHR ''/'' repo @ [b, c]"
  using assms by (simp add: split_on_sep split_on_append split_on_single)

lemma digest_no_slash: "digest_wf d \<Longrightarrow> CHR ''/'' \<notin> set (digest_display d) \<and> digest_display d \<noteq> ''uploads''"
  by (auto simp: digest_wf_def digest_display_def lower_hex_def list_all_iff ascii_class_defs)

text \<open>
  (C33) Addresses parse back. For a valid repository name, the path of every endpoint, and with it
  every Location the registry hands out, is parsed back to that endpoint, whatever the repository
  name contains.
\<close>

theorem paths_parse_back:
  assumes "parse_repository_name repo = Inr repo" and "digest_wf d"
    and "CHR ''/'' \<notin> set reference" and "CHR ''/'' \<notin> set sid" and "sid \<noteq> []"
  shows "parse_path (repo @ ''/blobs/'' @ digest_display d) = Inr (PBlob repo d)
    \<and> parse_path (repo @ ''/manifests/'' @ reference) = Inr (PManifest repo reference)
    \<and> parse_path (repo @ ''/blobs/uploads/'') = Inr (PUploadStart repo)
    \<and> parse_path (repo @ ''/blobs/uploads/'' @ sid) = Inr (PUploadSession repo sid)
    \<and> parse_path (repo @ ''/tags/list'') = Inr (PTagsList repo)
    \<and> parse_path (repo @ ''/referrers/'' @ digest_display d) = Inr (PReferrers repo d)
    \<and> (\<exists>rest. blob_location repo d = ''/v2/'' @ rest \<and> parse_path rest = Inr (PBlob repo d))
    \<and> (\<exists>rest. upload_location repo sid = ''/v2/'' @ rest \<and> parse_path rest = Inr (PUploadSession repo sid))"
proof -
  let ?ps = "split_on CHR ''/'' repo"
  note rc = checked_repo_split [OF assms(1)]
  have two: "split_on CHR ''/'' (repo @ CHR ''/'' # b @ CHR ''/'' # c) = ?ps @ [b, c]"
    if "CHR ''/'' \<notin> set b" "CHR ''/'' \<notin> set c" for b c
    using parse_two [OF that] by simp
  have three: "split_on CHR ''/'' (repo @ CHR ''/'' # ''blobs/uploads/'' @ c) = ?ps @ [''blobs'', ''uploads'', c]"
    if "CHR ''/'' \<notin> set c" for c
    using that by (simp add: split_on_sep split_on_single)
  have ge: "Suc 0 \<le> length ?ps" by (simp add: Suc_le_eq)
  have blob: "parse_path (repo @ ''/blobs/'' @ digest_display d) = Inr (PBlob repo d)"
    using two [of "''blobs''" "digest_display d"] digest_no_slash [OF assms(2)] parse_digest_display [OF assms(2)] rc ge
    by (simp add: parse_path_def nth_append)
  have mani: "parse_path (repo @ ''/manifests/'' @ reference) = Inr (PManifest repo reference)"
    using two [of "''manifests''" reference] assms(3) rc ge by (simp add: parse_path_def nth_append)
  have start: "parse_path (repo @ ''/blobs/uploads/'') = Inr (PUploadStart repo)"
    using three [of "[]"] rc ge by (simp add: parse_path_def nth_append)
  have session: "parse_path (repo @ ''/blobs/uploads/'' @ sid) = Inr (PUploadSession repo sid)"
    using three [OF assms(4)] assms(5) rc ge by (simp add: parse_path_def nth_append)
  have tags: "parse_path (repo @ ''/tags/list'') = Inr (PTagsList repo)"
    using two [of "''tags''" "''list''"] rc ge by (simp add: parse_path_def nth_append)
  have refs: "parse_path (repo @ ''/referrers/'' @ digest_display d) = Inr (PReferrers repo d)"
    using two [of "''referrers''" "digest_display d"] digest_no_slash [OF assms(2)] parse_digest_display [OF assms(2)] rc ge
    by (simp add: parse_path_def nth_append)
  show ?thesis
    using blob mani start session tags refs by (simp add: blob_location_def upload_location_def)
qed

section \<open>Mounts\<close>

text \<open>
  (C35) Mounting reveals nothing about repositories the caller cannot read. When the principal may not
  pull from the source, starting an upload with a mount does not consult the storage's mount at all:
  the answer and the state are the same whatever that operation would do.
\<close>

theorem mount_needs_pull:
  assumes "app_auth st = Some au" and "uq_from q = Some from_repo"
    and "\<not> allows au (principal_of req) from_repo Pull"
  shows "upload_start W (st\<lparr>app_storage := S\<lparr>mount_blob := f\<rparr>\<rparr>) repo q req s =
         upload_start W (st\<lparr>app_storage := S\<rparr>) repo q req s"
proof -
  have "try_mount (st\<lparr>app_storage := T\<rparr>) repo q req s = (None, s)" for T
    using assms by (auto simp: try_mount_def source_readable_def split: option.splits)
  moreover have "monolithic W (st\<lparr>app_storage := S\<lparr>mount_blob := f\<rparr>\<rparr>) = monolithic W (st\<lparr>app_storage := S\<rparr>)"
  proof -
    have sel: "begin_upload (S\<lparr>mount_blob := f\<rparr>) = begin_upload S" "append_upload (S\<lparr>mount_blob := f\<rparr>) = append_upload S"
      "finish_upload (S\<lparr>mount_blob := f\<rparr>) = finish_upload S" "abort_upload (S\<lparr>mount_blob := f\<rparr>) = abort_upload S"
      "app_storage (st\<lparr>app_storage := T\<rparr>) = T" "app_limits (st\<lparr>app_storage := T\<rparr>) = app_limits st" for T
      by simp_all
    show ?thesis unfolding monolithic_def fun_eq_iff Let_def sel by (intro allI refl)
  qed
  ultimately show ?thesis by (cases "uq_digest q") (simp_all add: upload_start_def)
qed

section \<open>Examples\<close>

definition denying_auth :: auth where
  "denying_auth = sample_auth\<lparr>au_policy := Some (compile \<lparr>ac_admins = [], ac_groups = [], ac_repositories = []\<rparr>)\<rparr>"

lemma denying_auth_denies: "\<not> allows denying_auth p repo a" if "\<forall>sub gs. p \<noteq> Token sub gs"
  using that by (cases p) (auto simp: allows_def denying_auth_def grants_def compile_def winning_rule_def)

lemma sample_name: "parse_repository_name ''r'' = Inr ''r''"
  by (simp add: parse_repository_name_def MAX_NAME_def validate_name_component_def is_lower_alnum_def
      ascii_class_defs validate_scan.simps)

theorem dispatch_guarded_witness:
  "\<exists>e. \<forall>S :: nat storage. dispatch sample_http ((sample_app empty_storage)\<lparr>app_auth := Some denying_auth, app_storage := S\<rparr>)
          ''r/manifests/v1'' sample_request 7 = (Inl (Failed e), 7)"
  using dispatch_guarded [of "(sample_app empty_storage)\<lparr>app_auth := Some denying_auth\<rparr>" denying_auth
      "''r/manifests/v1''" sample_request sample_http "7 :: nat"] denying_auth_denies
  by (simp add: principal_of_def sample_request_def)

theorem parse_path_valid_witness:
  "\<exists>p. parse_path ''r/manifests/v1'' = Inr p \<and>
    (case p of
      PBlob repo d \<Rightarrow> parse_repository_name repo = Inr repo \<and> digest_wf d
    | PReferrers repo d \<Rightarrow> parse_repository_name repo = Inr repo \<and> digest_wf d
    | PManifest repo _ \<Rightarrow> parse_repository_name repo = Inr repo
    | PUploadStart repo \<Rightarrow> parse_repository_name repo = Inr repo
    | PUploadSession repo sid \<Rightarrow> parse_repository_name repo = Inr repo \<and> sid \<noteq> [] \<and> CHR ''/'' \<notin> set sid
    | PTagsList repo \<Rightarrow> parse_repository_name repo = Inr repo
    | PUnknown \<Rightarrow> True)"
proof -
  have run: "parse_path ''r/manifests/v1'' = Inr (PManifest ''r'' ''v1'')"
    using sample_name by (simp add: parse_path_def checked_repo_def)
  show ?thesis by (rule exI, rule conjI [OF run parse_path_valid [OF run]])
qed

theorem paths_parse_back_witness:
  "parse_path (''r'' @ ''/blobs/'' @ digest_display sample_digest) = Inr (PBlob ''r'' sample_digest)
   \<and> parse_path (''r'' @ ''/blobs/uploads/'' @ ''u1'') = Inr (PUploadSession ''r'' ''u1'')"
  using paths_parse_back [OF sample_name sample_digest_wf, of "''v1''" "''u1''"] by simp

theorem mount_needs_pull_witness:
  "upload_start sample_http ((sample_app empty_storage)\<lparr>app_auth := Some denying_auth,
        app_storage := empty_storage\<lparr>mount_blob := (\<lambda>f t d s. (Inr True, s))\<rparr>\<rparr>) ''r''
      \<lparr>uq_digest = None, uq_mount = Some (digest_display sample_digest), uq_from = Some ''secret''\<rparr> sample_request () =
   upload_start sample_http ((sample_app empty_storage)\<lparr>app_auth := Some denying_auth, app_storage := empty_storage\<rparr>) ''r''
      \<lparr>uq_digest = None, uq_mount = Some (digest_display sample_digest), uq_from = Some ''secret''\<rparr> sample_request ()"
  by (rule mount_needs_pull [where from_repo = "''secret''" and au = denying_auth])
    (simp_all add: denying_auth_denies principal_of_def sample_request_def)

end
