(* ===== verification/Lmdb_Keys.thy ===== *)
theory Lmdb_Keys
  imports Meta_Ops
begin

text \<open>
  Composite keys of the LMDB engine (\<open>roci-storage/src/metadata/lmdb.rs\<close>): parts terminated by a NUL
  byte, prefix ranges and the checksum encoding. For parts without NUL the encoding is injective,
  ordered as the tuple of its parts, and a prefix range selects exactly the keys with that prefix.
\<close>

section \<open>Encoding\<close>

definition make_key :: "bytes list \<Rightarrow> bytes" where
  "make_key parts = concat (map (\<lambda>p. p @ [CHR 0x00]) parts)"

definition make_prefix :: "bytes list \<Rightarrow> bytes" where
  "make_prefix parts = make_key parts"

text \<open>The loop pops bytes \<open>0xFF\<close> from the end and increments the first other byte.\<close>

fun succ_from_end :: "bytes \<Rightarrow> bytes option" where
  "succ_from_end [] = None"
| "succ_from_end (c # cs) =
     (if (of_char c :: nat) < 0xFF then Some (char_of (of_char c + 1 :: nat) # cs) else succ_from_end cs)"

definition prefix_successor :: "bytes \<Rightarrow> bytes option" where
  "prefix_successor p = map_option rev (succ_from_end (rev p))"

text \<open>The pieces that a NUL byte ends; bytes after the last one are dropped.\<close>

definition split_key :: "bytes \<Rightarrow> bytes list" where
  "split_key key = butlast (split_on CHR 0x00 key)"

definition encode_checksum :: "u32 \<Rightarrow> u64 \<Rightarrow> bytes" where
  "encode_checksum crc sz = le_bytes 4 (unat crc) @ le_bytes 8 (unat sz)"

definition decode_checksum :: "bytes \<Rightarrow> blob_checksum" where
  "decode_checksum b =
     \<lparr>ck_crc32c = of_nat (le_value (take 4 b)), ck_size = of_nat (le_value (take 8 (drop 4 b)))\<rparr>"

section \<open>Round trips\<close>

definition nul_free :: "bytes \<Rightarrow> bool" where
  "nul_free s \<longleftrightarrow> CHR 0x00 \<notin> set s"

lemma make_key_simps [simp]:
  "make_key [] = []" "make_key (p # ps) = p @ CHR 0x00 # make_key ps"
  by (simp_all add: make_key_def)

lemma make_key_append: "make_key (ps @ qs) = make_key ps @ make_key qs"
  by (simp add: make_key_def)

lemma split_make_key [simp]: "list_all nul_free ps \<Longrightarrow> split_key (make_key ps) = ps"
  by (induction ps) (auto simp: split_key_def nul_free_def split_on_append)

lemma make_key_inject:
  "list_all nul_free ps \<Longrightarrow> list_all nul_free qs \<Longrightarrow> make_key ps = make_key qs \<longleftrightarrow> ps = qs"
  by (metis split_make_key)

lemma decode_encode_checksum [simp]: "decode_checksum (encode_checksum c z) = \<lparr>ck_crc32c = c, ck_size = z\<rparr>"
proof -
  show ?thesis using unat_u32_less [of c] unat_u64_less [of z] by (simp add: decode_checksum_def encode_checksum_def)
qed

section \<open>Order\<close>

lemma nul_least [simp]: "CHR 0x00 \<le> c" "\<not> c < CHR 0x00"
  by (simp_all add: less_eq_char_def less_char_def)

lemma nul_less: "c \<noteq> CHR 0x00 \<Longrightarrow> CHR 0x00 < c"
  by (simp add: order.strict_iff_order)

text \<open>A terminated part compares as the part.\<close>

lemma terminated_less_iff:
  "nul_free a \<Longrightarrow> nul_free b \<Longrightarrow> a @ CHR 0x00 # x < b @ CHR 0x00 # y \<longleftrightarrow> a < b \<or> a = b \<and> x < y"
proof (induction a arbitrary: b)
  case Nil
  then show ?case by (cases b) (auto simp: nul_free_def nul_less)
next
  case (Cons c a)
  then show ?case by (cases b) (auto simp: nul_free_def)
qed

lemma after_terminated_iff:
  assumes "nul_free a" "nul_free c"
  shows "c @ [CHR 0x00, CHR 0x00] \<le> a @ [CHR 0x00] \<longleftrightarrow> c < a"
  using terminated_less_iff [OF assms, of "[]" "[CHR 0x00]"] by (auto simp: not_less [symmetric])

lemma append_less_cancel: "p @ a < p @ b \<longleftrightarrow> a < (b :: bytes)" "p @ a \<le> p @ b \<longleftrightarrow> a \<le> (b :: bytes)"
  by (induction p) auto

section \<open>Prefix ranges\<close>

lemma succ_from_end_snoc:
  "succ_from_end (xs @ [c]) =
     (case succ_from_end xs of
        Some e \<Rightarrow> Some (e @ [c])
      | None \<Rightarrow> if (of_char c :: nat) < 255 then Some [char_of (of_char c + 1 :: nat)] else None)"
  by (induction xs) auto

lemma prefix_successor_Cons:
  "prefix_successor (c # p) =
     (case prefix_successor p of
        Some e \<Rightarrow> Some (c # e)
      | None \<Rightarrow> if (of_char c :: nat) < 255 then Some [char_of (of_char c + 1 :: nat)] else None)"
  by (auto simp: prefix_successor_def succ_from_end_snoc split: option.splits)

lemma less_char_succ:
  assumes "(of_char c :: nat) < 255"
  shows "d < char_of (of_char c + 1 :: nat) \<longleftrightarrow> d \<le> c"
proof -
  have "(of_char (char_of (of_char c + 1 :: nat) :: char) :: nat) = of_char c + 1"
    using assms by simp
  then show ?thesis by (simp add: less_char_def less_eq_char_def Suc_le_eq less_Suc_eq_le)
qed

lemma char_ge_255: "\<not> (of_char c :: nat) < 255 \<Longrightarrow> d \<le> (c :: char)"
proof -
  assume c: "\<not> (of_char c :: nat) < 255"
  have "(of_char d :: nat) < 256" by simp
  with c show "d \<le> c" unfolding less_eq_char_def by linarith
qed

lemma char_255_iff: "c \<noteq> CHR 0xFF \<longleftrightarrow> (of_char c :: nat) < 255"
proof -
  have lt: "(of_char c :: nat) < 256" by simp
  have "c = CHR 0xFF \<longleftrightarrow> (of_char c :: nat) = of_char CHR 0xFF" by (simp only: of_char_eq_iff)
  also have "\<dots> \<longleftrightarrow> (of_char c :: nat) = 255" by simp
  finally show ?thesis using lt by linarith
qed

lemma prefix_successor_None: "prefix_successor p = None \<Longrightarrow> p \<le> k \<longleftrightarrow> prefix p k"
proof (induction p arbitrary: k)
  case (Cons c p)
  then have c: "\<not> (of_char c :: nat) < 255" "prefix_successor p = None"
    by (auto simp: prefix_successor_Cons split: option.splits if_splits)
  show ?case
  proof (cases k)
    case (Cons d k')
    have "\<not> c < d" using char_ge_255 [OF c(1), of d] by (simp add: not_less)
    then show ?thesis using Cons.IH [OF c(2)] by (simp add: Cons)
  qed simp
qed simp

lemma prefix_between: "prefix_successor p = Some e \<Longrightarrow> p \<le> k \<and> k < e \<longleftrightarrow> prefix p k"
proof (induction p arbitrary: k e)
  case Nil
  then show ?case by (simp add: prefix_successor_def)
next
  case (Cons c p)
  show ?case
  proof (cases k)
    case Nil
    then show ?thesis by simp
  next
    case k: (Cons d k')
    show ?thesis
    proof (cases "prefix_successor p")
      case None
      then have c: "(of_char c :: nat) < 255" "e = [char_of (of_char c + 1 :: nat)]"
        using Cons.prems by (auto simp: prefix_successor_Cons split: if_splits)
      have "(c < d \<or> c = d \<and> p \<le> k') \<and> d \<le> c \<longleftrightarrow> c = d \<and> prefix p k'"
        using prefix_successor_None [OF None, of k'] by (auto simp: not_le)
      then show ?thesis using less_char_succ [OF c(1), of d] by (simp add: c(2) k)
    next
      case (Some e')
      then have "e = c # e'" using Cons.prems by (simp add: prefix_successor_Cons)
      moreover have "p \<le> k' \<and> k' < e' \<longleftrightarrow> prefix p k'" using Cons.IH [OF Some, of k'] .
      ultimately show ?thesis by (auto simp: k)
    qed
  qed
qed

text \<open>
  Prefix ranges are exact: a key lies between a prefix and its successor exactly when it starts
  with the prefix, for every byte string, bytes \<open>0xFF\<close> included; only a prefix of bytes \<open>0xFF\<close> alone
  has no successor.
\<close>

theorem prefix_range_exact:
  "(\<exists>e. prefix_successor p = Some e \<and> p \<le> k \<and> k < e) \<longleftrightarrow> (\<exists>c\<in>set p. c \<noteq> CHR 0xFF) \<and> prefix p k"
proof -
  have "prefix_successor p \<noteq> None \<longleftrightarrow> (\<exists>c\<in>set p. c \<noteq> CHR 0xFF)"
  proof (induction p)
    case (Cons c p)
    then show ?case by (auto simp: prefix_successor_Cons char_255_iff split: option.splits)
  qed (simp add: prefix_successor_def)
  then show ?thesis using prefix_between [of p] by auto
qed

lemma make_prefix_successor: "ps \<noteq> [] \<Longrightarrow> \<exists>e. prefix_successor (make_prefix ps) = Some e"
  by (cases ps rule: rev_cases) (simp_all add: make_prefix_def make_key_append prefix_successor_def)

lemma prefix_terminated:
  "nul_free a \<Longrightarrow> nul_free b \<Longrightarrow> prefix (a @ CHR 0x00 # x) (b @ CHR 0x00 # y) \<longleftrightarrow> a = b \<and> prefix x y"
proof (induction a arbitrary: b)
  case Nil
  then show ?case by (cases b) (auto simp: nul_free_def)
next
  case (Cons c a)
  then show ?case by (cases b) (auto simp: nul_free_def)
qed

lemma prefix_make_key:
  "list_all nul_free ps \<Longrightarrow> list_all nul_free ks \<Longrightarrow> prefix (make_key ps) (make_key ks) \<longleftrightarrow> prefix ps ks"
proof (induction ps arbitrary: ks)
  case (Cons p ps)
  then show ?case by (cases ks) (auto simp: prefix_terminated)
qed simp

lemma make_key_child_less:
  "nul_free x \<Longrightarrow> nul_free y \<Longrightarrow> make_key (ps @ [x]) < make_key (ps @ [y]) \<longleftrightarrow> x < y"
  using terminated_less_iff [of x y "[]" "[]"] by (simp add: make_key_append append_less_cancel)

lemma make_key_child_after:
  "nul_free x \<Longrightarrow> nul_free c \<Longrightarrow> make_key (ps @ [c]) @ [CHR 0x00] \<le> make_key (ps @ [x]) \<longleftrightarrow> c < x"
  using after_terminated_iff [of x c] by (simp add: make_key_append append_less_cancel)

end
