(* ===== verification/Meta_Lmdb.thy ===== *)
theory Meta_Lmdb
  imports Lmdb_Keys Meta_Log
begin

text \<open>
  The LMDB metadata engine (\<open>roci-storage/src/metadata/lmdb.rs\<close>): ten ordered databases under
  composite keys, one write transaction per operation. The \<open>heed\<close> package is a parameter: a plain
  database of type \<open>'d\<close> and one with sorted duplicates of type \<open>'m\<close>.
\<close>

section \<open>State and package\<close>

record ('d, 'm) lmdb =
  lm_tags :: 'd
  lm_tags_by_digest :: 'd
  lm_media_types :: 'd
  lm_referrers :: 'd
  lm_referrer_types :: 'd
  lm_referrers_by_type :: 'd
  lm_referrers_reverse :: 'd
  lm_backrefs :: 'm
  lm_backrefs_reverse :: 'm
  lm_checksums :: 'd

text \<open>
  The calls the engine makes; errors are reduced to their text. Transactions and the sync are calls
  on the environment that holds the ten databases; iterators are lists of results.
\<close>

type_synonym kv_entries = "string + (string + bytes \<times> bytes) list"

record ('d, 'm) kv_api =
  env_read_txn :: "('d, 'm) lmdb \<Rightarrow> string + unit"
  env_write_txn :: "('d, 'm) lmdb \<Rightarrow> string + unit"
  env_commit :: "('d, 'm) lmdb \<Rightarrow> string + unit"
  env_force_sync :: "('d, 'm) lmdb \<Rightarrow> string + unit"
  kv_new :: 'd
  kv_get :: "'d \<Rightarrow> bytes \<Rightarrow> string + bytes option"
  kv_put :: "bytes \<Rightarrow> bytes \<Rightarrow> 'd \<Rightarrow> string + 'd"
  kv_delete :: "bytes \<Rightarrow> 'd \<Rightarrow> string + 'd"
  kv_range :: "'d \<Rightarrow> bytes \<Rightarrow> bytes \<Rightarrow> kv_entries"
  kv_iter :: "'d \<Rightarrow> kv_entries"
  dup_new :: 'm
  dup_put :: "bytes \<Rightarrow> bytes \<Rightarrow> 'm \<Rightarrow> string + 'm"
  dup_values :: "'m \<Rightarrow> bytes \<Rightarrow> kv_entries"
  dup_delete_one :: "bytes \<Rightarrow> bytes \<Rightarrow> 'm \<Rightarrow> string + 'm"
  dup_delete :: "bytes \<Rightarrow> 'm \<Rightarrow> string + 'm"
  dup_iter :: "'m \<Rightarrow> kv_entries"

text \<open>\<open>filter_map(|e| e.ok())\<close> and \<open>flatten()\<close> over an iterator, empty when it does not open.\<close>

fun oks :: "('e + 'a) list \<Rightarrow> 'a list" where
  "oks [] = []"
| "oks (Inl e # xs) = oks xs"
| "oks (Inr x # xs) = x # oks xs"

definition ok_entries :: "'e + ('e + 'a) list \<Rightarrow> 'a list" where
  "ok_entries r = (case r of Inl _ \<Rightarrow> [] | Inr xs \<Rightarrow> oks xs)"

definition MAX_KEY :: nat where
  "MAX_KEY = 511"

text \<open>
  What the package documents for an environment that is healthy and whose map is not full: a database
  is a finite map in byte order of its keys; a write under a key of 1 to 511 bytes succeeds; a range
  is the half-open interval of keys; a database with duplicates is a set of pairs, its values under
  the same limit as keys.
\<close>

definition kv_ok :: "('d, 'm) kv_api \<Rightarrow> bool" where
  "kv_ok K \<longleftrightarrow>
     (\<forall>s. env_read_txn K s = Inr () \<and> env_write_txn K s = Inr () \<and> env_commit K s = Inr ()
        \<and> env_force_sync K s = Inr ()) \<and>
     kv_iter K (kv_new K) = Inr [] \<and> dup_iter K (dup_new K) = Inr [] \<and>
     (\<forall>d. \<exists>es. kv_iter K d = Inr (map Inr es) \<and> bt_invar es
        \<and> (\<forall>k. kv_get K d k = Inr (map_of es k))
        \<and> (\<forall>a b. kv_range K d a b = Inr (map Inr (filter (\<lambda>p. a \<le> fst p \<and> fst p < b) es)))) \<and>
     (\<forall>d k v. 0 < length k \<and> length k \<le> MAX_KEY \<longrightarrow>
        (\<exists>d'. kv_put K k v d = Inr d' \<and> ok_entries (kv_iter K d') = bt_insert k v (ok_entries (kv_iter K d))) \<and>
        (\<exists>d'. kv_delete K k d = Inr d' \<and> ok_entries (kv_iter K d') = bt_remove k (ok_entries (kv_iter K d)))) \<and>
     (\<forall>m. \<exists>es. dup_iter K m = Inr (map Inr es) \<and> distinct es
        \<and> (\<forall>k. dup_values K m k = Inr (map Inr (filter (\<lambda>p. fst p = k) es)))) \<and>
     (\<forall>m k v. 0 < length k \<and> length k \<le> MAX_KEY \<and> 0 < length v \<and> length v \<le> MAX_KEY \<longrightarrow>
        (\<exists>m'. dup_put K k v m = Inr m'
           \<and> set (ok_entries (dup_iter K m')) = insert (k, v) (set (ok_entries (dup_iter K m)))) \<and>
        (\<exists>m'. dup_delete_one K k v m = Inr m'
           \<and> set (ok_entries (dup_iter K m')) = set (ok_entries (dup_iter K m)) - {(k, v)})) \<and>
     (\<forall>m k. 0 < length k \<and> length k \<le> MAX_KEY \<longrightarrow>
        (\<exists>m'. dup_delete K k m = Inr m'
           \<and> set (ok_entries (dup_iter K m')) = {p \<in> set (ok_entries (dup_iter K m)). fst p \<noteq> k}))"

text \<open>The ten databases of an environment just created.\<close>

definition lmdb_new :: "('d, 'm) kv_api \<Rightarrow> ('d, 'm) lmdb" where
  "lmdb_new K = \<lparr>lm_tags = kv_new K, lm_tags_by_digest = kv_new K, lm_media_types = kv_new K,
     lm_referrers = kv_new K, lm_referrer_types = kv_new K, lm_referrers_by_type = kv_new K,
     lm_referrers_reverse = kv_new K, lm_backrefs = dup_new K, lm_backrefs_reverse = dup_new K,
     lm_checksums = kv_new K\<rparr>"

section \<open>Helpers\<close>

definition map_heed_err :: "string \<Rightarrow> io_error" where
  "map_heed_err e =
     (if sublist ''MDB_MAP_FULL'' e
      then Io_Error KOther (''LMDB map full '' @ [CHR 0xE2, CHR 0x80, CHR 0x94] @ '' increase '' @ [CHR 0x60]
             @ ''storage.metadata.map_size_bytes'' @ [CHR 0x60] @ '' in the config; current error: '' @ e)
      else Io_Error KOther (''lmdb: '' @ e))"

text \<open>A package call with \<open>map_err(map_heed_err)?\<close>, and one with \<open>ok()??\<close>.\<close>

abbreviation heed :: "string + 'a \<Rightarrow> (io_error + 'a)" where
  "heed r \<equiv> map_err map_heed_err r"

definition ok_flat :: "'e + 'a option \<Rightarrow> 'a option" where
  "ok_flat r = (case r of Inl _ \<Rightarrow> None | Inr x \<Rightarrow> x)"

definition range_owned :: "('d, 'm) kv_api \<Rightarrow> 'd \<Rightarrow> bytes \<Rightarrow> bytes \<Rightarrow> string + (bytes \<times> bytes) list" where
  "range_owned K d start stop = and_then (kv_range K d start stop) (\<lambda>xs. Inr (oks xs))"

definition has_any_with_prefix :: "('d, 'm) kv_api \<Rightarrow> 'd \<Rightarrow> bytes \<Rightarrow> bool" where
  "has_any_with_prefix K d p =
     (case prefix_successor p of
        None \<Rightarrow> False
      | Some e \<Rightarrow> (case kv_range K d p e of Inl _ \<Rightarrow> False | Inr xs \<Rightarrow> xs \<noteq> []))"

definition dup_values_in_write :: "('d, 'm) kv_api \<Rightarrow> 'm \<Rightarrow> bytes \<Rightarrow> io_error + bytes list" where
  "dup_values_in_write K m key =
     and_then (heed (dup_values K m key)) (\<lambda>xs.
       try_fold (\<lambda>entry values. and_then (heed entry) (\<lambda>(_, v). Inr (values @ [v]))) xs [])"

definition dup_values_as_strings :: "('d, 'm) kv_api \<Rightarrow> 'm \<Rightarrow> bytes \<Rightarrow> string list" where
  "dup_values_as_strings K m key = filter utf8_valid (map snd (ok_entries (dup_values K m key)))"

definition keys_with_prefix :: "('d, 'm) kv_api \<Rightarrow> 'd \<Rightarrow> bytes \<Rightarrow> io_error + bytes list" where
  "keys_with_prefix K d p =
     (case prefix_successor p of
        None \<Rightarrow> Inr []
      | Some e \<Rightarrow> heed (and_then (range_owned K d p e) (\<lambda>pairs. Inr (map fst pairs))))"

text \<open>\<open>std::str::from_utf8(b).ok()\<close>, and \<open>unwrap_or("")\<close> instead.\<close>

definition utf8_ok :: "bytes \<Rightarrow> string option" where
  "utf8_ok b = (if utf8_valid b then Some b else None)"

definition utf8_or_empty :: "bytes \<Rightarrow> string" where
  "utf8_or_empty b = (if utf8_valid b then b else [])"

section \<open>Writes\<close>

definition add_backref :: "('d, 'm) kv_api \<Rightarrow> string \<Rightarrow> string \<Rightarrow> string \<Rightarrow> ('d, 'm) lmdb \<Rightarrow> io_error + ('d, 'm) lmdb" where
  "add_backref K repo manifest blob s =
     and_then (heed (dup_put K (make_key [repo, blob]) manifest (lm_backrefs s))) (\<lambda>fwd.
     and_then (heed (dup_put K (make_key [repo, manifest]) blob (lm_backrefs_reverse s))) (\<lambda>back.
       Inr (s\<lparr>lm_backrefs := fwd, lm_backrefs_reverse := back\<rparr>)))"

definition add_backrefs_in_txn :: "('d, 'm) kv_api \<Rightarrow> string \<Rightarrow> string \<Rightarrow> string list \<Rightarrow> ('d, 'm) lmdb
    \<Rightarrow> io_error + ('d, 'm) lmdb" where
  "add_backrefs_in_txn K repo manifest blobs s = try_fold (add_backref K repo manifest) blobs s"

definition remove_referrer_in_txn :: "('d, 'm) kv_api \<Rightarrow> string \<Rightarrow> string \<Rightarrow> string \<Rightarrow> ('d, 'm) lmdb
    \<Rightarrow> io_error + ('d, 'm) lmdb" where
  "remove_referrer_in_txn K repo subject referrer s =
     (let rt_key = make_key [repo, subject, referrer] in
      and_then (heed (kv_get K (lm_referrer_types s) rt_key)) (\<lambda>had_type.
      and_then (heed (kv_delete K (make_key [repo, subject, referrer]) (lm_referrers s))) (\<lambda>refs.
      and_then (heed (kv_delete K (make_key [repo, referrer, subject]) (lm_referrers_reverse s))) (\<lambda>back.
      and_then (heed (kv_delete K rt_key (lm_referrer_types s))) (\<lambda>types.
      and_then (case had_type of
                  None \<Rightarrow> Inr (lm_referrers_by_type s)
                | Some at \<Rightarrow> heed (kv_delete K (make_key [repo, subject, at, referrer]) (lm_referrers_by_type s)))
        (\<lambda>by_type.
        Inr (s\<lparr>lm_referrers := refs, lm_referrers_reverse := back, lm_referrer_types := types,
               lm_referrers_by_type := by_type\<rparr>)))))))"

definition put_referrer_type :: "('d, 'm) kv_api \<Rightarrow> string \<Rightarrow> string \<Rightarrow> string \<Rightarrow> string \<Rightarrow> ('d, 'm) lmdb
    \<Rightarrow> io_error + ('d, 'm) lmdb" where
  "put_referrer_type K repo subject referrer at s =
     and_then (heed (kv_put K (make_key [repo, subject, referrer]) at (lm_referrer_types s))) (\<lambda>types.
     and_then (heed (kv_put K (make_key [repo, subject, at, referrer]) [] (lm_referrers_by_type s))) (\<lambda>by_type.
       Inr (s\<lparr>lm_referrer_types := types, lm_referrers_by_type := by_type\<rparr>)))"

definition add_referrer_in_txn :: "'a ext_api_scheme \<Rightarrow> ('d, 'm) kv_api \<Rightarrow> string \<Rightarrow> string \<Rightarrow> string \<Rightarrow> bytes
    \<Rightarrow> ('d, 'm) lmdb \<Rightarrow> io_error + ('d, 'm) lmdb" where
  "add_referrer_in_txn E K repo subject referrer descriptor s0 =
     and_then (remove_referrer_in_txn K repo subject referrer s0) (\<lambda>s.
     and_then (heed (kv_put K (make_key [repo, subject, referrer]) descriptor (lm_referrers s))) (\<lambda>refs.
     and_then (heed (kv_put K (make_key [repo, referrer, subject]) [] (lm_referrers_reverse s))) (\<lambda>back.
       case artifact_type_of E descriptor of
         None \<Rightarrow> Inr (s\<lparr>lm_referrers := refs, lm_referrers_reverse := back\<rparr>)
       | Some at \<Rightarrow> put_referrer_type K repo subject referrer at
                      (s\<lparr>lm_referrers := refs, lm_referrers_reverse := back\<rparr>))))"

definition put_tag :: "('d, 'm) kv_api \<Rightarrow> string \<Rightarrow> string \<Rightarrow> string \<Rightarrow> string \<Rightarrow> ('d, 'm) lmdb
    \<Rightarrow> io_error + ('d, 'm) lmdb" where
  "put_tag K repo tag digest media_type s =
     (let tag_key = make_key [repo, tag] in
      and_then (heed (kv_get K (lm_tags s) tag_key)) (\<lambda>old_val.
      and_then (case Option.bind old_val (split_once CHR 0x00) of
                  None \<Rightarrow> Inr (lm_tags_by_digest s)
                | Some (old_digest, _) \<Rightarrow>
                    heed (kv_delete K (make_key [repo, old_digest, tag]) (lm_tags_by_digest s))) (\<lambda>rev0.
      and_then (heed (kv_put K tag_key (digest @ CHR 0x00 # media_type) (lm_tags s))) (\<lambda>tags.
      and_then (heed (kv_put K (make_key [repo, digest, tag]) [] rev0)) (\<lambda>back.
        Inr (s\<lparr>lm_tags := tags, lm_tags_by_digest := back\<rparr>))))))"

definition put_media_type :: "('d, 'm) kv_api \<Rightarrow> string \<Rightarrow> string \<Rightarrow> string \<Rightarrow> ('d, 'm) lmdb
    \<Rightarrow> io_error + ('d, 'm) lmdb" where
  "put_media_type K repo digest media_type s =
     and_then (heed (kv_put K (make_key [repo, digest]) media_type (lm_media_types s))) (\<lambda>media.
       Inr (s\<lparr>lm_media_types := media\<rparr>))"

definition drop_sums :: "('d, 'm) kv_api \<Rightarrow> bytes \<Rightarrow> ('d, 'm) lmdb \<Rightarrow> io_error + ('d, 'm) lmdb" where
  "drop_sums K key s =
     and_then (heed (kv_delete K key (lm_checksums s))) (\<lambda>sums. Inr (s\<lparr>lm_checksums := sums\<rparr>))"

definition drop_media :: "('d, 'm) kv_api \<Rightarrow> bytes \<Rightarrow> ('d, 'm) lmdb \<Rightarrow> io_error + ('d, 'm) lmdb" where
  "drop_media K key s =
     and_then (heed (kv_delete K key (lm_media_types s))) (\<lambda>media. Inr (s\<lparr>lm_media_types := media\<rparr>))"

definition drop_tag :: "('d, 'm) kv_api \<Rightarrow> string \<Rightarrow> bytes \<Rightarrow> ('d, 'm) lmdb \<Rightarrow> io_error + ('d, 'm) lmdb" where
  "drop_tag K repo rev_key s =
     (let parts = split_key rev_key in
      and_then (if 3 \<le> length parts then heed (kv_delete K (make_key [repo, parts ! 2]) (lm_tags s))
                else Inr (lm_tags s)) (\<lambda>tags.
      and_then (heed (kv_delete K rev_key (lm_tags_by_digest s))) (\<lambda>back.
        Inr (s\<lparr>lm_tags := tags, lm_tags_by_digest := back\<rparr>))))"

definition drop_referrer :: "('d, 'm) kv_api \<Rightarrow> string \<Rightarrow> string \<Rightarrow> bytes \<Rightarrow> ('d, 'm) lmdb \<Rightarrow> io_error + ('d, 'm) lmdb" where
  "drop_referrer K repo digest rev_key s =
     (let parts = split_key rev_key in
      if 3 \<le> length parts then remove_referrer_in_txn K repo (utf8_or_empty (parts ! 2)) digest s else Inr s)"

definition drop_backref :: "('d, 'm) kv_api \<Rightarrow> string \<Rightarrow> string \<Rightarrow> bytes \<Rightarrow> ('d, 'm) lmdb \<Rightarrow> io_error + ('d, 'm) lmdb" where
  "drop_backref K repo digest blob s =
     and_then (heed (dup_delete_one K (make_key [repo, blob]) digest (lm_backrefs s))) (\<lambda>fwd.
       Inr (s\<lparr>lm_backrefs := fwd\<rparr>))"

text \<open>The four blocks of the deletion, each over the state the one before leaves.\<close>

definition drop_tags :: "('d, 'm) kv_api \<Rightarrow> string \<Rightarrow> string \<Rightarrow> ('d, 'm) lmdb \<Rightarrow> io_error + ('d, 'm) lmdb" where
  "drop_tags K repo digest s =
     and_then (keys_with_prefix K (lm_tags_by_digest s) (make_prefix [repo, digest])) (\<lambda>keys.
       try_fold (drop_tag K repo) keys s)"

definition drop_referrers :: "('d, 'm) kv_api \<Rightarrow> string \<Rightarrow> string \<Rightarrow> ('d, 'm) lmdb \<Rightarrow> io_error + ('d, 'm) lmdb" where
  "drop_referrers K repo digest s =
     and_then (keys_with_prefix K (lm_referrers_reverse s) (make_prefix [repo, digest])) (\<lambda>keys.
       try_fold (drop_referrer K repo digest) keys s)"

definition drop_backrefs :: "('d, 'm) kv_api \<Rightarrow> string \<Rightarrow> string \<Rightarrow> ('d, 'm) lmdb \<Rightarrow> io_error + ('d, 'm) lmdb" where
  "drop_backrefs K repo digest s =
     (let dup_key = make_key [repo, digest] in
      and_then (dup_values_in_write K (lm_backrefs_reverse s) dup_key) (\<lambda>blobs.
      and_then (try_fold (drop_backref K repo digest) blobs s) (\<lambda>s1.
      and_then (heed (dup_delete K dup_key (lm_backrefs_reverse s1))) (\<lambda>back.
        Inr (s1\<lparr>lm_backrefs_reverse := back\<rparr>)))))"

definition delete_manifest_in_txn :: "('d, 'm) kv_api \<Rightarrow> string \<Rightarrow> string \<Rightarrow> ('d, 'm) lmdb
    \<Rightarrow> io_error + ('d, 'm) lmdb" where
  "delete_manifest_in_txn K repo digest s =
     and_then (drop_sums K (make_key [repo, digest]) s) (\<lambda>s1.
     and_then (drop_media K (make_key [repo, digest]) s1) (\<lambda>s2.
     and_then (drop_tags K repo digest s2) (\<lambda>s3.
     and_then (drop_referrers K repo digest s3) (drop_backrefs K repo digest))))"

fun lmdb_apply_op :: "'a ext_api_scheme \<Rightarrow> ('d, 'm) kv_api \<Rightarrow> meta_op \<Rightarrow> ('d, 'm) lmdb \<Rightarrow> io_error + ('d, 'm) lmdb" where
  "lmdb_apply_op E K (PutManifest repo digest media_type tag references ref) s =
     and_then (put_media_type K repo digest media_type s) (\<lambda>s1.
     and_then (case tag of None \<Rightarrow> Inr s1 | Some t \<Rightarrow> put_tag K repo t digest media_type s1) (\<lambda>s2.
     and_then (add_backrefs_in_txn K repo digest references s2) (\<lambda>s3.
       case ref of
         None \<Rightarrow> Inr s3
       | Some (subject, descriptor) \<Rightarrow> add_referrer_in_txn E K repo subject digest descriptor s3)))"
| "lmdb_apply_op E K (DeleteManifest repo digest) s = delete_manifest_in_txn K repo digest s"
| "lmdb_apply_op E K (PutBackrefs repo manifest blobs) s = add_backrefs_in_txn K repo manifest blobs s"
| "lmdb_apply_op E K (PutReferrer repo subject ref descriptor) s =
     add_referrer_in_txn E K repo subject ref descriptor s"
| "lmdb_apply_op E K (PutChecksum repo digest crc sz) s =
     and_then (heed (kv_put K (make_key [repo, digest]) (encode_checksum crc sz) (lm_checksums s))) (\<lambda>sums.
       Inr (s\<lparr>lm_checksums := sums\<rparr>))"
| "lmdb_apply_op E K (DeleteBlob repo digest) s = drop_sums K (make_key [repo, digest]) s"

text \<open>
  One write transaction. A failure before the commit drops the transaction and with it every write;
  a failed sync is reported with the writes in place.
\<close>

definition lmdb_txn :: "('d, 'm) kv_api \<Rightarrow> (('d, 'm) lmdb \<Rightarrow> io_error + ('d, 'm) lmdb) \<Rightarrow> ('d, 'm) lmdb
    \<Rightarrow> (io_error + unit) \<times> ('d, 'm) lmdb" where
  "lmdb_txn K body s =
     (case and_then (heed (env_write_txn K s)) (\<lambda>_.
           and_then (body s) (\<lambda>s'.
           and_then (heed (env_commit K s')) (\<lambda>_. Inr s'))) of
        Inl e \<Rightarrow> (Inl e, s)
      | Inr s' \<Rightarrow> (Inr (), s'))"

definition lmdb_apply_inner :: "'a ext_api_scheme \<Rightarrow> ('d, 'm) kv_api \<Rightarrow> meta_op \<Rightarrow> bool \<Rightarrow> ('d, 'm) lmdb
    \<Rightarrow> (io_error + unit) \<times> ('d, 'm) lmdb" where
  "lmdb_apply_inner E K op durable s =
     (case lmdb_txn K (lmdb_apply_op E K op) s of
        (Inl e, s') \<Rightarrow> (Inl e, s')
      | (Inr _, s') \<Rightarrow> if durable then (heed (env_force_sync K s'), s') else (Inr (), s'))"

definition lmdb_apply :: "'a ext_api_scheme \<Rightarrow> ('d, 'm) kv_api \<Rightarrow> meta_op \<Rightarrow> ('d, 'm) lmdb
    \<Rightarrow> (io_error + unit) \<times> ('d, 'm) lmdb" where
  "lmdb_apply E K op s = lmdb_apply_inner E K op True s"

definition lmdb_apply_relaxed :: "'a ext_api_scheme \<Rightarrow> ('d, 'm) kv_api \<Rightarrow> meta_op \<Rightarrow> ('d, 'm) lmdb
    \<Rightarrow> (io_error + unit) \<times> ('d, 'm) lmdb" where
  "lmdb_apply_relaxed E K op s = lmdb_apply_inner E K op False s"

definition bulk_apply :: "'a ext_api_scheme \<Rightarrow> ('d, 'm) kv_api \<Rightarrow> meta_op list \<Rightarrow> ('d, 'm) lmdb
    \<Rightarrow> (io_error + unit) \<times> ('d, 'm) lmdb" where
  "bulk_apply E K ops s = lmdb_txn K (try_fold (lmdb_apply_op E K) ops) s"

section \<open>Queries\<close>

text \<open>A query whose read transaction does not open answers as if nothing were there.\<close>

definition reading :: "('d, 'm) kv_api \<Rightarrow> ('d, 'm) lmdb \<Rightarrow> 'r \<Rightarrow> 'r \<Rightarrow> 'r" where
  "reading K s none answer = (case env_read_txn K s of Inl _ \<Rightarrow> none | Inr _ \<Rightarrow> answer)"

definition decode_tag :: "bytes \<Rightarrow> (string \<times> string) option" where
  "decode_tag val =
     Option.bind (split_once CHR 0x00 val) (\<lambda>(d, m).
     Option.bind (utf8_ok d) (\<lambda>digest. map_option (\<lambda>media_type. (digest, media_type)) (utf8_ok m)))"

definition lmdb_resolve_tag :: "('d, 'm) kv_api \<Rightarrow> ('d, 'm) lmdb \<Rightarrow> string \<Rightarrow> string \<Rightarrow> (string \<times> string) option" where
  "lmdb_resolve_tag K s repo tag =
     reading K s None (Option.bind (ok_flat (kv_get K (lm_tags s) (make_key [repo, tag]))) decode_tag)"

definition lmdb_manifest_media_type :: "('d, 'm) kv_api \<Rightarrow> ('d, 'm) lmdb \<Rightarrow> string \<Rightarrow> string \<Rightarrow> string option" where
  "lmdb_manifest_media_type K s repo digest =
     reading K s None (Option.bind (ok_flat (kv_get K (lm_media_types s) (make_key [repo, digest]))) utf8_ok)"

text \<open>
  The loops over a range: \<open>dec\<close> decodes an entry, \<open>None\<close> leaving the loop and \<open>Some\<close> giving what the
  entry adds to the page.
\<close>

fun page_loop :: "(bytes \<times> bytes \<Rightarrow> 'i list option) \<Rightarrow> nat \<Rightarrow> (bytes \<times> bytes) list \<Rightarrow> 'i list \<Rightarrow> 'i page" where
  "page_loop dec limit [] items = \<lparr>page_items = items, page_more = False\<rparr>"
| "page_loop dec limit (kv # pairs) items =
     (case dec kv of
        None \<Rightarrow> \<lparr>page_items = items, page_more = False\<rparr>
      | Some new \<Rightarrow>
          if length items = limit then \<lparr>page_items = items, page_more = True\<rparr>
          else page_loop dec limit pairs (items @ new))"

definition tag_entry :: "string \<Rightarrow> bytes \<times> bytes \<Rightarrow> string list option" where
  "tag_entry repo kv =
     (let parts = split_key (fst kv) in
      if parts = [] \<or> parts ! 0 \<noteq> repo then None
      else Some (if 2 \<le> length parts then [from_utf8_lossy (parts ! 1)] else []))"

definition page_from :: "('d, 'm) kv_api \<Rightarrow> 'd \<Rightarrow> bytes list \<Rightarrow> string option \<Rightarrow> (bytes \<times> bytes \<Rightarrow> 'i list option)
    \<Rightarrow> nat \<Rightarrow> 'i page option" where
  "page_from K d parts cursor dec limit =
     (let start = (case cursor of Some c \<Rightarrow> make_key (parts @ [c]) @ [CHR 0x00] | None \<Rightarrow> make_prefix parts) in
      Option.bind (prefix_successor (make_prefix parts)) (\<lambda>stop.
        case range_owned K d start stop of
          Inl _ \<Rightarrow> None
        | Inr pairs \<Rightarrow> Some (page_loop dec limit pairs [])))"

definition lmdb_tags_page :: "('d, 'm) kv_api \<Rightarrow> ('d, 'm) lmdb \<Rightarrow> string \<Rightarrow> string option \<Rightarrow> nat \<Rightarrow> string page option" where
  "lmdb_tags_page K s repo cursor limit =
     reading K s None
       (if \<not> has_any_with_prefix K (lm_tags s) (make_prefix [repo]) then None
        else page_from K (lm_tags s) [repo] cursor (tag_entry repo) limit)"

definition referrer_entry :: "string \<Rightarrow> string \<Rightarrow> bytes \<times> bytes \<Rightarrow> referrer list option" where
  "referrer_entry repo subject kv =
     (let parts = split_key (fst kv) in
      if length parts < 3 \<or> parts ! 0 \<noteq> repo \<or> parts ! 1 \<noteq> subject then None
      else Some [(from_utf8_lossy (parts ! 2), snd kv)])"

definition typed_entry :: "('d, 'm) kv_api \<Rightarrow> ('d, 'm) lmdb \<Rightarrow> string \<Rightarrow> string \<Rightarrow> string \<Rightarrow> bytes \<times> bytes
    \<Rightarrow> referrer list option" where
  "typed_entry K s repo subject at kv =
     (let parts = split_key (fst kv) in
      if length parts < 4 \<or> parts ! 0 \<noteq> repo \<or> parts ! 1 \<noteq> subject \<or> parts ! 2 \<noteq> at then None
      else let ref = utf8_or_empty (parts ! 3) in
           case ok_flat (kv_get K (lm_referrers s) (make_key [repo, subject, ref])) of
             Some desc \<Rightarrow> Some [(ref, desc)]
           | None \<Rightarrow> Some [])"

definition lmdb_referrers_page :: "('d, 'm) kv_api \<Rightarrow> ('d, 'm) lmdb \<Rightarrow> string \<Rightarrow> string \<Rightarrow> string option
    \<Rightarrow> string option \<Rightarrow> nat \<Rightarrow> referrer page option" where
  "lmdb_referrers_page K s repo subject artifact_type cursor limit =
     reading K s None
       (case artifact_type of
          None \<Rightarrow>
            if \<not> has_any_with_prefix K (lm_referrers s) (make_prefix [repo, subject]) then None
            else page_from K (lm_referrers s) [repo, subject] cursor (referrer_entry repo subject) limit
        | Some at \<Rightarrow>
            if \<not> has_any_with_prefix K (lm_referrers_by_type s) (make_prefix [repo, subject, at])
            then (if \<not> has_any_with_prefix K (lm_referrers s) (make_prefix [repo, subject]) then None
                  else Some default_page)
            else page_from K (lm_referrers_by_type s) [repo, subject, at] cursor
                   (typed_entry K s repo subject at) limit)"

definition lmdb_has_referrer :: "('d, 'm) kv_api \<Rightarrow> ('d, 'm) lmdb \<Rightarrow> string \<Rightarrow> string \<Rightarrow> string \<Rightarrow> bool" where
  "lmdb_has_referrer K s repo subject ref =
     reading K s False (ok_flat (kv_get K (lm_referrers s) (make_key [repo, subject, ref])) \<noteq> None)"

definition lmdb_backrefs :: "('d, 'm) kv_api \<Rightarrow> ('d, 'm) lmdb \<Rightarrow> string \<Rightarrow> string \<Rightarrow> string list" where
  "lmdb_backrefs K s repo blob = reading K s [] (dup_values_as_strings K (lm_backrefs s) (make_key [repo, blob]))"

definition lmdb_checksum :: "('d, 'm) kv_api \<Rightarrow> ('d, 'm) lmdb \<Rightarrow> string \<Rightarrow> string \<Rightarrow> blob_checksum option" where
  "lmdb_checksum K s repo digest =
     reading K s None (map_option decode_checksum (ok_flat (kv_get K (lm_checksums s) (make_key [repo, digest]))))"

text \<open>The sweeps that garbage collection and the index writer use.\<close>

definition first_part :: "bytes \<times> bytes \<Rightarrow> string option" where
  "first_part kv = (case split_key (fst kv) of [] \<Rightarrow> None | p # _ \<Rightarrow> utf8_ok p)"

definition lmdb_repos :: "('d, 'm) kv_api \<Rightarrow> ('d, 'm) lmdb \<Rightarrow> string list" where
  "lmdb_repos K s =
     reading K s []
       (sorted_list_of_set (set (List.map_filter first_part
          (ok_entries (kv_iter K (lm_media_types s)) @ ok_entries (kv_iter K (lm_referrers s))))))"

definition prefix_entries :: "('d, 'm) kv_api \<Rightarrow> 'd \<Rightarrow> bytes list \<Rightarrow> (bytes \<times> bytes) list" where
  "prefix_entries K d parts =
     (case prefix_successor (make_prefix parts) of
        None \<Rightarrow> []
      | Some stop \<Rightarrow> (case range_owned K d (make_prefix parts) stop of Inl _ \<Rightarrow> [] | Inr pairs \<Rightarrow> pairs))"

definition lmdb_manifests :: "('d, 'm) kv_api \<Rightarrow> ('d, 'm) lmdb \<Rightarrow> string \<Rightarrow> string list" where
  "lmdb_manifests K s repo =
     reading K s []
       (List.map_filter (\<lambda>(k, _). let parts = split_key k in
            if 2 \<le> length parts then utf8_ok (parts ! 1) else None)
          (prefix_entries K (lm_media_types s) [repo]))"

definition lmdb_tags_snapshot :: "('d, 'm) kv_api \<Rightarrow> ('d, 'm) lmdb \<Rightarrow> string \<Rightarrow> (string \<times> string \<times> string) list" where
  "lmdb_tags_snapshot K s repo =
     reading K s []
       (List.map_filter (\<lambda>(k, v). let parts = split_key k in
            if length parts < 2 \<or> parts ! 0 \<noteq> repo then None
            else Option.bind (utf8_ok (parts ! 1)) (\<lambda>tag. map_option (\<lambda>x. (tag, x)) (decode_tag v)))
          (prefix_entries K (lm_tags s) [repo]))"

fun snapshot_loop :: "string \<Rightarrow> (bytes \<times> bytes) list \<Rightarrow> (string, referrer list) btree_map
    \<Rightarrow> (string, referrer list) btree_map" where
  "snapshot_loop repo [] result = result"
| "snapshot_loop repo ((k, v) # pairs) result =
     (let parts = split_key k in
      if length parts < 3 \<or> parts ! 0 \<noteq> repo then result
      else let subject = from_utf8_lossy (parts ! 1); ref = from_utf8_lossy (parts ! 2) in
           snapshot_loop repo pairs
             (bt_insert subject (entry_or [] subject result @ [(ref, v)]) result))"

definition lmdb_referrers_snapshot :: "('d, 'm) kv_api \<Rightarrow> ('d, 'm) lmdb \<Rightarrow> string \<Rightarrow> (string \<times> referrer list) list" where
  "lmdb_referrers_snapshot K s repo =
     reading K s [] (snapshot_loop repo (prefix_entries K (lm_referrers s) [repo]) [])"

section \<open>Export\<close>

text \<open>
  Each block feeds its table to the sink, stopping at the first error of the iterator or the sink.
  The first block also collects the manifests that carry a tag.
\<close>

definition export_entries :: "(bytes \<times> bytes \<Rightarrow> 's \<Rightarrow> io_error + 's) \<Rightarrow> kv_entries \<Rightarrow> 's \<Rightarrow> io_error + 's" where
  "export_entries step it s =
     and_then (heed it) (\<lambda>xs. try_fold (\<lambda>entry s. and_then (heed entry) (\<lambda>kv. step kv s)) xs s)"

definition export_tag :: "(meta_op \<Rightarrow> 's \<Rightarrow> io_error + 's) \<Rightarrow> bytes \<times> bytes \<Rightarrow> (string \<times> string) list \<times> 's
    \<Rightarrow> io_error + ((string \<times> string) list \<times> 's)" where
  "export_tag sink kv st =
     (let parts = split_key (fst kv) in
      if length parts < 2 then Inr st
      else let repo = utf8_or_empty (parts ! 0); tag = utf8_or_empty (parts ! 1) in
           case split_once CHR 0x00 (snd kv) of
             None \<Rightarrow> Inr st
           | Some (d, m) \<Rightarrow>
               let digest = utf8_or_empty d; media_type = utf8_or_empty m in
               and_then (sink (PutManifest repo digest media_type (Some tag) [] None) (snd st)) (\<lambda>s.
                 Inr (List.insert (repo, digest) (fst st), s)))"

definition export_untagged :: "(string \<times> string) list \<Rightarrow> (meta_op \<Rightarrow> 's \<Rightarrow> io_error + 's) \<Rightarrow> bytes \<times> bytes \<Rightarrow> 's
    \<Rightarrow> io_error + 's" where
  "export_untagged tagged sink kv s =
     (let parts = split_key (fst kv) in
      if length parts < 2 then Inr s
      else let repo = utf8_or_empty (parts ! 0); digest = utf8_or_empty (parts ! 1) in
           if (repo, digest) \<in> set tagged then Inr s
           else sink (PutManifest repo digest (utf8_or_empty (snd kv)) None [] None) s)"

definition export_backref :: "(meta_op \<Rightarrow> 's \<Rightarrow> io_error + 's) \<Rightarrow> bytes \<times> bytes \<Rightarrow> 's \<Rightarrow> io_error + 's" where
  "export_backref sink kv s =
     (let parts = split_key (fst kv) in
      if length parts < 2 then Inr s
      else sink (PutBackrefs (utf8_or_empty (parts ! 0)) (utf8_or_empty (snd kv)) [utf8_or_empty (parts ! 1)]) s)"

definition export_referrer :: "(meta_op \<Rightarrow> 's \<Rightarrow> io_error + 's) \<Rightarrow> bytes \<times> bytes \<Rightarrow> 's \<Rightarrow> io_error + 's" where
  "export_referrer sink kv s =
     (let parts = split_key (fst kv) in
      if length parts < 3 then Inr s
      else sink (PutReferrer (utf8_or_empty (parts ! 0)) (utf8_or_empty (parts ! 1)) (utf8_or_empty (parts ! 2))
                   (snd kv)) s)"

definition export_checksum :: "(meta_op \<Rightarrow> 's \<Rightarrow> io_error + 's) \<Rightarrow> bytes \<times> bytes \<Rightarrow> 's \<Rightarrow> io_error + 's" where
  "export_checksum sink kv s =
     (let parts = split_key (fst kv) in
      if length parts < 2 then Inr s
      else let ck = decode_checksum (snd kv) in
           sink (PutChecksum (utf8_or_empty (parts ! 0)) (utf8_or_empty (parts ! 1)) (ck_crc32c ck) (ck_size ck)) s)"

definition lmdb_export :: "('d, 'm) kv_api \<Rightarrow> ('d, 'm) lmdb \<Rightarrow> (meta_op \<Rightarrow> 's \<Rightarrow> io_error + 's) \<Rightarrow> 's \<Rightarrow> io_error + 's" where
  "lmdb_export K db sink s0 =
     and_then (heed (env_read_txn K db)) (\<lambda>_.
     and_then (export_entries (export_tag sink) (kv_iter K (lm_tags db)) ([], s0)) (\<lambda>(tagged, s1).
     and_then (export_entries (export_untagged tagged sink) (kv_iter K (lm_media_types db)) s1) (\<lambda>s2.
     and_then (export_entries (export_backref sink) (dup_iter K (lm_backrefs db)) s2) (\<lambda>s3.
     and_then (export_entries (export_referrer sink) (kv_iter K (lm_referrers db)) s3) (\<lambda>s4.
       export_entries (export_checksum sink) (kv_iter K (lm_checksums db)) s4)))))"

definition lmdb_maintain :: "('d, 'm) kv_api \<Rightarrow> ('d, 'm) lmdb \<Rightarrow> io_error + unit" where
  "lmdb_maintain K s = heed (env_force_sync K s)"

end
