(* ===== verification/Lmdb_Refine.thy ===== *)
theory Lmdb_Refine
  imports Meta_Lmdb
begin

text \<open>
  The LMDB engine implements the metadata contract. A plain database represents a finite map over
  lists of key parts, one with duplicates a relation; the ten tables are functions of the view, and
  each step of a write transaction moves the tables to those of the next view.
\<close>

section \<open>Laws of the package\<close>

lemma oks_map_Inr [simp]: "oks (map Inr xs) = xs" "oks (map (\<lambda>x. Inr (g x)) ys) = map g ys"
  by (induction xs, auto) (induction ys, auto)

lemma ok_entries_simps [simp]: "ok_entries (Inr (map Inr xs)) = xs" "ok_entries (Inr []) = []"
  by (simp_all add: ok_entries_def)

abbreviation entries :: "('d, 'm) kv_api \<Rightarrow> 'd \<Rightarrow> (bytes \<times> bytes) list" where
  "entries K d \<equiv> ok_entries (kv_iter K d)"

abbreviation dup_entries :: "('d, 'm) kv_api \<Rightarrow> 'm \<Rightarrow> (bytes \<times> bytes) list" where
  "dup_entries K m \<equiv> ok_entries (dup_iter K m)"

lemma kv_env [simp]:
  assumes "kv_ok K"
  shows "env_read_txn K s = Inr ()" "env_write_txn K s = Inr ()" "env_commit K s = Inr ()"
    "env_force_sync K s = Inr ()"
  using assms unfolding kv_ok_def by (elim conjE, simp)+

lemma kv_table:
  assumes "kv_ok K"
  shows "kv_iter K d = Inr (map Inr (entries K d))" and "bt_invar (entries K d)"
    and "kv_get K d k = Inr (map_of (entries K d) k)"
    and "kv_range K d a b = Inr (map Inr (filter (\<lambda>p. a \<le> fst p \<and> fst p < b) (entries K d)))"
proof -
  from assms obtain es where "kv_iter K d = Inr (map Inr es)" "bt_invar es"
      "kv_get K d k = Inr (map_of es k)"
      "kv_range K d a b = Inr (map Inr (filter (\<lambda>p. a \<le> fst p \<and> fst p < b) es))"
    unfolding kv_ok_def by meson
  then show "kv_iter K d = Inr (map Inr (entries K d))" "bt_invar (entries K d)"
    "kv_get K d k = Inr (map_of (entries K d) k)"
    "kv_range K d a b = Inr (map Inr (filter (\<lambda>p. a \<le> fst p \<and> fst p < b) (entries K d)))"
    by simp_all
qed

lemma kv_fresh: "kv_ok K \<Longrightarrow> entries K (kv_new K) = []" "kv_ok K \<Longrightarrow> dup_entries K (dup_new K) = []"
  unfolding kv_ok_def by (elim conjE, simp only: ok_entries_simps)+

lemma dup_table:
  assumes "kv_ok K"
  shows "dup_iter K m = Inr (map Inr (dup_entries K m))" and "distinct (dup_entries K m)"
    and "dup_values K m k = Inr (map Inr (filter (\<lambda>p. fst p = k) (dup_entries K m)))"
proof -
  from assms obtain es where "dup_iter K m = Inr (map Inr es)" "distinct es"
      "dup_values K m k = Inr (map Inr (filter (\<lambda>p. fst p = k) es))"
    unfolding kv_ok_def by meson
  then show "dup_iter K m = Inr (map Inr (dup_entries K m))" "distinct (dup_entries K m)"
    "dup_values K m k = Inr (map Inr (filter (\<lambda>p. fst p = k) (dup_entries K m)))" by simp_all
qed

text \<open>The state after a write that succeeds.\<close>

definition putd :: "('d, 'm) kv_api \<Rightarrow> bytes \<Rightarrow> bytes \<Rightarrow> 'd \<Rightarrow> 'd" where
  "putd K k v d = projr (kv_put K k v d)"

definition deld :: "('d, 'm) kv_api \<Rightarrow> bytes \<Rightarrow> 'd \<Rightarrow> 'd" where
  "deld K k d = projr (kv_delete K k d)"

definition putm :: "('d, 'm) kv_api \<Rightarrow> bytes \<Rightarrow> bytes \<Rightarrow> 'm \<Rightarrow> 'm" where
  "putm K k v m = projr (dup_put K k v m)"

definition del1m :: "('d, 'm) kv_api \<Rightarrow> bytes \<Rightarrow> bytes \<Rightarrow> 'm \<Rightarrow> 'm" where
  "del1m K k v m = projr (dup_delete_one K k v m)"

definition delm :: "('d, 'm) kv_api \<Rightarrow> bytes \<Rightarrow> 'm \<Rightarrow> 'm" where
  "delm K k m = projr (dup_delete K k m)"

lemma kv_writes:
  assumes "kv_ok K" "0 < length k" "length k \<le> MAX_KEY"
  shows "kv_put K k v d = Inr (putd K k v d)" and "entries K (putd K k v d) = bt_insert k v (entries K d)"
    and "kv_delete K k d = Inr (deld K k d)" and "entries K (deld K k d) = bt_remove k (entries K d)"
proof -
  have "\<forall>d k v. 0 < length k \<and> length k \<le> MAX_KEY \<longrightarrow>
        (\<exists>d'. kv_put K k v d = Inr d' \<and> entries K d' = bt_insert k v (entries K d)) \<and>
        (\<exists>d'. kv_delete K k d = Inr d' \<and> entries K d' = bt_remove k (entries K d))"
    using assms(1) unfolding kv_ok_def by (elim conjE)
  then have "(\<exists>d'. kv_put K k v d = Inr d' \<and> entries K d' = bt_insert k v (entries K d)) \<and>
        (\<exists>d'. kv_delete K k d = Inr d' \<and> entries K d' = bt_remove k (entries K d))"
    using assms(2,3) by simp
  then show "kv_put K k v d = Inr (putd K k v d)" "entries K (putd K k v d) = bt_insert k v (entries K d)"
    "kv_delete K k d = Inr (deld K k d)" "entries K (deld K k d) = bt_remove k (entries K d)"
    unfolding putd_def deld_def by (elim conjE exE, simp only: sum.sel)+
qed

lemma dup_writes:
  assumes "kv_ok K" "0 < length k" "length k \<le> MAX_KEY" "0 < length v" "length v \<le> MAX_KEY"
  shows "dup_put K k v m = Inr (putm K k v m)"
    and "set (dup_entries K (putm K k v m)) = insert (k, v) (set (dup_entries K m))"
    and "dup_delete_one K k v m = Inr (del1m K k v m)"
    and "set (dup_entries K (del1m K k v m)) = set (dup_entries K m) - {(k, v)}"
proof -
  have "\<forall>m k v. 0 < length k \<and> length k \<le> MAX_KEY \<and> 0 < length v \<and> length v \<le> MAX_KEY \<longrightarrow>
        (\<exists>m'. dup_put K k v m = Inr m' \<and> set (dup_entries K m') = insert (k, v) (set (dup_entries K m))) \<and>
        (\<exists>m'. dup_delete_one K k v m = Inr m' \<and> set (dup_entries K m') = set (dup_entries K m) - {(k, v)})"
    using assms(1) unfolding kv_ok_def by (elim conjE)
  then have "(\<exists>m'. dup_put K k v m = Inr m' \<and> set (dup_entries K m') = insert (k, v) (set (dup_entries K m))) \<and>
        (\<exists>m'. dup_delete_one K k v m = Inr m' \<and> set (dup_entries K m') = set (dup_entries K m) - {(k, v)})"
    using assms(2-5) by simp
  then show "dup_put K k v m = Inr (putm K k v m)"
    "set (dup_entries K (putm K k v m)) = insert (k, v) (set (dup_entries K m))"
    "dup_delete_one K k v m = Inr (del1m K k v m)"
    "set (dup_entries K (del1m K k v m)) = set (dup_entries K m) - {(k, v)}"
    unfolding putm_def del1m_def by (elim conjE exE, simp only: sum.sel)+
qed

lemma dup_deletes:
  assumes "kv_ok K" "0 < length k" "length k \<le> MAX_KEY"
  shows "dup_delete K k m = Inr (delm K k m)"
    and "set (dup_entries K (delm K k m)) = {p \<in> set (dup_entries K m). fst p \<noteq> k}"
proof -
  have "\<forall>m k. 0 < length k \<and> length k \<le> MAX_KEY \<longrightarrow>
        (\<exists>m'. dup_delete K k m = Inr m' \<and> set (dup_entries K m') = {p \<in> set (dup_entries K m). fst p \<noteq> k})"
    using assms(1) unfolding kv_ok_def by (elim conjE)
  then have "\<exists>m'. dup_delete K k m = Inr m' \<and> set (dup_entries K m') = {p \<in> set (dup_entries K m). fst p \<noteq> k}"
    using assms(2,3) by simp
  then show "dup_delete K k m = Inr (delm K k m)"
    "set (dup_entries K (delm K k m)) = {p \<in> set (dup_entries K m). fst p \<noteq> k}"
    unfolding delm_def by (elim conjE exE, simp only: sum.sel)+
qed

section \<open>Tables\<close>

definition key_fits :: "bytes list \<Rightarrow> bool" where
  "key_fits ks \<longleftrightarrow> ks \<noteq> [] \<and> list_all nul_free ks \<and> length (make_key ks) \<le> MAX_KEY"

lemma key_fits_length: "key_fits ks \<Longrightarrow> 0 < length (make_key ks)" "key_fits ks \<Longrightarrow> length (make_key ks) \<le> MAX_KEY"
  by (cases ks; simp add: key_fits_def)+

definition rep :: "('d, 'm) kv_api \<Rightarrow> nat \<Rightarrow> 'd \<Rightarrow> (bytes list \<rightharpoonup> bytes) \<Rightarrow> bool" where
  "rep K n d f \<longleftrightarrow> (\<forall>ks v. f ks = Some v \<longrightarrow> length ks = n \<and> key_fits ks)
     \<and> map_of (entries K d) = (\<lambda>k. if k = make_key (split_key k) then f (split_key k) else None)"

definition dup_rep :: "('d, 'm) kv_api \<Rightarrow> nat \<Rightarrow> 'm \<Rightarrow> (bytes list \<Rightarrow> bytes set) \<Rightarrow> bool" where
  "dup_rep K n m F \<longleftrightarrow> (\<forall>ks v. v \<in> F ks \<longrightarrow> length ks = n \<and> key_fits ks \<and> 0 < length v \<and> length v \<le> MAX_KEY)
     \<and> set (dup_entries K m) = {(make_key ks, v) | ks v. v \<in> F ks}"

text \<open>A key built of as many parts as a stored one, and equal to it, has no NUL inside a part.\<close>

lemma count_nul_make_key:
  "count_list (make_key ps) CHR 0x00 = length ps + sum_list (map (\<lambda>p. count_list p CHR 0x00) ps)"
  by (induction ps) (auto simp: count_list_append)

lemma nul_free_count: "nul_free p \<longleftrightarrow> count_list p CHR 0x00 = 0"
  by (simp add: nul_free_def count_list_0_iff)

lemma make_key_same_length:
  assumes "make_key ps = make_key ks" "list_all nul_free ks" "length ps = length ks"
  shows "ps = ks"
proof -
  have "sum_list (map (\<lambda>p. count_list p CHR 0x00) ks) = 0"
    using assms(2) by (simp add: nul_free_count list_all_iff)
  moreover have "length ps + sum_list (map (\<lambda>p. count_list p CHR 0x00) ps)
      = length ks + sum_list (map (\<lambda>p. count_list p CHR 0x00) ks)"
    by (simp only: count_nul_make_key [symmetric] assms(1))
  ultimately have "sum_list (map (\<lambda>p. count_list p CHR 0x00) ps) = 0" using assms(3) by linarith
  then have "list_all nul_free ps" by (simp add: nul_free_count list_all_iff sum_list_eq_0_iff)
  then show ?thesis using assms(1,2) make_key_inject by blast
qed

lemma make_split_key: "split_key (make_key ks) = ks \<Longrightarrow> make_key (split_key (make_key ks)) = make_key ks"
  by simp

lemma rep_get:
  assumes "kv_ok K" "rep K n d f" "length ps = n"
  shows "kv_get K d (make_key ps) = Inr (f ps)"
proof -
  have "map_of (entries K d) (make_key ps) = f ps"
  proof (cases "list_all nul_free ps")
    case True
    then show ?thesis using assms(2) by (simp add: rep_def)
  next
    case False
    then have none: "f ps = None" using assms(2) by (cases "f ps") (auto simp: rep_def key_fits_def)
    show ?thesis
    proof (rule ccontr)
      assume "map_of (entries K d) (make_key ps) \<noteq> f ps"
      then have *: "f (split_key (make_key ps)) \<noteq> None" "make_key ps = make_key (split_key (make_key ps))"
        using assms(2) none by (auto simp: rep_def split: if_splits)
      then have "list_all nul_free (split_key (make_key ps))" "length (split_key (make_key ps)) = n"
        using assms(2) by (auto simp: rep_def key_fits_def)
      with make_key_same_length [OF *(2)] assms(3) have "ps = split_key (make_key ps)" by simp
      with * none show False by simp
    qed
  qed
  then show ?thesis using assms(1) by (simp add: kv_table(3))
qed

lemma rep_put:
  assumes "kv_ok K" "rep K n d f" "key_fits ks" "length ks = n"
  shows "kv_put K (make_key ks) v d = Inr (putd K (make_key ks) v d)"
    and "rep K n (putd K (make_key ks) v d) (f(ks \<mapsto> v))"
proof -
  note w = kv_writes [OF assms(1) key_fits_length [OF assms(3)]]
  show "kv_put K (make_key ks) v d = Inr (putd K (make_key ks) v d)" by (rule w)
  have "split_key (make_key ks) = ks" using assms(3) by (simp add: key_fits_def)
  then have "map_of (entries K (putd K (make_key ks) v d)) k
      = (if k = make_key (split_key k) then (f(ks \<mapsto> v)) (split_key k) else None)" for k
    using assms(2) by (auto simp: w rep_def)
  then show "rep K n (putd K (make_key ks) v d) (f(ks \<mapsto> v))"
    using assms(2-4) by (auto simp: rep_def fun_eq_iff)
qed

lemma rep_delete:
  assumes "kv_ok K" "rep K n d f" "key_fits ks" "length ks = n"
  shows "kv_delete K (make_key ks) d = Inr (deld K (make_key ks) d)"
    and "rep K n (deld K (make_key ks) d) (f(ks := None))"
proof -
  note w = kv_writes [OF assms(1) key_fits_length [OF assms(3)]]
  show "kv_delete K (make_key ks) d = Inr (deld K (make_key ks) d)" by (rule w)
  have "split_key (make_key ks) = ks" using assms(3) by (simp add: key_fits_def)
  then have "map_of (entries K (deld K (make_key ks) d)) k
      = (if k = make_key (split_key k) then (f(ks := None)) (split_key k) else None)" for k
    using assms(2) by (auto simp: w rep_def)
  then show "rep K n (deld K (make_key ks) d) (f(ks := None))"
    using assms(2-4) by (auto simp: rep_def fun_eq_iff)
qed

lemma rep_mem:
  assumes "kv_ok K" "rep K n d f"
  shows "(k, v) \<in> set (entries K d) \<longleftrightarrow> (\<exists>ks. k = make_key ks \<and> f ks = Some v)"
proof -
  have "(k, v) \<in> set (entries K d) \<longleftrightarrow> map_of (entries K d) k = Some v"
    using kv_table(2) [OF assms(1), of d] by (simp add: bt_invar_distinct)
  also have "\<dots> \<longleftrightarrow> (\<exists>ks. k = make_key ks \<and> f ks = Some v)"
  proof -
    have "split_key (make_key ks) = ks" if "f ks = Some v" for ks
      using assms(2) that by (simp add: rep_def key_fits_def)
    then show ?thesis using assms(2) by (auto simp: rep_def)
  qed
  finally show ?thesis .
qed

lemma rep_fits: "rep K n d f \<Longrightarrow> f ks = Some v \<Longrightarrow> length ks = n \<and> key_fits ks"
  by (simp add: rep_def)

lemma rep_finite:
  assumes "kv_ok K" "rep K n d f"
  shows "finite {x. f (ps @ [x]) \<noteq> None}"
proof (rule finite_subset)
  show "{x. f (ps @ [x]) \<noteq> None} \<subseteq> (\<lambda>e. last (split_key (fst e))) ` set (entries K d)"
  proof
    fix x assume "x \<in> {x. f (ps @ [x]) \<noteq> None}"
    then obtain v where v: "f (ps @ [x]) = Some v" by auto
    then have "(make_key (ps @ [x]), v) \<in> set (entries K d)" using rep_mem [OF assms] by blast
    moreover have "split_key (make_key (ps @ [x])) = ps @ [x]"
      using rep_fits [OF assms(2) v] by (simp add: key_fits_def)
    ultimately show "x \<in> (\<lambda>e. last (split_key (fst e))) ` set (entries K d)" by force
  qed
qed simp

text \<open>The entries under a prefix one part shorter than the keys, in order of the last part.\<close>

definition children :: "(bytes list \<rightharpoonup> bytes) \<Rightarrow> bytes list \<Rightarrow> bytes list" where
  "children f ps = sorted_list_of_set {x. f (ps @ [x]) \<noteq> None}"

definition child_entry :: "(bytes list \<rightharpoonup> bytes) \<Rightarrow> bytes list \<Rightarrow> bytes \<Rightarrow> bytes \<times> bytes" where
  "child_entry f ps x = (make_key (ps @ [x]), the (f (ps @ [x])))"

lemma in_children: "kv_ok K \<Longrightarrow> rep K n d f \<Longrightarrow> x \<in> set (children f ps) \<longleftrightarrow> f (ps @ [x]) \<noteq> None"
  using rep_finite [of K n d f ps] by (simp add: children_def)

lemma child_nul_free:
  assumes "kv_ok K" "rep K n d f" "x \<in> set (children f ps)"
  shows "nul_free x"
proof -
  have "f (ps @ [x]) \<noteq> None" using assms(3) in_children [OF assms(1,2)] by blast
  then obtain v where "f (ps @ [x]) = Some v" by blast
  then have "key_fits (ps @ [x])" using rep_fits [OF assms(2)] by blast
  then show ?thesis by (simp add: key_fits_def)
qed

lemma rep_children:
  assumes "kv_ok K" "rep K (Suc (length ps)) d f" "list_all nul_free ps"
  shows "filter (\<lambda>p. prefix (make_key ps) (fst p)) (entries K d) = map (child_entry f ps) (children f ps)"
proof (rule bt_ext)
  show bl: "bt_invar (filter (\<lambda>p. prefix (make_key ps) (fst p)) (entries K d))"
    using assms(1) by (simp add: kv_table(2))
  have "sorted_wrt (\<lambda>x y. make_key (ps @ [x]) < make_key (ps @ [y])) (children f ps)"
  proof (rule sorted_wrt_mono_rel)
    show "make_key (ps @ [x]) < make_key (ps @ [y])"
      if "x \<in> set (children f ps)" "y \<in> set (children f ps)" "x < y" for x y
      using that child_nul_free [OF assms(1,2)] by (simp only: make_key_child_less)
    show "sorted_wrt (<) (children f ps)" by (simp add: children_def)
  qed
  then show br: "bt_invar (map (child_entry f ps) (children f ps))"
    by (simp add: bt_invar_def sorted_wrt_map child_entry_def)
  have 1: "(k, v) \<in> set (filter (\<lambda>p. prefix (make_key ps) (fst p)) (entries K d))
      \<longleftrightarrow> (\<exists>ks. k = make_key ks \<and> prefix ps ks \<and> f ks = Some v)" for k v
  proof -
    have "prefix (make_key ps) (make_key ks) \<longleftrightarrow> prefix ps ks" if "f ks = Some v" for ks
      using rep_fits [OF assms(2) that] assms(3) by (simp add: key_fits_def prefix_make_key)
    then show ?thesis using rep_mem [OF assms(1,2), of k v] by auto
  qed
  have 2: "prefix ps ks \<and> f ks = Some v \<longleftrightarrow> (\<exists>x. ks = ps @ [x] \<and> f (ps @ [x]) = Some v)" for ks v
  proof
    assume a: "prefix ps ks \<and> f ks = Some v"
    then obtain zs where z: "ks = ps @ zs" by (auto simp: prefix_def)
    moreover have "length ks = Suc (length ps)" using a rep_fits [OF assms(2)] by blast
    ultimately show "\<exists>x. ks = ps @ [x] \<and> f (ps @ [x]) = Some v" using a by (cases zs) auto
  qed auto
  have 3: "(k, v) \<in> set (map (child_entry f ps) (children f ps))
      \<longleftrightarrow> (\<exists>x. k = make_key (ps @ [x]) \<and> f (ps @ [x]) = Some v)" for k v
    unfolding set_map image_iff Bex_def in_children [OF assms(1,2)] by (auto simp: child_entry_def)
  have "(k, v) \<in> set (filter (\<lambda>p. prefix (make_key ps) (fst p)) (entries K d))
      \<longleftrightarrow> (k, v) \<in> set (map (child_entry f ps) (children f ps))" for k v
    unfolding 1 2 3 by blast
  then have "set (filter (\<lambda>p. prefix (make_key ps) (fst p)) (entries K d)) = set (map (child_entry f ps) (children f ps))"
    by (intro set_eqI) (simp only: split_paired_all)
  then show "map_of (filter (\<lambda>p. prefix (make_key ps) (fst p)) (entries K d))
      = map_of (map (child_entry f ps) (children f ps))"
    using map_of_inject_set [OF bt_invar_distinct [OF bl] bt_invar_distinct [OF br]] by blast
qed

lemma prefix_le: "prefix p (k :: bytes) \<Longrightarrow> p \<le> k"
proof -
  assume "prefix p k"
  then obtain z where "k = p @ z" by (auto simp: prefix_def)
  then show ?thesis using append_less_cancel(2) [of p "[]" z] by simp
qed

lemma range_prefix:
  assumes "kv_ok K" "rep K (Suc (length ps)) d f" "list_all nul_free ps"
    and "prefix_successor (make_prefix ps) = Some e"
  shows "kv_range K d (make_prefix ps) e = Inr (map Inr (map (child_entry f ps) (children f ps)))"
proof -
  have "filter (\<lambda>p. make_prefix ps \<le> fst p \<and> fst p < e) (entries K d)
      = filter (\<lambda>p. prefix (make_key ps) (fst p)) (entries K d)"
    using prefix_between [OF assms(4)] by (simp add: make_prefix_def)
  then show ?thesis by (simp add: kv_table(4) assms(1) rep_children [OF assms(1-3)])
qed

lemma range_after:
  assumes "kv_ok K" "rep K (Suc (length ps)) d f" "list_all nul_free ps" "nul_free c"
    and "prefix_successor (make_prefix ps) = Some e"
  shows "kv_range K d (make_key (ps @ [c]) @ [CHR 0x00]) e
       = Inr (map Inr (map (child_entry f ps) (filter (\<lambda>x. c < x) (children f ps))))"
proof -
  let ?start = "make_key (ps @ [c]) @ [CHR 0x00]"
  have "make_prefix ps \<le> ?start" by (rule prefix_le) (simp add: make_prefix_def make_key_append)
  then have "?start \<le> k \<and> k < e \<longleftrightarrow> prefix (make_key ps) k \<and> ?start \<le> k" for k
    using prefix_between [OF assms(5), of k] by (auto simp: make_prefix_def)
  then have "filter (\<lambda>p. ?start \<le> fst p \<and> fst p < e) (entries K d)
      = filter (\<lambda>p. ?start \<le> fst p) (filter (\<lambda>p. prefix (make_key ps) (fst p)) (entries K d))"
    by (auto intro: filter_cong)
  also have "\<dots> = map (child_entry f ps) (filter (\<lambda>x. c < x) (children f ps))"
  proof -
    have "?start \<le> fst (child_entry f ps x) \<longleftrightarrow> c < x" if "x \<in> set (children f ps)" for x
      using child_nul_free [OF assms(1,2) that] make_key_child_after [OF _ assms(4)] by (simp add: child_entry_def)
    then show ?thesis by (simp add: rep_children [OF assms(1-3)] filter_map o_def cong: filter_cong)
  qed
  finally show ?thesis by (simp add: kv_table(4) assms(1))
qed

text \<open>Databases with duplicates.\<close>

lemma dup_rep_put:
  assumes "kv_ok K" "dup_rep K n m F" "key_fits ks" "length ks = n" "0 < length v" "length v \<le> MAX_KEY"
  shows "dup_put K (make_key ks) v m = Inr (putm K (make_key ks) v m)"
    and "dup_rep K n (putm K (make_key ks) v m) (F(ks := insert v (F ks)))"
proof -
  note w = dup_writes [OF assms(1) key_fits_length [OF assms(3)] assms(5,6)]
  show "dup_put K (make_key ks) v m = Inr (putm K (make_key ks) v m)" by (rule w)
  have "{(make_key ks', v') | ks' v'. v' \<in> (F(ks := insert v (F ks))) ks'}
      = insert (make_key ks, v) {(make_key ks', v') | ks' v'. v' \<in> F ks'}"
    by (auto split: if_splits)
  then show "dup_rep K n (putm K (make_key ks) v m) (F(ks := insert v (F ks)))"
    using assms(2-6) unfolding dup_rep_def w(2) by (auto split: if_splits)
qed

lemma dup_rep_inject:
  assumes "dup_rep K n m F" "v \<in> F ks" "list_all nul_free ps" "make_key ks = make_key ps"
  shows "ks = ps"
  using assms make_key_inject [of ks ps] by (auto simp: dup_rep_def key_fits_def)

lemma dup_rep_delete_one:
  assumes "kv_ok K" "dup_rep K n m F" "key_fits ks" "0 < length v" "length v \<le> MAX_KEY"
  shows "dup_delete_one K (make_key ks) v m = Inr (del1m K (make_key ks) v m)"
    and "dup_rep K n (del1m K (make_key ks) v m) (F(ks := F ks - {v}))"
proof -
  note w = dup_writes [OF assms(1) key_fits_length [OF assms(3)] assms(4,5)]
  show "dup_delete_one K (make_key ks) v m = Inr (del1m K (make_key ks) v m)" by (rule w)
  have "ks' = ks" if "v' \<in> F ks'" "make_key ks' = make_key ks" for ks' v'
    using dup_rep_inject [OF assms(2) that(1) _ that(2)] assms(3) by (simp add: key_fits_def)
  moreover have e: "v' \<in> (F(ks := F ks - {v})) ks' \<longleftrightarrow> v' \<in> F ks' \<and> (ks' = ks \<longrightarrow> v' \<noteq> v)" for ks' v' by auto
  ultimately have "{(make_key ks', v') | ks' v'. v' \<in> (F(ks := F ks - {v})) ks'}
      = {(make_key ks', v') | ks' v'. v' \<in> F ks'} - {(make_key ks, v)}"
    unfolding e by fast
  then show "dup_rep K n (del1m K (make_key ks) v m) (F(ks := F ks - {v}))"
    using assms(2) unfolding dup_rep_def w(4) e by (simp only: simp_thms) blast
qed

lemma dup_rep_delete:
  assumes "kv_ok K" "dup_rep K n m F" "key_fits ks"
  shows "dup_delete K (make_key ks) m = Inr (delm K (make_key ks) m)"
    and "dup_rep K n (delm K (make_key ks) m) (F(ks := {}))"
proof -
  note w = dup_deletes [OF assms(1) key_fits_length [OF assms(3)]]
  show "dup_delete K (make_key ks) m = Inr (delm K (make_key ks) m)" by (rule w)
  have "ks' = ks" if "v' \<in> F ks'" "make_key ks' = make_key ks" for ks' v'
    using dup_rep_inject [OF assms(2) that(1) _ that(2)] assms(3) by (simp add: key_fits_def)
  moreover have e: "v' \<in> (F(ks := {})) ks' \<longleftrightarrow> v' \<in> F ks' \<and> ks' \<noteq> ks" for ks' v' by auto
  ultimately have "{(make_key ks', v') | ks' v'. v' \<in> (F(ks := {})) ks'}
      = {p \<in> {(make_key ks', v') | ks' v'. v' \<in> F ks'}. fst p \<noteq> make_key ks}"
    unfolding e by fastforce
  then show "dup_rep K n (delm K (make_key ks) m) (F(ks := {}))"
    using assms(2) unfolding dup_rep_def w(2) e by (simp only: simp_thms) blast
qed

lemma dup_rep_values:
  assumes "kv_ok K" "dup_rep K n m F" "length ps = n"
  shows "\<exists>vs. dup_values K m (make_key ps) = Inr (map Inr (map (Pair (make_key ps)) vs)) \<and> distinct vs \<and> set vs = F ps"
proof (intro exI conjI)
  let ?es = "filter (\<lambda>p. fst p = make_key ps) (dup_entries K m)"
  have "map (Pair (make_key ps)) (map snd ?es) = ?es" by (auto intro!: map_idI simp: o_def)
  then show "dup_values K m (make_key ps) = Inr (map Inr (map (Pair (make_key ps)) (map snd ?es)))"
    by (simp add: dup_table(3) assms(1))
  have "inj_on snd (set ?es)" by (auto simp: inj_on_def)
  then show "distinct (map snd ?es)" using dup_table(2) [OF assms(1), of m] by (simp add: distinct_map)
  have "ks = ps" if "v \<in> F ks" "make_key ks = make_key ps" for ks v
  proof -
    have "length ks = n" "list_all nul_free ks" using assms(2) that(1) by (auto simp: dup_rep_def key_fits_def)
    then show ?thesis using make_key_same_length [of ps ks] that(2) assms(3) by simp
  qed
  then show "set (map snd ?es) = F ps" using assms(2) by (force simp: dup_rep_def image_iff)
qed

section \<open>The ten tables of a view\<close>

fun tags_tab :: "(string \<Rightarrow> string \<Rightarrow> (string \<times> string) option) \<Rightarrow> bytes list \<Rightarrow> bytes option" where
  "tags_tab T [r, t] = map_option (\<lambda>(d, m). d @ CHR 0x00 # m) (T r t)"
| "tags_tab T _ = None"

fun by_digest_tab :: "(string \<Rightarrow> string \<Rightarrow> (string \<times> string) option) \<Rightarrow> bytes list \<Rightarrow> bytes option" where
  "by_digest_tab T [r, d, t] = (if map_option fst (T r t) = Some d then Some [] else None)"
| "by_digest_tab T _ = None"

fun pair_tab :: "('x \<Rightarrow> bytes) \<Rightarrow> (string \<Rightarrow> string \<Rightarrow> 'x option) \<Rightarrow> bytes list \<Rightarrow> bytes option" where
  "pair_tab enc T [r, d] = map_option enc (T r d)"
| "pair_tab enc T _ = None"

fun referrers_tab :: "(string \<Rightarrow> string \<Rightarrow> string \<Rightarrow> bytes option) \<Rightarrow> bytes list \<Rightarrow> bytes option" where
  "referrers_tab T [r, s, d] = T r s d"
| "referrers_tab T _ = None"

fun types_tab :: "(bytes \<Rightarrow> string option) \<Rightarrow> (string \<Rightarrow> string \<Rightarrow> string \<Rightarrow> bytes option) \<Rightarrow> bytes list \<Rightarrow> bytes option" where
  "types_tab aty T [r, s, d] = Option.bind (T r s d) aty"
| "types_tab aty T _ = None"

fun by_type_tab :: "(bytes \<Rightarrow> string option) \<Rightarrow> (string \<Rightarrow> string \<Rightarrow> string \<Rightarrow> bytes option) \<Rightarrow> bytes list \<Rightarrow> bytes option" where
  "by_type_tab aty T [r, s, a, d] = (if Option.bind (T r s d) aty = Some a then Some [] else None)"
| "by_type_tab aty T _ = None"

fun reverse_tab :: "(string \<Rightarrow> string \<Rightarrow> string \<Rightarrow> bytes option) \<Rightarrow> bytes list \<Rightarrow> bytes option" where
  "reverse_tab T [r, d, s] = map_option (\<lambda>_. []) (T r s d)"
| "reverse_tab T _ = None"

fun backrefs_rel :: "(string \<Rightarrow> string \<Rightarrow> string set) \<Rightarrow> bytes list \<Rightarrow> bytes set" where
  "backrefs_rel B [r, b] = B r b"
| "backrefs_rel B _ = {}"

fun backrefs_rev_rel :: "(string \<Rightarrow> string \<Rightarrow> string set) \<Rightarrow> bytes list \<Rightarrow> bytes set" where
  "backrefs_rev_rel B [r, m] = {b. m \<in> B r b}"
| "backrefs_rev_rel B _ = {}"

abbreviation encode_ck :: "blob_checksum \<Rightarrow> bytes" where
  "encode_ck k \<equiv> encode_checksum (ck_crc32c k) (ck_size k)"

text \<open>Which views the engine can represent: keys fit, and what is stored is text.\<close>

definition text_fits :: "bytes list \<Rightarrow> bool" where
  "text_fits ks \<longleftrightarrow> key_fits ks \<and> list_all utf8_valid ks"

definition backref_fits :: "string \<Rightarrow> string \<Rightarrow> string \<Rightarrow> bool" where
  "backref_fits r m b \<longleftrightarrow> text_fits [r, b] \<and> text_fits [r, m] \<and> b \<noteq> [] \<and> m \<noteq> []"

definition view_fits :: "(bytes \<Rightarrow> string option) \<Rightarrow> meta_view \<Rightarrow> bool" where
  "view_fits aty v \<longleftrightarrow>
     (\<forall>r t d m. v_tags v r t = Some (d, m) \<longrightarrow> text_fits [r, d, t] \<and> utf8_valid m)
     \<and> (\<forall>r d m. v_media v r d = Some m \<longrightarrow> text_fits [r, d] \<and> utf8_valid m)
     \<and> (\<forall>r s d x. v_referrers v r s d = Some x \<longrightarrow> text_fits [r, s, d] \<and> (\<forall>a. aty x = Some a \<longrightarrow> text_fits [r, s, a, d]))
     \<and> (\<forall>r b m. m \<in> v_backrefs v r b \<longrightarrow> backref_fits r m b)
     \<and> (\<forall>r d k. v_checksums v r d = Some k \<longrightarrow> text_fits [r, d])"

fun lmdb_op_ok :: "(bytes \<Rightarrow> string option) \<Rightarrow> meta_op \<Rightarrow> bool" where
  "lmdb_op_ok aty (PutManifest r d m tag refs ref) \<longleftrightarrow>
     text_fits [r, d] \<and> utf8_valid m
     \<and> (case tag of None \<Rightarrow> True | Some t \<Rightarrow> text_fits [r, d, t])
     \<and> list_all (backref_fits r d) refs
     \<and> (case ref of None \<Rightarrow> True
        | Some (s, x) \<Rightarrow> text_fits [r, s, d] \<and> (case aty x of None \<Rightarrow> True | Some a \<Rightarrow> text_fits [r, s, a, d]))"
| "lmdb_op_ok aty (PutBackrefs r m bs) \<longleftrightarrow>
     list_all (backref_fits r m) bs"
| "lmdb_op_ok aty (DeleteManifest r d) \<longleftrightarrow> text_fits [r, d]"
| "lmdb_op_ok aty (PutReferrer r s d x) \<longleftrightarrow>
     text_fits [r, s, d] \<and> (case aty x of None \<Rightarrow> True | Some a \<Rightarrow> text_fits [r, s, a, d])"
| "lmdb_op_ok aty (PutChecksum r d c z) \<longleftrightarrow> text_fits [r, d]"
| "lmdb_op_ok aty (DeleteBlob r d) \<longleftrightarrow> text_fits [r, d]"

definition tables_ok :: "(bytes \<Rightarrow> string option) \<Rightarrow> ('d, 'm) kv_api \<Rightarrow> ('d, 'm) lmdb \<Rightarrow> meta_view \<Rightarrow> bool" where
  "tables_ok aty K s v \<longleftrightarrow>
     rep K 2 (lm_tags s) (tags_tab (v_tags v)) \<and> rep K 3 (lm_tags_by_digest s) (by_digest_tab (v_tags v)) \<and>
     rep K 2 (lm_media_types s) (pair_tab (\<lambda>m. m) (v_media v)) \<and>
     rep K 3 (lm_referrers s) (referrers_tab (v_referrers v)) \<and>
     rep K 3 (lm_referrer_types s) (types_tab aty (v_referrers v)) \<and>
     rep K 4 (lm_referrers_by_type s) (by_type_tab aty (v_referrers v)) \<and>
     rep K 3 (lm_referrers_reverse s) (reverse_tab (v_referrers v)) \<and>
     dup_rep K 2 (lm_backrefs s) (backrefs_rel (v_backrefs v)) \<and>
     dup_rep K 2 (lm_backrefs_reverse s) (backrefs_rev_rel (v_backrefs v)) \<and>
     rep K 2 (lm_checksums s) (pair_tab encode_ck (v_checksums v))"

text \<open>How an update of a map of the view changes the tables over it.\<close>

definition upd3 :: "'a \<Rightarrow> 'b \<Rightarrow> 'c \<Rightarrow> 'x \<Rightarrow> ('a \<Rightarrow> 'b \<Rightarrow> 'c \<Rightarrow> 'x) \<Rightarrow> 'a \<Rightarrow> 'b \<Rightarrow> 'c \<Rightarrow> 'x" where
  "upd3 a b c x f = upd2 a b ((f a b)(c := x)) f"

lemma upd3_apply: "upd3 a b c x f i j k = (if i = a \<and> j = b \<and> k = c then x else f i j k)"
  by (auto simp: upd3_def upd2_apply)

lemma tags_tab_upd: "tags_tab (upd2 r t x T) = (tags_tab T)([r, t] := map_option (\<lambda>(d, m). d @ CHR 0x00 # m) x)"
proof
  show "tags_tab (upd2 r t x T) ks = ((tags_tab T)([r, t] := map_option (\<lambda>(d, m). d @ CHR 0x00 # m) x)) ks" for ks
    by (cases "(T, ks)" rule: tags_tab.cases) (auto simp: upd2_apply)
qed

lemma by_digest_put:
  "by_digest_tab (upd2 r t (Some (d, m)) T) =
     (case T r t of None \<Rightarrow> by_digest_tab T | Some (old, _) \<Rightarrow> (by_digest_tab T)([r, old, t] := None))([r, d, t] \<mapsto> [])"
proof
  show "by_digest_tab (upd2 r t (Some (d, m)) T) ks =
      ((case T r t of None \<Rightarrow> by_digest_tab T | Some (old, _) \<Rightarrow> (by_digest_tab T)([r, old, t] := None))([r, d, t] \<mapsto> [])) ks"
    for ks
    by (cases "(T, ks)" rule: by_digest_tab.cases) (auto simp: upd2_apply split: option.splits)
qed

lemma by_digest_drop:
  assumes "\<And>d' m. T r t = Some (d', m) \<Longrightarrow> d' = d"
  shows "by_digest_tab (upd2 r t None T) = (by_digest_tab T)([r, d, t] := None)"
proof
  show "by_digest_tab (upd2 r t None T) ks = ((by_digest_tab T)([r, d, t] := None)) ks" for ks
    using assms by (cases "(T, ks)" rule: by_digest_tab.cases) (auto simp: upd2_apply)
qed

lemma pair_tab_upd: "pair_tab enc (upd2 r d x T) = (pair_tab enc T)([r, d] := map_option enc x)"
proof
  show "pair_tab enc (upd2 r d x T) ks = ((pair_tab enc T)([r, d] := map_option enc x)) ks" for ks
    by (cases "(enc, T, ks)" rule: pair_tab.cases) (auto simp: upd2_apply)
qed

lemma referrers_tab_upd: "referrers_tab (upd3 r s d x T) = (referrers_tab T)([r, s, d] := x)"
proof
  show "referrers_tab (upd3 r s d x T) ks = ((referrers_tab T)([r, s, d] := x)) ks" for ks
    by (cases "(T, ks)" rule: referrers_tab.cases) (auto simp: upd3_apply)
qed

lemma types_tab_upd: "types_tab aty (upd3 r s d x T) = (types_tab aty T)([r, s, d] := Option.bind x aty)"
proof
  show "types_tab aty (upd3 r s d x T) ks = ((types_tab aty T)([r, s, d] := Option.bind x aty)) ks" for ks
    by (cases "(aty, T, ks)" rule: types_tab.cases) (auto simp: upd3_apply)
qed

lemma reverse_tab_upd: "reverse_tab (upd3 r s d x T) = (reverse_tab T)([r, d, s] := map_option (\<lambda>_. []) x)"
proof
  show "reverse_tab (upd3 r s d x T) ks = ((reverse_tab T)([r, d, s] := map_option (\<lambda>_. []) x)) ks" for ks
    by (cases "(T, ks)" rule: reverse_tab.cases) (auto simp: upd3_apply)
qed

lemma by_type_drop:
  "by_type_tab aty (upd3 r s d None T) =
     (case Option.bind (T r s d) aty of None \<Rightarrow> by_type_tab aty T | Some a \<Rightarrow> (by_type_tab aty T)([r, s, a, d] := None))"
proof
  show "by_type_tab aty (upd3 r s d None T) ks =
      (case Option.bind (T r s d) aty of None \<Rightarrow> by_type_tab aty T
       | Some a \<Rightarrow> (by_type_tab aty T)([r, s, a, d] := None)) ks" for ks
    by (cases "(aty, T, ks)" rule: by_type_tab.cases) (auto simp: upd3_apply split: option.splits)
qed

lemma by_type_put:
  assumes "T r s d = None"
  shows "by_type_tab aty (upd3 r s d (Some x) T) =
     (case aty x of None \<Rightarrow> by_type_tab aty T | Some a \<Rightarrow> (by_type_tab aty T)([r, s, a, d] \<mapsto> []))"
proof
  show "by_type_tab aty (upd3 r s d (Some x) T) ks =
      (case aty x of None \<Rightarrow> by_type_tab aty T | Some a \<Rightarrow> (by_type_tab aty T)([r, s, a, d] \<mapsto> [])) ks" for ks
    using assms by (cases "(aty, T, ks)" rule: by_type_tab.cases) (auto simp: upd3_apply split: option.splits)
qed

lemma backrefs_rel_upd: "backrefs_rel (upd2 r b x B) = (backrefs_rel B)([r, b] := x)"
proof
  show "backrefs_rel (upd2 r b x B) ks = ((backrefs_rel B)([r, b] := x)) ks" for ks
    by (cases "(B, ks)" rule: backrefs_rel.cases) (auto simp: upd2_apply)
qed

lemma backrefs_rev_insert:
  "backrefs_rev_rel (upd2 r b (insert m (B r b)) B) = (backrefs_rev_rel B)([r, m] := insert b (backrefs_rev_rel B [r, m]))"
proof
  show "backrefs_rev_rel (upd2 r b (insert m (B r b)) B) ks =
      ((backrefs_rev_rel B)([r, m] := insert b (backrefs_rev_rel B [r, m]))) ks" for ks
    by (cases "(B, ks)" rule: backrefs_rev_rel.cases) (auto simp: upd2_apply split: if_splits)
qed

section \<open>Steps of a transaction\<close>

lemma text_fits_parts:
  "text_fits [a, b, c] \<Longrightarrow> text_fits [a, b]" "text_fits [a, b, c] \<Longrightarrow> text_fits [a, c]"
  "text_fits [a, b, c] \<Longrightarrow> text_fits [a, c, b]" "text_fits [a, b, c, e] \<Longrightarrow> text_fits [a, b, e]"
  by (simp_all add: text_fits_def key_fits_def)

lemma text_fits_key: "text_fits ks \<Longrightarrow> key_fits ks"
  by (simp add: text_fits_def)

lemma text_fits_value: "text_fits [a, b] \<Longrightarrow> length b \<le> MAX_KEY"
  by (simp add: text_fits_def key_fits_def)

declare make_key_simps [simp del]

lemma put_media_step:
  assumes "kv_ok K" "tables_ok aty K s v" "text_fits [r, d]"
  shows "\<exists>s'. put_media_type K r d m s = Inr s' \<and> tables_ok aty K s' (v\<lparr>v_media := upd2 r d (Some m) (v_media v)\<rparr>)"
proof -
  have "rep K 2 (lm_media_types s) (pair_tab (\<lambda>m. m) (v_media v))" using assms(2) by (simp add: tables_ok_def)
  note put = rep_put [OF assms(1) this text_fits_key [OF assms(3)], of m]
  then show ?thesis using assms(2) by (simp add: put_media_type_def tables_ok_def pair_tab_upd)
qed

lemma put_tag_step:
  assumes "kv_ok K" "tables_ok aty K s v" "text_fits [r, d, t]"
  shows "\<exists>s'. put_tag K r t d m s = Inr s' \<and> tables_ok aty K s' (v\<lparr>v_tags := upd2 r t (Some (d, m)) (v_tags v)\<rparr>)"
proof -
  have tags: "rep K 2 (lm_tags s) (tags_tab (v_tags v))"
    and rv: "rep K 3 (lm_tags_by_digest s) (by_digest_tab (v_tags v))"
    using assms(2) by (simp_all add: tables_ok_def)
  note fits = text_fits_key [OF assms(3)] text_fits_key [OF text_fits_parts(2) [OF assms(3)]]
  note put = rep_put [OF assms(1) tags fits(2), of "d @ CHR 0x00 # m"]
  have get: "kv_get K (lm_tags s) (make_key [r, t]) = Inr (tags_tab (v_tags v) [r, t])"
    by (rule rep_get [OF assms(1) tags]) simp
  show ?thesis
  proof (cases "v_tags v r t")
    case None
    with put rep_put [OF assms(1) rv fits(1), of "[]"] get assms(2) show ?thesis
      by (simp add: put_tag_def tables_ok_def tags_tab_upd by_digest_put Let_def)
  next
    case (Some x)
    obtain old m' where x: "v_tags v r t = Some (old, m')" using Some by (cases x) simp
    then have kf: "key_fits [r, old, t]" using rep_fits [OF rv, of "[r, old, t]"] by simp
    then have "split_once CHR 0x00 (old @ CHR 0x00 # m') = Some (old, m')"
      by (simp add: split_once_Some_iff key_fits_def nul_free_def)
    with put get x kf rep_delete [OF assms(1) rv kf] assms(2) show ?thesis
      using rep_put [OF assms(1) rep_delete(2) [OF assms(1) rv kf] fits(1), of "[]"]
      by (simp add: put_tag_def tables_ok_def tags_tab_upd by_digest_put Let_def)
  qed
qed

lemma drop_sums_step:
  assumes "kv_ok K" "tables_ok aty K s v" "text_fits [r, d]"
  shows "\<exists>s'. drop_sums K (make_key [r, d]) s = Inr s'
    \<and> tables_ok aty K s' (v\<lparr>v_checksums := upd2 r d None (v_checksums v)\<rparr>)"
proof -
  have "rep K 2 (lm_checksums s) (pair_tab encode_ck (v_checksums v))" using assms(2) by (simp add: tables_ok_def)
  note del = rep_delete [OF assms(1) this text_fits_key [OF assms(3)]]
  then show ?thesis using assms(2) by (simp add: drop_sums_def tables_ok_def pair_tab_upd)
qed

lemma drop_media_step:
  assumes "kv_ok K" "tables_ok aty K s v" "text_fits [r, d]"
  shows "\<exists>s'. drop_media K (make_key [r, d]) s = Inr s' \<and> tables_ok aty K s' (v\<lparr>v_media := upd2 r d None (v_media v)\<rparr>)"
proof -
  have "rep K 2 (lm_media_types s) (pair_tab (\<lambda>m. m) (v_media v))" using assms(2) by (simp add: tables_ok_def)
  note del = rep_delete [OF assms(1) this text_fits_key [OF assms(3)]]
  then show ?thesis using assms(2) by (simp add: drop_media_def tables_ok_def pair_tab_upd)
qed

lemma add_backref_step:
  assumes "kv_ok K" "tables_ok aty K s v" "text_fits [r, b]" "text_fits [r, m]" "b \<noteq> []" "m \<noteq> []"
  shows "\<exists>s'. add_backref K r m b s = Inr s'
    \<and> tables_ok aty K s' (v\<lparr>v_backrefs := upd2 r b (insert m (v_backrefs v r b)) (v_backrefs v)\<rparr>)"
proof -
  have fwd: "dup_rep K 2 (lm_backrefs s) (backrefs_rel (v_backrefs v))"
    and rv: "dup_rep K 2 (lm_backrefs_reverse s) (backrefs_rev_rel (v_backrefs v))"
    using assms(2) by (simp_all add: tables_ok_def)
  note puts = dup_rep_put [OF assms(1) fwd text_fits_key [OF assms(3)], of m]
    dup_rep_put [OF assms(1) rv text_fits_key [OF assms(4)], of b]
  show ?thesis
    using assms(2,5,6) puts text_fits_value [OF assms(3)] text_fits_value [OF assms(4)]
    by (simp add: add_backref_def tables_ok_def backrefs_rel_upd backrefs_rev_insert)
qed

lemma add_backrefs_step:
  assumes "kv_ok K"
  shows "tables_ok aty K s v \<Longrightarrow> list_all (backref_fits r m) bs \<Longrightarrow>
    \<exists>s'. add_backrefs_in_txn K r m bs s = Inr s' \<and> tables_ok aty K s' (view_backrefs r m bs v)"
  unfolding add_backrefs_in_txn_def
proof (induction bs arbitrary: s v)
  case Nil
  have "view_backrefs r m [] v = v" by (rule view_eqI) simp_all
  then show ?case using Nil by simp
next
  case (Cons b bs)
  obtain s1 where s1: "add_backref K r m b s = Inr s1"
      "tables_ok aty K s1 (v\<lparr>v_backrefs := upd2 r b (insert m (v_backrefs v r b)) (v_backrefs v)\<rparr>)"
    using add_backref_step [OF assms(1) Cons.prems(1), of r b m] Cons.prems(2) by (auto simp: backref_fits_def)
  have "view_backrefs r m bs (v\<lparr>v_backrefs := upd2 r b (insert m (v_backrefs v r b)) (v_backrefs v)\<rparr>)
      = view_backrefs r m (b # bs) v"
    by (rule view_eqI) (auto simp: upd2_apply)
  with Cons.IH [OF s1(2)] Cons.prems(2) s1(1) show ?case by simp
qed

lemma remove_referrer_step:
  assumes "kv_ok K" "tables_ok aty K s v" "text_fits [r, sub, d]"
  shows "\<exists>s'. remove_referrer_in_txn K r sub d s = Inr s'
    \<and> tables_ok aty K s' (v\<lparr>v_referrers := upd3 r sub d None (v_referrers v)\<rparr>)"
proof -
  let ?T = "v_referrers v"
  have refs: "rep K 3 (lm_referrers s) (referrers_tab ?T)" and types: "rep K 3 (lm_referrer_types s) (types_tab aty ?T)"
    and byt: "rep K 4 (lm_referrers_by_type s) (by_type_tab aty ?T)"
    and rv: "rep K 3 (lm_referrers_reverse s) (reverse_tab ?T)"
    using assms(2) by (simp_all add: tables_ok_def)
  note fits = text_fits_key [OF assms(3)] text_fits_key [OF text_fits_parts(3) [OF assms(3)]]
  note dels = rep_delete [OF assms(1) refs fits(1)] rep_delete [OF assms(1) types fits(1)]
    rep_delete [OF assms(1) rv fits(2)]
  have get: "kv_get K (lm_referrer_types s) (make_key [r, sub, d]) = Inr (types_tab aty ?T [r, sub, d])"
    by (rule rep_get [OF assms(1) types]) simp
  show ?thesis
  proof (cases "Option.bind (?T r sub d) aty")
    case None
    with dels get assms(2) show ?thesis
      by (simp add: remove_referrer_in_txn_def tables_ok_def referrers_tab_upd types_tab_upd reverse_tab_upd
          by_type_drop Let_def)
  next
    case (Some a)
    then have kf: "key_fits [r, sub, a, d]" using rep_fits [OF byt, of "[r, sub, a, d]"] by simp
    with dels get assms(2) Some rep_delete [OF assms(1) byt kf] show ?thesis
      by (simp add: remove_referrer_in_txn_def tables_ok_def referrers_tab_upd types_tab_upd reverse_tab_upd
          by_type_drop Let_def)
  qed
qed

lemma add_referrer_step:
  assumes "kv_ok K" "tables_ok (artifact_type_of E) K s v" "text_fits [r, sub, d]"
    and "\<And>a. artifact_type_of E x = Some a \<Longrightarrow> text_fits [r, sub, a, d]"
  shows "\<exists>s'. add_referrer_in_txn E K r sub d x s = Inr s' \<and> tables_ok (artifact_type_of E) K s' (view_referrer r sub d x v)"
proof -
  let ?T = "upd3 r sub d None (v_referrers v)" and ?aty = "artifact_type_of E"
  obtain s1 where s1: "remove_referrer_in_txn K r sub d s = Inr s1" "tables_ok ?aty K s1 (v\<lparr>v_referrers := ?T\<rparr>)"
    using remove_referrer_step [OF assms(1-3)] by blast
  have refs: "rep K 3 (lm_referrers s1) (referrers_tab ?T)" and types: "rep K 3 (lm_referrer_types s1) (types_tab ?aty ?T)"
    and byt: "rep K 4 (lm_referrers_by_type s1) (by_type_tab ?aty ?T)"
    and rv: "rep K 3 (lm_referrers_reverse s1) (reverse_tab ?T)"
    using s1(2) by (simp_all add: tables_ok_def)
  have v: "view_referrer r sub d x v = v\<lparr>v_referrers := upd3 r sub d (Some x) ?T\<rparr>"
    by (rule view_eqI) (auto simp: upd3_apply)
  have absent: "?T r sub d = None" by (simp add: upd3_apply)
  note fits = text_fits_key [OF assms(3)] text_fits_key [OF text_fits_parts(3) [OF assms(3)]]
  note puts = rep_put [OF assms(1) refs fits(1), of x] rep_put [OF assms(1) rv fits(2), of "[]"]
  show ?thesis
  proof (cases "?aty x")
    case None
    have "types_tab ?aty ?T [r, sub, d] = None" by (simp add: absent)
    then have same: "(types_tab ?aty ?T)([r, sub, d] := None) = types_tab ?aty ?T" by (rule fun_upd_idem)
    show ?thesis
      using s1 puts None same unfolding v
      by (simp add: add_referrer_in_txn_def tables_ok_def referrers_tab_upd types_tab_upd [of _ _ _ _ "Some x"]
          reverse_tab_upd [of _ _ _ "Some x"] by_type_put [of ?T, OF absent])
  next
    case (Some a)
    note kf = text_fits_key [OF assms(4) [OF Some]]
    show ?thesis
      using s1 puts Some rep_put [OF assms(1) types fits(1), of a] rep_put [OF assms(1) byt kf, of "[]"] unfolding v
      by (simp add: add_referrer_in_txn_def put_referrer_type_def tables_ok_def
          referrers_tab_upd [of _ _ _ "Some x"] types_tab_upd [of _ _ _ _ "Some x"]
          reverse_tab_upd [of _ _ _ "Some x"] by_type_put [of ?T, OF absent])
  qed
qed

text \<open>The deletions walk the keys found at their start.\<close>

lemma drop_tag_step:
  assumes "kv_ok K" "tables_ok aty K s v" "text_fits [r, d, t]" "\<And>d' m. v_tags v r t = Some (d', m) \<Longrightarrow> d' = d"
  shows "\<exists>s'. drop_tag K r (make_key [r, d, t]) s = Inr s'
    \<and> tables_ok aty K s' (v\<lparr>v_tags := upd2 r t None (v_tags v)\<rparr>)"
proof -
  have tags: "rep K 2 (lm_tags s) (tags_tab (v_tags v))"
    and rv: "rep K 3 (lm_tags_by_digest s) (by_digest_tab (v_tags v))"
    using assms(2) by (simp_all add: tables_ok_def)
  note fits = text_fits_key [OF assms(3)] text_fits_key [OF text_fits_parts(2) [OF assms(3)]]
  have "split_key (make_key [r, d, t]) = [r, d, t]"
    by (rule split_make_key) (use fits(1) in \<open>simp add: key_fits_def\<close>)
  then show ?thesis
    using rep_delete [OF assms(1) tags fits(2)] rep_delete [OF assms(1) rv fits(1)] assms(2)
    by (simp add: drop_tag_def Let_def tables_ok_def tags_tab_upd by_digest_drop [OF assms(4)])
qed

lemma drop_tag_list:
  assumes "kv_ok K" "tables_ok aty K s v"
    and "\<And>t. t \<in> set ts \<Longrightarrow> text_fits [r, d, t] \<and> (\<forall>d' m. v_tags v r t = Some (d', m) \<longrightarrow> d' = d)"
  shows "\<exists>s'. try_fold (drop_tag K r) (map (\<lambda>t. make_key [r, d, t]) ts) s = Inr s'
    \<and> tables_ok aty K s' (v\<lparr>v_tags := (\<lambda>r' t. if r' = r \<and> t \<in> set ts then None else v_tags v r' t)\<rparr>)"
  using assms(2,3)
proof (induction ts arbitrary: s v)
  case Nil
  then show ?case by simp
next
  case (Cons t ts)
  let ?v = "v\<lparr>v_tags := upd2 r t None (v_tags v)\<rparr>"
  obtain s1 where s1: "drop_tag K r (make_key [r, d, t]) s = Inr s1" "tables_ok aty K s1 ?v"
    using drop_tag_step [OF assms(1) Cons.prems(1), of r d t] Cons.prems(2) [of t] by auto
  have "text_fits [r, d, t'] \<and> (\<forall>d' m. v_tags ?v r t' = Some (d', m) \<longrightarrow> d' = d)" if "t' \<in> set ts" for t'
    using Cons.prems(2) [of t'] that by (simp add: upd2_apply)
  from Cons.IH [OF s1(2) this] obtain s2 where
    "try_fold (drop_tag K r) (map (\<lambda>t. make_key [r, d, t]) ts) s1 = Inr s2"
    "tables_ok aty K s2 (?v\<lparr>v_tags := (\<lambda>r' t'. if r' = r \<and> t' \<in> set ts then None else v_tags ?v r' t')\<rparr>)"
    by blast
  moreover have "?v\<lparr>v_tags := (\<lambda>r' t'. if r' = r \<and> t' \<in> set ts then None else v_tags ?v r' t')\<rparr>
      = v\<lparr>v_tags := (\<lambda>r' t'. if r' = r \<and> t' \<in> set (t # ts) then None else v_tags v r' t')\<rparr>"
    by (rule view_eqI) (auto simp: upd2_apply)
  ultimately show ?case using s1(1) by (simp)
qed

lemma drop_referrer_list:
  assumes "kv_ok K" "tables_ok aty K s v" and "\<And>sub. sub \<in> set subs \<Longrightarrow> text_fits [r, sub, d]"
  shows "\<exists>s'. try_fold (drop_referrer K r d) (map (\<lambda>sub. make_key [r, d, sub]) subs) s = Inr s'
    \<and> tables_ok aty K s' (v\<lparr>v_referrers :=
        (\<lambda>r' sub d'. if r' = r \<and> sub \<in> set subs \<and> d' = d then None else v_referrers v r' sub d')\<rparr>)"
  using assms(2,3)
proof (induction subs arbitrary: s v)
  case Nil
  then show ?case by simp
next
  case (Cons sub subs)
  let ?v = "v\<lparr>v_referrers := upd3 r sub d None (v_referrers v)\<rparr>"
  have tf: "text_fits [r, sub, d]" using Cons.prems(2) by simp
  have "split_key (make_key [r, d, sub]) = [r, d, sub]"
    by (rule split_make_key) (use tf in \<open>simp add: text_fits_def key_fits_def\<close>)
  moreover have "utf8_valid sub" using tf by (simp add: text_fits_def)
  ultimately obtain s1 where s1: "drop_referrer K r d (make_key [r, d, sub]) s = Inr s1" "tables_ok aty K s1 ?v"
    using remove_referrer_step [OF assms(1) Cons.prems(1) tf]
    by (auto simp: drop_referrer_def utf8_or_empty_def)
  from Cons.IH [OF s1(2)] Cons.prems(2) obtain s2 where
    "try_fold (drop_referrer K r d) (map (\<lambda>sub. make_key [r, d, sub]) subs) s1 = Inr s2"
    "tables_ok aty K s2 (?v\<lparr>v_referrers :=
        (\<lambda>r' sub d'. if r' = r \<and> sub \<in> set subs \<and> d' = d then None else v_referrers ?v r' sub d')\<rparr>)"
    by (auto)
  moreover have "?v\<lparr>v_referrers :=
        (\<lambda>r' sub d'. if r' = r \<and> sub \<in> set subs \<and> d' = d then None else v_referrers ?v r' sub d')\<rparr>
      = v\<lparr>v_referrers :=
        (\<lambda>r' sub' d'. if r' = r \<and> sub' \<in> set (sub # subs) \<and> d' = d then None else v_referrers v r' sub' d')\<rparr>"
    by (rule view_eqI) (auto simp: upd3_apply)
  ultimately show ?case using s1(1) by (simp)
qed

lemma keys_with_prefix_children:
  assumes "kv_ok K" "rep K (Suc (length ps)) d f" "list_all nul_free ps" "ps \<noteq> []"
  shows "keys_with_prefix K d (make_prefix ps) = Inr (map (\<lambda>x. make_key (ps @ [x])) (children f ps))"
proof -
  obtain e where e: "prefix_successor (make_prefix ps) = Some e" using make_prefix_successor [OF assms(4)] by blast
  show ?thesis
    by (simp add: keys_with_prefix_def e range_owned_def range_prefix [OF assms(1-3) e] child_entry_def o_def)
qed

lemma view_fitsD:
  assumes "view_fits aty v"
  shows "v_tags v r t = Some (d, m) \<Longrightarrow> text_fits [r, d, t]" "v_tags v r t = Some (d, m) \<Longrightarrow> utf8_valid m"
    "v_media v r d = Some m \<Longrightarrow> text_fits [r, d]" "v_media v r d = Some m \<Longrightarrow> utf8_valid m"
    "v_referrers v r s d = Some x \<Longrightarrow> text_fits [r, s, d]"
    "v_referrers v r s d = Some x \<Longrightarrow> aty x = Some a \<Longrightarrow> text_fits [r, s, a, d]"
    "m \<in> v_backrefs v r b \<Longrightarrow> text_fits [r, b]" "m \<in> v_backrefs v r b \<Longrightarrow> text_fits [r, m]"
    "m \<in> v_backrefs v r b \<Longrightarrow> backref_fits r m b" "m \<in> v_backrefs v r b \<Longrightarrow> m \<noteq> []"
    "v_checksums v r d = Some k \<Longrightarrow> text_fits [r, d]"
  using assms unfolding view_fits_def backref_fits_def by blast+

lemma drop_tags_step:
  assumes "kv_ok K" "tables_ok aty K s v" "view_fits aty v" "text_fits [r, d]"
  shows "\<exists>s'. drop_tags K r d s = Inr s' \<and> tables_ok aty K s'
    (v\<lparr>v_tags := (\<lambda>r' t. if r' = r \<and> (\<exists>m. v_tags v r' t = Some (d, m)) then None else v_tags v r' t)\<rparr>)"
proof -
  let ?f = "by_digest_tab (v_tags v)"
  have rv: "rep K (Suc (length [r, d])) (lm_tags_by_digest s) ?f"
    using assms(2) by (simp add: tables_ok_def eval_nat_numeral)
  have nf: "list_all nul_free [r, d]" using assms(4) by (simp add: text_fits_def key_fits_def)
  have ch: "t \<in> set (children ?f [r, d]) \<longleftrightarrow> (\<exists>m. v_tags v r t = Some (d, m))" for t
    unfolding in_children [OF assms(1) rv] by auto
  have keys: "keys_with_prefix K (lm_tags_by_digest s) (make_prefix [r, d])
      = Inr (map (\<lambda>t. make_key [r, d, t]) (children ?f [r, d]))"
    using keys_with_prefix_children [OF assms(1) rv nf] by (simp)
  have "text_fits [r, d, t] \<and> (\<forall>d' m. v_tags v r t = Some (d', m) \<longrightarrow> d' = d)" if "t \<in> set (children ?f [r, d])" for t
    using that view_fitsD(1) [OF assms(3)] unfolding ch by auto
  from drop_tag_list [OF assms(1,2) this] obtain s' where
    "try_fold (drop_tag K r) (map (\<lambda>t. make_key [r, d, t]) (children ?f [r, d])) s = Inr s'"
    "tables_ok aty K s' (v\<lparr>v_tags := (\<lambda>r' t. if r' = r \<and> t \<in> set (children ?f [r, d]) then None else v_tags v r' t)\<rparr>)"
    by blast
  moreover have "(\<lambda>r' t. if r' = r \<and> t \<in> set (children ?f [r, d]) then None else v_tags v r' t)
      = (\<lambda>r' t. if r' = r \<and> (\<exists>m. v_tags v r' t = Some (d, m)) then None else v_tags v r' t)"
    by (intro ext) (auto simp: ch)
  ultimately show ?thesis by (simp add: drop_tags_def keys)
qed

lemma drop_referrers_step:
  assumes "kv_ok K" "tables_ok aty K s v" "view_fits aty v" "text_fits [r, d]"
  shows "\<exists>s'. drop_referrers K r d s = Inr s' \<and> tables_ok aty K s'
    (v\<lparr>v_referrers := (\<lambda>r' sub d'. if r' = r \<and> d' = d then None else v_referrers v r' sub d')\<rparr>)"
proof -
  let ?f = "reverse_tab (v_referrers v)"
  have rv: "rep K (Suc (length [r, d])) (lm_referrers_reverse s) ?f"
    using assms(2) by (simp add: tables_ok_def eval_nat_numeral)
  have nf: "list_all nul_free [r, d]" using assms(4) by (simp add: text_fits_def key_fits_def)
  have ch: "sub \<in> set (children ?f [r, d]) \<longleftrightarrow> v_referrers v r sub d \<noteq> None" for sub
    unfolding in_children [OF assms(1) rv] by auto
  have keys: "keys_with_prefix K (lm_referrers_reverse s) (make_prefix [r, d])
      = Inr (map (\<lambda>t. make_key [r, d, t]) (children ?f [r, d]))"
    using keys_with_prefix_children [OF assms(1) rv nf] by (simp)
  have "text_fits [r, sub, d]" if "sub \<in> set (children ?f [r, d])" for sub
    using that view_fitsD(5) [OF assms(3)] unfolding ch by blast
  from drop_referrer_list [OF assms(1,2) this] obtain s' where
    "try_fold (drop_referrer K r d) (map (\<lambda>t. make_key [r, d, t]) (children ?f [r, d])) s = Inr s'"
    "tables_ok aty K s' (v\<lparr>v_referrers := (\<lambda>r' sub d'.
        if r' = r \<and> sub \<in> set (children ?f [r, d]) \<and> d' = d then None else v_referrers v r' sub d')\<rparr>)"
    by blast
  moreover have "(\<lambda>r' sub d'. if r' = r \<and> sub \<in> set (children ?f [r, d]) \<and> d' = d then None else v_referrers v r' sub d')
      = (\<lambda>r' sub d'. if r' = r \<and> d' = d then None else v_referrers v r' sub d')"
    by (intro ext) (auto simp: ch)
  ultimately show ?thesis by (simp add: drop_referrers_def keys)
qed

lemma drop_backref_list:
  assumes "kv_ok K" "dup_rep K 2 (lm_backrefs s) F" "\<And>b. b \<in> set bs \<Longrightarrow> key_fits [r, b] \<and> d \<noteq> [] \<and> length d \<le> MAX_KEY"
  shows "\<exists>m. try_fold (drop_backref K r d) bs s = Inr (s\<lparr>lm_backrefs := m\<rparr>)
    \<and> dup_rep K 2 m (\<lambda>ks. if \<exists>b\<in>set bs. ks = [r, b] then F ks - {d} else F ks)"
  using assms(2,3)
proof (induction bs arbitrary: s F)
  case Nil
  then show ?case by (intro exI [of _ "lm_backrefs s"]) simp
next
  case (Cons b bs)
  then have b: "key_fits [r, b]" "0 < length d" "length d \<le> MAX_KEY" by auto
  let ?m = "del1m K (make_key [r, b]) d (lm_backrefs s)" and ?F = "F([r, b] := F [r, b] - {d})"
  note del = dup_rep_delete_one [OF assms(1) Cons.prems(1) b]
  have step: "drop_backref K r d b s = Inr (s\<lparr>lm_backrefs := ?m\<rparr>)"
    using del(1) by (simp add: drop_backref_def)
  have "dup_rep K 2 (lm_backrefs (s\<lparr>lm_backrefs := ?m\<rparr>)) ?F" using del(2) by (simp)
  from Cons.IH [OF this] Cons.prems(2) obtain m where
    m: "try_fold (drop_backref K r d) bs (s\<lparr>lm_backrefs := ?m\<rparr>) = Inr (s\<lparr>lm_backrefs := m\<rparr>)"
      "dup_rep K 2 m (\<lambda>ks. if \<exists>b\<in>set bs. ks = [r, b] then ?F ks - {d} else ?F ks)"
    by (auto)
  have "(\<lambda>ks. if \<exists>b\<in>set bs. ks = [r, b] then ?F ks - {d} else ?F ks)
      = (\<lambda>ks. if \<exists>b'\<in>set (b # bs). ks = [r, b'] then F ks - {d} else F ks)"
    by (intro ext) auto
  with m step show ?case by (auto)
qed

lemma dup_values_in_write_values:
  assumes "dup_values K m k = Inr (map Inr (map (Pair k) vs))"
  shows "dup_values_in_write K m k = Inr vs"
proof -
  have "try_fold (\<lambda>entry values. and_then (heed entry) (\<lambda>(_, v). Inr (values @ [v]))) (map Inr (map (Pair k) ws)) acc
      = Inr (acc @ ws)" for ws acc
    by (induction ws arbitrary: acc) simp_all
  from this [of vs "[]"] show ?thesis by (simp add: dup_values_in_write_def assms)
qed

lemma drop_backrefs_step:
  assumes "kv_ok K" "tables_ok aty K s v" "view_fits aty v" "text_fits [r, d]"
  shows "\<exists>s'. drop_backrefs K r d s = Inr s' \<and> tables_ok aty K s'
    (v\<lparr>v_backrefs := (\<lambda>r' b. if r' = r then v_backrefs v r' b - {d} else v_backrefs v r' b)\<rparr>)"
proof -
  let ?B = "v_backrefs v" and ?B' = "\<lambda>r' b. if r' = r then v_backrefs v r' b - {d} else v_backrefs v r' b"
  have fwd: "dup_rep K 2 (lm_backrefs s) (backrefs_rel ?B)"
    and rv: "dup_rep K 2 (lm_backrefs_reverse s) (backrefs_rev_rel ?B)"
    using assms(2) by (simp_all add: tables_ok_def)
  obtain bs where bs: "dup_values_in_write K (lm_backrefs_reverse s) (make_key [r, d]) = Inr bs" "set bs = {b. d \<in> ?B r b}"
    using dup_rep_values [OF assms(1) rv, of "[r, d]"] dup_values_in_write_values by fastforce
  have "key_fits [r, b] \<and> d \<noteq> [] \<and> length d \<le> MAX_KEY" if "b \<in> set bs" for b
    using that bs(2) view_fitsD(7,10) [OF assms(3)] text_fits_key text_fits_value [OF assms(4)] by blast
  from drop_backref_list [OF assms(1) fwd this] obtain m where
    m: "try_fold (drop_backref K r d) bs s = Inr (s\<lparr>lm_backrefs := m\<rparr>)"
      "dup_rep K 2 m (\<lambda>ks. if \<exists>b\<in>set bs. ks = [r, b] then backrefs_rel ?B ks - {d} else backrefs_rel ?B ks)"
    by blast
  have 1: "(\<lambda>ks. if \<exists>b\<in>set bs. ks = [r, b] then backrefs_rel ?B ks - {d} else backrefs_rel ?B ks) = backrefs_rel ?B'"
  proof
    show "(if \<exists>b\<in>set bs. ks = [r, b] then backrefs_rel ?B ks - {d} else backrefs_rel ?B ks) = backrefs_rel ?B' ks" for ks
      using bs(2) by (cases "(?B, ks)" rule: backrefs_rel.cases) auto
  qed
  have 2: "(backrefs_rev_rel ?B)([r, d] := {}) = backrefs_rev_rel ?B'"
  proof
    show "((backrefs_rev_rel ?B)([r, d] := {})) ks = backrefs_rev_rel ?B' ks" for ks
      by (cases "(?B, ks)" rule: backrefs_rev_rel.cases) auto
  qed
  show ?thesis
    using dup_rep_delete [OF assms(1) rv text_fits_key [OF assms(4)]] m assms(2) bs(1) 1 2
    by (simp add: drop_backrefs_def Let_def tables_ok_def)
qed

section \<open>Operations\<close>

lemma view_fits_le:
  assumes "view_fits aty v" "view_le w v"
  shows "view_fits aty w"
  unfolding view_fits_def
  by (intro conjI allI impI) (drule view_leD [OF assms(2)], (erule view_fitsD [OF assms(1)], assumption?))+

lemma view_fits_apply:
  assumes "view_fits aty v" "lmdb_op_ok aty op"
  shows "view_fits aty (view_apply op v)"
proof (cases op)
  case (PutManifest r d m tag refs ref)
  have "text_fits [r', d', t] \<and> utf8_valid m'" if "v_tags (view_apply op v) r' t = Some (d', m')" for r' t d' m'
    using that assms view_fitsD(1,2) [OF assms(1)]
    by (auto simp: PutManifest view_apply_put_tags simp del: view_apply.simps split: if_splits)
  moreover have "text_fits [r', d'] \<and> utf8_valid m'" if "v_media (view_apply op v) r' d' = Some m'" for r' d' m'
    using that assms view_fitsD(3,4) [OF assms(1)]
    by (auto simp: PutManifest view_apply_put_media simp del: view_apply.simps split: if_splits)
  moreover have "text_fits [r', s, d'] \<and> (\<forall>a. aty x = Some a \<longrightarrow> text_fits [r', s, a, d'])"
    if "v_referrers (view_apply op v) r' s d' = Some x" for r' s d' x
    using that assms view_fitsD(5,6) [OF assms(1)]
    by (cases ref) (auto simp: PutManifest view_apply_put_referrers simp del: view_apply.simps split: if_splits)
  moreover have "backref_fits r' m' b"
    if "m' \<in> v_backrefs (view_apply op v) r' b" for r' b m'
  proof -
    have "m' \<in> v_backrefs v r' b \<or> r' = r \<and> m' = d \<and> b \<in> set refs"
      using that by (auto simp: PutManifest view_apply_put_backrefs simp del: view_apply.simps split: if_splits)
    then show ?thesis
      using assms(2) view_fitsD(9) [OF assms(1), of m' r' b] by (auto simp: PutManifest list_all_iff)
  qed
  moreover have "v_checksums (view_apply op v) = v_checksums v"
    unfolding PutManifest by (rule view_apply_put_checksums)
  ultimately show ?thesis
    using view_fitsD(11) [OF assms(1)] unfolding view_fits_def by auto
next
  case (PutBackrefs r m bs)
  then show ?thesis using assms by (auto simp: view_fits_def list_all_iff)
next
  case (DeleteManifest r d)
  show ?thesis by (rule view_fits_le [OF assms(1)]) (auto simp: DeleteManifest view_le_def upd2_apply split: if_splits)
next
  case (PutReferrer r s d x)
  then show ?thesis using assms by (auto simp: view_fits_def split: if_splits option.splits)
next
  case (PutChecksum r d c z)
  then show ?thesis using assms by (auto simp: view_fits_def upd2_apply split: if_splits)
next
  case (DeleteBlob r d)
  then show ?thesis using assms by (auto simp: view_fits_def upd2_apply split: if_splits)
qed

lemma delete_manifest_step:
  assumes "kv_ok K" "tables_ok aty K s v" "view_fits aty v" "text_fits [r, d]"
  shows "\<exists>s'. delete_manifest_in_txn K r d s = Inr s' \<and> tables_ok aty K s' (view_apply (DeleteManifest r d) v)"
proof -
  let ?v1 = "v\<lparr>v_checksums := upd2 r d None (v_checksums v)\<rparr>"
  let ?v2 = "?v1\<lparr>v_media := upd2 r d None (v_media ?v1)\<rparr>"
  let ?v3 = "?v2\<lparr>v_tags := (\<lambda>r' t. if r' = r \<and> (\<exists>m. v_tags ?v2 r' t = Some (d, m)) then None else v_tags ?v2 r' t)\<rparr>"
  let ?v4 = "?v3\<lparr>v_referrers := (\<lambda>r' sub d'. if r' = r \<and> d' = d then None else v_referrers ?v3 r' sub d')\<rparr>"
  have fits: "view_fits aty ?v2" "view_fits aty ?v3" "view_fits aty ?v4"
    by (rule view_fits_le [OF assms(3)], auto simp: view_le_def upd2_apply split: if_splits)+
  obtain s1 where s1: "drop_sums K (make_key [r, d]) s = Inr s1" "tables_ok aty K s1 ?v1"
    using drop_sums_step [OF assms(1,2,4)] by blast
  obtain s2 where s2: "drop_media K (make_key [r, d]) s1 = Inr s2" "tables_ok aty K s2 ?v2"
    using drop_media_step [OF assms(1) s1(2) assms(4)] by blast
  obtain s3 where s3: "drop_tags K r d s2 = Inr s3" "tables_ok aty K s3 ?v3"
    using drop_tags_step [OF assms(1) s2(2) fits(1) assms(4)] by blast
  obtain s4 where s4: "drop_referrers K r d s3 = Inr s4" "tables_ok aty K s4 ?v4"
    using drop_referrers_step [OF assms(1) s3(2) fits(2) assms(4)] by blast
  obtain s5 where "drop_backrefs K r d s4 = Inr s5" "tables_ok aty K s5 (?v4\<lparr>v_backrefs :=
      (\<lambda>r' b. if r' = r then v_backrefs ?v4 r' b - {d} else v_backrefs ?v4 r' b)\<rparr>)"
    using drop_backrefs_step [OF assms(1) s4(2) fits(3) assms(4)] by blast
  moreover have "?v4\<lparr>v_backrefs := (\<lambda>r' b. if r' = r then v_backrefs ?v4 r' b - {d} else v_backrefs ?v4 r' b)\<rparr>
      = view_apply (DeleteManifest r d) v"
    by (rule view_eqI) auto
  ultimately show ?thesis using s1(1) s2(1) s3(1) s4(1) by (simp only: delete_manifest_in_txn_def and_then_simps) blast
qed

lemma put_manifest_step:
  assumes "kv_ok K" "tables_ok (artifact_type_of E) K s v"
    and "lmdb_op_ok (artifact_type_of E) (PutManifest r d m tag refs ref)"
  shows "\<exists>s'. lmdb_apply_op E K (PutManifest r d m tag refs ref) s = Inr s'
    \<and> tables_ok (artifact_type_of E) K s' (view_apply (PutManifest r d m tag refs ref) v)"
proof -
  let ?aty = "artifact_type_of E" and ?v1 = "v\<lparr>v_media := upd2 r d (Some m) (v_media v)\<rparr>"
  let ?v2 = "case tag of None \<Rightarrow> ?v1 | Some t \<Rightarrow> ?v1\<lparr>v_tags := upd2 r t (Some (d, m)) (v_tags ?v1)\<rparr>"
  let ?v3 = "view_backrefs r d refs ?v2"
  obtain s1 where s1: "put_media_type K r d m s = Inr s1" "tables_ok ?aty K s1 ?v1"
    using put_media_step [OF assms(1,2), of r d m] assms(3) by auto
  have "\<exists>s2. (case tag of None \<Rightarrow> Inr s1 | Some t \<Rightarrow> put_tag K r t d m s1) = Inr s2 \<and> tables_ok ?aty K s2 ?v2"
  proof (cases tag)
    case (Some t)
    then show ?thesis using put_tag_step [OF assms(1) s1(2), of r d t m] assms(3) by simp
  qed (use s1(2) in simp)
  then obtain s2 where s2: "(case tag of None \<Rightarrow> Inr s1 | Some t \<Rightarrow> put_tag K r t d m s1) = Inr s2"
      "tables_ok ?aty K s2 ?v2" by blast
  obtain s3 where s3: "add_backrefs_in_txn K r d refs s2 = Inr s3" "tables_ok ?aty K s3 ?v3"
    using add_backrefs_step [OF assms(1) s2(2), of r d refs] assms(3) by auto
  have "\<exists>s'. (case ref of None \<Rightarrow> Inr s3 | Some (sub, x) \<Rightarrow> add_referrer_in_txn E K r sub d x s3) = Inr s'
      \<and> tables_ok ?aty K s' (case ref of None \<Rightarrow> ?v3 | Some (sub, x) \<Rightarrow> view_referrer r sub d x ?v3)"
  proof (cases ref)
    case None
    then show ?thesis using s3(2) by simp
  next
    case (Some p)
    obtain sub x where p: "p = (sub, x)" by (cases p)
    have "text_fits [r, sub, d]" "\<And>a. ?aty x = Some a \<Longrightarrow> text_fits [r, sub, a, d]"
      using assms(3) Some p by (auto split: option.splits)
    then show ?thesis using add_referrer_step [OF assms(1) s3(2), of r sub d x] Some p by simp
  qed
  then show ?thesis
    unfolding lmdb_apply_op.simps view_apply.simps Let_def s1(1) and_then_simps s2(1) s3(1) .
qed

lemma lmdb_apply_op_step:
  assumes "kv_ok K" "tables_ok (artifact_type_of E) K s v" "view_fits (artifact_type_of E) v"
    and "lmdb_op_ok (artifact_type_of E) op"
  shows "\<exists>s'. lmdb_apply_op E K op s = Inr s' \<and> tables_ok (artifact_type_of E) K s' (view_apply op v)"
proof (cases op)
  case (PutManifest r d m tag refs ref)
  then show ?thesis using put_manifest_step [OF assms(1,2)] assms(4) by blast
next
  case (PutBackrefs r m bs)
  then show ?thesis using add_backrefs_step [OF assms(1,2)] assms(4) by simp
next
  case (DeleteManifest r d)
  then show ?thesis using delete_manifest_step [OF assms(1-3), of r d] assms(4) by (simp del: view_apply.simps)
next
  case (PutReferrer r sub d x)
  then have "text_fits [r, sub, d]" "\<And>a. artifact_type_of E x = Some a \<Longrightarrow> text_fits [r, sub, a, d]"
    using assms(4) by (auto split: option.splits)
  then show ?thesis using add_referrer_step [OF assms(1,2)] PutReferrer by simp
next
  case (PutChecksum r d c z)
  have "rep K 2 (lm_checksums s) (pair_tab encode_ck (v_checksums v))" using assms(2) by (simp add: tables_ok_def)
  note put = rep_put [OF assms(1) this, of "[r, d]" "encode_checksum c z"]
  then show ?thesis using assms(2,4) PutChecksum text_fits_key [of "[r, d]"]
    by (simp add: tables_ok_def pair_tab_upd)
next
  case (DeleteBlob r d)
  then show ?thesis using drop_sums_step [OF assms(1,2), of r d] assms(4) by simp
qed

section \<open>Queries\<close>

definition lmdb_view :: "('d, 'm) kv_api \<Rightarrow> ('d, 'm) lmdb \<Rightarrow> meta_view" where
  "lmdb_view K s = \<lparr>v_tags = lmdb_resolve_tag K s, v_media = lmdb_manifest_media_type K s,
     v_referrers = (\<lambda>r sub d. ok_flat (kv_get K (lm_referrers s) (make_key [r, sub, d]))),
     v_backrefs = (\<lambda>r b. set (lmdb_backrefs K s r b)), v_checksums = lmdb_checksum K s\<rparr>"

definition lmdb_invar :: "'a ext_api_scheme \<Rightarrow> ('d, 'm) kv_api \<Rightarrow> ('d, 'm) lmdb \<Rightarrow> bool" where
  "lmdb_invar E K s \<longleftrightarrow> kv_ok K \<and> (\<exists>v. tables_ok (artifact_type_of E) K s v \<and> view_fits (artifact_type_of E) v)"

lemma reading_ok [simp]: "kv_ok K \<Longrightarrow> reading K s none answer = answer"
  by (simp add: reading_def)

lemma ok_flat_Inr [simp]: "ok_flat (Inr x) = x"
  by (simp add: ok_flat_def)

lemma tables_rep:
  assumes "tables_ok aty K s v"
  shows "rep K 2 (lm_tags s) (tags_tab (v_tags v))" "rep K 2 (lm_media_types s) (pair_tab (\<lambda>m. m) (v_media v))"
    "rep K 3 (lm_referrers s) (referrers_tab (v_referrers v))"
    "rep K 4 (lm_referrers_by_type s) (by_type_tab aty (v_referrers v))"
    "rep K 2 (lm_checksums s) (pair_tab encode_ck (v_checksums v))"
    "dup_rep K 2 (lm_backrefs s) (backrefs_rel (v_backrefs v))"
  using assms by (simp_all add: tables_ok_def)

lemma resolve_tag_tables:
  assumes "kv_ok K" "tables_ok aty K s v" "view_fits aty v"
  shows "lmdb_resolve_tag K s r t = v_tags v r t"
proof -
  have "kv_get K (lm_tags s) (make_key [r, t]) = Inr (tags_tab (v_tags v) [r, t])"
    by (rule rep_get [OF assms(1) tables_rep(1) [OF assms(2)]]) simp
  moreover have "decode_tag (d @ CHR 0x00 # m) = Some (d, m)" if "v_tags v r t = Some (d, m)" for d m
  proof -
    have "nul_free d" "utf8_valid d" "utf8_valid m"
      using view_fitsD(1,2) [OF assms(3) that] by (simp_all add: text_fits_def key_fits_def)
    moreover from this have "split_once CHR 0x00 (d @ CHR 0x00 # m) = Some (d, m)"
      by (simp add: split_once_Some_iff nul_free_def)
    ultimately show ?thesis by (simp add: decode_tag_def utf8_ok_def)
  qed
  ultimately show ?thesis using assms(1) by (cases "v_tags v r t") (auto simp: lmdb_resolve_tag_def)
qed

lemma media_type_tables:
  assumes "kv_ok K" "tables_ok aty K s v" "view_fits aty v"
  shows "lmdb_manifest_media_type K s r d = v_media v r d"
proof -
  have "kv_get K (lm_media_types s) (make_key [r, d]) = Inr (pair_tab (\<lambda>m. m) (v_media v) [r, d])"
    by (rule rep_get [OF assms(1) tables_rep(2) [OF assms(2)]]) simp
  then show ?thesis using assms(1) view_fitsD(4) [OF assms(3), of r d]
    by (cases "v_media v r d") (auto simp: lmdb_manifest_media_type_def utf8_ok_def)
qed

lemma referrer_get_tables:
  assumes "kv_ok K" "tables_ok aty K s v"
  shows "kv_get K (lm_referrers s) (make_key [r, sub, d]) = Inr (v_referrers v r sub d)"
  using rep_get [OF assms(1) tables_rep(3) [OF assms(2)], of "[r, sub, d]"] by simp

lemma checksum_tables:
  assumes "kv_ok K" "tables_ok aty K s v"
  shows "lmdb_checksum K s r d = v_checksums v r d"
proof -
  have "kv_get K (lm_checksums s) (make_key [r, d]) = Inr (pair_tab encode_ck (v_checksums v) [r, d])"
    by (rule rep_get [OF assms(1) tables_rep(5) [OF assms(2)]]) simp
  then show ?thesis using assms(1)
    by (cases "v_checksums v r d") (auto simp: lmdb_checksum_def)
qed

lemma backrefs_tables:
  assumes "kv_ok K" "tables_ok aty K s v" "view_fits aty v"
  shows "set (lmdb_backrefs K s r b) = v_backrefs v r b \<and> distinct (lmdb_backrefs K s r b)"
proof -
  obtain vs where vs: "dup_values K (lm_backrefs s) (make_key [r, b]) = Inr (map Inr (map (Pair (make_key [r, b])) vs))"
      "distinct vs" "set vs = v_backrefs v r b"
    using dup_rep_values [OF assms(1) tables_rep(6) [OF assms(2)], of "[r, b]"] by auto
  then have "lmdb_backrefs K s r b = filter utf8_valid vs"
    using assms(1) by (simp add: lmdb_backrefs_def dup_values_as_strings_def ok_entries_def o_def)
  moreover have "filter utf8_valid vs = vs"
    using vs(3) view_fitsD(8) [OF assms(3)] by (auto simp: filter_id_conv text_fits_def)
  ultimately show ?thesis using vs by simp
qed

lemma lmdb_view_tables:
  assumes "kv_ok K" "tables_ok aty K s v" "view_fits aty v"
  shows "lmdb_view K s = v"
  by (rule view_eqI)
    (simp_all add: lmdb_view_def resolve_tag_tables [OF assms] media_type_tables [OF assms]
      referrer_get_tables [OF assms(1,2)] checksum_tables [OF assms(1,2)] backrefs_tables [OF assms])

lemma lmdb_invarE:
  assumes "lmdb_invar E K s"
  shows "kv_ok K" "tables_ok (artifact_type_of E) K s (lmdb_view K s)" "view_fits (artifact_type_of E) (lmdb_view K s)"
  using assms lmdb_view_tables unfolding lmdb_invar_def by blast+

text \<open>Pages.\<close>

lemma page_loop_takes:
  assumes "\<And>kv. kv \<in> set pairs \<Longrightarrow> dec kv = Some [g kv]" "length items \<le> limit"
  shows "page_loop dec limit pairs items
       = \<lparr>page_items = items @ take (limit - length items) (map g pairs),
          page_more = (limit - length items < length pairs)\<rparr>"
  using assms
proof (induction pairs arbitrary: items)
  case (Cons kv pairs)
  show ?case
  proof (cases "length items = limit")
    case False
    then obtain n where "limit - length items = Suc n" using Cons.prems(2) by (cases "limit - length items") auto
    moreover from this have "limit - Suc (length items) = n" by simp
    ultimately show ?thesis using Cons.IH [of "items @ [g kv]"] Cons.prems False by simp
  qed (simp add: Cons.prems)
qed simp

lemma page_loop_page:
  "(\<And>kv. kv \<in> set pairs \<Longrightarrow> dec kv = Some [g kv]) \<Longrightarrow> page_loop dec limit pairs [] = take_page (map g pairs) limit"
  using page_loop_takes [of pairs dec g "[]" limit] by (simp add: take_page_def not_le)

lemma has_any_children:
  assumes "kv_ok K" "rep K (Suc (length ps)) d f" "list_all nul_free ps" "ps \<noteq> []"
  shows "has_any_with_prefix K d (make_prefix ps) \<longleftrightarrow> (\<exists>x. f (ps @ [x]) \<noteq> None)"
proof -
  obtain e where e: "prefix_successor (make_prefix ps) = Some e" using make_prefix_successor [OF assms(4)] by blast
  have "has_any_with_prefix K d (make_prefix ps) \<longleftrightarrow> children f ps \<noteq> []"
    by (simp add: has_any_with_prefix_def e range_prefix [OF assms(1-3) e])
  then show ?thesis using in_children [OF assms(1,2), of _ ps] by (metis empty_iff ex_in_conv set_empty)
qed

lemma page_from_children:
  assumes "kv_ok K" "rep K (Suc (length ps)) d f" "list_all nul_free ps" "ps \<noteq> []" "pred_option nul_free cursor"
    and "\<And>x. f (ps @ [x]) \<noteq> None \<Longrightarrow> dec (child_entry f ps x) = Some [g x]"
  shows "page_from K d ps cursor dec limit = Some (take_page (map g (filter (after cursor) (children f ps))) limit)"
proof -
  obtain e where e: "prefix_successor (make_prefix ps) = Some e" using make_prefix_successor [OF assms(4)] by blast
  let ?xs = "filter (after cursor) (children f ps)"
  have "range_owned K d (case cursor of Some c \<Rightarrow> make_key (ps @ [c]) @ [CHR 0x00] | None \<Rightarrow> make_prefix ps) e
      = Inr (map (child_entry f ps) ?xs)"
  proof (cases cursor)
    case None
    then show ?thesis by (simp add: range_owned_def range_prefix [OF assms(1-3) e] after_def o_def)
  next
    case (Some c)
    then have c: "nul_free c" using assms(5) by simp
    have "after (Some c) = (<) c" by (auto simp: after_def)
    then show ?thesis using Some c
      by (simp add: range_owned_def range_after [OF assms(1-3) _ e] o_def)
  qed
  moreover have "page_loop dec limit (map (child_entry f ps) ?xs) [] = take_page (map g ?xs) limit"
  proof -
    have "map (\<lambda>kv. g (last (split_key (fst kv)))) (map (child_entry f ps) ?xs) = map g ?xs"
    proof -
      have "last (split_key (make_key (ps @ [x]))) = x" if "x \<in> set ?xs" for x
        using that child_nul_free [OF assms(1,2), of x ps] assms(3) by simp
      then show ?thesis by (simp add: child_entry_def o_def cong: map_cong)
    qed
    moreover have "dec kv = Some [g (last (split_key (fst kv)))]" if kv: "kv \<in> set (map (child_entry f ps) ?xs)" for kv
    proof -
      obtain x where x: "x \<in> set (children f ps)" "kv = child_entry f ps x" using kv by auto
      then have "f (ps @ [x]) \<noteq> None" using in_children [OF assms(1,2)] by blast
      moreover have "last (split_key (make_key (ps @ [x]))) = x"
        using x(1) child_nul_free [OF assms(1,2)] assms(3) by simp
      ultimately show ?thesis using assms(6) [of x] x(2) by (simp add: child_entry_def)
    qed
    ultimately show ?thesis using page_loop_page by metis
  qed
  ultimately show ?thesis by (simp add: page_from_def e Let_def)
qed

lemma sorted_children:
  "(\<And>x. f (ps @ [x]) \<noteq> None \<longleftrightarrow> x \<in> A) \<Longrightarrow> children f ps = sorted_list_of_set A"
  by (simp add: children_def)

lemma tags_page_tables:
  assumes "kv_ok K" "tables_ok aty K s v" "view_fits aty v" "nul_free r" "pred_option nul_free cursor"
  shows "lmdb_tags_page K s r cursor limit = view_tags_page v r cursor limit"
proof -
  let ?f = "tags_tab (v_tags v)"
  have rp: "rep K (Suc (length [r])) (lm_tags s) ?f" using tables_rep(1) [OF assms(2)] by (simp add: eval_nat_numeral)
  have nf: "list_all nul_free [r]" using assms(4) by simp
  have ch: "children ?f [r] = sorted_list_of_set (dom (v_tags v r))" by (rule sorted_children) auto
  have "tag_entry r (child_entry ?f [r] t) = Some [t]" if some: "?f ([r] @ [t]) \<noteq> None" for t
  proof -
    obtain d m where "v_tags v r t = Some (d, m)" using some by auto
    then have t: "text_fits [r, t]" using view_fitsD(1) [OF assms(3)] text_fits_parts(2) by blast
    then have "split_key (make_key [r, t]) = [r, t]" by (intro split_make_key) (simp add: text_fits_def key_fits_def)
    then show ?thesis using t by (simp add: tag_entry_def child_entry_def text_fits_def from_utf8_lossy_valid)
  qed
  from page_from_children [where dec = "tag_entry r" and g = "\<lambda>t. t", OF assms(1) rp nf _ assms(5) this, of limit]
  have page: "page_from K (lm_tags s) [r] cursor (tag_entry r) limit
      = Some (take_page (filter (after cursor) (sorted_list_of_set (dom (v_tags v r)))) limit)"
    by (simp add: ch)
  have "has_any_with_prefix K (lm_tags s) (make_prefix [r]) \<longleftrightarrow> v_tags v r \<noteq> Map.empty"
    unfolding has_any_children [OF assms(1) rp nf list.simps(3)] by (auto simp: fun_eq_iff)
  then show ?thesis using assms(1) page by (simp add: lmdb_tags_page_def view_tags_page_def)
qed

lemma plain_referrers_page:
  assumes "kv_ok K" "tables_ok aty K s v" "view_fits aty v" "nul_free r" "nul_free sub" "pred_option nul_free cursor"
  shows "page_from K (lm_referrers s) [r, sub] cursor (referrer_entry r sub) limit
       = Some (take_page (map (\<lambda>d. (d, the (v_referrers v r sub d)))
           (filter (after cursor) (sorted_list_of_set (dom (v_referrers v r sub))))) limit)"
proof -
  let ?f = "referrers_tab (v_referrers v)"
  have rp: "rep K (Suc (length [r, sub])) (lm_referrers s) ?f"
    using tables_rep(3) [OF assms(2)] by (simp add: eval_nat_numeral)
  have nf: "list_all nul_free [r, sub]" using assms(4,5) by simp
  have ch: "children ?f [r, sub] = sorted_list_of_set (dom (v_referrers v r sub))" by (rule sorted_children) auto
  have "referrer_entry r sub (child_entry ?f [r, sub] d) = Some [(d, the (v_referrers v r sub d))]"
    if some: "?f ([r, sub] @ [d]) \<noteq> None" for d
  proof -
    obtain x where "v_referrers v r sub d = Some x" using some by auto
    then have t: "text_fits [r, sub, d]" using view_fitsD(5) [OF assms(3)] by blast
    then have "split_key (make_key [r, sub, d]) = [r, sub, d]"
      by (intro split_make_key) (simp add: text_fits_def key_fits_def)
    then show ?thesis using t by (simp add: referrer_entry_def child_entry_def text_fits_def from_utf8_lossy_valid)
  qed
  from page_from_children [where dec = "referrer_entry r sub" and g = "\<lambda>d. (d, the (v_referrers v r sub d))",
      OF assms(1) rp nf _ assms(6) this, of limit] show ?thesis by (simp add: ch)
qed

lemma typed_referrers_page:
  assumes "kv_ok K" "tables_ok aty K s v" "view_fits aty v" "nul_free r" "nul_free sub" "nul_free a"
    and "pred_option nul_free cursor"
  shows "page_from K (lm_referrers_by_type s) [r, sub, a] cursor (typed_entry K s r sub a) limit
       = Some (take_page (map (\<lambda>d. (d, the (v_referrers v r sub d)))
           (filter (after cursor) (sorted_list_of_set {d. Option.bind (v_referrers v r sub d) aty = Some a}))) limit)"
proof -
  let ?f = "by_type_tab aty (v_referrers v)"
  have rp: "rep K (Suc (length [r, sub, a])) (lm_referrers_by_type s) ?f"
    using tables_rep(4) [OF assms(2)] by (simp add: eval_nat_numeral)
  have nf: "list_all nul_free [r, sub, a]" using assms(4-6) by simp
  have ch: "children ?f [r, sub, a] = sorted_list_of_set {d. Option.bind (v_referrers v r sub d) aty = Some a}"
    by (rule sorted_children) auto
  have "typed_entry K s r sub a (child_entry ?f [r, sub, a] d) = Some [(d, the (v_referrers v r sub d))]"
    if some: "?f ([r, sub, a] @ [d]) \<noteq> None" for d
  proof -
    obtain x where x: "v_referrers v r sub d = Some x" "aty x = Some a"
      using some by (auto simp: bind_eq_Some_conv split: if_splits)
    then have t: "text_fits [r, sub, a, d]" using view_fitsD(6) [OF assms(3)] by blast
    then have "split_key (make_key [r, sub, a, d]) = [r, sub, a, d]"
      by (intro split_make_key) (simp add: text_fits_def key_fits_def)
    then show ?thesis
      using t x referrer_get_tables [OF assms(1,2)]
      by (simp add: typed_entry_def child_entry_def text_fits_def utf8_or_empty_def eval_nat_numeral)
  qed
  from page_from_children [where dec = "typed_entry K s r sub a" and g = "\<lambda>d. (d, the (v_referrers v r sub d))",
      OF assms(1) rp nf _ assms(7) this, of limit] show ?thesis by (simp add: ch)
qed

lemma referrers_page_tables:
  assumes "kv_ok K" "tables_ok aty K s v" "view_fits aty v" "nul_free r" "nul_free sub" "pred_option nul_free at"
    and "pred_option nul_free cursor"
  shows "lmdb_referrers_page K s r sub at cursor limit = view_referrers_page aty v r sub at cursor limit"
proof -
  let ?m = "v_referrers v r sub"
  have rp: "rep K (Suc (length [r, sub])) (lm_referrers s) (referrers_tab (v_referrers v))"
    using tables_rep(3) [OF assms(2)] by (simp add: eval_nat_numeral)
  have any: "has_any_with_prefix K (lm_referrers s) (make_prefix [r, sub]) \<longleftrightarrow> ?m \<noteq> Map.empty"
    using has_any_children [OF assms(1) rp] assms(4,5) by (auto simp: fun_eq_iff)
  have fin: "finite (dom ?m)" using rep_finite [OF assms(1) rp, of "[r, sub]"] by (simp add: dom_def)
  show ?thesis
  proof (cases at)
    case None
    then show ?thesis
      using any plain_referrers_page [OF assms(1-5,7)] assms(1)
      by (simp add: lmdb_referrers_page_def view_referrers_page_def Let_def)
  next
    case (Some a)
    let ?A = "{d. Option.bind (?m d) aty = Some a}"
    have nfa: "nul_free a" using assms(6) Some by simp
    have rpt: "rep K (Suc (length [r, sub, a])) (lm_referrers_by_type s) (by_type_tab aty (v_referrers v))"
      using tables_rep(4) [OF assms(2)] by (simp add: eval_nat_numeral)
    have anyt: "has_any_with_prefix K (lm_referrers_by_type s) (make_prefix [r, sub, a]) \<longleftrightarrow> ?A \<noteq> {}"
      using has_any_children [OF assms(1) rpt] assms(4,5) nfa by auto
    have A: "?A = {d \<in> dom ?m. aty (the (?m d)) = Some a}" by (auto simp: bind_eq_Some_conv)
    have "filter (\<lambda>d. aty (the (?m d)) = Some a) (sorted_list_of_set (dom ?m)) = sorted_list_of_set ?A"
      unfolding A using fin by (intro strict_sorted_equal) (auto simp: sorted_wrt_filter)
    then have spec: "view_referrers_page aty v r sub at cursor limit = (if ?m = Map.empty then None
        else Some (take_page (map (\<lambda>d. (d, the (?m d))) (filter (after cursor) (sorted_list_of_set ?A))) limit))"
      by (simp add: view_referrers_page_def Let_def Some)
    have page: "lmdb_referrers_page K s r sub at cursor limit = (if ?A = {} then (if ?m = Map.empty then None else Some default_page)
        else Some (take_page (map (\<lambda>d. (d, the (?m d))) (filter (after cursor) (sorted_list_of_set ?A))) limit))"
      unfolding lmdb_referrers_page_def reading_ok [OF assms(1)] Some option.case
        typed_referrers_page [OF assms(1-5) nfa assms(7)] any anyt by simp
    have "?m \<noteq> Map.empty" if "?A \<noteq> {}" using that by auto
    then show ?thesis unfolding spec page by (simp add: default_page_def take_page_def)
  qed
qed

section \<open>The engine meets the contract\<close>

definition lmdb_run :: "'a ext_api_scheme \<Rightarrow> ('d, 'm) kv_api \<Rightarrow> meta_op \<Rightarrow> ('d, 'm) lmdb \<Rightarrow> ('d, 'm) lmdb" where
  "lmdb_run E K op s = snd (lmdb_apply E K op s)"

lemma lmdb_apply_ok:
  assumes "lmdb_invar E K s" "lmdb_op_ok (artifact_type_of E) op"
  shows "lmdb_apply E K op s = (Inr (), lmdb_run E K op s)" and "lmdb_invar E K (lmdb_run E K op s)"
    and "lmdb_view K (lmdb_run E K op s) = view_apply op (lmdb_view K s)"
proof -
  note inv = lmdb_invarE [OF assms(1)]
  obtain s' where s': "lmdb_apply_op E K op s = Inr s'" "tables_ok (artifact_type_of E) K s' (view_apply op (lmdb_view K s))"
    using lmdb_apply_op_step [OF inv assms(2)] by blast
  have fits: "view_fits (artifact_type_of E) (view_apply op (lmdb_view K s))"
    by (rule view_fits_apply [OF inv(3) assms(2)])
  have app: "lmdb_apply E K op s = (Inr (), s')"
    using inv(1) s'(1) by (simp add: lmdb_apply_def lmdb_apply_inner_def lmdb_txn_def)
  then show "lmdb_apply E K op s = (Inr (), lmdb_run E K op s)" by (simp add: lmdb_run_def)
  show "lmdb_invar E K (lmdb_run E K op s)"
    using app inv(1) s'(2) fits by (auto simp: lmdb_invar_def lmdb_run_def)
  show "lmdb_view K (lmdb_run E K op s) = view_apply op (lmdb_view K s)"
    using app lmdb_view_tables [OF inv(1) s'(2) fits] by (simp add: lmdb_run_def)
qed

interpretation lmdb: metadata_engine "lmdb_view K" "lmdb_invar E K" "lmdb_run E K" "lmdb_op_ok (artifact_type_of E)"
  nul_free "artifact_type_of E" "lmdb_resolve_tag K" "lmdb_manifest_media_type K" "lmdb_tags_page K"
  "lmdb_referrers_page K" "lmdb_has_referrer K" "lmdb_backrefs K" "lmdb_checksum K"
  for E :: "'a ext_api_scheme" and K :: "('d, 'm) kv_api"
proof
  fix s :: "('d, 'm) lmdb" and r t d sub :: string and at c :: "string option" and n :: nat
  assume inv: "lmdb_invar E K s"
  note tabs = lmdb_invarE [OF inv]
  show "lmdb_resolve_tag K s r t = v_tags (lmdb_view K s) r t" by (simp add: lmdb_view_def)
  show "lmdb_manifest_media_type K s r d = v_media (lmdb_view K s) r d" by (simp add: lmdb_view_def)
  show "lmdb_checksum K s r d = v_checksums (lmdb_view K s) r d" by (simp add: lmdb_view_def)
  show "lmdb_has_referrer K s r sub d \<longleftrightarrow> v_referrers (lmdb_view K s) r sub d \<noteq> None"
    using tabs(1) by (simp add: lmdb_view_def lmdb_has_referrer_def)
  show "set (lmdb_backrefs K s r t) = v_backrefs (lmdb_view K s) r t \<and> distinct (lmdb_backrefs K s r t)"
    by (rule backrefs_tables [OF tabs])
  have "finite {x. tags_tab (v_tags (lmdb_view K s)) ([r] @ [x]) \<noteq> None}"
    by (rule rep_finite [OF tabs(1) tables_rep(1) [OF tabs(2)]])
  then show "finite (dom (v_tags (lmdb_view K s) r))" by (simp add: dom_def)
  show "lmdb_tags_page K s r c n = view_tags_page (lmdb_view K s) r c n" if "nul_free r" "pred_option nul_free c"
    by (rule tags_page_tables [OF tabs that])
  show "lmdb_referrers_page K s r sub at c n = view_referrers_page (artifact_type_of E) (lmdb_view K s) r sub at c n"
    if "nul_free r" "nul_free sub" "pred_option nul_free at" "pred_option nul_free c"
    by (rule referrers_page_tables [OF tabs that])
qed (simp_all add: lmdb_apply_ok)

lemma tabs_of_none:
  "(\<And>r t. T r t = None) \<Longrightarrow> tags_tab T = Map.empty" "(\<And>r t. T r t = None) \<Longrightarrow> by_digest_tab T = Map.empty"
  "(\<And>r d. P r d = None) \<Longrightarrow> pair_tab enc P = Map.empty"
  "(\<And>r b. B r b = {}) \<Longrightarrow> backrefs_rel B = (\<lambda>_. {})" "(\<And>r b. B r b = {}) \<Longrightarrow> backrefs_rev_rel B = (\<lambda>_. {})"
proof -
  show "tags_tab T = Map.empty" if "\<And>r t. T r t = None"
  proof
    show "tags_tab T ks = None" for ks using that by (cases "(T, ks)" rule: tags_tab.cases) auto
  qed
  show "by_digest_tab T = Map.empty" if "\<And>r t. T r t = None"
  proof
    show "by_digest_tab T ks = None" for ks using that by (cases "(T, ks)" rule: by_digest_tab.cases) auto
  qed
  show "pair_tab enc P = Map.empty" if "\<And>r d. P r d = None"
  proof
    show "pair_tab enc P ks = None" for ks using that by (cases "(enc, P, ks)" rule: pair_tab.cases) auto
  qed
  show "backrefs_rel B = (\<lambda>_. {})" if "\<And>r b. B r b = {}"
  proof
    show "backrefs_rel B ks = {}" for ks using that by (cases "(B, ks)" rule: backrefs_rel.cases) auto
  qed
  show "backrefs_rev_rel B = (\<lambda>_. {})" if "\<And>r b. B r b = {}"
  proof
    show "backrefs_rev_rel B ks = {}" for ks using that by (cases "(B, ks)" rule: backrefs_rev_rel.cases) auto
  qed
qed

lemma referrer_tabs_of_none:
  assumes "\<And>r sub d. T r sub d = None"
  shows "referrers_tab T = Map.empty" "types_tab aty T = Map.empty" "by_type_tab aty T = Map.empty" "reverse_tab T = Map.empty"
proof -
  have "referrers_tab T ks = None" for ks using assms by (cases "(T, ks)" rule: referrers_tab.cases) auto
  moreover have "types_tab aty T ks = None" for ks using assms by (cases "(aty, T, ks)" rule: types_tab.cases) auto
  moreover have "by_type_tab aty T ks = None" for ks using assms by (cases "(aty, T, ks)" rule: by_type_tab.cases) auto
  moreover have "reverse_tab T ks = None" for ks using assms by (cases "(T, ks)" rule: reverse_tab.cases) auto
  ultimately show "referrers_tab T = Map.empty" "types_tab aty T = Map.empty" "by_type_tab aty T = Map.empty"
    "reverse_tab T = Map.empty" by (simp_all add: fun_eq_iff)
qed

lemma lmdb_fresh:
  assumes "kv_ok K"
  shows "lmdb_invar E K (lmdb_new K)" and "lmdb_view K (lmdb_new K) = view_empty"
proof -
  have "rep K n (kv_new K) Map.empty" "dup_rep K n (dup_new K) (\<lambda>_. {})" for n
    by (simp_all add: rep_def dup_rep_def kv_fresh [OF assms])
  then have tabs: "tables_ok aty K (lmdb_new K) view_empty" for aty
    by (simp add: tables_ok_def tabs_of_none referrer_tabs_of_none view_empty_def lmdb_new_def)
  have fits: "view_fits aty view_empty" for aty by (simp add: view_fits_def view_empty_def)
  show "lmdb_invar E K (lmdb_new K)" using assms tabs fits by (auto simp: lmdb_invar_def)
  show "lmdb_view K (lmdb_new K) = view_empty" by (rule lmdb_view_tables [OF assms tabs fits])
qed

end
