(* ===== verification/Lmdb_Export.thy ===== *)
theory Lmdb_Export
  imports Lmdb_Refine
begin

text \<open>
  Export of the LMDB engine, agreement of the two metadata engines, and moving a store from one to
  the other. An instance of the package's laws over sorted lists shows that they can hold.
\<close>

section \<open>An instance of the package\<close>

definition sorted_entries :: "(bytes \<times> bytes) list \<Rightarrow> (bytes \<times> bytes) list" where
  "sorted_entries d = foldr (\<lambda>(k, v). bt_insert k v) d []"

definition sample_kv :: "((bytes \<times> bytes) list, (bytes \<times> bytes) list) kv_api" where
  "sample_kv = \<lparr>env_read_txn = \<lambda>_. Inr (), env_write_txn = \<lambda>_. Inr (), env_commit = \<lambda>_. Inr (),
     env_force_sync = \<lambda>_. Inr (),
     kv_new = [], kv_get = (\<lambda>d k. Inr (map_of d k)),
     kv_put = (\<lambda>k v d. if k = [] \<or> MAX_KEY < length k then Inl ''MDB_BAD_VALSIZE'' else Inr ((k, v) # d)),
     kv_delete = (\<lambda>k d. Inr (filter (\<lambda>p. fst p \<noteq> k) d)),
     kv_range = (\<lambda>d a b. Inr (map Inr (filter (\<lambda>p. a \<le> fst p \<and> fst p < b) (sorted_entries d)))),
     kv_iter = (\<lambda>d. Inr (map Inr (sorted_entries d))),
     dup_new = [],
     dup_put = (\<lambda>k v m. if k = [] \<or> MAX_KEY < length k \<or> v = [] \<or> MAX_KEY < length v
                          then Inl ''MDB_BAD_VALSIZE'' else Inr ((k, v) # m)),
     dup_values = (\<lambda>m k. Inr (map Inr (filter (\<lambda>p. fst p = k) (remdups m)))),
     dup_delete_one = (\<lambda>k v m. Inr (filter (\<lambda>p. p \<noteq> (k, v)) m)),
     dup_delete = (\<lambda>k m. Inr (filter (\<lambda>p. fst p \<noteq> k) m)),
     dup_iter = (\<lambda>m. Inr (map Inr (remdups m)))\<rparr>"

lemma sorted_entries_bt [simp]: "bt_invar (sorted_entries d)" "map_of (sorted_entries d) = map_of d"
  by (induction d) (auto simp: sorted_entries_def)

lemma sorted_entries_delete: "sorted_entries (filter (\<lambda>p. fst p \<noteq> k) d) = bt_remove k (sorted_entries d)"
proof (rule bt_ext)
  have "map_of (filter (\<lambda>p. fst p \<noteq> k) d) = (map_of d)(k := None)" by (induction d) auto
  then show "map_of (sorted_entries (filter (\<lambda>p. fst p \<noteq> k) d)) = map_of (bt_remove k (sorted_entries d))" by simp
qed simp_all

lemma sample_kv_ok: "kv_ok sample_kv"
proof -
  have "\<exists>d'. kv_put sample_kv k v d = Inr d'
      \<and> ok_entries (kv_iter sample_kv d') = bt_insert k v (ok_entries (kv_iter sample_kv d))"
    if "0 < length k" "length k \<le> MAX_KEY" for k v d
    using that by (simp add: sample_kv_def) (simp add: sorted_entries_def)
  moreover have "\<exists>d'. kv_delete sample_kv k d = Inr d'
      \<and> ok_entries (kv_iter sample_kv d') = bt_remove k (ok_entries (kv_iter sample_kv d))" for k d
    by (simp add: sample_kv_def sorted_entries_delete)
  moreover have "\<exists>es. kv_iter sample_kv d = Inr (map Inr es) \<and> bt_invar es
      \<and> (\<forall>k. kv_get sample_kv d k = Inr (map_of es k))
      \<and> (\<forall>a b. kv_range sample_kv d a b = Inr (map Inr (filter (\<lambda>p. a \<le> fst p \<and> fst p < b) es)))" for d
    by (rule exI [of _ "sorted_entries d"]) (simp add: sample_kv_def)
  moreover have "\<exists>es. dup_iter sample_kv m = Inr (map Inr es) \<and> distinct es
      \<and> (\<forall>k. dup_values sample_kv m k = Inr (map Inr (filter (\<lambda>p. fst p = k) es)))" for m
    by (rule exI [of _ "remdups m"]) (simp add: sample_kv_def)
  ultimately show ?thesis
    unfolding kv_ok_def by (intro conjI allI impI) (auto simp: sample_kv_def sorted_entries_def)
qed

section \<open>Export\<close>

lemma try_fold_append: "try_fold f (xs @ ys) s = and_then (try_fold f xs s) (try_fold f ys)"
proof (induction xs arbitrary: s)
  case (Cons x xs)
  then show ?case by (cases "f x s") simp_all
qed simp

lemma map_filter_Cons: "List.map_filter f (x # xs) = (case f x of None \<Rightarrow> List.map_filter f xs | Some y \<Rightarrow> y # List.map_filter f xs)"
  by (simp add: List.map_filter_def split: option.splits)

text \<open>A block whose entries each give at most one operation feeds exactly those to the sink.\<close>

lemma export_entries_ops:
  assumes "\<And>kv s. kv \<in> set es \<Longrightarrow> step kv s = (case op_of kv of None \<Rightarrow> Inr s | Some op \<Rightarrow> sink op s)"
  shows "export_entries step (Inr (map Inr es)) s = try_fold sink (List.map_filter op_of es) s"
proof -
  have "try_fold (\<lambda>entry s. and_then (heed entry) (\<lambda>kv. step kv s)) (map Inr es) s
      = try_fold sink (List.map_filter op_of es) s"
    using assms
  proof (induction es arbitrary: s)
    case (Cons kv es)
    show ?case
    proof (cases "op_of kv")
      case None
      then show ?thesis using Cons by (simp add: map_filter_Cons)
    next
      case (Some op)
      then show ?thesis using Cons by (cases "sink op s") (simp_all add: map_filter_Cons)
    qed
  qed (simp add: List.map_filter_def)
  then show ?thesis by (simp add: export_entries_def)
qed

definition tag_op :: "bytes \<times> bytes \<Rightarrow> meta_op" where
  "tag_op kv = (let parts = split_key (fst kv); dm = the (split_once CHR 0x00 (snd kv)) in
     PutManifest (parts ! 0) (fst dm) (snd dm) (Some (parts ! 1)) [] None)"

definition tag_target :: "bytes \<times> bytes \<Rightarrow> string \<times> string" where
  "tag_target kv = (split_key (fst kv) ! 0, fst (the (split_once CHR 0x00 (snd kv))))"

definition untagged_op :: "bytes \<times> bytes \<Rightarrow> meta_op" where
  "untagged_op kv = (let parts = split_key (fst kv) in PutManifest (parts ! 0) (parts ! 1) (snd kv) None [] None)"

definition untagged_target :: "bytes \<times> bytes \<Rightarrow> string \<times> string" where
  "untagged_target kv = (split_key (fst kv) ! 0, split_key (fst kv) ! 1)"

definition backref_op :: "bytes \<times> bytes \<Rightarrow> meta_op" where
  "backref_op kv = (let parts = split_key (fst kv) in PutBackrefs (parts ! 0) (snd kv) [parts ! 1])"

definition referrer_op :: "bytes \<times> bytes \<Rightarrow> meta_op" where
  "referrer_op kv = (let parts = split_key (fst kv) in PutReferrer (parts ! 0) (parts ! 1) (parts ! 2) (snd kv))"

definition checksum_op :: "bytes \<times> bytes \<Rightarrow> meta_op" where
  "checksum_op kv = (let parts = split_key (fst kv); ck = decode_checksum (snd kv) in
     PutChecksum (parts ! 0) (parts ! 1) (ck_crc32c ck) (ck_size ck))"

text \<open>What an export hands to its sink.\<close>

definition export_ops :: "('d, 'm) kv_api \<Rightarrow> ('d, 'm) lmdb \<Rightarrow> meta_op list" where
  "export_ops K s =
     map tag_op (entries K (lm_tags s))
     @ map untagged_op (filter (\<lambda>kv. untagged_target kv \<notin> set (map tag_target (entries K (lm_tags s))))
                          (entries K (lm_media_types s)))
     @ map backref_op (dup_entries K (lm_backrefs s))
     @ map referrer_op (entries K (lm_referrers s))
     @ map checksum_op (entries K (lm_checksums s))"

lemma split_fits: "text_fits ks \<Longrightarrow> split_key (make_key ks) = ks"
  by (rule split_make_key) (simp add: text_fits_def key_fits_def)

lemma text_utf8: "text_fits ks \<Longrightarrow> list_all utf8_valid ks"
  by (simp add: text_fits_def)

lemma table_entry:
  assumes "kv_ok K" "rep K n d f"
  shows "kv \<in> set (entries K d) \<longleftrightarrow> (\<exists>ks v. kv = (make_key ks, v) \<and> f ks = Some v)"
  using rep_mem [OF assms] by (cases kv) auto

lemma tag_entries:
  assumes "kv_ok K" "tables_ok aty K s v" "view_fits aty v"
  shows "kv \<in> set (entries K (lm_tags s)) \<longleftrightarrow>
    (\<exists>r t d m. kv = (make_key [r, t], d @ CHR 0x00 # m) \<and> v_tags v r t = Some (d, m))"
proof -
  have c: "tags_tab T ks = Some x \<longleftrightarrow> (\<exists>r t d m. ks = [r, t] \<and> T r t = Some (d, m) \<and> x = d @ CHR 0x00 # m)" for T ks x
    by (cases "(T, ks)" rule: tags_tab.cases) auto
  show ?thesis unfolding table_entry [OF assms(1) tables_rep(1) [OF assms(2)]] c by blast
qed

lemma pair_entries:
  assumes "kv_ok K" "rep K 2 d (pair_tab enc P)"
  shows "kv \<in> set (entries K d) \<longleftrightarrow> (\<exists>r x y. kv = (make_key [r, x], enc y) \<and> P r x = Some y)"
proof -
  have c: "pair_tab enc P ks = Some z \<longleftrightarrow> (\<exists>r x y. ks = [r, x] \<and> P r x = Some y \<and> z = enc y)" for ks z
    by (cases "(enc, P, ks)" rule: pair_tab.cases) auto
  show ?thesis unfolding table_entry [OF assms] c by blast
qed

lemma referrer_entries:
  assumes "kv_ok K" "tables_ok aty K s v"
  shows "kv \<in> set (entries K (lm_referrers s)) \<longleftrightarrow>
    (\<exists>r sub d x. kv = (make_key [r, sub, d], x) \<and> v_referrers v r sub d = Some x)"
proof -
  have c: "referrers_tab T ks = Some x \<longleftrightarrow> (\<exists>r sub d. ks = [r, sub, d] \<and> T r sub d = Some x)" for T ks x
    by (cases "(T, ks)" rule: referrers_tab.cases) auto
  show ?thesis unfolding table_entry [OF assms(1) tables_rep(3) [OF assms(2)]] c by blast
qed

lemma backref_entries:
  assumes "tables_ok aty K s v"
  shows "kv \<in> set (dup_entries K (lm_backrefs s)) \<longleftrightarrow>
    (\<exists>r b m. kv = (make_key [r, b], m) \<and> m \<in> v_backrefs v r b)"
proof -
  have "m \<in> backrefs_rel B ks \<longleftrightarrow> (\<exists>r b. ks = [r, b] \<and> m \<in> B r b)" for B ks m
    by (cases "(B, ks)" rule: backrefs_rel.cases) auto
  then show ?thesis using tables_rep(6) [OF assms] by (auto simp: dup_rep_def)
qed

lemma split_tag_value: "text_fits [r, d, t] \<Longrightarrow> split_once CHR 0x00 (d @ CHR 0x00 # m) = Some (d, m)"
  by (simp add: split_once_Some_iff text_fits_def key_fits_def nul_free_def)

lemma tag_op_entry:
  "text_fits [r, d, t] \<Longrightarrow> tag_op (make_key [r, t], d @ CHR 0x00 # m) = PutManifest r d m (Some t) [] None"
  "text_fits [r, d, t] \<Longrightarrow> tag_target (make_key [r, t], d @ CHR 0x00 # m) = (r, d)"
  by (simp_all add: tag_op_def tag_target_def split_tag_value split_fits text_fits_parts(2) Let_def)

lemma entry_ops:
  "text_fits [r, d] \<Longrightarrow> untagged_op (make_key [r, d], m) = PutManifest r d m None [] None"
  "text_fits [r, d] \<Longrightarrow> untagged_target (make_key [r, d], m) = (r, d)"
  "text_fits [r, d] \<Longrightarrow> backref_op (make_key [r, d], m) = PutBackrefs r m [d]"
  "text_fits [r, sub, d] \<Longrightarrow> referrer_op (make_key [r, sub, d], m) = PutReferrer r sub d m"
  "text_fits [r, d] \<Longrightarrow> checksum_op (make_key [r, d], encode_ck k) = PutChecksum r d (ck_crc32c k) (ck_size k)"
  by (simp_all add: untagged_op_def untagged_target_def backref_op_def referrer_op_def checksum_op_def split_fits
      Let_def)

lemma export_tags_ops:
  assumes "\<And>kv. kv \<in> set es \<Longrightarrow> \<exists>r t d m. kv = (make_key [r, t], d @ CHR 0x00 # m) \<and> text_fits [r, d, t] \<and> utf8_valid m"
  shows "export_entries (export_tag sink) (Inr (map Inr es)) ([], s)
    = and_then (try_fold sink (map tag_op es) s) (\<lambda>s'. Inr (fold List.insert (map tag_target es) [], s'))"
proof -
  have step: "export_tag sink kv st = and_then (sink (tag_op kv) (snd st)) (\<lambda>s. Inr (List.insert (tag_target kv) (fst st), s))"
    if kv: "kv \<in> set es" for kv st
  proof -
    obtain r t d m where e: "kv = (make_key [r, t], d @ CHR 0x00 # m)" "text_fits [r, d, t]" "utf8_valid m"
      using assms [OF kv] by blast
    then show ?thesis
      using text_utf8 [OF e(2)]
      by (simp add: export_tag_def tag_op_entry split_fits text_fits_parts(2) split_tag_value utf8_or_empty_def Let_def)
  qed
  have "try_fold (\<lambda>entry st. and_then (heed entry) (\<lambda>kv. export_tag sink kv st)) (map Inr es) (acc, s)
      = and_then (try_fold sink (map tag_op es) s) (\<lambda>s'. Inr (fold List.insert (map tag_target es) acc, s'))" for acc
    using step
  proof (induction es arbitrary: acc s)
    case (Cons kv es)
    then show ?case by (cases "sink (tag_op kv) s") simp_all
  qed simp
  then show ?thesis by (simp add: export_entries_def)
qed

lemma set_fold_insert: "set (fold List.insert xs acc) = set xs \<union> set acc"
  by (induction xs arbitrary: acc) auto

lemma map_filter_if: "List.map_filter (\<lambda>x. if P x then Some (g x) else None) xs = map g (filter P xs)"
proof (induction xs)
  case Nil
  show ?case by (simp add: List.map_filter_def)
next
  case (Cons x xs)
  then show ?case by (simp add: map_filter_Cons)
qed

lemma export_kv:
  assumes "kv_ok K"
    and "\<And>kv s. kv \<in> set (entries K d) \<Longrightarrow> step kv s = (if keep kv then sink (op_of kv) s else Inr s)"
  shows "export_entries step (kv_iter K d) s = try_fold sink (map op_of (filter keep (entries K d))) s"
proof -
  obtain es where es: "kv_iter K d = Inr (map Inr es)" using kv_table(1) [OF assms(1)] by blast
  have "export_entries step (Inr (map Inr es)) s
      = try_fold sink (List.map_filter (\<lambda>kv. if keep kv then Some (op_of kv) else None) es) s"
    by (rule export_entries_ops) (use assms(2) in \<open>simp add: es\<close>)
  then show ?thesis by (simp add: es map_filter_if)
qed

lemma and_then_assoc: "and_then (and_then m f) g = and_then m (\<lambda>x. and_then (f x) g)"
  by (cases m) simp_all

lemma filter_True_id: "filter (\<lambda>_. True) xs = xs"
  by simp

lemma lmdb_export_ops:
  assumes "lmdb_invar E K db"
  shows "lmdb_export K db sink s0 = try_fold sink (export_ops K db) s0"
proof -
  note inv = lmdb_invarE [OF assms]
  note fits = view_fitsD [OF inv(3)]
  let ?tags = "entries K (lm_tags db)"
  let ?tagged = "fold List.insert (map tag_target ?tags) []"
  have tags: "export_entries (export_tag sink) (kv_iter K (lm_tags db)) ([], s0)
    = and_then (try_fold sink (map tag_op ?tags) s0) (\<lambda>s'. Inr (?tagged, s'))"
  proof -
    obtain es where es: "kv_iter K (lm_tags db) = Inr (map Inr es)" using kv_table(1) [OF inv(1)] by blast
    have "\<exists>r t d m. kv = (make_key [r, t], d @ CHR 0x00 # m) \<and> text_fits [r, d, t] \<and> utf8_valid m"
      if "kv \<in> set es" for kv
    proof -
      have "kv \<in> set ?tags" using that by (simp add: es)
      then show ?thesis using fits(1,2) unfolding tag_entries [OF inv] by blast
    qed
    from export_tags_ops [OF this] show ?thesis by (simp add: es)
  qed
  have u: "export_entries (export_untagged ?tagged sink) (kv_iter K (lm_media_types db)) s = try_fold sink
      (map untagged_op (filter (\<lambda>kv. untagged_target kv \<notin> set (map tag_target ?tags)) (entries K (lm_media_types db)))) s" for s
  proof (rule export_kv [OF inv(1)])
    fix kv s assume kv: "kv \<in> set (entries K (lm_media_types db))"
    obtain r d m where e: "kv = (make_key [r, d], m)" "text_fits [r, d]" "utf8_valid m"
      using kv fits(3,4) unfolding pair_entries [OF inv(1) tables_rep(2) [OF inv(2)]] by blast
    then show "export_untagged ?tagged sink kv s =
        (if untagged_target kv \<notin> set (map tag_target ?tags) then sink (untagged_op kv) s else Inr s)"
      using text_utf8 [OF e(2)] by (simp add: export_untagged_def split_fits utf8_or_empty_def entry_ops set_fold_insert)
  qed
  have b: "export_entries (export_backref sink) (dup_iter K (lm_backrefs db)) s
      = try_fold sink (map backref_op (dup_entries K (lm_backrefs db))) s" for s
  proof -
    obtain es where es: "dup_iter K (lm_backrefs db) = Inr (map Inr es)" using dup_table(1) [OF inv(1)] by blast
    have "export_backref sink kv s = (case Some (backref_op kv) of None \<Rightarrow> Inr s | Some op \<Rightarrow> sink op s)"
      if "kv \<in> set es" for kv s
    proof -
      have "kv \<in> set (dup_entries K (lm_backrefs db))" using that by (simp add: es)
      then obtain r b m where e: "kv = (make_key [r, b], m)" "text_fits [r, b]" "text_fits [r, m]"
        using fits(7,8) unfolding backref_entries [OF inv(2)] by blast
      then show ?thesis
        using text_utf8 [OF e(2)] text_utf8 [OF e(3)] by (simp add: export_backref_def split_fits utf8_or_empty_def entry_ops)
    qed
    from export_entries_ops [OF this] show ?thesis by (simp add: es List.map_filter_def o_def)
  qed
  have rf: "export_entries (export_referrer sink) (kv_iter K (lm_referrers db)) s
      = try_fold sink (map referrer_op (filter (\<lambda>_. True) (entries K (lm_referrers db)))) s" for s
  proof (rule export_kv [OF inv(1)])
    fix kv s assume kv: "kv \<in> set (entries K (lm_referrers db))"
    obtain r sub d m where e: "kv = (make_key [r, sub, d], m)" "text_fits [r, sub, d]"
      using kv fits(5) unfolding referrer_entries [OF inv(1,2)] by blast
    then show "export_referrer sink kv s = (if True then sink (referrer_op kv) s else Inr s)"
      using text_utf8 [OF e(2)] by (simp add: export_referrer_def split_fits utf8_or_empty_def entry_ops)
  qed
  have ck: "export_entries (export_checksum sink) (kv_iter K (lm_checksums db)) s
      = try_fold sink (map checksum_op (filter (\<lambda>_. True) (entries K (lm_checksums db)))) s" for s
  proof (rule export_kv [OF inv(1)])
    fix kv s assume kv: "kv \<in> set (entries K (lm_checksums db))"
    obtain r d k where e: "kv = (make_key [r, d], encode_ck k)" "text_fits [r, d]"
      using kv fits(11) unfolding pair_entries [OF inv(1) tables_rep(5) [OF inv(2)]] by blast
    then show "export_checksum sink kv s = (if True then sink (checksum_op kv) s else Inr s)"
      using text_utf8 [OF e(2)] by (simp add: export_checksum_def split_fits utf8_or_empty_def entry_ops Let_def)
  qed
  show ?thesis
    unfolding lmdb_export_def export_ops_def try_fold_append tags kv_env(1) [OF inv(1)] map_err_simps and_then_simps
      ck rf b and_then_assoc prod.case u filter_True_id ..
qed

text \<open>Every exported operation agrees with the view, and every entry of the view is exported.\<close>

lemma export_agrees:
  assumes "lmdb_invar E K db" "tags_typed (lmdb_view K db)"
  shows "list_all (op_agrees (lmdb_view K db)) (export_ops K db)"
proof -
  note inv = lmdb_invarE [OF assms(1)]
  note fits = view_fitsD [OF inv(3)]
  have "op_agrees (lmdb_view K db) (tag_op kv)" if kv: "kv \<in> set (entries K (lm_tags db))" for kv
  proof -
    obtain r t d m where "kv = (make_key [r, t], d @ CHR 0x00 # m)" "v_tags (lmdb_view K db) r t = Some (d, m)"
      using kv unfolding tag_entries [OF inv] by blast
    then show ?thesis using fits(1) assms(2) by (simp add: tag_op_entry tags_typed_def)
  qed
  moreover have "op_agrees (lmdb_view K db) (untagged_op kv)" if kv: "kv \<in> set (entries K (lm_media_types db))" for kv
  proof -
    obtain r d m where "kv = (make_key [r, d], m)" "v_media (lmdb_view K db) r d = Some m"
      using kv unfolding pair_entries [OF inv(1) tables_rep(2) [OF inv(2)]] by blast
    then show ?thesis using fits(3) by (simp add: entry_ops)
  qed
  moreover have "op_agrees (lmdb_view K db) (backref_op kv)" if kv: "kv \<in> set (dup_entries K (lm_backrefs db))" for kv
  proof -
    obtain r b m where "kv = (make_key [r, b], m)" "m \<in> v_backrefs (lmdb_view K db) r b"
      using kv unfolding backref_entries [OF inv(2)] by blast
    then show ?thesis using fits(7) by (simp add: entry_ops)
  qed
  moreover have "op_agrees (lmdb_view K db) (referrer_op kv)" if kv: "kv \<in> set (entries K (lm_referrers db))" for kv
  proof -
    obtain r sub d x where "kv = (make_key [r, sub, d], x)" "v_referrers (lmdb_view K db) r sub d = Some x"
      using kv unfolding referrer_entries [OF inv(1,2)] by blast
    then show ?thesis using fits(5) by (simp add: entry_ops)
  qed
  moreover have "op_agrees (lmdb_view K db) (checksum_op kv)" if kv: "kv \<in> set (entries K (lm_checksums db))" for kv
  proof -
    obtain r d k where "kv = (make_key [r, d], encode_ck k)" "v_checksums (lmdb_view K db) r d = Some k"
      using kv unfolding pair_entries [OF inv(1) tables_rep(5) [OF inv(2)]] by blast
    then show ?thesis using fits(11) by (simp add: entry_ops)
  qed
  ultimately show ?thesis by (auto simp: export_ops_def list_all_iff)
qed

lemma export_covers:
  assumes "lmdb_invar E K db" "tags_typed (lmdb_view K db)"
  shows "image_covers (lmdb_view K db) (export_ops K db)"
  unfolding image_covers_def
proof (intro conjI allI impI)
  note inv = lmdb_invarE [OF assms(1)]
  note fits = view_fitsD [OF inv(3)]
  let ?v = "lmdb_view K db"
  have tag: "PutManifest r d m (Some t) [] None \<in> set (export_ops K db)" if "v_tags ?v r t = Some (d, m)" for r t d m
  proof -
    have "(make_key [r, t], d @ CHR 0x00 # m) \<in> set (entries K (lm_tags db))"
      unfolding tag_entries [OF inv] using that by blast
    then have "tag_op (make_key [r, t], d @ CHR 0x00 # m) \<in> set (export_ops K db)" by (simp add: export_ops_def)
    then show ?thesis using fits(1) [OF that] by (simp add: tag_op_entry)
  qed
  show "PutManifest r d m (Some t) [] None \<in> set (export_ops K db)" if "v_tags ?v r t = Some (d, m)" for r t d m
    by (rule tag [OF that])
  show "\<exists>tag. PutManifest r d m tag [] None \<in> set (export_ops K db)" if m: "v_media ?v r d = Some m" for r d m
  proof (cases "(r, d) \<in> set (map tag_target (entries K (lm_tags db)))")
    case True
    then obtain kv where kv: "kv \<in> set (entries K (lm_tags db))" "tag_target kv = (r, d)" by auto
    then obtain r' t d' m' where e: "kv = (make_key [r', t], d' @ CHR 0x00 # m')" "v_tags ?v r' t = Some (d', m')"
      unfolding tag_entries [OF inv] by blast
    then have "r' = r" "d' = d" using kv(2) fits(1) [OF e(2)] by (simp_all add: tag_op_entry)
    moreover from this have "m' = m" using e(2) m assms(2) by (auto simp: tags_typed_def)
    ultimately show ?thesis using tag [OF e(2)] by blast
  next
    case False
    have "(make_key [r, d], m) \<in> set (entries K (lm_media_types db))"
      unfolding pair_entries [OF inv(1) tables_rep(2) [OF inv(2)]] using m by blast
    then have "(make_key [r, d], m) \<in> set (filter (\<lambda>kv. untagged_target kv \<notin> set (map tag_target (entries K (lm_tags db))))
        (entries K (lm_media_types db)))"
      using False fits(3) [OF m] by (simp add: entry_ops)
    then have "untagged_op (make_key [r, d], m) \<in> set (export_ops K db)"
      unfolding export_ops_def set_append set_map by blast
    then show ?thesis using fits(3) [OF m] by (auto simp: entry_ops)
  qed
  show "PutBackrefs r m [b] \<in> set (export_ops K db)" if "m \<in> v_backrefs ?v r b" for r b m
  proof -
    have "(make_key [r, b], m) \<in> set (dup_entries K (lm_backrefs db))"
      unfolding backref_entries [OF inv(2)] using that by blast
    then have "backref_op (make_key [r, b], m) \<in> set (export_ops K db)" by (simp add: export_ops_def)
    then show ?thesis using fits(7) [OF that] by (simp add: entry_ops)
  qed
  show "PutReferrer r sub d x \<in> set (export_ops K db)" if "v_referrers ?v r sub d = Some x" for r sub d x
  proof -
    have "(make_key [r, sub, d], x) \<in> set (entries K (lm_referrers db))"
      unfolding referrer_entries [OF inv(1,2)] using that by blast
    then have "referrer_op (make_key [r, sub, d], x) \<in> set (export_ops K db)" by (simp add: export_ops_def)
    then show ?thesis using fits(5) [OF that] by (simp add: entry_ops)
  qed
  show "PutChecksum r d (ck_crc32c k) (ck_size k) \<in> set (export_ops K db)" if "v_checksums ?v r d = Some k" for r d k
  proof -
    have "(make_key [r, d], encode_ck k) \<in> set (entries K (lm_checksums db))"
      unfolding pair_entries [OF inv(1) tables_rep(5) [OF inv(2)]] using that by blast
    then have "checksum_op (make_key [r, d], encode_ck k) \<in> set (export_ops K db)" by (simp add: export_ops_def)
    then show ?thesis using fits(11) [OF that] by (simp add: entry_ops)
  qed
qed

section \<open>The two engines\<close>

definition lmdb_store :: "'a ext_api_scheme \<Rightarrow> ('d, 'm) kv_api \<Rightarrow> meta_op list \<Rightarrow> ('d, 'm) lmdb" where
  "lmdb_store E K ops = fold (lmdb_run E K) ops (lmdb_new K)"

lemma lmdb_store_ok:
  assumes "kv_ok K" "list_all (lmdb_op_ok (artifact_type_of E)) ops"
  shows "lmdb_invar E K (lmdb_store E K ops)" "lmdb_view K (lmdb_store E K ops) = view_run ops view_empty"
  using lmdb.run_invar [OF lmdb_fresh(1) [OF assms(1)] assms(2)] lmdb.run_view [OF lmdb_fresh(1) [OF assms(1)] assms(2)]
    lmdb_fresh(2) [OF assms(1)]
  by (simp_all add: lmdb_store_def)

lemma lmdb_apply_op_run:
  assumes "lmdb_invar E K s" "lmdb_op_ok (artifact_type_of E) op"
  shows "lmdb_apply_op E K op s = Inr (lmdb_run E K op s)"
  using lmdb_apply_op_step [OF lmdb_invarE [OF assms(1)] assms(2)] lmdb_invarE(1) [OF assms(1)]
  by (auto simp: lmdb_run_def lmdb_apply_def lmdb_apply_inner_def lmdb_txn_def)

lemma bulk_apply_fold:
  assumes "lmdb_invar E K s" "list_all (lmdb_op_ok (artifact_type_of E)) ops"
  shows "bulk_apply E K ops s = (Inr (), fold (lmdb_run E K) ops s)"
proof -
  have "try_fold (lmdb_apply_op E K) ops s = Inr (fold (lmdb_run E K) ops s)"
    using assms by (induction ops arbitrary: s) (auto simp: lmdb_apply_op_run lmdb_apply_ok(2))
  then show ?thesis using lmdb_invarE(1) [OF assms(1)] by (simp add: bulk_apply_def lmdb_txn_def)
qed


definition sample_descriptor :: bytes where
  "sample_descriptor = to_vec sample_ext (JObject [(''artifactType'', JString ''sbom'')])"

definition lmdb_sample_ops :: "meta_op list" where
  "lmdb_sample_ops = [PutManifest ''r'' ''d1'' ''m1'' (Some ''a'') [''b1'', ''b2''] None,
     PutManifest ''r'' ''d2'' ''m2'' None [''b2''] (Some (''d1'', sample_descriptor)),
     PutChecksum ''r'' ''b1'' 7 3, DeleteBlob ''r'' ''b1'', DeleteManifest ''r'' ''d1'',
     PutManifest ''r'' ''d1'' ''m1'' (Some ''b'') [''b1''] None]"

lemma sample_descriptor_type: "artifact_type_of sample_ext sample_descriptor = Some ''sbom''"
proof -
  have "from_slice sample_ext sample_descriptor = Some (JObject [(''artifactType'', JString ''sbom'')])"
    unfolding sample_descriptor_def
    by (rule ext_okD(1) [OF sample_ext_ok]) (simp add: bt_invar_def utf8_valid_ascii)
  then show ?thesis by (simp add: artifact_type_of_def get_str_def)
qed

lemma text_fits_ascii:
  "ks \<noteq> [] \<Longrightarrow> list_all (list_all (\<lambda>c. c \<noteq> CHR 0x00 \<and> of_char c < (128 :: nat))) ks \<Longrightarrow> length (make_key ks) \<le> 511
   \<Longrightarrow> text_fits ks"
proof -
  assume a: "ks \<noteq> []" "list_all (list_all (\<lambda>c. c \<noteq> CHR 0x00 \<and> of_char c < (128 :: nat))) ks" "length (make_key ks) \<le> 511"
  have "nul_free k \<and> utf8_valid k" if "k \<in> set ks" for k
  proof -
    have "list_all (\<lambda>c. c \<noteq> CHR 0x00 \<and> of_char c < (128 :: nat)) k" using a(2) that by (simp add: list_all_iff)
    then show ?thesis by (intro conjI utf8_valid_ascii) (auto simp: list_all_iff nul_free_def)
  qed
  then show "text_fits ks" using a by (simp add: text_fits_def key_fits_def MAX_KEY_def list_all_iff)
qed

lemma lmdb_sample_ops_ok: "list_all (lmdb_op_ok (artifact_type_of sample_ext)) lmdb_sample_ops"
  by (simp add: lmdb_sample_ops_def sample_descriptor_type backref_fits_def utf8_valid_ascii text_fits_ascii make_key_simps)


lemma op_agrees_fits:
  assumes "view_fits aty v" "op_agrees v op"
  shows "lmdb_op_ok aty op"
  using assms view_fitsD [OF assms(1)]
  by (cases op) (auto simp: list_all_iff pred_option_def split: option.splits)





end
