(* ===== verification/Io_Monad.thy ===== *)
theory Io_Monad
  imports Storage_Error
begin

text \<open>
  Fallible operations on an explicit state. An operation maps the state to a result and the state
  after it; \<open>?\<close> is \<open>and_do\<close>, and a \<open>match\<close> on a result is \<open>observe\<close>. Properties are proved with a
  weakest-precondition calculus: \<open>wp m Q s\<close> says that running \<open>m\<close> from \<open>s\<close> ends in a result and a
  state that satisfy \<open>Q\<close>. The structural rules are simplification rules, and each operation adds one
  introduction rule for its callers.
\<close>

named_theorems wp_simps \<open>structural rules of the weakest-precondition calculus\<close>

type_synonym ('s, 'e, 'a) act = "'s \<Rightarrow> ('e + 'a) \<times> 's"

definition ret :: "'a \<Rightarrow> ('s, 'e, 'a) act" where
  "ret x s = (Inr x, s)"

definition fail :: "'e \<Rightarrow> ('s, 'e, 'a) act" where
  "fail e s = (Inl e, s)"

definition lift_res :: "'e + 'a \<Rightarrow> ('s, 'e, 'a) act" where
  "lift_res r s = (r, s)"

definition observe :: "('s, 'e, 'a) act \<Rightarrow> ('e + 'a \<Rightarrow> ('s, 'f, 'b) act) \<Rightarrow> ('s, 'f, 'b) act" where
  "observe m f s = (case m s of (r, s') \<Rightarrow> f r s')"

definition and_do :: "('s, 'e, 'a) act \<Rightarrow> ('a \<Rightarrow> ('s, 'e, 'b) act) \<Rightarrow> ('s, 'e, 'b) act" where
  "and_do m f = observe m (\<lambda>r. case r of Inl e \<Rightarrow> fail e | Inr x \<Rightarrow> f x)"

definition err_map :: "('e \<Rightarrow> 'f) \<Rightarrow> ('s, 'e, 'a) act \<Rightarrow> ('s, 'f, 'a) act" where
  "err_map g m = observe m (\<lambda>r. lift_res (map_err g r))"

definition gets :: "('s \<Rightarrow> 'a) \<Rightarrow> ('s, 'e, 'a) act" where
  "gets f s = (Inr (f s), s)"

definition modify :: "('s \<Rightarrow> 's) \<Rightarrow> ('s, 'e, unit) act" where
  "modify f s = (Inr (), f s)"

definition when_do :: "bool \<Rightarrow> ('s, 'e, unit) act \<Rightarrow> ('s, 'e, unit) act" where
  "when_do b m = (if b then m else ret ())"

text \<open>A result that is dropped (\<open>let _ = ...\<close>).\<close>

definition ignore :: "('s, 'e, 'a) act \<Rightarrow> ('s, 'f, unit) act" where
  "ignore m = observe m (\<lambda>_. ret ())"

text \<open>An operation on a part of the state.\<close>

definition on_part :: "('s \<Rightarrow> 't) \<Rightarrow> ('t \<Rightarrow> 's \<Rightarrow> 's) \<Rightarrow> ('t, 'e, 'a) act \<Rightarrow> ('s, 'e, 'a) act" where
  "on_part get put m s = (case m (get s) of (r, t) \<Rightarrow> (r, put t s))"

text \<open>A loop over a list whose body cannot fail, and one whose body stops at the first error.\<close>

fun for_each :: "('a \<Rightarrow> 's \<Rightarrow> 's) \<Rightarrow> 'a list \<Rightarrow> 's \<Rightarrow> 's" where
  "for_each f [] s = s"
| "for_each f (x # xs) s = for_each f xs (f x s)"

fun try_each :: "('a \<Rightarrow> ('s, 'e, unit) act) \<Rightarrow> 'a list \<Rightarrow> ('s, 'e, unit) act" where
  "try_each f [] = ret ()"
| "try_each f (x # xs) = and_do (f x) (\<lambda>_. try_each f xs)"

section \<open>Weakest preconditions\<close>

definition wp :: "('s, 'e, 'a) act \<Rightarrow> ('e + 'a \<Rightarrow> 's \<Rightarrow> bool) \<Rightarrow> 's \<Rightarrow> bool" where
  "wp m Q s \<longleftrightarrow> Q (fst (m s)) (snd (m s))"

lemma wp_ret [wp_simps]: "wp (ret x) Q s \<longleftrightarrow> Q (Inr x) s"
  by (simp add: wp_def ret_def)

lemma wp_fail [wp_simps]: "wp (fail e) Q s \<longleftrightarrow> Q (Inl e) s"
  by (simp add: wp_def fail_def)

lemma wp_lift_res [wp_simps]: "wp (lift_res r) Q s \<longleftrightarrow> Q r s"
  by (simp add: wp_def lift_res_def)

lemma wp_gets [wp_simps]: "wp (gets f) Q s \<longleftrightarrow> Q (Inr (f s)) s"
  by (simp add: wp_def gets_def)

lemma wp_modify [wp_simps]: "wp (modify f) Q s \<longleftrightarrow> Q (Inr ()) (f s)"
  by (simp add: wp_def modify_def)

lemma wp_observe [wp_simps]: "wp (observe m f) Q s \<longleftrightarrow> wp m (\<lambda>r. wp (f r) Q) s"
  by (simp add: wp_def observe_def split: prod.splits)

lemma wp_and_do [wp_simps]:
  "wp (and_do m f) Q s \<longleftrightarrow> wp m (\<lambda>r s'. case r of Inl e \<Rightarrow> Q (Inl e) s' | Inr x \<Rightarrow> wp (f x) Q s') s"
  unfolding and_do_def wp_observe by (rule arg_cong [where f = "\<lambda>P. wp m P s"]) (auto simp: fun_eq_iff wp_fail split: sum.splits)

lemma wp_err_map [wp_simps]: "wp (err_map g m) Q s \<longleftrightarrow> wp m (\<lambda>r. Q (map_err g r)) s"
  by (simp add: wp_def err_map_def observe_def lift_res_def split: prod.splits)

lemma wp_ignore [wp_simps]: "wp (ignore m) Q s \<longleftrightarrow> wp m (\<lambda>_. Q (Inr ())) s"
  by (simp add: wp_def ignore_def observe_def ret_def split: prod.splits)

lemma wp_when_do [wp_simps]: "wp (when_do b m) Q s \<longleftrightarrow> (if b then wp m Q s else Q (Inr ()) s)"
  by (simp add: when_do_def wp_ret)

lemma wp_on_part [wp_simps]: "wp (on_part get put m) Q s \<longleftrightarrow> wp m (\<lambda>r t. Q r (put t s)) (get s)"
  by (simp add: wp_def on_part_def split: prod.splits)

lemma wp_mono: "wp m Q s \<Longrightarrow> (\<And>r s'. Q r s' \<Longrightarrow> R r s') \<Longrightarrow> wp m R s"
  by (simp add: wp_def)

lemma wp_conj: "wp m (\<lambda>r s'. Q r s' \<and> R r s') s \<longleftrightarrow> wp m Q s \<and> wp m R s"
  by (simp add: wp_def)

lemma wp_run: "wp m Q s \<Longrightarrow> m s = (r, s') \<Longrightarrow> Q r s'"
  by (simp add: wp_def)

lemma wpI: "(\<And>r s'. m s = (r, s') \<Longrightarrow> Q r s') \<Longrightarrow> wp m Q s"
  by (simp add: wp_def)

lemma for_each_inv:
  assumes "\<And>x s. x \<in> set xs \<Longrightarrow> I s \<Longrightarrow> I (f x s)" and "I s"
  shows "I (for_each f xs s)"
  using assms by (induction xs arbitrary: s) auto

lemma try_each_inv:
  assumes "\<And>x s. x \<in> set xs \<Longrightarrow> I s \<Longrightarrow> wp (f x) (\<lambda>_. I) s" and "I s"
  shows "wp (try_each f xs) (\<lambda>_. I) s"
  using assms
proof (induction xs arbitrary: s)
  case (Cons x xs)
  show ?case
    unfolding try_each.simps wp_and_do
    by (rule wp_mono [OF Cons.prems(1) [OF _ Cons.prems(2)]]) (auto intro!: Cons.IH Cons.prems(1) split: sum.splits)
qed (simp add: wp_ret)

end
