(* ===== verification/Fs_Os.thy ===== *)
theory Fs_Os
  imports Io_Monad Packages
begin

text \<open>
  The operating system as the filesystem store uses it: a tree of directories, regular files,
  symbolic links and special files below the store root, inodes that several names may share, and
  one definition per system call. A directory descriptor is the path it was opened at: the program
  never renames or removes a directory. Every call first consults a schedule of faults, so a theorem
  about a run holds for every pattern of failing calls; a failing write may have written a part of
  its data. Durability of what was written is not part of this model: \<open>fsync\<close> can fail and changes
  nothing.
\<close>

section \<open>Errors\<close>

datatype errno = ENOENT | EEXIST | ENOTDIR | ELOOP | EISDIR | EXDEV | ENOSYS | EPERM | EOPNOTSUPP | EINVAL | ENXIO
  | Errno nat

text \<open>The kind \<open>std::io\<close> assigns to an error number; the message of the system is left empty.\<close>

definition errno_kind :: "errno \<Rightarrow> io_kind" where
  "errno_kind e = (case e of ENOENT \<Rightarrow> KNotFound | EEXIST \<Rightarrow> KAlreadyExists | EINVAL \<Rightarrow> KInvalidInput
     | ENOSYS \<Rightarrow> KUnsupported | EOPNOTSUPP \<Rightarrow> KUnsupported | _ \<Rightarrow> KOther)"

definition io_of_errno :: "errno \<Rightarrow> io_error" where
  "io_of_errno e = Io_Error (errno_kind e) []"

definition not_found_error :: io_error where
  "not_found_error = Io_Error KNotFound []"

section \<open>State\<close>

type_synonym path = "string list"

datatype node = Dir | Reg nat | Symlink | Special

datatype fault = Pass | Fault errno nat

text \<open>
  \<open>os_outside\<close> answers reads that follow a symbolic link: what is behind it is not the store's.
  \<open>os_random\<close> gives the hexadecimal text of the random bytes of the n-th draw.
\<close>

record os =
  os_tree :: "(path \<times> node) list"
  os_data :: "nat \<Rightarrow> bytes"
  os_mtime :: "nat \<Rightarrow> nat"
  os_next :: nat
  os_faults :: "fault list"
  os_random :: "nat \<Rightarrow> nat \<Rightarrow> string"
  os_drawn :: nat
  os_time :: nat
  os_outside :: "path \<Rightarrow> errno + bytes"

type_synonym 'a sys = "(os, errno, 'a) act"
type_synonym 'a io = "(os, io_error, 'a) act"

definition node_at :: "os \<Rightarrow> path \<Rightarrow> node option" where
  "node_at s p = (if p = [] then Some Dir else map_of (os_tree s) p)"

definition set_node :: "path \<Rightarrow> node \<Rightarrow> os \<Rightarrow> os" where
  "set_node p n s = s\<lparr>os_tree := AList.update p n (os_tree s)\<rparr>"

definition del_node :: "path \<Rightarrow> os \<Rightarrow> os" where
  "del_node p s = s\<lparr>os_tree := AList.delete p (os_tree s)\<rparr>"

definition set_data :: "nat \<Rightarrow> bytes \<Rightarrow> os \<Rightarrow> os" where
  "set_data i bs s = s\<lparr>os_data := (os_data s)(i := bs), os_mtime := (os_mtime s)(i := os_time s)\<rparr>"

text \<open>A new empty file.\<close>

definition new_inode :: "os \<Rightarrow> os" where
  "new_inode s = (set_data (os_next s) [] s)\<lparr>os_next := Suc (os_next s)\<rparr>"

definition take_fault :: "os \<Rightarrow> fault \<times> os" where
  "take_fault s = (case os_faults s of [] \<Rightarrow> (Pass, s) | f # fs \<Rightarrow> (f, s\<lparr>os_faults := fs\<rparr>))"

definition sys_call :: "'a sys \<Rightarrow> 'a sys" where
  "sys_call m s = (case take_fault s of (Pass, s') \<Rightarrow> m s' | (Fault e _, s') \<Rightarrow> (Inl e, s'))"

definition io :: "'a sys \<Rightarrow> 'a io" where
  "io m = err_map io_of_errno m"

section \<open>System calls\<close>

text \<open>A call that adds a name needs the directory to exist.\<close>

definition in_dir :: "path \<Rightarrow> 'a sys \<Rightarrow> 'a sys" where
  "in_dir d m s = (if node_at s d = Some Dir then m s else (Inl ENOENT, s))"

datatype fd = Dir_Fd path | File_Fd nat | Other_Fd

text \<open>
  The flag sets the sources pass to \<open>openat\<close>, each with \<open>O_NOFOLLOW\<close> and \<open>O_CLOEXEC\<close>:
  \<open>RDONLY|DIRECTORY\<close>, \<open>RDONLY|NONBLOCK\<close>, \<open>WRONLY|APPEND|NONBLOCK\<close>, \<open>WRONLY|CREATE|EXCL\<close> and
  \<open>WRONLY|CREATE|TRUNC\<close>.
\<close>

datatype open_mode = O_Directory | O_Read | O_Append | O_Create_Excl | O_Create_Trunc

definition create_file :: "path \<Rightarrow> fd sys" where
  "create_file p = in_dir (butlast p) (\<lambda>s. (Inr (File_Fd (os_next s)), set_node p (Reg (os_next s)) (new_inode s)))"

definition open_node :: "open_mode \<Rightarrow> path \<Rightarrow> fd sys" where
  "open_node mode p s =
     (case (mode, node_at s p) of
        (O_Create_Excl, None) \<Rightarrow> create_file p s
      | (O_Create_Trunc, None) \<Rightarrow> create_file p s
      | (_, None) \<Rightarrow> (Inl ENOENT, s)
      | (O_Create_Excl, Some _) \<Rightarrow> (Inl EEXIST, s)
      | (O_Directory, Some Dir) \<Rightarrow> (Inr (Dir_Fd p), s)
      | (O_Directory, Some _) \<Rightarrow> (Inl ENOTDIR, s)
      | (_, Some Symlink) \<Rightarrow> (Inl ELOOP, s)
      | (O_Read, Some Dir) \<Rightarrow> (Inr (Dir_Fd p), s)
      | (O_Read, Some Special) \<Rightarrow> (Inr Other_Fd, s)
      | (O_Create_Trunc, Some (Reg i)) \<Rightarrow> (Inr (File_Fd i), set_data i [] s)
      | (_, Some (Reg i)) \<Rightarrow> (Inr (File_Fd i), s)
      | (_, Some Dir) \<Rightarrow> (Inl EISDIR, s)
      | (_, Some Special) \<Rightarrow> (Inl ENXIO, s))"

definition openat :: "path \<Rightarrow> string \<Rightarrow> open_mode \<Rightarrow> fd sys" where
  "openat d c mode = sys_call (open_node mode (d @ [c]))"

text \<open>
  \<open>openat2\<close> with \<open>RESOLVE_BENEATH|NO_SYMLINKS|NO_MAGICLINKS\<close>: the whole path in one call, no
  symbolic link at any component.
\<close>

fun resolve_parents :: "os \<Rightarrow> path \<Rightarrow> string list \<Rightarrow> errno option" where
  "resolve_parents s d [] = None"
| "resolve_parents s d (c # cs) =
     (case node_at s (d @ [c]) of
        None \<Rightarrow> Some ENOENT
      | Some Dir \<Rightarrow> resolve_parents s (d @ [c]) cs
      | Some Symlink \<Rightarrow> Some ELOOP
      | Some _ \<Rightarrow> Some ENOTDIR)"

definition openat2 :: "path \<Rightarrow> path \<Rightarrow> open_mode \<Rightarrow> fd sys" where
  "openat2 d rel mode = sys_call (\<lambda>s.
     case resolve_parents s d (butlast rel) of
       Some e \<Rightarrow> (Inl e, s)
     | None \<Rightarrow> if node_at s (d @ rel) = Some Symlink then (Inl ELOOP, s) else open_node mode (d @ rel) s)"

definition open_tmpfile :: "path \<Rightarrow> nat sys" where
  "open_tmpfile d = sys_call (\<lambda>s. (Inr (os_next s), new_inode s))"

definition mkdirat :: "path \<Rightarrow> string \<Rightarrow> unit sys" where
  "mkdirat d c = sys_call (in_dir d (\<lambda>s.
     case node_at s (d @ [c]) of None \<Rightarrow> (Inr (), set_node (d @ [c]) Dir s) | Some _ \<Rightarrow> (Inl EEXIST, s)))"

record stat =
  st_is_file :: bool
  st_size :: nat
  st_ino :: "nat option"

definition stat_of :: "os \<Rightarrow> node \<Rightarrow> stat" where
  "stat_of s n = (case n of
      Reg i \<Rightarrow> \<lparr>st_is_file = True, st_size = length (os_data s i), st_ino = Some i\<rparr>
    | _ \<Rightarrow> \<lparr>st_is_file = False, st_size = 0, st_ino = None\<rparr>)"

definition statat :: "path \<Rightarrow> string \<Rightarrow> stat sys" where
  "statat d c = sys_call (\<lambda>s.
     case node_at s (d @ [c]) of None \<Rightarrow> (Inl ENOENT, s) | Some n \<Rightarrow> (Inr (stat_of s n), s))"

definition fstat :: "fd \<Rightarrow> stat sys" where
  "fstat f = sys_call (\<lambda>s.
     (Inr (case f of File_Fd i \<Rightarrow> stat_of s (Reg i) | Dir_Fd _ \<Rightarrow> stat_of s Dir | Other_Fd \<Rightarrow> stat_of s Special), s))"

text \<open>\<open>renameat2(RENAME_NOREPLACE)\<close> and \<open>renameat\<close>, which replaces a file of the same name.\<close>

definition rename_noreplace :: "path \<Rightarrow> string \<Rightarrow> path \<Rightarrow> string \<Rightarrow> unit sys" where
  "rename_noreplace d c e f = sys_call (in_dir e (\<lambda>s.
     case node_at s (d @ [c]) of
       None \<Rightarrow> (Inl ENOENT, s)
     | Some n \<Rightarrow> if node_at s (e @ [f]) \<noteq> None then (Inl EEXIST, s)
                 else if n = Dir then (Inl EINVAL, s)
                 else (Inr (), set_node (e @ [f]) n (del_node (d @ [c]) s))))"

definition rename_replace :: "path \<Rightarrow> string \<Rightarrow> path \<Rightarrow> string \<Rightarrow> unit sys" where
  "rename_replace d c e f = sys_call (in_dir e (\<lambda>s.
     case node_at s (d @ [c]) of
       None \<Rightarrow> (Inl ENOENT, s)
     | Some n \<Rightarrow> if node_at s (e @ [f]) = Some Dir then (Inl EISDIR, s)
                 else if n = Dir then (Inl EINVAL, s)
                 else if node_at s (e @ [f]) = Some n then (Inr (), s)
                 else (Inr (), set_node (e @ [f]) n (del_node (d @ [c]) s))))"

definition unlinkat :: "path \<Rightarrow> string \<Rightarrow> unit sys" where
  "unlinkat d c = sys_call (\<lambda>s.
     case node_at s (d @ [c]) of
       None \<Rightarrow> (Inl ENOENT, s) | Some Dir \<Rightarrow> (Inl EISDIR, s) | Some _ \<Rightarrow> (Inr (), del_node (d @ [c]) s))"

definition linkat :: "path \<Rightarrow> string \<Rightarrow> path \<Rightarrow> string \<Rightarrow> unit sys" where
  "linkat d c e f = sys_call (in_dir e (\<lambda>s.
     case node_at s (d @ [c]) of
       None \<Rightarrow> (Inl ENOENT, s)
     | Some n \<Rightarrow> if node_at s (e @ [f]) \<noteq> None then (Inl EEXIST, s)
                 else if n = Dir then (Inl EPERM, s)
                 else (Inr (), set_node (e @ [f]) n s)))"

text \<open>Giving an anonymous file its name through \<open>/proc/self/fd\<close>.\<close>

definition link_fd :: "nat \<Rightarrow> path \<Rightarrow> string \<Rightarrow> unit sys" where
  "link_fd i d c = sys_call (in_dir d (\<lambda>s.
     if node_at s (d @ [c]) \<noteq> None then (Inl EEXIST, s) else (Inr (), set_node (d @ [c]) (Reg i) s)))"

text \<open>\<open>write_all\<close> at the end of the file; a fault leaves a part of the data written.\<close>

definition write_all :: "nat \<Rightarrow> bytes \<Rightarrow> unit sys" where
  "write_all i bs s =
     (case take_fault s of
        (Pass, s') \<Rightarrow> (Inr (), set_data i (os_data s' i @ bs) s')
      | (Fault e n, s') \<Rightarrow> (Inl e, set_data i (os_data s' i @ take n bs) s'))"

definition set_len :: "nat \<Rightarrow> nat \<Rightarrow> unit sys" where
  "set_len i n = sys_call (\<lambda>s.
     (Inr (), set_data i (take n (os_data s i) @ replicate (n - length (os_data s i)) CHR 0x00) s))"

definition fsync :: "unit sys" where
  "fsync = sys_call (ret ())"

definition read_to_end :: "nat \<Rightarrow> bytes sys" where
  "read_to_end i = sys_call (\<lambda>s. (Inr (os_data s i), s))"

text \<open>\<open>FICLONE\<close>: the output shares the input's contents.\<close>

definition ficlone :: "nat \<Rightarrow> nat \<Rightarrow> unit sys" where
  "ficlone out inp = sys_call (\<lambda>s. (Inr (), set_data out (os_data s inp) s))"

definition getrandom_hex :: "nat \<Rightarrow> string io" where
  "getrandom_hex n = err_map (\<lambda>_. Io_Error KOther []) (sys_call (\<lambda>s.
     (Inr (os_random s (os_drawn s) n), s\<lparr>os_drawn := Suc (os_drawn s)\<rparr>)))"

text \<open>Names in a directory, in the order the file system returns them.\<close>

definition child_names :: "os \<Rightarrow> path \<Rightarrow> string list" where
  "child_names s d = List.map_filter (\<lambda>(p, _). if p \<noteq> [] \<and> butlast p = d then Some (last p) else None) (os_tree s)"

definition read_dir :: "path \<Rightarrow> (string \<times> node) list sys" where
  "read_dir d = sys_call (\<lambda>s.
     case node_at s d of
       Some Dir \<Rightarrow> (Inr (List.map_filter (\<lambda>c. map_option (Pair c) (node_at s (d @ [c]))) (child_names s d)), s)
     | None \<Rightarrow> (Inl ENOENT, s)
     | Some _ \<Rightarrow> (Inl ENOTDIR, s))"

text \<open>Reads that follow symbolic links (\<open>std::fs::read\<close>, \<open>std::fs::metadata\<close>).\<close>

definition read_follow :: "path \<Rightarrow> bytes sys" where
  "read_follow p = sys_call (\<lambda>s.
     (case resolve_parents s [] (butlast p) of
        Some ELOOP \<Rightarrow> os_outside s p
      | Some e \<Rightarrow> Inl e
      | None \<Rightarrow> (case node_at s p of
                    None \<Rightarrow> Inl ENOENT
                  | Some (Reg i) \<Rightarrow> Inr (os_data s i)
                  | Some Dir \<Rightarrow> Inl EISDIR
                  | Some _ \<Rightarrow> os_outside s p), s))"

end
