(* ===== verification/Fs_Paths.thy ===== *)
theory Fs_Paths
  imports Fs_Os
begin

text \<open>
  Paths below the store root (\<open>roci-storage/src/fs_storage/paths.rs\<close>). A relative path is the list of
  its components; each comes from a validated string, so no component is empty, a dot name or
  contains a separator. The blob, upload and index paths of all repositories are proved disjoint.
\<close>

definition safe_component :: "string \<Rightarrow> storage_error + string" where
  "safe_component s =
     (if s = [] \<or> s = ''.'' \<or> s = ''..''
         \<or> list_ex (\<lambda>b. b = CHR ''/'' \<or> b = CHR 0x5C \<or> b = CHR 0x00) s
      then Inl (BadPath s) else Inr s)"

definition repo_rel :: "string \<Rightarrow> storage_error + path" where
  "repo_rel repo = collect_results safe_component (split_on CHR ''/'' repo)"

definition blob_dir_rel :: "string \<Rightarrow> digest \<Rightarrow> storage_error + path \<times> string" where
  "blob_dir_rel repo d =
     and_then (repo_rel repo) (\<lambda>r.
     and_then (safe_component (hex d)) (\<lambda>leaf.
       Inr (r @ [''blobs'', algorithm d], leaf)))"

definition blob_rel :: "string \<Rightarrow> digest \<Rightarrow> storage_error + path" where
  "blob_rel repo d = and_then (blob_dir_rel repo d) (\<lambda>(dir, leaf). Inr (dir @ [leaf]))"

definition upload_dir_rel :: "string \<Rightarrow> string \<Rightarrow> storage_error + path \<times> string" where
  "upload_dir_rel repo upload =
     and_then (repo_rel repo) (\<lambda>r.
     and_then (safe_component upload) (\<lambda>leaf.
       Inr (r @ [''uploads''], leaf)))"

definition upload_rel :: "string \<Rightarrow> string \<Rightarrow> storage_error + path" where
  "upload_rel repo upload = and_then (upload_dir_rel repo upload) (\<lambda>(dir, leaf). Inr (dir @ [leaf]))"

definition repo_dir :: "string \<Rightarrow> storage_error + path" where
  "repo_dir repo = repo_rel repo"

definition index_path :: "string \<Rightarrow> storage_error + path" where
  "index_path repo = and_then (repo_dir repo) (\<lambda>r. Inr (r @ [''index.json'']))"

section \<open>Shape of the paths\<close>

lemma safe_component_Inr [simp]:
  "safe_component s = Inr t \<longleftrightarrow> t = s \<and> s \<noteq> [] \<and> s \<noteq> ''.'' \<and> s \<noteq> ''..''
     \<and> CHR ''/'' \<notin> set s \<and> CHR 0x5C \<notin> set s \<and> CHR 0x00 \<notin> set s"
  by (auto simp: safe_component_def list_ex_iff)

lemma repo_rel_Inr: "repo_rel repo = Inr r \<Longrightarrow> r = split_on CHR ''/'' repo"
proof -
  assume "repo_rel repo = Inr r"
  then have "list_all2 (\<lambda>x y. safe_component x = Inr y) (split_on CHR ''/'' repo) r"
    by (simp add: repo_rel_def collect_results_Inr_iff)
  then have "list_all2 (=) (split_on CHR ''/'' repo) r" by (rule list_all2_mono) simp
  then show ?thesis by (metis list_all2_eq)
qed

lemma repo_rel_not_Nil: "repo_rel repo \<noteq> Inr []"
  using repo_rel_Inr split_on_nonempty by metis

text \<open>Different repositories have different directories.\<close>

lemma repo_rel_inject: "repo_rel a = Inr r \<Longrightarrow> repo_rel b = Inr r \<Longrightarrow> a = b"
  by (metis join_split repo_rel_Inr)

text \<open>The path of a blob, and which digest a path stands for.\<close>

definition cas_digest :: "path \<Rightarrow> digest option" where
  "cas_digest p =
     (if 3 \<le> length p \<and> last (butlast (butlast p)) = ''blobs''
         \<and> digest_wf \<lparr>algorithm = last (butlast p), hex = last p\<rparr>
      then Some \<lparr>algorithm = last (butlast p), hex = last p\<rparr> else None)"

lemma cas_digest_blob [simp]:
  "cas_digest (r @ [''blobs'', alg, hx]) =
     (if digest_wf \<lparr>algorithm = alg, hex = hx\<rparr> then Some \<lparr>algorithm = alg, hex = hx\<rparr> else None)"
  by (simp add: cas_digest_def butlast_append)

lemma blob_rel_Inr:
  assumes "blob_rel repo d = Inr p"
  obtains r where "repo_rel repo = Inr r" "p = r @ [''blobs'', algorithm d, hex d]"
    "blob_dir_rel repo d = Inr (r @ [''blobs'', algorithm d], hex d)"
  using assms by (auto simp: blob_rel_def blob_dir_rel_def and_then_Inr_iff)

lemma blob_dir_rel_Inr:
  assumes "blob_dir_rel repo d = Inr (dir, leaf)"
  shows "blob_rel repo d = Inr (dir @ [leaf])" and "leaf = hex d"
    and "\<exists>r. repo_rel repo = Inr r \<and> dir = r @ [''blobs'', algorithm d]"
  using assms by (auto simp: blob_rel_def blob_dir_rel_def and_then_Inr_iff)

lemma digest_eta [simp]: "\<lparr>algorithm = algorithm d, hex = hex d\<rparr> = (d :: digest)"
  by (cases d) simp

lemma cas_digest_blob_rel: "blob_rel repo d = Inr p \<Longrightarrow> digest_wf d \<Longrightarrow> cas_digest p = Some d"
  by (erule blob_rel_Inr) simp

lemma blob_rel_inject:
  "blob_rel a d = Inr p \<Longrightarrow> blob_rel b e = Inr p \<Longrightarrow> a = b \<and> d = e"
  by (elim blob_rel_Inr) (auto intro: repo_rel_inject digest.equality)

lemma upload_rel_Inr:
  assumes "upload_rel repo upload = Inr p"
  obtains r where "repo_rel repo = Inr r" "p = r @ [''uploads'', upload]"
    "upload_dir_rel repo upload = Inr (r @ [''uploads''], upload)"
  using assms by (auto simp: upload_rel_def upload_dir_rel_def and_then_Inr_iff)

lemma upload_dir_rel_Inr:
  assumes "upload_dir_rel repo upload = Inr (dir, leaf)"
  shows "upload_rel repo upload = Inr (dir @ [leaf])" and "leaf = upload"
    and "\<exists>r. repo_rel repo = Inr r \<and> dir = r @ [''uploads'']"
  using assms by (auto simp: upload_rel_def upload_dir_rel_def and_then_Inr_iff)

lemma upload_rel_inject:
  "upload_rel a i = Inr p \<Longrightarrow> upload_rel b j = Inr p \<Longrightarrow> a = b \<and> i = j"
  by (elim upload_rel_Inr) (auto intro: repo_rel_inject)

text \<open>A path whose parent is not an algorithm directory, or whose name is not hexadecimal, is no blob.\<close>

lemma cas_digest_snoc2 [simp]:
  "cas_digest (r @ [''uploads'', c]) = None"
  by (auto simp: cas_digest_def digest_wf_def butlast_append)

lemma cas_digest_no_hex:
  "\<not> lower_hex c \<Longrightarrow> cas_digest (d @ [c]) = None"
  by (auto simp: cas_digest_def digest_wf_def)

lemma not_lower_hex [simp]:
  "\<not> lower_hex (CHR ''.'' # s)" "\<not> lower_hex ''index.json''" "\<not> lower_hex ''oci-layout''"
  by (simp_all add: lower_hex_def ascii_class_defs less_eq_char_def)

end
