(* ===== verification/Os_Inv.thy ===== *)
theory Os_Inv
  imports Fs_Paths
begin

text \<open>
  The invariant of the store's tree and the rules of the system calls. \<open>os_inv\<close> says that every
  regular file at a blob path has the digest its path names, that only blobs share inodes, and that
  no index is empty, and that whatever exists is in a directory. \<open>evolves H A s0 s\<close> says that a run from \<open>s0\<close> has reached \<open>s\<close> with the
  invariant intact and with every file outside the paths \<open>A\<close> as it was. Each system call has one rule
  that carries \<open>evolves\<close> along.
\<close>

definition file_at :: "os \<Rightarrow> path \<Rightarrow> (nat \<times> bytes) option" where
  "file_at s p = (case node_at s p of Some (Reg i) \<Rightarrow> Some (i, os_data s i) | _ \<Rightarrow> None)"

definition in_dirs :: "os \<Rightarrow> bool" where
  "in_dirs s \<longleftrightarrow> (\<forall>p c. node_at s (p @ [c]) \<noteq> None \<longrightarrow> node_at s p = Some Dir)"

definition os_inv :: "'a hash_api_scheme \<Rightarrow> os \<Rightarrow> bool" where
  "os_inv H s \<longleftrightarrow>
     (\<forall>p i. node_at s p = Some (Reg i) \<longrightarrow> i < os_next s)
     \<and> (\<forall>p q i. node_at s p = Some (Reg i) \<longrightarrow> node_at s q = Some (Reg i) \<longrightarrow> cas_digest p = None \<longrightarrow> p = q)
     \<and> (\<forall>p i d. node_at s p = Some (Reg i) \<longrightarrow> cas_digest p = Some d \<longrightarrow> digest_of H (os_data s i) (algorithm d) = d)
     \<and> (\<forall>p i. node_at s p = Some (Reg i) \<longrightarrow> last p = ''index.json'' \<longrightarrow> os_data s i \<noteq> [])
     \<and> (\<forall>k n. lower_hex (os_random s k n))
     \<and> in_dirs s"

definition keeps :: "path set \<Rightarrow> os \<Rightarrow> os \<Rightarrow> bool" where
  "keeps A s s' \<longleftrightarrow> (\<forall>p. p \<notin> A \<longrightarrow> file_at s p \<noteq> None \<longrightarrow> file_at s' p = file_at s p)"

definition evolves :: "'a hash_api_scheme \<Rightarrow> path set \<Rightarrow> os \<Rightarrow> os \<Rightarrow> bool" where
  "evolves H A s0 s \<longleftrightarrow> os_inv H s \<and> keeps A s0 s \<and> os_next s0 \<le> os_next s
     \<and> (\<forall>p. node_at s0 p = Some Dir \<longrightarrow> node_at s p = Some Dir)"

text \<open>States that differ in the fault schedule, the drawn random numbers and time only.\<close>

definition same :: "os \<Rightarrow> os \<Rightarrow> bool" where
  "same s s' \<longleftrightarrow> node_at s' = node_at s \<and> os_data s' = os_data s \<and> os_next s' = os_next s
     \<and> os_random s' = os_random s"

text \<open>States with the same regular files; directories may have been added.\<close>

definition files_same :: "os \<Rightarrow> os \<Rightarrow> bool" where
  "files_same s s' \<longleftrightarrow> (\<forall>p i. node_at s' p = Some (Reg i) \<longleftrightarrow> node_at s p = Some (Reg i)) \<and> os_data s' = os_data s
     \<and> os_next s' = os_next s \<and> os_random s' = os_random s"

lemma same_files: "same s s' \<Longrightarrow> files_same s s'"
  by (simp add: same_def files_same_def)

lemma files_same_refl [simp]: "files_same s s"
  by (simp add: files_same_def)

lemma files_same_trans: "files_same s t \<Longrightarrow> files_same t u \<Longrightarrow> files_same s u"
  by (simp add: files_same_def)

lemma file_at_Some: "file_at s p = Some (i, bs) \<longleftrightarrow> node_at s p = Some (Reg i) \<and> os_data s i = bs"
  by (auto simp: file_at_def split: option.splits node.splits)

lemma same_refl [simp]: "same s s"
  by (simp add: same_def)

lemma same_trans: "same s t \<Longrightarrow> same t u \<Longrightarrow> same s u"
  by (simp add: same_def)

lemma same_file_at: "same s s' \<Longrightarrow> file_at s' = file_at s"
  by (auto simp: same_def file_at_def fun_eq_iff split: option.splits node.splits)

lemma same_inv: "same s s' \<Longrightarrow> os_inv H s' = os_inv H s"
  unfolding same_def os_inv_def in_dirs_def by simp

lemma same_evolves: "same s s' \<Longrightarrow> evolves H A s0 s \<Longrightarrow> evolves H A s0 s'"
  using same_file_at [of s s'] same_inv [of s s' H] by (auto simp: evolves_def keeps_def same_def)

lemma evolves_refl: "os_inv H s \<Longrightarrow> evolves H A s s"
  by (simp add: evolves_def keeps_def)

lemma evolves_mono: "evolves H A s0 s \<Longrightarrow> A \<subseteq> B \<Longrightarrow> evolves H B s0 s"
  by (auto simp: evolves_def keeps_def)

lemma evolves_trans: "evolves H A s0 s1 \<Longrightarrow> evolves H B s1 s2 \<Longrightarrow> evolves H (A \<union> B) s0 s2"
  by (auto simp: evolves_def keeps_def)

lemma evolves_inv: "evolves H A s0 s \<Longrightarrow> os_inv H s"
  by (simp add: evolves_def)

lemma evolves_keeps: "evolves H A s0 s \<Longrightarrow> p \<notin> A \<Longrightarrow> file_at s0 p = Some x \<Longrightarrow> file_at s p = Some x"
  unfolding evolves_def keeps_def by simp

lemma keepsI: "(\<And>p x. p \<notin> A \<Longrightarrow> file_at s p = Some x \<Longrightarrow> file_at s' p = Some x) \<Longrightarrow> keeps A s s'"
  by (auto simp: keeps_def)

section \<open>State updates\<close>

lemma node_at_set_node: "p \<noteq> [] \<Longrightarrow> node_at (set_node p n s) q = (if q = p then Some n else node_at s q)"
  by (simp add: node_at_def set_node_def update_conv')

lemma node_at_del_node: "p \<noteq> [] \<Longrightarrow> node_at (del_node p s) q = (if q = p then None else node_at s q)"
  by (simp add: node_at_def del_node_def delete_conv')

lemma node_at_others [simp]:
  "node_at (set_data i bs s) = node_at s" "node_at (new_inode s) = node_at s"
  "node_at (s\<lparr>os_faults := fs\<rparr>) = node_at s" "node_at (s\<lparr>os_drawn := n\<rparr>) = node_at s"
  by (simp_all add: node_at_def fun_eq_iff set_data_def new_inode_def)

lemma os_fields [simp]:
  "os_data (set_node p n s) = os_data s" "os_next (set_node p n s) = os_next s"
  "os_random (set_node p n s) = os_random s"
  "os_data (del_node p s) = os_data s" "os_next (del_node p s) = os_next s"
  "os_random (del_node p s) = os_random s"
  "os_data (set_data i bs s) = (os_data s)(i := bs)" "os_next (set_data i bs s) = os_next s"
  "os_random (set_data i bs s) = os_random s"
  "os_data (new_inode s) = (os_data s)(os_next s := [])" "os_next (new_inode s) = Suc (os_next s)"
  "os_random (new_inode s) = os_random s"
  by (simp_all add: set_node_def del_node_def set_data_def new_inode_def)

lemma os_inv_parts:
  assumes "os_inv H s"
  shows inv_bound: "node_at s p = Some (Reg i) \<Longrightarrow> i < os_next s"
    and inv_share: "node_at s p = Some (Reg i) \<Longrightarrow> node_at s q = Some (Reg i) \<Longrightarrow> cas_digest p = None \<Longrightarrow> p = q"
    and inv_cas: "node_at s p = Some (Reg i) \<Longrightarrow> cas_digest p = Some d \<Longrightarrow> digest_of H (os_data s i) (algorithm d) = d"
    and inv_index: "node_at s p = Some (Reg i) \<Longrightarrow> last p = ''index.json'' \<Longrightarrow> os_data s i \<noteq> []"
    and inv_random: "lower_hex (os_random s k n)"
    and inv_dir: "node_at s (p @ [c]) = Some n' \<Longrightarrow> node_at s p = Some Dir"
proof -
  note inv = assms [unfolded os_inv_def]
  show "node_at s p = Some (Reg i) \<Longrightarrow> i < os_next s" using inv by blast
  show "node_at s p = Some (Reg i) \<Longrightarrow> node_at s q = Some (Reg i) \<Longrightarrow> cas_digest p = None \<Longrightarrow> p = q"
    using inv by blast
  show "node_at s p = Some (Reg i) \<Longrightarrow> cas_digest p = Some d \<Longrightarrow> digest_of H (os_data s i) (algorithm d) = d"
    using inv by blast
  show "node_at s p = Some (Reg i) \<Longrightarrow> last p = ''index.json'' \<Longrightarrow> os_data s i \<noteq> []" using inv by blast
  show "lower_hex (os_random s k n)" using inv by blast
  show "node_at s (p @ [c]) = Some n' \<Longrightarrow> node_at s p = Some Dir" using inv unfolding in_dirs_def by blast
qed

lemma inv_in_dirs: "os_inv H s \<Longrightarrow> in_dirs s"
  by (simp add: os_inv_def)

lemma in_dirs_set:
  assumes "in_dirs s" "q \<noteq> []" "node_at s (butlast q) = Some Dir" "node_at s q \<noteq> Some Dir"
  shows "in_dirs (set_node q n s)"
  unfolding in_dirs_def
proof (intro allI impI)
  fix p c assume a: "node_at (set_node q n s) (p @ [c]) \<noteq> None"
  have "node_at s p = Some Dir"
  proof (cases "p @ [c] = q")
    case True
    then show ?thesis using assms(3) by auto
  next
    case False
    then have "node_at s (p @ [c]) \<noteq> None" using a assms(2) by (simp add: node_at_set_node)
    then show ?thesis using assms(1) unfolding in_dirs_def by blast
  qed
  moreover have "p \<noteq> q" using calculation assms(4) by auto
  ultimately show "node_at (set_node q n s) p = Some Dir" using assms(2) by (simp add: node_at_set_node)
qed

lemma in_dirs_del:
  assumes "in_dirs s" "q \<noteq> []" "node_at s q \<noteq> Some Dir"
  shows "in_dirs (del_node q s)"
  unfolding in_dirs_def
proof (intro allI impI)
  fix p c assume "node_at (del_node q s) (p @ [c]) \<noteq> None"
  then have "node_at s (p @ [c]) \<noteq> None" using assms(2) by (simp add: node_at_del_node split: if_splits)
  then have "node_at s p = Some Dir" using assms(1) unfolding in_dirs_def by blast
  then show "node_at (del_node q s) p = Some Dir" using assms(2,3) by (auto simp: node_at_del_node)
qed

text \<open>An inode a run may write: it is not a blob's, and it is new or at a path of \<open>A\<close>.\<close>

definition writable :: "path set \<Rightarrow> os \<Rightarrow> os \<Rightarrow> nat \<Rightarrow> bool" where
  "writable A s0 s i \<longleftrightarrow> i < os_next s
     \<and> (\<forall>p. node_at s p = Some (Reg i) \<longrightarrow> cas_digest p = None \<and> (p \<in> A \<or> os_next s0 \<le> i))"

text \<open>A path whose file a run may take away: it is in \<open>A\<close>, or its file is new.\<close>

definition removable :: "path set \<Rightarrow> os \<Rightarrow> os \<Rightarrow> path \<Rightarrow> bool" where
  "removable A s0 s p \<longleftrightarrow> p \<in> A \<or> (\<exists>i. node_at s p = Some (Reg i) \<and> os_next s0 \<le> i)"

lemma writable_same: "same s s' \<Longrightarrow> writable A s0 s' i = writable A s0 s i"
  by (simp add: writable_def same_def)

lemma removable_same: "same s s' \<Longrightarrow> removable A s0 s' p = removable A s0 s p"
  by (simp add: removable_def same_def)

lemma kept_old_inode:
  assumes "evolves H A s0 s" "os_inv H s0" "p \<notin> A" "file_at s0 p = Some (j, bs)"
  shows "node_at s p = Some (Reg j)" "os_data s j = bs" "j < os_next s0"
  using evolves_keeps [OF assms(1,3,4)] inv_bound [OF assms(2)] assms(4) by (auto simp: file_at_Some)

lemma evolves_set_data:
  assumes ev: "evolves H A s0 s" and inv0: "os_inv H s0" and w: "writable A s0 s i"
    and ne: "\<And>p. node_at s p = Some (Reg i) \<Longrightarrow> last p = ''index.json'' \<Longrightarrow> bs \<noteq> []"
  shows "evolves H A s0 (set_data i bs s)"
proof -
  note inv = evolves_inv [OF ev]
  have dirs: "in_dirs (set_data i bs s)" using inv_in_dirs [OF inv] by (simp add: in_dirs_def)
  have "os_inv H (set_data i bs s)"
    unfolding os_inv_def using inv_bound [OF inv] inv_share [OF inv] inv_cas [OF inv] inv_index [OF inv] inv_random [OF inv] dirs w ne
    by (auto simp: writable_def)
  moreover have "file_at (set_data i bs s) p = Some x" if p: "p \<notin> A" "file_at s0 p = Some x" for p x
  proof -
    obtain j cs where x: "x = (j, cs)" by (cases x)
    note old = kept_old_inode [OF ev inv0 p(1) p(2) [unfolded x]]
    then have "j \<noteq> i" using w p(1) by (auto simp: writable_def)
    then show ?thesis using old by (simp add: x file_at_Some)
  qed
  ultimately show ?thesis using ev keepsI [of A s0 "set_data i bs s"] by (simp add: evolves_def)
qed

lemma evolves_new_inode:
  assumes "evolves H A s0 s" "os_inv H s0"
  shows "evolves H A s0 (new_inode s)"
proof -
  have old: "i \<noteq> os_next s" if "node_at s p = Some (Reg i)" for p i
    using inv_bound [OF evolves_inv [OF assms(1)] that] by simp
  note inv = evolves_inv [OF assms(1)]
  have dirs: "in_dirs (new_inode s)" using inv_in_dirs [OF inv] by (simp add: in_dirs_def)
  have "os_inv H (new_inode s)"
    unfolding os_inv_def using old inv_bound [OF inv] inv_share [OF inv] inv_cas [OF inv] inv_index [OF inv] inv_random [OF inv] dirs
    by (auto simp: less_Suc_eq)
  moreover have "file_at (new_inode s) p = Some x" if p: "p \<notin> A" "file_at s0 p = Some x" for p x
    using evolves_keeps [OF assms(1) p] old by (cases x) (auto simp: file_at_Some)
  ultimately show ?thesis using assms(1) keepsI [of A s0 "new_inode s"] by (simp add: evolves_def)
qed

text \<open>Naming an inode: at a blob path its contents must have the digest.\<close>

definition nameable :: "'a hash_api_scheme \<Rightarrow> os \<Rightarrow> nat \<Rightarrow> path \<Rightarrow> bool" where
  "nameable H s i q \<longleftrightarrow> i < os_next s
     \<and> (\<forall>d. cas_digest q = Some d \<longrightarrow> digest_of H (os_data s i) (algorithm d) = d)
     \<and> (last q = ''index.json'' \<longrightarrow> os_data s i \<noteq> [])"

lemma nameable_same: "same s s' \<Longrightarrow> nameable H s' i q = nameable H s i q"
  by (simp add: nameable_def same_def)

lemma evolves_set_file:
  assumes ev: "evolves H A s0 s" and q: "q \<noteq> []" "q \<in> A \<or> node_at s q = None" "node_at s q \<noteq> Some Dir"
    and dir: "node_at s (butlast q) = Some Dir" and i: "nameable H s i q"
    and sole: "\<And>p. node_at s p = Some (Reg i) \<Longrightarrow> p \<noteq> q \<Longrightarrow> cas_digest p \<noteq> None \<and> cas_digest q \<noteq> None"
  shows "evolves H A s0 (set_node q (Reg i) s)"
proof -
  note inv = evolves_inv [OF ev]
  have dirs: "in_dirs (set_node q (Reg i) s)" by (rule in_dirs_set [OF inv_in_dirs [OF inv] q(1) dir q(3)])
  have "os_inv H (set_node q (Reg i) s)"
    unfolding os_inv_def
    using inv_bound [OF inv] inv_share [OF inv] inv_cas [OF inv] inv_index [OF inv] inv_random [OF inv] dirs i sole q(1)
    by (auto simp: node_at_set_node nameable_def split: if_splits)
  moreover have "file_at (set_node q (Reg i) s) p = Some x" if p: "p \<notin> A" "file_at s0 p = Some x" for p x
  proof -
    have "file_at s p = Some x" by (rule evolves_keeps [OF ev p])
    moreover then have "p \<noteq> q" using q(2) p(1) by (auto simp: file_at_def)
    ultimately show ?thesis using q(1) by (cases x) (simp add: file_at_Some node_at_set_node)
  qed
  ultimately show ?thesis using ev q keepsI [of A s0 "set_node q (Reg i) s"] by (auto simp: evolves_def node_at_set_node)
qed

lemma evolves_set_dir:
  assumes ev: "evolves H A s0 s" and q: "q \<noteq> []" "node_at s q = None" and dir: "node_at s (butlast q) = Some Dir"
  shows "evolves H A s0 (set_node q Dir s)"
proof -
  note inv = evolves_inv [OF ev]
  have dirs: "in_dirs (set_node q Dir s)" by (rule in_dirs_set [OF inv_in_dirs [OF inv] q(1) dir]) (simp add: q(2))
  have "os_inv H (set_node q Dir s)"
    unfolding os_inv_def
    using inv_bound [OF inv] inv_share [OF inv] inv_cas [OF inv] inv_index [OF inv] inv_random [OF inv] dirs q(1)
    by (auto simp: node_at_set_node split: if_splits)
  moreover have "file_at (set_node q Dir s) p = Some x" if p: "p \<notin> A" "file_at s0 p = Some x" for p x
    using evolves_keeps [OF ev p] q by (cases x) (auto simp: file_at_Some node_at_set_node)
  ultimately show ?thesis using ev q keepsI [of A s0 "set_node q Dir s"] by (auto simp: evolves_def node_at_set_node)
qed

lemma evolves_del_node:
  assumes ev: "evolves H A s0 s" and inv0: "os_inv H s0" and q: "q \<noteq> []" "removable A s0 s q" "node_at s q \<noteq> Some Dir"
  shows "evolves H A s0 (del_node q s)"
proof -
  note inv = evolves_inv [OF ev]
  have dirs: "in_dirs (del_node q s)" by (rule in_dirs_del [OF inv_in_dirs [OF inv] q(1,3)])
  have "os_inv H (del_node q s)"
    unfolding os_inv_def
    using inv_bound [OF inv] inv_share [OF inv] inv_cas [OF inv] inv_index [OF inv] inv_random [OF inv] dirs q(1)
    by (auto simp: node_at_del_node split: if_splits)
  moreover have "file_at (del_node q s) p = Some x" if p: "p \<notin> A" "file_at s0 p = Some x" for p x
  proof -
    obtain j cs where x: "x = (j, cs)" by (cases x)
    note old = kept_old_inode [OF ev inv0 p(1) p(2) [unfolded x]]
    then have "p \<noteq> q" using q(2) p(1) by (auto simp: removable_def)
    then show ?thesis using old q(1) by (simp add: x file_at_Some node_at_del_node)
  qed
  ultimately show ?thesis using ev q keepsI [of A s0 "del_node q s"] by (auto simp: evolves_def node_at_del_node)
qed

section \<open>Rules of the system calls\<close>

lemma wp_sys_call:
  assumes "\<And>e s'. same s s' \<Longrightarrow> Q (Inl e) s'" and "\<And>s'. same s s' \<Longrightarrow> wp m Q s'"
  shows "wp (sys_call m) Q s"
proof -
  have "same s (s\<lparr>os_faults := fs\<rparr>)" for fs by (simp add: same_def)
  then show ?thesis
    using assms by (auto simp: wp_def sys_call_def take_fault_def split: list.splits fault.splits)
qed

lemma wp_sys_in_dir:
  assumes "\<And>e s'. same s s' \<Longrightarrow> Q (Inl e) s'" and "\<And>s'. same s s' \<Longrightarrow> node_at s' d = Some Dir \<Longrightarrow> wp m Q s'"
  shows "wp (sys_call (in_dir d m)) Q s"
  by (rule wp_sys_call) (use assms in \<open>auto simp: wp_def in_dir_def\<close>)

text \<open>A call that changes nothing.\<close>

lemma wp_quiet:
  assumes ev: "evolves H A s0 s" and q: "\<And>t. same s t \<Longrightarrow> snd (m t) = t"
    and Q: "\<And>r s'. evolves H A s0 s' \<Longrightarrow> same s s' \<Longrightarrow> (\<forall>x. r = Inr x \<longrightarrow> fst (m s') = Inr x) \<Longrightarrow> Q r s'"
  shows "wp (sys_call m) Q s"
proof (rule wp_sys_call)
  fix e s' assume "same s s'"
  then show "Q (Inl e) s'" using Q same_evolves [OF _ ev] by blast
next
  fix s' assume "same s s'"
  then show "wp m Q s'" using Q [of s' "fst (m s')"] q same_evolves [OF _ ev] by (simp add: wp_def)
qed

definition opened :: "os \<Rightarrow> path \<Rightarrow> fd \<Rightarrow> bool" where
  "opened s p fd \<longleftrightarrow> (case fd of File_Fd i \<Rightarrow> node_at s p = Some (Reg i) | Dir_Fd q \<Rightarrow> q = p \<and> node_at s p = Some Dir
     | Other_Fd \<Rightarrow> True)"

lemma open_node_quiet:
  "mode \<in> {O_Directory, O_Read, O_Append} \<Longrightarrow> snd (open_node mode p s) = s"
  "mode \<in> {O_Directory, O_Read, O_Append} \<Longrightarrow> fst (open_node mode p s) = Inr fd \<Longrightarrow> opened s p fd"
  "fst (open_node O_Directory p s) = Inr fd \<Longrightarrow> fd = Dir_Fd p \<and> node_at s p = Some Dir"
  by (auto simp: open_node_def opened_def split: option.splits node.splits)

lemma wp_openat:
  assumes "evolves H A s0 s" "mode \<in> {O_Directory, O_Read, O_Append}"
    and "\<And>r s'. evolves H A s0 s' \<Longrightarrow> same s s' \<Longrightarrow> (\<forall>fd. r = Inr fd \<longrightarrow> opened s (d @ [c]) fd
           \<and> (mode = O_Directory \<longrightarrow> fd = Dir_Fd (d @ [c]) \<and> node_at s (d @ [c]) = Some Dir)) \<Longrightarrow> Q r s'"
  shows "wp (openat d c mode) Q s"
  unfolding openat_def
proof (rule wp_quiet [OF assms(1)])
  fix r :: "errno + fd" and s' assume ev: "evolves H A s0 s'" and same: "same s s'" and r: "\<forall>x. r = Inr x \<longrightarrow> fst (open_node mode (d @ [c]) s') = Inr x"
  show "Q r s'"
  proof (rule assms(3) [OF ev same], intro allI impI)
    fix fd assume "r = Inr fd"
    then have "fst (open_node mode (d @ [c]) s') = Inr fd" using r by simp
    then show "opened s (d @ [c]) fd \<and> (mode = O_Directory \<longrightarrow> fd = Dir_Fd (d @ [c]) \<and> node_at s (d @ [c]) = Some Dir)"
      using open_node_quiet(2) [OF assms(2), of "d @ [c]" s' fd] open_node_quiet(3) [of "d @ [c]" s' fd] same by (auto simp: opened_def same_def split: fd.splits)
  qed
qed (use open_node_quiet(1) [OF assms(2)] in simp)

lemma wp_openat2:
  assumes "evolves H A s0 s" "mode \<in> {O_Directory, O_Read, O_Append}"
    and "\<And>r s'. evolves H A s0 s' \<Longrightarrow> same s s' \<Longrightarrow> (\<forall>fd. r = Inr fd \<longrightarrow> opened s (d @ rel) fd
           \<and> (mode = O_Directory \<longrightarrow> fd = Dir_Fd (d @ rel) \<and> node_at s (d @ rel) = Some Dir)) \<Longrightarrow> Q r s'"
  shows "wp (openat2 d rel mode) Q s"
  unfolding openat2_def
proof (rule wp_quiet [OF assms(1)], goal_cases)
  case (2 r s')
  show ?case
  proof (rule assms(3) [OF 2(1,2)], intro allI impI)
    fix fd assume "r = Inr fd"
    then have "fst (open_node mode (d @ rel) s') = Inr fd" using 2(3) by (auto split: option.splits if_splits)
    then show "opened s (d @ rel) fd \<and> (mode = O_Directory \<longrightarrow> fd = Dir_Fd (d @ rel) \<and> node_at s (d @ rel) = Some Dir)"
      using open_node_quiet(2) [OF assms(2), of "d @ rel" s' fd] open_node_quiet(3) [of "d @ rel" s' fd] 2(2) by (auto simp: opened_def same_def split: fd.splits)
  qed
qed (use open_node_quiet(1) [OF assms(2)] in \<open>auto split: option.splits\<close>)

lemma wp_statat:
  assumes "evolves H A s0 s"
    and "\<And>r s'. evolves H A s0 s' \<Longrightarrow> same s s' \<Longrightarrow>
           (\<forall>st. r = Inr st \<longrightarrow> (\<exists>n. node_at s (d @ [c]) = Some n \<and> st = stat_of s n)) \<Longrightarrow> Q r s'"
  shows "wp (statat d c) Q s"
  unfolding statat_def
proof (rule wp_quiet [OF assms(1)], goal_cases)
  case (2 r s')
  have "stat_of s' n = stat_of s n" for n using 2(2) by (auto simp: same_def stat_of_def split: node.splits)
  then show ?case using 2 by (intro assms(2)) (auto simp: same_def split: option.splits)
qed (auto split: option.splits)

lemma stat_is_file: "st_is_file (stat_of s n) \<longleftrightarrow> (\<exists>i. n = Reg i)" "st_ino (stat_of s n) = Some i \<longleftrightarrow> n = Reg i"
  by (auto simp: stat_of_def split: node.splits)

lemma wp_fstat:
  assumes "evolves H A s0 s"
    and "\<And>r s'. evolves H A s0 s' \<Longrightarrow> same s s' \<Longrightarrow>
           (\<forall>st. r = Inr st \<longrightarrow> st = stat_of s (case f of File_Fd i \<Rightarrow> Reg i | Dir_Fd _ \<Rightarrow> Dir | Other_Fd \<Rightarrow> Special)) \<Longrightarrow> Q r s'"
  shows "wp (fstat f) Q s"
  unfolding fstat_def
proof (rule wp_quiet [OF assms(1)], goal_cases)
  case (2 r s')
  have "stat_of s' n = stat_of s n" for n using 2(2) by (auto simp: same_def stat_of_def split: node.splits)
  then show ?case using 2 by (intro assms(2)) (auto split: fd.splits)
qed simp

lemma wp_fsync:
  assumes "evolves H A s0 s" and "\<And>r s'. evolves H A s0 s' \<Longrightarrow> same s s' \<Longrightarrow> Q r s'"
  shows "wp fsync Q s"
  unfolding fsync_def by (rule wp_quiet [OF assms(1)]) (auto simp: ret_def intro: assms(2))

lemma wp_read_to_end:
  assumes "evolves H A s0 s"
    and "\<And>r s'. evolves H A s0 s' \<Longrightarrow> same s s' \<Longrightarrow> (\<forall>bs. r = Inr bs \<longrightarrow> bs = os_data s i) \<Longrightarrow> Q r s'"
  shows "wp (read_to_end i) Q s"
  unfolding read_to_end_def by (rule wp_quiet [OF assms(1)]) (auto simp: same_def intro: assms(2))

lemma wp_getrandom_hex:
  assumes "evolves H A s0 s"
    and "\<And>r s'. evolves H A s0 s' \<Longrightarrow> same s s' \<Longrightarrow> (\<forall>x. r = Inr x \<longrightarrow> lower_hex x) \<Longrightarrow> Q r s'"
  shows "wp (getrandom_hex n) Q s"
proof -
  have "evolves H A s0 (s'\<lparr>os_drawn := k\<rparr>) \<and> same s (s'\<lparr>os_drawn := k\<rparr>)" if "same s s'" for s' k
  proof -
    have "same s' (s'\<lparr>os_drawn := k\<rparr>)" by (simp add: same_def)
    then show ?thesis using same_trans [OF that] same_evolves [OF _ assms(1)] by blast
  qed
  moreover have "lower_hex (os_random s' k n)" if "same s s'" for s' k
    using inv_random [OF evolves_inv [OF assms(1)]] that by (simp add: same_def)
  ultimately show ?thesis
    unfolding getrandom_hex_def wp_err_map
    by (intro wp_sys_call) (auto simp: wp_def intro!: assms(2) same_evolves [OF _ assms(1)])
qed

lemma wp_mkdirat:
  assumes "evolves H A s0 s" and "\<And>r s'. evolves H A s0 s' \<Longrightarrow> files_same s s' \<Longrightarrow> Q r s'"
  shows "wp (mkdirat d c) Q s"
  unfolding mkdirat_def
proof (rule wp_sys_in_dir)
  fix e s' assume "same s s'"
  then show "Q (Inl e) s'" using assms(2) same_evolves [OF _ assms(1)] same_files by simp
next
  fix s' assume s: "same s s'" and dir: "node_at s' d = Some Dir"
  then have "evolves H A s0 s'" using same_evolves [OF _ assms(1)] by blast
  then show "wp (\<lambda>s. case node_at s (d @ [c]) of None \<Rightarrow> (Inr (), set_node (d @ [c]) Dir s) | Some _ \<Rightarrow> (Inl EEXIST, s)) Q s'"
    using s dir assms(2) evolves_set_dir [of H A s0 s' "d @ [c]"]
    by (cases "node_at s' (d @ [c])") (auto simp: wp_def same_def files_same_def node_at_set_node intro!: assms(2))
qed

text \<open>A file made by the run itself: new, known under one plain name.\<close>

definition temp_at :: "os \<Rightarrow> os \<Rightarrow> nat \<Rightarrow> path \<Rightarrow> bool" where
  "temp_at s0 s i t \<longleftrightarrow> os_next s0 \<le> i \<and> i < os_next s \<and> node_at s t = Some (Reg i)
     \<and> (\<forall>p. node_at s p = Some (Reg i) \<longrightarrow> p = t) \<and> cas_digest t = None \<and> last t \<noteq> ''index.json''"

text \<open>Only the contents of one inode may differ.\<close>

definition touched :: "nat \<Rightarrow> os \<Rightarrow> os \<Rightarrow> bool" where
  "touched i s s' \<longleftrightarrow> node_at s' = node_at s \<and> os_next s' = os_next s \<and> os_random s' = os_random s
     \<and> (\<forall>j. j \<noteq> i \<longrightarrow> os_data s' j = os_data s j)"

lemma temp_at_same: "same s s' \<Longrightarrow> temp_at s0 s' i t = temp_at s0 s i t"
  by (simp add: temp_at_def same_def)

lemma temp_at_touched: "touched j s s' \<Longrightarrow> temp_at s0 s' i t = temp_at s0 s i t"
  by (simp add: temp_at_def touched_def)

lemma temp_at_writable: "temp_at s0 s i t \<Longrightarrow> writable A s0 s i"
  by (auto simp: temp_at_def writable_def)

lemma temp_at_removable: "temp_at s0 s i t \<Longrightarrow> removable A s0 s t"
  by (auto simp: temp_at_def removable_def)

lemma writable_touched: "touched j s s' \<Longrightarrow> writable A s0 s' i = writable A s0 s i"
  by (simp add: writable_def touched_def)

lemma same_touched: "same s s' \<Longrightarrow> touched i s s'"
  by (simp add: same_def touched_def)

lemma touched_trans: "touched i s t \<Longrightarrow> touched i t u \<Longrightarrow> touched i s u"
  by (simp add: touched_def)

lemma wp_create_excl:
  assumes ev: "evolves H A s0 s" and inv0: "os_inv H s0"
    and t: "cas_digest (d @ [c]) = None" "c \<noteq> ''index.json''"
    and Q: "\<And>r s'. evolves H A s0 s' \<Longrightarrow>
        (case r of Inl e \<Rightarrow> same s s'
         | Inr fd \<Rightarrow> \<exists>i. fd = File_Fd i \<and> temp_at s0 s' i (d @ [c]) \<and> os_data s' i = [] \<and> node_at s (d @ [c]) = None
             \<and> (\<forall>p. p \<noteq> d @ [c] \<longrightarrow> node_at s' p = node_at s p) \<and> (\<forall>j. j < os_next s \<longrightarrow> os_data s' j = os_data s j)
             \<and> os_next s \<le> i) \<Longrightarrow> Q r s'"
  shows "wp (openat d c O_Create_Excl) Q s"
  unfolding openat_def
proof (rule wp_sys_call)
  fix e s' assume "same s s'"
  then show "Q (Inl e) s'" using Q same_evolves [OF _ ev] by simp
next
  fix s' assume s: "same s s'"
  then have ev': "evolves H A s0 s'" using same_evolves [OF _ ev] by blast
  show "wp (open_node O_Create_Excl (d @ [c])) Q s'"
  proof (cases "node_at s' (d @ [c])")
    case (Some n)
    then show ?thesis using Q [OF ev', of "Inl EEXIST"] s by (simp add: wp_def open_node_def)
  next
    case None
    note none = this
    let ?i = "os_next s'" and ?n = "set_node (d @ [c]) (Reg (os_next s')) (new_inode s')"
    show ?thesis
    proof (cases "node_at s' d = Some Dir")
      case False
      then show ?thesis using Q [OF ev', of "Inl ENOENT"] s none by (simp add: wp_def open_node_def create_file_def in_dir_def)
    next
    case True
    have old: "node_at s' p \<noteq> Some (Reg ?i)" for p using inv_bound [OF evolves_inv [OF ev'], of p ?i] by auto
    have "evolves H A s0 ?n"
      by (rule evolves_set_file [OF evolves_new_inode [OF ev' inv0]]) (use none True t old in \<open>auto simp: nameable_def\<close>)
    moreover have "temp_at s0 ?n ?i (d @ [c])"
      using old t ev' by (auto simp: temp_at_def node_at_set_node evolves_def)
    moreover have "\<forall>p. p \<noteq> d @ [c] \<longrightarrow> node_at ?n p = node_at s p" "\<forall>j. j < os_next s \<longrightarrow> os_data ?n j = os_data s j"
        "os_data ?n ?i = []" "node_at s (d @ [c]) = None" "os_next s \<le> ?i"
      using s none by (auto simp: same_def node_at_set_node)
    ultimately show ?thesis using Q [of ?n "Inr (File_Fd ?i)"] none True by (auto simp: wp_def open_node_def create_file_def in_dir_def)
    qed
  qed
qed

lemma wp_write_all:
  assumes ev: "evolves H A s0 s" and inv0: "os_inv H s0" and w: "writable A s0 s i"
    and Q: "\<And>r s'. evolves H A s0 s' \<Longrightarrow> touched i s s' \<Longrightarrow> prefix (os_data s i) (os_data s' i) \<Longrightarrow>
        (r = Inr () \<longrightarrow> os_data s' i = os_data s i @ bs) \<Longrightarrow> Q r s'"
  shows "wp (write_all i bs) Q s"
proof -
  have main: "evolves H A s0 (set_data i (os_data t i @ xs) t) \<and> touched i s (set_data i (os_data t i @ xs) t)"
    if "same s t" for t xs
  proof
    show "evolves H A s0 (set_data i (os_data t i @ xs) t)"
      using same_evolves [OF that ev] inv_index [OF evolves_inv [OF same_evolves [OF that ev]]] w that
      by (intro evolves_set_data [OF _ inv0]) (auto simp: writable_same)
    show "touched i s (set_data i (os_data t i @ xs) t)" using that by (simp add: touched_def same_def)
  qed
  have "same s (s\<lparr>os_faults := fs\<rparr>)" for fs by (simp add: same_def)
  note main = main [OF this] main [OF same_refl]
  show ?thesis
    unfolding wp_def write_all_def take_fault_def
    using main by (auto intro!: Q split: list.splits fault.splits)
qed

lemma wp_set_len:
  assumes ev: "evolves H A s0 s" and inv0: "os_inv H s0" and w: "writable A s0 s i"
    and ne: "\<And>p. node_at s p = Some (Reg i) \<Longrightarrow> last p = ''index.json'' \<Longrightarrow> n \<noteq> 0"
    and Q: "\<And>r s'. evolves H A s0 s' \<Longrightarrow> touched i s s' \<Longrightarrow> (\<forall>e. r = Inl e \<longrightarrow> same s s') \<Longrightarrow>
        (r = Inr () \<longrightarrow> n \<le> length (os_data s i) \<longrightarrow> os_data s' i = take n (os_data s i)) \<Longrightarrow> Q r s'"
  shows "wp (set_len i n) Q s"
  unfolding set_len_def
proof (rule wp_sys_call)
  fix e s' assume "same s s'"
  then show "Q (Inl e) s'" using Q same_evolves [OF _ ev] same_touched by simp
next
  fix s' assume s: "same s s'"
  let ?bs = "take n (os_data s' i) @ replicate (n - length (os_data s' i)) CHR 0x00"
  have "evolves H A s0 (set_data i ?bs s')"
  proof (rule evolves_set_data [OF same_evolves [OF s ev] inv0])
    show "writable A s0 s' i" using w s by (simp add: writable_same)
    fix p assume "node_at s' p = Some (Reg i)" "last p = ''index.json''"
    then have "n \<noteq> 0" using ne s by (auto simp: same_def)
    then show "?bs \<noteq> []" by (cases "os_data s' i") auto
  qed
  moreover have "touched i s (set_data i ?bs s')" using s by (simp add: touched_def same_def)
  ultimately show "wp (\<lambda>s. (Inr (), set_data i (take n (os_data s i) @ replicate (n - length (os_data s i)) CHR 0x00) s)) Q s'"
    using s by (auto simp: wp_def same_def intro!: Q)
qed

lemma wp_ficlone:
  assumes ev: "evolves H A s0 s" and inv0: "os_inv H s0" and t: "temp_at s0 s out t"
    and Q: "\<And>r s'. evolves H A s0 s' \<Longrightarrow> touched out s s' \<Longrightarrow> (\<forall>e. r = Inl e \<longrightarrow> same s s') \<Longrightarrow>
        (r = Inr () \<longrightarrow> os_data s' out = os_data s inp) \<Longrightarrow> Q r s'"
  shows "wp (ficlone out inp) Q s"
  unfolding ficlone_def
proof (rule wp_sys_call)
  fix e s' assume "same s s'"
  then show "Q (Inl e) s'" using Q same_evolves [OF _ ev] same_touched by simp
next
  fix s' assume s: "same s s'"
  have "evolves H A s0 (set_data out (os_data s' inp) s')"
  proof (rule evolves_set_data [OF same_evolves [OF s ev] inv0])
    have t': "temp_at s0 s' out t" using t temp_at_same [OF s] by simp
    then show "writable A s0 s' out" by (rule temp_at_writable)
    show "os_data s' inp \<noteq> []" if "node_at s' p = Some (Reg out)" "last p = ''index.json''" for p
      using t' that by (auto simp: temp_at_def)
  qed
  moreover have "touched out s (set_data out (os_data s' inp) s')" using s by (simp add: touched_def same_def)
  ultimately show "wp (\<lambda>s. (Inr (), set_data out (os_data s inp) s)) Q s'"
    using s by (auto simp: wp_def same_def intro!: Q)
qed

lemma wp_unlinkat:
  assumes ev: "evolves H A s0 s" and inv0: "os_inv H s0" and rm: "removable A s0 s (d @ [c])"
    and Q: "\<And>r s'. evolves H A s0 s' \<Longrightarrow> os_data s' = os_data s \<Longrightarrow> os_next s' = os_next s \<Longrightarrow>
        (\<forall>p. p \<noteq> d @ [c] \<longrightarrow> node_at s' p = node_at s p) \<Longrightarrow>
        (case r of Inl e \<Rightarrow> same s s' | Inr _ \<Rightarrow> node_at s' (d @ [c]) = None) \<Longrightarrow> Q r s'"
  shows "wp (unlinkat d c) Q s"
  unfolding unlinkat_def
proof (rule wp_sys_call)
  fix e s' assume "same s s'"
  then show "Q (Inl e) s'" using Q same_evolves [OF _ ev] by (simp add: same_def)
next
  fix s' assume s: "same s s'"
  note ev' = same_evolves [OF s ev]
  have "evolves H A s0 (del_node (d @ [c]) s')" if "node_at s' (d @ [c]) \<noteq> Some Dir"
    using rm s that by (intro evolves_del_node [OF ev' inv0]) (auto simp: removable_same)
  then show "wp (\<lambda>s. case node_at s (d @ [c]) of None \<Rightarrow> (Inl ENOENT, s) | Some Dir \<Rightarrow> (Inl EISDIR, s)
      | Some _ \<Rightarrow> (Inr (), del_node (d @ [c]) s)) Q s'"
    using s ev' by (auto simp: wp_def same_def node_at_del_node split: option.splits node.splits intro!: Q)
qed

text \<open>A file moves to a name of its own; the callers have checked that the contents fit the name.\<close>

lemma wp_rename_noreplace:
  assumes ev: "evolves H A s0 s" and inv0: "os_inv H s0"
    and src: "node_at s (d @ [c]) = Some (Reg i)" "cas_digest (d @ [c]) = None" "removable A s0 s (d @ [c])"
    and dst: "nameable H s i (e @ [f])"
    and Q: "\<And>r s'. evolves H A s0 s' \<Longrightarrow> os_data s' = os_data s \<Longrightarrow>
        (case r of Inl e \<Rightarrow> same s s' | Inr _ \<Rightarrow> node_at s' (e @ [f]) = Some (Reg i)) \<Longrightarrow> Q r s'"
  shows "wp (rename_noreplace d c e f) Q s"
  unfolding rename_noreplace_def
proof (rule wp_sys_in_dir)
  fix e s' assume "same s s'"
  then show "Q (Inl e) s'" using Q same_evolves [OF _ ev] by (simp add: same_def)
next
  fix s' assume s: "same s s'" and dir: "node_at s' e = Some Dir"
  note ev' = same_evolves [OF s ev]
  let ?d = "del_node (d @ [c]) s'" and ?n = "set_node (e @ [f]) (Reg i) (del_node (d @ [c]) s')"
  have src': "node_at s' (d @ [c]) = Some (Reg i)" using s src(1) by (simp add: same_def)
  show "wp (\<lambda>s. case node_at s (d @ [c]) of None \<Rightarrow> (Inl ENOENT, s)
     | Some n \<Rightarrow> if node_at s (e @ [f]) \<noteq> None then (Inl EEXIST, s)
                 else if n = Dir then (Inl EINVAL, s)
                 else (Inr (), set_node (e @ [f]) n (del_node (d @ [c]) s))) Q s'"
  proof (cases "node_at s' (e @ [f]) = None")
    case False
    then show ?thesis using src' s ev' by (auto simp: wp_def same_def intro!: Q)
  next
    case True
    have "evolves H A s0 ?d" using src(3) src' removable_same [OF s] by (intro evolves_del_node [OF ev' inv0]) auto
    moreover have "node_at ?d (e @ [f]) = None" using True by (simp add: node_at_del_node)
    moreover have "nameable H ?d i (e @ [f])" using dst s by (simp add: nameable_def same_def)
    moreover have "node_at ?d p \<noteq> Some (Reg i)" for p
      using inv_share [OF evolves_inv [OF ev'] src' _ src(2)] by (auto simp: node_at_del_node)
    moreover have "node_at ?d e = Some Dir" using dir src' by (auto simp: node_at_del_node)
    ultimately have "evolves H A s0 ?n" by (intro evolves_set_file) auto
    then show ?thesis using True src' s by (auto simp: wp_def node_at_set_node same_def intro!: Q)
  qed
qed

text \<open>Replacing the file at a path of \<open>A\<close>.\<close>

lemma wp_rename_replace:
  assumes ev: "evolves H A s0 s" and inv0: "os_inv H s0"
    and src: "node_at s (d @ [c]) = Some (Reg i)" "cas_digest (d @ [c]) = None" "removable A s0 s (d @ [c])"
    and dst: "nameable H s i (e @ [f])" "e @ [f] \<in> A"
    and Q: "\<And>r s'. evolves H A s0 s' \<Longrightarrow> os_data s' = os_data s \<Longrightarrow>
        (case r of Inl e \<Rightarrow> same s s' | Inr _ \<Rightarrow> node_at s' (e @ [f]) = Some (Reg i)) \<Longrightarrow> Q r s'"
  shows "wp (rename_replace d c e f) Q s"
  unfolding rename_replace_def
proof (rule wp_sys_in_dir)
  fix e s' assume "same s s'"
  then show "Q (Inl e) s'" using Q same_evolves [OF _ ev] by (simp add: same_def)
next
  fix s' assume s: "same s s'" and dir: "node_at s' e = Some Dir"
  note ev' = same_evolves [OF s ev]
  let ?d = "del_node (d @ [c]) s'" and ?n = "set_node (e @ [f]) (Reg i) (del_node (d @ [c]) s')"
  have src': "node_at s' (d @ [c]) = Some (Reg i)" using s src(1) by (simp add: same_def)
  show "wp (\<lambda>s. case node_at s (d @ [c]) of None \<Rightarrow> (Inl ENOENT, s)
     | Some n \<Rightarrow> if node_at s (e @ [f]) = Some Dir then (Inl EISDIR, s)
                 else if n = Dir then (Inl EINVAL, s)
                 else if node_at s (e @ [f]) = Some n then (Inr (), s)
                 else (Inr (), set_node (e @ [f]) n (del_node (d @ [c]) s))) Q s'"
  proof (cases "node_at s' (e @ [f]) = Some Dir \<or> node_at s' (e @ [f]) = Some (Reg i)")
    case True
    then show ?thesis using src' s ev' by (auto simp: wp_def same_def intro!: Q)
  next
    case False
    have "evolves H A s0 ?d" using src(3) src' removable_same [OF s] by (intro evolves_del_node [OF ev' inv0]) auto
    moreover have "node_at ?d (e @ [f]) \<noteq> Some Dir" using False by (simp add: node_at_del_node)
    moreover have "nameable H ?d i (e @ [f])" using dst s by (simp add: nameable_def same_def)
    moreover have "node_at ?d p \<noteq> Some (Reg i)" for p
      using inv_share [OF evolves_inv [OF ev'] src' _ src(2)] by (auto simp: node_at_del_node)
    moreover have "node_at ?d e = Some Dir" using dir src' by (auto simp: node_at_del_node)
    ultimately have "evolves H A s0 ?n" using dst(2) by (intro evolves_set_file) auto
    then show ?thesis using False src' s by (auto simp: wp_def node_at_set_node same_def intro!: Q)
  qed
qed

text \<open>A blob gets a second name for the same digest.\<close>

lemma wp_linkat:
  assumes ev: "evolves H A s0 s" and src: "node_at s (d @ [c]) = Some (Reg i)"
    and cas: "cas_digest (d @ [c]) = Some x" "cas_digest (e @ [f]) = Some x"
    and Q: "\<And>r s'. evolves H A s0 s' \<Longrightarrow>
        (case r of Inl e \<Rightarrow> same s s' | Inr _ \<Rightarrow> node_at s' (e @ [f]) = Some (Reg i)) \<Longrightarrow> Q r s'"
  shows "wp (linkat d c e f) Q s"
  unfolding linkat_def
proof (rule wp_sys_in_dir)
  fix e s' assume "same s s'"
  then show "Q (Inl e) s'" using Q same_evolves [OF _ ev] by simp
next
  fix s' assume s: "same s s'" and dir: "node_at s' e = Some Dir"
  note ev' = same_evolves [OF s ev]
  have src': "node_at s' (d @ [c]) = Some (Reg i)" using s src(1) by (simp add: same_def)
  have "f \<noteq> ''index.json''" using cas(2) cas_digest_no_hex [of "''index.json''" e] by auto
  then have "nameable H s' i (e @ [f])"
    using inv_cas [OF evolves_inv [OF ev'] src' cas(1)] inv_bound [OF evolves_inv [OF ev'] src'] cas(2)
    by (simp add: nameable_def)
  then have "evolves H A s0 (set_node (e @ [f]) (Reg i) s')" if "node_at s' (e @ [f]) = None"
    using that dir inv_share [OF evolves_inv [OF ev'] _ src'] cas
    by (intro evolves_set_file [OF ev']) fastforce+
  then show "wp (\<lambda>s. case node_at s (d @ [c]) of None \<Rightarrow> (Inl ENOENT, s)
     | Some n \<Rightarrow> if node_at s (e @ [f]) \<noteq> None then (Inl EEXIST, s)
                 else if n = Dir then (Inl EPERM, s)
                 else (Inr (), set_node (e @ [f]) n s)) Q s'"
    using src' s ev' by (cases "node_at s' (e @ [f])") (auto simp: wp_def node_at_set_node intro!: Q)
qed

text \<open>An anonymous file is created, written and then named.\<close>

definition anonymous :: "os \<Rightarrow> os \<Rightarrow> nat \<Rightarrow> bool" where
  "anonymous s0 s i \<longleftrightarrow> os_next s0 \<le> i \<and> i < os_next s \<and> (\<forall>p. node_at s p \<noteq> Some (Reg i))"

lemma anonymous_same: "same s s' \<Longrightarrow> anonymous s0 s' i = anonymous s0 s i"
  by (simp add: anonymous_def same_def)

lemma anonymous_touched: "touched j s s' \<Longrightarrow> anonymous s0 s' i = anonymous s0 s i"
  by (simp add: anonymous_def touched_def)

lemma anonymous_writable: "anonymous s0 s i \<Longrightarrow> writable A s0 s i"
  by (auto simp: anonymous_def writable_def)

lemma wp_open_tmpfile:
  assumes ev: "evolves H A s0 s" and inv0: "os_inv H s0"
    and Q: "\<And>r s'. evolves H A s0 s' \<Longrightarrow> (case r of Inl e \<Rightarrow> same s s' | Inr i \<Rightarrow> anonymous s0 s' i \<and> os_data s' i = []
        \<and> node_at s' = node_at s) \<Longrightarrow> Q r s'"
  shows "wp (open_tmpfile d) Q s"
  unfolding open_tmpfile_def
proof (rule wp_sys_call)
  fix e s' assume "same s s'"
  then show "Q (Inl e) s'" using Q same_evolves [OF _ ev] by simp
next
  fix s' assume s: "same s s'"
  note ev' = same_evolves [OF s ev]
  have "anonymous s0 (new_inode s') (os_next s')"
    using inv_bound [OF evolves_inv [OF ev']] ev' by (fastforce simp: anonymous_def evolves_def)
  then show "wp (\<lambda>s. (Inr (os_next s), new_inode s)) Q s'"
    using evolves_new_inode [OF ev' inv0] s by (auto simp: wp_def same_def intro!: Q)
qed

lemma wp_link_fd:
  assumes ev: "evolves H A s0 s" and i: "anonymous s0 s i" "nameable H s i (d @ [c])"
    and Q: "\<And>r s'. evolves H A s0 s' \<Longrightarrow> os_data s' = os_data s \<Longrightarrow> os_next s' = os_next s \<Longrightarrow>
        (case r of Inl e \<Rightarrow> same s s' | Inr _ \<Rightarrow> node_at s' (d @ [c]) = Some (Reg i) \<and> (\<forall>p. node_at s' p = Some (Reg i) \<longrightarrow> p = d @ [c])) \<Longrightarrow> Q r s'"
  shows "wp (link_fd i d c) Q s"
  unfolding link_fd_def
proof (rule wp_sys_in_dir)
  fix e s' assume "same s s'"
  then show "Q (Inl e) s'" using Q same_evolves [OF _ ev] by (simp add: same_def)
next
  fix s' assume s: "same s s'" and dir: "node_at s' d = Some Dir"
  note ev' = same_evolves [OF s ev]
  have "evolves H A s0 (set_node (d @ [c]) (Reg i) s')" if "node_at s' (d @ [c]) = None"
    using that dir i s by (intro evolves_set_file [OF ev']) (auto simp: anonymous_def nameable_def same_def)
  then show "wp (\<lambda>s. if node_at s (d @ [c]) \<noteq> None then (Inl EEXIST, s) else (Inr (), set_node (d @ [c]) (Reg i) s)) Q s'"
    using s ev' i by (cases "node_at s' (d @ [c])") (auto simp: wp_def node_at_set_node same_def anonymous_def intro!: Q)
qed

lemma wp_read_dir:
  assumes "evolves H A s0 s" and "\<And>r s'. evolves H A s0 s' \<Longrightarrow> same s s' \<Longrightarrow> Q r s'"
  shows "wp (read_dir d) Q s"
  unfolding read_dir_def by (rule wp_quiet [OF assms(1)]) (auto intro: assms(2) split: option.splits node.splits)

lemma wp_read_follow:
  assumes "evolves H A s0 s" and "\<And>r s'. evolves H A s0 s' \<Longrightarrow> same s s' \<Longrightarrow> Q r s'"
  shows "wp (read_follow p) Q s"
  unfolding read_follow_def by (rule wp_quiet [OF assms(1)]) (auto intro: assms(2))

lemma files_same_transfer:
  assumes "files_same s s'"
  shows "writable A s0 s' i = writable A s0 s i" "removable A s0 s' p = removable A s0 s p"
    "nameable H s' i p = nameable H s i p" "temp_at s0 s' i p = temp_at s0 s i p"
    "anonymous s0 s' i = anonymous s0 s i" "file_at s' p = file_at s p"
proof -
  show "writable A s0 s' i = writable A s0 s i" "removable A s0 s' p = removable A s0 s p"
    "nameable H s' i p = nameable H s i p" "temp_at s0 s' i p = temp_at s0 s i p"
    "anonymous s0 s' i = anonymous s0 s i"
    using assms unfolding files_same_def writable_def removable_def nameable_def temp_at_def anonymous_def by simp_all
  have "file_at s' p = Some (i, bs) \<longleftrightarrow> file_at s p = Some (i, bs)" for i bs
    using assms by (simp add: files_same_def file_at_Some)
  then show "file_at s' p = file_at s p" by (metis (full_types) not_None_eq surj_pair)
qed

end
