(* ===== verification/Beneath.thy ===== *)
theory Beneath
  imports Os_Inv
begin

text \<open>
  File operations anchored beneath the store root that never follow a symbolic link
  (\<open>roci-storage/src/beneath.rs\<close>): opening by \<open>openat2\<close> or by a walk, creating directories, stat,
  unlink, the promotion of a hashed file, and the layout marker. The fault-injection macros of the
  test build are constantly false.
\<close>

section \<open>Opening\<close>

definition open_root :: "path io" where
  "open_root = io (sys_call (ret []))"

definition openat2_beneath :: "path \<Rightarrow> path \<Rightarrow> open_mode \<Rightarrow> (io_error + fd) option io" where
  "openat2_beneath d rel mode =
     (if rel = [] then ret None
      else observe (openat2 d rel mode) (\<lambda>r. case r of
             Inr f \<Rightarrow> ret (Some (Inr f))
           | Inl e \<Rightarrow> if e \<in> {ENOSYS, EPERM} then ret None
                      else if e \<in> {ELOOP, ENOTDIR, EXDEV} then ret (Some (Inl not_found_error))
                      else ret (Some (Inl (io_of_errno e)))))"

definition fd_path :: "fd \<Rightarrow> path" where
  "fd_path f = (case f of Dir_Fd p \<Rightarrow> p | _ \<Rightarrow> [])"

definition regular_file :: "fd \<Rightarrow> nat io" where
  "regular_file f = and_do (io (fstat f)) (\<lambda>st.
     case st_ino st of Some i \<Rightarrow> if st_is_file st then ret i else fail not_found_error | None \<Rightarrow> fail not_found_error)"

fun walk_open :: "path \<Rightarrow> string list \<Rightarrow> open_mode \<Rightarrow> fd io" where
  "walk_open d [] mode = ret (Dir_Fd d)"
| "walk_open d (c # cs) mode =
     observe (openat d c (if cs = [] then mode else O_Directory)) (\<lambda>r. case r of
       Inr f \<Rightarrow> if cs = [] then ret f else walk_open (fd_path f) cs mode
     | Inl e \<Rightarrow> if e \<in> {ELOOP, ENOTDIR} then fail not_found_error else fail (io_of_errno e))"

definition resolve_beneath :: "path \<Rightarrow> open_mode \<Rightarrow> nat io" where
  "resolve_beneath rel mode = and_do open_root (\<lambda>d. and_do (openat2_beneath d rel mode) (\<lambda>found. case found of
     Some (Inl e) \<Rightarrow> fail e
   | Some (Inr f) \<Rightarrow> regular_file f
   | None \<Rightarrow> and_do (walk_open d rel mode) regular_file))"

definition open_beneath :: "path \<Rightarrow> nat io" where
  "open_beneath rel = resolve_beneath rel O_Read"

definition open_append_beneath :: "path \<Rightarrow> nat io" where
  "open_append_beneath rel = resolve_beneath rel O_Append"

fun dir_walk :: "bool \<Rightarrow> path \<Rightarrow> string list \<Rightarrow> path io" where
  "dir_walk create d [] = ret d"
| "dir_walk create d (c # cs) =
     observe (openat d c O_Directory) (\<lambda>r. case r of
       Inr f \<Rightarrow> dir_walk create (fd_path f) cs
     | Inl e \<Rightarrow>
         if e = ENOENT \<and> create then
           observe (mkdirat d c) (\<lambda>m.
             if m \<noteq> Inr () \<and> m \<noteq> Inl EEXIST then (case m of Inl e \<Rightarrow> fail (io_of_errno e) | Inr _ \<Rightarrow> ret d)
             else observe (openat d c O_Directory) (\<lambda>r. case r of
                    Inr f \<Rightarrow> dir_walk create (fd_path f) cs
                  | Inl e \<Rightarrow> if e \<in> {ELOOP, ENOTDIR, ENOENT} then fail not_found_error else fail (io_of_errno e)))
         else if e \<in> {ELOOP, ENOTDIR, ENOENT} then fail not_found_error else fail (io_of_errno e))"

definition dir_beneath :: "path \<Rightarrow> bool \<Rightarrow> path io" where
  "dir_beneath rel create = and_do open_root (\<lambda>d. and_do (openat2_beneath d rel O_Directory) (\<lambda>found. case found of
     Some (Inr f) \<Rightarrow> ret (fd_path f)
   | Some (Inl e) \<Rightarrow> if create \<and> io_kind_of e = KNotFound then dir_walk create d rel else fail e
   | None \<Rightarrow> dir_walk create d rel))"

section \<open>Stat, unlink, rename\<close>

fun stat_walk :: "path \<Rightarrow> string list \<Rightarrow> string \<Rightarrow> (bool \<times> nat) option io" where
  "stat_walk d [] leaf =
     observe (statat d leaf) (\<lambda>r. case r of
       Inr st \<Rightarrow> ret (Some (st_is_file st, st_size st))
     | Inl e \<Rightarrow> if e = ENOENT then ret None else fail (io_of_errno e))"
| "stat_walk d (c # cs) leaf =
     observe (openat d c O_Directory) (\<lambda>r. case r of
       Inr f \<Rightarrow> stat_walk (fd_path f) cs leaf
     | Inl e \<Rightarrow> if e \<in> {ENOENT, ELOOP, ENOTDIR} then ret None else fail (io_of_errno e))"

definition stat_beneath :: "path \<Rightarrow> (bool \<times> nat) option io" where
  "stat_beneath rel =
     (if rel = [] then ret None else and_do open_root (\<lambda>d. stat_walk d (butlast rel) (last rel)))"

definition unlink_beneath :: "path \<Rightarrow> string \<Rightarrow> unit io" where
  "unlink_beneath dir_rel leaf = and_do (dir_beneath dir_rel False) (\<lambda>d. io (unlinkat d leaf))"

definition not_regular :: "string \<Rightarrow> io_error" where
  "not_regular what = Io_Error KAlreadyExists (what @ '' exists and is not a regular file'')"

definition rename_beneath :: "path \<Rightarrow> string \<Rightarrow> path \<Rightarrow> string \<Rightarrow> nat \<Rightarrow> bool \<Rightarrow> unit io" where
  "rename_beneath from_dir from_leaf to_dir to_leaf expected_ino sync =
     and_do (dir_beneath from_dir False) (\<lambda>from_fd.
     and_do (dir_beneath to_dir True) (\<lambda>to_fd.
     and_do (io (statat from_fd from_leaf)) (\<lambda>st.
       if st_ino st \<noteq> Some expected_ino then fail not_found_error
       else observe (rename_noreplace from_fd from_leaf to_fd to_leaf) (\<lambda>r. case r of
              Inr _ \<Rightarrow> when_do sync (io fsync)
            | Inl e \<Rightarrow>
                if e = EEXIST then
                  and_do (io (statat to_fd to_leaf)) (\<lambda>dst.
                    if st_is_file dst then ret () else fail (not_regular ''CAS destination''))
                else fail (io_of_errno e)))))"

definition create_empty_beneath :: "path \<Rightarrow> string \<Rightarrow> unit io" where
  "create_empty_beneath dir_rel leaf =
     and_do (dir_beneath dir_rel True) (\<lambda>d. and_do (io (openat d leaf O_Create_Trunc)) (\<lambda>_. ret ()))"

section \<open>Temporary files and the layout marker\<close>

text \<open>\<open>promote_temp_noreplace\<close> of \<open>publish.rs\<close>: the temporary file is gone on every path unless its
  removal fails too.\<close>

definition promote_temp_noreplace :: "path \<Rightarrow> string \<Rightarrow> string \<Rightarrow> bool \<Rightarrow> unit io" where
  "promote_temp_noreplace d tmp leaf sync =
     observe (rename_noreplace d tmp d leaf) (\<lambda>r. case r of
       Inr _ \<Rightarrow> when_do sync (io fsync)
     | Inl e \<Rightarrow>
         if e = EEXIST then
           observe (statat d leaf) (\<lambda>st.
           and_do (ignore (unlinkat d tmp)) (\<lambda>_.
             case st of
               Inr st \<Rightarrow> if st_is_file st then ret () else fail (not_regular ''CAS destination'')
             | Inl e \<Rightarrow> fail (io_of_errno e)))
         else and_do (ignore (unlinkat d tmp)) (\<lambda>_. fail (io_of_errno e)))"

definition tmp_name :: "string \<Rightarrow> string \<Rightarrow> string" where
  "tmp_name leaf rnd = ''.'' @ leaf @ ''.'' @ rnd @ ''.tmp''"

definition file_of :: "fd \<Rightarrow> nat" where
  "file_of f = (case f of File_Fd i \<Rightarrow> i | _ \<Rightarrow> 0)"

definition OCI_LAYOUT_MARKER :: string where
  "OCI_LAYOUT_MARKER = ''{'' @ [CHR 0x22] @ ''imageLayoutVersion'' @ [CHR 0x22] @ '':'' @ [CHR 0x22] @ ''1.0.0''
     @ [CHR 0x22] @ ''}''"

definition ensure_layout_beneath :: "path \<Rightarrow> string \<Rightarrow> bool io" where
  "ensure_layout_beneath rel marker =
     and_do (dir_beneath rel True) (\<lambda>d.
     observe (statat d ''oci-layout'') (\<lambda>st. case st of
       Inr st \<Rightarrow> if st_is_file st then ret False else fail (not_regular ''oci-layout'')
     | Inl e \<Rightarrow>
         if e \<noteq> ENOENT then fail (io_of_errno e)
         else
           and_do (getrandom_hex 8) (\<lambda>rnd.
           and_do (io (openat d (tmp_name ''oci-layout'' rnd) O_Create_Excl)) (\<lambda>f.
           and_do (io (write_all (file_of f) marker)) (\<lambda>_.
           and_do (io fsync) (\<lambda>_.
           and_do (promote_temp_noreplace d (tmp_name ''oci-layout'' rnd) ''oci-layout'' True) (\<lambda>_.
             ret True)))))))"

text \<open>\<open>File::open(dir)\<close> and \<open>sync_all\<close>.\<close>

definition sync_dir :: "path \<Rightarrow> unit io" where
  "sync_dir p = and_do (io (sys_call (\<lambda>s. (if node_at s p = None then Inl ENOENT else Inr (), s)))) (\<lambda>_. io fsync)"

section \<open>Rules\<close>

lemma wp_io [wp_simps]: "wp (io m) Q s \<longleftrightarrow> wp m (\<lambda>r. Q (map_err io_of_errno r)) s"
  by (simp add: io_def wp_err_map)

lemma wp_open_root:
  assumes "evolves H A s0 s"
    and "\<And>r s'. evolves H A s0 s' \<Longrightarrow> same s s' \<Longrightarrow> (\<forall>d. r = Inr d \<longrightarrow> d = []) \<Longrightarrow> Q r s'"
  shows "wp open_root Q s"
  unfolding open_root_def wp_io by (rule wp_quiet [OF assms(1)]) (auto simp: ret_def intro!: assms(2))

lemma wp_openat2_beneath:
  assumes "evolves H A s0 s" "mode \<in> {O_Directory, O_Read, O_Append}"
    and "\<And>r s'. evolves H A s0 s' \<Longrightarrow> same s s' \<Longrightarrow> (\<forall>f. r = Inr (Some (Inr f)) \<longrightarrow> opened s (d @ rel) f
           \<and> (mode = O_Directory \<longrightarrow> f = Dir_Fd (d @ rel) \<and> node_at s (d @ rel) = Some Dir)) \<Longrightarrow> Q r s'"
  shows "wp (openat2_beneath d rel mode) Q s"
proof (cases "rel = []")
  case True
  then show ?thesis using assms(1,3) by (simp add: openat2_beneath_def wp_ret)
next
  case False
  show ?thesis
    unfolding openat2_beneath_def wp_observe if_not_P [OF False]
    by (rule wp_openat2 [OF assms(1,2)]) (auto simp: wp_ret intro!: assms(3) split: sum.splits)
qed

lemma wp_regular_file:
  assumes "evolves H A s0 s"
    and "\<And>r s'. evolves H A s0 s' \<Longrightarrow> same s s' \<Longrightarrow> (\<forall>i. r = Inr i \<longrightarrow> f = File_Fd i) \<Longrightarrow> Q r s'"
  shows "wp (regular_file f) Q s"
  unfolding regular_file_def wp_and_do wp_io
proof (rule wp_fstat [OF assms(1)], goal_cases)
  case (1 r s')
  then show ?case
    by (cases r; cases f) (auto simp: wp_fail wp_ret stat_of_def intro!: assms(2))
qed

lemma wp_walk_open:
  assumes "evolves H A s0 s" "mode \<in> {O_Directory, O_Read, O_Append}"
    and "\<And>r s'. evolves H A s0 s' \<Longrightarrow> same s s' \<Longrightarrow> (\<forall>i. r = Inr (File_Fd i) \<longrightarrow> node_at s (d @ cs) = Some (Reg i)) \<Longrightarrow> Q r s'"
  shows "wp (walk_open d cs mode) Q s"
  using assms
proof (induction cs arbitrary: d s)
  case Nil
  then show ?case by (simp add: wp_ret)
next
  case (Cons c cs)
  have mode: "(if cs = [] then mode else O_Directory) \<in> {O_Directory, O_Read, O_Append}" using Cons.prems(2) by simp
  show ?case
    unfolding walk_open.simps wp_observe
  proof (rule wp_openat [OF Cons.prems(1) mode], goal_cases)
    case (1 r s')
    show ?case
    proof (cases r)
      case (Inl e)
      then show ?thesis using Cons.prems(3) [OF 1(1,2)] by (auto simp: wp_fail)
    next
      case (Inr f)
      show ?thesis
      proof (cases "cs = []")
        case True
        then show ?thesis using Cons.prems(3) [OF 1(1,2)] Inr 1(3) by (cases f) (auto simp: wp_ret opened_def)
      next
        case False
        then have f: "fd_path f = d @ [c]" using 1(3) Inr by (simp add: fd_path_def)
        have "wp (walk_open (d @ [c]) cs mode) Q s'"
          by (rule Cons.IH [OF 1(1) Cons.prems(2)])
            (use 1(2) in \<open>auto simp: same_def intro!: Cons.prems(3) same_trans [OF 1(2)]\<close>)
        then show ?thesis using Inr False f by simp
      qed
    qed
  qed
qed

lemma wp_resolve_beneath:
  assumes ev: "evolves H A s0 s" and mode: "mode \<in> {O_Directory, O_Read, O_Append}"
    and Q: "\<And>r s'. evolves H A s0 s' \<Longrightarrow> same s s' \<Longrightarrow> (\<forall>i. r = Inr i \<longrightarrow> node_at s rel = Some (Reg i)) \<Longrightarrow> Q r s'"
  shows "wp (resolve_beneath rel mode) Q s"
  unfolding resolve_beneath_def wp_and_do
proof (rule wp_open_root [OF ev], goal_cases)
  case (1 r s1)
  have fin: "wp (regular_file f) Q t" if t: "evolves H A s0 t" "same s t"
      and f: "\<forall>i. f = File_Fd i \<longrightarrow> node_at s rel = Some (Reg i)" for f t
    by (rule wp_regular_file [OF t(1)]) (use f in \<open>auto intro!: Q same_trans [OF t(2)]\<close>)
  show ?case
  proof (cases r)
    case (Inl e)
    then show ?thesis using Q 1 by simp
  next
    case (Inr d)
    then have r: "r = Inr []" using 1(3) by simp
    show ?thesis
      unfolding r sum.case
    proof (rule wp_openat2_beneath [OF 1(1) mode], goal_cases)
      case (1 r s2)
      have s2: "same s s2" using same_trans [OF _ 1(2)] \<open>same s s1\<close> by blast
      have walk: "wp (and_do (walk_open [] rel mode) regular_file) Q s2"
        unfolding wp_and_do
      proof (rule wp_walk_open [OF 1(1) mode], goal_cases)
        case (1 r s3)
        then show ?case
          using s2 by (cases r) (auto simp: same_def intro!: fin Q same_trans [OF s2])
      qed
      have op: "opened s1 p f \<longleftrightarrow> opened s p f" for p f
        using \<open>same s s1\<close> by (auto simp: opened_def same_def split: fd.splits)
      show ?case
      proof (cases r)
        case (Inl e)
        then show ?thesis using Q [OF 1(1) s2] by simp
      next
        case (Inr found)
        then show ?thesis
          using 1(1,3) s2 walk op by (cases found) (auto simp: wp_fail opened_def intro!: fin Q split: sum.splits)
      qed
    qed
  qed
qed

lemma wp_dir_walk:
  assumes "evolves H A s0 s"
    and "\<And>r s'. evolves H A s0 s' \<Longrightarrow> files_same s s' \<Longrightarrow> (\<forall>q. r = Inr q \<longrightarrow> q = d @ cs) \<Longrightarrow> Q r s'"
  shows "wp (dir_walk create d cs) Q s"
  using assms
proof (induction cs arbitrary: d s)
  case Nil
  then show ?case by (simp add: wp_ret)
next
  case (Cons c cs)
  have down: "wp (dir_walk create (d @ [c]) cs) Q t" if t: "evolves H A s0 t" "files_same s t" for t
    by (rule Cons.IH [OF t(1)]) (auto intro!: Cons.prems(2) files_same_trans [OF t(2)])
  show ?case
    unfolding dir_walk.simps wp_observe
  proof (rule wp_openat [OF Cons.prems(1)], goal_cases)
    case (2 r s1)
    note s1 = 2(1) same_files [OF 2(2)]
    show ?case
    proof (cases r)
      case (Inr f)
      then have "fd_path f = d @ [c]" using 2(3) by (simp add: fd_path_def)
      then show ?thesis using Inr down [OF s1] by simp
    next
      case (Inl e)
      have mk: "wp (observe (mkdirat d c) (\<lambda>m.
             if m \<noteq> Inr () \<and> m \<noteq> Inl EEXIST then (case m of Inl e \<Rightarrow> fail (io_of_errno e) | Inr _ \<Rightarrow> ret d)
             else observe (openat d c O_Directory) (\<lambda>r. case r of
                    Inr f \<Rightarrow> dir_walk create (fd_path f) cs
                  | Inl e \<Rightarrow> if e \<in> {ELOOP, ENOTDIR, ENOENT} then fail not_found_error else fail (io_of_errno e)))) Q s1"
        unfolding wp_observe
      proof (rule wp_mkdirat [OF s1(1)], goal_cases)
        case (1 m s2)
        have s2: "files_same s s2" by (rule files_same_trans [OF s1(2) 1(2)])
        show ?case
        proof (cases "m \<noteq> Inr () \<and> m \<noteq> Inl EEXIST")
          case True
          then show ?thesis using 1(1) s2 by (cases m) (auto simp: wp_fail intro!: Cons.prems(2))
        next
          case False
          show ?thesis
            unfolding if_not_P [OF False] wp_observe
          proof (rule wp_openat [OF 1(1)], goal_cases)
            case (2 r s3)
            have s3: "files_same s s3" by (rule files_same_trans [OF s2 same_files [OF 2(2)]])
            show ?case
              using 2 down [OF 2(1) s3] s3 by (cases r) (auto simp: wp_fail fd_path_def intro!: Cons.prems(2))
          qed simp
        qed
      qed
      show ?thesis using Inl mk s1 by (auto simp: wp_fail intro!: Cons.prems(2))
    qed
  qed simp
qed

lemma wp_dir_beneath:
  assumes ev: "evolves H A s0 s"
    and Q: "\<And>r s'. evolves H A s0 s' \<Longrightarrow> files_same s s' \<Longrightarrow> (\<forall>q. r = Inr q \<longrightarrow> q = rel) \<Longrightarrow> Q r s'"
  shows "wp (dir_beneath rel create) Q s"
  unfolding dir_beneath_def wp_and_do
proof (rule wp_open_root [OF ev], goal_cases)
  case (1 r s1)
  show ?case
  proof (cases r)
    case (Inl e)
    then show ?thesis using Q 1 same_files by simp
  next
    case (Inr d)
    then have r: "r = Inr []" using 1(3) by simp
    show ?thesis
      unfolding r sum.case
    proof (rule wp_openat2_beneath [OF 1(1)], goal_cases)
      case (2 r s2)
      have s2: "files_same s s2" using same_files [OF same_trans [OF \<open>same s s1\<close> 2(2)]] .
      have walk: "wp (dir_walk create [] rel) Q s2"
        by (rule wp_dir_walk [OF 2(1)]) (auto intro!: Q files_same_trans [OF s2])
      show ?case
      proof (cases r)
        case (Inl e)
        then show ?thesis using Q [OF 2(1) s2] by simp
      next
        case (Inr found)
        show ?thesis
        proof (cases found)
          case None
          then show ?thesis using Inr walk by simp
        next
          case (Some x)
          then show ?thesis using Inr walk 2 s2
            by (cases x) (auto simp: wp_fail wp_ret fd_path_def intro!: Q)
        qed
      qed
    qed simp
  qed
qed

lemma wp_stat_walk:
  assumes "evolves H A s0 s"
    and "\<And>r s'. evolves H A s0 s' \<Longrightarrow> same s s' \<Longrightarrow>
        (\<forall>z. r = Inr (Some (True, z)) \<longrightarrow> (\<exists>i. node_at s (d @ cs @ [leaf]) = Some (Reg i) \<and> z = length (os_data s i))) \<Longrightarrow> Q r s'"
  shows "wp (stat_walk d cs leaf) Q s"
  using assms
proof (induction cs arbitrary: d s)
  case Nil
  show ?case
    unfolding stat_walk.simps wp_observe
  proof (rule wp_statat [OF Nil.prems(1)], goal_cases)
    case (1 r s')
    show ?case
    proof (cases r)
      case (Inl e)
      then show ?thesis using 1 by (auto simp: wp_fail wp_ret intro!: Nil.prems(2))
    next
      case (Inr st)
      then obtain n where "node_at s (d @ [leaf]) = Some n" "st = stat_of s n" using 1(3) by blast
      then show ?thesis using 1 Inr by (cases n) (auto simp: wp_ret stat_of_def intro!: Nil.prems(2))
    qed
  qed
next
  case (Cons c cs)
  show ?case
    unfolding stat_walk.simps wp_observe
  proof (rule wp_openat [OF Cons.prems(1)], goal_cases)
    case (2 r s1)
    have down: "wp (stat_walk (d @ [c]) cs leaf) Q s1"
      by (rule Cons.IH [OF 2(1)]) (use 2(2) in \<open>auto simp: same_def intro!: Cons.prems(2) same_trans [OF 2(2)]\<close>)
    show ?case
      using 2 down by (cases r) (auto simp: wp_fail wp_ret fd_path_def intro!: Cons.prems(2))
  qed simp
qed

lemma wp_stat_beneath:
  assumes ev: "evolves H A s0 s"
    and Q: "\<And>r s'. evolves H A s0 s' \<Longrightarrow> same s s' \<Longrightarrow>
        (\<forall>z. r = Inr (Some (True, z)) \<longrightarrow> (\<exists>i. node_at s rel = Some (Reg i) \<and> z = length (os_data s i))) \<Longrightarrow> Q r s'"
  shows "wp (stat_beneath rel) Q s"
proof (cases "rel = []")
  case True
  then show ?thesis using ev by (simp add: stat_beneath_def wp_ret Q)
next
  case False
  show ?thesis
    unfolding stat_beneath_def if_not_P [OF False] wp_and_do
  proof (rule wp_open_root [OF ev], goal_cases)
    case (1 r s1)
    have "wp (stat_walk [] (butlast rel) (last rel)) Q s1"
      by (rule wp_stat_walk [OF 1(1)]) (use 1(2) False in \<open>auto simp: same_def intro!: Q same_trans [OF 1(2)]\<close>)
    then show ?case using 1 by (cases r) (auto intro!: Q)
  qed
qed

lemma wp_unlink_beneath:
  assumes ev: "evolves H A s0 s" and inv0: "os_inv H s0" and p: "d @ [c] \<in> A"
    and Q: "\<And>r s'. evolves H A s0 s' \<Longrightarrow> os_data s' = os_data s \<Longrightarrow>
        (case r of Inl e \<Rightarrow> files_same s s' | Inr _ \<Rightarrow> node_at s' (d @ [c]) = None) \<Longrightarrow> Q r s'"
  shows "wp (unlink_beneath d c) Q s"
  unfolding unlink_beneath_def wp_and_do
proof (rule wp_dir_beneath [OF ev], goal_cases)
  case (1 r s1)
  show ?case
  proof (cases r)
    case (Inl e)
    then show ?thesis using 1 Q by (simp add: files_same_def)
  next
    case (Inr q)
    have "wp (unlinkat d c) (\<lambda>r. Q (map_err io_of_errno r)) s1"
    proof (rule wp_unlinkat [OF 1(1) inv0], goal_cases)
      case (2 r s2)
      then show ?case
        using 1(2) files_same_trans [OF 1(2) same_files] by (cases r) (auto simp: files_same_def intro!: Q)
    qed (use p in \<open>simp add: removable_def\<close>)
    then show ?thesis using Inr 1(3) by (simp add: wp_io)
  qed
qed

text \<open>Promotion of the staged file: the destination is only ever a file that fits its name.\<close>

lemma wp_rename_beneath:
  assumes ev: "evolves H A s0 s" and inv0: "os_inv H s0" and p: "d @ [c] \<in> A" "cas_digest (d @ [c]) = None"
    and dst: "node_at s (d @ [c]) = Some (Reg ino) \<Longrightarrow> nameable H s ino (e @ [f])"
    and Q: "\<And>r s'. evolves H A s0 s' \<Longrightarrow> os_data s' = os_data s \<Longrightarrow>
        (r = Inr () \<longrightarrow> (\<exists>j. node_at s' (e @ [f]) = Some (Reg j))) \<Longrightarrow> Q r s'"
  shows "wp (rename_beneath d c e f ino sync) Q s"
  unfolding rename_beneath_def wp_and_do
proof (rule wp_dir_beneath [OF ev], goal_cases)
  case (1 r s1)
  note s1 = 1
  show ?case
  proof (cases r)
    case (Inl e)
    then show ?thesis using 1 Q by (simp add: files_same_def)
  next
    case (Inr q)
    then have r: "r = Inr d" using 1(3) by simp
    show ?thesis
      unfolding r sum.case
    proof (rule wp_dir_beneath [OF s1(1)], goal_cases)
      case (1 r s2)
      have s2: "files_same s s2" by (rule files_same_trans [OF s1(2) 1(2)])
      note ev2 = 1(1)
      show ?case
      proof (cases r)
        case (Inl e)
        then show ?thesis using ev2 s2 Q by (simp add: files_same_def)
      next
        case (Inr q)
        then have r: "r = Inr e" using 1(3) by simp
        show ?thesis
          unfolding r sum.case wp_io
        proof (rule wp_statat [OF ev2], goal_cases)
          case (1 r s3)
          have s3: "files_same s s3" by (rule files_same_trans [OF s2 same_files [OF 1(2)]])
          note ev3 = 1(1)
          have quiet: "Q (Inl x) t" if "evolves H A s0 t" "files_same s t" for x t
            using that Q by (simp add: files_same_def)
          show ?case
          proof (cases "\<exists>st. r = Inr st \<and> st_ino st = Some ino")
            case False
            then show ?thesis using ev3 s3 quiet by (cases r) (auto simp: wp_fail)
          next
            case True
            then obtain st where st: "r = Inr st" "st_ino st = Some ino" by blast
            then have src: "node_at s3 (d @ [c]) = Some (Reg ino)"
              using 1(2,3) by (auto simp: stat_is_file same_def)
            then have src0: "node_at s (d @ [c]) = Some (Reg ino)" using s3 by (simp add: files_same_def)
            have "wp (rename_noreplace d c e f) (\<lambda>r. wp (case r of
                Inr _ \<Rightarrow> when_do sync (io fsync)
              | Inl e' \<Rightarrow> if e' = EEXIST then and_do (io (statat e f)) (\<lambda>dst.
                    if st_is_file dst then ret () else fail (not_regular ''CAS destination''))
                else fail (io_of_errno e')) Q) s3"
            proof (rule wp_rename_noreplace [OF ev3 inv0 src p(2)], goal_cases)
              case 1
              then show ?case using p(1) by (simp add: removable_def)
            next
              case 2
              then show ?case using dst [OF src0] by (simp add: files_same_transfer(3) [OF s3])
            next
              case (3 r s4)
              have d4: "os_data s4 = os_data s" using 3(2) s3 by (simp add: files_same_def)
              show ?case
              proof (cases r)
                case (Inr u)
                then have n4: "node_at s4 (e @ [f]) = Some (Reg ino)" using 3(3) by simp
                have "wp fsync (\<lambda>r. Q (map_err io_of_errno r)) s4"
                  by (rule wp_fsync [OF 3(1)]) (use n4 d4 in \<open>auto simp: same_def intro!: Q\<close>)
                then show ?thesis using Inr 3(1) d4 n4 by (auto simp: wp_when_do wp_io intro!: Q)
              next
                case (Inl x)
                then have s4: "files_same s s4" using 3(3) files_same_trans [OF s3 same_files] by simp
                have "wp (io (statat e f)) (\<lambda>r s'. case r of Inl x \<Rightarrow> Q (Inl x) s' | Inr dst \<Rightarrow>
                    wp (if st_is_file dst then ret () else fail (not_regular ''CAS destination'')) Q s') s4"
                  unfolding wp_io
                proof (rule wp_statat [OF 3(1)], goal_cases)
                  case (1 r s5)
                  then show ?case using d4
                    by (cases r) (auto simp: wp_fail wp_ret same_def stat_is_file intro!: Q)
                qed
                then show ?thesis using Inl 3(1) s4 quiet by (auto simp: wp_fail wp_and_do)
              qed
            qed
            then show ?thesis using st by (simp add: wp_observe)
          qed
        qed
      qed
    qed
  qed
qed

lemma wp_promote_temp_noreplace:
  assumes ev: "evolves H A s0 s" and inv0: "os_inv H s0" and t: "temp_at s0 s i (d @ [tmp])" "tmp \<noteq> leaf"
    and dst: "nameable H s i (d @ [leaf])"
    and Q: "\<And>r s'. evolves H A s0 s' \<Longrightarrow> (r = Inr () \<longrightarrow> (\<exists>j. node_at s' (d @ [leaf]) = Some (Reg j))) \<Longrightarrow> Q r s'"
  shows "wp (promote_temp_noreplace d tmp leaf sync) Q s"
  unfolding promote_temp_noreplace_def wp_observe
proof (rule wp_rename_noreplace [OF ev inv0, of d tmp i], goal_cases)
  case (5 r s1)
  have drop: "wp (unlinkat d tmp) (\<lambda>_. R) u"
    if u: "evolves H A s0 u" "same s u" and R: "\<And>v. evolves H A s0 v \<Longrightarrow> (\<forall>p. p \<noteq> d @ [tmp] \<longrightarrow> node_at v p = node_at s p) \<Longrightarrow> R v"
    for R u
    by (rule wp_unlinkat [OF u(1) inv0])
      (use u(2) temp_at_removable [OF t(1)] removable_same [OF u(2)] in \<open>auto simp: same_def intro!: R\<close>)
  show ?case
  proof (cases r)
    case (Inr u)
    then have n: "node_at s1 (d @ [leaf]) = Some (Reg i)" using 5 by simp
    have "wp fsync (\<lambda>r. Q (map_err io_of_errno r)) s1"
      by (rule wp_fsync [OF 5(1)]) (use n in \<open>auto simp: same_def intro!: Q\<close>)
    then show ?thesis using Inr 5(1) n by (auto simp: wp_when_do wp_io intro!: Q)
  next
    case (Inl e)
    then have same1: "same s s1" using 5(3) by simp
    have other: "wp (unlinkat d tmp) (\<lambda>_. Q (Inl x)) u" if "evolves H A s0 u" "same s u" for x u
      by (rule drop [OF that]) (auto intro!: Q)
    have "wp (observe (statat d leaf) (\<lambda>st. and_do (ignore (unlinkat d tmp)) (\<lambda>_. case st of
               Inr st \<Rightarrow> if st_is_file st then ret () else fail (not_regular ''CAS destination'')
             | Inl e \<Rightarrow> fail (io_of_errno e)))) Q s1"
      unfolding wp_observe
    proof (rule wp_statat [OF 5(1)], goal_cases)
      case (1 st s2)
      have s2: "same s s2" by (rule same_trans [OF same1 1(2)])
      show ?case
      proof (cases "\<exists>x. st = Inr x \<and> st_is_file x")
        case True
        then obtain j where "node_at s (d @ [leaf]) = Some (Reg j)" using 1(3) same1 by (auto simp: same_def stat_is_file)
        then have "wp (unlinkat d tmp) (\<lambda>_. Q (Inr ())) s2"
          using t(2) by (intro drop [OF 1(1) s2] Q) auto
        then show ?thesis using True by (auto simp: wp_and_do wp_ignore wp_ret)
      next
        case False
        then show ?thesis
          using other [OF 1(1) s2] by (cases st) (auto simp: wp_and_do wp_ignore wp_fail)
      qed
    qed
    then show ?thesis using Inl other [OF 5(1) same1] by (auto simp: wp_and_do wp_ignore wp_fail)
  qed
qed (use t(1) dst temp_at_removable [OF t(1)] in \<open>auto simp: temp_at_def\<close>)

lemma tmp_name_plain [simp]:
  "cas_digest (d @ [tmp_name leaf rnd]) = None" "tmp_name leaf rnd \<noteq> ''index.json''" "tmp_name leaf rnd \<noteq> ''oci-layout''"
  using cas_digest_no_hex by (auto simp: tmp_name_def)

lemma tmp_name_no_hex: "lower_hex leaf \<Longrightarrow> tmp_name x rnd \<noteq> leaf"
  by (auto simp: tmp_name_def)

lemma wp_ensure_layout_beneath:
  assumes ev: "evolves H A s0 s" and inv0: "os_inv H s0"
    and Q: "\<And>r s'. evolves H A s0 s' \<Longrightarrow> Q r s'"
  shows "wp (ensure_layout_beneath rel marker) Q s"
  unfolding ensure_layout_beneath_def wp_and_do
proof (rule wp_dir_beneath [OF ev], goal_cases)
  case (1 r s1)
  note ev1 = 1(1)
  show ?case
  proof (cases r)
    case (Inr d)
    show ?thesis
      unfolding Inr sum.case wp_observe
    proof (rule wp_statat [OF ev1], goal_cases)
      case (1 st s2)
      let ?tmp = "\<lambda>rnd. tmp_name ''oci-layout'' rnd"
      have "wp (getrandom_hex 8) (\<lambda>r s'. case r of Inl e \<Rightarrow> Q (Inl e) s' | Inr rnd \<Rightarrow>
           wp (and_do (io (openat d (?tmp rnd) O_Create_Excl)) (\<lambda>f.
           and_do (io (write_all (file_of f) marker)) (\<lambda>_.
           and_do (io fsync) (\<lambda>_.
           and_do (promote_temp_noreplace d (?tmp rnd) ''oci-layout'' True) (\<lambda>_. ret True))))) Q s') s2"
      proof (rule wp_getrandom_hex [OF 1(1)], goal_cases)
        case (1 r s3)
        show ?case
        proof (cases r)
          case (Inr rnd)
          show ?thesis
            unfolding Inr sum.case wp_and_do wp_io
          proof (rule wp_create_excl [OF 1(1) inv0], goal_cases)
            case (3 r s4)
            show ?case
            proof (cases r)
              case (Inr f)
              then obtain i where f: "f = File_Fd i" "temp_at s0 s4 i (d @ [?tmp rnd])" using 3(2) by auto
              then have r: "map_err io_of_errno r = Inr (File_Fd i)" using Inr by simp
              show ?thesis
                unfolding r sum.case file_of_def fd.case
              proof (rule wp_write_all [OF 3(1) inv0 temp_at_writable [OF f(2)]], goal_cases)
                case (1 r s5)
                note t5 = f(2) [folded temp_at_touched [OF 1(2)]]
                have "wp fsync (\<lambda>r s'. case map_err io_of_errno r of Inl e \<Rightarrow> Q (Inl e) s' | Inr _ \<Rightarrow>
                    wp (promote_temp_noreplace d (?tmp rnd) ''oci-layout'' True) (\<lambda>r s'. case r of Inl e \<Rightarrow> Q (Inl e) s'
                      | Inr _ \<Rightarrow> wp (ret True) Q s') s') s5"
                proof (rule wp_fsync [OF 1(1)], goal_cases)
                  case (1 r s6)
                  note t6 = t5 [folded temp_at_same [OF 1(2)]]
                  have "nameable H s6 i (d @ [''oci-layout''])"
                    using t6 cas_digest_no_hex [of "''oci-layout''" d] by (simp add: nameable_def temp_at_def)
                  then have "wp (promote_temp_noreplace d (?tmp rnd) ''oci-layout'' True) (\<lambda>r s'. case r of Inl e \<Rightarrow> Q (Inl e) s'
                      | Inr _ \<Rightarrow> wp (ret True) Q s') s6"
                    by (intro wp_promote_temp_noreplace [OF 1(1) inv0 t6]) (auto simp: wp_ret intro!: Q split: sum.splits)
                  then show ?case using 1(1) Q by (cases r) auto
                qed
                then show ?case using 1(1) Q by (cases r) auto
              qed
            qed (use 3(1) Q in simp)
          qed (simp_all add: wp_simps)
        qed (use 1(1) Q in simp)
      qed
      then show ?case using 1(1) Q by (cases st) (auto simp: wp_ret wp_fail wp_and_do)
    qed
  qed (use ev1 Q in simp)
qed

lemma wp_sync_dir:
  assumes "evolves H A s0 s" and "\<And>r s'. evolves H A s0 s' \<Longrightarrow> same s s' \<Longrightarrow> Q r s'"
  shows "wp (sync_dir p) Q s"
  unfolding sync_dir_def wp_and_do wp_io
proof (rule wp_quiet [OF assms(1)], goal_cases)
  case (2 r s1)
  have "wp fsync (\<lambda>r. Q (map_err io_of_errno r)) s1"
    by (rule wp_fsync [OF 2(1)]) (auto intro!: assms(2) same_trans [OF 2(2)])
  then show ?case using 2 by (cases r) (auto simp: wp_io intro!: assms(2))
qed simp

end
