(* ===== verification/Publish.thy ===== *)
theory Publish
  imports Beneath
begin

text \<open>
  Crash-atomic publication of blobs and their promotion across repositories
  (\<open>roci-storage/src/publish.rs\<close>): reflink, hard link or copy from another repository, and the
  publication of bytes through an anonymous or a temporary file. Whatever call fails, the only file
  that can appear under a blob's name has the blob's digest.
\<close>

datatype promotion = Existing | Reflink | Hardlink | Copy

definition promotion_label :: "promotion \<Rightarrow> string" where
  "promotion_label p = (case p of Existing \<Rightarrow> ''existing'' | Reflink \<Rightarrow> ''reflink'' | Hardlink \<Rightarrow> ''hardlink'' | Copy \<Rightarrow> ''copy'')"

section \<open>Copying\<close>

definition COPY_BUF :: nat where
  "COPY_BUF = 64 * 1024"

text \<open>The read and write loop; \<open>rest\<close> is what is left of the input.\<close>

function copy_loop :: "bytes \<Rightarrow> nat \<Rightarrow> unit io" where
  "copy_loop rest out =
     (if rest = [] then io (sys_call (ret ()))
      else and_do (io (sys_call (ret (take COPY_BUF rest)))) (\<lambda>buf.
           and_do (io (write_all out buf)) (\<lambda>_. copy_loop (drop COPY_BUF rest) out)))"
  by pat_completeness auto
termination by (relation "measure (\<lambda>(rest, _). length rest)") (auto simp: COPY_BUF_def)

declare copy_loop.simps [simp del]

definition stream_copy :: "nat \<Rightarrow> nat \<Rightarrow> unit io" where
  "stream_copy inp out =
     and_do (io (sys_call (ret ()))) (\<lambda>_.
     and_do (io (sys_call (ret ()))) (\<lambda>_.
     and_do (io (set_len out 0)) (\<lambda>_.
     and_do (gets (\<lambda>s. os_data s inp)) (\<lambda>data. copy_loop data out))))"

definition try_hardlink_at :: "path \<Rightarrow> string \<Rightarrow> path \<Rightarrow> string \<Rightarrow> unit io" where
  "try_hardlink_at from_dir from_leaf to_dir to_leaf = io (linkat from_dir from_leaf to_dir to_leaf)"

section \<open>Promotion from another repository\<close>

text \<open>The steps once the destination is known to be missing: reflink, else hard link, else copy.\<close>

definition promote_copy :: "nat \<Rightarrow> path \<Rightarrow> string \<Rightarrow> string \<Rightarrow> bool \<Rightarrow> promotion io" where
  "promote_copy src to_dir tmp leaf sync =
     and_do (io (openat to_dir tmp O_Create_Excl)) (\<lambda>out.
     and_do (stream_copy src (file_of out)) (\<lambda>_.
     and_do (when_do sync (io fsync)) (\<lambda>_.
     and_do (promote_temp_noreplace to_dir tmp leaf sync) (\<lambda>_. ret Copy))))"

definition promote_link :: "nat \<Rightarrow> path \<Rightarrow> path \<Rightarrow> string \<Rightarrow> string \<Rightarrow> bool \<Rightarrow> bool \<Rightarrow> promotion io" where
  "promote_link src from_dir to_dir tmp leaf allow_copy sync =
     observe (try_hardlink_at from_dir leaf to_dir leaf) (\<lambda>r. case r of
       Inr _ \<Rightarrow> and_do (when_do sync (io fsync)) (\<lambda>_. ret Hardlink)
     | Inl e \<Rightarrow>
         if io_kind_of e = KAlreadyExists then
           observe (statat to_dir leaf) (\<lambda>st. case st of
             Inr st \<Rightarrow> if st_is_file st then and_do (when_do sync (io fsync)) (\<lambda>_. ret Existing)
                       else fail (not_regular ''mount destination'')
           | Inl e \<Rightarrow> fail (io_of_errno e))
         else if allow_copy then promote_copy src to_dir tmp leaf sync
         else fail e)"

definition promote_new :: "nat \<Rightarrow> path \<Rightarrow> path \<Rightarrow> string \<Rightarrow> bool \<Rightarrow> bool \<Rightarrow> promotion io" where
  "promote_new src from_dir to_dir leaf allow_copy sync =
     and_do (getrandom_hex 8) (\<lambda>rnd.
     and_do (io (openat to_dir (tmp_name leaf rnd) O_Create_Excl)) (\<lambda>out.
     observe (ficlone (file_of out) src) (\<lambda>r.
       if is_ok r then
         and_do (when_do sync (io fsync)) (\<lambda>_.
         and_do (promote_temp_noreplace to_dir (tmp_name leaf rnd) leaf sync) (\<lambda>_. ret Reflink))
       else
         and_do (ignore (unlinkat to_dir (tmp_name leaf rnd))) (\<lambda>_.
           promote_link src from_dir to_dir (tmp_name leaf rnd) leaf allow_copy sync))))"

definition mount_promote_beneath :: "path \<Rightarrow> path \<Rightarrow> string \<Rightarrow> bool \<Rightarrow> bool \<Rightarrow> promotion io" where
  "mount_promote_beneath from_rel to_rel leaf allow_copy sync =
     and_do (dir_beneath from_rel False) (\<lambda>from_dir.
     and_do (dir_beneath to_rel True) (\<lambda>to_dir.
     and_do (io (openat from_dir leaf O_Read)) (\<lambda>src.
     and_do (io (fstat src)) (\<lambda>st.
       if \<not> st_is_file st then fail (Io_Error KInvalidInput ''mount source is not a regular file'')
       else observe (statat to_dir leaf) (\<lambda>dst. case dst of
              Inr st \<Rightarrow> if st_is_file st then ret Existing else fail (not_regular ''mount destination'')
            | Inl e \<Rightarrow> if e \<noteq> ENOENT then fail (io_of_errno e)
                       else promote_new (file_of src) from_dir to_dir leaf allow_copy sync)))))"

section \<open>Publication of bytes\<close>

definition publish_bytes_rename :: "path \<Rightarrow> string \<Rightarrow> bytes \<Rightarrow> bool \<Rightarrow> unit io" where
  "publish_bytes_rename alg_rel leaf data sync =
     and_do (dir_beneath alg_rel True) (\<lambda>d.
     and_do (getrandom_hex 8) (\<lambda>rnd.
     and_do (io (openat d (tmp_name leaf rnd) O_Create_Excl)) (\<lambda>f.
     and_do (io (write_all (file_of f) data)) (\<lambda>_.
     and_do (when_do sync (io fsync)) (\<lambda>_.
       promote_temp_noreplace d (tmp_name leaf rnd) leaf sync)))))"

definition publish_bytes :: "path \<Rightarrow> string \<Rightarrow> bytes \<Rightarrow> bool \<Rightarrow> unit io" where
  "publish_bytes alg_rel leaf data sync =
     and_do (dir_beneath alg_rel True) (\<lambda>d.
     observe (open_tmpfile d) (\<lambda>opened. case opened of
       Inl _ \<Rightarrow> publish_bytes_rename alg_rel leaf data sync
     | Inr f \<Rightarrow>
         and_do (io (write_all f data)) (\<lambda>_.
         and_do (when_do sync (io fsync)) (\<lambda>_.
         and_do (observe (link_fd f d leaf) (\<lambda>r. case r of
             Inr _ \<Rightarrow> ret ()
           | Inl e \<Rightarrow>
               if e = EEXIST then
                 and_do (io (statat d leaf)) (\<lambda>st.
                   if st_is_file st then ret () else fail (not_regular ''CAS destination''))
               else fail (io_of_errno e))) (\<lambda>_.
           when_do sync (io fsync))))))"

section \<open>Rules\<close>

lemma wp_seek:
  assumes "evolves H A s0 s" and "\<And>r s'. evolves H A s0 s' \<Longrightarrow> same s s' \<Longrightarrow> (\<forall>y. r = Inr y \<longrightarrow> y = x) \<Longrightarrow> Q r s'"
  shows "wp (io (sys_call (ret x))) Q s"
  unfolding wp_io by (rule wp_quiet [OF assms(1)]) (auto simp: ret_def intro!: assms(2))

lemma wp_when_fsync:
  assumes "evolves H A s0 s" and "\<And>r s'. evolves H A s0 s' \<Longrightarrow> same s s' \<Longrightarrow> Q r s'"
  shows "wp (when_do b (io fsync)) Q s"
  using assms wp_fsync [OF assms(1), of "\<lambda>r. Q (map_err io_of_errno r)"] by (auto simp: wp_when_do wp_io)

text \<open>The loop ends, and when no call fails the output has received the input.\<close>

lemma wp_copy_loop:
  assumes "evolves H A s0 s" "os_inv H s0" "temp_at s0 s out t"
    and "\<And>r s'. evolves H A s0 s' \<Longrightarrow> touched out s s' \<Longrightarrow> (r = Inr () \<longrightarrow> os_data s' out = os_data s out @ rest) \<Longrightarrow> Q r s'"
  shows "wp (copy_loop rest out) Q s"
  using assms
proof (induction "length rest" arbitrary: rest s rule: less_induct)
  case less
  show ?case
  proof (cases "rest = []")
    case True
    show ?thesis
      unfolding copy_loop.simps [of rest out] if_P [OF True]
      by (rule wp_seek [OF less.prems(1)]) (use True in \<open>auto intro!: less.prems(4) same_touched simp: same_def\<close>)
  next
    case False
    show ?thesis
      unfolding copy_loop.simps [of rest out] if_not_P [OF False] wp_and_do
    proof (rule wp_seek [OF less.prems(1)], goal_cases)
      case (1 r s1)
      note s1 = 1
      have t1: "temp_at s0 s1 out t" using less.prems(3) by (simp add: temp_at_same [OF 1(2)])
      have "wp (io (write_all out (take COPY_BUF rest))) (\<lambda>r s'. case r of Inl e \<Rightarrow> Q (Inl e) s'
          | Inr _ \<Rightarrow> wp (copy_loop (drop COPY_BUF rest) out) Q s') s1"
        unfolding wp_io
      proof (rule wp_write_all [OF 1(1) less.prems(2) temp_at_writable [OF t1]], goal_cases)
        case (1 r s2)
        have tt: "touched out s s2" by (rule touched_trans [OF same_touched [OF s1(2)] 1(2)])
        show ?case
        proof (cases r)
          case (Inl e)
          then show ?thesis using less.prems(4) [OF 1(1) tt] by simp
        next
          case (Inr u)
          then have d: "os_data s2 out = os_data s out @ take COPY_BUF rest" using 1(4) s1(2) by (simp add: same_def)
          have "wp (copy_loop (drop COPY_BUF rest) out) Q s2"
          proof (rule less.hyps [OF _ 1(1) less.prems(2)])
            show "length (drop COPY_BUF rest) < length rest" using False by (simp add: COPY_BUF_def)
            show "temp_at s0 s2 out t" using t1 by (simp add: temp_at_touched [OF 1(2)])
          qed (use d in \<open>auto intro!: less.prems(4) touched_trans [OF tt]\<close>)
          then show ?thesis using Inr by simp
        qed
      qed
      then show ?case using 1 by (cases r) (auto intro!: less.prems(4) same_touched)
    qed
  qed
qed

lemma wp_stream_copy:
  assumes ev: "evolves H A s0 s" and inv0: "os_inv H s0" and t: "temp_at s0 s out t" and io: "inp \<noteq> out"
    and Q: "\<And>r s'. evolves H A s0 s' \<Longrightarrow> touched out s s' \<Longrightarrow> (r = Inr () \<longrightarrow> os_data s' out = os_data s inp) \<Longrightarrow> Q r s'"
  shows "wp (stream_copy inp out) Q s"
  unfolding stream_copy_def wp_and_do
proof (rule wp_seek [OF ev], goal_cases)
  case (1 r s1)
  note s1 = 1(1,2)
  show ?case
  proof (cases r)
    case (Inr u)
    show ?thesis
      unfolding Inr sum.case
    proof (rule wp_seek [OF s1(1)], goal_cases)
      case (1 r s2)
      have s2: "same s s2" by (rule same_trans [OF s1(2) 1(2)])
      have t2: "temp_at s0 s2 out t" using t by (simp add: temp_at_same [OF s2])
      note ev2 = 1(1)
      show ?case
      proof (cases r)
        case (Inr u)
        show ?thesis
          unfolding Inr sum.case wp_io
        proof (rule wp_set_len [OF ev2 inv0 temp_at_writable [OF t2]], goal_cases)
          case (1 p)
          then show ?case using t2 by (auto simp: temp_at_def)
        next
          case (2 r s3)
          have tt: "touched out s s3" by (rule touched_trans [OF same_touched [OF s2] 2(2)])
          have src: "os_data s3 inp = os_data s inp" using tt io by (simp add: touched_def)
          have t3: "temp_at s0 s3 out t" using t2 by (simp add: temp_at_touched [OF 2(2)])
          have "wp (copy_loop (os_data s inp) out) Q s3" if "os_data s3 out = []"
            by (rule wp_copy_loop [OF 2(1) inv0 t3]) (use that in \<open>auto intro!: Q touched_trans [OF tt]\<close>)
          then show ?case using 2 tt src by (cases r) (auto simp: wp_gets intro!: Q)
        qed
      qed (use ev2 s2 Q in \<open>simp add: same_touched\<close>)
    qed
  qed (use s1 Q in \<open>simp add: same_touched\<close>)
qed

text \<open>The last steps every temporary file takes: sync, then promotion to a name it fits.\<close>

lemma wp_sync_promote:
  assumes ev: "evolves H A s0 s" and inv0: "os_inv H s0" and t: "temp_at s0 s i (d @ [tmp])" "tmp \<noteq> leaf"
    and dst: "nameable H s i (d @ [leaf])"
    and Q: "\<And>r s'. evolves H A s0 s' \<Longrightarrow> (is_ok r \<longrightarrow> (\<exists>j. node_at s' (d @ [leaf]) = Some (Reg j))) \<Longrightarrow> Q r s'"
  shows "wp (and_do (when_do b (io fsync)) (\<lambda>_. and_do (promote_temp_noreplace d tmp leaf sync) (\<lambda>_. ret x))) Q s"
  unfolding wp_and_do
proof (rule wp_when_fsync [OF ev], goal_cases)
  case (1 r s1)
  have t1: "temp_at s0 s1 i (d @ [tmp])" "nameable H s1 i (d @ [leaf])"
    using t(1) dst by (simp_all add: temp_at_same [OF 1(2)] nameable_same [OF 1(2)])
  have "wp (promote_temp_noreplace d tmp leaf sync) (\<lambda>r s'. case r of Inl e \<Rightarrow> Q (Inl e) s' | Inr _ \<Rightarrow> wp (ret x) Q s') s1"
    by (rule wp_promote_temp_noreplace [OF 1(1) inv0 t1(1) t(2) t1(2)]) (auto simp: wp_ret intro!: Q split: sum.splits)
  then show ?case using 1 by (cases r) (auto intro!: Q)
qed

lemma wp_stat_file:
  assumes "evolves H A s0 s"
    and "\<And>r s'. evolves H A s0 s' \<Longrightarrow> same s s' \<Longrightarrow> (r = Inr () \<longrightarrow> (\<exists>j. node_at s' (d @ [leaf]) = Some (Reg j))) \<Longrightarrow> Q r s'"
  shows "wp (and_do (io (statat d leaf)) (\<lambda>st. if st_is_file st then ret () else fail x)) Q s"
  unfolding wp_and_do wp_io
proof (rule wp_statat [OF assms(1)], goal_cases)
  case (1 r s1)
  show ?case
  proof (cases r)
    case (Inl e)
    then show ?thesis using assms(2) [OF 1(1,2)] by simp
  next
    case (Inr st)
    then obtain n where "node_at s1 (d @ [leaf]) = Some n" "st = stat_of s n" using 1(2,3) by (auto simp: same_def)
    then show ?thesis using Inr assms(2) [OF 1(1,2)] by (auto simp: wp_ret wp_fail stat_is_file)
  qed
qed

lemma wp_sync_ret:
  assumes "evolves H A s0 s" "node_at s q = Some (Reg i)"
    and "\<And>r s'. evolves H A s0 s' \<Longrightarrow> (is_ok r \<longrightarrow> (\<exists>j. node_at s' q = Some (Reg j))) \<Longrightarrow> Q r s'"
  shows "wp (and_do (when_do b (io fsync)) (\<lambda>_. ret x)) Q s"
  unfolding wp_and_do
  by (rule wp_when_fsync [OF assms(1)])
    (use assms(2) in \<open>auto simp: wp_ret same_def intro!: assms(3) split: sum.splits\<close>)

text \<open>A blob that may be copied to another repository: its contents have the digest of both names.\<close>

definition copyable :: "'a hash_api_scheme \<Rightarrow> os \<Rightarrow> nat \<Rightarrow> path \<Rightarrow> bool" where
  "copyable H s i q \<longleftrightarrow> i < os_next s \<and> lower_hex (last q)
     \<and> (\<forall>d. cas_digest q = Some d \<longrightarrow> digest_of H (os_data s i) (algorithm d) = d)"

lemma copyable_nameable:
  "copyable H s i q \<Longrightarrow> j < os_next s' \<Longrightarrow> os_data s' j = os_data s i \<Longrightarrow> nameable H s' j q"
  by (auto simp: copyable_def nameable_def)

lemma copyable_same: "same s s' \<Longrightarrow> copyable H s' i q = copyable H s i q"
  by (simp add: copyable_def same_def)

lemma wp_promote_copy:
  assumes ev: "evolves H A s0 s" and inv0: "os_inv H s0" and src: "copyable H s src (d @ [leaf])"
    and Q: "\<And>r s'. evolves H A s0 s' \<Longrightarrow> (is_ok r \<longrightarrow> (\<exists>j. node_at s' (d @ [leaf]) = Some (Reg j))) \<Longrightarrow> Q r s'"
  shows "wp (promote_copy src d (tmp_name x rnd) leaf sync) Q s"
  unfolding promote_copy_def wp_and_do [where m = "io (openat _ _ _)"] wp_io
proof (rule wp_create_excl [OF ev inv0], goal_cases)
  case (3 r s1)
  show ?case
  proof (cases r)
    case (Inr f)
    then obtain i where i: "f = File_Fd i" "temp_at s0 s1 i (d @ [tmp_name x rnd])" "os_next s \<le> i"
        "os_data s1 src = os_data s src" "src \<noteq> i"
      using 3(2) src by (auto simp: copyable_def)
    have r: "map_err io_of_errno r = Inr (File_Fd i)" using Inr i by simp
    show ?thesis
      unfolding r sum.case wp_and_do [where m = "stream_copy _ _"] file_of_def fd.case
    proof (rule wp_stream_copy [OF 3(1) inv0 i(2,5)], goal_cases)
      case (1 r s2)
      have t2: "temp_at s0 s2 i (d @ [tmp_name x rnd])" using i(2) by (simp add: temp_at_touched [OF 1(2)])
      show ?case
      proof (cases r)
        case (Inr u)
        have "nameable H s2 i (d @ [leaf])"
          using copyable_nameable [OF src, of i s2] t2 1(3) Inr i(4) by (simp add: temp_at_def)
        moreover have "tmp_name x rnd \<noteq> leaf" using tmp_name_no_hex src by (simp add: copyable_def)
        ultimately show ?thesis unfolding Inr sum.case by (intro wp_sync_promote [OF 1(1) inv0 t2] Q)
      qed (use 1(1) Q in simp)
    qed
  qed (use 3(1) Q in simp)
qed simp_all

lemma wp_promote_link:
  assumes ev: "evolves H A s0 s" and inv0: "os_inv H s0" and src: "copyable H s src (d @ [leaf])"
    and cas: "node_at s (e @ [leaf]) = Some (Reg src)" "cas_digest (e @ [leaf]) = Some y" "cas_digest (d @ [leaf]) = Some y"
    and Q: "\<And>r s'. evolves H A s0 s' \<Longrightarrow> (is_ok r \<longrightarrow> (\<exists>j. node_at s' (d @ [leaf]) = Some (Reg j))) \<Longrightarrow> Q r s'"
  shows "wp (promote_link src e d (tmp_name x rnd) leaf allow_copy sync) Q s"
  unfolding promote_link_def try_hardlink_at_def wp_observe wp_io
proof (rule wp_linkat [OF ev cas], goal_cases)
  case (1 r s1)
  show ?case
  proof (cases r)
    case (Inr u)
    then have n: "node_at s1 (d @ [leaf]) = Some (Reg src)" using 1(2) by simp
    show ?thesis unfolding Inr map_err_simps sum.case by (rule wp_sync_ret [OF 1(1) n]) (rule Q)
  next
    case (Inl e')
    then have same1: "same s s1" using 1(2) by simp
    have src1: "copyable H s1 src (d @ [leaf])" using src by (simp add: copyable_same [OF same1])
    have copy: "wp (promote_copy src d (tmp_name x rnd) leaf sync) Q s1"
      by (rule wp_promote_copy [OF 1(1) inv0 src1 Q])
    have "wp (statat d leaf) (\<lambda>st. wp (case st of
        Inr st \<Rightarrow> if st_is_file st then and_do (when_do sync (io fsync)) (\<lambda>_. ret Existing)
                  else fail (not_regular ''mount destination'')
      | Inl e \<Rightarrow> fail (io_of_errno e)) Q) s1"
    proof (rule wp_statat [OF 1(1)], goal_cases)
      case (1 st s2)
      show ?case
      proof (cases "\<exists>x. st = Inr x \<and> st_is_file x")
        case True
        then obtain j where "node_at s2 (d @ [leaf]) = Some (Reg j)" using 1(2,3) by (auto simp: same_def stat_is_file)
        then have "wp (and_do (when_do sync (io fsync)) (\<lambda>_. ret Existing)) Q s2" by (rule wp_sync_ret [OF 1(1)]) (rule Q)
        then show ?thesis using True by auto
      next
        case False
        then show ?thesis using 1(1) by (cases st) (auto simp: wp_fail intro!: Q)
      qed
    qed
    then show ?thesis using Inl copy 1(1) by (auto simp: wp_observe wp_fail intro!: Q)
  qed
qed

lemma wp_promote_new:
  assumes ev: "evolves H A s0 s" and inv0: "os_inv H s0" and src: "copyable H s src (d @ [leaf])"
    and cas: "node_at s (e @ [leaf]) = Some (Reg src)" "cas_digest (e @ [leaf]) = Some y" "cas_digest (d @ [leaf]) = Some y"
    and Q: "\<And>r s'. evolves H A s0 s' \<Longrightarrow> (is_ok r \<longrightarrow> (\<exists>j. node_at s' (d @ [leaf]) = Some (Reg j))) \<Longrightarrow> Q r s'"
  shows "wp (promote_new src e d leaf allow_copy sync) Q s"
  unfolding promote_new_def wp_and_do [where m = "getrandom_hex _"]
proof (rule wp_getrandom_hex [OF ev], goal_cases)
  case (1 r s1)
  note s1 = 1(1,2)
  show ?case
  proof (cases r)
    case (Inr rnd)
    let ?tmp = "tmp_name leaf rnd"
    show ?thesis
      unfolding Inr sum.case wp_and_do [where m = "io (openat _ _ _)"] wp_io
    proof (rule wp_create_excl [OF s1(1) inv0], goal_cases)
      case (3 r s2)
      show ?case
      proof (cases r)
        case (Inr f)
        then obtain i where f: "f = File_Fd i" "temp_at s0 s2 i (d @ [?tmp])" "os_next s1 \<le> i"
            "\<forall>p. p \<noteq> d @ [?tmp] \<longrightarrow> node_at s2 p = node_at s1 p" "\<forall>j. j < os_next s1 \<longrightarrow> os_data s2 j = os_data s1 j"
          using 3(2) by auto
        have lt: "src < os_next s1" "os_next s1 = os_next s" "os_data s1 = os_data s"
          using src s1(2) by (simp_all add: copyable_def same_def)
        have "src \<noteq> i" "os_data s2 src = os_data s src" "os_next s \<le> os_next s2"
          using f(2,3,5) lt by (auto simp: temp_at_def)
        note i = f(1-3) this(1) f(4) this(2,3)
        have r: "map_err io_of_errno r = Inr (File_Fd i)" using Inr i by simp
        have noneq: "?tmp \<noteq> leaf" using tmp_name_no_hex src by (simp add: copyable_def)
        have cas2: "node_at s2 (e @ [leaf]) = Some (Reg src)" using cas(1) i(5) s1(2) noneq by (auto simp: same_def)
        show ?thesis
          unfolding r sum.case wp_observe file_of_def fd.case
        proof (rule wp_ficlone [OF 3(1) inv0 i(2)], goal_cases)
          case (1 r s3)
          have t3: "temp_at s0 s3 i (d @ [?tmp])" using i(2) by (simp add: temp_at_touched [OF 1(2)])
          show ?case
          proof (cases "is_ok r")
            case True
            then have "os_data s3 i = os_data s src" using 1(4) i(6) by (cases r) auto
            then have "nameable H s3 i (d @ [leaf])"
              using copyable_nameable [OF src, of i s3] t3 by (simp add: temp_at_def)
            then show ?thesis unfolding if_P [OF True] using noneq by (intro wp_sync_promote [OF 1(1) inv0 t3] Q)
          next
            case False
            show ?thesis
              unfolding if_not_P [OF False] wp_and_do wp_ignore
            proof (rule wp_unlinkat [OF 1(1) inv0 temp_at_removable [OF t3]], goal_cases)
              case (1 r s4)
              have dat: "os_data s4 src = os_data s src" "os_next s \<le> os_next s4"
                using 1(2,3) \<open>touched i s2 s3\<close> i(4,6,7) by (simp_all add: touched_def)
              then have src4: "copyable H s4 src (d @ [leaf])" using src by (simp add: copyable_def)
              have "node_at s4 (e @ [leaf]) = Some (Reg src)"
                using cas2 1(4) noneq \<open>touched i s2 s3\<close> by (simp add: touched_def)
              then show ?case unfolding sum.case by (rule wp_promote_link [OF 1(1) inv0 src4 _ cas(2,3) Q])
            qed
          qed
        qed
      qed (use 3(1) Q in simp)
    qed simp_all
  qed (use s1 Q in simp)
qed

lemma wp_mount_promote_beneath:
  assumes ev: "evolves H A s0 s" and inv0: "os_inv H s0"
    and cas: "cas_digest (e @ [leaf]) = Some y" "cas_digest (d @ [leaf]) = Some y"
    and Q: "\<And>r s'. evolves H A s0 s' \<Longrightarrow> (is_ok r \<longrightarrow> (\<exists>j. node_at s' (d @ [leaf]) = Some (Reg j))) \<Longrightarrow> Q r s'"
  shows "wp (mount_promote_beneath e d leaf allow_copy sync) Q s"
  unfolding mount_promote_beneath_def wp_and_do [where m = "dir_beneath e _"]
proof (rule wp_dir_beneath [OF ev], goal_cases)
  case (1 r s1)
  note s1 = 1
  show ?case
  proof (cases r)
    case (Inr p)
    then have r: "r = Inr e" using 1(3) by simp
    show ?thesis
      unfolding r sum.case wp_and_do [where m = "dir_beneath d _"]
    proof (rule wp_dir_beneath [OF s1(1)], goal_cases)
      case (1 r s2)
      note s2 = 1
      show ?case
      proof (cases r)
        case (Inr p)
        then have r: "r = Inr d" using 1(3) by simp
        show ?thesis
          unfolding r sum.case wp_and_do wp_io
        proof (rule wp_openat [OF s2(1)], goal_cases)
          case (2 r s3)
          note s3 = 2
          show ?case
          proof (cases r)
            case (Inr f)
            show ?thesis
              unfolding Inr map_err_simps sum.case
            proof (rule wp_fstat [OF s3(1)], goal_cases)
              case (1 r s4)
              note s4 = 1
              show ?case
              proof (cases "\<exists>st. r = Inr st \<and> st_is_file st")
                case False
                then show ?thesis using 1(1) Q by (cases r) (auto simp: wp_fail)
              next
                case True
                then obtain st where st: "r = Inr st" "st_is_file st" by blast
                then have "\<exists>i. f = File_Fd i" using 1(3) by (cases f) (simp_all add: stat_of_def)
                then obtain i where f: "f = File_Fd i" by blast
                have src: "node_at s4 (e @ [leaf]) = Some (Reg i)"
                  using s3(2,3) s4(2) Inr f by (auto simp: opened_def same_def)
                have "wp (observe (statat d leaf) (\<lambda>dst. case dst of
                     Inr st \<Rightarrow> if st_is_file st then ret Existing else fail (not_regular ''mount destination'')
                   | Inl e' \<Rightarrow> if e' \<noteq> ENOENT then fail (io_of_errno e')
                              else promote_new i e d leaf allow_copy sync)) Q s4"
                  unfolding wp_observe
                proof (rule wp_statat [OF s4(1)], goal_cases)
                  case (1 dst s5)
                  have src5: "node_at s5 (e @ [leaf]) = Some (Reg i)" using src 1(2) by (simp add: same_def)
                  have "lower_hex leaf"
                    using cas(1) cas_digest_no_hex [of leaf e] by fastforce
                  then have "copyable H s5 i (d @ [leaf])"
                    using inv_cas [OF evolves_inv [OF 1(1)] src5 cas(1)] inv_bound [OF evolves_inv [OF 1(1)] src5] cas(2)
                    by (simp add: copyable_def)
                  then have new: "wp (promote_new i e d leaf allow_copy sync) Q s5"
                    by (rule wp_promote_new [OF 1(1) inv0 _ src5 cas Q])
                  show ?case
                  proof (cases dst)
                    case (Inl e')
                    then show ?thesis using 1(1) new by (auto simp: wp_fail intro!: Q)
                  next
                    case (Inr st)
                    then obtain n where "node_at s5 (d @ [leaf]) = Some n" "st = stat_of s4 n" using 1(2,3) by (auto simp: same_def)
                    then show ?thesis using Inr 1(1) by (auto simp: wp_ret wp_fail stat_is_file intro!: Q)
                  qed
                qed
                then show ?thesis unfolding st(1) f file_of_def fd.case by (simp add: st(2))
              qed
            qed
          qed (use s3 Q in simp)
        qed simp
      qed (use s2 Q in simp)
    qed
  qed (use s1 Q in simp)
qed

lemma and_do_ret: "and_do m ret = m"
  by (auto simp: fun_eq_iff and_do_def observe_def ret_def fail_def split: prod.splits sum.splits)

lemma wp_publish_bytes_rename:
  assumes ev: "evolves H A s0 s" and inv0: "os_inv H s0" and leaf: "lower_hex leaf"
    and cas: "\<And>x. cas_digest (d @ [leaf]) = Some x \<Longrightarrow> digest_of H data (algorithm x) = x"
    and Q: "\<And>r s'. evolves H A s0 s' \<Longrightarrow> (is_ok r \<longrightarrow> (\<exists>j. node_at s' (d @ [leaf]) = Some (Reg j))) \<Longrightarrow> Q r s'"
  shows "wp (publish_bytes_rename d leaf data sync) Q s"
  unfolding publish_bytes_rename_def wp_and_do [where m = "dir_beneath _ _"]
proof (rule wp_dir_beneath [OF ev], goal_cases)
  case (1 r s1)
  note s1 = 1
  show ?case
  proof (cases r)
    case (Inr p)
    then have r: "r = Inr d" using 1(3) by simp
    show ?thesis
      unfolding r sum.case wp_and_do [where m = "getrandom_hex _"]
    proof (rule wp_getrandom_hex [OF s1(1)], goal_cases)
      case (1 r s2)
      note s2 = 1
      show ?case
      proof (cases r)
        case (Inr rnd)
        show ?thesis
          unfolding Inr sum.case wp_and_do [where m = "io (openat _ _ _)"] wp_io
        proof (rule wp_create_excl [OF s2(1) inv0], goal_cases)
          case (3 r s3)
          show ?case
          proof (cases r)
            case (Inr f)
            then obtain i where i: "f = File_Fd i" "temp_at s0 s3 i (d @ [tmp_name leaf rnd])" "os_data s3 i = []"
              using 3(2) by auto
            have r: "map_err io_of_errno r = Inr (File_Fd i)" using Inr i by simp
            show ?thesis
              unfolding r sum.case wp_and_do [where m = "io (write_all _ _)"] wp_io file_of_def fd.case
            proof (rule wp_write_all [OF 3(1) inv0 temp_at_writable [OF i(2)]], goal_cases)
              case (1 r s4)
              have t: "temp_at s0 s4 i (d @ [tmp_name leaf rnd])" using i(2) by (simp add: temp_at_touched [OF 1(2)])
              show ?case
              proof (cases r)
                case (Inr u)
                have "nameable H s4 i (d @ [leaf])"
                  using t 1(4) Inr i(3) cas leaf by (auto simp: nameable_def temp_at_def)
                then have "wp (and_do (when_do sync (io fsync)) (\<lambda>_. and_do (promote_temp_noreplace d (tmp_name leaf rnd) leaf sync)
                    (\<lambda>_. ret ()))) Q s4"
                  using tmp_name_no_hex [OF leaf] by (intro wp_sync_promote [OF 1(1) inv0 t] Q)
                then show ?thesis using Inr by (simp add: and_do_ret)
              qed (use 1(1) Q in simp)
            qed
          qed (use 3(1) Q in simp)
        qed simp_all
      qed (use s2 Q in simp)
    qed
  qed (use s1 Q in simp)
qed

lemma wp_publish_bytes:
  assumes ev: "evolves H A s0 s" and inv0: "os_inv H s0" and leaf: "lower_hex leaf"
    and cas: "\<And>x. cas_digest (d @ [leaf]) = Some x \<Longrightarrow> digest_of H data (algorithm x) = x"
    and Q: "\<And>r s'. evolves H A s0 s' \<Longrightarrow> (is_ok r \<longrightarrow> (\<exists>j. node_at s' (d @ [leaf]) = Some (Reg j))) \<Longrightarrow> Q r s'"
  shows "wp (publish_bytes d leaf data sync) Q s"
  unfolding publish_bytes_def wp_and_do [where m = "dir_beneath _ _"]
proof (rule wp_dir_beneath [OF ev], goal_cases)
  case (1 r s1)
  note s1 = 1
  show ?case
  proof (cases r)
    case (Inr p)
    then have r: "r = Inr d" using 1(3) by simp
    show ?thesis
      unfolding r sum.case wp_observe [where m = "open_tmpfile _"]
    proof (rule wp_open_tmpfile [OF s1(1) inv0], goal_cases)
      case (1 r s2)
      show ?case
      proof (cases r)
        case (Inl e)
        show ?thesis unfolding Inl sum.case by (rule wp_publish_bytes_rename [OF 1(1) inv0 leaf cas Q])
      next
        case (Inr i)
        then have i: "anonymous s0 s2 i" "os_data s2 i = []" using 1(2) by auto
        show ?thesis
          unfolding Inr sum.case wp_and_do [where m = "io (write_all _ _)"] wp_io
        proof (rule wp_write_all [OF 1(1) inv0 anonymous_writable [OF i(1)]], goal_cases)
          case (1 r s3)
          note s3 = 1
          show ?case
          proof (cases r)
            case (Inr u)
            then have d3: "os_data s3 i = data" "anonymous s0 s3 i"
              using s3(4) i by (simp_all add: anonymous_touched [OF s3(2)])
            show ?thesis
              unfolding Inr map_err_simps sum.case wp_and_do [where m = "when_do _ _"]
            proof (rule wp_when_fsync [OF s3(1)], goal_cases)
              case (1 r s4)
              note s4 = 1
              have a4: "anonymous s0 s4 i" "nameable H s4 i (d @ [leaf])"
                using d3 s4(2) cas leaf by (auto simp: anonymous_def nameable_def same_def)
              have fin: "wp (when_do sync (io fsync)) Q t" if "evolves H A s0 t" "\<exists>j. node_at t (d @ [leaf]) = Some (Reg j)" for t
                by (rule wp_when_fsync [OF that(1)]) (use that(2) in \<open>auto simp: same_def intro!: Q\<close>)
              show ?case
              proof (cases r)
                case (Inr u)
                show ?thesis
                  unfolding Inr sum.case wp_and_do [where f = "\<lambda>_. when_do sync (io fsync)"] wp_observe
                proof (rule wp_link_fd [OF s4(1) a4], goal_cases)
                  case (1 r s5)
                  have "wp (and_do (io (statat d leaf)) (\<lambda>st. if st_is_file st then ret ()
                      else fail (not_regular ''CAS destination''))) (\<lambda>r s'. case r of Inl x \<Rightarrow> Q (Inl x) s'
                      | Inr _ \<Rightarrow> wp (when_do sync (io fsync)) Q s') s5"
                    by (rule wp_stat_file [OF 1(1)]) (auto intro!: Q fin split: sum.splits)
                  then show ?case using 1 by (cases r) (auto simp: wp_ret wp_fail intro!: Q fin)
                qed
              qed (use s4 Q in simp)
            qed
          qed (use s3 Q in simp)
        qed
      qed
    qed
  qed (use s1 Q in simp)
qed

end
