(* ===== verification/Upload_Body.thy ===== *)
theory Upload_Body
  imports Beneath Storage_Api
begin

text \<open>
  Streamed upload bodies (\<open>roci-storage/src/upload_body.rs\<close>): a body is written to its staging file in
  large batches and hashed on the way; a failed append cuts the file back to its old length. The
  \<open>sha2\<close> state is the bytes fed to it. Lengths are natural numbers: a file system bounds them far
  below \<open>u64::MAX\<close>. The pool of write buffers is not modelled.
\<close>

definition WRITE_BATCH :: nat where
  "WRITE_BATCH = 2 ^ 20"

definition upload_body :: "bytes \<Rightarrow> byte_stream" where
  "upload_body data = [Inr data]"

record staged_hash =
  sh_sha :: bytes
  sh_crc :: u32
  sh_len :: nat

definition staged_hash_new :: staged_hash where
  "staged_hash_new = \<lparr>sh_sha = [], sh_crc = 0, sh_len = 0\<rparr>"

definition staged_update :: "'a hash_api_scheme \<Rightarrow> bytes \<Rightarrow> staged_hash \<Rightarrow> staged_hash" where
  "staged_update H buf h = \<lparr>sh_sha = sh_sha h @ buf, sh_crc = crc32c_append H (sh_crc h) buf, sh_len = sh_len h + length buf\<rparr>"

definition staged_finish :: "'a hash_api_scheme \<Rightarrow> staged_hash \<Rightarrow> digest \<times> u32" where
  "staged_finish H h = (finish_sha256 H (sh_sha h), sh_crc h)"

type_synonym 'a sop = "(os, storage_error, 'a) act"

definition write_batch :: "'a hash_api_scheme \<Rightarrow> nat \<Rightarrow> bytes \<Rightarrow> staged_hash option \<Rightarrow> staged_hash option io" where
  "write_batch H file batch hash =
     and_do (io (write_all file batch)) (\<lambda>_. ret (map_option (staged_update H batch) hash))"

section \<open>Appending\<close>

record progress =
  pr_written :: nat
  pr_batch :: bytes
  pr_hash :: "staged_hash option"

text \<open>
  One chunk of the body. The batch is below its limit whenever the loop runs, so every turn takes at
  least one byte.
\<close>

function fill_batches :: "'a hash_api_scheme \<Rightarrow> nat \<Rightarrow> bytes \<Rightarrow> progress \<Rightarrow> progress sop" where
  "fill_batches H file rest p =
     (if rest = [] \<or> WRITE_BATCH \<le> length (pr_batch p) then ret p
      else let n = min (length rest) (WRITE_BATCH - length (pr_batch p));
               batch = pr_batch p @ take n rest
           in if length batch = WRITE_BATCH
              then and_do (err_map Io (write_batch H file batch (pr_hash p))) (\<lambda>hash.
                     fill_batches H file (drop n rest) \<lparr>pr_written = pr_written p + WRITE_BATCH, pr_batch = [], pr_hash = hash\<rparr>)
              else fill_batches H file (drop n rest) (p\<lparr>pr_batch := batch\<rparr>))"
  by pat_completeness auto
termination by (relation "measure (\<lambda>(_, _, rest, _). length rest)") auto

declare fill_batches.simps [simp del]

fun append_loop :: "'a hash_api_scheme \<Rightarrow> nat \<Rightarrow> u64 \<Rightarrow> bool \<Rightarrow> byte_stream \<Rightarrow> progress \<Rightarrow> progress sop" where
  "append_loop H file limit defer_tail [] p =
     (if \<not> defer_tail \<and> pr_batch p \<noteq> [] then
        and_do (err_map Io (write_batch H file (pr_batch p) (pr_hash p))) (\<lambda>hash.
          ret \<lparr>pr_written = pr_written p + length (pr_batch p), pr_batch = [], pr_hash = hash\<rparr>)
      else ret p)"
| "append_loop H file limit defer_tail (Inl e # body) p = fail (Io e)"
| "append_loop H file limit defer_tail (Inr chunk # body) p =
     (let received = pr_written p + length (pr_batch p) + length chunk in
      if unat limit < received then fail (TooLarge limit (of_nat received))
      else and_do (fill_batches H file chunk p) (append_loop H file limit defer_tail body))"

record deferred =
  df_len :: nat
  df_hash :: "staged_hash option"
  df_tail :: bytes
  df_tail_at :: nat
  df_file :: nat

definition append_inner :: "'a hash_api_scheme \<Rightarrow> nat \<Rightarrow> nat \<Rightarrow> byte_stream \<Rightarrow> u64 \<Rightarrow> staged_hash option \<Rightarrow> bool
    \<Rightarrow> deferred sop" where
  "append_inner H file start body limit hash defer_tail =
     (let kept = (case hash of Some h \<Rightarrow> if sh_len h = start then Some h else None | None \<Rightarrow> None) in
      observe (append_loop H file limit defer_tail body \<lparr>pr_written = 0, pr_batch = [], pr_hash = kept\<rparr>) (\<lambda>r. case r of
        Inr p \<Rightarrow> ret \<lparr>df_len = start + pr_written p + length (pr_batch p), df_hash = pr_hash p, df_tail = pr_batch p,
                       df_tail_at = start + pr_written p, df_file = file\<rparr>
      | Inl e \<Rightarrow> and_do (err_map Io (io (set_len file start))) (\<lambda>_. fail e)))"

definition append_body :: "'a hash_api_scheme \<Rightarrow> nat \<Rightarrow> nat \<Rightarrow> byte_stream \<Rightarrow> u64 \<Rightarrow> staged_hash option
    \<Rightarrow> (nat \<times> staged_hash option) sop" where
  "append_body H file start body limit hash =
     and_do (append_inner H file start body limit hash False) (\<lambda>d. ret (df_len d, df_hash d))"

definition append_body_deferring_tail :: "'a hash_api_scheme \<Rightarrow> nat \<Rightarrow> nat \<Rightarrow> byte_stream \<Rightarrow> u64 \<Rightarrow> staged_hash option
    \<Rightarrow> deferred sop" where
  "append_body_deferring_tail H file start body limit hash = append_inner H file start body limit hash True"

definition write_tail :: "'a hash_api_scheme \<Rightarrow> deferred \<Rightarrow> staged_hash option io" where
  "write_tail H d =
     (if df_tail d = [] then ret (df_hash d)
      else observe (io (write_all (df_file d) (df_tail d))) (\<lambda>r. case r of
             Inl e \<Rightarrow> and_do (ignore (set_len (df_file d) (df_tail_at d))) (\<lambda>_. fail e)
           | Inr _ \<Rightarrow> ret (map_option (staged_update H (df_tail d)) (df_hash d))))"

section \<open>Rules\<close>

text \<open>A staged hash that has been fed exactly the given bytes.\<close>

definition hash_of :: "'a hash_api_scheme \<Rightarrow> staged_hash \<Rightarrow> bytes \<Rightarrow> bool" where
  "hash_of H h bs \<longleftrightarrow> sh_sha h = bs \<and> sh_len h = length bs \<and> sh_crc h = crc32c H bs"

lemma hash_of_new: "hash_api_ok H \<Longrightarrow> hash_of H staged_hash_new []"
  by (simp add: hash_of_def staged_hash_new_def crc32c_def hash_api_ok_def)

lemma hash_of_update: "hash_api_ok H \<Longrightarrow> hash_of H h bs \<Longrightarrow> hash_of H (staged_update H xs h) (bs @ xs)"
  by (simp add: hash_of_def staged_update_def crc32c_def hash_api_ok_def)

text \<open>
  What an append has done so far: \<open>old\<close> is the file before it, \<open>got\<close> the bytes received.
\<close>

definition staged_so_far :: "'a hash_api_scheme \<Rightarrow> os \<Rightarrow> nat \<Rightarrow> bytes \<Rightarrow> bytes \<Rightarrow> progress \<Rightarrow> bool" where
  "staged_so_far H s file old got p \<longleftrightarrow>
     os_data s file @ pr_batch p = old @ got \<and> length (os_data s file) = length old + pr_written p
     \<and> (\<forall>h. pr_hash p = Some h \<longrightarrow> hash_of H h (os_data s file)) \<and> length (pr_batch p) < WRITE_BATCH"

lemma wp_write_batch:
  assumes ev: "evolves H A s0 s" and inv0: "os_inv H s0" and w: "writable A s0 s file" and H: "hash_api_ok H"
    and hash: "\<And>h. hash = Some h \<Longrightarrow> hash_of H h (os_data s file)"
    and Q: "\<And>r s'. evolves H A s0 s' \<Longrightarrow> touched file s s' \<Longrightarrow> prefix (os_data s file) (os_data s' file) \<Longrightarrow>
        (\<forall>x. r = Inr x \<longrightarrow> os_data s' file = os_data s file @ batch \<and> (\<forall>h. x = Some h \<longrightarrow> hash_of H h (os_data s' file))) \<Longrightarrow> Q r s'"
  shows "wp (write_batch H file batch hash) Q s"
  unfolding write_batch_def wp_and_do wp_io
proof (rule wp_write_all [OF ev inv0 w], goal_cases)
  case (1 r s1)
  show ?case
  proof (cases r)
    case (Inl e)
    then show ?thesis using 1 Q by simp
  next
    case (Inr u)
    then have "os_data s1 file = os_data s file @ batch" using 1(4) by simp
    then show ?thesis
      using Inr 1(1-3) hash hash_of_update [OF H, of _ "os_data s file" batch] by (auto simp: wp_ret intro!: Q)
  qed
qed

lemma wp_fill_batches:
  assumes "evolves H A s0 s" "os_inv H s0" "writable A s0 s file" "hash_api_ok H" "staged_so_far H s file old got p"
    and "\<And>r s'. evolves H A s0 s' \<Longrightarrow> touched file s s' \<Longrightarrow> prefix (os_data s file) (os_data s' file) \<Longrightarrow>
        (\<forall>q. r = Inr q \<longrightarrow> staged_so_far H s' file old (got @ rest) q) \<Longrightarrow> Q r s'"
  shows "wp (fill_batches H file rest p) Q s"
  using assms
proof (induction H "file" rest p arbitrary: s got Q rule: fill_batches.induct)
  case (1 H "file" rest p)
  have lt: "length (pr_batch p) < WRITE_BATCH" using 1(7) by (simp add: staged_so_far_def)
  show ?case
  proof (cases "rest = []")
    case True
    then show ?thesis
      using 1(3,7,8) by (subst fill_batches.simps) (auto simp: wp_ret same_touched)
  next
    case False
    let ?n = "min (length rest) (WRITE_BATCH - length (pr_batch p))"
    let ?batch = "pr_batch p @ take ?n rest"
    have nz: "\<not> (rest = [] \<or> WRITE_BATCH \<le> length (pr_batch p))" using False lt by simp
    have len: "length ?batch \<le> WRITE_BATCH" using lt by auto
    show ?thesis
    proof (cases "length ?batch = WRITE_BATCH")
      case False
      then have so: "staged_so_far H s file old (got @ take ?n rest) (p\<lparr>pr_batch := ?batch\<rparr>)"
        using 1(7) len by (auto simp: staged_so_far_def)
      have "wp (fill_batches H file (drop ?n rest) (p\<lparr>pr_batch := ?batch\<rparr>)) Q s"
        by (rule 1(2) [OF nz refl refl False 1(3-6) so]) (rule 1(8), simp_all)
      then show ?thesis using nz False by (subst fill_batches.simps) (simp add: Let_def)
    next
      case True
      have "wp (write_batch H file ?batch (pr_hash p)) (\<lambda>r s'. case map_err Io r of Inl e \<Rightarrow> Q (Inl e) s'
          | Inr hash \<Rightarrow> wp (fill_batches H file (drop ?n rest)
              \<lparr>pr_written = pr_written p + WRITE_BATCH, pr_batch = [], pr_hash = hash\<rparr>) Q s') s"
      proof (rule wp_write_batch [OF 1(3-6)], goal_cases)
        case (1 h)
        then show ?case using \<open>staged_so_far H s file old got p\<close> by (simp add: staged_so_far_def)
      next
        case (2 r s1)
        show ?case
        proof (cases r)
          case (Inl e)
          then show ?thesis using 2 1(8) by simp
        next
          case (Inr hash)
          have d: "os_data s1 file = os_data s file @ ?batch" using 2(4) Inr by simp
          have so: "staged_so_far H s1 file old (got @ take ?n rest)
              \<lparr>pr_written = pr_written p + WRITE_BATCH, pr_batch = [], pr_hash = hash\<rparr>"
            using 1(7) 2(4) Inr d True by (auto simp: staged_so_far_def WRITE_BATCH_def)
          have w: "writable A s0 s1 file" using 1(5) by (simp add: writable_touched [OF 2(2)])
          have "wp (fill_batches H file (drop ?n rest)
              \<lparr>pr_written = pr_written p + WRITE_BATCH, pr_batch = [], pr_hash = hash\<rparr>) Q s1"
            by (rule 1(1) [OF nz refl refl True 2(1) 1(4) w 1(6) so], rule 1(8))
              (use 2(3) in \<open>auto intro: touched_trans [OF 2(2)] prefix_order.trans\<close>)
          then show ?thesis using Inr by simp
        qed
      qed
      then show ?thesis
        by (subst fill_batches.simps) (simp only: Let_def if_not_P [OF nz] if_P [OF True] wp_and_do wp_err_map)
    qed
  qed
qed

lemma wp_append_loop:
  assumes "evolves H A s0 s" "os_inv H s0" "writable A s0 s file" "hash_api_ok H" "staged_so_far H s file old got p"
    and "\<And>r s'. evolves H A s0 s' \<Longrightarrow> touched file s s' \<Longrightarrow> prefix (os_data s file) (os_data s' file) \<Longrightarrow>
        (\<forall>q. r = Inr q \<longrightarrow> (\<exists>more. stream_bytes body = Some more \<and> staged_so_far H s' file old (got @ more) q
           \<and> (\<not> defer_tail \<longrightarrow> pr_batch q = []))) \<Longrightarrow> Q r s'"
  shows "wp (append_loop H file limit defer_tail body p) Q s"
  using assms
proof (induction H "file" limit defer_tail body p arbitrary: s got Q rule: append_loop.induct)
  case (1 H "file" limit defer_tail p)
  have so: "length (os_data s file) = length old + pr_written p" "os_data s file @ pr_batch p = old @ got"
    "\<And>h. pr_hash p = Some h \<Longrightarrow> hash_of H h (os_data s file)"
    using 1(5) by (auto simp: staged_so_far_def)
  have len: "length got = pr_written p + length (pr_batch p)" using so(1,2) by (metis add_left_cancel add.assoc length_append)
  show ?case
  proof (cases "\<not> defer_tail \<and> pr_batch p \<noteq> []")
    case False
    then show ?thesis using 1(1,5,6) by (auto simp: wp_ret same_touched)
  next
    case True
    have "wp (write_batch H file (pr_batch p) (pr_hash p)) (\<lambda>r s'. case map_err Io r of Inl e \<Rightarrow> Q (Inl e) s'
        | Inr hash \<Rightarrow> wp (ret \<lparr>pr_written = pr_written p + length (pr_batch p), pr_batch = [], pr_hash = hash\<rparr>) Q s') s"
    proof (rule wp_write_batch [OF 1(1-4) so(3)], assumption, goal_cases)
      case (1 r s1)
      then show ?case
        using so(1,2) len by (cases r) (auto simp: wp_ret staged_so_far_def WRITE_BATCH_def intro!: \<open>\<And>r s'. _ \<Longrightarrow> _ \<Longrightarrow> _ \<Longrightarrow> _ \<Longrightarrow> Q r s'\<close>)
    qed
    then show ?thesis unfolding append_loop.simps if_P [OF True] wp_and_do wp_err_map .
  qed
next
  case (2 H "file" limit defer_tail e body p)
  then show ?case by (simp add: wp_fail same_touched)
next
  case (3 H "file" limit defer_tail chunk body p)
  let ?n = "pr_written p + length (pr_batch p) + length chunk"
  show ?case
  proof (cases "unat limit < ?n")
    case True
    then show ?thesis using 3(2,7) by (simp add: Let_def wp_fail same_touched)
  next
    case False
    have "wp (fill_batches H file chunk p) (\<lambda>r s'. case r of Inl e \<Rightarrow> Q (Inl e) s'
        | Inr q \<Rightarrow> wp (append_loop H file limit defer_tail body q) Q s') s"
    proof (rule wp_fill_batches [OF 3(2-6)], goal_cases)
      case (1 r s1)
      show ?case
      proof (cases r)
        case (Inl e)
        then show ?thesis using 1 3(7) by simp
      next
        case (Inr q)
        then have so: "staged_so_far H s1 file old (got @ chunk) q" using 1(4) by simp
        have w: "writable A s0 s1 file" using 3(4) by (simp add: writable_touched [OF 1(2)])
        have "wp (append_loop H file limit defer_tail body q) Q s1"
          by (rule 3(1) [OF refl False 1(1) 3(3) w 3(5) so], rule 3(7))
            (use 1(3) in \<open>auto intro: touched_trans [OF 1(2)] prefix_order.trans\<close>)
        then show ?thesis using Inr by simp
      qed
    qed
    then show ?thesis using False by (simp add: Let_def wp_and_do)
  qed
qed

text \<open>
  An append either hands out everything received, written or in the tail, with a hash of exactly the
  written file; or it fails, and the file still starts with its old contents.
\<close>

lemma wp_append_inner:
  assumes ev: "evolves H A s0 s" and inv0: "os_inv H s0" and w: "writable A s0 s file" and H: "hash_api_ok H"
    and start: "start = length (os_data s file)"
    and ne: "\<And>p. node_at s p = Some (Reg file) \<Longrightarrow> last p = ''index.json'' \<Longrightarrow> start \<noteq> 0"
    and hash: "\<And>h. hash = Some h \<Longrightarrow> sh_len h = start \<Longrightarrow> hash_of H h (os_data s file)"
    and Q: "\<And>r s'. evolves H A s0 s' \<Longrightarrow> touched file s s' \<Longrightarrow> prefix (os_data s file) (os_data s' file) \<Longrightarrow>
        (\<forall>d. r = Inr d \<longrightarrow> (\<exists>more. stream_bytes body = Some more \<and> os_data s' file @ df_tail d = os_data s file @ more
           \<and> df_file d = file \<and> df_tail_at d = length (os_data s' file) \<and> df_len d = df_tail_at d + length (df_tail d)
           \<and> (\<forall>h. df_hash d = Some h \<longrightarrow> hash_of H h (os_data s' file)) \<and> (\<not> defer_tail \<longrightarrow> df_tail d = []))) \<Longrightarrow> Q r s'"
  shows "wp (append_inner H file start body limit hash defer_tail) Q s"
  unfolding append_inner_def Let_def wp_observe
proof (rule wp_append_loop [OF ev inv0 w H, where old = "os_data s file" and got = "[]"], goal_cases)
  case 1
  then show ?case
    using hash start by (auto simp: staged_so_far_def WRITE_BATCH_def split: option.splits if_splits)
next
  case (2 r s1)
  have w1: "writable A s0 s1 file" using w by (simp add: writable_touched [OF 2(2)])
  show ?case
  proof (cases r)
    case (Inr p)
    then obtain more where m: "stream_bytes body = Some more" "staged_so_far H s1 file (os_data s file) more p"
        "\<not> defer_tail \<longrightarrow> pr_batch p = []"
      using 2(4) by auto
    show ?thesis
      unfolding Inr sum.case wp_ret
      by (rule Q [OF 2(1-3)]) (use m start in \<open>auto simp: staged_so_far_def\<close>)
  next
    case (Inl e)
    have "wp (set_len file start) (\<lambda>r s'. case map_err Io (map_err io_of_errno r) of Inl e' \<Rightarrow> Q (Inl e') s' | Inr _ \<Rightarrow> Q (Inl e) s') s1"
    proof (rule wp_set_len [OF 2(1) inv0 w1], goal_cases)
      case (1 p)
      then show ?case using ne 2(2) by (auto simp: touched_def)
    next
      case (2 r s2)
      have tt: "touched file s s2" by (rule touched_trans [OF \<open>touched file s s1\<close> 2(2)])
      have "prefix (os_data s file) (os_data s2 file)"
      proof (cases r)
        case (Inl e')
        then show ?thesis using 2(3) \<open>prefix (os_data s file) (os_data s1 file)\<close> by (simp add: same_def)
      next
        case (Inr u)
        then show ?thesis
          using 2(4) start \<open>prefix (os_data s file) (os_data s1 file)\<close> by (auto simp: prefix_def)
      qed
      then show ?case using 2(1) tt by (cases r) (auto intro!: Q)
    qed
    then show ?thesis unfolding Inl sum.case wp_and_do wp_err_map wp_io wp_fail .
  qed
qed

lemma wp_write_tail:
  assumes ev: "evolves H A s0 s" and inv0: "os_inv H s0" and w: "writable A s0 s (df_file d)" and H: "hash_api_ok H"
    and at: "df_tail_at d = length (os_data s (df_file d))"
    and ne: "\<And>p. node_at s p = Some (Reg (df_file d)) \<Longrightarrow> last p = ''index.json'' \<Longrightarrow> df_tail_at d \<noteq> 0"
    and hash: "\<And>h. df_hash d = Some h \<Longrightarrow> hash_of H h (os_data s (df_file d))"
    and Q: "\<And>r s'. evolves H A s0 s' \<Longrightarrow> touched (df_file d) s s' \<Longrightarrow>
        (\<forall>x. r = Inr x \<longrightarrow> os_data s' (df_file d) = os_data s (df_file d) @ df_tail d
           \<and> (x = None \<longleftrightarrow> df_hash d = None) \<and> (\<forall>h. x = Some h \<longrightarrow> hash_of H h (os_data s' (df_file d)))) \<Longrightarrow> Q r s'"
  shows "wp (write_tail H d) Q s"
proof (cases "df_tail d = []")
  case True
  then show ?thesis using ev hash by (auto simp: write_tail_def wp_ret same_touched intro!: Q)
next
  case False
  show ?thesis
    unfolding write_tail_def if_not_P [OF False] wp_observe wp_io
  proof (rule wp_write_all [OF ev inv0 w], goal_cases)
    case (1 r s1)
    have w1: "writable A s0 s1 (df_file d)" using w by (simp add: writable_touched [OF 1(2)])
    show ?case
    proof (cases r)
      case (Inl e)
      have "wp (set_len (df_file d) (df_tail_at d)) (\<lambda>_. Q (Inl (io_of_errno e))) s1"
        by (rule wp_set_len [OF 1(1) inv0 w1])
          (use ne 1(2) in \<open>auto simp: touched_def intro!: Q\<close>)
      then show ?thesis using Inl by (simp add: wp_and_do wp_ignore wp_fail)
    next
      case (Inr u)
      then have "os_data s1 (df_file d) = os_data s (df_file d) @ df_tail d" using 1(4) by simp
      then show ?thesis
        using Inr 1(1,2) hash hash_of_update [OF H, of _ "os_data s (df_file d)" "df_tail d"]
        by (auto simp: wp_ret intro!: Q)
    qed
  qed
qed

end
