(* ===== verification/Meta_Trait.thy ===== *)
theory Meta_Trait
  imports Meta_Wal Lmdb_Refine Io_Monad
begin

text \<open>
  \<open>trait MetadataStore\<close> (\<open>roci-storage/src/metadata/mod.rs\<close>) as the record of operations the storage
  backends call through \<open>dyn MetadataStore\<close>, the contract a backend relies on, and the two engines as
  values of the record. A write that reports an error has either happened or not; everything else is
  said by the view of the store.
\<close>

record 'm meta_api =
  mt_resolve_tag :: "'m \<Rightarrow> string \<Rightarrow> string \<Rightarrow> (string \<times> string) option"
  mt_manifest_media_type :: "'m \<Rightarrow> string \<Rightarrow> string \<Rightarrow> string option"
  mt_tags_page :: "'m \<Rightarrow> string \<Rightarrow> string option \<Rightarrow> nat \<Rightarrow> string page option"
  mt_referrers_page :: "'m \<Rightarrow> string \<Rightarrow> string \<Rightarrow> string option \<Rightarrow> string option \<Rightarrow> nat \<Rightarrow> referrer page option"
  mt_has_referrer :: "'m \<Rightarrow> string \<Rightarrow> string \<Rightarrow> string \<Rightarrow> bool"
  mt_backrefs :: "'m \<Rightarrow> string \<Rightarrow> string \<Rightarrow> string list"
  mt_checksum :: "'m \<Rightarrow> string \<Rightarrow> string \<Rightarrow> blob_checksum option"
  mt_apply :: "meta_op \<Rightarrow> ('m, io_error, unit) act"
  mt_apply_relaxed :: "meta_op \<Rightarrow> ('m, io_error, unit) act"
  mt_repos :: "'m \<Rightarrow> string list"
  mt_manifests :: "'m \<Rightarrow> string \<Rightarrow> string list"
  mt_tags_snapshot :: "'m \<Rightarrow> string \<Rightarrow> (string \<times> string \<times> string) list"
  mt_referrers_snapshot :: "'m \<Rightarrow> string \<Rightarrow> (string \<times> referrer list) list"

section \<open>The contract\<close>

locale metadata_trait =
  fixes M :: "'m meta_api"
    and invar :: "'m \<Rightarrow> bool"
    and view :: "'m \<Rightarrow> meta_view"
    and op_ok :: "meta_op \<Rightarrow> bool"
    and key_ok :: "string \<Rightarrow> bool"
  assumes apply_law: "\<lbrakk>invar m; op_ok op; mt_apply M op m = (r, m')\<rbrakk> \<Longrightarrow>
        invar m' \<and> (view m' = view_apply op (view m) \<or> r \<noteq> Inr () \<and> view m' = view m)"
    and relaxed_law: "\<lbrakk>invar m; op_ok op; mt_apply_relaxed M op m = (r, m')\<rbrakk> \<Longrightarrow>
        invar m' \<and> (view m' = view_apply op (view m) \<or> r \<noteq> Inr () \<and> view m' = view m)"
    and backrefs_law: "\<lbrakk>invar m; key_ok repo; key_ok b\<rbrakk> \<Longrightarrow> set (mt_backrefs M m repo b) = v_backrefs (view m) repo b"
    and media_law: "\<lbrakk>invar m; key_ok repo; key_ok d\<rbrakk> \<Longrightarrow> mt_manifest_media_type M m repo d = v_media (view m) repo d"
    and checksum_law: "\<lbrakk>invar m; key_ok repo; key_ok d\<rbrakk> \<Longrightarrow> mt_checksum M m repo d = v_checksums (view m) repo d"
    and resolve_law: "\<lbrakk>invar m; key_ok repo; key_ok t\<rbrakk> \<Longrightarrow> mt_resolve_tag M m repo t = v_tags (view m) repo t"
begin

text \<open>A write followed by its query.\<close>

lemma put_manifest_recorded:
  assumes "invar m" "op_ok (PutManifest r d mt tag refs ref)" "key_ok r" "key_ok d" "key_ok b"
    and "mt_apply M (PutManifest r d mt tag refs ref) m = (Inr (), m')"
  shows "mt_manifest_media_type M m' r d = Some mt" and "b \<in> set refs \<Longrightarrow> d \<in> set (mt_backrefs M m' r b)"
  using apply_law [OF assms(1,2,6)] assms(3-5)
  by (auto simp: media_law backrefs_law view_apply_put_media view_apply_put_backrefs simp del: view_apply.simps)

end

section \<open>The log engine\<close>

text \<open>The engine with the schedule of the failures its writes meet.\<close>

record log_engine =
  le_store :: log_store
  le_faults :: "(append_fault \<times> io_error option) list"

definition le_fault :: "log_engine \<Rightarrow> append_fault \<times> io_error option" where
  "le_fault m = (case le_faults m of [] \<Rightarrow> (NoFault, None) | f # _ \<Rightarrow> f)"

definition log_meta :: "'a ext_api_scheme \<Rightarrow> log_engine meta_api" where
  "log_meta E = \<lparr>
     mt_resolve_tag = (\<lambda>m. log_resolve_tag (ls_state (le_store m))),
     mt_manifest_media_type = (\<lambda>m. log_manifest_media_type (ls_state (le_store m))),
     mt_tags_page = (\<lambda>m. log_tags_page (ls_state (le_store m))),
     mt_referrers_page = (\<lambda>m. log_referrers_page (ls_state (le_store m))),
     mt_has_referrer = (\<lambda>m. log_has_referrer (ls_state (le_store m))),
     mt_backrefs = (\<lambda>m. log_backrefs (ls_state (le_store m))),
     mt_checksum = (\<lambda>m. log_checksum (ls_state (le_store m))),
     mt_apply = (\<lambda>op m. case log_apply E (fst (le_fault m)) (snd (le_fault m)) op (le_store m) of
        (ls, r) \<Rightarrow> (r, \<lparr>le_store = ls, le_faults = tl (le_faults m)\<rparr>)),
     mt_apply_relaxed = (\<lambda>op m. case log_apply_relaxed E (fst (le_fault m)) op (le_store m) of
        (ls, r) \<Rightarrow> (r, \<lparr>le_store = ls, le_faults = tl (le_faults m)\<rparr>)),
     mt_repos = (\<lambda>m. log_repos (ls_state (le_store m))),
     mt_manifests = (\<lambda>m. log_manifests (ls_state (le_store m))),
     mt_tags_snapshot = (\<lambda>m. log_tags_snapshot (ls_state (le_store m))),
     mt_referrers_snapshot = (\<lambda>m. log_referrers_snapshot (ls_state (le_store m)))\<rparr>"

lemma append_record_state:
  "append_record E fault op ls = (ls', r) \<Longrightarrow>
     ls_state ls' = apply_in_ram E op (ls_state ls) \<or> (\<exists>e. r = Inl e) \<and> ls_state ls' = ls_state ls"
  by (auto simp: append_record_def Let_def split: option.splits append_fault.splits)

lemma group_commit_state: "group_commit_through fault n ls = (ls', r) \<Longrightarrow> ls_state ls' = ls_state ls"
  by (auto simp: group_commit_through_def Let_def split: option.splits if_splits)

lemma log_apply_state:
  "log_apply E fault sync op ls = (ls', r) \<Longrightarrow>
     ls_state ls' = apply_in_ram E op (ls_state ls) \<or> r \<noteq> Inr () \<and> ls_state ls' = ls_state ls"
  by (auto simp: log_apply_def dest!: append_record_state group_commit_state split: prod.splits sum.splits)

lemma log_apply_relaxed_state:
  "log_apply_relaxed E fault op ls = (ls', r) \<Longrightarrow>
     ls_state ls' = apply_in_ram E op (ls_state ls) \<or> r \<noteq> Inr () \<and> ls_state ls' = ls_state ls"
  by (auto simp: log_apply_relaxed_def dest!: append_record_state split: prod.splits sum.splits)

definition log_meta_inv :: "'a ext_api_scheme \<Rightarrow> log_engine \<Rightarrow> bool" where
  "log_meta_inv E m \<longleftrightarrow> state_inv E (ls_state (le_store m))"

definition log_meta_view :: "log_engine \<Rightarrow> meta_view" where
  "log_meta_view m = log_view (ls_state (le_store m))"

interpretation log_trait: metadata_trait "log_meta E" "log_meta_inv E" log_meta_view "\<lambda>_. True" "\<lambda>_. True"
  for E :: "'a ext_api_scheme"
proof
  fix m m' :: log_engine and op r
  assume inv: "log_meta_inv E m"
  show "log_meta_inv E m' \<and> (log_meta_view m' = view_apply op (log_meta_view m) \<or> r \<noteq> Inr () \<and> log_meta_view m' = log_meta_view m)"
    if "mt_apply (log_meta E) op m = (r, m')"
    using that inv
    by (auto simp: log_meta_def log_meta_inv_def log_meta_view_def apply_in_ram_inv log_view_apply
        dest!: log_apply_state split: prod.splits)
  show "log_meta_inv E m' \<and> (log_meta_view m' = view_apply op (log_meta_view m) \<or> r \<noteq> Inr () \<and> log_meta_view m' = log_meta_view m)"
    if "mt_apply_relaxed (log_meta E) op m = (r, m')"
    using that inv
    by (auto simp: log_meta_def log_meta_inv_def log_meta_view_def apply_in_ram_inv log_view_apply
        dest!: log_apply_relaxed_state split: prod.splits)
qed (auto simp: log_meta_def log_meta_inv_def log_meta_view_def log.backrefs_view log.media_type_view log.checksum_view
    log.resolve_tag_view)

section \<open>The LMDB engine\<close>

definition lmdb_meta :: "'a ext_api_scheme \<Rightarrow> ('d, 'm) kv_api \<Rightarrow> ('d, 'm) lmdb meta_api" where
  "lmdb_meta E K = \<lparr>
     mt_resolve_tag = lmdb_resolve_tag K, mt_manifest_media_type = lmdb_manifest_media_type K,
     mt_tags_page = lmdb_tags_page K, mt_referrers_page = lmdb_referrers_page K,
     mt_has_referrer = lmdb_has_referrer K, mt_backrefs = lmdb_backrefs K, mt_checksum = lmdb_checksum K,
     mt_apply = lmdb_apply E K, mt_apply_relaxed = lmdb_apply_relaxed E K,
     mt_repos = lmdb_repos K, mt_manifests = lmdb_manifests K, mt_tags_snapshot = lmdb_tags_snapshot K,
     mt_referrers_snapshot = lmdb_referrers_snapshot K\<rparr>"

lemma lmdb_relaxed_ok:
  assumes "lmdb_invar E K s" "lmdb_op_ok (artifact_type_of E) op"
  shows "lmdb_apply_relaxed E K op s = (Inr (), lmdb_run E K op s)"
  using lmdb_apply_ok(1) [OF assms]
  by (auto simp: lmdb_apply_relaxed_def lmdb_apply_def lmdb_apply_inner_def split: prod.splits sum.splits)

interpretation lmdb_trait: metadata_trait "lmdb_meta E K" "lmdb_invar E K" "lmdb_view K" "lmdb_op_ok (artifact_type_of E)" nul_free
  for E :: "'a ext_api_scheme" and K :: "('d, 'm) kv_api"
proof
  fix m m' :: "('d, 'm) lmdb" and op r
  assume a: "lmdb_invar E K m" "lmdb_op_ok (artifact_type_of E) op"
  show "lmdb_invar E K m' \<and> (lmdb_view K m' = view_apply op (lmdb_view K m) \<or> r \<noteq> Inr () \<and> lmdb_view K m' = lmdb_view K m)"
    if "mt_apply (lmdb_meta E K) op m = (r, m')"
    using that lmdb_apply_ok [OF a] by (simp add: lmdb_meta_def)
  show "lmdb_invar E K m' \<and> (lmdb_view K m' = view_apply op (lmdb_view K m) \<or> r \<noteq> Inr () \<and> lmdb_view K m' = lmdb_view K m)"
    if "mt_apply_relaxed (lmdb_meta E K) op m = (r, m')"
    using that lmdb_apply_ok [OF a] lmdb_relaxed_ok [OF a] by (simp add: lmdb_meta_def)
qed (auto simp: lmdb_meta_def lmdb.backrefs_view lmdb.media_type_view lmdb.checksum_view lmdb.resolve_tag_view)

end
