(* ===== verification/Quota.thy ===== *)
theory Quota
  imports Storage_Error
begin

text \<open>
  Byte quotas and the cap on upload sessions (\<open>roci-storage/src/quota.rs\<close>). Counters are 64-bit and
  saturate. While no counter has saturated, the total is the sum over repositories; an admission never
  takes a counter past its cap, and a refusal leaves every counter as it was.
\<close>

section \<open>The tracker\<close>

record quota_limits =
  max_repo_bytes :: u64
  max_total_bytes :: u64
  max_upload_sessions :: nat

record quota =
  q_limits :: quota_limits
  q_per_repo :: "(string \<times> u64) list"
  q_total :: u64
  q_sessions :: nat

definition quota_new :: "quota_limits \<Rightarrow> quota" where
  "quota_new limits = \<lparr>q_limits = limits, q_per_repo = [], q_total = 0, q_sessions = 0\<rparr>"

definition tracks_bytes :: "quota \<Rightarrow> bool" where
  "tracks_bytes q \<longleftrightarrow> 0 < max_repo_bytes (q_limits q) \<or> 0 < max_total_bytes (q_limits q)"

definition repo_bytes :: "quota \<Rightarrow> string \<Rightarrow> u64" where
  "repo_bytes q repo = (case map_of (q_per_repo q) repo of None \<Rightarrow> 0 | Some n \<Rightarrow> n)"

definition charge :: "string \<Rightarrow> u64 \<Rightarrow> quota \<Rightarrow> quota" where
  "charge repo sz q = q\<lparr>q_total := saturating_add64 (q_total q) sz,
     q_per_repo := AList.update repo (saturating_add64 (repo_bytes q repo) sz) (q_per_repo q)\<rparr>"

definition exceeds :: "u64 \<Rightarrow> u64 \<Rightarrow> u64 \<Rightarrow> bool" where
  "exceeds limit used sz \<longleftrightarrow> 0 < limit \<and> limit < saturating_add64 used sz"

definition admit :: "string \<Rightarrow> u64 \<Rightarrow> quota \<Rightarrow> (storage_error + unit) \<times> quota" where
  "admit repo sz q =
     (if \<not> tracks_bytes q then (Inr (), q)
      else if exceeds (max_repo_bytes (q_limits q)) (repo_bytes q repo) sz
      then (Inl (QuotaExceeded Repository (max_repo_bytes (q_limits q)) sz), q)
      else if exceeds (max_total_bytes (q_limits q)) (q_total q) sz
      then (Inl (QuotaExceeded Total (max_total_bytes (q_limits q)) sz), q)
      else (Inr (), charge repo sz q))"

definition seed :: "string \<Rightarrow> u64 \<Rightarrow> quota \<Rightarrow> quota" where
  "seed repo sz q = (if tracks_bytes q then charge repo sz q else q)"

definition release :: "string \<Rightarrow> u64 \<Rightarrow> quota \<Rightarrow> quota" where
  "release repo sz q =
     (if \<not> tracks_bytes q then q
      else case map_of (q_per_repo q) repo of
             None \<Rightarrow> q
           | Some used \<Rightarrow>
               let actual = min sz used; left = saturating_sub64 used actual in
               q\<lparr>q_per_repo := (if left = 0 then AList.delete repo (q_per_repo q)
                                 else AList.update repo left (q_per_repo q)),
                 q_total := saturating_sub64 (q_total q) actual\<rparr>)"

definition begin_session :: "quota \<Rightarrow> (storage_error + unit) \<times> quota" where
  "begin_session q =
     (let limit = max_upload_sessions (q_limits q) in
      if limit = 0 \<or> q_sessions q < limit then (Inr (), q\<lparr>q_sessions := q_sessions q + 1\<rparr>)
      else (Inl (TooManySessions limit), q))"

definition seed_sessions :: "nat \<Rightarrow> quota \<Rightarrow> quota" where
  "seed_sessions n q = q\<lparr>q_sessions := q_sessions q + n\<rparr>"

definition end_session :: "quota \<Rightarrow> quota" where
  "end_session q = (if q_sessions q = 0 then q else q\<lparr>q_sessions := q_sessions q - 1\<rparr>)"

definition per_repo_bytes :: "quota \<Rightarrow> (string \<times> u64) list" where
  "per_repo_bytes q = q_per_repo q"

section \<open>Histories\<close>

datatype quota_op = Admit string u64 | Release string u64 | Begin_Session | End_Session

fun quota_step :: "quota_op \<Rightarrow> quota \<Rightarrow> quota" where
  "quota_step (Admit repo sz) q = snd (admit repo sz q)"
| "quota_step (Release repo sz) q = release repo sz q"
| "quota_step Begin_Session q = snd (begin_session q)"
| "quota_step End_Session q = end_session q"

definition used_bytes :: "(string \<times> u64) list \<Rightarrow> nat" where
  "used_bytes m = sum_list (map (\<lambda>kv. unat (snd kv)) m)"

definition quota_inv :: "quota \<Rightarrow> bool" where
  "quota_inv q \<longleftrightarrow> distinct (map fst (q_per_repo q))
     \<and> (0 < max_total_bytes (q_limits q) \<longrightarrow> q_total q \<le> max_total_bytes (q_limits q))
     \<and> (0 < max_total_bytes (q_limits q) \<and> max_total_bytes (q_limits q) < - 1 \<longrightarrow>
          unat (q_total q) = used_bytes (q_per_repo q))
     \<and> (0 < max_repo_bytes (q_limits q) \<longrightarrow> (\<forall>r. repo_bytes q r \<le> max_repo_bytes (q_limits q)))
     \<and> (0 < max_upload_sessions (q_limits q) \<longrightarrow> q_sessions q \<le> max_upload_sessions (q_limits q))"

lemma used_bytes_update:
  "distinct (map fst m) \<Longrightarrow> used_bytes (AList.update k v m)
     + (case map_of m k of None \<Rightarrow> 0 | Some w \<Rightarrow> unat w) = used_bytes m + unat v"
  by (induction m) (auto simp: used_bytes_def split: option.splits)

lemma used_bytes_delete:
  "distinct (map fst m) \<Longrightarrow> used_bytes (AList.delete k m)
     + (case map_of m k of None \<Rightarrow> 0 | Some w \<Rightarrow> unat w) = used_bytes m"
proof (induction m)
  case (Cons a m)
  then show ?case by (cases "fst a = k") (auto simp: used_bytes_def dom_map_of_conv_image_fst delete_idem split: option.splits)
qed (simp add: used_bytes_def)

lemma used_bytes_ge: "map_of m k = Some w \<Longrightarrow> unat w \<le> used_bytes m"
  by (induction m) (auto simp: used_bytes_def split: if_splits)

lemma saturating_add64_exact:
  assumes "saturating_add64 a b \<le> limit" and "limit < - 1"
  shows "unat (saturating_add64 a b) = unat a + unat b"
proof -
  have m: "unat (- 1 :: u64) = 2 ^ 64 - 1" by (simp add: unsigned_minus_1_eq_mask mask_eq_exp_minus_1)
  have "unat (saturating_add64 a b) \<le> unat limit" using assms(1) by (simp add: word_le_nat_alt)
  moreover have "unat limit < unat (- 1 :: u64)" using assms(2) by (simp only: word_less_nat_alt)
  ultimately show ?thesis using m by (simp add: unat_saturating_add64)
qed

lemma repo_bytes_charge:
  "repo_bytes (charge repo sz q) r = (if r = repo then saturating_add64 (repo_bytes q repo) sz else repo_bytes q r)"
  by (simp add: charge_def repo_bytes_def update_conv')

lemma charge_limits [simp]: "q_limits (charge repo sz q) = q_limits q" "q_sessions (charge repo sz q) = q_sessions q"
  by (simp_all add: charge_def)

lemma repo_bytes_le_used: "unat (repo_bytes q r) \<le> used_bytes (q_per_repo q)"
  by (cases "map_of (q_per_repo q) r") (auto simp: repo_bytes_def dest: used_bytes_ge)

lemma quota_inv_admit:
  assumes "quota_inv q"
  shows "quota_inv (snd (admit repo sz q))"
proof (cases "snd (admit repo sz q) = q")
  case True
  then show ?thesis using assms by simp
next
  case False
  then have eq: "snd (admit repo sz q) = charge repo sz q"
    and fit: "\<not> exceeds (max_repo_bytes (q_limits q)) (repo_bytes q repo) sz"
      "\<not> exceeds (max_total_bytes (q_limits q)) (q_total q) sz"
    by (auto simp: admit_def split: if_splits)
  have "unat (q_total (charge repo sz q)) = used_bytes (q_per_repo (charge repo sz q))"
    if lim: "0 < max_total_bytes (q_limits q)" "max_total_bytes (q_limits q) < - 1"
  proof -
    have inv: "distinct (map fst (q_per_repo q))" "unat (q_total q) = used_bytes (q_per_repo q)"
      using assms lim by (simp_all add: quota_inv_def)
    have total: "unat (saturating_add64 (q_total q) sz) = unat (q_total q) + unat sz"
      using saturating_add64_exact [OF _ lim(2)] fit(2) lim(1) by (simp add: exceeds_def not_less)
    then have "unat (q_total q) + unat sz < 2 ^ 64" using unat_u64_less [of "saturating_add64 (q_total q) sz"] by simp
    then have repo: "unat (saturating_add64 (repo_bytes q repo) sz) = unat (repo_bytes q repo) + unat sz"
      using repo_bytes_le_used [of q repo] inv(2) by (simp add: unat_saturating_add64)
    have "used_bytes (AList.update repo (saturating_add64 (repo_bytes q repo) sz) (q_per_repo q)) + unat (repo_bytes q repo)
        = used_bytes (q_per_repo q) + unat (saturating_add64 (repo_bytes q repo) sz)"
      using used_bytes_update [OF inv(1), of repo "saturating_add64 (repo_bytes q repo) sz"]
      by (auto simp: repo_bytes_def split: option.splits)
    then show ?thesis using total repo inv(2) by (simp add: charge_def)
  qed
  moreover have "q_total (charge repo sz q) \<le> max_total_bytes (q_limits q)" if "0 < max_total_bytes (q_limits q)"
    using fit(2) that by (simp add: exceeds_def not_less charge_def)
  moreover have "repo_bytes (charge repo sz q) r \<le> max_repo_bytes (q_limits q)" if "0 < max_repo_bytes (q_limits q)" for r
    using fit(1) that assms by (simp add: exceeds_def not_less repo_bytes_charge quota_inv_def)
  moreover have "distinct (map fst (q_per_repo (charge repo sz q)))"
    using assms by (simp add: charge_def quota_inv_def distinct_update)
  ultimately show ?thesis
    using assms unfolding eq quota_inv_def charge_limits by blast
qed

lemma unat_min_u64: "unat (min a b :: u64) = min (unat a) (unat b)"
  by (auto simp: min_def word_le_nat_alt)

lemma repo_bytes_release: "repo_bytes (release repo sz q) r \<le> repo_bytes q r"
proof (cases "map_of (q_per_repo q) repo")
  case (Some used)
  have "saturating_sub64 used (min sz used) \<le> used"
    by (simp add: word_le_nat_alt unat_saturating_sub64)
  then show ?thesis using Some
    by (auto simp: release_def repo_bytes_def Let_def update_conv' delete_conv' split: option.splits)
qed (simp add: release_def)

lemma quota_inv_release:
  assumes "quota_inv q"
  shows "quota_inv (release repo sz q)"
proof (cases "tracks_bytes q \<and> map_of (q_per_repo q) repo \<noteq> None")
  case True
  then obtain used where used: "tracks_bytes q" "map_of (q_per_repo q) repo = Some used" by blast
  let ?act = "min sz used" and ?left = "saturating_sub64 used (min sz used)"
  have inv: "distinct (map fst (q_per_repo q))" using assms by (simp add: quota_inv_def)
  have left: "unat ?left = unat used - unat ?act" by (simp add: unat_saturating_sub64)
  have act: "unat ?act \<le> unat used" by (simp add: unat_min_u64)
  let ?m = "if ?left = 0 then AList.delete repo (q_per_repo q) else AList.update repo ?left (q_per_repo q)"
  have rel: "release repo sz q = q\<lparr>q_per_repo := ?m, q_total := saturating_sub64 (q_total q) ?act\<rparr>"
    using used by (simp add: release_def Let_def)
  have sum: "used_bytes ?m + unat ?act = used_bytes (q_per_repo q)"
  proof (cases "?left = 0")
    case True
    then have "unat used = unat ?act" using left act by simp
    then show ?thesis using True used_bytes_delete [OF inv, of repo] used(2) by simp
  next
    case False
    then show ?thesis using used_bytes_update [OF inv, of repo ?left] used(2) left act used_bytes_ge [OF used(2)] by simp
  qed
  have "distinct (map fst ?m)" using inv by (simp add: distinct_update distinct_delete)
  moreover have "repo_bytes (release repo sz q) r \<le> limit" if "repo_bytes q r \<le> limit" for r limit
    using order_trans [OF repo_bytes_release that] .
  moreover have "saturating_sub64 (q_total q) ?act \<le> limit" if "q_total q \<le> limit" for limit
    by (rule order_trans [OF _ that]) (simp add: word_le_nat_alt unat_saturating_sub64)
  moreover have "unat (saturating_sub64 (q_total q) ?act) = used_bytes ?m" if "unat (q_total q) = used_bytes (q_per_repo q)"
    using sum that by (simp add: unat_saturating_sub64)
  moreover have sel: "q_limits (release repo sz q) = q_limits q" "q_sessions (release repo sz q) = q_sessions q"
      "q_per_repo (release repo sz q) = ?m" "q_total (release repo sz q) = saturating_sub64 (q_total q) ?act"
    by (simp_all add: rel)
  ultimately show ?thesis
    using assms unfolding quota_inv_def sel by blast
qed (use assms in \<open>auto simp: release_def split: option.splits\<close>)

lemma quota_inv_step: "quota_inv q \<Longrightarrow> quota_inv (quota_step op q)"
proof (cases op)
  case Begin_Session
  assume "quota_inv q"
  then show ?thesis by (simp add: Begin_Session quota_inv_def begin_session_def repo_bytes_def Let_def)
next
  case End_Session
  assume "quota_inv q"
  then show ?thesis by (auto simp: End_Session quota_inv_def end_session_def repo_bytes_def)
qed (simp_all add: quota_inv_admit quota_inv_release)

lemma quota_inv_new: "quota_inv (quota_new limits)"
  by (simp add: quota_inv_def quota_new_def used_bytes_def repo_bytes_def)

definition quota_run :: "quota_limits \<Rightarrow> quota_op list \<Rightarrow> quota" where
  "quota_run limits ops = fold quota_step ops (quota_new limits)"

lemma quota_inv_run: "quota_inv q \<Longrightarrow> quota_inv (fold quota_step ops q)"
  by (induction ops arbitrary: q) (auto simp: quota_inv_step)

lemma quota_step_limits [simp]: "q_limits (quota_step op q) = q_limits q"
  by (cases op) (auto simp: admit_def release_def begin_session_def end_session_def Let_def split: option.splits)

lemma quota_run_limits [simp]: "q_limits (fold quota_step ops q) = q_limits q"
  by (induction ops arbitrary: q) auto

text \<open>
  (C39) Quotas hold: whatever admissions, releases and sessions a registry goes through, the registry
  total, every repository and the number of open sessions stay within their configured caps, and
  under a total cap below the maximum the total is exactly the sum over the repositories.
\<close>

theorem quota_caps:
  "(max_total_bytes limits = 0 \<or> q_total (quota_run limits ops) \<le> max_total_bytes limits)
    \<and> (max_repo_bytes limits = 0 \<or> repo_bytes (quota_run limits ops) r \<le> max_repo_bytes limits)
    \<and> (max_upload_sessions limits = 0 \<or> q_sessions (quota_run limits ops) \<le> max_upload_sessions limits)
    \<and> (max_total_bytes limits = 0 \<or> max_total_bytes limits = - 1
       \<or> unat (q_total (quota_run limits ops)) = used_bytes (per_repo_bytes (quota_run limits ops)))"
proof -
  have inv: "quota_inv (quota_run limits ops)" unfolding quota_run_def by (rule quota_inv_run [OF quota_inv_new])
  have lim: "q_limits (quota_run limits ops) = limits" by (simp add: quota_run_def quota_new_def)
  have "max_total_bytes limits < - 1" if "max_total_bytes limits \<noteq> - 1"
    using that by (simp add: word_order.not_eq_extremum)
  then show ?thesis
    using inv unfolding quota_inv_def lim per_repo_bytes_def word_neq_0_conv [symmetric] by blast
qed

end
