(* ===== verification/Blob_Cache.thy ===== *)
theory Blob_Cache
  imports Prelude
begin

text \<open>
  The small-blob content cache (\<open>roci-storage/src/cache.rs\<close>). The \<open>lru\<close> package is a parameter: an
  unbounded map that also orders its keys by last use. The budget covers keys, contents and a fixed
  overhead; the recorded total is exact, never above the budget, and a lookup returns what was last
  put under the key.
\<close>

section \<open>The package\<close>

record 'l lru_api =
  lru_new :: 'l
  lru_get :: "string \<Rightarrow> 'l \<Rightarrow> bytes option \<times> 'l"
  lru_put :: "string \<Rightarrow> bytes \<Rightarrow> 'l \<Rightarrow> 'l"
  lru_pop :: "string \<Rightarrow> 'l \<Rightarrow> bytes option \<times> 'l"
  lru_pop_lru :: "'l \<Rightarrow> (string \<times> bytes) option \<times> 'l"
  lru_items :: "'l \<Rightarrow> (string \<times> bytes) list"

text \<open>
  What the package documents, with \<open>lru_items\<close> its iteration from the most to the least recently used
  entry.
\<close>

definition lru_ok :: "'l lru_api \<Rightarrow> bool" where
  "lru_ok L \<longleftrightarrow> lru_items L (lru_new L) = []
     \<and> (\<forall>c. distinct (map fst (lru_items L c)))
     \<and> (\<forall>k c. fst (lru_get L k c) = map_of (lru_items L c) k
          \<and> lru_items L (snd (lru_get L k c)) =
            (case map_of (lru_items L c) k of None \<Rightarrow> lru_items L c | Some v \<Rightarrow> (k, v) # AList.delete k (lru_items L c)))
     \<and> (\<forall>k v c. lru_items L (lru_put L k v c) = (k, v) # AList.delete k (lru_items L c))
     \<and> (\<forall>k c. fst (lru_pop L k c) = map_of (lru_items L c) k
          \<and> lru_items L (snd (lru_pop L k c)) = AList.delete k (lru_items L c))
     \<and> (\<forall>c. lru_pop_lru L c = (if lru_items L c = [] then (None, c) else (Some (last (lru_items L c)), snd (lru_pop_lru L c))))
     \<and> (\<forall>c. lru_items L (snd (lru_pop_lru L c)) = butlast (lru_items L c))"

section \<open>The cache\<close>

definition DEFAULT_SMALL_BLOB_THRESHOLD :: nat where
  "DEFAULT_SMALL_BLOB_THRESHOLD = 100 * 1024"

definition DEFAULT_CACHE_CAPACITY :: nat where
  "DEFAULT_CACHE_CAPACITY = 256 * 1024 * 1024"

definition ENTRY_OVERHEAD :: nat where
  "ENTRY_OVERHEAD = 128"

definition entry_cost :: "string \<Rightarrow> bytes \<Rightarrow> nat" where
  "entry_cost k data = length k + length data + ENTRY_OVERHEAD"

record 'l blob_cache =
  bc_map :: 'l
  bc_total_bytes :: nat
  bc_threshold :: nat
  bc_capacity :: nat

definition blob_key :: "string \<Rightarrow> string \<Rightarrow> string" where
  "blob_key repo digest = repo @ CHR 0x00 # digest"

definition cache_with_limits :: "'l lru_api \<Rightarrow> nat \<Rightarrow> nat \<Rightarrow> 'l blob_cache" where
  "cache_with_limits L threshold capacity =
     \<lparr>bc_map = lru_new L, bc_total_bytes = 0, bc_threshold = threshold, bc_capacity = capacity\<rparr>"

definition blob_cache_new :: "'l lru_api \<Rightarrow> 'l blob_cache" where
  "blob_cache_new L = cache_with_limits L DEFAULT_SMALL_BLOB_THRESHOLD DEFAULT_CACHE_CAPACITY"

definition blob_cache_get :: "'l lru_api \<Rightarrow> string \<Rightarrow> string \<Rightarrow> 'l blob_cache \<Rightarrow> bytes option \<times> 'l blob_cache" where
  "blob_cache_get L repo digest c =
     (case lru_get L (blob_key repo digest) (bc_map c) of (found, m) \<Rightarrow> (found, c\<lparr>bc_map := m\<rparr>))"

text \<open>
  Subtractions of \<open>usize\<close> panic in a debug build when they underflow and wrap otherwise; the total is
  exact, so they never do. The eviction loop removes an entry per turn: its fuel is the number of
  entries, and an exhausted or empty cache above the budget is the \<open>expect\<close> that panics.
\<close>

definition cache_drop :: "'l lru_api \<Rightarrow> string \<Rightarrow> 'l blob_cache \<Rightarrow> 'l blob_cache" where
  "cache_drop L k c =
     (case lru_pop L k (bc_map c) of
        (None, m) \<Rightarrow> c\<lparr>bc_map := m\<rparr>
      | (Some old, m) \<Rightarrow> c\<lparr>bc_map := m, bc_total_bytes := bc_total_bytes c - entry_cost k old\<rparr>)"

fun cache_evict :: "'l lru_api \<Rightarrow> nat \<Rightarrow> 'l blob_cache \<Rightarrow> 'l blob_cache option" where
  "cache_evict L fuel c =
     (if bc_total_bytes c \<le> bc_capacity c then Some c
      else case fuel of
             0 \<Rightarrow> None
           | Suc n \<Rightarrow>
               (case lru_pop_lru L (bc_map c) of
                  (None, _) \<Rightarrow> None
                | (Some (k, evicted), m) \<Rightarrow>
                    cache_evict L n (c\<lparr>bc_map := m, bc_total_bytes := bc_total_bytes c - entry_cost k evicted\<rparr>)))"

declare cache_evict.simps [simp del]

definition blob_cache_put :: "'l lru_api \<Rightarrow> string \<Rightarrow> string \<Rightarrow> bytes \<Rightarrow> 'l blob_cache \<Rightarrow> 'l blob_cache option" where
  "blob_cache_put L repo digest data c =
     (let k = blob_key repo digest; cost = entry_cost k data in
      if bc_threshold c < length data \<or> bc_capacity c < cost then Some c
      else let c1 = cache_drop L k c;
               c2 = c1\<lparr>bc_map := lru_put L k data (bc_map c1), bc_total_bytes := bc_total_bytes c1 + cost\<rparr>
           in cache_evict L (length (lru_items L (bc_map c2))) c2)"

definition blob_cache_invalidate :: "'l lru_api \<Rightarrow> string \<Rightarrow> string \<Rightarrow> 'l blob_cache \<Rightarrow> 'l blob_cache" where
  "blob_cache_invalidate L repo digest c = cache_drop L (blob_key repo digest) c"

section \<open>Invariant\<close>

definition items_cost :: "(string \<times> bytes) list \<Rightarrow> nat" where
  "items_cost m = sum_list (map (\<lambda>kv. entry_cost (fst kv) (snd kv)) m)"

abbreviation cached :: "'l lru_api \<Rightarrow> 'l blob_cache \<Rightarrow> (string \<times> bytes) list" where
  "cached L c \<equiv> lru_items L (bc_map c)"

definition cache_exact :: "'l lru_api \<Rightarrow> 'l blob_cache \<Rightarrow> bool" where
  "cache_exact L c \<longleftrightarrow> bc_total_bytes c = items_cost (cached L c)"

definition cache_inv :: "'l lru_api \<Rightarrow> 'l blob_cache \<Rightarrow> bool" where
  "cache_inv L c \<longleftrightarrow> cache_exact L c \<and> bc_total_bytes c \<le> bc_capacity c
     \<and> (\<forall>kv\<in>set (cached L c). length (snd kv) \<le> bc_threshold c)"

lemma items_cost_simps [simp]:
  "items_cost [] = 0" "items_cost (kv # m) = entry_cost (fst kv) (snd kv) + items_cost m"
  "items_cost (m @ n) = items_cost m + items_cost n"
  by (simp_all add: items_cost_def)

lemma items_cost_delete:
  "distinct (map fst m) \<Longrightarrow> items_cost (AList.delete k m)
     + (case map_of m k of None \<Rightarrow> 0 | Some v \<Rightarrow> entry_cost k v) = items_cost m"
proof (induction m)
  case (Cons a m)
  show ?case
  proof (cases "fst a = k")
    case True
    then have "map_of m k = None" "AList.delete k m = m"
      using Cons.prems by (auto simp: map_of_eq_None_iff delete_idem)
    then show ?thesis using True by (cases a) simp
  next
    case False
    then show ?thesis using Cons by (cases a) auto
  qed
qed simp

lemma lru_get_items:
  assumes "lru_ok L"
  shows "fst (lru_get L k c) = map_of (lru_items L c) k"
    and "set (lru_items L (snd (lru_get L k c))) = set (lru_items L c)"
    and "items_cost (lru_items L (snd (lru_get L k c))) = items_cost (lru_items L c)"
proof -
  have d: "distinct (map fst (lru_items L c))" using assms by (simp add: lru_ok_def)
  have e: "lru_items L (snd (lru_get L k c)) =
      (case map_of (lru_items L c) k of None \<Rightarrow> lru_items L c | Some v \<Rightarrow> (k, v) # AList.delete k (lru_items L c))"
    and f: "fst (lru_get L k c) = map_of (lru_items L c) k"
    using assms unfolding lru_ok_def by blast+
  show "fst (lru_get L k c) = map_of (lru_items L c) k" by (rule f)
  have "set ((k, v) # AList.delete k m) = set m" if "map_of m k = Some v" "distinct (map fst m)" for m and v :: bytes
    using that by (induction m) (auto simp: delete_idem split: if_splits)
  then show "set (lru_items L (snd (lru_get L k c))) = set (lru_items L c)"
    unfolding e using d by (cases "map_of (lru_items L c) k") auto
  show "items_cost (lru_items L (snd (lru_get L k c))) = items_cost (lru_items L c)"
    unfolding e using items_cost_delete [OF d, of k] by (cases "map_of (lru_items L c) k") auto
qed

lemma lru_laws:
  assumes "lru_ok L"
  shows "distinct (map fst (lru_items L c))"
    and "lru_items L (lru_put L k v c) = (k, v) # AList.delete k (lru_items L c)"
    and "fst (lru_pop L k c) = map_of (lru_items L c) k"
    and "lru_items L (snd (lru_pop L k c)) = AList.delete k (lru_items L c)"
    and "lru_items L c \<noteq> [] \<Longrightarrow> fst (lru_pop_lru L c) = Some (last (lru_items L c))"
    and "lru_items L (snd (lru_pop_lru L c)) = butlast (lru_items L c)"
proof -
  note law = assms [unfolded lru_ok_def]
  show "distinct (map fst (lru_items L c))" "lru_items L (lru_put L k v c) = (k, v) # AList.delete k (lru_items L c)"
    "fst (lru_pop L k c) = map_of (lru_items L c) k" "lru_items L (snd (lru_pop L k c)) = AList.delete k (lru_items L c)"
    "lru_items L (snd (lru_pop_lru L c)) = butlast (lru_items L c)"
    using law by blast+
  show "fst (lru_pop_lru L c) = Some (last (lru_items L c))" if "lru_items L c \<noteq> []"
    using law that by (metis fst_conv)
qed

lemma cache_drop_items:
  assumes "lru_ok L" "cache_exact L c"
  shows "cached L (cache_drop L k c) = AList.delete k (cached L c)" and "cache_exact L (cache_drop L k c)"
    and "bc_total_bytes (cache_drop L k c) \<le> bc_total_bytes c"
    and "bc_threshold (cache_drop L k c) = bc_threshold c" "bc_capacity (cache_drop L k c) = bc_capacity c"
proof -
  obtain r m where p: "lru_pop L k (bc_map c) = (r, m)" by (cases "lru_pop L k (bc_map c)")
  have r: "r = map_of (cached L c) k" "lru_items L m = AList.delete k (cached L c)"
    using lru_laws(3,4) [OF assms(1), of k "bc_map c"] p by simp_all
  have cost: "items_cost (AList.delete k (cached L c)) + (case r of None \<Rightarrow> 0 | Some v \<Rightarrow> entry_cost k v) = bc_total_bytes c"
    using items_cost_delete [OF lru_laws(1) [OF assms(1)], of k "bc_map c"] assms(2) r(1) by (simp add: cache_exact_def)
  have "cached L (cache_drop L k c) = AList.delete k (cached L c) \<and> cache_exact L (cache_drop L k c)
      \<and> bc_total_bytes (cache_drop L k c) \<le> bc_total_bytes c
      \<and> bc_threshold (cache_drop L k c) = bc_threshold c \<and> bc_capacity (cache_drop L k c) = bc_capacity c"
  proof (cases r)
    case None
    then show ?thesis using p r cost by (simp add: cache_drop_def cache_exact_def)
  next
    case (Some old)
    then have "items_cost (AList.delete k (cached L c)) = bc_total_bytes c - entry_cost k old" using cost by simp
    then show ?thesis using p r(2) Some by (simp add: cache_drop_def cache_exact_def)
  qed
  then show "cached L (cache_drop L k c) = AList.delete k (cached L c)" "cache_exact L (cache_drop L k c)"
    "bc_total_bytes (cache_drop L k c) \<le> bc_total_bytes c"
    "bc_threshold (cache_drop L k c) = bc_threshold c" "bc_capacity (cache_drop L k c) = bc_capacity c"
    by blast+
qed

text \<open>Eviction ends within its fuel, takes entries from the old end only, and stops within the budget.\<close>

lemma cache_evict_ok:
  assumes "lru_ok L"
  shows "cache_exact L c \<Longrightarrow> length (cached L c) \<le> fuel \<Longrightarrow>
    \<exists>c' n. cache_evict L fuel c = Some c' \<and> cache_exact L c' \<and> cached L c' = take n (cached L c)
      \<and> bc_total_bytes c' \<le> bc_capacity c \<and> bc_threshold c' = bc_threshold c \<and> bc_capacity c' = bc_capacity c
      \<and> (\<forall>i. items_cost (take i (cached L c)) \<le> bc_capacity c \<longrightarrow> i \<le> length (cached L c) \<longrightarrow> i \<le> n)"
proof (induction fuel arbitrary: c)
  case 0
  then have "bc_total_bytes c = 0" by (simp add: cache_exact_def)
  then show ?case using 0 by (subst cache_evict.simps) auto
next
  case (Suc fuel)
  show ?case
  proof (cases "bc_total_bytes c \<le> bc_capacity c")
    case True
    then show ?thesis using Suc.prems
      by (subst cache_evict.simps) (auto intro: exI [of _ "length (cached L c)"])
  next
    case False
    then have ne: "cached L c \<noteq> []" using Suc.prems(1) by (auto simp: cache_exact_def)
    obtain k v where kv: "last (cached L c) = (k, v)" by (cases "last (cached L c)")
    obtain m where m: "lru_pop_lru L (bc_map c) = (Some (k, v), m)"
      using lru_laws(5) [OF assms ne] kv by (cases "lru_pop_lru L (bc_map c)") auto
    have items: "lru_items L m = butlast (cached L c)" using lru_laws(6) [OF assms, of "bc_map c"] m by simp
    let ?c = "c\<lparr>bc_map := m, bc_total_bytes := bc_total_bytes c - entry_cost k v\<rparr>"
    have "items_cost (cached L c) = items_cost (butlast (cached L c)) + entry_cost k v"
      using append_butlast_last_id [OF ne] kv
      by (metis add.right_neutral fst_conv items_cost_simps snd_conv)
    then have ex: "cache_exact L ?c" using Suc.prems(1) items by (simp add: cache_exact_def)
    have "length (cached L ?c) \<le> fuel" using Suc.prems(2) items by simp
    from Suc.IH [OF ex this] obtain c' n where c': "cache_evict L fuel ?c = Some c'" "cache_exact L c'"
        "cached L c' = take n (cached L ?c)" "bc_total_bytes c' \<le> bc_capacity c" "bc_threshold c' = bc_threshold c"
        "bc_capacity c' = bc_capacity c"
        "\<forall>i. items_cost (take i (cached L ?c)) \<le> bc_capacity c \<longrightarrow> i \<le> length (cached L ?c) \<longrightarrow> i \<le> n"
      by auto
    let ?n = "min n (length (cached L c) - 1)"
    have "cached L c' = take ?n (cached L c)" using c'(3) items by (simp add: butlast_conv_take min.commute)
    moreover have "i \<le> ?n" if i: "items_cost (take i (cached L c)) \<le> bc_capacity c" "i \<le> length (cached L c)" for i
    proof -
      have "i \<noteq> length (cached L c)" using i(1) False Suc.prems(1) by (auto simp: cache_exact_def)
      then have lt: "i \<le> length (cached L c) - 1" using i(2) by simp
      then have "take i (cached L ?c) = take i (cached L c)" using items by (simp add: butlast_conv_take min_def)
      then show ?thesis using c'(7) i(1) lt items by simp
    qed
    ultimately show ?thesis
      using c' False m by (subst cache_evict.simps) (auto intro!: exI [of _ ?n])
  qed
qed

lemma set_alist_delete: "set (AList.delete k m) = {kv \<in> set m. fst kv \<noteq> k}"
  by (induction m) auto

lemma cache_put_items:
  assumes "lru_ok L" "cache_inv L c"
  shows "\<exists>c'. blob_cache_put L repo digest data c = Some c' \<and> cache_inv L c' \<and> bc_capacity c' = bc_capacity c
    \<and> (if bc_threshold c < length data \<or> bc_capacity c < entry_cost (blob_key repo digest) data then c' = c
       else \<exists>n. cached L c' = (blob_key repo digest, data) # take n (AList.delete (blob_key repo digest) (cached L c)))"
proof (cases "bc_threshold c < length data \<or> bc_capacity c < entry_cost (blob_key repo digest) data")
  case True
  then show ?thesis using assms(2) by (auto simp: blob_cache_put_def Let_def)
next
  case False
  let ?k = "blob_key repo digest"
  let ?c1 = "cache_drop L ?k c"
  let ?c2 = "?c1\<lparr>bc_map := lru_put L ?k data (bc_map ?c1), bc_total_bytes := bc_total_bytes ?c1 + entry_cost ?k data\<rparr>"
  let ?rest = "AList.delete ?k (cached L c)"
  note drop = cache_drop_items [OF assms(1), of c ?k] and inv = assms(2) [unfolded cache_inv_def]
  have items: "cached L ?c2 = (?k, data) # ?rest"
    using inv drop(1) by (simp add: lru_laws(2) [OF assms(1)] delete_idem)
  have "cache_exact L ?c2" using drop(1,2) inv items by (simp add: cache_exact_def)
  from cache_evict_ok [OF assms(1) this order_refl] obtain c' n where c':
      "cache_evict L (length (cached L ?c2)) ?c2 = Some c'" "cache_exact L c'" "cached L c' = take n (cached L ?c2)"
      "bc_total_bytes c' \<le> bc_capacity c" "bc_threshold c' = bc_threshold c" "bc_capacity c' = bc_capacity c"
      "\<forall>i. items_cost (take i (cached L ?c2)) \<le> bc_capacity c \<longrightarrow> i \<le> length (cached L ?c2) \<longrightarrow> i \<le> n"
    using drop(4,5) inv by auto
  have "items_cost (take 1 (cached L ?c2)) \<le> bc_capacity c" using False items by simp
  then have "1 \<le> n" using c'(7) items by (metis (no_types, lifting) length_Cons le_add1 plus_1_eq_Suc)
  then obtain n' where n: "n = Suc n'" by (cases n) auto
  have ent: "cached L c' = (?k, data) # take n' ?rest" using c'(3) items n by simp
  have "length (snd kv) \<le> bc_threshold c" if "kv \<in> set (cached L c')" for kv
  proof -
    have "kv = (?k, data) \<or> kv \<in> set (cached L c)"
      using that ent set_take_subset [of n' ?rest] by (auto simp: set_alist_delete)
    then show ?thesis using inv False by auto
  qed
  then have "cache_inv L c'" using c' by (simp add: cache_inv_def)
  moreover have "blob_cache_put L repo digest data c = Some c'"
    using False c'(1) by (simp add: blob_cache_put_def Let_def)
  ultimately show ?thesis using False ent c'(6) by auto
qed

lemma cache_invalidate_items:
  assumes "lru_ok L" "cache_inv L c"
  shows "cached L (blob_cache_invalidate L repo digest c) = AList.delete (blob_key repo digest) (cached L c)"
    and "cache_inv L (blob_cache_invalidate L repo digest c)"
  using cache_drop_items [OF assms(1), of c "blob_key repo digest"] assms(2)
  by (auto simp: blob_cache_invalidate_def cache_inv_def set_alist_delete)

lemma cache_get_items:
  assumes "lru_ok L" "cache_inv L c"
  shows "fst (blob_cache_get L repo digest c) = map_of (cached L c) (blob_key repo digest)"
    and "set (cached L (snd (blob_cache_get L repo digest c))) = set (cached L c)"
    and "cache_inv L (snd (blob_cache_get L repo digest c))"
  using lru_get_items [OF assms(1), of "blob_key repo digest" "bc_map c"] assms(2)
  by (auto simp: blob_cache_get_def cache_inv_def cache_exact_def split: prod.splits)

lemma cache_inv_new: "lru_ok L \<Longrightarrow> cache_inv L (cache_with_limits L threshold capacity)"
  by (simp add: cache_inv_def cache_exact_def cache_with_limits_def lru_ok_def)

section \<open>Histories\<close>

datatype cache_op = Cache_Get string string | Cache_Put string string bytes | Cache_Invalidate string string

fun cache_step :: "'l lru_api \<Rightarrow> cache_op \<Rightarrow> 'l blob_cache \<Rightarrow> 'l blob_cache option" where
  "cache_step L (Cache_Get repo digest) c = Some (snd (blob_cache_get L repo digest c))"
| "cache_step L (Cache_Put repo digest data) c = blob_cache_put L repo digest data c"
| "cache_step L (Cache_Invalidate repo digest) c = Some (blob_cache_invalidate L repo digest c)"

fun cache_run :: "'l lru_api \<Rightarrow> cache_op list \<Rightarrow> 'l blob_cache \<Rightarrow> 'l blob_cache option" where
  "cache_run L [] c = Some c"
| "cache_run L (op # ops) c = Option.bind (cache_step L op c) (cache_run L ops)"

text \<open>The contents put under a key since it was last invalidated.\<close>

fun live_puts :: "cache_op list \<Rightarrow> string \<Rightarrow> bytes set \<Rightarrow> bytes set" where
  "live_puts [] k vs = vs"
| "live_puts (Cache_Get _ _ # ops) k vs = live_puts ops k vs"
| "live_puts (Cache_Put repo digest data # ops) k vs =
     live_puts ops k (if blob_key repo digest = k then insert data vs else vs)"
| "live_puts (Cache_Invalidate repo digest # ops) k vs =
     live_puts ops k (if blob_key repo digest = k then {} else vs)"

lemma cache_step_live:
  assumes "lru_ok L" "cache_inv L c" "\<And>k v. (k, v) \<in> set (cached L c) \<Longrightarrow> v \<in> live k"
  shows "\<exists>c'. cache_step L op c = Some c' \<and> cache_inv L c' \<and> bc_capacity c' = bc_capacity c
    \<and> (\<forall>k v. (k, v) \<in> set (cached L c') \<longrightarrow> v \<in> live_puts [op] k (live k))"
proof (cases op)
  case (Cache_Get repo digest)
  have "bc_capacity (snd (blob_cache_get L repo digest c)) = bc_capacity c"
    by (simp add: blob_cache_get_def split: prod.splits)
  then show ?thesis using cache_get_items [OF assms(1,2), of repo digest] assms(3) Cache_Get by auto
next
  case (Cache_Put repo digest data)
  obtain c' where c': "blob_cache_put L repo digest data c = Some c'" "cache_inv L c'" "bc_capacity c' = bc_capacity c"
    "if bc_threshold c < length data \<or> bc_capacity c < entry_cost (blob_key repo digest) data then c' = c
     else \<exists>n. cached L c' = (blob_key repo digest, data) # take n (AList.delete (blob_key repo digest) (cached L c))"
    using cache_put_items [OF assms(1,2)] by blast
  have "(k, v) \<in> set (cached L c) \<or> k = blob_key repo digest \<and> v = data" if "(k, v) \<in> set (cached L c')" for k v
  proof (cases "c' = c")
    case False
    then obtain n where n: "cached L c' = (blob_key repo digest, data) # take n (AList.delete (blob_key repo digest) (cached L c))"
      using c'(4) by (auto split: if_splits)
    then have "(k, v) = (blob_key repo digest, data) \<or> (k, v) \<in> set (AList.delete (blob_key repo digest) (cached L c))"
      using that in_set_takeD [of "(k, v)" n] by auto
    then show ?thesis by (auto simp: set_alist_delete)
  qed (use that in simp)
  then show ?thesis using c'(1-3) assms(3) Cache_Put by auto
next
  case (Cache_Invalidate repo digest)
  have "bc_capacity (blob_cache_invalidate L repo digest c) = bc_capacity c"
    using cache_drop_items(5) [OF assms(1)] assms(2) by (simp add: blob_cache_invalidate_def cache_inv_def)
  then show ?thesis
    using cache_invalidate_items [OF assms(1,2), of repo digest] assms(3) Cache_Invalidate
    by (auto simp: set_alist_delete)
qed

lemma cache_run_live:
  assumes "lru_ok L"
  shows "cache_inv L c \<Longrightarrow> (\<And>k v. (k, v) \<in> set (cached L c) \<Longrightarrow> v \<in> live k) \<Longrightarrow>
    \<exists>c'. cache_run L ops c = Some c' \<and> cache_inv L c' \<and> bc_capacity c' = bc_capacity c
      \<and> (\<forall>k v. (k, v) \<in> set (cached L c') \<longrightarrow> v \<in> live_puts ops k (live k))"
proof (induction ops arbitrary: c live)
  case (Cons op ops)
  obtain c1 where c1: "cache_step L op c = Some c1" "cache_inv L c1" "bc_capacity c1 = bc_capacity c"
      "\<And>k v. (k, v) \<in> set (cached L c1) \<Longrightarrow> v \<in> live_puts [op] k (live k)"
    using cache_step_live [OF assms Cons.prems(1), of live op] Cons.prems(2) by blast
  have "live_puts ops k (live_puts [op] k vs) = live_puts (op # ops) k vs" for k vs by (cases op) simp_all
  with Cons.IH [of c1 "\<lambda>k. live_puts [op] k (live k)"] c1 show ?case by simp
qed auto

definition sample_lru :: "(string \<times> bytes) list lru_api" where
  "sample_lru = \<lparr>lru_new = [],
     lru_get = (\<lambda>k c. case map_of c k of None \<Rightarrow> (None, c) | Some v \<Rightarrow> (Some v, (k, v) # AList.delete k c)),
     lru_put = (\<lambda>k v c. (k, v) # AList.delete k c), lru_pop = (\<lambda>k c. (map_of c k, AList.delete k c)),
     lru_pop_lru = (\<lambda>c. let i = AList.clearjunk c in if i = [] then (None, c) else (Some (last i), butlast i)),
     lru_items = AList.clearjunk\<rparr>"

lemma sample_lru_ok: "lru_ok sample_lru"
proof -
  have "AList.clearjunk (butlast (AList.clearjunk c)) = butlast (AList.clearjunk c)" for c :: "(string \<times> bytes) list"
  proof (rule distinct_clearjunk_id)
    have "distinct (map fst (AList.clearjunk c))" by (rule distinct_clearjunk)
    then show "distinct (map fst (butlast (AList.clearjunk c)))" by (simp add: map_butlast distinct_butlast)
  qed
  then show ?thesis
    by (auto simp: lru_ok_def sample_lru_def Let_def map_of_clearjunk clearjunk_delete
        delete_idem distinct_clearjunk split: option.splits)
qed

text \<open>
  (C40) The cache is faithful and bounded. Any sequence of lookups, insertions and invalidations runs
  without panicking, keeps the charged bytes exact and within the budget, and a later lookup returns
  only content that was put under exactly that key and has not been invalidated since.
\<close>

theorem cache_faithful:
  assumes "lru_ok L"
  shows "\<exists>c. cache_run L ops (cache_with_limits L threshold capacity) = Some c
    \<and> bc_total_bytes c \<le> capacity \<and> bc_total_bytes c = items_cost (cached L c)
    \<and> (case fst (blob_cache_get L repo digest c) of
         None \<Rightarrow> True | Some v \<Rightarrow> v \<in> live_puts ops (blob_key repo digest) {})"
proof -
  let ?c0 = "cache_with_limits L threshold capacity"
  have empty: "cached L ?c0 = []" using assms by (simp add: cache_with_limits_def lru_ok_def)
  obtain c where c: "cache_run L ops ?c0 = Some c" "cache_inv L c" "bc_capacity c = bc_capacity ?c0"
      "\<And>k v. (k, v) \<in> set (cached L c) \<Longrightarrow> v \<in> live_puts ops k {}"
    using cache_run_live [OF assms cache_inv_new [OF assms], of threshold capacity "\<lambda>_. {}" ops] empty by auto
  have "v \<in> live_puts ops (blob_key repo digest) {}" if "fst (blob_cache_get L repo digest c) = Some v" for v
    using that cache_get_items(1) [OF assms c(2)] c(4) by (auto dest: map_of_SomeD)
  then show ?thesis
    using c(1-3) by (intro exI [of _ c]) (auto simp: cache_inv_def cache_exact_def cache_with_limits_def split: option.splits)
qed

theorem cache_faithful_witness:
  "\<exists>c. cache_run sample_lru [Cache_Put ''r'' ''d'' ''data'', Cache_Invalidate ''r'' ''d''] (cache_with_limits sample_lru 100 1000) = Some c
    \<and> bc_total_bytes c \<le> 1000"
  using cache_faithful [OF sample_lru_ok, of "[Cache_Put ''r'' ''d'' ''data'', Cache_Invalidate ''r'' ''d'']" 100 1000] by blast

end
