(* ===== verification/Trackers.thy ===== *)
theory Trackers
  imports Meta_Trait Quota Blob_Cache
begin

text \<open>
  The in-memory indexes of the storage backends: the presence filter
  (\<open>roci-storage/src/filter.rs\<close>), the dedupe index (\<open>dedupe.rs\<close>), the garbage-collection tracker
  (\<open>gc.rs\<close>), and the bookkeeping when a blob enters or leaves (\<open>lifecycle.rs\<close>). The \<open>cuckoofilter\<close>
  package is a parameter. Instants are natural numbers; the fence between pushes and sweeps orders
  them, which a sequence of operations does by itself.
\<close>

section \<open>Presence filter\<close>

record 'f cuckoo_api =
  cf_new :: 'f
  cf_add :: "string \<Rightarrow> 'f \<Rightarrow> bool \<times> 'f"
  cf_delete :: "string \<Rightarrow> 'f \<Rightarrow> 'f"
  cf_contains :: "string \<Rightarrow> 'f \<Rightarrow> bool"

text \<open>What the package documents: no false negatives, as long as only present keys are deleted. The
  keys a filter stands for are a multiset.\<close>

definition cuckoo_ok :: "'f cuckoo_api \<Rightarrow> ('f \<Rightarrow> string \<Rightarrow> nat) \<Rightarrow> bool" where
  "cuckoo_ok F held \<longleftrightarrow>
     (\<forall>k. held (cf_new F) k = 0)
     \<and> (\<forall>k f. fst (cf_add F k f) \<longrightarrow> (\<forall>x. held (snd (cf_add F k f)) x = held f x + (if x = k then 1 else 0)))
     \<and> (\<forall>k f. 0 < held f k \<longrightarrow> (\<forall>x. held (cf_delete F k f) x = held f x - (if x = k then 1 else 0)))
     \<and> (\<forall>k f. 0 < held f k \<longrightarrow> cf_contains F k f)"

definition presence_new :: "'f cuckoo_api \<Rightarrow> 'f option" where
  "presence_new F = Some (cf_new F)"

definition presence_insert :: "'f cuckoo_api \<Rightarrow> string \<Rightarrow> string \<Rightarrow> 'f option \<Rightarrow> 'f option" where
  "presence_insert F repo digest p =
     (case p of None \<Rightarrow> None
      | Some f \<Rightarrow> (case cf_add F (blob_key repo digest) f of (True, f') \<Rightarrow> Some f' | (False, _) \<Rightarrow> None))"

definition presence_remove :: "'f cuckoo_api \<Rightarrow> string \<Rightarrow> string \<Rightarrow> 'f option \<Rightarrow> 'f option" where
  "presence_remove F repo digest p = map_option (cf_delete F (blob_key repo digest)) p"

definition maybe_present :: "'f cuckoo_api \<Rightarrow> string \<Rightarrow> string \<Rightarrow> 'f option \<Rightarrow> bool" where
  "maybe_present F repo digest p = (case p of None \<Rightarrow> True | Some f \<Rightarrow> cf_contains F (blob_key repo digest) f)"

text \<open>How often a key is held; a disabled filter holds everything.\<close>

definition holds_key :: "('f \<Rightarrow> string \<Rightarrow> nat) \<Rightarrow> 'f option \<Rightarrow> string \<Rightarrow> bool" where
  "holds_key held p k = (case p of None \<Rightarrow> True | Some f \<Rightarrow> 0 < held f k)"

lemma cuckoo_add:
  assumes "cuckoo_ok F held" "cf_add F k f = (True, f')"
  shows "held f' x = held f x + (if x = k then 1 else 0)"
  using assms(1) unfolding cuckoo_ok_def by (metis assms(2) fst_conv snd_conv)

lemma presence_insert_holds:
  assumes "cuckoo_ok F held"
  shows "holds_key held (presence_insert F repo digest p) (blob_key repo digest)"
    and "holds_key held p k \<Longrightarrow> holds_key held (presence_insert F repo digest p) k"
  by (auto simp: holds_key_def presence_insert_def cuckoo_add [OF assms] split: option.splits prod.splits bool.splits)

lemma maybe_present_holds:
  "cuckoo_ok F held \<Longrightarrow> holds_key held p (blob_key repo digest) \<Longrightarrow> maybe_present F repo digest p"
  by (auto simp: cuckoo_ok_def holds_key_def maybe_present_def split: option.splits)

section \<open>Dedupe index\<close>

record dedupe =
  dd_enabled :: bool
  dd_by_digest :: "(string, string) hash_map"

definition dedupe_new :: "bool \<Rightarrow> dedupe" where
  "dedupe_new on = \<lparr>dd_enabled = on, dd_by_digest = []\<rparr>"

definition dedupe_insert :: "string \<Rightarrow> string \<Rightarrow> dedupe \<Rightarrow> dedupe" where
  "dedupe_insert repo digest d =
     (if \<not> dd_enabled d then d
      else case map_of (dd_by_digest d) digest of
             Some _ \<Rightarrow> d
           | None \<Rightarrow> d\<lparr>dd_by_digest := AList.update digest repo (dd_by_digest d)\<rparr>)"

definition dedupe_remove :: "string \<Rightarrow> string \<Rightarrow> dedupe \<Rightarrow> dedupe" where
  "dedupe_remove repo digest d =
     (if map_of (dd_by_digest d) digest = Some repo
      then d\<lparr>dd_by_digest := AList.delete digest (dd_by_digest d)\<rparr> else d)"

definition dedupe_locate :: "string \<Rightarrow> string \<Rightarrow> dedupe \<Rightarrow> string option" where
  "dedupe_locate digest repo d =
     (if \<not> dd_enabled d then None
      else case map_of (dd_by_digest d) digest of
             Some r \<Rightarrow> if r \<noteq> repo then Some r else None | None \<Rightarrow> None)"

definition dedupe_entries :: "dedupe \<Rightarrow> (string \<times> string) list" where
  "dedupe_entries d = dd_by_digest d"

section \<open>Garbage-collection tracker\<close>

type_synonym blob_id = "string \<times> string"

record gc_tracker =
  gc_enabled :: bool
  gc_delay :: nat
  gc_candidates :: "(blob_id, nat) hash_map"
  gc_ready :: bool
  gc_roots :: "blob_id list"
  gc_unsafe_repos :: "string list"

definition gc_new :: "bool \<Rightarrow> nat \<Rightarrow> gc_tracker" where
  "gc_new on delay = \<lparr>gc_enabled = on, gc_delay = delay, gc_candidates = [], gc_ready = False,
     gc_roots = [], gc_unsafe_repos = []\<rparr>"

definition gc_mark_at :: "string \<Rightarrow> string \<Rightarrow> nat \<Rightarrow> gc_tracker \<Rightarrow> gc_tracker" where
  "gc_mark_at repo digest at g =
     (if gc_enabled g then g\<lparr>gc_candidates := AList.update (repo, digest) at (gc_candidates g)\<rparr> else g)"

definition gc_touch :: "string \<Rightarrow> string \<Rightarrow> nat \<Rightarrow> gc_tracker \<Rightarrow> gc_tracker" where
  "gc_touch repo digest now g =
     (if gc_enabled g \<and> map_of (gc_candidates g) (repo, digest) \<noteq> None
      then g\<lparr>gc_candidates := AList.update (repo, digest) now (gc_candidates g)\<rparr> else g)"

definition gc_clear :: "string \<Rightarrow> string \<Rightarrow> gc_tracker \<Rightarrow> gc_tracker" where
  "gc_clear repo digest g =
     (if gc_enabled g then g\<lparr>gc_candidates := AList.delete (repo, digest) (gc_candidates g)\<rparr> else g)"

text \<open>\<open>saturating_duration_since\<close> is subtraction on natural numbers.\<close>

definition gc_due :: "nat \<Rightarrow> gc_tracker \<Rightarrow> blob_id list" where
  "gc_due now g = map fst (filter (\<lambda>(_, t). gc_delay g \<le> now - t) (gc_candidates g))"

definition gc_is_due :: "string \<Rightarrow> string \<Rightarrow> nat \<Rightarrow> gc_tracker \<Rightarrow> bool" where
  "gc_is_due repo digest now g =
     (case map_of (gc_candidates g) (repo, digest) of None \<Rightarrow> False | Some t \<Rightarrow> gc_delay g \<le> now - t)"

definition gc_set_ready :: "gc_tracker \<Rightarrow> gc_tracker" where
  "gc_set_ready g = g\<lparr>gc_ready := True\<rparr>"

definition gc_is_ready :: "gc_tracker \<Rightarrow> bool" where
  "gc_is_ready g \<longleftrightarrow> gc_enabled g \<and> gc_ready g"

definition gc_add_root :: "string \<Rightarrow> string \<Rightarrow> gc_tracker \<Rightarrow> gc_tracker" where
  "gc_add_root repo digest g = (if gc_enabled g then g\<lparr>gc_roots := List.insert (repo, digest) (gc_roots g)\<rparr> else g)"

definition gc_is_root :: "string \<Rightarrow> string \<Rightarrow> gc_tracker \<Rightarrow> bool" where
  "gc_is_root repo digest g \<longleftrightarrow> (repo, digest) \<in> set (gc_roots g)"

definition gc_mark_unsafe :: "string \<Rightarrow> gc_tracker \<Rightarrow> gc_tracker" where
  "gc_mark_unsafe repo g = (if gc_enabled g then g\<lparr>gc_unsafe_repos := List.insert repo (gc_unsafe_repos g)\<rparr> else g)"

definition gc_is_unsafe :: "string \<Rightarrow> gc_tracker \<Rightarrow> bool" where
  "gc_is_unsafe repo g \<longleftrightarrow> repo \<in> set (gc_unsafe_repos g)"

section \<open>Lifecycle\<close>

text \<open>
  The trackers that \<open>note_blob_entered\<close> and \<open>note_blob_left\<close> update, with the metadata engine; the
  outcome of a relaxed metadata write is only logged.
\<close>

definition note_blob_entered :: "'m meta_api \<Rightarrow> string \<Rightarrow> string \<Rightarrow> blob_checksum option \<Rightarrow> nat
    \<Rightarrow> 'm \<times> gc_tracker \<times> dedupe \<Rightarrow> 'm \<times> gc_tracker \<times> dedupe" where
  "note_blob_entered M repo digest checksum now = (\<lambda>(m, g, d).
     let m1 = (case checksum of
                 Some c \<Rightarrow> if mt_checksum M m repo digest \<noteq> Some c
                           then snd (mt_apply_relaxed M (PutChecksum repo digest (ck_crc32c c) (ck_size c)) m) else m
               | None \<Rightarrow> m)
     in (m1,
         if mt_backrefs M m1 repo digest = [] \<and> mt_manifest_media_type M m1 repo digest = None
         then gc_mark_at repo digest now g else g,
         dedupe_insert repo digest d))"

definition note_blob_left :: "'m meta_api \<Rightarrow> string \<Rightarrow> string \<Rightarrow> u64 option
    \<Rightarrow> 'm \<times> gc_tracker \<times> dedupe \<times> quota \<Rightarrow> 'm \<times> gc_tracker \<times> dedupe \<times> quota" where
  "note_blob_left M repo digest sz = (\<lambda>(m, g, d, q).
     (if mt_checksum M m repo digest \<noteq> None then snd (mt_apply_relaxed M (DeleteBlob repo digest) m) else m,
      gc_clear repo digest g,
      dedupe_remove repo digest d,
      (case sz of Some n \<Rightarrow> release repo n q | None \<Rightarrow> q)))"

end
