(* ===== verification/Layout_Index.thy ===== *)
theory Layout_Index
  imports Layout Meta_Trait
begin

text \<open>
  The index of a repository's image layout rebuilt from the metadata store
  (\<open>index_from_meta\<close> and \<open>import_foreign_tags\<close> of \<open>roci-storage/src/layout.rs\<close>): one descriptor per tag,
  then the untagged manifests, then foreign descriptors as they were.
\<close>

type_synonym obj = "(string \<times> json) list"

definition known_digest :: "string list \<Rightarrow> obj \<Rightarrow> string option" where
  "known_digest known o1 =
     (case Option.bind (map_of o1 ''digest'') as_str of Some d \<Rightarrow> if d \<in> set known then Some d else None | None \<Rightarrow> None)"

text \<open>The tag annotation is dropped from a kept descriptor, and the annotations with it when empty.\<close>

definition strip_tag :: "obj \<Rightarrow> obj" where
  "strip_tag o1 =
     (case Option.bind (map_of o1 ''annotations'') as_object of
        None \<Rightarrow> o1
      | Some ann \<Rightarrow> let ann' = bt_remove REF_NAME_ANNOTATION ann in
                    if ann' = [] then bt_remove ''annotations'' o1 else bt_insert ''annotations'' (JObject ann') o1)"

definition or_insert :: "'k \<Rightarrow> 'v \<Rightarrow> ('k \<times> 'v) list \<Rightarrow> ('k \<times> 'v) list" where
  "or_insert k v m = (case map_of m k of Some _ \<Rightarrow> m | None \<Rightarrow> AList.update k v m)"

definition merge_existing :: "string list \<Rightarrow> json \<Rightarrow> (string, obj) hash_map \<times> json list \<Rightarrow> (string, obj) hash_map \<times> json list" where
  "merge_existing known e = (\<lambda>(base, foreign).
     case as_object e of
       None \<Rightarrow> (base, foreign @ [e])
     | Some o1 \<Rightarrow>
         (case known_digest known o1 of
            Some d \<Rightarrow> (or_insert d (strip_tag o1) base, foreign)
          | None \<Rightarrow> if descriptor_tag e = None \<and> json_get ''subject'' e = None then (base, foreign @ [e])
                     else (base, foreign)))"

definition bt_or_insert :: "string \<Rightarrow> json \<Rightarrow> obj \<Rightarrow> obj" where
  "bt_or_insert k v o1 = (case map_of o1 k of Some _ \<Rightarrow> o1 | None \<Rightarrow> bt_insert k v o1)"

definition base_entry :: "string \<Rightarrow> (string, obj) hash_map \<Rightarrow> obj" where
  "base_entry d base = (case map_of base d of Some o1 \<Rightarrow> o1 | None \<Rightarrow> [(''digest'', JString d)])"

definition enter_known :: "'m meta_api \<Rightarrow> 'm \<Rightarrow> string \<Rightarrow> (string \<Rightarrow> u64 option) \<Rightarrow> string \<Rightarrow> (string, obj) hash_map
    \<Rightarrow> (string, obj) hash_map" where
  "enter_known M m repo size_lookup d base =
     (let o1 = base_entry d base;
          o2 = (case mt_manifest_media_type M m repo d of Some mt \<Rightarrow> bt_insert ''mediaType'' (JString mt) o1 | None \<Rightarrow> o1);
          o3 = (if map_of o2 ''size'' \<noteq> None then o2
                else case size_lookup d of Some n \<Rightarrow> bt_insert ''size'' (JNumber (PosInt n)) o2 | None \<Rightarrow> o2)
      in AList.update d o3 base)"

definition merge_field :: "string \<times> json \<Rightarrow> obj \<Rightarrow> obj" where
  "merge_field = (\<lambda>(k, v) o1.
     if k = ''digest'' then o1
     else if k = ''mediaType'' \<or> k = ''size'' then bt_or_insert k v o1
     else if k = ''annotations'' then
       (let o2 = bt_or_insert ''annotations'' (JObject []) o1 in
        case (as_object v, Option.bind (map_of o2 ''annotations'') as_object) of
          (Some new, Some cur) \<Rightarrow>
            bt_insert ''annotations''
              (JObject (fold (\<lambda>(ak, av) c. if ak \<noteq> REF_NAME_ANNOTATION then bt_or_insert ak av c else c) new cur)) o2
        | _ \<Rightarrow> o2)
     else bt_insert k v o1)"

definition merge_referrer :: "'a ext_api_scheme \<Rightarrow> string \<Rightarrow> referrer \<Rightarrow> (string, obj) hash_map \<Rightarrow> (string, obj) hash_map" where
  "merge_referrer E subject = (\<lambda>(ref_digest, ref_bytes) base.
     let o1 = base_entry ref_digest base in
     case from_slice E ref_bytes of
       Some (JObject r) \<Rightarrow>
         AList.update ref_digest
           (bt_insert ''subject'' (JObject [(''digest'', JString subject)]) (fold merge_field r o1)) base
     | _ \<Rightarrow> AList.update ref_digest o1 base)"

definition tagged_descriptor :: "string \<Rightarrow> obj \<Rightarrow> json" where
  "tagged_descriptor tag o1 =
     (let o2 = bt_or_insert ''annotations'' (JObject []) o1 in
      case Option.bind (map_of o2 ''annotations'') as_object of
        Some ann \<Rightarrow> JObject (bt_insert ''annotations'' (JObject (bt_insert REF_NAME_ANNOTATION (JString tag) ann)) o2)
      | None \<Rightarrow> JObject o2)"

definition index_base :: "'a ext_api_scheme \<Rightarrow> 'm meta_api \<Rightarrow> 'm \<Rightarrow> string \<Rightarrow> json option \<Rightarrow> (string \<Rightarrow> u64 option)
    \<Rightarrow> (string, obj) hash_map \<times> json list" where
  "index_base E M m repo existing size_lookup =
     (let known = mt_manifests M m repo;
          existing_ms = (case existing of None \<Rightarrow> [] | Some v \<Rightarrow> index_manifests v);
          (base, foreign) = fold (merge_existing known) existing_ms ([], []);
          base1 = fold (enter_known M m repo size_lookup) known base
      in (fold (\<lambda>(subject, refs). fold (merge_referrer E subject) refs) (mt_referrers_snapshot M m repo) base1, foreign))"

definition index_from_meta :: "'a ext_api_scheme \<Rightarrow> 'm meta_api \<Rightarrow> 'm \<Rightarrow> string \<Rightarrow> json option \<Rightarrow> (string \<Rightarrow> u64 option) \<Rightarrow> json" where
  "index_from_meta E M m repo existing size_lookup =
     (let (base, foreign) = index_base E M m repo existing size_lookup;
          tags = mt_tags_snapshot M m repo;
          listed = filter (\<lambda>(_, digest, _). map_of base digest \<noteq> None) tags;
          tagged = map (\<lambda>(tag, digest, _). tagged_descriptor tag (the (map_of base digest))) listed;
          untagged = sort_key fst (filter (\<lambda>(d, _). d \<notin> set (map (\<lambda>(_, digest, _). digest) listed)) base);
          top = (case existing of Some (JObject o1) \<Rightarrow> o1 | _ \<Rightarrow> [])
      in JObject (bt_insert ''manifests'' (JArray (tagged @ map (\<lambda>(_, o1). JObject o1) untagged @ foreign))
           (bt_insert ''mediaType'' (JString ''application/vnd.oci.image.index.v1+json'')
           (bt_insert ''schemaVersion'' (JNumber (PosInt 2)) top))))"

definition import_tag :: "'m meta_api \<Rightarrow> string \<Rightarrow> json \<Rightarrow> 'm \<Rightarrow> 'm" where
  "import_tag M repo e m =
     (case (descriptor_tag e, layout_descriptor_digest e) of
        (Some tag, Some digest) \<Rightarrow>
          if \<not> is_ok (parse_digest digest) \<or> mt_resolve_tag M m repo tag \<noteq> None then m
          else snd (mt_apply M (PutManifest repo digest
                 (case get_str ''mediaType'' e of Some mt \<Rightarrow> mt | None \<Rightarrow> MEDIA_TYPE_IMAGE_MANIFEST) (Some tag) [] None) m)
      | _ \<Rightarrow> m)"

definition import_foreign_tags :: "'m meta_api \<Rightarrow> string \<Rightarrow> json \<Rightarrow> 'm \<Rightarrow> 'm" where
  "import_foreign_tags M repo existing m = fold (import_tag M repo) (index_manifests existing) m"

section \<open>The tags of the rebuilt index\<close>

lemma map_of_or_insert: "map_of (or_insert k v m) k' = (if k' = k \<and> map_of m k = None then Some v else map_of m k')"
  by (auto simp: or_insert_def update_conv' split: option.splits)

lemma map_of_bt_or_insert:
  "map_of (bt_or_insert k v m) k' = (if k' = k \<and> map_of m k = None then Some v else map_of m k')"
  by (auto simp: bt_or_insert_def split: option.splits)

text \<open>Objects whose annotations, if any, are an object; and without a tag.\<close>

definition untagged_obj :: "obj \<Rightarrow> bool" where
  "untagged_obj o1 \<longleftrightarrow> (case map_of o1 ''annotations'' of None \<Rightarrow> True
     | Some v \<Rightarrow> (\<exists>ann. v = JObject ann \<and> map_of ann REF_NAME_ANNOTATION = None))"

lemma untagged_obj_insert:
  "untagged_obj o1 \<Longrightarrow> k \<noteq> ''annotations'' \<Longrightarrow> untagged_obj (bt_insert k v o1)"
  "untagged_obj o1 \<Longrightarrow> k \<noteq> ''annotations'' \<Longrightarrow> untagged_obj (bt_or_insert k v o1)"
  by (simp_all add: untagged_obj_def map_of_bt_or_insert)

lemma untagged_strip:
  assumes "\<And>v. map_of o1 ''annotations'' = Some v \<Longrightarrow> \<exists>ann. v = JObject ann"
  shows "untagged_obj (strip_tag o1)"
proof (cases "map_of o1 ''annotations''")
  case None
  then show ?thesis by (simp add: strip_tag_def untagged_obj_def)
next
  case (Some v)
  then obtain ann where "v = JObject ann" using assms by blast
  then show ?thesis using Some by (simp add: strip_tag_def untagged_obj_def as_object_def Let_def)
qed

lemma untagged_merge_field:
  assumes "untagged_obj o1"
  shows "untagged_obj (merge_field kv o1)"
proof -
  obtain k v where kv: "kv = (k, v)" by (cases kv)
  let ?o2 = "bt_or_insert ''annotations'' (JObject []) o1"
  have o2: "untagged_obj ?o2" using assms by (auto simp: untagged_obj_def map_of_bt_or_insert split: option.splits)
  then obtain cur where cur: "map_of ?o2 ''annotations'' = Some (JObject cur)" "map_of cur REF_NAME_ANNOTATION = None"
    by (auto simp: untagged_obj_def map_of_bt_or_insert split: option.splits if_splits)
  have "map_of (fold (\<lambda>(ak, av) c. if ak \<noteq> REF_NAME_ANNOTATION then bt_or_insert ak av c else c) new c) REF_NAME_ANNOTATION = None"
    if "map_of c REF_NAME_ANNOTATION = None" for new c
    using that by (induction new arbitrary: c) (auto simp: map_of_bt_or_insert)
  then have "untagged_obj (merge_field (''annotations'', v) o1)"
    using cur o2 by (cases v) (auto simp: merge_field_def Let_def as_object_def untagged_obj_def)
  then show ?thesis
    using assms by (cases "k = ''annotations''") (auto simp: kv merge_field_def untagged_obj_insert)
qed

end
