(* ===== verification/Fs_State.thy ===== *)
theory Fs_State
  imports Publish Upload_Body Trackers Layout_Index
begin

text \<open>
  The state of \<open>FsStorage\<close> (\<open>roci-storage/src/lib.rs\<close>, \<open>fs_storage/mod.rs\<close>, \<open>fs_storage/lifecycle.rs\<close>)
  and the steps its operations share. An operation acts on the whole store: the files below the root,
  the metadata engine, the presence filter, the small-blob cache, the garbage-collection tracker, the
  quota, the dedupe index and the session maps. Operations run one after the other, which is what the
  session locks, the admission locks and the garbage-collection fence establish for the operations
  that touch the same upload or blob. Instants and file times are read from the clock of the system.
\<close>

section \<open>State\<close>

text \<open>The packages and the metadata engine the store is built on.\<close>

record ('x, 'm, 'f, 'l) deps =
  dp_ext :: "'x ext_api_scheme"
  dp_meta :: "'m meta_api"
  dp_filter :: "'f cuckoo_api"
  dp_lru :: "'l lru_api"

type_synonym session = "string \<times> string"

record ('m, 'f, 'l) fs_store =
  fs_os :: os
  fs_commit :: bool
  fs_meta :: 'm
  fs_presence :: "'f option"
  fs_cache :: "'l blob_cache"
  fs_gc :: gc_tracker
  fs_quota :: quota
  fs_dedupe :: dedupe
  fs_upload_locks :: "(session, staged_hash option) hash_map"
  fs_pending :: "(session, nat) hash_map"
  fs_admit_locks :: "blob_id list"
  fs_index_dirty :: "(string, u64) hash_map"

type_synonym ('m, 'f, 'l, 'e, 'a) fs_act = "(('m, 'f, 'l) fs_store, 'e, 'a) act"
type_synonym ('m, 'f, 'l, 'a) fs_op = "(('m, 'f, 'l) fs_store, storage_error, 'a) act"

definition on_os :: "(os, 'e, 'a) act \<Rightarrow> ('m, 'f, 'l, 'e, 'a) fs_act" where
  "on_os m = on_part fs_os (\<lambda>t s. s\<lparr>fs_os := t\<rparr>) m"

definition on_quota :: "(quota, 'e, 'a) act \<Rightarrow> ('m, 'f, 'l, 'e, 'a) fs_act" where
  "on_quota m = on_part fs_quota (\<lambda>t s. s\<lparr>fs_quota := t\<rparr>) m"

definition on_meta :: "('m, 'e, 'a) act \<Rightarrow> ('m, 'f, 'l, 'e, 'a) fs_act" where
  "on_meta m = on_part fs_meta (\<lambda>t s. s\<lparr>fs_meta := t\<rparr>) m"

section \<open>Keyed locks\<close>

text \<open>
  The lock of a session holds its hash state; taking it creates the entry. An admission lock is
  released by dropping its entry: no other holder exists between two operations.
\<close>

definition session_lock :: "string \<Rightarrow> string \<Rightarrow> ('m, 'f, 'l, staged_hash option) fs_op" where
  "session_lock repo upload =
     and_do (lift_res (safe_component upload)) (\<lambda>_.
     and_do (modify (\<lambda>s. s\<lparr>fs_upload_locks := or_insert (repo, upload) None (fs_upload_locks s)\<rparr>)) (\<lambda>_.
     gets (\<lambda>s. case map_of (fs_upload_locks s) (repo, upload) of Some h \<Rightarrow> h | None \<Rightarrow> None)))"

definition set_session_hash :: "string \<Rightarrow> string \<Rightarrow> staged_hash option \<Rightarrow> ('m, 'f, 'l, 'e, unit) fs_act" where
  "set_session_hash repo upload h =
     modify (\<lambda>s. s\<lparr>fs_upload_locks := AList.update (repo, upload) h (fs_upload_locks s)\<rparr>)"

definition drop_session :: "string \<Rightarrow> string \<Rightarrow> ('m, 'f, 'l, 'e, unit) fs_act" where
  "drop_session repo upload = modify (\<lambda>s. s\<lparr>fs_upload_locks := AList.delete (repo, upload) (fs_upload_locks s)\<rparr>)"

definition admit_lock :: "string \<Rightarrow> string \<Rightarrow> ('m, 'f, 'l, 'e, unit) fs_act" where
  "admit_lock repo digest = modify (\<lambda>s. s\<lparr>fs_admit_locks := List.insert (repo, digest) (fs_admit_locks s)\<rparr>)"

definition admit_release :: "string \<Rightarrow> string \<Rightarrow> ('m, 'f, 'l, 'e, unit) fs_act" where
  "admit_release repo digest = modify (\<lambda>s. s\<lparr>fs_admit_locks := removeAll (repo, digest) (fs_admit_locks s)\<rparr>)"

definition is_pending :: "string \<Rightarrow> string \<Rightarrow> ('m, 'f, 'l) fs_store \<Rightarrow> bool" where
  "is_pending repo upload s \<longleftrightarrow> map_of (fs_pending s) (repo, upload) \<noteq> None"

definition take_pending :: "string \<Rightarrow> string \<Rightarrow> ('m, 'f, 'l, 'e, bool) fs_act" where
  "take_pending repo upload =
     and_do (gets (is_pending repo upload)) (\<lambda>was.
     and_do (modify (\<lambda>s. s\<lparr>fs_pending := AList.delete (repo, upload) (fs_pending s)\<rparr>)) (\<lambda>_. ret was))"

section \<open>Cache and bookkeeping\<close>

definition fs_cache_get :: "('x, 'm, 'f, 'l) deps \<Rightarrow> string \<Rightarrow> string \<Rightarrow> ('m, 'f, 'l, 'e, bytes option) fs_act" where
  "fs_cache_get D repo digest s =
     (case blob_cache_get (dp_lru D) repo digest (fs_cache s) of (found, c) \<Rightarrow> (Inr found, s\<lparr>fs_cache := c\<rparr>))"

text \<open>A put that would panic leaves the cache alone; the cache's invariant excludes it.\<close>

definition fs_cache_put :: "('x, 'm, 'f, 'l) deps \<Rightarrow> string \<Rightarrow> string \<Rightarrow> bytes \<Rightarrow> ('m, 'f, 'l, 'e, unit) fs_act" where
  "fs_cache_put D repo digest data =
     modify (\<lambda>s. s\<lparr>fs_cache := (case blob_cache_put (dp_lru D) repo digest data (fs_cache s) of
                                  Some c \<Rightarrow> c | None \<Rightarrow> fs_cache s)\<rparr>)"

definition want_blob :: "string \<Rightarrow> string \<Rightarrow> ('m, 'f, 'l, 'e, unit) fs_act" where
  "want_blob repo digest = modify (\<lambda>s. s\<lparr>fs_gc := gc_touch repo digest (os_time (fs_os s)) (fs_gc s)\<rparr>)"

definition admit_blob :: "string \<Rightarrow> path \<Rightarrow> string \<Rightarrow> u64 \<Rightarrow> ('m, 'f, 'l, u64) fs_op" where
  "admit_blob repo alg_rel leaf sz =
     and_do (gets (\<lambda>s. tracks_bytes (fs_quota s))) (\<lambda>tracked.
     if \<not> tracked then ret 0
     else and_do (err_map Io (on_os (stat_beneath (alg_rel @ [leaf])))) (\<lambda>st.
       case st of
         Some (True, _) \<Rightarrow> ret 0
       | _ \<Rightarrow> and_do (on_quota (admit repo sz)) (\<lambda>_. ret sz)))"

definition blob_entered :: "('x, 'm, 'f, 'l) deps \<Rightarrow> string \<Rightarrow> string \<Rightarrow> blob_checksum option \<Rightarrow> ('m, 'f, 'l, 'e, unit) fs_act" where
  "blob_entered D repo digest checksum =
     modify (\<lambda>s. case note_blob_entered (dp_meta D) repo digest checksum (os_time (fs_os s)) (fs_meta s, fs_gc s, fs_dedupe s) of
       (m, g, d) \<Rightarrow> s\<lparr>fs_presence := presence_insert (dp_filter D) repo digest (fs_presence s),
                       fs_meta := m, fs_gc := g, fs_dedupe := d\<rparr>)"

definition blob_left :: "('x, 'm, 'f, 'l) deps \<Rightarrow> string \<Rightarrow> string \<Rightarrow> u64 option \<Rightarrow> ('m, 'f, 'l, 'e, unit) fs_act" where
  "blob_left D repo digest sz =
     modify (\<lambda>s. case note_blob_left (dp_meta D) repo digest sz (fs_meta s, fs_gc s, fs_dedupe s, fs_quota s) of
       (m, g, d, q) \<Rightarrow> s\<lparr>fs_presence := presence_remove (dp_filter D) repo digest (fs_presence s),
                          fs_cache := blob_cache_invalidate (dp_lru D) repo digest (fs_cache s),
                          fs_meta := m, fs_gc := g, fs_dedupe := d, fs_quota := q\<rparr>)"

definition mark_index_dirty :: "string \<Rightarrow> ('m, 'f, 'l, 'e, unit) fs_act" where
  "mark_index_dirty repo =
     modify (\<lambda>s. s\<lparr>fs_index_dirty := AList.update repo
        ((case map_of (fs_index_dirty s) repo of Some g \<Rightarrow> g | None \<Rightarrow> 0) + 1) (fs_index_dirty s)\<rparr>)"

definition apply_meta :: "('x, 'm, 'f, 'l) deps \<Rightarrow> string \<Rightarrow> meta_op \<Rightarrow> ('m, 'f, 'l, unit) fs_op" where
  "apply_meta D repo op =
     and_do (mark_index_dirty repo) (\<lambda>_.
     observe (err_map Io (on_meta (mt_apply (dp_meta D) op))) (\<lambda>applied.
     and_do (mark_index_dirty repo) (\<lambda>_. lift_res applied)))"

definition ensure_layout :: "string \<Rightarrow> ('m, 'f, 'l, unit) fs_op" where
  "ensure_layout repo =
     and_do (lift_res (repo_rel repo)) (\<lambda>rel.
     and_do (err_map Io (on_os (ensure_layout_beneath rel OCI_LAYOUT_MARKER))) (\<lambda>new.
     when_do new (and_do (lift_res (repo_dir repo)) (\<lambda>dir. err_map Io (on_os (sync_dir (butlast dir)))))))"

section \<open>Walking the store\<close>

text \<open>Results of the body for each element of a list, in order.\<close>

fun collect_each :: "('a \<Rightarrow> ('s, 'e, 'b list) act) \<Rightarrow> 'a list \<Rightarrow> ('s, 'e, 'b list) act" where
  "collect_each f [] = ret []"
| "collect_each f (x # xs) = and_do (f x) (\<lambda>ys. and_do (collect_each f xs) (\<lambda>zs. ret (ys @ zs)))"

definition is_file_at :: "path \<Rightarrow> string \<Rightarrow> (os, 'e, bool) act" where
  "is_file_at d c = observe (statat d c) (\<lambda>r. ret (case r of Inr st \<Rightarrow> st_is_file st | Inl _ \<Rightarrow> False))"

primrec discover_walk :: "nat \<Rightarrow> path \<Rightarrow> (os, 'e, string list) act" where
  "discover_walk 0 rel = ret []"
| "discover_walk (Suc depth) rel =
     observe (read_dir rel) (\<lambda>r. case r of
       Inl _ \<Rightarrow> ret []
     | Inr items \<Rightarrow>
         and_do (if rel = [] then ret []
                 else and_do (is_file_at rel ''index.json'') (\<lambda>has_index.
                      and_do (is_file_at rel ''oci-layout'') (\<lambda>has_layout.
                        ret (if has_index \<or> has_layout then [join_with CHR ''/'' rel] else [])))) (\<lambda>here.
         and_do (collect_each (\<lambda>(name, n).
                   if n \<noteq> Dir \<or> name = ''blobs'' \<or> name = ''uploads'' \<or> prefix ''.'' name then ret []
                   else discover_walk depth (rel @ [name])) items) (\<lambda>below.
         ret (here @ below))))"

definition discover_repos :: "(os, 'e, string list) act" where
  "discover_repos = discover_walk 16 []"

text \<open>
  The blobs of the discovered repositories, each with its repository, its digest and the name of its
  directory entry; the visitors of the source run over this list.
\<close>

definition cas_blobs_of :: "string \<Rightarrow> (os, 'e, (string \<times> digest \<times> string) list) act" where
  "cas_blobs_of repo =
     (let blobs = split_on CHR ''/'' repo @ [''blobs''] in
      observe (statat (butlast blobs) ''blobs'') (\<lambda>st. case st of
        Inl _ \<Rightarrow> ret []
      | Inr _ \<Rightarrow> observe (read_dir blobs) (\<lambda>algs. case algs of
          Inl _ \<Rightarrow> ret []
        | Inr items \<Rightarrow> collect_each (\<lambda>(alg, n).
            if n \<noteq> Dir then ret []
            else observe (read_dir (blobs @ [alg])) (\<lambda>hexes. ret (case hexes of
              Inl _ \<Rightarrow> []
            | Inr files \<Rightarrow> List.map_filter (\<lambda>(hx, k). case k of
                Reg _ \<Rightarrow> (case parse_digest (alg @ '':'' @ hx) of Inr d \<Rightarrow> Some (repo, d, hx) | Inl _ \<Rightarrow> None)
              | _ \<Rightarrow> None) files))) items)))"

definition for_each_cas_entry :: "(os, 'e, (string \<times> digest \<times> string) list) act" where
  "for_each_cas_entry = and_do discover_repos (collect_each cas_blobs_of)"

text \<open>For the visitors that do not look at the entry.\<close>

definition for_each_cas_blob :: "(os, 'e, (string \<times> digest) list) act" where
  "for_each_cas_blob = and_do for_each_cas_entry (\<lambda>es. ret (map (\<lambda>(repo, d, _). (repo, d)) es))"

end
