(* ===== verification/Fs_Index.thy ===== *)
theory Fs_Index
  imports Fs_State
begin

text \<open>
  The \<open>index.json\<close> of each repository (\<open>roci-storage/src/fs_storage/index.rs\<close> and the startup steps of
  \<open>fs_storage/mod.rs\<close>): the write-behind of dirty repositories, its atomic replacement, the startup
  reconciliation, and the reads that fall back to it.
\<close>

section \<open>Reading\<close>

definition read_index_beneath :: "'x ext_api_scheme \<Rightarrow> string \<Rightarrow> json option io" where
  "read_index_beneath E repo =
     and_do (lift_res (map_err (\<lambda>e. Io_Error KOther (storage_error_display e)) (repo_rel repo))) (\<lambda>rel.
     observe (open_beneath (rel @ [''index.json''])) (\<lambda>r. case r of
       Inl e \<Rightarrow> if io_kind_of e = KNotFound then ret None else fail e
     | Inr f \<Rightarrow> and_do (io (read_to_end f)) (\<lambda>b.
         lift_res (case from_slice E b of Some v \<Rightarrow> Inr (Some v) | None \<Rightarrow> Inl (Io_Error KInvalidData [])))))"

text \<open>
  The size of a manifest as \<open>std::fs::metadata\<close> reports it; an error is no size. These lookups are
  not subject to the fault schedule.
\<close>

definition size_lookup :: "os \<Rightarrow> string \<Rightarrow> string \<Rightarrow> u64 option" where
  "size_lookup t repo d =
     Option.bind (split_once CHR '':'' d) (\<lambda>(alg, hx).
       case fst (read_follow (split_on CHR ''/'' repo @ [''blobs'', alg, hx]) (t\<lparr>os_faults := []\<rparr>)) of
         Inr b \<Rightarrow> Some (of_nat (length b)) | Inl _ \<Rightarrow> None)"

definition current_index :: "('x, 'm, 'f, 'l) deps \<Rightarrow> string \<Rightarrow> json option \<Rightarrow> ('m, 'f, 'l) fs_store \<Rightarrow> json" where
  "current_index D repo existing s =
     index_from_meta (dp_ext D) (dp_meta D) (fs_meta s) repo existing (size_lookup (fs_os s) repo)"

definition read_index :: "('x, 'm, 'f, 'l) deps \<Rightarrow> string \<Rightarrow> ('m, 'f, 'l, json) fs_op" where
  "read_index D repo =
     and_do (gets (\<lambda>s. map_of (fs_index_dirty s) repo \<noteq> None)) (\<lambda>is_dirty.
     and_do (lift_res (index_path repo)) (\<lambda>p.
     observe (on_os (io (read_follow p))) (\<lambda>r.
     if is_dirty then
       (case r of
          Inr b \<Rightarrow> gets (current_index D repo (from_slice (dp_ext D) b))
        | Inl e \<Rightarrow> if io_kind_of e = KNotFound then gets (current_index D repo None) else fail (Io e))
     else
       (case r of
          Inr b \<Rightarrow> lift_res (case from_slice (dp_ext D) b of Some v \<Rightarrow> Inr v | None \<Rightarrow> Inl (Io (Io_Error KInvalidData [])))
        | Inl e \<Rightarrow> if io_kind_of e = KNotFound then ret empty_index else fail (Io e)))))"

definition index_media_type_for_digest :: "('x, 'm, 'f, 'l) deps \<Rightarrow> string \<Rightarrow> string \<Rightarrow> ('m, 'f, 'l, string option) fs_op" where
  "index_media_type_for_digest D repo digest =
     and_do (read_index D repo) (\<lambda>index.
     ret (Option.bind (find (\<lambda>e. layout_descriptor_digest e = Some digest) (index_manifests index)) (get_str ''mediaType'')))"

definition index_resolve_tag :: "('x, 'm, 'f, 'l) deps \<Rightarrow> string \<Rightarrow> string \<Rightarrow> ('m, 'f, 'l, digest \<times> string) fs_op" where
  "index_resolve_tag D repo tag =
     and_do (read_index D repo) (\<lambda>index.
     lift_res (and_then (ok_or NotFound (find (\<lambda>e. descriptor_tag e = Some tag) (index_manifests index))) (\<lambda>entry.
       and_then (ok_or NotFound (layout_descriptor_digest entry)) (\<lambda>ds.
       and_then (parse_digest ds) (\<lambda>d.
         Inr (d, case get_str ''mediaType'' entry of Some mt \<Rightarrow> mt | None \<Rightarrow> MEDIA_TYPE_IMAGE_MANIFEST))))))"

section \<open>Writing\<close>

definition index_tmp :: "string \<Rightarrow> string" where
  "index_tmp rnd = ''.index.json.'' @ rnd @ ''.tmp''"

text \<open>The rename to its place; the temporary name is removed when it fails.\<close>

definition install_index :: "path \<Rightarrow> string \<Rightarrow> unit io" where
  "install_index d tmp =
     observe (io (rename_replace d tmp d ''index.json'')) (\<lambda>renamed. case renamed of
       Inl e \<Rightarrow> and_do (ignore (unlinkat d tmp)) (\<lambda>_. fail e)
     | Inr _ \<Rightarrow> io fsync)"

definition try_write_index_otmpfile :: "path \<Rightarrow> bytes \<Rightarrow> string \<Rightarrow> bool io" where
  "try_write_index_otmpfile d data tmp =
     observe (open_tmpfile d) (\<lambda>opened. case opened of
       Inl _ \<Rightarrow> ret False
     | Inr i \<Rightarrow>
         and_do (io (write_all i data)) (\<lambda>_.
         and_do (io fsync) (\<lambda>_.
         and_do (io (link_fd i d tmp)) (\<lambda>_.
         and_do (install_index d tmp) (\<lambda>_. ret True)))))"

definition write_index_named :: "path \<Rightarrow> bytes \<Rightarrow> string \<Rightarrow> unit io" where
  "write_index_named d data tmp =
     and_do (io (openat d tmp O_Create_Excl)) (\<lambda>f.
     observe (and_do (io (write_all (file_of f) data)) (\<lambda>_. io fsync)) (\<lambda>written. case written of
       Inl e \<Rightarrow> and_do (ignore (unlinkat d tmp)) (\<lambda>_. fail e)
     | Inr _ \<Rightarrow> install_index d tmp))"

definition write_index_at_root :: "'x ext_api_scheme \<Rightarrow> string \<Rightarrow> json \<Rightarrow> unit io" where
  "write_index_at_root E repo index =
     and_do (lift_res (map_err (\<lambda>e. Io_Error KOther (storage_error_display e)) (repo_rel repo))) (\<lambda>rel.
     and_do (ensure_layout_beneath rel OCI_LAYOUT_MARKER) (\<lambda>_.
     and_do (dir_beneath rel False) (\<lambda>d.
     and_do (getrandom_hex 8) (\<lambda>rnd.
     and_do (try_write_index_otmpfile d (to_vec E index) (index_tmp rnd)) (\<lambda>written.
     if written then ret () else write_index_named d (to_vec E index) (index_tmp rnd))))))"

definition flush_one :: "('x, 'm, 'f, 'l) deps \<Rightarrow> string \<times> u64 \<Rightarrow> ('m, 'f, 'l, 'e, unit) fs_act" where
  "flush_one D = (\<lambda>(repo, generation).
     observe (on_os (read_index_beneath (dp_ext D) repo)) (\<lambda>r. case r of
       Inl _ \<Rightarrow> ret ()
     | Inr existing \<Rightarrow>
         and_do (gets (current_index D repo existing)) (\<lambda>index.
         observe (on_os (write_index_at_root (dp_ext D) repo index)) (\<lambda>w. case w of
           Inl _ \<Rightarrow> ret ()
         | Inr _ \<Rightarrow> modify (\<lambda>s. if map_of (fs_index_dirty s) repo = Some generation
                                 then s\<lparr>fs_index_dirty := AList.delete repo (fs_index_dirty s)\<rparr> else s)))))"

definition flush_dirty :: "('x, 'm, 'f, 'l) deps \<Rightarrow> ('m, 'f, 'l, 'e, unit) fs_act" where
  "flush_dirty D = and_do (gets fs_index_dirty) (try_each (flush_one D))"

section \<open>Startup\<close>

definition sweep_index_tmp_orphans :: "string \<Rightarrow> (os, 'e, unit) act" where
  "sweep_index_tmp_orphans repo =
     (case repo_rel repo of
        Inl _ \<Rightarrow> ret ()
      | Inr rel \<Rightarrow> observe (read_dir rel) (\<lambda>r. case r of
          Inl _ \<Rightarrow> ret ()
        | Inr items \<Rightarrow> try_each (\<lambda>(name, _).
            if \<not> prefix ''.index.json.'' name \<or> \<not> suffix ''.tmp'' name then ret ()
            else and_do (is_file_at rel name) (\<lambda>regular. when_do regular (ignore (unlinkat rel name)))) items))"

definition reconcile_repo :: "('x, 'm, 'f, 'l) deps \<Rightarrow> string \<Rightarrow> ('m, 'f, 'l, 'e, unit) fs_act" where
  "reconcile_repo D repo =
     and_do (on_os (sweep_index_tmp_orphans repo)) (\<lambda>_.
     observe (on_os (read_index_beneath (dp_ext D) repo)) (\<lambda>r. case r of
       Inr (Some existing) \<Rightarrow>
         and_do (modify (\<lambda>s. s\<lparr>fs_meta := import_foreign_tags (dp_meta D) repo existing (fs_meta s)\<rparr>)) (\<lambda>_.
         and_do (gets (current_index D repo (Some existing))) (\<lambda>rebuilt.
         when_do (\<not> same_manifest_set (dp_ext D) existing rebuilt) (mark_index_dirty repo)))
     | _ \<Rightarrow> ret ()))"

definition reconcile_known :: "('x, 'm, 'f, 'l) deps \<Rightarrow> string \<Rightarrow> ('m, 'f, 'l, 'e, unit) fs_act" where
  "reconcile_known D repo =
     and_do (on_os (sweep_index_tmp_orphans repo)) (\<lambda>_.
     observe (on_os (read_index_beneath (dp_ext D) repo)) (\<lambda>r. case r of
       Inr (Some _) \<Rightarrow> ret ()
     | _ \<Rightarrow> mark_index_dirty repo))"

definition reconcile_index_json :: "('x, 'm, 'f, 'l) deps \<Rightarrow> ('m, 'f, 'l, 'e, unit) fs_act" where
  "reconcile_index_json D =
     and_do (on_os discover_repos) (\<lambda>found.
     and_do (try_each (reconcile_repo D) found) (\<lambda>_.
     and_do (gets (\<lambda>s. mt_repos (dp_meta D) (fs_meta s))) (\<lambda>known.
     and_do (try_each (reconcile_known D) known) (\<lambda>_.
     flush_dirty D))))"

definition warm_entry :: "('x, 'm, 'f, 'l) deps \<Rightarrow> string \<Rightarrow> json \<Rightarrow> 'm \<Rightarrow> 'm" where
  "warm_entry D repo entry m =
     (case (subject_digest entry, layout_descriptor_digest entry) of
        (Some subject, Some referrer) \<Rightarrow>
          if mt_has_referrer (dp_meta D) m repo subject referrer then m
          else snd (mt_apply (dp_meta D) (PutReferrer repo subject referrer (to_vec (dp_ext D) entry)) m)
      | _ \<Rightarrow> m)"

definition warm_referrers_from_layout :: "('x, 'm, 'f, 'l) deps \<Rightarrow> ('m, 'f, 'l, 'e, unit) fs_act" where
  "warm_referrers_from_layout D =
     and_do (on_os discover_repos) (try_each (\<lambda>repo.
       observe (on_os (read_index_beneath (dp_ext D) repo)) (\<lambda>r. case r of
         Inr (Some index) \<Rightarrow> modify (\<lambda>s. s\<lparr>fs_meta := fold (warm_entry D repo) (index_manifests index) (fs_meta s)\<rparr>)
       | _ \<Rightarrow> ret ())))"

definition recover_store :: "('x, 'm, 'f, 'l) deps \<Rightarrow> ('m, 'f, 'l, 'e, unit) fs_act" where
  "recover_store D = and_do (warm_referrers_from_layout D) (\<lambda>_. reconcile_index_json D)"

definition seed_blob :: "('x, 'm, 'f, 'l) deps \<Rightarrow> string \<times> digest \<Rightarrow> ('m, 'f, 'l, 'e, unit) fs_act" where
  "seed_blob D = (\<lambda>(repo, d).
     and_do (modify (\<lambda>s. s\<lparr>fs_presence := presence_insert (dp_filter D) repo (digest_display d) (fs_presence s),
                           fs_dedupe := dedupe_insert repo (digest_display d) (fs_dedupe s)\<rparr>)) (\<lambda>_.
     and_do (gets (\<lambda>s. tracks_bytes (fs_quota s))) (\<lambda>track.
     if \<not> track then ret ()
     else observe (on_os (statat (split_on CHR ''/'' repo @ [''blobs'', algorithm d]) (hex d))) (\<lambda>r. case r of
            Inr st \<Rightarrow> when_do (st_is_file st) (modify (\<lambda>s. s\<lparr>fs_quota := seed repo (of_nat (st_size st)) (fs_quota s)\<rparr>))
          | Inl _ \<Rightarrow> ret ()))))"

definition count_uploads :: "string \<Rightarrow> (os, 'e, string list) act" where
  "count_uploads repo =
     observe (read_dir (split_on CHR ''/'' repo @ [''uploads''])) (\<lambda>r. ret (case r of Inr es \<Rightarrow> map fst es | Inl _ \<Rightarrow> []))"

definition seed_from_cas :: "('x, 'm, 'f, 'l) deps \<Rightarrow> ('m, 'f, 'l, 'e, unit) fs_act" where
  "seed_from_cas D =
     and_do (on_os for_each_cas_blob) (\<lambda>blobs.
     and_do (try_each (seed_blob D) blobs) (\<lambda>_.
     and_do (on_os discover_repos) (\<lambda>repos.
     and_do (on_os (collect_each count_uploads repos)) (\<lambda>sessions.
     modify (\<lambda>s. s\<lparr>fs_quota := seed_sessions (length sessions) (fs_quota s)\<rparr>)))))"

record store_config =
  sc_commit :: bool
  sc_gc_enabled :: bool
  sc_gc_delay_secs :: nat
  sc_dedupe :: bool
  sc_small_blob_threshold :: nat
  sc_cache_max_bytes :: nat

text \<open>A store opened on a root with its metadata engine, without a fast-restart stamp.\<close>

definition fs_new :: "('x, 'm, 'f, 'l) deps \<Rightarrow> store_config \<Rightarrow> quota \<Rightarrow> 'm \<Rightarrow> os \<Rightarrow> ('m, 'f, 'l) fs_store" where
  "fs_new D cfg q m t =
     \<lparr>fs_os = t, fs_commit = sc_commit cfg, fs_meta = m, fs_presence = presence_new (dp_filter D),
      fs_cache = (if sc_cache_max_bytes cfg = 0 then cache_with_limits (dp_lru D) 0 0
                  else cache_with_limits (dp_lru D) (sc_small_blob_threshold cfg) (sc_cache_max_bytes cfg)),
      fs_gc = gc_new (sc_gc_enabled cfg) (sc_gc_delay_secs cfg), fs_quota = q, fs_dedupe = dedupe_new (sc_dedupe cfg),
      fs_upload_locks = [], fs_pending = [], fs_admit_locks = [], fs_index_dirty = []\<rparr>"

definition fs_open :: "('x, 'm, 'f, 'l) deps \<Rightarrow> store_config \<Rightarrow> quota \<Rightarrow> 'm \<Rightarrow> os \<Rightarrow> ('m, 'f, 'l) fs_store" where
  "fs_open D cfg q m t = snd (seed_from_cas D (fs_new D cfg q m t) :: (unit + unit) \<times> ('m, 'f, 'l) fs_store)"

end
