(* ===== verification/Fs_Storage.thy ===== *)
theory Fs_Storage
  imports Fs_Index
begin

text \<open>
  \<open>impl Storage for FsStorage\<close> (\<open>roci-storage/src/fs_storage/storage_impl.rs\<close>): one definition per
  operation of the trait, in the order of the source, with every early return.
\<close>

section \<open>Reading blobs\<close>

definition present :: "('x, 'm, 'f, 'l) deps \<Rightarrow> string \<Rightarrow> string \<Rightarrow> ('m, 'f, 'l, 'e, bool) fs_act" where
  "present D repo digest = gets (\<lambda>s. maybe_present (dp_filter D) repo digest (fs_presence s))"

definition fs_blob_size :: "('x, 'm, 'f, 'l) deps \<Rightarrow> string \<Rightarrow> digest \<Rightarrow> ('m, 'f, 'l, u64) fs_op" where
  "fs_blob_size D repo digest =
     and_do (lift_res (blob_rel repo digest)) (\<lambda>rel.
     and_do (present D repo (digest_display digest)) (\<lambda>maybe.
     if \<not> maybe then fail NotFound
     else and_do (want_blob repo (digest_display digest)) (\<lambda>_.
          and_do (gets (\<lambda>s. mt_checksum (dp_meta D) (fs_meta s) repo (digest_display digest))) (\<lambda>recorded.
          case recorded of
            Some c \<Rightarrow> ret (ck_size c)
          | None \<Rightarrow> and_do (err_map Io (on_os (stat_beneath rel))) (\<lambda>st. case st of
                Some (True, sz) \<Rightarrow> ret (of_nat sz)
              | _ \<Rightarrow> fail NotFound)))))"

definition fs_blob_exists :: "('x, 'm, 'f, 'l) deps \<Rightarrow> string \<Rightarrow> digest \<Rightarrow> ('m, 'f, 'l, bool) fs_op" where
  "fs_blob_exists D repo digest =
     and_do (lift_res (blob_rel repo digest)) (\<lambda>rel.
     and_do (present D repo (digest_display digest)) (\<lambda>maybe.
     if \<not> maybe then ret False
     else and_do (want_blob repo (digest_display digest)) (\<lambda>_.
          and_do (gets (\<lambda>s. mt_checksum (dp_meta D) (fs_meta s) repo (digest_display digest))) (\<lambda>recorded.
          if recorded \<noteq> None then ret True
          else and_do (err_map Io (on_os (stat_beneath rel))) (\<lambda>st.
               ret (case st of Some (True, _) \<Rightarrow> True | _ \<Rightarrow> False))))))"

text \<open>Opening a file below the root and reading all of it.\<close>

definition read_all_beneath :: "path \<Rightarrow> ('m, 'f, 'l, bytes) fs_op" where
  "read_all_beneath rel =
     and_do (err_map map_not_found (on_os (open_beneath rel))) (\<lambda>f. err_map map_not_found (on_os (io (read_to_end f))))"

definition fs_read_blob :: "('x, 'm, 'f, 'l) deps \<Rightarrow> string \<Rightarrow> digest \<Rightarrow> ('m, 'f, 'l, bytes) fs_op" where
  "fs_read_blob D repo digest =
     and_do (fs_cache_get D repo (digest_display digest)) (\<lambda>cached. case cached of
       Some b \<Rightarrow> ret b
     | None \<Rightarrow>
         and_do (lift_res (blob_rel repo digest)) (\<lambda>rel.
         and_do (present D repo (digest_display digest)) (\<lambda>maybe.
         if \<not> maybe then fail NotFound
         else and_do (read_all_beneath rel) (\<lambda>b.
              and_do (fs_cache_put D repo (digest_display digest) b) (\<lambda>_. ret b)))))"

text \<open>An open file is represented by its contents: nothing writes to a blob's file.\<close>

definition fs_open_blob :: "('x, 'm, 'f, 'l) deps \<Rightarrow> string \<Rightarrow> digest \<Rightarrow> ('m, 'f, 'l, blob_read) fs_op" where
  "fs_open_blob D repo digest =
     and_do (present D repo (digest_display digest)) (\<lambda>maybe.
     if \<not> maybe then fail NotFound
     else and_do (lift_res (blob_rel repo digest)) (\<lambda>rel.
          and_do (err_map map_not_found (on_os (open_beneath rel))) (\<lambda>f.
          and_do (err_map map_not_found (on_os (io (fstat (File_Fd f))))) (\<lambda>st.
          gets (\<lambda>s. \<lparr>br_size = of_nat (st_size st), br_source = FileSource (os_data (fs_os s) f)\<rparr>)))))"

section \<open>Upload sessions\<close>

definition fs_begin_upload :: "string \<Rightarrow> ('m, 'f, 'l, string) fs_op" where
  "fs_begin_upload repo =
     and_do (err_map Io (on_os (getrandom_hex 16))) (\<lambda>upload.
     and_do (lift_res (upload_dir_rel repo upload)) (\<lambda>_.
     and_do (on_quota begin_session) (\<lambda>_.
     and_do (modify (\<lambda>s. s\<lparr>fs_pending := AList.update (repo, upload) (os_time (fs_os s)) (fs_pending s)\<rparr>)) (\<lambda>_.
     ret upload))))"

datatype staging = Missing | NotRegular | Ready nat nat nat

definition ino_of :: "stat \<Rightarrow> nat" where
  "ino_of st = (case st_ino st of Some i \<Rightarrow> i | None \<Rightarrow> 0)"

definition prepare_staging :: "path \<Rightarrow> bool \<Rightarrow> staging io" where
  "prepare_staging rel create =
     (if create then
        and_do (dir_beneath (butlast rel) True) (\<lambda>d.
        and_do (io (openat d (last rel) O_Create_Excl)) (\<lambda>fd.
        and_do (io (fstat fd)) (\<lambda>st.
        ret (Ready (file_of fd) 0 (ino_of st)))))
      else
        and_do (stat_beneath rel) (\<lambda>st. case st of
          None \<Rightarrow> ret Missing
        | Some (False, _) \<Rightarrow> ret NotRegular
        | Some (True, _) \<Rightarrow>
            and_do (resolve_beneath rel O_Append) (\<lambda>f.
            and_do (io (fstat (File_Fd f))) (\<lambda>st.
            ret (Ready f (st_size st) (ino_of st))))))"

definition prepare_session :: "string \<Rightarrow> string \<Rightarrow> ('m, 'f, 'l, staging) fs_op" where
  "prepare_session repo upload =
     and_do (lift_res (upload_rel repo upload)) (\<lambda>rel.
     and_do (gets (is_pending repo upload)) (\<lambda>create.
     and_do (err_map map_not_found (on_os (prepare_staging rel create))) (\<lambda>staging.
     and_do (when_do create (and_do (take_pending repo upload) (\<lambda>_. ret ()))) (\<lambda>_. ret staging))))"

definition seed_hash :: "staged_hash option \<Rightarrow> nat \<Rightarrow> staged_hash option" where
  "seed_hash hash current =
     (case hash of Some h \<Rightarrow> Some h | None \<Rightarrow> if current = 0 then Some staged_hash_new else None)"

definition fs_append_upload :: "('x, 'm, 'f, 'l) deps \<Rightarrow> string \<Rightarrow> string \<Rightarrow> byte_stream \<Rightarrow> u64 option \<Rightarrow> u64
    \<Rightarrow> ('m, 'f, 'l, u64) fs_op" where
  "fs_append_upload D repo upload body expected_offset limit =
     and_do (session_lock repo upload) (\<lambda>hash.
     and_do (prepare_session repo upload) (\<lambda>staging. case staging of
       Missing \<Rightarrow> and_do (drop_session repo upload) (\<lambda>_. fail NotFound)
     | NotRegular \<Rightarrow> fail (Io (Io_Error KOther (''upload '' @ upload @ '' is not a regular file'')))
     | Ready f current _ \<Rightarrow>
         and_do (case expected_offset of
                   Some offset \<Rightarrow> if offset \<noteq> of_nat current then fail (RangeNotSatisfiable (of_nat current) offset) else ret ()
                 | None \<Rightarrow> ret ()) (\<lambda>_.
         and_do (set_session_hash repo upload None) (\<lambda>_.
         and_do (on_os (append_body (dp_ext D) f current body limit (seed_hash hash current))) (\<lambda>(total, extended).
         and_do (set_session_hash repo upload extended) (\<lambda>_. ret (of_nat total)))))))"

definition fs_upload_size :: "string \<Rightarrow> string \<Rightarrow> ('m, 'f, 'l, u64) fs_op" where
  "fs_upload_size repo upload =
     and_do (gets (is_pending repo upload)) (\<lambda>pending.
     if pending then ret 0
     else and_do (lift_res (upload_rel repo upload)) (\<lambda>rel.
          and_do (err_map map_not_found (on_os (stat_beneath rel))) (\<lambda>st. case st of
            Some (True, sz) \<Rightarrow> ret (of_nat sz)
          | _ \<Rightarrow> fail NotFound)))"

section \<open>Landing a blob\<close>

definition dedupe_link :: "('x, 'm, 'f, 'l) deps \<Rightarrow> string \<Rightarrow> path \<Rightarrow> string \<Rightarrow> string \<Rightarrow> ('m, 'f, 'l, 'e, bool) fs_act" where
  "dedupe_link D repo alg_rel leaf digest =
     and_do (gets (\<lambda>s. dedupe_locate digest repo (fs_dedupe s))) (\<lambda>found. case found of
       None \<Rightarrow> ret False
     | Some src_repo \<Rightarrow>
         (case parse_digest digest of
            Inl _ \<Rightarrow> ret False
          | Inr d \<Rightarrow>
              (case blob_dir_rel src_repo d of
                 Inl _ \<Rightarrow> ret False
               | Inr (src_alg_rel, _) \<Rightarrow>
                   and_do (gets fs_commit) (\<lambda>commit.
                   observe (on_os (mount_promote_beneath src_alg_rel alg_rel leaf False commit)) (\<lambda>r. case r of
                     Inr _ \<Rightarrow> ret True
                   | Inl e \<Rightarrow>
                       and_do (when_do (io_kind_of e = KNotFound)
                                 (modify (\<lambda>s. s\<lparr>fs_dedupe := dedupe_remove src_repo digest (fs_dedupe s)\<rparr>))) (\<lambda>_.
                       ret False))))))"

definition size_for_release :: "path \<Rightarrow> ('m, 'f, 'l, 'e, u64 option) fs_act" where
  "size_for_release rel =
     and_do (gets (\<lambda>s. tracks_bytes (fs_quota s))) (\<lambda>tracked.
     if \<not> tracked then ret None
     else observe (on_os (stat_beneath rel)) (\<lambda>r. ret (case r of Inr (Some (True, sz)) \<Rightarrow> Some (of_nat sz) | _ \<Rightarrow> None)))"

definition discard_session :: "string \<Rightarrow> string \<Rightarrow> ('m, 'f, 'l, unit) fs_op" where
  "discard_session repo upload =
     and_do (lift_res (upload_dir_rel repo upload)) (\<lambda>(up_dir, up_leaf).
     and_do (take_pending repo upload) (\<lambda>pending.
     and_do (if pending then ret True else observe (on_os (unlink_beneath up_dir up_leaf)) (\<lambda>r. ret (is_ok r))) (\<lambda>gone.
     and_do (when_do gone (modify (\<lambda>s. s\<lparr>fs_quota := end_session (fs_quota s)\<rparr>))) (\<lambda>_.
     drop_session repo upload))))"

definition layout_and_admit :: "path \<Rightarrow> string \<Rightarrow> path \<Rightarrow> string \<Rightarrow> u64 \<Rightarrow> ('m, 'f, 'l, u64) fs_op" where
  "layout_and_admit rel repo alg_rel leaf sz =
     and_do (err_map Io (on_os (ensure_layout_beneath rel OCI_LAYOUT_MARKER))) (\<lambda>new.
     and_do (when_do new (err_map Io (on_os (sync_dir (butlast rel))))) (\<lambda>_.
     admit_blob repo alg_rel leaf sz))"

record land_ctx =
  lc_repo :: string
  lc_repo_rel :: path
  lc_up_dir :: path
  lc_up_leaf :: string
  lc_alg_rel :: path
  lc_hex :: string
  lc_digest :: string
  lc_size :: nat
  lc_ino :: nat
  lc_verify :: "(deferred \<times> digest) option"

datatype landed = Done "u32 option" | Mismatch digest | Rejected storage_error | Failed u64 storage_error

text \<open>The deferred tail is written and the digest checked, with the outcome that ends the landing early.\<close>

definition land_verify :: "('x, 'm, 'f, 'l) deps \<Rightarrow> (deferred \<times> digest) option \<Rightarrow> ('m, 'f, 'l, 'e, landed + u32 option) fs_act" where
  "land_verify D verify =
     (case verify of
        None \<Rightarrow> ret (Inr None)
      | Some (body, expected) \<Rightarrow>
          observe (on_os (write_tail (dp_ext D) body)) (\<lambda>r. case r of
            Inr (Some h) \<Rightarrow>
              (let (actual, crc) = staged_finish (dp_ext D) h in
               ret (if \<not> digest_ct_eq actual expected then Inl (Mismatch actual) else Inr (Some crc)))
          | Inr None \<Rightarrow> ret (Inl (Mismatch expected))
          | Inl e \<Rightarrow> ret (Inl (Failed 0 (map_not_found e)))))"

definition land_blob :: "('x, 'm, 'f, 'l) deps \<Rightarrow> land_ctx \<Rightarrow> ('m, 'f, 'l, 'e, landed) fs_act" where
  "land_blob D c =
     and_do (land_verify D (lc_verify c)) (\<lambda>v. case v of
       Inl early \<Rightarrow> ret early
     | Inr crc \<Rightarrow>
         observe (layout_and_admit (lc_repo_rel c) (lc_repo c) (lc_alg_rel c) (lc_hex c) (of_nat (lc_size c))) (\<lambda>r. case r of
           Inl e \<Rightarrow> ret (Rejected e)
         | Inr charged \<Rightarrow>
             and_do (dedupe_link D (lc_repo c) (lc_alg_rel c) (lc_hex c) (lc_digest c)) (\<lambda>linked.
             and_do (gets fs_commit) (\<lambda>commit.
             observe (on_os (if linked then unlink_beneath (lc_up_dir c) (lc_up_leaf c)
                             else rename_beneath (lc_up_dir c) (lc_up_leaf c) (lc_alg_rel c) (lc_hex c) (lc_ino c) commit)) (\<lambda>r.
             ret (case r of Inl e \<Rightarrow> Failed charged (map_not_found e) | Inr _ \<Rightarrow> Done crc))))))"

text \<open>The separate verification: the tail is written, the file opened again and, where the hash on
  the way does not cover it, hashed from the disk.\<close>

definition finish_verify :: "'x ext_api_scheme \<Rightarrow> deferred \<Rightarrow> bool \<Rightarrow> path \<Rightarrow> string \<Rightarrow> bool \<Rightarrow> (digest \<times> u32 \<times> nat) io" where
  "finish_verify E body covers rel alg commit =
     and_do (write_tail E body) (\<lambda>written.
     and_do (resolve_beneath rel O_Read) (\<lambda>f.
     and_do (when_do commit (io fsync)) (\<lambda>_.
     and_do (io (fstat (File_Fd f))) (\<lambda>st.
     and_do (case (if covers then written else None) of
               Some h \<Rightarrow> ret (staged_finish E h)
             | None \<Rightarrow> and_do (io (read_to_end f)) (\<lambda>data. lift_res (hash_std E [Inr data] alg))) (\<lambda>(d, crc).
     ret (d, crc, ino_of st))))))"

definition landing_done :: "('x, 'm, 'f, 'l) deps \<Rightarrow> string \<Rightarrow> string \<Rightarrow> digest \<Rightarrow> nat \<Rightarrow> u32 option \<Rightarrow> landed
    \<Rightarrow> ('m, 'f, 'l, unit) fs_op" where
  "landing_done D repo upload expected staged_size verified_crc landed =
     (let digest = digest_display expected in
      case landed of
        Done landed_crc \<Rightarrow>
          (let crc = (case landed_crc of Some c \<Rightarrow> c | None \<Rightarrow> (case verified_crc of Some c \<Rightarrow> c | None \<Rightarrow> 0)) in
           and_do (modify (\<lambda>s. s\<lparr>fs_quota := end_session (fs_quota s)\<rparr>)) (\<lambda>_.
           and_do (drop_session repo upload) (\<lambda>_.
           and_do (blob_entered D repo digest (Some \<lparr>ck_crc32c = crc, ck_size = of_nat staged_size\<rparr>)) (\<lambda>_.
           admit_release repo digest))))
      | Mismatch actual \<Rightarrow>
          and_do (admit_release repo digest) (\<lambda>_.
          and_do (discard_session repo upload) (\<lambda>_.
          fail (DigestMismatch digest (digest_display actual))))
      | Rejected e \<Rightarrow>
          and_do (admit_release repo digest) (\<lambda>_.
          and_do (discard_session repo upload) (\<lambda>_. fail e))
      | Failed charged e \<Rightarrow>
          and_do (modify (\<lambda>s. s\<lparr>fs_quota := release repo charged (fs_quota s)\<rparr>)) (\<lambda>_.
          and_do (admit_release repo digest) (\<lambda>_. fail e)))"

text \<open>From the verified body to the landed blob.\<close>

definition finish_land :: "('x, 'm, 'f, 'l) deps \<Rightarrow> string \<Rightarrow> string \<Rightarrow> digest \<Rightarrow> nat \<Rightarrow> nat \<Rightarrow> (deferred \<times> digest) option
    \<Rightarrow> u32 option \<Rightarrow> ('m, 'f, 'l, unit) fs_op" where
  "finish_land D repo upload expected staged_size ino verify verified_crc =
     and_do (lift_res (upload_dir_rel repo upload)) (\<lambda>(up_dir, up_leaf).
     and_do (lift_res (blob_dir_rel repo expected)) (\<lambda>(alg_rel, hx).
     and_do (lift_res (repo_rel repo)) (\<lambda>rel.
     and_do (admit_lock repo (digest_display expected)) (\<lambda>_.
     and_do (land_blob D \<lparr>lc_repo = repo, lc_repo_rel = rel, lc_up_dir = up_dir, lc_up_leaf = up_leaf, lc_alg_rel = alg_rel,
                lc_hex = hx, lc_digest = digest_display expected, lc_size = staged_size, lc_ino = ino, lc_verify = verify\<rparr>)
       (landing_done D repo upload expected staged_size verified_crc)))))"

definition finish_staged :: "('x, 'm, 'f, 'l) deps \<Rightarrow> string \<Rightarrow> string \<Rightarrow> digest \<Rightarrow> path \<Rightarrow> nat \<Rightarrow> deferred \<Rightarrow> ('m, 'f, 'l, unit) fs_op" where
  "finish_staged D repo upload expected staging_rel staging_ino body =
     (let covers = (case df_hash body of Some h \<Rightarrow> sh_len h = df_tail_at body | None \<Rightarrow> False) \<and> algorithm expected = ''sha256'' in
      and_do (gets fs_commit) (\<lambda>commit.
      if covers \<and> \<not> commit
      then finish_land D repo upload expected (df_len body) staging_ino (Some (body, expected)) None
      else and_do (err_map map_not_found (on_os (finish_verify (dp_ext D) body covers staging_rel (algorithm expected) commit)))
             (\<lambda>(actual, crc, ino).
             if \<not> digest_ct_eq actual expected
             then and_do (discard_session repo upload) (\<lambda>_.
                  fail (DigestMismatch (digest_display expected) (digest_display actual)))
             else finish_land D repo upload expected (df_len body) ino None (Some crc))))"

definition fs_finish_upload :: "('x, 'm, 'f, 'l) deps \<Rightarrow> string \<Rightarrow> string \<Rightarrow> digest \<Rightarrow> u64 \<Rightarrow> byte_stream \<Rightarrow> u64
    \<Rightarrow> ('m, 'f, 'l, unit) fs_op" where
  "fs_finish_upload D repo upload expected max_size trailing limit =
     and_do (session_lock repo upload) (\<lambda>hash.
     and_do (lift_res (upload_rel repo upload)) (\<lambda>staging_rel.
     and_do (prepare_session repo upload) (\<lambda>staging. case staging of
       Missing \<Rightarrow> and_do (drop_session repo upload) (\<lambda>_. fail NotFound)
     | NotRegular \<Rightarrow> and_do (discard_session repo upload) (\<lambda>_.
                       fail (BadPath (''upload '' @ upload @ '' is not a regular file'')))
     | Ready f current ino \<Rightarrow>
         and_do (set_session_hash repo upload None) (\<lambda>_.
         and_do (on_os (append_body_deferring_tail (dp_ext D) f current trailing limit (seed_hash hash current))) (\<lambda>body.
         if unat max_size < df_len body
         then and_do (discard_session repo upload) (\<lambda>_. fail (TooLarge max_size (of_nat (df_len body))))
         else finish_staged D repo upload expected staging_rel ino body)))))"

definition fs_abort_upload :: "string \<Rightarrow> string \<Rightarrow> ('m, 'f, 'l, bool) fs_op" where
  "fs_abort_upload repo upload =
     and_do (session_lock repo upload) (\<lambda>_.
     and_do (lift_res (upload_dir_rel repo upload)) (\<lambda>(up_dir, up_leaf).
     and_do (take_pending repo upload) (\<lambda>pending.
     and_do (if pending then ret True
             else observe (on_os (unlink_beneath up_dir up_leaf)) (\<lambda>r. case r of
                    Inr _ \<Rightarrow> ret True
                  | Inl e \<Rightarrow> if io_kind_of e = KNotFound then ret False else fail (Io e))) (\<lambda>removed.
     and_do (when_do removed (modify (\<lambda>s. s\<lparr>fs_quota := end_session (fs_quota s)\<rparr>))) (\<lambda>_.
     and_do (drop_session repo upload) (\<lambda>_. ret removed))))))"

definition fs_put_blob :: "('x, 'm, 'f, 'l) deps \<Rightarrow> string \<Rightarrow> digest \<Rightarrow> bytes \<Rightarrow> ('m, 'f, 'l, unit) fs_op" where
  "fs_put_blob D repo digest data =
     (let actual = digest_of (dp_ext D) data (algorithm digest); ds = digest_display digest in
      if \<not> digest_ct_eq actual digest then fail (DigestMismatch ds (digest_display actual))
      else
        and_do (ensure_layout repo) (\<lambda>_.
        and_do (lift_res (blob_dir_rel repo digest)) (\<lambda>(alg_rel, leaf).
        and_do (admit_lock repo ds) (\<lambda>_.
        and_do (admit_blob repo alg_rel leaf (of_nat (length data))) (\<lambda>charged.
        and_do (dedupe_link D repo alg_rel leaf ds) (\<lambda>linked.
        and_do (gets fs_commit) (\<lambda>commit.
        observe (if linked then ret () else on_os (publish_bytes alg_rel leaf data commit)) (\<lambda>r. case r of
          Inl e \<Rightarrow>
            and_do (modify (\<lambda>s. s\<lparr>fs_quota := release repo charged (fs_quota s)\<rparr>)) (\<lambda>_.
            and_do (admit_release repo ds) (\<lambda>_. fail (Io e)))
        | Inr _ \<Rightarrow>
            and_do (blob_entered D repo ds (Some \<lparr>ck_crc32c = crc32c (dp_ext D) data, ck_size = of_nat (length data)\<rparr>)) (\<lambda>_.
            admit_release repo ds)))))))))"

definition fs_delete_blob :: "('x, 'm, 'f, 'l) deps \<Rightarrow> string \<Rightarrow> digest \<Rightarrow> ('m, 'f, 'l, unit) fs_op" where
  "fs_delete_blob D repo digest =
     and_do (lift_res (blob_dir_rel repo digest)) (\<lambda>(alg_rel, leaf).
     and_do (size_for_release (alg_rel @ [leaf])) (\<lambda>sz.
     and_do (err_map map_not_found (on_os (unlink_beneath alg_rel leaf))) (\<lambda>_.
     blob_left D repo (digest_display digest) sz)))"

section \<open>Manifests\<close>

datatype manifest_landed = MRejected storage_error | MFailed u64 storage_error | Stored "nat option" "storage_error option"

fun recheck :: "nat \<Rightarrow> path list \<Rightarrow> (os, 'e, manifest_landed) act" where
  "recheck i [] = ret (Stored None None)"
| "recheck i (rel # rels) =
     observe (stat_beneath rel) (\<lambda>r. case r of
       Inr (Some (True, _)) \<Rightarrow> recheck (Suc i) rels
     | Inr _ \<Rightarrow> ret (Stored (Some i) None)
     | Inl e \<Rightarrow> ret (Stored None (Some (Io e))))"

definition land_manifest :: "('x, 'm, 'f, 'l) deps \<Rightarrow> string \<Rightarrow> path \<Rightarrow> path \<Rightarrow> string \<Rightarrow> string \<Rightarrow> bytes \<Rightarrow> path list
    \<Rightarrow> ('m, 'f, 'l, 'e, manifest_landed) fs_act" where
  "land_manifest D repo rel alg_rel leaf digest data required =
     observe (layout_and_admit rel repo alg_rel leaf (of_nat (length data))) (\<lambda>r. case r of
       Inl e \<Rightarrow> ret (MRejected e)
     | Inr charged \<Rightarrow>
         and_do (dedupe_link D repo alg_rel leaf digest) (\<lambda>linked.
         observe (if linked then ret () else on_os (publish_bytes alg_rel leaf data True)) (\<lambda>r. case r of
           Inl e \<Rightarrow> ret (MFailed charged (Io e))
         | Inr _ \<Rightarrow> on_os (recheck 0 required))))"

text \<open>Recording the manifest once its bytes and its required blobs are on disk.\<close>

definition record_manifest :: "('x, 'm, 'f, 'l) deps \<Rightarrow> string \<Rightarrow> string option \<Rightarrow> string \<Rightarrow> string \<Rightarrow> string list
    \<Rightarrow> (string \<times> bytes) option \<Rightarrow> ('m, 'f, 'l, unit) fs_op" where
  "record_manifest D repo tag ds media_type references ref =
     and_do (apply_meta D repo (PutManifest repo ds media_type tag references ref)) (\<lambda>_.
     modify (\<lambda>s. s\<lparr>fs_gc := fold (gc_clear repo) (ds # references) (fs_gc s)\<rparr>))"

definition fs_put_manifest :: "('x, 'm, 'f, 'l) deps \<Rightarrow> string \<Rightarrow> string option \<Rightarrow> digest \<Rightarrow> string \<Rightarrow> bytes \<Rightarrow> manifest_links
    \<Rightarrow> ('m, 'f, 'l, unit) fs_op" where
  "fs_put_manifest D repo tag digest media_type data links =
     (let actual = digest_of (dp_ext D) data (algorithm digest); ds = digest_display digest in
      and_do (lift_res (case tag of Some t \<Rightarrow> and_then (safe_component t) (\<lambda>_. Inr ()) | None \<Rightarrow> Inr ())) (\<lambda>_.
      and_do (lift_res (case ml_subject links of
                Some (subject, descriptor) \<Rightarrow>
                  and_then (merged_referrer_descriptor (dp_ext D) subject descriptor) (\<lambda>m. Inr (Some (digest_display subject, m)))
              | None \<Rightarrow> Inr None)) (\<lambda>ref.
      if \<not> digest_ct_eq actual digest then fail (DigestMismatch ds (digest_display actual))
      else
        and_do (lift_res (blob_dir_rel repo digest)) (\<lambda>(alg_rel, leaf).
        and_do (lift_res (collect_results (blob_rel repo) (ml_required links))) (\<lambda>required.
        and_do (lift_res (repo_rel repo)) (\<lambda>rel.
        and_do (land_manifest D repo rel alg_rel leaf ds data required) (\<lambda>landed. case landed of
          MRejected e \<Rightarrow> fail e
        | MFailed charged e \<Rightarrow> and_do (modify (\<lambda>s. s\<lparr>fs_quota := release repo charged (fs_quota s)\<rparr>)) (\<lambda>_. fail e)
        | Stored missing recheck_error \<Rightarrow>
            and_do (blob_entered D repo ds (Some \<lparr>ck_crc32c = crc32c (dp_ext D) data, ck_size = of_nat (length data)\<rparr>)) (\<lambda>_.
            and_do (fs_cache_put D repo ds data) (\<lambda>_.
            case recheck_error of
              Some e \<Rightarrow> fail e
            | None \<Rightarrow>
                (case missing of
                   Some i \<Rightarrow> fail (MissingReference (digest_display (ml_required links ! i)))
                 | None \<Rightarrow> record_manifest D repo tag ds media_type (map digest_display (ml_references links)) ref))))))))))"

definition manifest_reference :: "('x, 'm, 'f, 'l) deps \<Rightarrow> string \<Rightarrow> string \<Rightarrow> ('m, 'f, 'l, digest \<times> string) fs_op" where
  "manifest_reference D repo reference =
     (if CHR '':'' \<in> set reference then
        and_do (lift_res (parse_digest reference)) (\<lambda>digest.
        and_do (gets (\<lambda>s. mt_manifest_media_type (dp_meta D) (fs_meta s) repo reference)) (\<lambda>recorded. case recorded of
          Some mt \<Rightarrow> ret (digest, mt)
        | None \<Rightarrow> and_do (index_media_type_for_digest D repo reference) (\<lambda>found.
                    ret (digest, case found of Some mt \<Rightarrow> mt | None \<Rightarrow> MEDIA_TYPE_IMAGE_MANIFEST))))
      else
        and_do (gets (\<lambda>s. mt_resolve_tag (dp_meta D) (fs_meta s) repo reference)) (\<lambda>resolved. case resolved of
          Some (ds, mt) \<Rightarrow> and_do (lift_res (parse_digest ds)) (\<lambda>d. ret (d, mt))
        | None \<Rightarrow> index_resolve_tag D repo reference))"

definition fs_get_manifest :: "('x, 'm, 'f, 'l) deps \<Rightarrow> string \<Rightarrow> string \<Rightarrow> ('m, 'f, 'l, manifest_ref) fs_op" where
  "fs_get_manifest D repo reference =
     and_do (manifest_reference D repo reference) (\<lambda>(digest, media_type).
     and_do (fs_cache_get D repo (digest_display digest)) (\<lambda>cached.
     and_do (case cached of
               Some b \<Rightarrow> ret b
             | None \<Rightarrow>
                 and_do (lift_res (blob_rel repo digest)) (\<lambda>rel.
                 and_do (read_all_beneath rel) (\<lambda>b.
                 and_do (fs_cache_put D repo (digest_display digest) b) (\<lambda>_. ret b)))) (\<lambda>b.
     ret \<lparr>mr_digest = digest, mr_media_type = media_type, mr_bytes = b\<rparr>)))"

definition seed_candidate :: "('x, 'm, 'f, 'l) deps \<Rightarrow> string \<Rightarrow> string \<Rightarrow> ('m, 'f, 'l) fs_store \<Rightarrow> ('m, 'f, 'l) fs_store" where
  "seed_candidate D repo r s =
     (if mt_backrefs (dp_meta D) (fs_meta s) repo r = [] \<and> maybe_present (dp_filter D) repo r (fs_presence s)
      then s\<lparr>fs_gc := gc_mark_at repo r (os_time (fs_os s)) (fs_gc s)\<rparr> else s)"

definition fs_delete_manifest :: "('x, 'm, 'f, 'l) deps \<Rightarrow> string \<Rightarrow> digest \<Rightarrow> ('m, 'f, 'l, unit) fs_op" where
  "fs_delete_manifest D repo digest =
     (let ds = digest_display digest in
      and_do (lift_res (blob_dir_rel repo digest)) (\<lambda>(alg_rel, leaf).
      and_do (fs_cache_get D repo ds) (\<lambda>cached.
      and_do (case cached of Some b \<Rightarrow> ret b | None \<Rightarrow> read_all_beneath (alg_rel @ [leaf])) (\<lambda>b.
      and_do (err_map map_not_found (on_os (unlink_beneath alg_rel leaf))) (\<lambda>_.
      and_do (blob_left D repo ds (Some (of_nat (length b)))) (\<lambda>_.
      and_do (apply_meta D repo (DeleteManifest repo ds)) (\<lambda>_.
      modify (fold (seed_candidate D repo)
        (case from_slice (dp_ext D) b of Some v \<Rightarrow> map digest_display (manifest_references v) | None \<Rightarrow> [])))))))))"

section \<open>Listing\<close>

definition fs_list_tags :: "('x, 'm, 'f, 'l) deps \<Rightarrow> string \<Rightarrow> string option \<Rightarrow> nat \<Rightarrow> ('m, 'f, 'l, string page) fs_op" where
  "fs_list_tags D repo last_seen limit =
     and_do (gets (\<lambda>s. mt_tags_page (dp_meta D) (fs_meta s) repo last_seen limit)) (\<lambda>p. case p of
       Some page \<Rightarrow> ret page
     | None \<Rightarrow> and_do (read_index D repo) (\<lambda>index. ret (layout_tags_page index last_seen limit)))"

definition empty_page :: "'a page" where
  "empty_page = \<lparr>page_items = [], page_more = False\<rparr>"

text \<open>The referrers listed by the tag schema; every failure on the way is an empty page.\<close>

definition tag_schema_referrers :: "('x, 'm, 'f, 'l) deps \<Rightarrow> string \<Rightarrow> digest \<Rightarrow> string option \<Rightarrow> string option \<Rightarrow> nat
    \<Rightarrow> ('m, 'f, 'l, 'e, (string \<times> bytes) page) fs_act" where
  "tag_schema_referrers D repo subject artifact_type last_seen limit =
     (let schema_tag = algorithm subject @ ''-'' @ take 64 (hex subject) in
      and_do (gets (\<lambda>s. mt_resolve_tag (dp_meta D) (fs_meta s) repo schema_tag)) (\<lambda>known.
      and_do (case known of
                Some (ds, _) \<Rightarrow> ret (case parse_digest ds of Inr d \<Rightarrow> Some d | Inl _ \<Rightarrow> None)
              | None \<Rightarrow> observe (index_resolve_tag D repo schema_tag) (\<lambda>r. ret (case r of Inr (d, _) \<Rightarrow> Some d | Inl _ \<Rightarrow> None)))
        (\<lambda>resolved. case resolved of
          None \<Rightarrow> ret empty_page
        | Some d \<Rightarrow> observe (fs_read_blob D repo d) (\<lambda>r. ret (case r of
            Inl _ \<Rightarrow> empty_page
          | Inr b \<Rightarrow>
              (case Option.bind (from_slice (dp_ext D) b) (\<lambda>v. Option.bind (json_get ''manifests'' v) as_array) of
                 None \<Rightarrow> empty_page
               | Some arr \<Rightarrow>
                   page_layout_referrers (dp_ext D)
                     (List.map_filter (\<lambda>entry. map_option (\<lambda>x. (digest_display x, entry)) (parsed_digest entry)) arr)
                     artifact_type last_seen limit))))))"

definition fs_list_referrers :: "('x, 'm, 'f, 'l) deps \<Rightarrow> string \<Rightarrow> digest \<Rightarrow> string option \<Rightarrow> string option \<Rightarrow> nat
    \<Rightarrow> ('m, 'f, 'l, (string \<times> bytes) page) fs_op" where
  "fs_list_referrers D repo subject artifact_type last_seen limit =
     (let target = digest_display subject in
      and_do (gets (\<lambda>s. mt_referrers_page (dp_meta D) (fs_meta s) repo target artifact_type last_seen limit)) (\<lambda>p. case p of
        Some page \<Rightarrow> ret page
      | None \<Rightarrow>
          and_do (read_index D repo) (\<lambda>index.
          let linked = layout_subject_referrers index target in
          if linked \<noteq> [] then ret (page_layout_referrers (dp_ext D) linked artifact_type last_seen limit)
          else tag_schema_referrers D repo subject artifact_type last_seen limit)))"

section \<open>Mounting\<close>

definition fs_mount_blob :: "('x, 'm, 'f, 'l) deps \<Rightarrow> string \<Rightarrow> string \<Rightarrow> digest \<Rightarrow> ('m, 'f, 'l, bool) fs_op" where
  "fs_mount_blob D from_repo to_repo digest =
     (let ds = digest_display digest in
      observe (fs_blob_size D from_repo digest) (\<lambda>found. case found of
        Inl e \<Rightarrow> if e = NotFound then ret False else fail e
      | Inr sz \<Rightarrow>
          and_do (lift_res (blob_dir_rel from_repo digest)) (\<lambda>(from_alg_rel, leaf).
          and_do (lift_res (blob_dir_rel to_repo digest)) (\<lambda>(to_alg_rel, _).
          if from_alg_rel = to_alg_rel
          then and_do (modify (\<lambda>s. s\<lparr>fs_presence := presence_insert (dp_filter D) to_repo ds (fs_presence s)\<rparr>)) (\<lambda>_. ret True)
          else
            and_do (ensure_layout to_repo) (\<lambda>_.
            and_do (admit_lock to_repo ds) (\<lambda>_.
            observe (admit_blob to_repo to_alg_rel leaf sz) (\<lambda>admitted. case admitted of
              Inl e \<Rightarrow> and_do (admit_release to_repo ds) (\<lambda>_. fail e)
            | Inr charged \<Rightarrow>
                and_do (gets fs_commit) (\<lambda>commit.
                observe (on_os (mount_promote_beneath from_alg_rel to_alg_rel leaf True commit)) (\<lambda>promoted. case promoted of
                  Inl e \<Rightarrow>
                    and_do (modify (\<lambda>s. s\<lparr>fs_quota := release to_repo charged (fs_quota s)\<rparr>)) (\<lambda>_.
                    and_do (admit_release to_repo ds) (\<lambda>_.
                    fail (case io_kind_of e of
                            KAlreadyExists \<Rightarrow> BadPath (''mount destination for '' @ ds @ '' is not a regular file'')
                          | KNotFound \<Rightarrow> NotFound
                          | _ \<Rightarrow> Io e)))
                | Inr _ \<Rightarrow>
                    and_do (gets (\<lambda>s. mt_checksum (dp_meta D) (fs_meta s) from_repo ds)) (\<lambda>checksum.
                    and_do (blob_entered D to_repo ds checksum) (\<lambda>_.
                    and_do (admit_release to_repo ds) (\<lambda>_. ret True))))))))))))"

text \<open>The backend as a value of the storage contract.\<close>

definition fs_storage :: "('x, 'm, 'f, 'l) deps \<Rightarrow> ('m, 'f, 'l) fs_store storage" where
  "fs_storage D = \<lparr>
     blob_size = fs_blob_size D, blob_exists = fs_blob_exists D, read_blob = fs_read_blob D, open_blob = fs_open_blob D,
     begin_upload = fs_begin_upload, append_upload = fs_append_upload D, upload_size = fs_upload_size,
     abort_upload = fs_abort_upload, mount_blob = fs_mount_blob D, finish_upload = fs_finish_upload D,
     put_blob = fs_put_blob D, delete_blob = fs_delete_blob D, put_manifest = fs_put_manifest D,
     get_manifest = fs_get_manifest D, delete_manifest = fs_delete_manifest D, list_tags = fs_list_tags D,
     list_referrers = fs_list_referrers D\<rparr>"

end
