(* ===== verification/Fs_Gc.thy ===== *)
theory Fs_Gc
  imports Fs_Storage
begin

text \<open>
  Garbage collection of the filesystem store (\<open>roci-storage/src/fs_storage/gc.rs\<close> and
  \<open>rebuild_backrefs\<close> of \<open>roci-storage/src/gc.rs\<close>): the startup consistency check that rebuilds the
  edges from manifests to blobs and seeds the candidates, the sweep of due candidates, and the removal
  of stale upload sessions.
\<close>

section \<open>Rebuilding the edges\<close>

definition MAX_ROOT_MANIFEST_BYTES :: nat where
  "MAX_ROOT_MANIFEST_BYTES = 4 * 1024 * 1024"

definition read_cas_blob_bounded :: "path \<Rightarrow> nat \<Rightarrow> bytes option io" where
  "read_cas_blob_bounded rel max_bytes =
     observe (open_beneath rel) (\<lambda>r. case r of
       Inl e \<Rightarrow> if io_kind_of e = KNotFound then ret None else fail e
     | Inr f \<Rightarrow>
         and_do (io (fstat (File_Fd f))) (\<lambda>st.
         if max_bytes < st_size st
         then fail (Io_Error KInvalidData (''root manifest '' @ show_nat (st_size st) @ '' bytes exceeds ''
                @ show_nat max_bytes @ '' cap''))
         else and_do (io (read_to_end f)) (\<lambda>b. ret (Some b))))"

definition mark_repo_unsafe :: "string \<Rightarrow> ('m, 'f, 'l, 'e, unit) fs_act" where
  "mark_repo_unsafe repo = modify (\<lambda>s. s\<lparr>fs_gc := gc_mark_unsafe repo (fs_gc s)\<rparr>)"

definition record_edges :: "('x, 'm, 'f, 'l) deps \<Rightarrow> string \<Rightarrow> string \<Rightarrow> json \<Rightarrow> 'm \<Rightarrow> 'm" where
  "record_edges D repo ds manifest m =
     (let missing = filter (\<lambda>b. ds \<notin> set (mt_backrefs (dp_meta D) m repo b)) (map digest_display (manifest_references manifest))
      in if missing = [] then m else snd (mt_apply (dp_meta D) (PutBackrefs repo ds missing) m))"

definition manifest_children :: "json \<Rightarrow> string list" where
  "manifest_children manifest = List.map_filter layout_descriptor_digest (index_manifests manifest)"

text \<open>One turn of the worklist: the digests of the children of the manifest it visits.\<close>

definition visit_root :: "('x, 'm, 'f, 'l) deps \<Rightarrow> string \<Rightarrow> string \<Rightarrow> ('m, 'f, 'l, 'e, string list) fs_act" where
  "visit_root D repo ds =
     (case parse_digest ds of
        Inl _ \<Rightarrow> ret []
      | Inr d \<Rightarrow>
          observe (case blob_dir_rel repo d of
                     Inr (dir, leaf) \<Rightarrow> on_os (read_cas_blob_bounded (dir @ [leaf]) MAX_ROOT_MANIFEST_BYTES)
                   | Inl _ \<Rightarrow> ret None) (\<lambda>r. case r of
            Inr (Some b) \<Rightarrow>
              (case from_slice (dp_ext D) b of
                 None \<Rightarrow> and_do (mark_repo_unsafe repo) (\<lambda>_. ret [])
               | Some manifest \<Rightarrow>
                   and_do (modify (\<lambda>s. s\<lparr>fs_meta := record_edges D repo ds manifest (fs_meta s)\<rparr>)) (\<lambda>_.
                   ret (manifest_children manifest)))
          | _ \<Rightarrow> and_do (mark_repo_unsafe repo) (\<lambda>_. ret [])))"

definition push_child :: "string \<Rightarrow> string list \<times> string list \<Rightarrow> string list \<times> string list" where
  "push_child cd = (\<lambda>(to_visit, all_roots).
     if cd \<in> set all_roots then (to_visit, all_roots) else (cd # to_visit, cd # all_roots))"

text \<open>The worklist loop; no result means that the fuel did not suffice.\<close>

fun rebuild_loop :: "('x, 'm, 'f, 'l) deps \<Rightarrow> string \<Rightarrow> nat \<Rightarrow> string list \<Rightarrow> string list
    \<Rightarrow> ('m, 'f, 'l, 'e, string list option) fs_act" where
  "rebuild_loop D repo fuel [] all_roots = ret (Some all_roots)"
| "rebuild_loop D repo 0 (ds # to_visit) all_roots = ret None"
| "rebuild_loop D repo (Suc fuel) (ds # to_visit) all_roots =
     and_do (visit_root D repo ds) (\<lambda>children.
     case fold push_child children (to_visit, all_roots) of
       (to_visit', all_roots') \<Rightarrow> rebuild_loop D repo fuel to_visit' all_roots')"

text \<open>Every digest that can enter the worklist is a root or named by a file of the store.\<close>

definition rebuild_fuel :: "'x ext_api_scheme \<Rightarrow> os \<Rightarrow> string list \<Rightarrow> nat" where
  "rebuild_fuel E t roots =
     length roots + sum_list (map (\<lambda>(_, n). case n of
       Reg i \<Rightarrow> (case from_slice E (os_data t i) of Some v \<Rightarrow> length (manifest_children v) | None \<Rightarrow> 0)
     | _ \<Rightarrow> 0) (os_tree t))"

definition protect_root :: "('x, 'm, 'f, 'l) deps \<Rightarrow> string \<Rightarrow> 'm \<Rightarrow> string \<Rightarrow> gc_tracker \<Rightarrow> gc_tracker" where
  "protect_root D repo m d g = (if mt_manifest_media_type (dp_meta D) m repo d = None then gc_add_root repo d g else g)"

definition rebuild_backrefs :: "('x, 'm, 'f, 'l) deps \<Rightarrow> string \<Rightarrow> string list \<Rightarrow> ('m, 'f, 'l, 'e, unit) fs_act" where
  "rebuild_backrefs D repo roots =
     and_do (gets (\<lambda>s. rebuild_fuel (dp_ext D) (fs_os s) roots)) (\<lambda>fuel.
     and_do (rebuild_loop D repo fuel roots roots) (\<lambda>r. case r of
       None \<Rightarrow> ret ()
     | Some all_roots \<Rightarrow> modify (\<lambda>s. s\<lparr>fs_gc := fold (protect_root D repo (fs_meta s)) all_roots (fs_gc s)\<rparr>)))"

definition gc_rebuild_repo :: "('x, 'm, 'f, 'l) deps \<Rightarrow> string \<Rightarrow> ('m, 'f, 'l, 'e, unit) fs_act" where
  "gc_rebuild_repo D repo =
     and_do (gets (\<lambda>s. mt_manifests (dp_meta D) (fs_meta s) repo)) (\<lambda>known.
     observe (on_os (read_index_beneath (dp_ext D) repo)) (\<lambda>r. case r of
       Inl _ \<Rightarrow> mark_repo_unsafe repo
     | Inr None \<Rightarrow> rebuild_backrefs D repo (remdups known)
     | Inr (Some index) \<Rightarrow> rebuild_backrefs D repo (remdups (known @ manifest_children index))))"

definition seed_unreferenced :: "('x, 'm, 'f, 'l) deps \<Rightarrow> nat \<Rightarrow> string \<times> digest \<Rightarrow> ('m, 'f, 'l) fs_store \<Rightarrow> ('m, 'f, 'l) fs_store" where
  "seed_unreferenced D now = (\<lambda>(repo, d) s.
     let ds = digest_display d in
     if mt_manifest_media_type (dp_meta D) (fs_meta s) repo ds \<noteq> None \<or> gc_is_root repo ds (fs_gc s) then s
     else if mt_backrefs (dp_meta D) (fs_meta s) repo ds = [] then s\<lparr>fs_gc := gc_mark_at repo ds now (fs_gc s)\<rparr> else s)"

definition gc_consistency_check :: "('x, 'm, 'f, 'l) deps \<Rightarrow> ('m, 'f, 'l, 'e, unit) fs_act" where
  "gc_consistency_check D =
     and_do (on_os discover_repos) (\<lambda>found.
     and_do (gets (\<lambda>s. mt_repos (dp_meta D) (fs_meta s))) (\<lambda>known.
     and_do (try_each (gc_rebuild_repo D) (found @ filter (\<lambda>r. r \<notin> set found) known)) (\<lambda>_.
     and_do (gets (\<lambda>s. os_time (fs_os s))) (\<lambda>now.
     and_do (on_os for_each_cas_blob) (\<lambda>blobs.
     modify (fold (seed_unreferenced D now) blobs))))))"

definition start_gc :: "('x, 'm, 'f, 'l) deps \<Rightarrow> ('m, 'f, 'l, 'e, unit) fs_act" where
  "start_gc D =
     and_do (gets (\<lambda>s. gc_is_ready (fs_gc s))) (\<lambda>ready.
     if ready then ret ()
     else and_do (gc_consistency_check D) (\<lambda>_. modify (\<lambda>s. s\<lparr>fs_gc := gc_set_ready (fs_gc s)\<rparr>)))"

section \<open>Sweeping\<close>

definition clear_candidate :: "string \<Rightarrow> string \<Rightarrow> ('m, 'f, 'l, 'e, unit) fs_act" where
  "clear_candidate repo digest = modify (\<lambda>s. s\<lparr>fs_gc := gc_clear repo digest (fs_gc s)\<rparr>)"

definition collect_blob :: "('x, 'm, 'f, 'l) deps \<Rightarrow> string \<Rightarrow> string \<Rightarrow> path \<Rightarrow> string \<Rightarrow> ('m, 'f, 'l, 'e, unit) fs_act" where
  "collect_blob D repo digest alg_rel leaf =
     observe (on_os (stat_beneath (alg_rel @ [leaf]))) (\<lambda>st. case st of
       Inr (Some (True, sz)) \<Rightarrow>
         observe (on_os (unlink_beneath alg_rel leaf)) (\<lambda>r. case r of
           Inr _ \<Rightarrow> blob_left D repo digest (Some (of_nat sz))
         | Inl e \<Rightarrow> when_do (io_kind_of e = KNotFound) (clear_candidate repo digest))
     | Inr _ \<Rightarrow> clear_candidate repo digest
     | Inl e \<Rightarrow> when_do (io_kind_of e = KNotFound) (clear_candidate repo digest))"

definition sweep_one :: "('x, 'm, 'f, 'l) deps \<Rightarrow> nat \<Rightarrow> blob_id \<Rightarrow> ('m, 'f, 'l, 'e, unit) fs_act" where
  "sweep_one D now = (\<lambda>(repo, digest).
     and_do (gets (\<lambda>s. (fs_gc s, mt_backrefs (dp_meta D) (fs_meta s) repo digest,
                        mt_manifest_media_type (dp_meta D) (fs_meta s) repo digest))) (\<lambda>(g, backrefs, media).
     if \<not> gc_is_due repo digest now g then ret ()
     else if gc_is_root repo digest g then clear_candidate repo digest
     else if gc_is_unsafe repo g then ret ()
     else if backrefs \<noteq> [] then clear_candidate repo digest
     else if media \<noteq> None then clear_candidate repo digest
     else case parse_digest digest of
            Inl _ \<Rightarrow> clear_candidate repo digest
          | Inr d \<Rightarrow>
              (case blob_dir_rel repo d of
                 Inl _ \<Rightarrow> clear_candidate repo digest
               | Inr (alg_rel, leaf) \<Rightarrow> collect_blob D repo digest alg_rel leaf)))"

text \<open>Only regular files carry a modification time here; nothing else is ever collected.\<close>

definition node_mtime :: "os \<Rightarrow> node \<Rightarrow> nat" where
  "node_mtime t n = (case n of Reg i \<Rightarrow> os_mtime t i | _ \<Rightarrow> 0)"

definition stale_uploads_of :: "nat \<Rightarrow> string \<Rightarrow> (os, 'e, (string \<times> path \<times> string) list) act" where
  "stale_uploads_of delay repo =
     (case repo_rel repo of
        Inl _ \<Rightarrow> ret []
      | Inr rel \<Rightarrow> observe (read_dir (rel @ [''uploads''])) (\<lambda>r. case r of
          Inl _ \<Rightarrow> ret []
        | Inr items \<Rightarrow> gets (\<lambda>t. map (\<lambda>(name, _). (repo, rel @ [''uploads''], name))
            (filter (\<lambda>(_, n). delay \<le> os_time t - node_mtime t n) items))))"

definition expire_pending :: "session \<Rightarrow> ('m, 'f, 'l, 'e, unit) fs_act" where
  "expire_pending = (\<lambda>(repo, upload).
     observe (session_lock repo upload) (\<lambda>r. case r of
       Inl _ \<Rightarrow> ret ()
     | Inr _ \<Rightarrow>
         and_do (take_pending repo upload) (\<lambda>was.
         and_do (when_do was (modify (\<lambda>s. s\<lparr>fs_quota := end_session (fs_quota s)\<rparr>))) (\<lambda>_.
         drop_session repo upload))))"

definition still_stale :: "nat \<Rightarrow> path \<Rightarrow> (os, 'e, bool) act" where
  "still_stale delay rel =
     observe (stat_beneath rel) (\<lambda>r. case r of
       Inr (Some (True, _)) \<Rightarrow> gets (\<lambda>t. delay \<le> os_time t - (case node_at t rel of Some n \<Rightarrow> node_mtime t n | None \<Rightarrow> os_time t))
     | _ \<Rightarrow> ret False)"

definition expire_upload :: "string \<times> path \<times> string \<Rightarrow> ('m, 'f, 'l, 'e, unit) fs_act" where
  "expire_upload = (\<lambda>(repo, upload_dir, name).
     observe (session_lock repo name) (\<lambda>r. case r of
       Inl _ \<Rightarrow> ret ()
     | Inr _ \<Rightarrow>
         and_do (gets (\<lambda>s. gc_delay (fs_gc s))) (\<lambda>delay.
         and_do (on_os (still_stale delay (upload_dir @ [name]))) (\<lambda>stale.
         if \<not> stale then drop_session repo name
         else observe (on_os (unlink_beneath upload_dir name)) (\<lambda>r.
              and_do (when_do (is_ok r) (modify (\<lambda>s. s\<lparr>fs_quota := end_session (fs_quota s)\<rparr>))) (\<lambda>_.
              drop_session repo name))))))"

definition sweep_stale_uploads :: "('m, 'f, 'l, 'e, unit) fs_act" where
  "sweep_stale_uploads =
     and_do (gets (\<lambda>s. gc_delay (fs_gc s))) (\<lambda>delay.
     and_do (on_os discover_repos) (\<lambda>repos.
     and_do (on_os (collect_each (stale_uploads_of delay) repos)) (\<lambda>stale.
     and_do (gets (\<lambda>s. map fst (filter (\<lambda>(_, began). delay \<le> os_time (fs_os s) - began) (fs_pending s)))) (\<lambda>expired.
     and_do (try_each expire_pending expired) (\<lambda>_.
     try_each expire_upload stale)))))"

definition sweep_at :: "('x, 'm, 'f, 'l) deps \<Rightarrow> nat \<Rightarrow> ('m, 'f, 'l, 'e, unit) fs_act" where
  "sweep_at D now =
     and_do (gets fs_gc) (\<lambda>g.
     if \<not> gc_is_ready g then ret ()
     else and_do (try_each (sweep_one D now) (gc_due now g)) (\<lambda>_. sweep_stale_uploads))"

end
