(* ===== verification/Evolution.thy ===== *)
theory Evolution
  imports Fs_Gc
begin

text \<open>
  Operations that only move the state forward. \<open>safe I E m R\<close> says that from every state with the
  invariant \<open>I\<close> the operation ends in a state related by \<open>E\<close>, and that a successful result satisfies
  \<open>R\<close>. For a relation that is reflexive, transitive and keeps the invariant the judgement is closed
  under the ways the sources compose operations; the rules are proved once for any such relation and
  used for the system (\<open>evolves\<close>) and for the store (\<open>fs_ext\<close>).
\<close>

named_theorems kept_intros \<open>rules for operations whose result does not matter\<close>

definition safe :: "('s \<Rightarrow> bool) \<Rightarrow> ('s \<Rightarrow> 's \<Rightarrow> bool) \<Rightarrow> ('s, 'e, 'a) act \<Rightarrow> ('a \<Rightarrow> bool) \<Rightarrow> bool" where
  "safe I E m R \<longleftrightarrow> (\<forall>s. I s \<longrightarrow> wp m (\<lambda>r s'. E s s' \<and> (\<forall>x. r = Inr x \<longrightarrow> R x)) s)"

abbreviation kept :: "('s \<Rightarrow> bool) \<Rightarrow> ('s \<Rightarrow> 's \<Rightarrow> bool) \<Rightarrow> ('s, 'e, 'a) act \<Rightarrow> bool" where
  "kept I E m \<equiv> safe I E m (\<lambda>_. True)"

locale evolution =
  fixes I :: "'s \<Rightarrow> bool" and E :: "'s \<Rightarrow> 's \<Rightarrow> bool"
  assumes refl: "I s \<Longrightarrow> E s s" and trans: "E s t \<Longrightarrow> E t u \<Longrightarrow> E s u" and pres: "E s t \<Longrightarrow> I t"
begin

lemma safe_ret: "R x \<Longrightarrow> safe I E (ret x) R"
  by (simp add: safe_def wp_ret refl)

lemma safe_fail: "safe I E (fail e) R"
  by (simp add: safe_def wp_fail refl)

lemma safe_lift_res: "(\<And>x. r = Inr x \<Longrightarrow> R x) \<Longrightarrow> safe I E (lift_res r) R"
  by (simp add: safe_def wp_lift_res refl)

lemma safe_gets: "(\<And>s. I s \<Longrightarrow> R (f s)) \<Longrightarrow> safe I E (gets f) R"
  by (simp add: safe_def wp_gets refl)

lemma safe_observe:
  assumes m: "safe I E m R" and f: "\<And>r. (\<forall>x. r = Inr x \<longrightarrow> R x) \<Longrightarrow> safe I E (f r) T"
  shows "safe I E (observe m f) T"
  unfolding safe_def wp_observe
proof (intro allI impI)
  fix s assume "I s"
  then have "wp m (\<lambda>r s'. E s s' \<and> (\<forall>x. r = Inr x \<longrightarrow> R x)) s" using m by (simp add: safe_def)
  then show "wp m (\<lambda>r. wp (f r) (\<lambda>r s'. E s s' \<and> (\<forall>x. r = Inr x \<longrightarrow> T x))) s"
  proof (rule wp_mono, goal_cases)
    case (1 r s1)
    then have "wp (f r) (\<lambda>r s'. E s1 s' \<and> (\<forall>x. r = Inr x \<longrightarrow> T x)) s1"
      using f pres unfolding safe_def by blast
    then show ?case by (rule wp_mono) (use 1 trans in blast)
  qed
qed

lemma safe_and_do:
  assumes "safe I E m R" and "\<And>x. R x \<Longrightarrow> safe I E (f x) T"
  shows "safe I E (and_do m f) T"
  unfolding and_do_def by (rule safe_observe [OF assms(1)]) (auto intro: safe_fail assms(2) split: sum.splits)

lemma safe_err_map: "safe I E m R \<Longrightarrow> safe I E (err_map g m) R"
  unfolding safe_def wp_err_map by (fastforce elim!: wp_mono simp: map_err_def split: sum.splits)

lemma safe_mono: "safe I E m R \<Longrightarrow> (\<And>x. R x \<Longrightarrow> T x) \<Longrightarrow> safe I E m T"
  unfolding safe_def by (fastforce elim!: wp_mono)

lemma safe_kept: "safe I E m R \<Longrightarrow> kept I E m"
  by (erule safe_mono) simp

lemma kept_ret [kept_intros]: "kept I E (ret x)"
  by (rule safe_ret) simp

lemma kept_fail [kept_intros]: "kept I E (fail e)"
  by (rule safe_fail)

lemma kept_lift_res [kept_intros]: "kept I E (lift_res r)"
  by (rule safe_lift_res) simp

lemma kept_gets [kept_intros]: "kept I E (gets f)"
  by (rule safe_gets) simp

lemma kept_modify: "(\<And>s. I s \<Longrightarrow> E s (f s)) \<Longrightarrow> kept I E (modify f)"
  by (simp add: safe_def wp_modify)

lemma kept_observe [kept_intros]: "kept I E m \<Longrightarrow> (\<And>r. kept I E (f r)) \<Longrightarrow> kept I E (observe m f)"
  by (rule safe_observe)

lemma kept_and_do [kept_intros]: "kept I E m \<Longrightarrow> (\<And>x. kept I E (f x)) \<Longrightarrow> kept I E (and_do m f)"
  by (rule safe_and_do)

lemma kept_err_map [kept_intros]: "kept I E m \<Longrightarrow> kept I E (err_map g m)"
  by (rule safe_err_map)

lemma kept_when_do [kept_intros]: "(b \<Longrightarrow> kept I E m) \<Longrightarrow> kept I E (when_do b m)"
  by (simp add: when_do_def kept_ret)

lemma kept_ignore [kept_intros]: "kept I E m \<Longrightarrow> kept I E (ignore m)"
  unfolding ignore_def by (intro kept_observe kept_ret)

text \<open>A fallible computation whose success the continuation may assume.\<close>

lemma kept_bind: "(\<And>x. r = Inr x \<Longrightarrow> kept I E (f x)) \<Longrightarrow> kept I E (and_do (lift_res r) f)"
  by (rule safe_and_do [where R = "\<lambda>x. r = Inr x", OF safe_lift_res])

lemma kept_try_each: "(\<And>x. x \<in> set xs \<Longrightarrow> kept I E (f x)) \<Longrightarrow> kept I E (try_each f xs)"
  by (induction xs) (auto intro: kept_ret kept_and_do)

lemma safe_collect_each:
  "(\<And>x. x \<in> set xs \<Longrightarrow> safe I E (f x) (list_all R)) \<Longrightarrow> safe I E (collect_each f xs) (list_all R)"
proof (induction xs)
  case (Cons x xs)
  have "safe I E (f x) (list_all R)" "safe I E (collect_each f xs) (list_all R)" using Cons by auto
  then show ?case
    unfolding collect_each.simps by (auto intro!: safe_and_do safe_ret)
qed (simp add: safe_ret)

lemma kept_collect_each: "(\<And>x. x \<in> set xs \<Longrightarrow> kept I E (f x)) \<Longrightarrow> kept I E (collect_each f xs)"
  by (induction xs) (auto intro: kept_ret kept_and_do)

text \<open>Continuing from a state already reached.\<close>

lemma safe_wp:
  assumes "safe I E m R" "E s t"
  shows "wp m (\<lambda>r s'. E s s' \<and> (\<forall>x. r = Inr x \<longrightarrow> R x)) t"
proof -
  have "wp m (\<lambda>r s'. E t s' \<and> (\<forall>x. r = Inr x \<longrightarrow> R x)) t" using assms pres by (simp add: safe_def)
  then show ?thesis by (rule wp_mono) (use assms(2) trans in blast)
qed

lemma safe_run:
  assumes "safe I E m R" "I s" "m s = (r, s')"
  shows "E s s'" and "r = Inr x \<Longrightarrow> R x"
  using assms unfolding safe_def wp_def by (metis fst_conv snd_conv)+

end

text \<open>Case distinctions in the composed operations.\<close>

lemma kept_if [kept_intros]: "(b \<Longrightarrow> kept I E m) \<Longrightarrow> (\<not> b \<Longrightarrow> kept I E n) \<Longrightarrow> kept I E (if b then m else n)"
  by simp

lemma kept_option [kept_intros]:
  "(x = None \<Longrightarrow> kept I E m) \<Longrightarrow> (\<And>y. x = Some y \<Longrightarrow> kept I E (f y)) \<Longrightarrow> kept I E (case x of None \<Rightarrow> m | Some y \<Rightarrow> f y)"
  by (cases x) auto

lemma kept_sum [kept_intros]:
  "(\<And>e. x = Inl e \<Longrightarrow> kept I E (f e)) \<Longrightarrow> (\<And>y. x = Inr y \<Longrightarrow> kept I E (g y)) \<Longrightarrow> kept I E (case x of Inl e \<Rightarrow> f e | Inr y \<Rightarrow> g y)"
  by (cases x) auto

lemma kept_prod [kept_intros]: "(\<And>a b. x = (a, b) \<Longrightarrow> kept I E (f a b)) \<Longrightarrow> kept I E (case x of (a, b) \<Rightarrow> f a b)"
  by (cases x) auto

lemma kept_bool [kept_intros]:
  "(b \<Longrightarrow> kept I E m) \<Longrightarrow> (\<not> b \<Longrightarrow> kept I E n) \<Longrightarrow> kept I E (case b of True \<Rightarrow> m | False \<Rightarrow> n)"
  by (cases b) auto

lemma kept_Let [kept_intros]: "kept I E (f x) \<Longrightarrow> kept I E (Let x f)"
  by simp

section \<open>The system\<close>

interpretation os_ev: evolution "os_inv H" "evolves H A" for H :: "'a hash_api_scheme" and A
  by unfold_locales (auto intro: evolves_refl evolves_inv dest: evolves_trans [where A = A and B = A])

lemma os_safeI:
  "(\<And>t. os_inv H t \<Longrightarrow> wp m (\<lambda>r t'. evolves H A t t' \<and> (\<forall>x. r = Inr x \<longrightarrow> R x)) t) \<Longrightarrow> safe (os_inv H) (evolves H A) m R"
  by (simp add: safe_def)

lemma kept_os_io [kept_intros]: "kept (os_inv H) (evolves H A) m \<Longrightarrow> kept (os_inv H) (evolves H A) (io m)"
  unfolding io_def by (rule os_ev.kept_err_map)

lemma kept_os_calls [kept_intros]:
  "kept (os_inv H) (evolves H A) fsync"
  "kept (os_inv H) (evolves H A) (fstat f)"
  "kept (os_inv H) (evolves H A) (statat d c)"
  "kept (os_inv H) (evolves H A) (read_to_end i)"
  "kept (os_inv H) (evolves H A) (read_dir d)"
  "kept (os_inv H) (evolves H A) (read_follow p)"
  "kept (os_inv H) (evolves H A) (stat_beneath p)"
  "kept (os_inv H) (evolves H A) (sync_dir p)"
  "kept (os_inv H) (evolves H A) (dir_beneath p create)"
  "kept (os_inv H) (evolves H A) (ensure_layout_beneath p marker)"
  "kept (os_inv H) (evolves H A) (open_beneath p)"
  by (rule os_safeI,
      (rule wp_fsync [OF evolves_refl] wp_fstat [OF evolves_refl] wp_statat [OF evolves_refl] wp_read_to_end [OF evolves_refl]
        wp_read_dir [OF evolves_refl] wp_read_follow [OF evolves_refl] wp_stat_beneath [OF evolves_refl]
        wp_sync_dir [OF evolves_refl] wp_dir_beneath [OF evolves_refl] wp_ensure_layout_beneath [OF evolves_refl]
        wp_resolve_beneath [OF evolves_refl, where mode = O_Read, folded open_beneath_def]; simp))+

lemma safe_getrandom_hex: "safe (os_inv H) (evolves H A) (getrandom_hex n) lower_hex"
  by (rule os_safeI, rule wp_getrandom_hex [OF evolves_refl]) auto

lemma kept_unlink_beneath [kept_intros]: "d @ [c] \<in> A \<Longrightarrow> kept (os_inv H) (evolves H A) (unlink_beneath d c)"
  by (rule os_safeI, rule wp_unlink_beneath [OF evolves_refl]) auto

lemma kept_mount_promote:
  "cas_digest (e @ [leaf]) = Some y \<Longrightarrow> cas_digest (d @ [leaf]) = Some y \<Longrightarrow>
     kept (os_inv H) (evolves H A) (mount_promote_beneath e d leaf allow_copy sync)"
  by (rule os_safeI, rule wp_mount_promote_beneath [OF evolves_refl]) auto

lemma kept_publish_bytes:
  "lower_hex leaf \<Longrightarrow> (\<And>x. cas_digest (d @ [leaf]) = Some x \<Longrightarrow> digest_of H data (algorithm x) = x) \<Longrightarrow>
     kept (os_inv H) (evolves H A) (publish_bytes d leaf data sync)"
  by (rule os_safeI, rule wp_publish_bytes [OF evolves_refl]) auto

lemma kept_is_file_at [kept_intros]: "kept (os_inv H) (evolves H A) (is_file_at d c)"
  unfolding is_file_at_def by (intro kept_intros)

lemma kept_discover_walk [kept_intros]: "kept (os_inv H) (evolves H A) (discover_walk n rel)"
proof (induction n arbitrary: rel)
  case (Suc n)
  show ?case
    unfolding discover_walk.simps by (intro kept_intros os_ev.kept_collect_each Suc.IH)
qed (simp add: os_ev.kept_ret)

lemma kept_discover_repos [kept_intros]: "kept (os_inv H) (evolves H A) discover_repos"
  unfolding discover_repos_def by (rule kept_discover_walk)

lemma kept_for_each_cas_blob [kept_intros]: "kept (os_inv H) (evolves H A) for_each_cas_blob"
  unfolding for_each_cas_blob_def for_each_cas_entry_def cas_blobs_of_def by (intro kept_intros os_ev.kept_collect_each)

lemma kept_read_index_beneath [kept_intros]: "kept (os_inv H) (evolves H A) (read_index_beneath E repo)"
  unfolding read_index_beneath_def by (intro kept_intros)

lemma kept_read_cas_blob_bounded [kept_intros]: "kept (os_inv H) (evolves H A) (read_cas_blob_bounded rel n)"
  unfolding read_cas_blob_bounded_def by (intro kept_intros)

lemma kept_recheck [kept_intros]: "kept (os_inv H) (evolves H A) (recheck i rels)"
  by (induction rels arbitrary: i) (auto intro!: kept_intros)

lemma kept_count_uploads [kept_intros]: "kept (os_inv H) (evolves H A) (count_uploads repo)"
  unfolding count_uploads_def by (intro kept_intros)

lemma kept_still_stale [kept_intros]: "kept (os_inv H) (evolves H A) (still_stale delay rel)"
  unfolding still_stale_def by (intro kept_intros)

end
