(* ===== verification/Index_Write.thy ===== *)
theory Index_Write
  imports Evolution
begin

text \<open>
  The replacement of a repository's \<open>index.json\<close>: whatever call fails, no other file changes, and
  after a success the index holds exactly the serialized value.
\<close>

definition index_holds :: "os \<Rightarrow> path \<Rightarrow> bytes \<Rightarrow> bool" where
  "index_holds t d data \<longleftrightarrow> (\<exists>i. file_at t (d @ [''index.json'']) = Some (i, data))"

lemma index_holds_same: "same t t' \<Longrightarrow> index_holds t' d data = index_holds t d data"
  by (simp add: index_holds_def same_file_at)

lemma index_tmp_name: "cas_digest (d @ [index_tmp rnd]) = None" "index_tmp rnd \<noteq> ''index.json''"
  by (rule cas_digest_no_hex) (simp_all add: index_tmp_def lower_hex_def ascii_class_defs)

lemma wp_install_index:
  assumes ev: "evolves H A s0 s" and inv0: "os_inv H s0" and A: "d @ [''index.json''] \<in> A"
    and t: "node_at s (d @ [index_tmp rnd]) = Some (Reg i)" "removable A s0 s (d @ [index_tmp rnd])" "os_data s i = data"
    and ne: "data \<noteq> []"
    and Q: "\<And>r s'. evolves H A s0 s' \<Longrightarrow> (is_ok r \<longrightarrow> index_holds s' d data) \<Longrightarrow> Q r s'"
  shows "wp (install_index d (index_tmp rnd)) Q s"
  unfolding install_index_def wp_observe wp_io
proof (rule wp_rename_replace [OF ev inv0 t(1) index_tmp_name(1) t(2)], goal_cases)
  case 1
  have "cas_digest (d @ [''index.json'']) = None"
    by (rule cas_digest_no_hex) (simp add: lower_hex_def ascii_class_defs)
  then show ?case using inv_bound [OF evolves_inv [OF ev]] t ne by (auto simp: nameable_def)
next
  case (3 r s1)
  show ?case
  proof (cases r)
    case (Inl e)
    then have "removable A s0 s1 (d @ [index_tmp rnd])" using 3 t(2) by (simp add: removable_same)
    then have "wp (unlinkat d (index_tmp rnd)) (\<lambda>_. Q (Inl (io_of_errno e))) s1"
      by (intro wp_unlinkat [OF 3(1) inv0]) (auto intro: Q)
    then show ?thesis using Inl by (simp add: wp_simps)
  next
    case (Inr u)
    then have "index_holds s1 d data" using 3 t(3) by (auto simp: index_holds_def file_at_Some)
    then have "wp fsync (\<lambda>r. Q (map_err io_of_errno r)) s1"
      by (intro wp_fsync [OF 3(1)]) (auto intro!: Q simp: index_holds_same)
    then show ?thesis using Inr by (simp add: wp_io)
  qed
qed (rule A)

lemma wp_write_index_named:
  assumes ev: "evolves H A s0 s" and inv0: "os_inv H s0" and A: "d @ [''index.json''] \<in> A" and ne: "data \<noteq> []"
    and Q: "\<And>r s'. evolves H A s0 s' \<Longrightarrow> (is_ok r \<longrightarrow> index_holds s' d data) \<Longrightarrow> Q r s'"
  shows "wp (write_index_named d data (index_tmp rnd)) Q s"
  unfolding write_index_named_def wp_and_do [where m = "io (openat _ _ _)"] wp_io
proof (rule wp_create_excl [OF ev inv0], goal_cases)
  case (3 r s1)
  show ?case
  proof (cases r)
    case (Inr f)
    then obtain i where i: "f = File_Fd i" "temp_at s0 s1 i (d @ [index_tmp rnd])" "os_data s1 i = []" using 3(2) by auto
    have undo: "wp (and_do (ignore (unlinkat d (index_tmp rnd))) (\<lambda>_. fail e)) Q t"
      if "evolves H A s0 t" "temp_at s0 t i (d @ [index_tmp rnd])" for t e
      unfolding wp_simps by (rule wp_unlinkat [OF that(1) inv0 temp_at_removable [OF that(2)]]) (auto simp: wp_fail intro: Q)
    show ?thesis
      unfolding Inr map_err_simps sum.case wp_observe wp_and_do [where m = "io (write_all _ _)"] wp_io i(1) file_of_def fd.case
    proof (rule wp_write_all [OF 3(1) inv0 temp_at_writable [OF i(2)]], goal_cases)
      case (1 r s2)
      have t: "temp_at s0 s2 i (d @ [index_tmp rnd])" using i(2) by (simp add: temp_at_touched [OF 1(2)])
      show ?case
      proof (cases r)
        case (Inr u)
        then have d2: "os_data s2 i = data" using 1(4) i(3) by simp
        have "wp (io fsync) (\<lambda>r. wp (case r of Inl e \<Rightarrow> and_do (ignore (unlinkat d (index_tmp rnd))) (\<lambda>_. fail e)
            | Inr _ \<Rightarrow> install_index d (index_tmp rnd)) Q) s2"
          unfolding wp_io
        proof (rule wp_fsync [OF 1(1)], goal_cases)
          case (1 r s3)
          have t3: "temp_at s0 s3 i (d @ [index_tmp rnd])" "os_data s3 i = data"
            using t d2 1(2) by (simp_all add: temp_at_same [OF 1(2)] same_def [of s2 s3])
          have n3: "node_at s3 (d @ [index_tmp rnd]) = Some (Reg i)" using t3(1) by (simp add: temp_at_def)
          have "wp (install_index d (index_tmp rnd)) Q s3"
            by (rule wp_install_index [OF 1(1) inv0 A n3 temp_at_removable [OF t3(1)] t3(2) ne Q])
          then show ?case using undo [OF 1(1) t3(1)] by (cases r) auto
        qed
        then show ?thesis using Inr by (simp add: wp_io)
      qed (use 1(1) t undo in simp)
    qed
  qed (use 3(1) Q in simp)
qed (simp_all add: index_tmp_name)

lemma wp_try_write_index_otmpfile:
  assumes ev: "evolves H A s0 s" and inv0: "os_inv H s0" and A: "d @ [''index.json''] \<in> A" and ne: "data \<noteq> []"
    and Q: "\<And>r s'. evolves H A s0 s' \<Longrightarrow> (r = Inr True \<longrightarrow> index_holds s' d data) \<Longrightarrow> Q r s'"
  shows "wp (try_write_index_otmpfile d data (index_tmp rnd)) Q s"
  unfolding try_write_index_otmpfile_def wp_observe
proof (rule wp_open_tmpfile [OF ev inv0], goal_cases)
  case (1 r s1)
  show ?case
  proof (cases r)
    case (Inr i)
    then have i: "anonymous s0 s1 i" "os_data s1 i = []" using 1(2) by auto
    show ?thesis
      unfolding Inr sum.case wp_and_do [where m = "io (write_all _ _)"] wp_io
    proof (rule wp_write_all [OF 1(1) inv0 anonymous_writable [OF i(1)]], goal_cases)
      case (1 r s2)
      note s2 = 1
      show ?case
      proof (cases r)
        case (Inr u)
        have d2: "os_data s2 i = data" "anonymous s0 s2 i"
          using Inr s2(4) i by (simp_all add: anonymous_touched [OF s2(2)])
        show ?thesis
          unfolding Inr map_err_simps sum.case wp_and_do [where m = "io fsync"] wp_io
        proof (rule wp_fsync [OF s2(1)], goal_cases)
          case (1 r s3)
          note s3 = 1
          have a3: "anonymous s0 s3 i" "os_data s3 i = data" "nameable H s3 i (d @ [index_tmp rnd])"
            using d2 s3(2) index_tmp_name(1) [of d rnd] index_tmp_name(2) [of rnd] by (auto simp: anonymous_def same_def nameable_def)
          show ?case
          proof (cases r)
            case (Inr u)
            show ?thesis
              unfolding Inr map_err_simps sum.case wp_and_do [where m = "io (link_fd _ _ _)"] wp_io
            proof (rule wp_link_fd [OF s3(1) a3(1,3)], goal_cases)
              case (1 r s4)
              show ?case
              proof (cases r)
                case (Inr u)
                have n: "node_at s4 (d @ [index_tmp rnd]) = Some (Reg i)" "os_data s4 i = data" using 1 Inr a3 by auto
                have "wp (install_index d (index_tmp rnd)) (\<lambda>r s'. case r of Inl e \<Rightarrow> Q (Inl e) s' | Inr _ \<Rightarrow> wp (ret True) Q s') s4"
                  using a3(1) n by (intro wp_install_index [OF 1(1) inv0 A n(1) _ n(2) ne])
                    (auto simp: removable_def anonymous_def wp_ret intro!: Q split: sum.splits)
                then show ?thesis using Inr by (simp add: wp_and_do)
              qed (use 1(1) Q in simp)
            qed
          qed (use s3(1) Q in simp)
        qed
      qed (use s2(1) Q in simp)
    qed
  qed (use 1(1) Q in \<open>simp add: wp_ret\<close>)
qed

lemma wp_write_index_at_root:
  assumes ev: "evolves H A s0 s" and inv0: "os_inv H s0" and ne: "to_vec E index \<noteq> []"
    and A: "\<And>rel. repo_rel repo = Inr rel \<Longrightarrow> rel @ [''index.json''] \<in> A"
    and Q: "\<And>r s'. evolves H A s0 s' \<Longrightarrow>
        (is_ok r \<longrightarrow> (\<exists>rel. repo_rel repo = Inr rel \<and> index_holds s' rel (to_vec E index))) \<Longrightarrow> Q r s'"
  shows "wp (write_index_at_root E repo index) Q s"
proof (cases "repo_rel repo")
  case (Inl e)
  then show ?thesis using ev Q by (simp add: write_index_at_root_def wp_simps)
next
  case (Inr rel)
  note A = A [OF Inr]
  have Q': "Q r s'" if "evolves H A s0 s'" "is_ok r \<longrightarrow> index_holds s' rel (to_vec E index)" for r s'
    using Q that Inr by blast
  show ?thesis
    unfolding write_index_at_root_def Inr map_err_simps wp_and_do [where m = "lift_res _"] wp_lift_res sum.case
      wp_and_do [where m = "ensure_layout_beneath _ _"]
  proof (rule wp_ensure_layout_beneath [OF ev inv0], goal_cases)
    case (1 r s1)
    show ?case
    proof (cases r)
      case (Inr new)
      show ?thesis
        unfolding Inr sum.case wp_and_do [where m = "dir_beneath _ _"]
      proof (rule wp_dir_beneath [OF 1], goal_cases)
        case (1 r s2)
        show ?case
        proof (cases r)
          case (Inr d)
          then have r: "r = Inr rel" using 1(3) by simp
          show ?thesis
            unfolding r sum.case wp_and_do [where m = "getrandom_hex _"]
          proof (rule wp_getrandom_hex [OF 1(1)], goal_cases)
            case (1 r s3)
            show ?case
            proof (cases r)
              case (Inr rnd)
              show ?thesis
                unfolding Inr sum.case wp_and_do [where m = "try_write_index_otmpfile _ _ _"]
              proof (rule wp_try_write_index_otmpfile [OF 1(1) inv0 A ne], goal_cases)
                case (1 r s4)
                have "wp (write_index_named rel (to_vec E index) (index_tmp rnd)) Q s4"
                  by (rule wp_write_index_named [OF 1(1) inv0 A ne Q'])
                then show ?case using 1 by (cases r) (auto simp: wp_ret intro!: Q')
              qed
            qed (use 1(1) Q' in simp)
          qed
        qed (use 1(1) Q' in simp)
      qed
    qed (use 1 Q' in simp)
  qed
qed

lemma kept_write_index_at_root:
  "(\<And>v. to_vec E v \<noteq> []) \<Longrightarrow> (\<And>rel. repo_rel repo = Inr rel \<Longrightarrow> rel @ [''index.json''] \<in> A) \<Longrightarrow>
     kept (os_inv H) (evolves H A) (write_index_at_root E repo index)"
  by (rule os_safeI, rule wp_write_index_at_root [OF evolves_refl]) auto

end
