(* ===== verification/Fs_Inv.thy ===== *)
theory Fs_Inv
  imports Index_Write
begin

text \<open>
  The invariant of the filesystem store and the relation between the states of a run. The files obey
  the invariant of the system model, every cached entry has the digest it is cached under, sessions
  that wait for their first byte have hexadecimal names, and a session with a running hash has a
  staging file with exactly the hashed bytes. \<open>fs_ext D P A\<close> relates two states when only files at
  paths of \<open>A\<close> may have changed or gone, the property \<open>P\<close> of the metadata is kept, and no session
  has gained a hash.
\<close>

section \<open>Laws of the packages\<close>

definition deps_ok :: "('x, 'm, 'f, 'l) deps \<Rightarrow> bool" where
  "deps_ok D \<longleftrightarrow> hash_api_ok (dp_ext D) \<and> lru_ok (dp_lru D) \<and> (\<forall>v. to_vec (dp_ext D) v \<noteq> [])"

text \<open>A property of the metadata that every operation except the deletion of manifests keeps.\<close>

fun is_delete :: "meta_op \<Rightarrow> bool" where
  "is_delete (DeleteManifest _ _) = True"
| "is_delete _ = False"

definition meta_kept :: "('x, 'm, 'f, 'l) deps \<Rightarrow> ('m \<Rightarrow> bool) \<Rightarrow> bool" where
  "meta_kept D P \<longleftrightarrow> (\<forall>op m. P m \<longrightarrow> \<not> is_delete op \<longrightarrow>
     P (snd (mt_apply (dp_meta D) op m)) \<and> P (snd (mt_apply_relaxed (dp_meta D) op m)))"

definition world :: "('x, 'm, 'f, 'l) deps \<Rightarrow> ('m \<Rightarrow> bool) \<Rightarrow> bool" where
  "world D P \<longleftrightarrow> deps_ok D \<and> meta_kept D P"

lemma meta_kept_True: "meta_kept D (\<lambda>_. True)"
  by (simp add: meta_kept_def)

lemma worldD:
  assumes "world D P"
  shows "deps_ok D" "hash_api_ok (dp_ext D)" "lru_ok (dp_lru D)" "to_vec (dp_ext D) v \<noteq> []"
    "P m \<Longrightarrow> \<not> is_delete op \<Longrightarrow> P (snd (mt_apply (dp_meta D) op m))"
    "P m \<Longrightarrow> \<not> is_delete op \<Longrightarrow> P (snd (mt_apply_relaxed (dp_meta D) op m))"
  using assms by (simp_all add: world_def deps_ok_def meta_kept_def)

section \<open>Invariant\<close>

definition content_ok :: "'a hash_api_scheme \<Rightarrow> string \<Rightarrow> bytes \<Rightarrow> bool" where
  "content_ok H k v \<longleftrightarrow> (\<forall>repo d. digest_wf d \<longrightarrow> k = blob_key repo (digest_display d) \<longrightarrow> digest_of H v (algorithm d) = d)"

definition cache_good :: "('x, 'm, 'f, 'l) deps \<Rightarrow> 'l blob_cache \<Rightarrow> bool" where
  "cache_good D c \<longleftrightarrow> cache_inv (dp_lru D) c \<and> (\<forall>kv\<in>set (cached (dp_lru D) c). content_ok (dp_ext D) (fst kv) (snd kv))"

definition base_inv :: "('x, 'm, 'f, 'l) deps \<Rightarrow> ('m, 'f, 'l) fs_store \<Rightarrow> bool" where
  "base_inv D s \<longleftrightarrow> os_inv (dp_ext D) (fs_os s) \<and> cache_good D (fs_cache s)
     \<and> (\<forall>k t. map_of (fs_pending s) k = Some t \<longrightarrow> lower_hex (snd k))"

definition hashed :: "('m, 'f, 'l) fs_store \<Rightarrow> session \<Rightarrow> staged_hash \<Rightarrow> bool" where
  "hashed s k h \<longleftrightarrow> map_of (fs_upload_locks s) k = Some (Some h)"

definition staged_ok :: "('x, 'm, 'f, 'l) deps \<Rightarrow> os \<Rightarrow> session \<Rightarrow> staged_hash \<Rightarrow> bool" where
  "staged_ok D t k h \<longleftrightarrow> snd k \<noteq> ''index.json''
     \<and> (\<exists>p i b. upload_rel (fst k) (snd k) = Inr p \<and> file_at t p = Some (i, b) \<and> hash_of (dp_ext D) h b)"

definition fs_inv :: "('x, 'm, 'f, 'l) deps \<Rightarrow> ('m, 'f, 'l) fs_store \<Rightarrow> bool" where
  "fs_inv D s \<longleftrightarrow> base_inv D s \<and> (\<forall>k h. hashed s k h \<longrightarrow> staged_ok D (fs_os s) k h)"

definition fs_ext :: "('x, 'm, 'f, 'l) deps \<Rightarrow> ('m \<Rightarrow> bool) \<Rightarrow> path set \<Rightarrow> ('m, 'f, 'l) fs_store \<Rightarrow> ('m, 'f, 'l) fs_store \<Rightarrow> bool" where
  "fs_ext D P A s s' \<longleftrightarrow> evolves (dp_ext D) A (fs_os s) (fs_os s') \<and> base_inv D s'
     \<and> (P (fs_meta s) \<longrightarrow> P (fs_meta s')) \<and> (\<forall>k h. hashed s' k h \<longrightarrow> hashed s k h)"

lemma digest_display_no_nul: "digest_wf d \<Longrightarrow> CHR 0x00 \<notin> set (digest_display d)"
  by (auto simp: digest_wf_def digest_display_def lower_hex_def list_all_iff ascii_class_defs)

lemma blob_key_inject:
  assumes "blob_key a x = blob_key b y" "CHR 0x00 \<notin> set x" "CHR 0x00 \<notin> set y"
  shows "x = y"
proof -
  have "takeWhile (\<lambda>c. c \<noteq> CHR 0x00) (rev (r @ CHR 0x00 # z)) = rev z" if "CHR 0x00 \<notin> set z" for r z :: string
    using that by (subst rev_append, simp, subst takeWhile_append2) auto
  then have "rev x = rev y" using assms unfolding blob_key_def by metis
  then show ?thesis by simp
qed

lemma content_okI:
  assumes "digest_wf d" "digest_of H v (algorithm d) = d"
  shows "content_ok H (blob_key repo (digest_display d)) v"
  unfolding content_ok_def
  using assms digest_display_inject digest_display_no_nul blob_key_inject by metis

section \<open>The relation\<close>

interpretation fs_ev: evolution "base_inv D" "fs_ext D P A" for D :: "('x, 'm, 'f, 'l) deps" and P A
  by unfold_locales
    (auto simp: fs_ext_def base_inv_def intro: evolves_refl dest: evolves_trans [where A = A and B = A])

lemma fs_ext_mono: "fs_ext D P A s s' \<Longrightarrow> A \<subseteq> B \<Longrightarrow> fs_ext D P B s s'"
  by (auto simp: fs_ext_def intro: evolves_mono)

lemma fs_safe_mono: "safe (base_inv D) (fs_ext D P A) m R \<Longrightarrow> A \<subseteq> B \<Longrightarrow> safe (base_inv D) (fs_ext D P B) m R"
  unfolding safe_def by (blast intro: wp_mono fs_ext_mono)

text \<open>The invariant after a run whose files at paths of \<open>A\<close> belong to no session with a hash.\<close>

lemma staged_ok_kept:
  assumes "staged_ok D t k h" "evolves H A t t'" "\<And>p. upload_rel (fst k) (snd k) = Inr p \<Longrightarrow> p \<notin> A"
  shows "staged_ok D t' k h"
  using assms evolves_keeps [OF assms(2)] unfolding staged_ok_def by metis

lemma fs_inv_ext:
  assumes "fs_inv D s" "fs_ext D P A s s'"
    and "\<And>k h p. hashed s' k h \<Longrightarrow> upload_rel (fst k) (snd k) = Inr p \<Longrightarrow> p \<notin> A"
  shows "fs_inv D s'"
  using assms staged_ok_kept [of D "fs_os s"] unfolding fs_inv_def fs_ext_def by metis

lemma upload_not_cas: "upload_rel repo upload = Inr p \<Longrightarrow> cas_digest p = None"
  by (erule upload_rel_Inr) simp

lemma upload_rel_last: "upload_rel repo upload = Inr p \<Longrightarrow> last p = upload"
  by (erule upload_rel_Inr) simp

section \<open>Steps of the store\<close>

lemma fs_safeI:
  "(\<And>s. base_inv D s \<Longrightarrow> wp m (\<lambda>r s'. fs_ext D P A s s' \<and> (\<forall>x. r = Inr x \<longrightarrow> R x)) s) \<Longrightarrow>
     safe (base_inv D) (fs_ext D P A) m R"
  by (simp add: safe_def)

lemma fs_safe_on_os:
  assumes "safe (os_inv (dp_ext D)) (evolves (dp_ext D) A) m R"
  shows "safe (base_inv D) (fs_ext D P A) (on_os m) R"
proof (rule fs_safeI)
  fix s assume s: "base_inv D s"
  then have "wp m (\<lambda>r t'. evolves (dp_ext D) A (fs_os s) t' \<and> (\<forall>x. r = Inr x \<longrightarrow> R x)) (fs_os s)"
    using assms by (simp add: safe_def base_inv_def)
  then show "wp (on_os m) (\<lambda>r s'. fs_ext D P A s s' \<and> (\<forall>x. r = Inr x \<longrightarrow> R x)) s"
    unfolding on_os_def wp_on_part
    by (rule wp_mono) (use s in \<open>auto simp: fs_ext_def base_inv_def hashed_def dest: evolves_inv\<close>)
qed

lemmas kept_on_os [kept_intros] = fs_safe_on_os [where R = "\<lambda>_. True"]

text \<open>Updates of the parts that the invariant does not mention.\<close>

lemma kept_update [kept_intros]:
  assumes "\<And>s. fs_os (f s) = fs_os s \<and> fs_cache (f s) = fs_cache s \<and> fs_pending (f s) = fs_pending s
      \<and> fs_upload_locks (f s) = fs_upload_locks s \<and> fs_meta (f s) = fs_meta s"
  shows "kept (base_inv D) (fs_ext D P A) (modify f)"
  by (rule fs_ev.kept_modify) (use assms in \<open>auto simp: fs_ext_def base_inv_def hashed_def intro: evolves_refl\<close>)

lemma kept_on_quota [kept_intros]: "kept (base_inv D) (fs_ext D P A) (on_quota m)"
  by (rule fs_safeI)
    (auto simp: on_quota_def wp_def on_part_def fs_ext_def base_inv_def hashed_def intro: evolves_refl split: prod.splits)

lemma kept_session_lock:
  "safe (base_inv D) (fs_ext D P A) (session_lock repo upload) (\<lambda>_. safe_component upload = Inr upload)"
  unfolding session_lock_def
  by (rule fs_safeI)
    (auto simp: wp_simps fs_ext_def base_inv_def hashed_def map_of_or_insert intro: evolves_refl split: sum.splits if_splits)

lemma kept_session_lock' [kept_intros]: "kept (base_inv D) (fs_ext D P A) (session_lock repo upload)"
  by (rule fs_ev.safe_kept [OF kept_session_lock])

lemma kept_clear_hash [kept_intros]: "kept (base_inv D) (fs_ext D P A) (set_session_hash repo upload None)"
  unfolding set_session_hash_def
  by (rule fs_ev.kept_modify) (auto simp: fs_ext_def base_inv_def hashed_def update_conv' intro: evolves_refl split: if_splits)

lemma kept_drop_session [kept_intros]: "kept (base_inv D) (fs_ext D P A) (drop_session repo upload)"
  unfolding drop_session_def
  by (rule fs_ev.kept_modify) (auto simp: fs_ext_def base_inv_def hashed_def delete_conv' intro: evolves_refl split: if_splits)

lemma kept_take_pending [kept_intros]: "kept (base_inv D) (fs_ext D P A) (take_pending repo upload)"
  unfolding take_pending_def
  by (intro kept_intros fs_ev.kept_modify)
    (auto simp: fs_ext_def base_inv_def hashed_def delete_conv' intro: evolves_refl split: if_splits)

lemma kept_locks [kept_intros]:
  "kept (base_inv D) (fs_ext D P A) (admit_lock repo digest)"
  "kept (base_inv D) (fs_ext D P A) (admit_release repo digest)"
  "kept (base_inv D) (fs_ext D P A) (want_blob repo digest)"
  "kept (base_inv D) (fs_ext D P A) (mark_index_dirty repo)"
  "kept (base_inv D) (fs_ext D P A) (present D' repo digest)"
  unfolding admit_lock_def admit_release_def want_blob_def mark_index_dirty_def present_def by (intro kept_intros; simp)+

lemma kept_on_meta:
  "(\<And>m. P m \<Longrightarrow> P (snd (f m))) \<Longrightarrow> kept (base_inv D) (fs_ext D P A) (on_meta f)"
  by (rule fs_safeI)
    (auto simp: on_meta_def wp_def on_part_def fs_ext_def base_inv_def hashed_def case_prod_beta intro: evolves_refl)

lemma kept_apply_meta:
  "(\<And>m. P m \<Longrightarrow> P (snd (mt_apply (dp_meta D) op m))) \<Longrightarrow> kept (base_inv D) (fs_ext D P A) (apply_meta D repo op)"
  unfolding apply_meta_def by (intro kept_intros kept_on_meta)

lemma kept_blob_entered [kept_intros]:
  assumes "world D P"
  shows "kept (base_inv D) (fs_ext D P A) (blob_entered D repo digest checksum)"
  unfolding blob_entered_def
proof (rule fs_ev.kept_modify)
  fix s assume "base_inv D s"
  moreover obtain m g d where n: "note_blob_entered (dp_meta D) repo digest checksum (os_time (fs_os s)) (fs_meta s, fs_gc s, fs_dedupe s)
      = (m, g, d)" by (metis prod_cases3)
  moreover have "P (fs_meta s) \<longrightarrow> P m"
    using n worldD(6) [OF assms] by (auto simp: note_blob_entered_def Let_def split: option.splits if_splits)
  ultimately show "fs_ext D P A s (case note_blob_entered (dp_meta D) repo digest checksum (os_time (fs_os s)) (fs_meta s, fs_gc s, fs_dedupe s) of
       (m, g, d) \<Rightarrow> s\<lparr>fs_presence := presence_insert (dp_filter D) repo digest (fs_presence s),
                       fs_meta := m, fs_gc := g, fs_dedupe := d\<rparr>)"
    by (auto simp: fs_ext_def base_inv_def hashed_def intro: evolves_refl)
qed

lemma kept_blob_left [kept_intros]:
  assumes "world D P"
  shows "kept (base_inv D) (fs_ext D P A) (blob_left D repo digest sz)"
  unfolding blob_left_def
proof (rule fs_ev.kept_modify)
  fix s assume s: "base_inv D s"
  obtain m g d q where n: "note_blob_left (dp_meta D) repo digest sz (fs_meta s, fs_gc s, fs_dedupe s, fs_quota s) = (m, g, d, q)"
    by (metis prod_cases4)
  have "P (fs_meta s) \<longrightarrow> P m"
    using n worldD(6) [OF assms] by (auto simp: note_blob_left_def split: if_splits)
  moreover have "cache_good D (blob_cache_invalidate (dp_lru D) repo digest (fs_cache s))"
    using s cache_invalidate_items [OF worldD(3) [OF assms], of "fs_cache s" repo digest]
    by (auto simp: base_inv_def cache_good_def set_alist_delete)
  ultimately show "fs_ext D P A s (case note_blob_left (dp_meta D) repo digest sz (fs_meta s, fs_gc s, fs_dedupe s, fs_quota s) of
       (m, g, d, q) \<Rightarrow> s\<lparr>fs_presence := presence_remove (dp_filter D) repo digest (fs_presence s),
                          fs_cache := blob_cache_invalidate (dp_lru D) repo digest (fs_cache s),
                          fs_meta := m, fs_gc := g, fs_dedupe := d, fs_quota := q\<rparr>)"
    using s n by (auto simp: fs_ext_def base_inv_def hashed_def intro: evolves_refl)
qed

text \<open>The cache answers with the digest asked for, and takes contents with the digest of their key.\<close>

lemma safe_cache_get:
  assumes "world D P" "digest_wf d"
  shows "safe (base_inv D) (fs_ext D P A) (fs_cache_get D repo (digest_display d))
     (\<lambda>x. \<forall>b. x = Some b \<longrightarrow> digest_of (dp_ext D) b (algorithm d) = d)"
proof (rule fs_safeI)
  fix s assume s: "base_inv D s"
  obtain x c where x: "blob_cache_get (dp_lru D) repo (digest_display d) (fs_cache s) = (x, c)" by fastforce
  note get = cache_get_items [OF worldD(3) [OF assms(1)], of "fs_cache s" repo "digest_display d"]
  have c: "cache_good D c" and v: "x = map_of (cached (dp_lru D) (fs_cache s)) (blob_key repo (digest_display d))"
    using s x get by (auto simp: base_inv_def cache_good_def)
  have "digest_of (dp_ext D) b (algorithm d) = d" if "x = Some b" for b
  proof -
    have "(blob_key repo (digest_display d), b) \<in> set (cached (dp_lru D) (fs_cache s))"
      using v that by (metis map_of_SomeD)
    then show ?thesis using s assms(2) by (force simp: base_inv_def cache_good_def content_ok_def)
  qed
  then show "wp (fs_cache_get D repo (digest_display d)) (\<lambda>r s'. fs_ext D P A s s'
      \<and> (\<forall>x. r = Inr x \<longrightarrow> (\<forall>b. x = Some b \<longrightarrow> digest_of (dp_ext D) b (algorithm d) = d))) s"
    using s c x by (auto simp: wp_def fs_cache_get_def fs_ext_def base_inv_def hashed_def intro: evolves_refl)
qed

lemma kept_cache_put:
  assumes "world D P" "digest_wf d" "digest_of (dp_ext D) b (algorithm d) = d"
  shows "kept (base_inv D) (fs_ext D P A) (fs_cache_put D repo (digest_display d) b)"
  unfolding fs_cache_put_def
proof (rule fs_ev.kept_modify)
  fix s assume s: "base_inv D s"
  let ?k = "blob_key repo (digest_display d)"
  have inv: "cache_inv (dp_lru D) (fs_cache s)" using s by (simp add: base_inv_def cache_good_def)
  obtain c' where c': "blob_cache_put (dp_lru D) repo (digest_display d) b (fs_cache s) = Some c'" "cache_inv (dp_lru D) c'"
      "if bc_threshold (fs_cache s) < length b \<or> bc_capacity (fs_cache s) < entry_cost ?k b then c' = fs_cache s
       else \<exists>n. cached (dp_lru D) c' = (?k, b) # take n (AList.delete ?k (cached (dp_lru D) (fs_cache s)))"
    using cache_put_items [OF worldD(3) [OF assms(1)] inv] by blast
  have "set (cached (dp_lru D) c') \<subseteq> insert (?k, b) (set (cached (dp_lru D) (fs_cache s)))"
    using c'(3) by (auto simp: set_alist_delete split: if_splits dest!: in_set_takeD)
  then have "cache_good D c'"
    using s c'(2) content_okI [OF assms(2,3), of repo] by (auto simp: base_inv_def cache_good_def)
  then show "fs_ext D P A s (s\<lparr>fs_cache := (case blob_cache_put (dp_lru D) repo (digest_display d) b (fs_cache s) of
       Some c \<Rightarrow> c | None \<Rightarrow> fs_cache s)\<rparr>)"
    using s c'(1) by (auto simp: fs_ext_def base_inv_def hashed_def intro: evolves_refl)
qed

end
