(* ===== verification/Fs_Safety.thy ===== *)
theory Fs_Safety
  imports Fs_Inv
begin

text \<open>
  Every operation of the filesystem store keeps its invariant, and which files each may change.
\<close>

section \<open>Reads\<close>

lemma safe_read_all_beneath:
  assumes "blob_rel repo d = Inr rel" "digest_wf d"
  shows "safe (base_inv D) (fs_ext D P A) (read_all_beneath rel) (\<lambda>b. digest_of (dp_ext D) b (algorithm d) = d)"
proof (rule fs_safeI)
  fix s assume s: "base_inv D s"
  let ?H = "dp_ext D"
  have inv: "os_inv ?H (fs_os s)" using s by (simp add: base_inv_def)
  have ext: "fs_ext D P A s (s\<lparr>fs_os := t\<rparr>)" if "evolves ?H A (fs_os s) t" for t
    using s that by (auto simp: fs_ext_def base_inv_def hashed_def dest: evolves_inv)
  show "wp (read_all_beneath rel) (\<lambda>r s'. fs_ext D P A s s' \<and> (\<forall>x. r = Inr x \<longrightarrow> digest_of ?H x (algorithm d) = d)) s"
    unfolding read_all_beneath_def wp_and_do wp_err_map on_os_def wp_on_part open_beneath_def
  proof (rule wp_resolve_beneath [OF evolves_refl [OF inv, of A]], goal_cases)
    case (2 r t)
    show ?case
    proof (cases r)
      case (Inr i)
      then have i: "node_at (fs_os s) rel = Some (Reg i)" using 2(3) by simp
      have dig: "digest_of ?H (os_data t i) (algorithm d) = d"
        using inv_cas [OF inv i cas_digest_blob_rel [OF assms]] 2(2) by (simp add: same_def)
      have "wp (read_to_end i) (\<lambda>r t'. fs_ext D P A s (s\<lparr>fs_os := t'\<rparr>) \<and> (\<forall>x. map_err map_not_found (map_err io_of_errno r) = Inr x \<longrightarrow>
          digest_of ?H x (algorithm d) = d)) t"
        by (rule wp_read_to_end [OF 2(1)]) (use dig in \<open>auto simp: map_err_def intro: ext split: sum.splits\<close>)
      then show ?thesis using Inr by (simp add: wp_simps wp_io)
    qed (use 2 ext in \<open>auto simp: map_err_def\<close>)
  qed simp
qed

lemma kept_read_all_beneath [kept_intros]: "kept (base_inv D) (fs_ext D P A) (read_all_beneath rel)"
  unfolding read_all_beneath_def by (intro kept_intros)

lemma kept_read_index [kept_intros]:
  "kept (base_inv D) (fs_ext D P A) (read_index D' repo)"
  "kept (base_inv D) (fs_ext D P A) (index_media_type_for_digest D' repo digest)"
  "kept (base_inv D) (fs_ext D P A) (index_resolve_tag D' repo tag)"
  unfolding index_media_type_for_digest_def index_resolve_tag_def read_index_def by (intro kept_intros)+

lemma kept_blob_queries [kept_intros]:
  "kept (base_inv D) (fs_ext D P A) (fs_blob_size D' repo d)"
  "kept (base_inv D) (fs_ext D P A) (fs_blob_exists D' repo d)"
  "kept (base_inv D) (fs_ext D P A) (fs_upload_size repo upload)"
  "kept (base_inv D) (fs_ext D P A) (size_for_release rel)"
  unfolding fs_blob_size_def fs_blob_exists_def fs_upload_size_def size_for_release_def by (intro kept_intros)+

lemma safe_read_blob:
  assumes "world D P" "digest_wf d"
  shows "safe (base_inv D) (fs_ext D P A) (fs_read_blob D repo d) (\<lambda>b. digest_of (dp_ext D) b (algorithm d) = d)"
  unfolding fs_read_blob_def
proof (rule fs_ev.safe_and_do [OF safe_cache_get [OF assms]])
  fix x assume x: "\<forall>b. x = Some b \<longrightarrow> digest_of (dp_ext D) b (algorithm d) = d"
  show "safe (base_inv D) (fs_ext D P A) (case x of Some b \<Rightarrow> ret b | None \<Rightarrow>
      and_do (lift_res (blob_rel repo d)) (\<lambda>rel. and_do (present D repo (digest_display d)) (\<lambda>maybe.
        if \<not> maybe then fail NotFound
        else and_do (read_all_beneath rel) (\<lambda>b. and_do (fs_cache_put D repo (digest_display d) b) (\<lambda>_. ret b)))))
      (\<lambda>b. digest_of (dp_ext D) b (algorithm d) = d)"
  proof (cases x)
    case None
    have "safe (base_inv D) (fs_ext D P A) (and_do (read_all_beneath rel) (\<lambda>b. and_do (fs_cache_put D repo (digest_display d) b) (\<lambda>_. ret b)))
        (\<lambda>b. digest_of (dp_ext D) b (algorithm d) = d)" if "blob_rel repo d = Inr rel" for rel
      by (intro fs_ev.safe_and_do [OF safe_read_all_beneath [OF that assms(2)]] fs_ev.safe_and_do [OF kept_cache_put [OF assms]]
          fs_ev.safe_ret)
    then show ?thesis
      unfolding None option.case present_def
      by (intro fs_ev.safe_and_do [where R = "\<lambda>rel. blob_rel repo d = Inr rel", OF fs_ev.safe_lift_res] fs_ev.safe_and_do [OF fs_ev.kept_gets])
        (auto intro: fs_ev.safe_fail)
  qed (use x in \<open>auto intro: fs_ev.safe_ret\<close>)
qed

definition blob_read_ok :: "'a hash_api_scheme \<Rightarrow> digest \<Rightarrow> blob_read \<Rightarrow> bool" where
  "blob_read_ok H d b \<longleftrightarrow> (\<exists>content. br_source b = FileSource content \<and> br_size b = of_nat (length content)
     \<and> digest_of H content (algorithm d) = d)"

lemma safe_open_blob:
  assumes "digest_wf d"
  shows "safe (base_inv D) (fs_ext D P A) (fs_open_blob D repo d) (blob_read_ok (dp_ext D) d)"
proof -
  let ?H = "dp_ext D"
  have "safe (base_inv D) (fs_ext D P A) (and_do (err_map map_not_found (on_os (open_beneath rel))) (\<lambda>f.
          and_do (err_map map_not_found (on_os (io (fstat (File_Fd f))))) (\<lambda>st.
          gets (\<lambda>s. \<lparr>br_size = of_nat (st_size st), br_source = FileSource (os_data (fs_os s) f)\<rparr>)))) (blob_read_ok ?H d)"
    if rel: "blob_rel repo d = Inr rel" for rel
  proof (rule fs_safeI)
    fix s assume s: "base_inv D s"
    then have inv: "os_inv ?H (fs_os s)" by (simp add: base_inv_def)
    have ext: "fs_ext D P A s (s\<lparr>fs_os := t\<rparr>)" if "evolves ?H A (fs_os s) t" for t
      using s that by (auto simp: fs_ext_def base_inv_def hashed_def dest: evolves_inv)
    show "wp (and_do (err_map map_not_found (on_os (open_beneath rel))) (\<lambda>f.
          and_do (err_map map_not_found (on_os (io (fstat (File_Fd f))))) (\<lambda>st.
          gets (\<lambda>s. \<lparr>br_size = of_nat (st_size st), br_source = FileSource (os_data (fs_os s) f)\<rparr>))))
        (\<lambda>r s'. fs_ext D P A s s' \<and> (\<forall>x. r = Inr x \<longrightarrow> blob_read_ok ?H d x)) s"
      unfolding wp_and_do wp_err_map on_os_def wp_on_part open_beneath_def
    proof (rule wp_resolve_beneath [OF evolves_refl [OF inv, of A]], goal_cases)
      case (2 r t)
      show ?case
      proof (cases r)
        case (Inr i)
        then have i: "node_at (fs_os s) rel = Some (Reg i)" using 2(3) by simp
        have dig: "digest_of ?H (os_data t i) (algorithm d) = d"
          using inv_cas [OF inv i cas_digest_blob_rel [OF rel assms]] 2(2) by (simp add: same_def)
        have "wp (fstat (File_Fd i)) (\<lambda>r t'. case map_err map_not_found (map_err io_of_errno r) of
            Inl e \<Rightarrow> fs_ext D P A s (s\<lparr>fs_os := t'\<rparr>)
          | Inr st \<Rightarrow> fs_ext D P A s (s\<lparr>fs_os := t'\<rparr>) \<and>
              blob_read_ok ?H d \<lparr>br_size = of_nat (st_size st), br_source = FileSource (os_data t' i)\<rparr>) t"
        proof (rule wp_fstat [OF 2(1)], goal_cases)
          case (1 r t')
          have "os_data t' i = os_data t i" using 1(2) by (simp add: same_def)
          then have "blob_read_ok ?H d \<lparr>br_size = of_nat (st_size st), br_source = FileSource (os_data t' i)\<rparr>"
            if "st = stat_of t (Reg i)" for st
            using dig that by (simp add: blob_read_ok_def stat_of_def)
          then show ?case using ext [OF 1(1)] 1(3) by (cases r) auto
        qed
        then show ?thesis using Inr
          by (simp add: wp_simps wp_io) (erule wp_mono, auto simp: wp_gets split: sum.splits)
      qed (use 2 ext in \<open>auto simp: map_err_def\<close>)
    qed simp
  qed
  then show ?thesis
    unfolding fs_open_blob_def present_def
    by (intro fs_ev.safe_and_do [OF fs_ev.kept_gets])
      (auto intro!: fs_ev.safe_fail fs_ev.safe_and_do [where R = "\<lambda>rel. blob_rel repo d = Inr rel", OF fs_ev.safe_lift_res])
qed

lemma safe_manifest_reference:
  "safe (base_inv D) (fs_ext D P A) (manifest_reference D' repo reference)
     (\<lambda>(d, _). digest_wf d \<and> (CHR '':'' \<in> set reference \<longrightarrow> parse_digest reference = Inr d))"
proof (cases "CHR '':'' \<in> set reference")
  case True
  show ?thesis
    unfolding manifest_reference_def if_P [OF True]
    by (intro fs_ev.safe_and_do [where R = "\<lambda>d. parse_digest reference = Inr d", OF fs_ev.safe_lift_res]
        fs_ev.safe_and_do [OF fs_ev.kept_gets])
      (auto intro!: fs_ev.safe_ret fs_ev.safe_and_do [OF kept_read_index(2)] dest: parse_digest_wf split: option.splits)
next
  case False
  have idx: "safe (base_inv D) (fs_ext D P A) (index_resolve_tag D' repo reference) (\<lambda>(d, _). digest_wf d)"
    unfolding index_resolve_tag_def
    by (intro fs_ev.safe_and_do [OF kept_read_index(1)] fs_ev.safe_lift_res)
      (auto simp: and_then_Inr_iff dest: parse_digest_wf)
  show ?thesis
    unfolding manifest_reference_def if_not_P [OF False]
    using False idx
    by (intro fs_ev.safe_and_do [OF fs_ev.kept_gets])
      (auto intro!: fs_ev.safe_and_do [where R = digest_wf, OF fs_ev.safe_lift_res] fs_ev.safe_ret
        intro: parse_digest_wf split: option.splits)
qed

definition manifest_ok :: "'a hash_api_scheme \<Rightarrow> string \<Rightarrow> manifest_ref \<Rightarrow> bool" where
  "manifest_ok H reference m \<longleftrightarrow> digest_of H (mr_bytes m) (algorithm (mr_digest m)) = mr_digest m
     \<and> (CHR '':'' \<in> set reference \<longrightarrow> parse_digest reference = Inr (mr_digest m))"

lemma safe_get_manifest:
  assumes "world D P"
  shows "safe (base_inv D) (fs_ext D P A) (fs_get_manifest D repo reference) (manifest_ok (dp_ext D) reference)"
  unfolding fs_get_manifest_def
proof (rule fs_ev.safe_and_do [OF safe_manifest_reference], clarify)
  fix d mt assume d: "digest_wf d" "CHR '':'' \<in> set reference \<longrightarrow> parse_digest reference = Inr d"
  have read: "safe (base_inv D) (fs_ext D P A) (case x of Some b \<Rightarrow> ret b | None \<Rightarrow>
      and_do (lift_res (blob_rel repo d)) (\<lambda>rel. and_do (read_all_beneath rel) (\<lambda>b.
        and_do (fs_cache_put D repo (digest_display d) b) (\<lambda>_. ret b)))) (\<lambda>b. digest_of (dp_ext D) b (algorithm d) = d)"
    if x: "\<forall>b. x = Some b \<longrightarrow> digest_of (dp_ext D) b (algorithm d) = d" for x
  proof (cases x)
    case None
    have "safe (base_inv D) (fs_ext D P A) (and_do (read_all_beneath rel) (\<lambda>b. and_do (fs_cache_put D repo (digest_display d) b) (\<lambda>_. ret b)))
        (\<lambda>b. digest_of (dp_ext D) b (algorithm d) = d)" if "blob_rel repo d = Inr rel" for rel
      by (intro fs_ev.safe_and_do [OF safe_read_all_beneath [OF that d(1)]] fs_ev.safe_and_do [OF kept_cache_put [OF assms d(1)]]
          fs_ev.safe_ret)
    then show ?thesis
      unfolding None option.case
      by (intro fs_ev.safe_and_do [where R = "\<lambda>rel. blob_rel repo d = Inr rel", OF fs_ev.safe_lift_res])
  qed (use x in \<open>auto intro: fs_ev.safe_ret\<close>)
  show "safe (base_inv D) (fs_ext D P A) (and_do (fs_cache_get D repo (digest_display d)) (\<lambda>cached.
     and_do (case cached of Some b \<Rightarrow> ret b | None \<Rightarrow>
                 and_do (lift_res (blob_rel repo d)) (\<lambda>rel. and_do (read_all_beneath rel) (\<lambda>b.
                 and_do (fs_cache_put D repo (digest_display d) b) (\<lambda>_. ret b)))) (\<lambda>b.
     ret \<lparr>mr_digest = d, mr_media_type = mt, mr_bytes = b\<rparr>))) (manifest_ok (dp_ext D) reference)"
    by (intro fs_ev.safe_and_do [OF safe_cache_get [OF assms d(1)]] fs_ev.safe_and_do [OF read] fs_ev.safe_ret)
      (use d(2) in \<open>auto simp: manifest_ok_def\<close>)
qed

section \<open>Writes of whole blobs\<close>

lemma blob_dir_rel_cas:
  assumes "blob_dir_rel repo d = Inr (dir, leaf)" "digest_wf d"
  shows "cas_digest (dir @ [leaf]) = Some d" "lower_hex leaf" "leaf = hex d"
  using cas_digest_blob_rel [OF blob_dir_rel_Inr(1) [OF assms(1)] assms(2)] blob_dir_rel_Inr(2) [OF assms(1)] assms(2)
  by (auto simp: digest_wf_def)

lemma kept_admit_blob [kept_intros]: "kept (base_inv D) (fs_ext D P A) (admit_blob repo dir leaf sz)"
  unfolding admit_blob_def by (intro kept_intros)

lemma kept_layout [kept_intros]:
  "kept (base_inv D) (fs_ext D P A) (ensure_layout repo)"
  "kept (base_inv D) (fs_ext D P A) (layout_and_admit rel repo dir leaf sz)"
  unfolding ensure_layout_def layout_and_admit_def by (intro kept_intros)+

lemma kept_dedupe_link:
  assumes "blob_dir_rel repo d = Inr (dir, leaf)" "digest_wf d"
  shows "kept (base_inv D) (fs_ext D P A) (dedupe_link D' repo dir leaf (digest_display d))"
proof -
  have cas: "cas_digest (src_dir @ [leaf]) = Some d" if "blob_dir_rel src_repo d = Inr (src_dir, x)" for src_repo src_dir x
    using blob_dir_rel_cas [OF that assms(2)] blob_dir_rel_cas(3) [OF assms] by simp
  show ?thesis
    unfolding dedupe_link_def parse_digest_display [OF assms(2)] sum.case
    using cas blob_dir_rel_cas(1) [OF assms]
    by (auto intro!: kept_intros kept_mount_promote)
qed

lemma kept_put_blob:
  assumes "world D P" "digest_wf d"
  shows "kept (base_inv D) (fs_ext D P A) (fs_put_blob D repo d data)"
proof (cases "digest_ct_eq (digest_of (dp_ext D) data (algorithm d)) d")
  case True
  then have eq: "digest_of (dp_ext D) data (algorithm d) = d"
    using digest_of_wf [OF worldD(2) [OF assms(1)]] assms(2) by (simp add: digest_ct_eq_iff)
  have pub: "kept (base_inv D) (fs_ext D P A) (on_os (publish_bytes dir leaf data commit))"
    if "blob_dir_rel repo d = Inr (dir, leaf)" for dir leaf commit
    using blob_dir_rel_cas [OF that assms(2)] eq by (intro kept_on_os kept_publish_bytes) auto
  show ?thesis
    unfolding fs_put_blob_def Let_def if_not_P [OF not_not [THEN iffD2, OF True]]
    by (intro fs_ev.kept_bind kept_intros kept_dedupe_link pub assms) auto
next
  case False
  then show ?thesis by (simp add: fs_put_blob_def fs_ev.kept_fail)
qed

lemma kept_mount_blob:
  assumes "world D P" "digest_wf d"
  shows "kept (base_inv D) (fs_ext D P A) (fs_mount_blob D from_repo to_repo d)"
proof -
  have mount: "kept (base_inv D) (fs_ext D P A) (on_os (mount_promote_beneath e dir leaf True commit))"
    if "blob_dir_rel from_repo d = Inr (e, leaf)" "blob_dir_rel to_repo d = Inr (dir, x)" for e dir leaf x commit
    using blob_dir_rel_cas [OF that(1) assms(2)] blob_dir_rel_cas [OF that(2) assms(2)]
    by (intro kept_on_os kept_mount_promote [where y = d]) auto
  show ?thesis
    unfolding fs_mount_blob_def Let_def by (intro fs_ev.kept_bind kept_intros mount assms) auto
qed

lemma kept_delete_blob:
  assumes "world D P" "\<And>p. blob_rel repo d = Inr p \<Longrightarrow> p \<in> A"
  shows "kept (base_inv D) (fs_ext D P A) (fs_delete_blob D repo d)"
  unfolding fs_delete_blob_def
  by (intro fs_ev.kept_bind kept_intros assms) (auto dest!: blob_dir_rel_Inr(1))

section \<open>Manifests and listings\<close>

lemma kept_record_manifest:
  "world D P \<Longrightarrow> kept (base_inv D) (fs_ext D P A) (record_manifest D repo tag ds mt references ref)"
  unfolding record_manifest_def by (intro kept_intros kept_apply_meta) (auto intro: worldD(5))

lemma kept_land_manifest:
  assumes "blob_dir_rel repo d = Inr (dir, leaf)" "digest_wf d" "digest_of (dp_ext D) data (algorithm d) = d"
  shows "kept (base_inv D) (fs_ext D P A) (land_manifest D repo rel dir leaf (digest_display d) data required)"
proof -
  have pub: "kept (base_inv D) (fs_ext D P A) (on_os (publish_bytes dir leaf data commit))" for commit
    using blob_dir_rel_cas [OF assms(1,2)] assms(3) by (intro kept_on_os kept_publish_bytes) auto
  show ?thesis unfolding land_manifest_def by (intro kept_intros kept_dedupe_link pub assms)
qed

lemma kept_manifest_landed [kept_intros]:
  "(\<And>e. x = MRejected e \<Longrightarrow> kept I E (f e)) \<Longrightarrow> (\<And>c e. x = MFailed c e \<Longrightarrow> kept I E (g c e)) \<Longrightarrow>
    (\<And>m e. x = Stored m e \<Longrightarrow> kept I E (h m e)) \<Longrightarrow>
     kept I E (case x of MRejected e \<Rightarrow> f e | MFailed c e \<Rightarrow> g c e | Stored m e \<Rightarrow> h m e)"
  by (cases x) auto

lemma kept_put_manifest:
  assumes "world D P" "digest_wf d"
  shows "kept (base_inv D) (fs_ext D P A) (fs_put_manifest D repo tag d mt data links)"
proof (cases "digest_of (dp_ext D) data (algorithm d) = d")
  case True
  then show ?thesis
    unfolding fs_put_manifest_def Let_def
    by (intro fs_ev.kept_bind kept_intros kept_land_manifest kept_cache_put kept_record_manifest assms) auto
next
  case False
  then show ?thesis
    unfolding fs_put_manifest_def Let_def digest_ct_eq_iff by (simp add: fs_ev.kept_bind fs_ev.kept_fail)
qed

lemma kept_cache_get: "world D P \<Longrightarrow> digest_wf d \<Longrightarrow> kept (base_inv D) (fs_ext D P A) (fs_cache_get D repo (digest_display d))"
  by (rule fs_ev.safe_kept [OF safe_cache_get])

lemma kept_modify_gc:
  assumes "\<And>s. f s = s\<lparr>fs_gc := fs_gc (f s)\<rparr>"
  shows "kept (base_inv D) (fs_ext D P A) (modify f)"
proof (rule kept_update)
  fix s
  show "fs_os (f s) = fs_os s \<and> fs_cache (f s) = fs_cache s \<and> fs_pending (f s) = fs_pending s
      \<and> fs_upload_locks (f s) = fs_upload_locks s \<and> fs_meta (f s) = fs_meta s"
    by (subst (1 2 3 4 5) assms) simp
qed

lemma fold_gc_only:
  assumes "\<And>x s. f x s = s\<lparr>fs_gc := fs_gc (f x s)\<rparr>"
  shows "fold f xs s = s\<lparr>fs_gc := fs_gc (fold f xs s)\<rparr>"
proof (induction xs arbitrary: s)
  case (Cons x xs)
  have "fold f xs (f x s) = (f x s)\<lparr>fs_gc := fs_gc (fold f xs (f x s))\<rparr>" by (rule Cons.IH)
  also have "\<dots> = s\<lparr>fs_gc := fs_gc (fold f xs (f x s))\<rparr>" by (subst assms) simp
  finally show ?case by simp
qed simp

lemma kept_delete_manifest:
  assumes "world D P" "digest_wf d" "\<And>p. blob_rel repo d = Inr p \<Longrightarrow> p \<in> A"
    and "\<And>m. P m \<Longrightarrow> P (snd (mt_apply (dp_meta D) (DeleteManifest repo (digest_display d)) m))"
  shows "kept (base_inv D) (fs_ext D P A) (fs_delete_manifest D repo d)"
  unfolding fs_delete_manifest_def Let_def
  by (intro fs_ev.kept_bind kept_intros kept_cache_get kept_apply_meta kept_modify_gc fold_gc_only assms)
    (auto simp: seed_candidate_def dest!: blob_dir_rel_Inr(1) intro: assms(3))

lemma kept_lists [kept_intros]:
  assumes "world D P"
  shows "kept (base_inv D) (fs_ext D P A) (fs_list_tags D repo last_seen limit)"
    and "kept (base_inv D) (fs_ext D P A) (fs_list_referrers D repo subject artifact_type last_seen limit)"
proof -
  show "kept (base_inv D) (fs_ext D P A) (fs_list_tags D repo last_seen limit)"
    unfolding fs_list_tags_def by (intro kept_intros)
  have idx: "safe (base_inv D) (fs_ext D P A) (observe (index_resolve_tag D repo t) (\<lambda>r. ret (case r of Inr (d, _) \<Rightarrow> Some d | Inl _ \<Rightarrow> None)))
      (\<lambda>x. \<forall>d. x = Some d \<longrightarrow> digest_wf d)" for t
    unfolding index_resolve_tag_def
    by (rule fs_ev.safe_observe [OF fs_ev.safe_and_do [where R = "\<lambda>_. True" and T = "\<lambda>(d, _). digest_wf d"]])
      (auto intro!: kept_read_index fs_ev.safe_lift_res fs_ev.safe_ret simp: and_then_Inr_iff dest: parse_digest_wf split: sum.splits)
  have known: "safe (base_inv D) (fs_ext D P A) (ret (case parse_digest ds of Inr d \<Rightarrow> Some d | Inl _ \<Rightarrow> None))
      (\<lambda>x. \<forall>d. x = Some d \<longrightarrow> digest_wf d)" for ds
    by (rule fs_ev.safe_ret) (auto dest: parse_digest_wf split: sum.splits)
  have read: "kept (base_inv D) (fs_ext D P A) (fs_read_blob D repo d)" if "digest_wf d" for d
    by (rule fs_ev.safe_kept [OF safe_read_blob [OF assms that]])
  have "kept (base_inv D) (fs_ext D P A) (tag_schema_referrers D repo subject artifact_type last_seen limit)"
    unfolding tag_schema_referrers_def Let_def
    by (intro kept_intros fs_ev.safe_and_do [where R = "\<lambda>x. \<forall>d. x = Some d \<longrightarrow> digest_wf d"])
      (auto intro!: known idx read kept_intros split: option.splits)
  then show "kept (base_inv D) (fs_ext D P A) (fs_list_referrers D repo subject artifact_type last_seen limit)"
    unfolding fs_list_referrers_def Let_def by (intro kept_intros)
qed

end
