(* ===== verification/Fs_Sessions.thy ===== *)
theory Fs_Sessions
  imports Fs_Safety
begin

text \<open>
  Upload sessions keep the invariant of the store: the hash that runs along with the writes always
  matches the staging file, and a file is named a blob only when its contents have the digest.
\<close>

section \<open>Steps with the whole invariant\<close>

definition fs_next :: "('x, 'm, 'f, 'l) deps \<Rightarrow> ('m \<Rightarrow> bool) \<Rightarrow> path set \<Rightarrow> ('m, 'f, 'l) fs_store \<Rightarrow> ('m, 'f, 'l) fs_store \<Rightarrow> bool" where
  "fs_next D P A s s' \<longleftrightarrow> fs_inv D s' \<and> evolves (dp_ext D) A (fs_os s) (fs_os s') \<and> (P (fs_meta s) \<longrightarrow> P (fs_meta s'))"

interpretation fs_nx: evolution "fs_inv D" "fs_next D P A" for D :: "('x, 'm, 'f, 'l) deps" and P A
  by unfold_locales
    (auto simp: fs_next_def fs_inv_def base_inv_def intro: evolves_refl dest: evolves_trans [where A = A and B = A])

lemma fs_next_mono: "fs_next D P A s s' \<Longrightarrow> A \<subseteq> B \<Longrightarrow> fs_next D P B s s'"
  by (auto simp: fs_next_def intro: evolves_mono)

lemma fs_next_trans: "fs_next D P A s t \<Longrightarrow> fs_next D P B t u \<Longrightarrow> fs_next D P (A \<union> B) s u"
  by (auto simp: fs_next_def intro: evolves_trans)

lemma fs_next_ext:
  assumes "fs_inv D s" "fs_ext D P A s s'"
    and "\<And>k h p. hashed s' k h \<Longrightarrow> upload_rel (fst k) (snd k) = Inr p \<Longrightarrow> p \<notin> A"
  shows "fs_next D P A s s'"
  using fs_inv_ext [OF assms] assms(2) by (simp add: fs_next_def fs_ext_def)

text \<open>Paths that are staging files of no session with a hash.\<close>

definition no_staging :: "path set \<Rightarrow> bool" where
  "no_staging A \<longleftrightarrow> (\<forall>repo upload p. upload_rel repo upload = Inr p \<longrightarrow> upload \<noteq> ''index.json'' \<longrightarrow> p \<notin> A)"

lemma no_staging_empty [simp]: "no_staging {}"
  by (simp add: no_staging_def)

lemma next_of_safe:
  assumes "safe (base_inv D) (fs_ext D P A) m R" "no_staging A"
  shows "safe (fs_inv D) (fs_next D P A) m R"
  unfolding safe_def
proof (intro allI impI)
  fix s assume s: "fs_inv D s"
  have "fs_next D P A s s'" if "fs_ext D P A s s'" for s'
  proof (rule fs_next_ext [OF s that])
    fix k h p assume h: "hashed s' k h" and p: "upload_rel (fst k) (snd k) = Inr p"
    have "hashed s k h" using h that unfolding fs_ext_def by blast
    then have "snd k \<noteq> ''index.json''" using s unfolding fs_inv_def staged_ok_def by blast
    then show "p \<notin> A" using assms(2) p by (auto simp: no_staging_def)
  qed
  moreover have "wp m (\<lambda>r s'. fs_ext D P A s s' \<and> (\<forall>x. r = Inr x \<longrightarrow> R x)) s"
    using assms(1) s by (simp add: safe_def fs_inv_def)
  ultimately show "wp m (\<lambda>r s'. fs_next D P A s s' \<and> (\<forall>x. r = Inr x \<longrightarrow> R x)) s"
    by (blast intro: wp_mono)
qed

lemma next_mono: "safe (fs_inv D) (fs_next D P A) m R \<Longrightarrow> A \<subseteq> B \<Longrightarrow> safe (fs_inv D) (fs_next D P B) m R"
  unfolding safe_def by (blast intro: wp_mono fs_next_mono)

text \<open>A run that ends without a hash for the session whose file it may touch.\<close>

lemma fs_next_own:
  assumes "fs_inv D s" "fs_ext D P {p} s s'" "upload_rel repo upload = Inr p" "\<And>h. \<not> hashed s' (repo, upload) h"
  shows "fs_next D P {p} s s'"
proof (rule fs_next_ext [OF assms(1,2)])
  fix k h q assume h: "hashed s' k h" and q: "upload_rel (fst k) (snd k) = Inr q"
  have "k \<noteq> (repo, upload)" using h assms(4) by metis
  then show "q \<notin> {p}" using upload_rel_inject [OF _ assms(3)] q by (metis prod.collapse singletonD)
qed

lemma observe_and_do: "and_do (observe m f) g = observe m (\<lambda>r. and_do (f r) g)"
  by (auto simp: and_do_def observe_def fun_eq_iff split: prod.splits)

lemma if_and_do: "and_do (if b then m else n) g = (if b then and_do m g else and_do n g)"
  by simp

text \<open>Removing the staging file of a session; whatever follows a success drops the session.\<close>

lemma next_unlink:
  assumes up: "upload_dir_rel repo upload = Inr (d, c)" and A: "d @ [c] \<in> A"
    and fail: "\<And>e. safe (fs_inv D) (fs_next D P A) (f (Inl e)) R"
    and succ: "\<And>s. base_inv D s \<Longrightarrow> wp (f (Inr ())) (\<lambda>r s'. fs_ext D P {} s s' \<and> (\<forall>h. \<not> hashed s' (repo, upload) h)
        \<and> (\<forall>x. r = Inr x \<longrightarrow> R x)) s"
  shows "safe (fs_inv D) (fs_next D P A) (observe (on_os (unlink_beneath d c)) f) R"
  unfolding safe_def
proof (intro allI impI)
  fix s assume s: "fs_inv D s"
  let ?p = "d @ [c]"
  have inv: "os_inv (dp_ext D) (fs_os s)" using s by (simp add: fs_inv_def base_inv_def)
  have rel: "upload_rel repo upload = Inr ?p" by (rule upload_dir_rel_Inr(1) [OF up])
  have ext: "fs_ext D P {?p} s (s\<lparr>fs_os := t\<rparr>)" if "evolves (dp_ext D) {?p} (fs_os s) t" for t
    using s that by (auto simp: fs_inv_def fs_ext_def base_inv_def hashed_def dest: evolves_inv)
  show "wp (observe (on_os (unlink_beneath d c)) f) (\<lambda>r s'. fs_next D P A s s' \<and> (\<forall>x. r = Inr x \<longrightarrow> R x)) s"
    unfolding wp_observe on_os_def wp_on_part
  proof (rule wp_unlink_beneath [OF evolves_refl [OF inv, of "{?p}"] inv], goal_cases)
    case (2 r t)
    show ?case
    proof (cases r)
      case (Inl e)
      then have same: "file_at t = file_at (fs_os s)"
        using 2(3) by (auto simp: fun_eq_iff files_same_transfer(6))
      have "fs_next D P A s (s\<lparr>fs_os := t\<rparr>)"
      proof -
        have "evolves (dp_ext D) A (fs_os s) t"
          using 2(1) same by (simp add: evolves_def keeps_def)
        moreover have "staged_ok D t k h" if "staged_ok D (fs_os s) k h" for k h
          using that same by (simp add: staged_ok_def)
        ultimately show ?thesis
          using s by (auto simp: fs_next_def fs_inv_def base_inv_def hashed_def dest: evolves_inv)
      qed
      note nx = this
      have "wp (f (Inl e)) (\<lambda>r s'. fs_next D P A (s\<lparr>fs_os := t\<rparr>) s' \<and> (\<forall>x. r = Inr x \<longrightarrow> R x)) (s\<lparr>fs_os := t\<rparr>)"
        using fail nx unfolding safe_def fs_next_def by blast
      then show ?thesis unfolding Inl by (rule wp_mono) (use fs_nx.trans [OF nx] in blast)
    next
      case (Inr u)
      have b: "base_inv D (s\<lparr>fs_os := t\<rparr>)" using ext [OF 2(1)] by (simp add: fs_ext_def)
      have fin: "fs_next D P A s s'" if "fs_ext D P {} (s\<lparr>fs_os := t\<rparr>) s'" "\<forall>h. \<not> hashed s' (repo, upload) h" for s'
      proof -
        have "fs_ext D P {?p} s s'" using fs_ev.trans [OF ext [OF 2(1)] fs_ext_mono [OF that(1)]] by simp
        then have "fs_next D P {?p} s s'" using fs_next_own [OF s _ rel] that(2) by blast
        then show ?thesis by (rule fs_next_mono) (use A in simp)
      qed
      show ?thesis using succ [OF b] fin unfolding Inr by simp (erule wp_mono, blast)
    qed
  qed simp
qed

lemma ext_end_drop:
  assumes "base_inv D s"
  shows "wp (and_do (when_do b (modify (\<lambda>s. s\<lparr>fs_quota := end_session (fs_quota s)\<rparr>))) (\<lambda>_. drop_session repo upload))
      (\<lambda>r s'. fs_ext D P A s s' \<and> (\<forall>h. \<not> hashed s' (repo, upload) h)) s"
  using assms
  by (auto simp: wp_simps drop_session_def fs_ext_def base_inv_def hashed_def delete_conv' intro: evolves_refl)

lemma next_discard:
  assumes "world D P" "\<And>p. upload_rel repo upload = Inr p \<Longrightarrow> p \<in> A"
  shows "safe (fs_inv D) (fs_next D P A) (discard_session repo upload) (\<lambda>_. True)"
proof -
  have tail: "safe (fs_inv D) (fs_next D P A) (and_do (when_do b (modify (\<lambda>s. s\<lparr>fs_quota := end_session (fs_quota s)\<rparr>)))
      (\<lambda>_. drop_session repo upload)) (\<lambda>_. True)" for b
    by (rule next_mono [OF next_of_safe [where A = "{}"]]) (auto intro!: kept_intros)
  have unl: "safe (fs_inv D) (fs_next D P A) (observe (on_os (unlink_beneath d c)) (\<lambda>r. and_do (ret (is_ok r)) (\<lambda>gone.
      and_do (when_do gone (modify (\<lambda>s. s\<lparr>fs_quota := end_session (fs_quota s)\<rparr>))) (\<lambda>_. drop_session repo upload)))) (\<lambda>_. True)"
    if "upload_dir_rel repo upload = Inr (d, c)" for d c
    by (rule next_unlink [OF that])
      (use assms(2) [OF upload_dir_rel_Inr(1) [OF that]] ext_end_drop in
        \<open>auto simp: is_ok_def wp_and_do [where m = "ret _"] wp_ret intro!: tail fs_nx.kept_and_do fs_nx.kept_ret\<close>)
  have take: "safe (fs_inv D) (fs_next D P A) (take_pending repo upload) (\<lambda>_. True)"
    by (rule next_mono [OF next_of_safe [where A = "{}"]]) (auto intro!: kept_intros)
  show ?thesis
    unfolding discard_session_def if_and_do observe_and_do
    by (intro fs_nx.kept_bind kept_prod fs_nx.kept_and_do take kept_if fs_nx.kept_ret tail) (use unl in auto)
qed

lemma next_abort:
  assumes "world D P" "\<And>p. upload_rel repo upload = Inr p \<Longrightarrow> p \<in> A"
  shows "safe (fs_inv D) (fs_next D P A) (fs_abort_upload repo upload) (\<lambda>_. True)"
proof -
  let ?fin = "\<lambda>removed. and_do (when_do removed (modify (\<lambda>s. s\<lparr>fs_quota := end_session (fs_quota s)\<rparr>))) (\<lambda>_.
      and_do (drop_session repo upload) (\<lambda>_. ret removed))"
  have tail: "safe (fs_inv D) (fs_next D P A) (?fin b) (\<lambda>_. True)" for b
    by (rule next_mono [OF next_of_safe [where A = "{}"]]) (auto intro!: kept_intros)
  have fin: "wp (and_do (ret True) ?fin) (\<lambda>r s'. fs_ext D P {} s s' \<and> (\<forall>h. \<not> hashed s' (repo, upload) h)
      \<and> (\<forall>x. r = Inr x \<longrightarrow> True)) s" if "base_inv D s" for s
    using that by (auto simp: wp_simps drop_session_def fs_ext_def base_inv_def hashed_def delete_conv' intro: evolves_refl)
  have unl: "safe (fs_inv D) (fs_next D P A) (observe (on_os (unlink_beneath d c)) (\<lambda>r. and_do (case r of Inr _ \<Rightarrow> ret True
      | Inl e \<Rightarrow> if io_kind_of e = KNotFound then ret False else fail (Io e)) ?fin)) (\<lambda>_. True)"
    if "upload_dir_rel repo upload = Inr (d, c)" for d c
    by (rule next_unlink [OF that])
      (use assms(2) [OF upload_dir_rel_Inr(1) [OF that]] fin in
        \<open>auto intro!: tail fs_nx.kept_and_do fs_nx.kept_ret fs_nx.kept_fail\<close>)
  have pre: "safe (fs_inv D) (fs_next D P A) (take_pending repo upload) (\<lambda>_. True)"
    "safe (fs_inv D) (fs_next D P A) (session_lock repo upload) (\<lambda>_. True)"
    by (rule next_mono [OF next_of_safe [where A = "{}"]], auto intro!: kept_intros)+
  show ?thesis
    unfolding fs_abort_upload_def if_and_do observe_and_do
    by (intro fs_nx.kept_bind kept_prod fs_nx.kept_and_do pre kept_if fs_nx.kept_ret tail) (use unl in auto)
qed

lemma kept_begin_upload: "kept (base_inv D) (fs_ext D P A) (fs_begin_upload repo)"
proof -
  have pend: "kept (base_inv D) (fs_ext D P A) (modify (\<lambda>s. s\<lparr>fs_pending := AList.update (repo, x) (os_time (fs_os s)) (fs_pending s)\<rparr>))"
    if "lower_hex x" for x
    by (rule fs_ev.kept_modify)
      (use that in \<open>auto simp: fs_ext_def base_inv_def hashed_def update_conv' intro: evolves_refl split: if_splits\<close>)
  show ?thesis
    unfolding fs_begin_upload_def
    by (intro fs_ev.safe_and_do [OF fs_ev.safe_err_map [OF fs_safe_on_os [OF safe_getrandom_hex]]] fs_ev.kept_bind
        fs_ev.kept_and_do kept_on_quota pend fs_ev.kept_ret)
qed

section \<open>Opening a session\<close>

lemma wp_prepare_staging:
  assumes ev: "evolves H A s0 s" and inv0: "os_inv H s0" and rel: "rel \<noteq> []" "cas_digest rel = None"
    and idx: "create \<Longrightarrow> last rel \<noteq> ''index.json''"
    and Q: "\<And>r s'. evolves H A s0 s' \<Longrightarrow> (\<forall>f n i. r = Inr (Ready f n i) \<longrightarrow> i = f \<and> node_at s' rel = Some (Reg f)
        \<and> n = length (os_data s' f) \<and> (if create then os_data s' f = [] else file_at s' = file_at s)) \<Longrightarrow> Q r s'"
  shows "wp (prepare_staging rel create) Q s"
proof (cases create)
  case True
  show ?thesis
    unfolding prepare_staging_def if_P [OF True] wp_and_do [where m = "dir_beneath _ _"]
  proof (rule wp_dir_beneath [OF ev], goal_cases)
    case (1 r s1)
    show ?case
    proof (cases r)
      case (Inr d)
      then have r: "r = Inr (butlast rel)" using 1(3) by simp
      have p: "butlast rel @ [last rel] = rel" using rel(1) by simp
      show ?thesis
        unfolding r sum.case wp_and_do [where m = "io (openat _ _ _)"] wp_io
      proof (rule wp_create_excl [OF 1(1) inv0], goal_cases)
        case (3 r s2)
        show ?case
        proof (cases r)
          case (Inr fd)
          then obtain i where i: "fd = File_Fd i" "node_at s2 rel = Some (Reg i)" "os_data s2 i = []"
            using 3(2) p by (auto simp: temp_at_def)
          have "wp (fstat fd) (\<lambda>r s'. case map_err io_of_errno r of Inl e \<Rightarrow> Q (Inl e) s'
              | Inr st \<Rightarrow> Q (Inr (Ready (file_of fd) 0 (ino_of st))) s') s2"
          proof (rule wp_fstat [OF 3(1)], goal_cases)
            case (1 r s3)
            have "node_at s3 rel = Some (Reg i)" "os_data s3 i = []" using 1(2) i by (auto simp: same_def)
            then show ?case using 1(1,3) i(1) True by (cases r) (auto simp: file_of_def ino_of_def stat_of_def intro!: Q)
          qed
          then show ?thesis unfolding Inr by (simp add: wp_simps wp_io) (erule wp_mono, auto simp: wp_ret split: sum.splits)
        qed (use 3(1) Q in simp)
      qed (use p rel(2) idx True in simp_all)
    qed (use 1(1) Q in simp)
  qed
next
  case False
  have ready: "wp (and_do (resolve_beneath rel O_Append) (\<lambda>f. and_do (io (fstat (File_Fd f))) (\<lambda>st. ret (Ready f (st_size st) (ino_of st))))) Q t"
    if t: "evolves H A s0 t" "same s t" for t
    unfolding wp_and_do [where m = "resolve_beneath _ _"]
  proof (rule wp_resolve_beneath [OF t(1)], goal_cases)
    case (2 r s1)
    show ?case
    proof (cases r)
      case (Inr f)
      then have f: "node_at s1 rel = Some (Reg f)" using 2 by (auto simp: same_def)
      have "wp (fstat (File_Fd f)) (\<lambda>r s'. case map_err io_of_errno r of Inl e \<Rightarrow> Q (Inl e) s'
          | Inr st \<Rightarrow> Q (Inr (Ready f (st_size st) (ino_of st))) s') s1"
      proof (rule wp_fstat [OF 2(1)], goal_cases)
        case (1 r s3)
        have "node_at s3 rel = Some (Reg f)" "os_data s3 f = os_data s1 f" using 1(2) f by (auto simp: same_def)
        moreover have "file_at s3 = file_at s"
          using same_file_at [OF same_trans [OF t(2) same_trans [OF 2(2) 1(2)]]] .
        ultimately show ?case using 1(1,3) False by (cases r) (auto simp: ino_of_def stat_of_def intro!: Q)
      qed
      then show ?thesis unfolding Inr by (simp add: wp_simps wp_io) (erule wp_mono, auto simp: wp_ret split: sum.splits)
    qed (use 2 Q in simp)
  qed simp
  show ?thesis
    unfolding prepare_staging_def if_not_P [OF False] wp_and_do [where m = "stat_beneath _"]
    by (rule wp_stat_beneath [OF ev]) (auto simp: wp_ret intro!: Q ready split: sum.splits option.splits bool.splits)
qed

lemma wp_session_lock:
  assumes s: "fs_inv D s" and err: "\<And>e. Q (Inl e) s"
    and ok: "\<And>hash s1. fs_next D P {} s s1 \<Longrightarrow> fs_os s1 = fs_os s \<Longrightarrow> (\<forall>h. hash = Some h \<longrightarrow> staged_ok D (fs_os s) (repo, upload) h) \<Longrightarrow>
        Q (Inr hash) s1"
  shows "wp (session_lock repo upload) Q s"
proof (cases "safe_component upload")
  case (Inl e)
  then show ?thesis by (simp add: session_lock_def wp_simps err)
next
  case (Inr u)
  let ?s = "s\<lparr>fs_upload_locks := or_insert (repo, upload) None (fs_upload_locks s)\<rparr>"
  have "fs_ext D P {} s ?s"
    using s by (auto simp: fs_inv_def fs_ext_def base_inv_def hashed_def map_of_or_insert intro: evolves_refl)
  then have nx: "fs_next D P {} s ?s" by (rule fs_next_ext [OF s]) simp
  have "staged_ok D (fs_os s) (repo, upload) h"
    if "map_of (or_insert (repo, upload) None (fs_upload_locks s)) (repo, upload) = Some (Some h)" for h
    using s that by (auto simp: fs_inv_def hashed_def map_of_or_insert split: if_splits)
  then have "Q (Inr (case map_of (fs_upload_locks ?s) (repo, upload) of Some h \<Rightarrow> h | None \<Rightarrow> None)) ?s"
    by (intro ok [OF nx]) (auto split: option.splits)
  then show ?thesis unfolding session_lock_def Inr by (simp add: wp_simps)
qed

lemma wp_prepare_session:
  assumes s: "fs_inv D s" and err: "\<And>e s1. fs_next D P {} s s1 \<Longrightarrow> Q (Inl e) s1"
    and ok: "\<And>st s1. fs_next D P {} s s1 \<Longrightarrow> (\<forall>f n i. st = Ready f n i \<longrightarrow> i = f \<and> (\<exists>p b. upload_rel repo upload = Inr p
        \<and> file_at (fs_os s1) p = Some (f, b) \<and> n = length b
        \<and> (b = [] \<and> upload \<noteq> ''index.json'' \<or> file_at (fs_os s) p = Some (f, b)))) \<Longrightarrow> Q (Inr st) s1"
  shows "wp (prepare_session repo upload) Q s"
proof (cases "upload_rel repo upload")
  case (Inl e)
  then show ?thesis using s by (simp add: prepare_session_def wp_simps err fs_nx.refl)
next
  case (Inr p)
  let ?H = "dp_ext D" and ?c = "is_pending repo upload s"
  have inv: "os_inv ?H (fs_os s)" and pend: "?c \<Longrightarrow> lower_hex upload"
    using s by (auto simp: fs_inv_def base_inv_def is_pending_def)
  have p: "p \<noteq> []" "cas_digest p = None" "last p = upload"
    using upload_rel_Inr [OF Inr] upload_not_cas [OF Inr] upload_rel_last [OF Inr] by auto
  have idx: "upload \<noteq> ''index.json''" if ?c using pend [OF that] by (auto simp: lower_hex_def ascii_class_defs)
  have nx: "fs_next D P {} s (s\<lparr>fs_os := t, fs_pending := pd\<rparr>)"
    if "evolves ?H {} (fs_os s) t" "pd = fs_pending s \<or> pd = AList.delete (repo, upload) (fs_pending s)" for t pd
  proof (rule fs_next_ext [OF s])
    have low: "lower_hex (snd k)" if "map_of (fs_pending s) k = Some u" for k u
      using s that unfolding fs_inv_def base_inv_def by blast
    have "\<forall>k u. map_of pd k = Some u \<longrightarrow> lower_hex (snd k)"
      using that(2) low by (auto simp: delete_conv' split: if_splits)
    then show "fs_ext D P {} s (s\<lparr>fs_os := t, fs_pending := pd\<rparr>)"
      using s that(1) by (auto simp: fs_inv_def fs_ext_def base_inv_def hashed_def dest: evolves_inv)
  qed simp
  note nx' = nx [where pd = "fs_pending s", simplified]
  have "wp (prepare_staging p ?c) (\<lambda>r t. case map_err map_not_found r of
      Inl e \<Rightarrow> Q (Inl e) (s\<lparr>fs_os := t\<rparr>)
    | Inr st \<Rightarrow> Q (Inr st) (if ?c then s\<lparr>fs_os := t, fs_pending := AList.delete (repo, upload) (fs_pending s)\<rparr> else s\<lparr>fs_os := t\<rparr>)) (fs_os s)"
  proof (rule wp_prepare_staging [OF evolves_refl [OF inv, of "{}"] inv p(1,2)], goal_cases)
    case 1
    then show ?case using idx p(3) by simp
  next
    case (2 r t)
    show ?case
    proof (cases r)
      case (Inr st)
      let ?s1 = "if ?c then s\<lparr>fs_os := t, fs_pending := AList.delete (repo, upload) (fs_pending s)\<rparr> else s\<lparr>fs_os := t\<rparr>"
      have ost: "fs_os ?s1 = t" by simp
      have "Q (Inr st) ?s1"
      proof (rule ok)
        show "fs_next D P {} s ?s1" using nx [OF 2(1)] nx' [OF 2(1)] by simp
        show "\<forall>f n i. st = Ready f n i \<longrightarrow> i = f \<and> (\<exists>p b. upload_rel repo upload = Inr p \<and> file_at (fs_os ?s1) p = Some (f, b)
            \<and> n = length b \<and> (b = [] \<and> upload \<noteq> ''index.json'' \<or> file_at (fs_os s) p = Some (f, b)))"
        proof (intro allI impI)
          fix f n i assume st: "st = Ready f n i"
          then have f: "i = f" "node_at t p = Some (Reg f)" "n = length (os_data t f)"
              "if ?c then os_data t f = [] else file_at t = file_at (fs_os s)"
            using 2(2) Inr by blast+
          have "file_at t p = Some (f, os_data t f)" using f(2) by (simp add: file_at_Some)
          then show "i = f \<and> (\<exists>p b. upload_rel repo upload = Inr p \<and> file_at (fs_os ?s1) p = Some (f, b)
              \<and> n = length b \<and> (b = [] \<and> upload \<noteq> ''index.json'' \<or> file_at (fs_os s) p = Some (f, b)))"
            using f idx \<open>upload_rel repo upload = Inr p\<close> unfolding ost by (cases ?c) auto
        qed
      qed
      then show ?thesis using Inr by simp
    qed (use err nx' [OF 2(1)] in \<open>simp add: map_err_def\<close>)
  qed
  then have "wp (prepare_staging p ?c) (\<lambda>r t. case map_err map_not_found r of Inl e \<Rightarrow> Q (Inl e) (s\<lparr>fs_os := t\<rparr>)
      | Inr st \<Rightarrow> wp (and_do (when_do ?c (and_do (take_pending repo upload) (\<lambda>_. ret ()))) (\<lambda>_. ret st)) Q (s\<lparr>fs_os := t\<rparr>)) (fs_os s)"
    by (rule wp_mono) (auto simp: take_pending_def wp_simps is_pending_def split: sum.splits if_splits)
  then show ?thesis
    unfolding prepare_session_def Inr by (simp add: wp_simps on_os_def) 
qed

lemma wp_open_session:
  assumes s: "fs_inv D s"
    and err: "\<And>e s1. fs_next D P {} s s1 \<Longrightarrow> Q (Inl e) s1"
    and other: "\<And>hash st s1. fs_next D P {} s s1 \<Longrightarrow> st = Missing \<or> st = NotRegular \<Longrightarrow> wp (K hash st) Q s1"
    and ready: "\<And>hash f b s1 p. fs_next D P {} s s1 \<Longrightarrow> upload_rel repo upload = Inr p \<Longrightarrow> file_at (fs_os s1) p = Some (f, b) \<Longrightarrow>
        (upload = ''index.json'' \<Longrightarrow> seed_hash hash (length b) = None \<and> b \<noteq> []) \<Longrightarrow>
        (\<And>h. hash = Some h \<Longrightarrow> sh_len h = length b \<Longrightarrow> hash_of (dp_ext D) h b) \<Longrightarrow> wp (K hash (Ready f (length b) f)) Q s1"
  shows "wp (and_do (session_lock repo upload) (\<lambda>hash. and_do (prepare_session repo upload) (K hash))) Q s"
  unfolding wp_and_do [where m = "session_lock _ _"]
proof (rule wp_session_lock [OF s, where P = P], goal_cases)
  case (1 e)
  then show ?case by (simp add: err fs_nx.refl [OF s])
next
  case (2 hash s1)
  have inv1: "fs_inv D s1" using 2(1) by (simp add: fs_next_def)
  show ?case
    unfolding sum.case wp_and_do
  proof (rule wp_prepare_session [OF inv1, where P = P], goal_cases)
    case (1 e s2)
    then show ?case using err fs_nx.trans [OF 2(1)] by simp
  next
    case next2: (2 st s2)
    have nx: "fs_next D P {} s s2" by (rule fs_nx.trans [OF 2(1) next2(1)])
    show ?case
    proof (cases st)
      case (Ready f n i)
      obtain p b where pb: "i = f" "upload_rel repo upload = Inr p" "file_at (fs_os s2) p = Some (f, b)" "n = length b"
          "b = [] \<and> upload \<noteq> ''index.json'' \<or> file_at (fs_os s) p = Some (f, b)"
        using next2(2) [rule_format, OF Ready] unfolding 2(2) by blast
      have idx: "seed_hash hash (length b) = None \<and> b \<noteq> []" if u: "upload = ''index.json''"
      proof -
        have "\<not> staged_ok D (fs_os s) (repo, upload) h" for h using u by (simp add: staged_ok_def)
        then have "hash = None" using 2(3) by (cases hash) auto
        moreover have "b \<noteq> []"
        proof -
          have "os_inv (dp_ext D) (fs_os s2)" using nx by (simp add: fs_next_def fs_inv_def base_inv_def)
          moreover have "node_at (fs_os s2) p = Some (Reg f)" "os_data (fs_os s2) f = b" using pb(3) by (simp_all add: file_at_Some)
          ultimately show ?thesis using inv_index upload_rel_last [OF pb(2)] u by blast
        qed
        ultimately show ?thesis by (simp add: seed_hash_def)
      qed
      have hash: "hash_of (dp_ext D) h b" if h: "hash = Some h" "sh_len h = length b" for h
      proof -
        obtain j c where "file_at (fs_os s) p = Some (j, c)" "hash_of (dp_ext D) h c"
          using 2(3) h(1) pb(2) by (auto simp: staged_ok_def)
        then show ?thesis using pb(5) h(2) by (auto simp: hash_of_def)
      qed
      show ?thesis unfolding Ready sum.case pb(1,4) by (rule ready [OF nx pb(2,3) idx hash])
    qed (use other [OF nx] in auto)
  qed
qed

section \<open>Appending\<close>

lemma write_batch_no_hash: "wp (write_batch H f batch None) (\<lambda>r _. \<forall>x. r = Inr x \<longrightarrow> x = None) s"
  unfolding write_batch_def by (rule wpI) (auto simp: and_do_def observe_def ret_def fail_def split: prod.splits sum.splits)

lemma fill_batches_no_hash:
  "pr_hash p = None \<Longrightarrow> wp (fill_batches H f rest p) (\<lambda>r _. \<forall>q. r = Inr q \<longrightarrow> pr_hash q = None) s"
proof (induction H f rest p arbitrary: s rule: fill_batches.induct)
  case (1 H f rest p s)
  note IH = 1(1,2) and prem = 1(3)
  let ?n = "min (length rest) (WRITE_BATCH - length (pr_batch p))"
  let ?batch = "pr_batch p @ take ?n rest"
  show ?case
  proof (cases "rest = [] \<or> WRITE_BATCH \<le> length (pr_batch p)")
    case True
    then show ?thesis using prem by (subst fill_batches.simps) (simp add: wp_ret)
  next
    case False
    show ?thesis
    proof (cases "length ?batch = WRITE_BATCH")
      case True
      have "wp (err_map Io (write_batch H f ?batch (pr_hash p))) (\<lambda>r s'. case r of Inl e \<Rightarrow> True | Inr hash \<Rightarrow>
          wp (fill_batches H f (drop ?n rest) \<lparr>pr_written = pr_written p + WRITE_BATCH, pr_batch = [], pr_hash = hash\<rparr>)
            (\<lambda>r _. \<forall>q. r = Inr q \<longrightarrow> pr_hash q = None) s') s"
        unfolding wp_err_map prem
      proof (rule wp_mono [OF write_batch_no_hash], goal_cases)
        case (1 r t)
        then show ?case by (cases r) (auto intro!: IH(1) [OF False refl refl True])
      qed
      then show ?thesis
        unfolding fill_batches.simps [of H f rest p] Let_def if_not_P [OF False] if_P [OF True] wp_and_do
        by (rule wp_mono) (auto split: sum.splits)
    next
      case not: False
      then show ?thesis
        unfolding fill_batches.simps [of H f rest p] Let_def if_not_P [OF False] if_not_P [OF not]
        by (intro IH(2) [OF False refl refl not]) (simp add: prem)
    qed
  qed
qed

lemma append_loop_no_hash:
  "pr_hash p = None \<Longrightarrow> wp (append_loop H f limit tail body p) (\<lambda>r _. \<forall>q. r = Inr q \<longrightarrow> pr_hash q = None) s"
proof (induction body arbitrary: p s)
  case (Nil p s)
  show ?case
  proof (cases "\<not> tail \<and> pr_batch p \<noteq> []")
    case True
    show ?thesis
      unfolding append_loop.simps if_P [OF True] wp_and_do wp_err_map Nil
      by (rule wp_mono [OF write_batch_no_hash]) (auto simp: wp_ret map_err_def split: sum.splits)
  next
    case False
    show ?thesis unfolding append_loop.simps if_not_P [OF False] by (simp add: wp_ret Nil)
  qed
next
  case (Cons c body p s)
  show ?case
  proof (cases c)
    case (Inr chunk)
    have "wp (fill_batches H f chunk p) (\<lambda>r s'. case r of Inl e \<Rightarrow> True | Inr q \<Rightarrow>
        wp (append_loop H f limit tail body q) (\<lambda>r _. \<forall>q. r = Inr q \<longrightarrow> pr_hash q = None) s') s"
      by (rule wp_mono [OF fill_batches_no_hash [OF Cons.prems]]) (auto intro: Cons.IH split: sum.splits)
    then show ?thesis by (auto simp: Inr wp_fail wp_and_do Let_def elim!: wp_mono split: sum.splits)
  qed (simp add: wp_fail)
qed

lemma append_inner_no_hash:
  "wp (append_inner H f n body limit None tail) (\<lambda>r _. \<forall>d. r = Inr d \<longrightarrow> df_hash d = None) s"
proof -
  have "wp (append_loop H f limit tail body \<lparr>pr_written = 0, pr_batch = [], pr_hash = None\<rparr>) (\<lambda>r _. \<forall>q. r = Inr q \<longrightarrow> pr_hash q = None) s"
    by (rule append_loop_no_hash) simp
  moreover have "wp (and_do (err_map Io (io (set_len f n))) (\<lambda>_. fail e)) (\<lambda>r _. \<forall>d. r = Inr d \<longrightarrow> df_hash d = None) t" for e t
    by (rule wpI) (auto simp: and_do_def observe_def fail_def split: prod.splits sum.splits)
  ultimately show ?thesis
    by (auto simp: append_inner_def wp_observe wp_ret elim!: wp_mono split: sum.splits)
qed

text \<open>An append to the staging file of a session from a state with the invariant.\<close>

lemma wp_session_append:
  assumes w: "world D P" and s: "fs_inv D s" and p: "upload_rel repo upload = Inr p" "file_at (fs_os s) p = Some (f, b)"
    and idx: "upload = ''index.json'' \<Longrightarrow> seed_hash hash (length b) = None \<and> b \<noteq> []"
    and hash: "\<And>h. hash = Some h \<Longrightarrow> sh_len h = length b \<Longrightarrow> hash_of (dp_ext D) h b"
    and Q: "\<And>r t. evolves (dp_ext D) {p} (fs_os s) t \<Longrightarrow> node_at t = node_at (fs_os s) \<Longrightarrow>
        (\<forall>d. r = Inr d \<longrightarrow> (\<exists>more. stream_bytes body = Some more \<and> os_data t f @ df_tail d = b @ more \<and> df_file d = f
           \<and> df_tail_at d = length (os_data t f) \<and> df_len d = df_tail_at d + length (df_tail d)
           \<and> (\<forall>h. df_hash d = Some h \<longrightarrow> hash_of (dp_ext D) h (os_data t f) \<and> upload \<noteq> ''index.json'')
           \<and> (\<not> tail \<longrightarrow> df_tail d = []))) \<Longrightarrow> Q r t"
  shows "wp (append_inner (dp_ext D) f (length b) body limit (seed_hash hash (length b)) tail) Q (fs_os s)"
proof -
  let ?H = "dp_ext D" and ?t = "fs_os s" and ?seed = "seed_hash hash (length b)"
  have inv: "os_inv ?H ?t" using s by (simp add: fs_inv_def base_inv_def)
  have f: "node_at ?t p = Some (Reg f)" "os_data ?t f = b" using p(2) by (simp_all add: file_at_Some)
  have only: "q = p" if "node_at ?t q = Some (Reg f)" for q
    using inv_share [OF inv f(1) that upload_not_cas [OF p(1)]] by simp
  have wr: "writable {p} ?t ?t f"
    using inv_bound [OF inv f(1)] only upload_not_cas [OF p(1)] by (auto simp: writable_def)
  have none: "wp (append_inner ?H f (length b) body limit ?seed tail) (\<lambda>r _. upload = ''index.json'' \<longrightarrow> (\<forall>d. r = Inr d \<longrightarrow> df_hash d = None)) ?t"
    using append_inner_no_hash [of ?H f "length b" body limit tail ?t] idx by (cases "upload = ''index.json''") (auto simp: wp_def)
  have "wp (append_inner ?H f (length b) body limit ?seed tail) (\<lambda>r t. (upload = ''index.json'' \<longrightarrow> (\<forall>d. r = Inr d \<longrightarrow> df_hash d = None))
      \<longrightarrow> Q r t) ?t"
  proof (rule wp_append_inner [OF evolves_refl [OF inv, of "{p}"] inv wr worldD(2) [OF w]], goal_cases)
    case 1
    then show ?case using f(2) by simp
  next
    case (2 q)
    then show ?case using only upload_rel_last [OF p(1)] idx by auto
  next
    case (3 h)
    then show ?case
      using hash f(2) hash_of_new [OF worldD(2) [OF w]] by (auto simp: seed_hash_def split: option.splits if_splits)
  next
    case (4 r t)
    show ?case
    proof
      assume n: "upload = ''index.json'' \<longrightarrow> (\<forall>d. r = Inr d \<longrightarrow> df_hash d = None)"
      show "Q r t"
        by (rule Q [OF 4(1)]) (use 4(2,4) n f(2) in \<open>auto simp: touched_def\<close>)
    qed
  qed
  then show ?thesis using none by (simp add: wp_def)
qed

lemma next_append:
  assumes w: "world D P" and A: "\<And>p. upload_rel repo upload = Inr p \<Longrightarrow> p \<in> A"
  shows "safe (fs_inv D) (fs_next D P A) (fs_append_upload D repo upload body expected_offset limit) (\<lambda>_. True)"
  unfolding safe_def fs_append_upload_def
proof (intro allI impI, rule wp_open_session [where P = P and D = D], goal_cases)
  case (2 s e s1)
  then show ?case using fs_next_mono [OF 2(2), of A] by auto
next
  case (3 s hash st s1)
  have "safe (fs_inv D) (fs_next D P A) (drop_session repo upload) (\<lambda>_. True)"
    by (rule next_mono [OF next_of_safe [where A = "{}"]]) (auto intro!: kept_intros)
  note drop = this
  show ?case
    by (rule fs_nx.safe_wp [OF _ fs_next_mono [OF 3(2)]])
      (use 3(3) in \<open>auto intro!: fs_nx.kept_and_do fs_nx.kept_fail drop\<close>)
next
  case (4 s hash f b s1 p)
  let ?H = "dp_ext D" and ?k = "(repo, upload)"
  note nx = fs_next_mono [OF 4(2), of A]
  have s1: "fs_inv D s1" using 4(2) by (simp add: fs_next_def)
  let ?t2 = "\<lambda>h. s1\<lparr>fs_upload_locks := AList.update ?k h (fs_upload_locks s1)\<rparr>"
  have own: "fs_next D P A s ((?t2 None)\<lparr>fs_os := t\<rparr>)" if "evolves ?H {p} (fs_os s1) t" for t
  proof -
    have "fs_ext D P {p} s1 ((?t2 None)\<lparr>fs_os := t\<rparr>)"
      using s1 that by (auto simp: fs_inv_def fs_ext_def base_inv_def hashed_def update_conv' dest: evolves_inv split: if_splits)
    then have "fs_next D P {p} s1 ((?t2 None)\<lparr>fs_os := t\<rparr>)"
      by (rule fs_next_own [OF s1 _ 4(3)]) (simp add: hashed_def update_conv')
    then show ?thesis using fs_nx.trans [OF nx fs_next_mono [of D P "{p}" _ _ A]] A [OF 4(3)] by simp
  qed
  have fin: "fs_next D P A s (s1\<lparr>fs_os := t, fs_upload_locks := AList.update ?k h (fs_upload_locks s1)\<rparr>)"
    if t: "evolves ?H {p} (fs_os s1) t" "node_at t = node_at (fs_os s1)"
      and h: "\<And>x. h = Some x \<Longrightarrow> hash_of ?H x (os_data t f) \<and> upload \<noteq> ''index.json''" for h t
  proof -
    let ?s = "s1\<lparr>fs_os := t, fs_upload_locks := AList.update ?k h (fs_upload_locks s1)\<rparr>"
    have "file_at t p = Some (f, os_data t f)" using 4(4) t(2) by (simp add: file_at_Some)
    then have mine: "staged_ok D t ?k x" if "h = Some x" for x
      using h [OF that] 4(3) by (simp add: staged_ok_def)
    have "staged_ok D t k x" if "hashed ?s k x" for k x
    proof (cases "k = ?k")
      case True
      then show ?thesis using that mine by (simp add: hashed_def update_conv')
    next
      case False
      then have "hashed ((?t2 None)\<lparr>fs_os := t\<rparr>) k x" using that by (simp add: hashed_def update_conv')
      then show ?thesis using own [OF t(1)] by (cases k) (auto simp: fs_next_def fs_inv_def)
    qed
    then show ?thesis using own [OF t(1)] by (auto simp: fs_next_def fs_inv_def base_inv_def)
  qed
  have app: "wp (append_inner ?H f (length b) body limit (seed_hash hash (length b)) False)
      (\<lambda>r t. case r of Inl e \<Rightarrow> fs_next D P A s ((?t2 None)\<lparr>fs_os := t\<rparr>)
        | Inr d \<Rightarrow> fs_next D P A s (s1\<lparr>fs_os := t, fs_upload_locks := AList.update ?k (df_hash d) (fs_upload_locks s1)\<rparr>))
      (fs_os s1)"
    by (rule wp_session_append [OF w s1 4(3,4,5,6)]) (auto intro!: own fin split: sum.splits)
  have run: "wp (and_do (set_session_hash repo upload None) (\<lambda>_.
      and_do (on_os (append_body ?H f (length b) body limit (seed_hash hash (length b)))) (\<lambda>(total, extended).
      and_do (set_session_hash repo upload extended) (\<lambda>_. ret (of_nat total)))))
      (\<lambda>r s'. fs_next D P A s s' \<and> (\<forall>x. r = Inr x \<longrightarrow> True)) s1"
    unfolding append_body_def set_session_hash_def on_os_def
    by (simp add: wp_simps) (rule wp_mono [OF app], auto simp: wp_simps split: sum.splits)
  then show ?case
    using nx by (auto simp: wp_and_do wp_fail wp_ret split: option.splits)
qed

end
