(* ===== verification/Fs_Finish.thy ===== *)
theory Fs_Finish
  imports Fs_Sessions
begin

text \<open>
  Finishing an upload: a staging file becomes a blob only after its contents were found to have the
  expected digest, and an acknowledged upload is on disk under its digest.
\<close>

definition blob_file :: "('m, 'f, 'l) fs_store \<Rightarrow> path \<Rightarrow> bool" where
  "blob_file s p \<longleftrightarrow> (\<exists>j b. file_at (fs_os s) p = Some (j, b))"

lemma blob_file_ext: "fs_ext D P A s s' \<Longrightarrow> p \<notin> A \<Longrightarrow> blob_file s p \<Longrightarrow> blob_file s' p"
  unfolding fs_ext_def blob_file_def using evolves_keeps by blast

lemma wp_dedupe_link:
  assumes s: "base_inv D s" and d: "blob_dir_rel repo d = Inr (dir, leaf)" "digest_wf d"
    and Q: "\<And>b s'. fs_ext D P {} s s' \<Longrightarrow> (b \<longrightarrow> blob_file s' (dir @ [leaf])) \<Longrightarrow> Q (Inr b) s'"
  shows "wp (dedupe_link D' repo dir leaf (digest_display d)) Q s"
proof -
  have inv: "os_inv (dp_ext D) (fs_os s)" using s by (simp add: base_inv_def)
  have no: "Q (Inr False) s" by (rule Q [OF fs_ev.refl [OF s]]) simp
  have link: "wp (observe (on_os (mount_promote_beneath src dir leaf False commit)) (\<lambda>r. case r of
      Inr _ \<Rightarrow> ret True
    | Inl e \<Rightarrow> and_do (when_do (io_kind_of e = KNotFound)
                  (modify (\<lambda>s. s\<lparr>fs_dedupe := dedupe_remove src_repo (digest_display d) (fs_dedupe s)\<rparr>))) (\<lambda>_. ret False))) Q s"
    if src: "blob_dir_rel src_repo d = Inr (src, x)" for src_repo src x commit
    unfolding wp_observe on_os_def wp_on_part
  proof (rule wp_mount_promote_beneath [where y = d, OF evolves_refl [OF inv, of "{}"] inv], goal_cases)
    case 1
    show ?case using blob_dir_rel_cas [OF src d(2)] blob_dir_rel_cas(3) [OF d] by simp
  next
    case 2
    show ?case using blob_dir_rel_cas [OF d] by simp
  next
    case (3 r t)
    have ext: "fs_ext D P {} s (s\<lparr>fs_os := t, fs_dedupe := dd\<rparr>)" for dd
      using s 3(1) by (auto simp: fs_ext_def base_inv_def hashed_def dest: evolves_inv)
    have ext': "fs_ext D P {} s (s\<lparr>fs_os := t\<rparr>)"
      using ext [of "fs_dedupe s"] by simp
    show ?case
    proof (cases r)
      case (Inr how)
      then have "blob_file (s\<lparr>fs_os := t\<rparr>) (dir @ [leaf])" using 3(2) by (auto simp: blob_file_def is_ok_def file_at_Some)
      then show ?thesis using Inr ext' by (simp add: wp_ret Q)
    next
      case (Inl e)
      then show ?thesis using ext ext' by (auto simp: wp_simps intro!: Q)
    qed
  qed
  show ?thesis
    unfolding dedupe_link_def parse_digest_display [OF d(2)] sum.case
    using no link by (auto simp: wp_simps split: option.splits sum.splits)
qed

lemma finish_sha256_digest: "finish_sha256 H b = digest_of H b ''sha256''"
  by (simp add: finish_sha256_def digest_of_def sha256_of_def)

text \<open>What the landing hop is handed: the staging file, and either its verified digest or the body
  whose tail is still to be written.\<close>

definition verify_ok :: "'a hash_api_scheme \<Rightarrow> digest \<Rightarrow> nat \<Rightarrow> bytes \<Rightarrow> (deferred \<times> digest) option \<Rightarrow> bool" where
  "verify_ok H d ino content v \<longleftrightarrow>
     (case v of
        None \<Rightarrow> digest_of H content (algorithm d) = d
      | Some (body, e) \<Rightarrow> e = d \<and> algorithm d = ''sha256'' \<and> df_file body = ino \<and> df_tail_at body = length content
          \<and> (\<forall>h. df_hash body = Some h \<longrightarrow> hash_of H h content))"

lemma own_writable:
  assumes "os_inv H t" "upload_rel repo upload = Inr p" "node_at t p = Some (Reg f)"
  shows "writable {p} t t f" and "node_at t q = Some (Reg f) \<Longrightarrow> q = p"
proof -
  show only: "q = p" if "node_at t q = Some (Reg f)" for q
    using inv_share [OF assms(1,3) that upload_not_cas [OF assms(2)]] by simp
  show "writable {p} t t f"
    using inv_bound [OF assms(1,3)] only upload_not_cas [OF assms(2)] by (auto simp: writable_def)
qed

lemma wp_land_verify:
  assumes w: "world D P" and s: "base_inv D s" and p: "upload_rel repo upload = Inr p" "file_at (fs_os s) p = Some (ino, content)"
    and v: "verify_ok (dp_ext D) d ino content verify"
    and Q: "\<And>x s'. fs_ext D P {p} s s' \<Longrightarrow> (\<forall>l. x = Inl l \<longrightarrow> (\<forall>crc. l \<noteq> Done crc)) \<Longrightarrow>
        (\<forall>crc. x = Inr crc \<longrightarrow> (\<exists>b. file_at (fs_os s') p = Some (ino, b) \<and> digest_of (dp_ext D) b (algorithm d) = d)) \<Longrightarrow> Q (Inr x) s'"
  shows "wp (land_verify D verify) Q s"
proof (cases verify)
  case None
  then show ?thesis using v p(2) by (simp add: land_verify_def wp_ret verify_ok_def Q fs_ev.refl [OF s])
next
  case (Some be)
  let ?H = "dp_ext D" and ?t = "fs_os s"
  obtain body where be: "be = (body, d)" and alg: "algorithm d = ''sha256''" and body: "df_file body = ino" "df_tail_at body = length content"
      "\<And>h. df_hash body = Some h \<Longrightarrow> hash_of ?H h content"
    using v Some by (cases be) (auto simp: verify_ok_def)
  have inv: "os_inv ?H ?t" using s by (simp add: base_inv_def)
  have f: "node_at ?t p = Some (Reg ino)" "os_data ?t ino = content" using p(2) by (simp_all add: file_at_Some)
  note own = own_writable [OF inv p(1) f(1)]
  have ext: "fs_ext D P {p} s (s\<lparr>fs_os := t\<rparr>)" if "evolves ?H {p} ?t t" for t
    using s that by (auto simp: fs_ext_def base_inv_def hashed_def dest: evolves_inv)
  show ?thesis
    unfolding land_verify_def Some be option.case prod.case wp_observe on_os_def wp_on_part
  proof (rule wp_write_tail [OF evolves_refl [OF inv, of "{p}"] inv], goal_cases)
    case (4 q)
    then show ?case using own(2) inv_index [OF inv] f body by auto
  next
    case (6 r t)
    show ?case
    proof (cases r)
      case (Inr x)
      have data: "os_data t ino = content @ df_tail body" and h: "\<And>h. x = Some h \<Longrightarrow> hash_of ?H h (os_data t ino)"
        using 6(3) Inr f(2) body(1) by auto
      have fl: "file_at t p = Some (ino, os_data t ino)" using 6(2) f(1) by (simp add: touched_def file_at_Some)
      have "digest_of ?H (os_data t ino) (algorithm d) = d" if "x = Some h" "digest_ct_eq (fst (staged_finish ?H h)) d" for h
        using that h [OF that(1)] alg by (simp add: digest_ct_eq_iff staged_finish_def finish_sha256_digest hash_of_def)
      then show ?thesis
        using fl Inr ext [OF 6(1)] by (cases x) (auto simp: wp_ret staged_finish_def intro!: Q)
    qed (use ext [OF 6(1)] in \<open>auto simp: wp_ret intro!: Q\<close>)
  qed (use own(1) worldD(2) [OF w] body f in auto)
qed

lemma kept_discard_session:
  assumes "upload_rel repo upload = Inr p" "p \<in> A"
  shows "kept (base_inv D) (fs_ext D P A) (discard_session repo upload)"
  unfolding discard_session_def
  by (intro fs_ev.kept_bind kept_intros) (use assms in \<open>auto dest!: upload_dir_rel_Inr(1)\<close>)

text \<open>The file a context names, and what it becomes.\<close>

definition ctx_ok :: "('x, 'm, 'f, 'l) deps \<Rightarrow> os \<Rightarrow> string \<Rightarrow> path \<Rightarrow> digest \<Rightarrow> land_ctx \<Rightarrow> bool" where
  "ctx_ok D t upload p d c \<longleftrightarrow> digest_wf d \<and> upload_rel (lc_repo c) upload = Inr p \<and> p = lc_up_dir c @ [lc_up_leaf c]
     \<and> blob_dir_rel (lc_repo c) d = Inr (lc_alg_rel c, lc_hex c) \<and> lc_digest c = digest_display d
     \<and> (\<exists>content. file_at t p = Some (lc_ino c, content) \<and> verify_ok (dp_ext D) d (lc_ino c) content (lc_verify c))"

lemma wp_move_blob:
  assumes s: "base_inv D s" and p: "p = up_dir @ [up_leaf]" "cas_digest p = None" and d: "digest_wf d" "blob_dir_rel repo d = Inr (dir, hx)"
    and f: "file_at (fs_os s) p = Some (ino, b)" "digest_of (dp_ext D) b (algorithm d) = d"
    and linked: "linked \<Longrightarrow> blob_file s (dir @ [hx])"
    and Q: "\<And>r s'. fs_ext D P {p} s s' \<Longrightarrow> (is_ok r \<longrightarrow> blob_file s' (dir @ [hx])) \<Longrightarrow> Q r s'"
  shows "wp (on_os (if linked then unlink_beneath up_dir up_leaf else rename_beneath up_dir up_leaf dir hx ino commit)) Q s"
proof -
  let ?H = "dp_ext D" and ?t = "fs_os s"
  have inv: "os_inv ?H ?t" using s by (simp add: base_inv_def)
  have ext: "fs_ext D P {p} s (s\<lparr>fs_os := t\<rparr>)" if "evolves ?H {p} ?t t" for t
    using s that by (auto simp: fs_ext_def base_inv_def hashed_def dest: evolves_inv)
  note cas = blob_dir_rel_cas [OF d(2,1)]
  have ne: "dir @ [hx] \<notin> {p}" using cas(1) p(2) by auto
  show ?thesis
  proof (cases linked)
    case True
    show ?thesis
      unfolding if_P [OF True] on_os_def wp_on_part
    proof (rule wp_unlink_beneath [OF evolves_refl [OF inv, of "{p}"] inv], goal_cases)
      case (2 r t)
      show ?case using blob_file_ext [OF ext [OF 2(1)] ne linked [OF True]] by (intro Q ext [OF 2(1)]) simp
    qed (simp add: p(1))
  next
    case False
    have "nameable ?H ?t ino (dir @ [hx])"
    proof -
      have "hx \<noteq> ''index.json''" using cas(2) by (auto simp: lower_hex_def ascii_class_defs)
      then show ?thesis using f inv_bound [OF inv] cas(1) by (auto simp: nameable_def file_at_Some)
    qed
    note name = this
    show ?thesis
      unfolding if_not_P [OF False] on_os_def wp_on_part
    proof (rule wp_rename_beneath [OF evolves_refl [OF inv, of "{p}"] inv], goal_cases)
      case (4 r t)
      show ?case
        by (rule Q [OF ext [OF 4(1)]]) (use 4(3) in \<open>auto simp: blob_file_def file_at_Some is_ok_def split: sum.splits\<close>)
    qed (use p name in simp_all)
  qed
qed

lemma wp_land_blob:
  assumes w: "world D P" and s: "base_inv D s" and c: "ctx_ok D (fs_os s) upload p d c"
    and Q: "\<And>l s'. fs_ext D P {p} s s' \<Longrightarrow> (\<forall>crc. l = Done crc \<longrightarrow> blob_file s' (lc_alg_rel c @ [lc_hex c])) \<Longrightarrow> Q (Inr l) s'"
  shows "wp (land_blob D c) Q s"
proof -
  obtain content where d: "digest_wf d" "blob_dir_rel (lc_repo c) d = Inr (lc_alg_rel c, lc_hex c)"
    and up: "upload_rel (lc_repo c) upload = Inr p" "p = lc_up_dir c @ [lc_up_leaf c]" and ds: "lc_digest c = digest_display d"
    and f: "file_at (fs_os s) p = Some (lc_ino c, content)" and v: "verify_ok (dp_ext D) d (lc_ino c) content (lc_verify c)"
    using c unfolding ctx_ok_def by blast
  show ?thesis
    unfolding land_blob_def wp_and_do [where m = "land_verify _ _"]
  proof (rule wp_land_verify [OF w s up(1) f v], goal_cases)
    case (1 x s1)
    show ?case
    proof (cases x)
      case (Inl l)
      then show ?thesis using 1 by (auto simp: wp_ret intro!: Q)
    next
      case (Inr crc)
      then obtain b where b: "file_at (fs_os s1) p = Some (lc_ino c, b)" "digest_of (dp_ext D) b (algorithm d) = d"
        using 1(3) by blast
      have b1: "base_inv D s1" using 1(1) by (simp add: fs_ext_def)
      have lay: "wp (layout_and_admit (lc_repo_rel c) (lc_repo c) (lc_alg_rel c) (lc_hex c) (of_nat (lc_size c)))
          (\<lambda>r s'. fs_ext D P {} s1 s' \<and> (\<forall>x. r = Inr x \<longrightarrow> True)) s1"
        by (rule fs_ev.safe_wp [OF kept_layout(2) fs_ev.refl [OF b1]])
      show ?thesis
        unfolding Inr sum.case wp_observe [where m = "layout_and_admit _ _ _ _ _"]
      proof (rule wp_mono [OF lay], goal_cases)
        case 2: (1 r s2)
        have e2: "fs_ext D P {p} s s2" using fs_ev.trans [OF 1(1) fs_ext_mono [of D P "{}" s1 s2 "{p}"]] 2 by simp
        have b2: "base_inv D s2" using e2 by (simp add: fs_ext_def)
        have f2: "file_at (fs_os s2) p = Some (lc_ino c, b)" using 2 b(1) evolves_keeps by (fastforce simp: fs_ext_def)
        show ?case
        proof (cases r)
          case (Inr charged)
          show ?thesis
            unfolding Inr sum.case wp_and_do [where m = "dedupe_link _ _ _ _ _"] ds
          proof (rule wp_dedupe_link [OF b2 d(2,1), where P = P], goal_cases)
            case 3: (1 linked s3)
            have e3: "fs_ext D P {p} s s3" using fs_ev.trans [OF e2 fs_ext_mono [OF 3(1), of "{p}"]] by simp
            have b3: "base_inv D s3" using e3 by (simp add: fs_ext_def)
            have f3: "file_at (fs_os s3) p = Some (lc_ino c, b)" using 3(1) f2 evolves_keeps by (fastforce simp: fs_ext_def)
            have "wp (on_os (if linked then unlink_beneath (lc_up_dir c) (lc_up_leaf c)
                  else rename_beneath (lc_up_dir c) (lc_up_leaf c) (lc_alg_rel c) (lc_hex c) (lc_ino c) commit))
                (\<lambda>r s'. Q (Inr (case r of Inl e \<Rightarrow> Failed charged (map_not_found e) | Inr _ \<Rightarrow> Done crc)) s') s3" for commit
              by (rule wp_move_blob [OF b3 up(2) upload_not_cas [OF up(1)] d f3 b(2)])
                (use 3(2) in \<open>auto simp: is_ok_def intro!: Q fs_ev.trans [OF e3] split: sum.splits\<close>)
            then show ?case unfolding sum.case wp_and_do wp_gets wp_observe wp_ret .
          qed
        qed (use e2 Q in \<open>auto simp: wp_ret\<close>)
      qed
    qed
  qed
qed

definition entered :: "('x, 'm, 'f, 'l) deps \<Rightarrow> ('m, 'f, 'l) fs_store \<Rightarrow> string \<Rightarrow> digest \<Rightarrow> bool" where
  "entered D s repo d \<longleftrightarrow> (\<exists>q. blob_rel repo d = Inr q \<and> blob_file s q)
     \<and> (\<exists>pr. fs_presence s = presence_insert (dp_filter D) repo (digest_display d) pr)"

lemma wp_blob_entered_presence:
  "wp (and_do (blob_entered D repo ds ck) (\<lambda>_. admit_release repo ds)) (\<lambda>_ s'. \<exists>pr. fs_presence s' = presence_insert (dp_filter D) repo ds pr) s"
  by (auto simp: wp_simps blob_entered_def admit_release_def split: prod.splits)

lemma wp_landing_done:
  assumes w: "world D P" and s: "base_inv D s" and up: "upload_rel repo upload = Inr p" and d: "digest_wf d" "blob_rel repo d = Inr q"
    and landed: "\<And>crc. landed = Done crc \<Longrightarrow> blob_file s q"
    and Q: "\<And>r s'. fs_ext D P {p} s s' \<Longrightarrow> (r = Inr () \<longrightarrow> entered D s' repo d) \<Longrightarrow> Q r s'"
  shows "wp (landing_done D repo upload d n vcrc landed) Q s"
proof -
  have q: "q \<notin> {p}" using cas_digest_blob_rel [OF d(2,1)] upload_not_cas [OF up] by auto
  have disc: "kept (base_inv D) (fs_ext D P {p}) (discard_session repo upload)"
    by (rule kept_discard_session [OF up]) simp
  have errs: "wp (and_do m (\<lambda>_. and_do k (\<lambda>_. fail e))) Q s"
    if "kept (base_inv D) (fs_ext D P {p}) m" "kept (base_inv D) (fs_ext D P {p}) k" for m k e
  proof -
    have "safe (base_inv D) (fs_ext D P {p}) (and_do m (\<lambda>_. and_do k (\<lambda>_. fail e))) (\<lambda>_. False)"
      by (intro fs_ev.safe_and_do [OF that(1)] fs_ev.safe_and_do [OF that(2)] fs_ev.safe_fail)
    then show ?thesis
      by (rule wp_mono [OF fs_ev.safe_wp [OF _ fs_ev.refl [OF s]]]) (auto intro!: Q)
  qed
  show ?thesis
  proof (cases landed)
    case (Done crc)
    let ?c = "\<lparr>ck_crc32c = (case crc of Some c \<Rightarrow> c | None \<Rightarrow> (case vcrc of Some c \<Rightarrow> c | None \<Rightarrow> 0)), ck_size = of_nat n\<rparr> :: blob_checksum"
    let ?m = "and_do (modify (\<lambda>s. s\<lparr>fs_quota := end_session (fs_quota s)\<rparr>)) (\<lambda>_. and_do (drop_session repo upload) (\<lambda>_.
        and_do (blob_entered D repo (digest_display d) (Some ?c)) (\<lambda>_. admit_release repo (digest_display d))))"
    have "kept (base_inv D) (fs_ext D P {p}) ?m" by (intro kept_intros w) simp
    then have "wp ?m (\<lambda>r s'. fs_ext D P {p} s s' \<and> (\<forall>x. r = Inr x \<longrightarrow> True)) s"
      by (rule fs_ev.safe_wp [OF _ fs_ev.refl [OF s]])
    moreover have "wp ?m (\<lambda>_ s'. \<exists>pr. fs_presence s' = presence_insert (dp_filter D) repo (digest_display d) pr) s"
      using wp_blob_entered_presence unfolding drop_session_def
      by (simp add: wp_and_do [where m = "modify _"] wp_modify)
    ultimately have "wp ?m (\<lambda>r s'. (fs_ext D P {p} s s' \<and> (\<forall>x. r = Inr x \<longrightarrow> True))
        \<and> (\<exists>pr. fs_presence s' = presence_insert (dp_filter D) repo (digest_display d) pr)) s"
      by (simp add: wp_conj)
    then have "wp ?m Q s"
    proof (rule wp_mono, goal_cases)
      case (1 r s')
      then have "entered D s' repo d" using blob_file_ext [OF _ q landed [OF Done]] d(2) unfolding entered_def by blast
      then show ?case using 1 by (intro Q) auto
    qed
    then show ?thesis unfolding landing_done_def Done Let_def landed.case .
  next
    case (Mismatch actual)
    then show ?thesis by (simp add: landing_done_def Let_def errs kept_locks disc)
  next
    case (Rejected e)
    then show ?thesis by (simp add: landing_done_def Let_def errs kept_locks disc)
  next
    case (Failed charged e)
    have "kept (base_inv D) (fs_ext D P {p}) (modify (\<lambda>s. s\<lparr>fs_quota := release repo charged (fs_quota s)\<rparr>))"
      by (intro kept_intros) simp
    then show ?thesis unfolding landing_done_def Failed Let_def landed.case by (intro errs kept_locks)
  qed
qed

lemma wp_finish_land:
  assumes w: "world D P" and s: "base_inv D s" and up: "upload_rel repo upload = Inr p" and d: "digest_wf d"
    and f: "file_at (fs_os s) p = Some (ino, content)" "verify_ok (dp_ext D) d ino content verify"
    and Q: "\<And>r s'. fs_ext D P {p} s s' \<Longrightarrow> (r = Inr () \<longrightarrow> entered D s' repo d) \<Longrightarrow> Q r s'"
  shows "wp (finish_land D repo upload d n ino verify vcrc) Q s"
proof -
  have err: "Q (Inl e) s" for e by (rule Q [OF fs_ev.refl [OF s]]) simp
  obtain up_dir where ud: "upload_dir_rel repo upload = Inr (up_dir, upload)" "p = up_dir @ [upload]"
    using upload_rel_Inr [OF up] by (metis append_Cons append_Nil append_assoc)
  show ?thesis
  proof (cases "blob_dir_rel repo d")
    case (Inl e)
    then show ?thesis by (simp add: finish_land_def ud wp_simps err)
  next
    case (Inr x)
    obtain dir hx where x: "x = (dir, hx)" by (cases x)
    obtain rel where rel: "repo_rel repo = Inr rel" using blob_dir_rel_Inr(3) [of repo d dir hx] Inr x by auto
    let ?c = "\<lparr>lc_repo = repo, lc_repo_rel = rel, lc_up_dir = up_dir, lc_up_leaf = upload, lc_alg_rel = dir,
        lc_hex = hx, lc_digest = digest_display d, lc_size = n, lc_ino = ino, lc_verify = verify\<rparr>"
    let ?s = "s\<lparr>fs_admit_locks := List.insert (repo, digest_display d) (fs_admit_locks s)\<rparr>"
    have e1: "fs_ext D P {p} s ?s" using s by (auto simp: fs_ext_def base_inv_def hashed_def intro: evolves_refl)
    have b1: "base_inv D ?s" using e1 by (simp add: fs_ext_def)
    have c: "ctx_ok D (fs_os ?s) upload p d ?c"
      using f up ud d Inr x by (auto simp: ctx_ok_def)
    have "wp (land_blob D ?c) (\<lambda>r s'. case r of Inl e \<Rightarrow> Q (Inl e) s' | Inr l \<Rightarrow> wp (landing_done D repo upload d n vcrc l) Q s') ?s"
    proof (rule wp_land_blob [OF w b1 c], goal_cases)
      case (1 l s2)
      have e2: "fs_ext D P {p} s s2" by (rule fs_ev.trans [OF e1 1(1)])
      have "wp (landing_done D repo upload d n vcrc l) Q s2"
        by (rule wp_landing_done [OF w _ up d blob_dir_rel_Inr(1) [OF Inr [unfolded x]]])
          (use 1 in \<open>auto simp: fs_ext_def [of D P "{p}" ?s s2] intro!: Q fs_ev.trans [OF e2]\<close>)
      then show ?case by simp
    qed
    then show ?thesis
      unfolding finish_land_def ud(1) Inr x rel
      by (simp add: wp_and_do [where m = "lift_res _"] wp_lift_res wp_and_do [where m = "modify _"]
          wp_and_do [where m = "land_blob _ _"] admit_lock_def wp_modify)
  qed
qed

section \<open>Verifying the staged bytes\<close>

lemma hash_std_one: "hash_api_ok H \<Longrightarrow> hash_std H [Inr data] alg = Inr (digest_of H data alg, crc32c H data)"
  using hash_std_chunks [of H "[data]" alg] by (cases "data = []") (auto simp: hash_std_def digest_of_def sha256_of_def crc32c_def hash_api_ok_def)

lemma wp_finish_verify:
  assumes inv: "os_inv H s" and H: "hash_api_ok H" and up: "upload_rel repo upload = Inr p"
    and f: "node_at s p = Some (Reg f)" "df_file body = f" "df_tail_at body = length (os_data s f)"
      "\<And>h. df_hash body = Some h \<Longrightarrow> hash_of H h (os_data s f)"
    and covers: "covers \<Longrightarrow> alg = ''sha256''"
    and Q: "\<And>r s'. evolves H {p} s s' \<Longrightarrow> (\<forall>d crc i. r = Inr (d, crc, i) \<longrightarrow> i = f \<and> node_at s' p = Some (Reg f)
        \<and> d = digest_of H (os_data s' f) alg) \<Longrightarrow> Q r s'"
  shows "wp (finish_verify H body covers p alg commit) Q s"
  unfolding finish_verify_def wp_and_do [where m = "write_tail _ _"]
proof (rule wp_write_tail [OF evolves_refl [OF inv, of "{p}"] inv], goal_cases)
  case 1
  show ?case using own_writable(1) [OF inv up f(1)] f(2) by simp
next
  case (4 q)
  then show ?case using own_writable(2) [OF inv up f(1)] inv_index [OF inv] f by auto
next
  case (6 r s1)
  show ?case
  proof (cases r)
    case (Inl e)
    then show ?thesis using Q 6(1) by simp
  next
    case (Inr written)
    have n1: "node_at s1 p = Some (Reg f)" using 6(2) f(1) by (simp add: touched_def)
    have h: "hash_of H h (os_data s1 f)" if "written = Some h" for h using 6(3) Inr that f(2) by blast
    let ?hash = "\<lambda>i. case (if covers then written else None) of Some h \<Rightarrow> ret (staged_finish H h)
             | None \<Rightarrow> and_do (io (read_to_end i)) (\<lambda>data. lift_res (hash_std H [Inr data] alg))"
    have hash: "wp (?hash f) (\<lambda>r s'. evolves H {p} s s' \<and> same s1 s' \<and> (\<forall>d crc. r = Inr (d, crc) \<longrightarrow> d = digest_of H (os_data s1 f) alg)) t"
      if t: "evolves H {p} s t" "same s1 t" for t
    proof (cases "if covers then written else None")
      case (Some x)
      then have "alg = ''sha256''" "hash_of H x (os_data s1 f)" using covers h by (auto split: if_splits)
      then show ?thesis using t Some by (simp add: wp_ret staged_finish_def finish_sha256_digest hash_of_def)
    next
      case None
      have d: "os_data t f = os_data s1 f" using t(2) by (simp add: same_def)
      show ?thesis
        unfolding None option.case wp_and_do [where m = "io _"] wp_io
        by (rule wp_read_to_end [OF t(1)])
          (auto simp: d hash_std_one [OF H] wp_lift_res intro: same_trans [OF t(2)] split: sum.splits)
    qed
    have rest: "wp (and_do (io (fstat (File_Fd f))) (\<lambda>st. and_do (?hash f) (\<lambda>(d, crc). ret (d, crc, ino_of st)))) Q t"
      if t: "evolves H {p} s t" "same s1 t" for t
      unfolding wp_and_do [where m = "io _"] wp_io
    proof (rule wp_fstat [OF t(1)], goal_cases)
      case (1 r u)
      show ?case
      proof (cases r)
        case (Inr st)
        have st: "ino_of st = f" using 1(3) Inr by (auto simp: ino_of_def stat_of_def)
        have "same s1 u" by (rule same_trans [OF t(2) 1(2)])
        then show ?thesis
          unfolding Inr map_err_simps sum.case wp_and_do [where m = "?hash f"]
          by (intro wp_mono [OF hash [OF 1(1)]]) (use st n1 in \<open>auto simp: wp_ret same_def intro!: Q split: sum.splits prod.splits\<close>)
      qed (use 1(1) Q in simp)
    qed
    have sync: "wp (and_do (when_do commit (io fsync)) (\<lambda>_. K)) Q t"
      if t: "evolves H {p} s t" "same s1 t" and K: "\<And>t. evolves H {p} s t \<Longrightarrow> same s1 t \<Longrightarrow> wp K Q t" for t K
    proof (cases commit)
      case True
      then show ?thesis
        unfolding when_do_def if_P [OF True] wp_and_do [where m = "io _"] wp_io
        by (intro wp_fsync [OF t(1)]) (use Q K same_trans [OF t(2)] in \<open>auto split: sum.splits\<close>)
    qed (use K [OF t] in \<open>simp add: when_do_def wp_and_do wp_ret\<close>)
    show ?thesis
      unfolding Inr sum.case wp_and_do [where m = "resolve_beneath _ _"]
    proof (rule wp_resolve_beneath [OF 6(1)], goal_cases)
      case (2 r s2)
      show ?case
      proof (cases r)
        case (Inr i)
        then have "i = f" using 2(3) n1 by simp
        then show ?thesis unfolding Inr sum.case by (simp only: sync [OF 2(1,2) rest])
      qed (use 2(1) Q in simp)
    qed simp
  qed
qed (use H f in auto)

section \<open>Finishing\<close>

lemma wp_finish_staged:
  assumes w: "world D P" and s: "base_inv D s" and up: "upload_rel repo upload = Inr p" and d: "digest_wf d"
    and f: "node_at (fs_os s) p = Some (Reg f)" "df_file body = f" "df_tail_at body = length (os_data (fs_os s) f)"
      "\<And>h. df_hash body = Some h \<Longrightarrow> hash_of (dp_ext D) h (os_data (fs_os s) f)"
    and Q: "\<And>r s'. fs_ext D P {p} s s' \<Longrightarrow> (r = Inr () \<longrightarrow> entered D s' repo d) \<Longrightarrow> Q r s'"
  shows "wp (finish_staged D repo upload d p f body) Q s"
proof -
  let ?H = "dp_ext D" and ?t = "fs_os s"
  let ?covers = "(case df_hash body of Some h \<Rightarrow> sh_len h = df_tail_at body | None \<Rightarrow> False) \<and> algorithm d = ''sha256''"
  have fat: "file_at ?t p = Some (f, os_data ?t f)" using f(1) by (simp add: file_at_Some)
  have inv: "os_inv ?H ?t" using s by (simp add: base_inv_def)
  have ext: "fs_ext D P {p} s (s\<lparr>fs_os := t\<rparr>)" if "evolves ?H {p} ?t t" for t
    using s that by (auto simp: fs_ext_def base_inv_def hashed_def dest: evolves_inv)
  have direct: "wp (finish_land D repo upload d (df_len body) f (Some (body, d)) None) Q s" if ?covers
    by (rule wp_finish_land [OF w s up d fat]) (use that f Q in \<open>auto simp: verify_ok_def\<close>)
  have mismatch: "wp (and_do (discard_session repo upload) (\<lambda>_. fail e)) Q (s\<lparr>fs_os := t\<rparr>)" if "evolves ?H {p} ?t t" for t e
  proof -
    have "safe (base_inv D) (fs_ext D P {p}) (and_do (discard_session repo upload) (\<lambda>_. fail e)) (\<lambda>_. False)"
      by (rule fs_ev.safe_and_do [OF kept_discard_session [OF up]]) (auto intro: fs_ev.safe_fail)
    then show ?thesis by (rule wp_mono [OF fs_ev.safe_wp [OF _ ext [OF that]]]) (auto intro!: Q)
  qed
  have verify: "wp (finish_verify ?H body ?covers p (algorithm d) commit) (\<lambda>r t. case map_err map_not_found r of
      Inl e \<Rightarrow> Q (Inl e) (s\<lparr>fs_os := t\<rparr>)
    | Inr (actual, crc, ino) \<Rightarrow> wp (if \<not> digest_ct_eq actual d
             then and_do (discard_session repo upload) (\<lambda>_. fail (DigestMismatch (digest_display d) (digest_display actual)))
             else finish_land D repo upload d (df_len body) ino None (Some crc)) Q (s\<lparr>fs_os := t\<rparr>)) ?t" for commit
  proof (rule wp_finish_verify [OF inv worldD(2) [OF w] up f], goal_cases)
    case (3 r t)
    show ?case
    proof (cases r)
      case (Inl e)
      then show ?thesis using Q [OF ext [OF 3(1)]] by simp
    next
      case (Inr x)
      obtain actual crc ino where x: "x = (actual, crc, ino)" by (cases x)
      have i: "ino = f" "file_at t p = Some (f, os_data t f)" "actual = digest_of ?H (os_data t f) (algorithm d)"
        using 3(2) Inr x by (auto simp: file_at_Some)
      show ?thesis
      proof (cases "actual = d")
        case True
        have "base_inv D (s\<lparr>fs_os := t\<rparr>)" using ext [OF 3(1)] by (simp add: fs_ext_def)
        then have "wp (finish_land D repo upload d (df_len body) f None (Some crc)) Q (s\<lparr>fs_os := t\<rparr>)"
          by (rule wp_finish_land [OF w _ up d, where ino = f and content = "os_data t f"])
            (use i True Q fs_ev.trans [OF ext [OF 3(1)]] in \<open>auto simp: verify_ok_def\<close>)
        then show ?thesis using Inr x i(1) True by (simp add: digest_ct_eq_iff)
      next
        case False
        then show ?thesis using Inr x mismatch [OF 3(1)] by (simp add: digest_ct_eq_iff)
      qed
    qed
  qed auto
  have "wp (and_do (err_map map_not_found (on_os (finish_verify ?H body ?covers p (algorithm d) commit)))
             (\<lambda>(actual, crc, ino).
             if \<not> digest_ct_eq actual d
             then and_do (discard_session repo upload) (\<lambda>_. fail (DigestMismatch (digest_display d) (digest_display actual)))
             else finish_land D repo upload d (df_len body) ino None (Some crc))) Q s" for commit
    unfolding wp_and_do [where m = "err_map _ _"] wp_err_map on_os_def wp_on_part
    by (rule wp_mono [OF verify]) (auto split: sum.splits prod.splits)
  then show ?thesis
    unfolding finish_staged_def Let_def wp_and_do [where m = "gets _"] wp_gets sum.case
    using direct by (auto split: if_splits)
qed

lemma lift_Inr: "and_do (lift_res (Inr x)) f = f x"
  by (simp add: and_do_def observe_def lift_res_def fun_eq_iff)

lemma finish_keeps:
  assumes w: "world D P" and d: "digest_wf d" and s: "fs_inv D s" and A: "\<And>p. upload_rel repo upload = Inr p \<Longrightarrow> p \<in> A"
  shows "wp (fs_finish_upload D repo upload d max_size trailing limit)
      (\<lambda>r s'. fs_next D P A s s' \<and> (r = Inr () \<longrightarrow> entered D s' repo d)) s"
  (is "wp _ ?Q s")
proof (cases "upload_rel repo upload")
  case (Inl e)
  have "wp (session_lock repo upload) (\<lambda>r s'. fs_next D P {} s s') s"
    by (rule wp_session_lock [OF s, where P = P]) (auto simp: fs_nx.refl [OF s])
  then have "wp (session_lock repo upload) (\<lambda>r s'. fs_next D P A s s') s"
    by (rule wp_mono) (auto intro: fs_next_mono)
  then show ?thesis
    unfolding fs_finish_upload_def Inl wp_and_do [where m = "session_lock _ _"]
    by (rule wp_mono) (auto simp: wp_and_do wp_lift_res split: sum.splits)
next
  case (Inr p)
  let ?H = "dp_ext D" and ?k = "(repo, upload)"
  have drop: "safe (fs_inv D) (fs_next D P A) (drop_session repo upload) (\<lambda>_. True)"
    by (rule next_mono [OF next_of_safe [where A = "{}"]]) (auto intro!: kept_intros)
  have "wp (and_do (session_lock repo upload) (\<lambda>hash. and_do (prepare_session repo upload) (\<lambda>staging. case staging of
       Missing \<Rightarrow> and_do (drop_session repo upload) (\<lambda>_. fail NotFound)
     | NotRegular \<Rightarrow> and_do (discard_session repo upload) (\<lambda>_.
                       fail (BadPath (''upload '' @ upload @ '' is not a regular file'')))
     | Ready f current ino \<Rightarrow>
         and_do (set_session_hash repo upload None) (\<lambda>_.
         and_do (on_os (append_body_deferring_tail (dp_ext D) f current trailing limit (seed_hash hash current))) (\<lambda>body.
         if unat max_size < df_len body
         then and_do (discard_session repo upload) (\<lambda>_. fail (TooLarge max_size (of_nat (df_len body))))
         else finish_staged D repo upload d p ino body))))) ?Q s"
  proof (rule wp_open_session [where P = P and D = D, OF s], goal_cases)
    case (1 e s1)
    then show ?case using fs_next_mono [OF 1, of A] by simp
  next
    case (2 hash st s1)
    have "safe (fs_inv D) (fs_next D P A) (and_do m (\<lambda>_. fail e)) (\<lambda>_. False)"
      if "safe (fs_inv D) (fs_next D P A) m (\<lambda>_. True)" for m e
      by (rule fs_nx.safe_and_do [OF that]) (rule fs_nx.safe_fail)
    then have "wp (and_do m (\<lambda>_. fail e)) ?Q s1" if "safe (fs_inv D) (fs_next D P A) m (\<lambda>_. True)" for m e
      by (intro wp_mono [OF fs_nx.safe_wp [OF _ fs_next_mono [OF 2(1)]]]) (use that in auto)
    note wp_err = this
    have "safe (fs_inv D) (fs_next D P A) (discard_session repo upload) (\<lambda>_. True)" by (rule next_discard [OF w A])
    then show ?case using 2(2) wp_err [OF drop] wp_err by auto
  next
    case (3 hash f b s1 p')
    then have p': "p' = p" using Inr by simp
    note nx = fs_next_mono [OF 3(1), of A, simplified]
    have s1: "fs_inv D s1" using 3(1) by (simp add: fs_next_def)
    have f1: "node_at (fs_os s1) p = Some (Reg f)" using 3(3) p' by (simp add: file_at_Some)
    let ?s = "\<lambda>t. s1\<lparr>fs_os := t, fs_upload_locks := AList.update ?k None (fs_upload_locks s1)\<rparr>"
    have ext: "fs_ext D P {p} s1 (?s t)" if "evolves ?H {p} (fs_os s1) t" for t
      using s1 that by (auto simp: fs_inv_def fs_ext_def base_inv_def hashed_def update_conv' dest: evolves_inv split: if_splits)
    have swap: "s1\<lparr>fs_upload_locks := u, fs_os := t\<rparr> = s1\<lparr>fs_os := t, fs_upload_locks := u\<rparr>"
      "fs_os (s1\<lparr>fs_upload_locks := u\<rparr>) = fs_os s1" for u t by simp_all
    have free: "\<not> hashed (?s t) ?k h" for t h by (simp add: hashed_def update_conv')
    have fin: "fs_next D P A s s'" if t: "evolves ?H {p} (fs_os s1) t" and e: "fs_ext D P {p} (?s t) s'" for t s'
    proof -
      have "\<not> hashed s' ?k h" for h using e free [of t h] unfolding fs_ext_def by blast
      then have "fs_next D P {p} s1 s'" using fs_next_own [OF s1 fs_ev.trans [OF ext [OF t] e] Inr] by blast
      then show ?thesis using fs_nx.trans [OF nx fs_next_mono [of D P "{p}" _ _ A]] A [OF Inr] by simp
    qed
    have base: "base_inv D (?s t)" if "evolves ?H {p} (fs_os s1) t" for t using ext [OF that] by (simp add: fs_ext_def)
    have large: "wp (and_do (discard_session repo upload) (\<lambda>_. fail e)) ?Q (?s t)" if t: "evolves ?H {p} (fs_os s1) t" for t e
    proof -
      have "safe (base_inv D) (fs_ext D P {p}) (and_do (discard_session repo upload) (\<lambda>_. fail e)) (\<lambda>_. False)"
        by (rule fs_ev.safe_and_do [OF kept_discard_session [OF Inr]]) (auto intro: fs_ev.safe_fail)
      then show ?thesis
        by (rule wp_mono [OF fs_ev.safe_wp [OF _ fs_ev.refl [OF base [OF t]]]]) (auto intro: fin [OF t])
    qed
    have "wp (append_inner ?H f (length b) trailing limit (seed_hash hash (length b)) True) (\<lambda>r t. case r of
        Inl e \<Rightarrow> ?Q (Inl e) (?s t)
      | Inr body \<Rightarrow> wp (if unat max_size < df_len body
         then and_do (discard_session repo upload) (\<lambda>_. fail (TooLarge max_size (of_nat (df_len body))))
         else finish_staged D repo upload d p f body) ?Q (?s t)) (fs_os s1)"
    proof (rule wp_session_append [OF w s1 3(2,3)], goal_cases)
      case next3: (3 r t)
      note t = next3(1) [unfolded p']
      show ?case
      proof (cases r)
        case (Inl e)
        then show ?thesis using fin [OF t fs_ev.refl [OF base [OF t]]] by simp
      next
        case (Inr body)
        have b: "df_file body = f" "df_tail_at body = length (os_data t f)" "\<And>h. df_hash body = Some h \<Longrightarrow> hash_of ?H h (os_data t f)"
          using next3(3) Inr by blast+
        have "wp (finish_staged D repo upload d p f body) ?Q (?s t)"
          by (rule wp_finish_staged [OF w base [OF t] \<open>upload_rel repo upload = Inr p\<close> d])
            (use b next3(2) f1 fin [OF t] in auto)
        then show ?thesis using Inr large [OF t] by simp
      qed
    qed (use 3(4,5) in auto)
    then show ?case
      unfolding append_body_deferring_tail_def set_session_hash_def on_os_def staging.case wp_and_do [where m = "modify _"]
        wp_modify sum.case wp_and_do [where m = "on_part _ _ _"] wp_on_part
      by (simp only: swap)
  qed
  then show ?thesis
    unfolding fs_finish_upload_def Inr lift_Inr .
qed

lemma next_finish:
  assumes "world D P" "digest_wf d" "\<And>p. upload_rel repo upload = Inr p \<Longrightarrow> p \<in> A"
  shows "safe (fs_inv D) (fs_next D P A) (fs_finish_upload D repo upload d max_size trailing limit) (\<lambda>_. True)"
  unfolding safe_def
proof (intro allI impI)
  fix s assume "fs_inv D s"
  from finish_keeps [OF assms(1,2) this assms(3)]
  show "wp (fs_finish_upload D repo upload d max_size trailing limit) (\<lambda>r s'. fs_next D P A s s' \<and> (\<forall>x. r = Inr x \<longrightarrow> True)) s"
    by (rule wp_mono) auto
qed

end
