(* ===== verification/Gc_Candidates.thy ===== *)
theory Gc_Candidates
  imports Evolution
begin

text \<open>
  The candidates for collection are always named by canonical digests. The sweep looks up the
  references of a candidate under the text it is tracked by and removes the file under the parsed
  digest; the two agree because no operation ever tracks any other text.
\<close>

definition canonical :: "string \<Rightarrow> bool" where
  "canonical ds \<longleftrightarrow> (\<exists>d. digest_wf d \<and> ds = digest_display d)"

definition gc_canonical :: "gc_tracker \<Rightarrow> bool" where
  "gc_canonical g \<longleftrightarrow> (\<forall>k\<in>set (gc_candidates g). canonical (snd (fst k)))"

abbreviation gc_canon :: "('m, 'f, 'l) fs_store \<Rightarrow> bool" where
  "gc_canon s \<equiv> gc_canonical (fs_gc s)"

definition gc_ext :: "('m, 'f, 'l) fs_store \<Rightarrow> ('m, 'f, 'l) fs_store \<Rightarrow> bool" where
  "gc_ext s s' \<longleftrightarrow> gc_canon s'"

interpretation gc_ev: evolution gc_canon gc_ext
  by unfold_locales (auto simp: gc_ext_def)

lemma canonical_display [simp, intro]: "digest_wf d \<Longrightarrow> canonical (digest_display d)"
  by (auto simp: canonical_def)

lemma canonical_parse: "canonical ds \<Longrightarrow> parse_digest ds = Inr d \<Longrightarrow> ds = digest_display d"
  by (auto simp: canonical_def parse_digest_display)

section \<open>Operations of the tracker\<close>

lemma set_update_subset: "set (AList.update k v xs) \<subseteq> insert (k, v) (set xs)"
  by (induction xs) auto

lemma set_delete_subset: "set (AList.delete k xs) \<subseteq> set xs"
  by (auto simp: AList.delete_eq)

lemma gc_canonical_ops [simp, intro]:
  "gc_canonical (gc_new on delay)"
  "gc_canonical g \<Longrightarrow> canonical ds \<Longrightarrow> gc_canonical (gc_mark_at repo ds t g)"
  "gc_canonical g \<Longrightarrow> gc_canonical (gc_clear repo x g)"
  "gc_canonical g \<Longrightarrow> gc_canonical (gc_set_ready g)"
  "gc_canonical g \<Longrightarrow> gc_canonical (gc_add_root repo x g)"
  "gc_canonical g \<Longrightarrow> gc_canonical (gc_mark_unsafe repo g)"
  using set_update_subset [of "(repo, ds)" t "gc_candidates g"] set_delete_subset [of "(repo, x)" "gc_candidates g"]
  by (auto simp: gc_canonical_def gc_new_def gc_mark_at_def gc_clear_def gc_set_ready_def gc_add_root_def gc_mark_unsafe_def)

lemma gc_canonical_touch [simp, intro]:
  assumes "gc_canonical g"
  shows "gc_canonical (gc_touch repo x t g)"
proof (cases "map_of (gc_candidates g) (repo, x)")
  case (Some u)
  then have "canonical x" using assms map_of_SomeD [OF Some] by (auto simp: gc_canonical_def)
  then show ?thesis
    using assms set_update_subset [of "(repo, x)" t "gc_candidates g"] by (auto simp: gc_touch_def gc_canonical_def)
qed (use assms in \<open>simp add: gc_touch_def\<close>)

lemma gc_canonical_fold: "(\<And>x g. gc_canonical g \<Longrightarrow> gc_canonical (f x g)) \<Longrightarrow> gc_canonical g \<Longrightarrow> gc_canonical (fold f xs g)"
  by (induction xs arbitrary: g) auto

lemma gc_canonical_notes:
  "note_blob_entered M repo ds ck t (m, g, d) = (m', g', d') \<Longrightarrow> canonical ds \<Longrightarrow> gc_canonical g \<Longrightarrow> gc_canonical g'"
  "note_blob_left M repo ds sz (m, g, d, q) = (m', g', d', q') \<Longrightarrow> gc_canonical g \<Longrightarrow> gc_canonical g'"
  by (auto simp: note_blob_entered_def note_blob_left_def Let_def split: if_splits)

section \<open>Steps of the store\<close>

lemma gc_modify: "(\<And>s. gc_canon s \<Longrightarrow> gc_canon (f s)) \<Longrightarrow> kept gc_canon gc_ext (modify f)"
  by (rule gc_ev.kept_modify) (simp add: gc_ext_def)

lemma gc_parts [kept_intros]:
  "kept gc_canon gc_ext (on_os m)"
  "kept gc_canon gc_ext (on_quota m')"
  "kept gc_canon gc_ext (on_meta m'')"
  "kept gc_canon gc_ext (fs_cache_get D repo x)"
  by (auto simp: safe_def wp_def gc_ext_def on_os_def on_quota_def on_meta_def on_part_def fs_cache_get_def split: prod.splits)

lemma gc_same [kept_intros]: "(\<And>s. fs_gc (f s) = fs_gc s) \<Longrightarrow> kept gc_canon gc_ext (modify f)"
  by (rule gc_modify) simp

lemma gc_entered [kept_intros]: "canonical ds \<Longrightarrow> kept gc_canon gc_ext (blob_entered D repo ds ck)"
  unfolding blob_entered_def by (rule gc_modify) (auto split: prod.splits intro: gc_canonical_notes)

lemma gc_left [kept_intros]: "kept gc_canon gc_ext (blob_left D repo x sz)"
  unfolding blob_left_def by (rule gc_modify) (auto split: prod.splits intro: gc_canonical_notes)

lemma gc_steps [kept_intros]:
  "kept gc_canon gc_ext (want_blob repo x)"
  "kept gc_canon gc_ext (session_lock repo upload)"
  "kept gc_canon gc_ext (set_session_hash repo upload h)"
  "kept gc_canon gc_ext (drop_session repo upload)"
  "kept gc_canon gc_ext (admit_lock repo x)"
  "kept gc_canon gc_ext (admit_release repo x)"
  "kept gc_canon gc_ext (take_pending repo upload)"
  "kept gc_canon gc_ext (mark_index_dirty repo)"
  "kept gc_canon gc_ext (fs_cache_put D repo x data)"
  "kept gc_canon gc_ext (present D repo x)"
  unfolding want_blob_def session_lock_def set_session_hash_def drop_session_def admit_lock_def admit_release_def take_pending_def
    mark_index_dirty_def fs_cache_put_def present_def
  by (intro kept_intros gc_modify; simp)+

lemma gc_helpers [kept_intros]:
  "kept gc_canon gc_ext (apply_meta D repo op)"
  "kept gc_canon gc_ext (ensure_layout repo)"
  "kept gc_canon gc_ext (admit_blob repo dir leaf sz)"
  "kept gc_canon gc_ext (read_all_beneath rel)"
  "kept gc_canon gc_ext (prepare_session repo upload)"
  "kept gc_canon gc_ext (dedupe_link D repo dir leaf x)"
  "kept gc_canon gc_ext (discard_session repo upload)"
  "kept gc_canon gc_ext (read_index D repo)"
  "kept gc_canon gc_ext (size_for_release rel)"
  unfolding apply_meta_def ensure_layout_def admit_blob_def read_all_beneath_def prepare_session_def dedupe_link_def
    discard_session_def read_index_def size_for_release_def
  by (intro kept_intros; simp)+

section \<open>Storage operations\<close>

lemma gc_queries [kept_intros]:
  "kept gc_canon gc_ext (fs_blob_size D repo d)"
  "kept gc_canon gc_ext (fs_blob_exists D repo d)"
  "kept gc_canon gc_ext (fs_read_blob D repo d)"
  "kept gc_canon gc_ext (fs_open_blob D repo d)"
  "kept gc_canon gc_ext (fs_upload_size repo upload)"
  "kept gc_canon gc_ext (fs_list_tags D repo last_seen limit)"
  unfolding fs_blob_size_def fs_blob_exists_def fs_read_blob_def fs_open_blob_def fs_upload_size_def fs_list_tags_def
  by (intro kept_intros)+

lemma gc_uploads [kept_intros]:
  "kept gc_canon gc_ext (fs_begin_upload repo)"
  "kept gc_canon gc_ext (fs_abort_upload repo upload)"
  unfolding fs_begin_upload_def fs_abort_upload_def by (intro kept_intros; simp)+

lemma kept_staging [kept_intros]:
  "kept I E a \<Longrightarrow> kept I E b \<Longrightarrow> (\<And>f n i. kept I E (g f n i)) \<Longrightarrow>
     kept I E (case x of Missing \<Rightarrow> a | NotRegular \<Rightarrow> b | Ready f n i \<Rightarrow> g f n i)"
  by (cases x) auto

lemma gc_append [kept_intros]: "kept gc_canon gc_ext (fs_append_upload D repo upload body offset limit)"
  unfolding fs_append_upload_def by (intro kept_intros)

lemma kept_landed [kept_intros]:
  "(\<And>c. kept I E (a c)) \<Longrightarrow> (\<And>d. kept I E (b d)) \<Longrightarrow> (\<And>e. kept I E (f e)) \<Longrightarrow> (\<And>c e. kept I E (g c e)) \<Longrightarrow>
     kept I E (case x of Done c \<Rightarrow> a c | Mismatch d \<Rightarrow> b d | Rejected e \<Rightarrow> f e | Failed c e \<Rightarrow> g c e)"
  by (cases x) auto

lemma gc_land [kept_intros]:
  "kept gc_canon gc_ext (layout_and_admit repo rel dir leaf sz)"
  "kept gc_canon gc_ext (land_verify D verify)"
  "kept gc_canon gc_ext (land_blob D c)"
  unfolding layout_and_admit_def land_verify_def land_blob_def by (intro kept_intros; simp)+

lemma gc_finish [kept_intros]:
  assumes "digest_wf d"
  shows "kept gc_canon gc_ext (fs_finish_upload D repo upload d max_size trailing limit)"
  unfolding fs_finish_upload_def finish_staged_def finish_land_def landing_done_def Let_def
  by (intro kept_intros canonical_display assms; simp)

lemma gc_put_blob [kept_intros]:
  assumes "digest_wf d"
  shows "kept gc_canon gc_ext (fs_put_blob D repo d data)" "kept gc_canon gc_ext (fs_mount_blob D from_repo repo d)"
  unfolding fs_put_blob_def fs_mount_blob_def Let_def
  by (intro kept_intros canonical_display assms; simp)+

lemma gc_delete_blob [kept_intros]: "kept gc_canon gc_ext (fs_delete_blob D repo d)"
  unfolding fs_delete_blob_def by (intro kept_intros)

lemma kept_gc_landed [kept_intros]:
  "(\<And>e. kept I E (f e)) \<Longrightarrow> (\<And>c e. kept I E (g c e)) \<Longrightarrow> (\<And>m e. kept I E (h m e)) \<Longrightarrow>
     kept I E (case x of MRejected e \<Rightarrow> f e | MFailed c e \<Rightarrow> g c e | Stored m e \<Rightarrow> h m e)"
  by (cases x) auto

lemma gc_put_manifest [kept_intros]:
  assumes "digest_wf d"
  shows "kept gc_canon gc_ext (fs_put_manifest D repo tag d mt data links)"
proof -
  have clears: "kept gc_canon gc_ext (modify (\<lambda>s. s\<lparr>fs_gc := fold (gc_clear repo) xs (fs_gc s)\<rparr>))" for xs
    by (rule gc_modify) (auto intro: gc_canonical_fold)
  show ?thesis
    unfolding fs_put_manifest_def land_manifest_def record_manifest_def Let_def
    by (intro kept_intros clears canonical_display assms; simp)
qed

lemma map_filter_Some: "y \<in> set (List.map_filter f xs) \<Longrightarrow> \<exists>x\<in>set xs. f x = Some y"
  by (auto simp: List.map_filter_def)

lemma parsed_digest_wf: "parsed_digest v = Some d \<Longrightarrow> digest_wf d"
  by (auto simp: parsed_digest_def dest: parse_digest_wf elim!: bind_eq_Some_conv [THEN iffD1, elim_format] split: sum.split_asm)

lemma manifest_references_wf: "d \<in> set (manifest_references v) \<Longrightarrow> digest_wf d"
  unfolding manifest_references_def using map_filter_Some parsed_digest_wf by fast

lemma gc_delete_manifest [kept_intros]: "kept gc_canon gc_ext (fs_delete_manifest D repo d)"
proof -
  have seeds: "kept gc_canon gc_ext (modify (fold (seed_candidate D repo) xs))" if "\<forall>x\<in>set xs. canonical x" for xs
  proof (rule gc_modify)
    fix s :: "('a, 'b, 'c) fs_store" assume "gc_canon s"
    then show "gc_canon (fold (seed_candidate D repo) xs s)"
      using that by (induction xs arbitrary: s) (auto simp: seed_candidate_def)
  qed
  show ?thesis
    unfolding fs_delete_manifest_def Let_def
    by (intro kept_intros seeds) (auto dest: manifest_references_wf split: option.splits)
qed

lemma gc_manifest_queries [kept_intros]:
  "kept gc_canon gc_ext (fs_get_manifest D repo reference)"
  "kept gc_canon gc_ext (fs_list_referrers D repo d artifact_type last_seen limit)"
  unfolding fs_get_manifest_def manifest_reference_def index_media_type_for_digest_def index_resolve_tag_def
    fs_list_referrers_def tag_schema_referrers_def Let_def
  by (intro kept_intros)+

section \<open>Background work\<close>

lemma gc_flush [kept_intros]: "kept gc_canon gc_ext (flush_dirty D)"
  unfolding flush_dirty_def flush_one_def by (intro kept_intros gc_ev.kept_try_each; simp)

lemma gc_rebuild_loop: "kept gc_canon gc_ext (rebuild_loop D repo fuel to_visit all_roots)"
proof (induction fuel arbitrary: to_visit all_roots)
  case 0
  then show ?case by (cases to_visit) (auto intro: gc_ev.kept_ret)
next
  case (Suc fuel)
  have "kept gc_canon gc_ext (visit_root D repo ds)" for ds
    unfolding visit_root_def mark_repo_unsafe_def by (intro kept_intros gc_modify; simp)
  then show ?case
    using Suc by (cases to_visit) (auto intro!: gc_ev.kept_ret gc_ev.kept_and_do split: prod.splits)
qed

text \<open>What any run of an operation returns.\<close>

interpretation any_ev: evolution "\<lambda>_ :: 's. True" "\<lambda>_ _. True"
  by unfold_locales auto

lemma any_call: "safe (\<lambda>_. True) (\<lambda>_ _. True) m (\<lambda>_. True)"
  by (simp add: safe_def wp_def)

lemma gc_on_os: "safe (\<lambda>_. True) (\<lambda>_ _. True) m R \<Longrightarrow> safe gc_canon gc_ext (on_os m) R"
  by (auto simp: safe_def wp_def gc_ext_def on_os_def on_part_def split: prod.splits) (metis fst_conv)

text \<open>An entry of the walk stands for the digest its name has in lower case.\<close>

lemma parse_digest_parts:
  assumes "parse_digest (alg @ CHR '':'' # hx) = Inr d"
  shows "hex d = to_ascii_lowercase hx"
proof -
  obtain a b where split: "split_once CHR '':'' (alg @ CHR '':'' # hx) = Some (a, b)" and b: "list_all is_ascii_hexdigit b"
    and d: "hex d = to_ascii_lowercase b"
    using assms by (auto simp: parse_digest_def and_then_Inr_iff split: option.splits if_splits)
  have "CHR '':'' \<notin> set b" using b by (auto simp: list_all_iff is_ascii_hexdigit_def ascii_class_defs)
  moreover have "alg @ CHR '':'' # hx = a @ CHR '':'' # b" "CHR '':'' \<notin> set a" using split by (auto simp: split_once_Some_iff)
  ultimately have "hx = b" by (auto simp: append_eq_append_conv2 append_eq_Cons_conv Cons_eq_append_conv)
  then show ?thesis using d by simp
qed

lemma cas_entries: "safe (\<lambda>_. True) (\<lambda>_ _. True) for_each_cas_entry (list_all (\<lambda>(_, d, c). digest_wf d \<and> hex d = to_ascii_lowercase c))"
proof -
  have files: "list_all (\<lambda>(_, d, c). digest_wf d \<and> hex d = to_ascii_lowercase c) (List.map_filter (\<lambda>(hx, k). case k of
                Reg _ \<Rightarrow> (case parse_digest (alg @ CHR '':'' # hx) of Inr d \<Rightarrow> Some (repo, d, hx) | Inl _ \<Rightarrow> None)
              | _ \<Rightarrow> None) files)" for repo alg files
    by (auto simp: List.map_filter_def list_all_iff dest: parse_digest_wf parse_digest_parts split: node.splits sum.splits)
  have "safe (\<lambda>_. True) (\<lambda>_ _. True) (cas_blobs_of repo) (list_all (\<lambda>(_, d, c). digest_wf d \<and> hex d = to_ascii_lowercase c))" for repo
    unfolding cas_blobs_of_def Let_def
    by (rule any_ev.safe_observe [OF any_call])
      (auto intro!: any_ev.safe_ret any_ev.safe_observe [OF any_call] any_ev.safe_collect_each simp: files split: sum.splits)
  then show ?thesis
    unfolding for_each_cas_entry_def by (intro any_ev.safe_and_do [OF any_call] any_ev.safe_collect_each)
qed

lemma for_each_cas_blob_wf: "safe (\<lambda>_. True) (\<lambda>_ _. True) for_each_cas_blob (list_all (\<lambda>(_, d). digest_wf d))"
  unfolding for_each_cas_blob_def
  by (rule any_ev.safe_and_do [OF cas_entries]) (auto intro!: any_ev.safe_ret simp: list_all_iff)

lemma gc_start_gc [kept_intros]: "kept gc_canon gc_ext (start_gc D)"
proof -
  have seed: "kept gc_canon gc_ext (modify (fold (seed_unreferenced D now) blobs))"
    if "list_all (\<lambda>(_, d). digest_wf d) blobs" for now blobs
  proof (rule gc_modify)
    fix s :: "('a, 'b, 'c) fs_store" assume "gc_canon s"
    then show "gc_canon (fold (seed_unreferenced D now) blobs s)"
      using that by (induction blobs arbitrary: s) (auto simp: seed_unreferenced_def Let_def)
  qed
  have protect: "kept gc_canon gc_ext (modify (\<lambda>s. s\<lparr>fs_gc := fold (protect_root D repo (fs_meta s)) roots (fs_gc s)\<rparr>))" for repo roots
    by (rule gc_modify) (auto simp: protect_root_def intro!: gc_canonical_fold)
  have unsafe: "kept gc_canon gc_ext (mark_repo_unsafe repo)" for repo
    unfolding mark_repo_unsafe_def by (rule gc_modify) simp
  have ready: "kept gc_canon gc_ext (modify (\<lambda>s. s\<lparr>fs_gc := gc_set_ready (fs_gc s)\<rparr>))"
    by (rule gc_modify) simp
  show ?thesis
    unfolding start_gc_def gc_consistency_check_def gc_rebuild_repo_def rebuild_backrefs_def
    by (intro kept_intros gc_ev.kept_try_each gc_rebuild_loop protect unsafe ready
        gc_ev.safe_and_do [OF gc_on_os [OF for_each_cas_blob_wf]] seed)
qed

lemma gc_sweep [kept_intros]: "kept gc_canon gc_ext (sweep_at D now)"
proof -
  have clear: "kept gc_canon gc_ext (clear_candidate repo x)" for repo x
    unfolding clear_candidate_def by (rule gc_modify) simp
  have one: "kept gc_canon gc_ext (sweep_one D now bk)" for bk
    unfolding sweep_one_def collect_blob_def by (intro kept_intros clear)
  show ?thesis
    unfolding sweep_at_def sweep_stale_uploads_def expire_pending_def expire_upload_def
    by (intro kept_intros gc_ev.kept_try_each one; simp)
qed

lemma gc_seed: "kept gc_canon gc_ext (seed_from_cas D)"
  unfolding seed_from_cas_def seed_blob_def by (intro kept_intros gc_ev.kept_try_each; simp)

lemma gc_recover: "kept gc_canon gc_ext (recover_store D)"
  unfolding recover_store_def warm_referrers_from_layout_def reconcile_index_json_def reconcile_repo_def reconcile_known_def
  by (intro kept_intros gc_ev.kept_try_each; simp)

end
