(* ===== verification/Fs_Sweep.thy ===== *)
theory Fs_Sweep
  imports Fs_Finish Gc_Candidates
begin

text \<open>
  The background work of the store keeps its invariant: the index writer, the consistency check, the
  sweeps, and the start. A sweep removes only blobs that no manifest references in the metadata.
\<close>

section \<open>Index writer\<close>

lemma no_staging_index: "no_staging {p. last p = ''index.json''}"
  unfolding no_staging_def using upload_rel_last by auto

lemma no_staging_cas: "no_staging {p. cas_digest p \<noteq> None}"
  unfolding no_staging_def using upload_not_cas by auto

lemma no_staging_subset: "no_staging B \<Longrightarrow> A \<subseteq> B \<Longrightarrow> no_staging A"
  unfolding no_staging_def by blast

lemma kept_flush_one:
  assumes "world D P" "\<And>rel. repo_rel (fst rg) = Inr rel \<Longrightarrow> rel @ [''index.json''] \<in> A"
  shows "kept (base_inv D) (fs_ext D P A) (flush_one D rg)"
  unfolding flush_one_def using assms
  by (cases rg) (auto intro!: kept_intros kept_read_index_beneath kept_write_index_at_root worldD(4) split: sum.splits)

lemma kept_flush_dirty:
  assumes "world D P" "{p. last p = ''index.json''} \<subseteq> A"
  shows "kept (base_inv D) (fs_ext D P A) (flush_dirty D)"
  unfolding flush_dirty_def using assms
  by (intro fs_ev.kept_and_do fs_ev.kept_gets fs_ev.kept_try_each kept_flush_one) auto

lemma next_flush_dirty:
  assumes "world D P" "{p. last p = ''index.json''} \<subseteq> A"
  shows "safe (fs_inv D) (fs_next D P A) (flush_dirty D) (\<lambda>_. True)"
  by (rule next_mono [OF next_of_safe [OF kept_flush_dirty [OF assms(1) subset_refl] no_staging_index] assms(2)])

section \<open>Consistency check\<close>

lemma kept_record_edges:
  assumes "world D P"
  shows "kept (base_inv D) (fs_ext D P A) (modify (\<lambda>s. s\<lparr>fs_meta := record_edges D repo ds manifest (fs_meta s)\<rparr>))"
  by (rule fs_ev.kept_modify)
    (auto simp: fs_ext_def base_inv_def hashed_def record_edges_def Let_def intro: evolves_refl worldD(5) [OF assms])

lemma kept_visit_root:
  assumes "world D P"
  shows "kept (base_inv D) (fs_ext D P A) (visit_root D repo ds)"
  unfolding visit_root_def mark_repo_unsafe_def
  by (intro kept_intros kept_read_cas_blob_bounded kept_record_edges assms) auto

lemma kept_rebuild_loop:
  assumes "world D P"
  shows "kept (base_inv D) (fs_ext D P A) (rebuild_loop D repo fuel to_visit all_roots)"
proof (induction fuel arbitrary: to_visit all_roots)
  case 0
  then show ?case by (cases to_visit) (auto intro: fs_ev.kept_ret)
next
  case (Suc fuel)
  then show ?case
    by (cases to_visit) (auto intro!: fs_ev.kept_ret fs_ev.kept_and_do kept_visit_root assms split: prod.splits)
qed

lemma kept_gc_rebuild_repo:
  assumes "world D P"
  shows "kept (base_inv D) (fs_ext D P A) (gc_rebuild_repo D repo)"
  unfolding gc_rebuild_repo_def rebuild_backrefs_def mark_repo_unsafe_def
  by (intro kept_intros kept_rebuild_loop kept_read_index_beneath assms) auto

lemma kept_start_gc:
  assumes "world D P"
  shows "kept (base_inv D) (fs_ext D P A) (start_gc D)"
proof -
  have seed: "kept (base_inv D) (fs_ext D P A) (modify (fold (seed_unreferenced D now) blobs))" for now blobs
    by (intro kept_modify_gc fold_gc_only) (auto simp: seed_unreferenced_def Let_def)
  show ?thesis
    unfolding start_gc_def gc_consistency_check_def
    by (intro kept_intros fs_ev.kept_try_each kept_gc_rebuild_repo kept_discover_repos kept_for_each_cas_blob seed assms) auto
qed

section \<open>Sweeping\<close>

text \<open>Runs from states with the property of the metadata.\<close>

definition fs_guard :: "('x, 'm, 'f, 'l) deps \<Rightarrow> ('m \<Rightarrow> bool) \<Rightarrow> path set \<Rightarrow> ('m, 'f, 'l) fs_store \<Rightarrow> ('m, 'f, 'l) fs_store \<Rightarrow> bool" where
  "fs_guard D P A s s' \<longleftrightarrow> fs_next D P A s s' \<and> P (fs_meta s') \<and> gc_canon s'"

abbreviation guarded :: "('x, 'm, 'f, 'l) deps \<Rightarrow> ('m \<Rightarrow> bool) \<Rightarrow> ('m, 'f, 'l) fs_store \<Rightarrow> bool" where
  "guarded D P s \<equiv> fs_inv D s \<and> P (fs_meta s) \<and> gc_canon s"

interpretation fs_gd: evolution "guarded D P" "fs_guard D P A" for D :: "('x, 'm, 'f, 'l) deps" and P A
  by unfold_locales (auto simp: fs_guard_def fs_nx.refl intro: fs_nx.trans, simp add: fs_next_def)

lemma guard_of_next:
  assumes "safe (fs_inv D) (fs_next D P A) m R" "kept gc_canon gc_ext m"
  shows "safe (guarded D P) (fs_guard D P A) m R"
  unfolding safe_def
proof (intro allI impI)
  fix s assume s: "guarded D P s"
  then have "wp m (\<lambda>r s'. fs_next D P A s s' \<and> (\<forall>x. r = Inr x \<longrightarrow> R x)) s" "wp m (\<lambda>r s'. gc_canon s') s"
    using assms by (simp_all add: safe_def gc_ext_def)
  then have "wp m (\<lambda>r s'. (fs_next D P A s s' \<and> (\<forall>x. r = Inr x \<longrightarrow> R x)) \<and> gc_canon s') s" by (simp add: wp_conj)
  then show "wp m (\<lambda>r s'. fs_guard D P A s s' \<and> (\<forall>x. r = Inr x \<longrightarrow> R x)) s"
    by (rule wp_mono) (use s in \<open>auto simp: fs_guard_def fs_next_def\<close>)
qed

lemma guard_of_kept:
  "kept (base_inv D) (fs_ext D P {}) m \<Longrightarrow> kept gc_canon gc_ext m \<Longrightarrow> kept (guarded D P) (fs_guard D P A) m"
  by (rule guard_of_next, rule next_mono [OF next_of_safe]) auto

text \<open>The blobs a sweep may take: those without a reference and without a media type.\<close>

definition sweepable :: "('x, 'm, 'f, 'l) deps \<Rightarrow> ('m \<Rightarrow> bool) \<Rightarrow> path set \<Rightarrow> bool" where
  "sweepable D P A \<longleftrightarrow> (\<forall>m repo d p. P m \<longrightarrow> digest_wf d \<longrightarrow> mt_backrefs (dp_meta D) m repo (digest_display d) = [] \<longrightarrow>
     mt_manifest_media_type (dp_meta D) m repo (digest_display d) = None \<longrightarrow> blob_rel repo d = Inr p \<longrightarrow> p \<in> A)"

lemma guard_clear: "kept (guarded D P) (fs_guard D P A) (clear_candidate repo ds)"
  unfolding clear_candidate_def by (intro guard_of_kept kept_intros gc_modify) auto

lemma guard_collect_blob:
  assumes "world D P" "digest_wf d" "blob_dir_rel repo d = Inr (dir, leaf)" "dir @ [leaf] \<in> A"
  shows "kept (guarded D P) (fs_guard D P A) (collect_blob D repo ds dir leaf)"
proof -
  have "kept (base_inv D) (fs_ext D P {dir @ [leaf]}) (collect_blob D repo ds dir leaf)"
    unfolding collect_blob_def clear_candidate_def by (intro kept_intros assms) auto
  moreover have "kept gc_canon gc_ext (collect_blob D repo ds dir leaf)"
    unfolding collect_blob_def clear_candidate_def by (intro kept_intros gc_modify) auto
  moreover have "no_staging {dir @ [leaf]}"
    by (rule no_staging_subset [OF no_staging_cas]) (use blob_dir_rel_cas [OF assms(3,2)] in auto)
  ultimately show ?thesis using assms(4) by (intro guard_of_next next_mono [OF next_of_safe]) auto
qed

lemma due_canonical: "gc_canonical g \<Longrightarrow> gc_is_due repo ds now g \<Longrightarrow> canonical ds"
  by (auto simp: gc_canonical_def gc_is_due_def split: option.splits dest!: map_of_SomeD)

lemma guard_sweep_one:
  assumes "world D P" "sweepable D P A"
  shows "kept (guarded D P) (fs_guard D P A) (sweep_one D now bk)"
proof (cases bk)
  case (Pair repo ds)
  have collect: "kept (guarded D P) (fs_guard D P A) (collect_blob D repo ds dir leaf)"
    if d: "parse_digest ds = Inr d" "blob_dir_rel repo d = Inr (dir, leaf)"
      and m: "P m" "mt_backrefs (dp_meta D) m repo ds = []" "mt_manifest_media_type (dp_meta D) m repo ds = None"
      and g: "gc_canonical g" "gc_is_due repo ds now g" for d dir leaf m g
  proof -
    have wf: "digest_wf d" and ds: "ds = digest_display d"
      using parse_digest_wf [OF d(1)] canonical_parse [OF due_canonical [OF g] d(1)] by auto
    have "dir @ [leaf] \<in> A" using assms(2) wf m ds blob_dir_rel_Inr(1) [OF d(2)] unfolding sweepable_def by blast
    then show ?thesis by (rule guard_collect_blob [OF assms(1) wf d(2)])
  qed
  show ?thesis
    unfolding sweep_one_def Pair prod.case
    by (rule fs_gd.safe_and_do [where R = "\<lambda>(g, b, t). gc_canonical g \<and> (\<exists>m. P m \<and> b = mt_backrefs (dp_meta D) m repo ds
        \<and> t = mt_manifest_media_type (dp_meta D) m repo ds)", OF fs_gd.safe_gets])
      (auto intro!: guard_clear fs_gd.kept_ret intro: collect split: sum.splits)
qed

lemma guard_expire_pending: "kept (guarded D P) (fs_guard D P A) (expire_pending ru)"
  unfolding expire_pending_def by (cases ru) (auto intro!: guard_of_kept kept_intros split: sum.splits)

lemma guard_session_lock: "safe (guarded D P) (fs_guard D P A) (session_lock repo upload) (\<lambda>_. safe_component upload = Inr upload)"
  by (rule guard_of_next, rule next_mono [OF next_of_safe [OF kept_session_lock no_staging_empty]]) (auto intro: kept_intros)

lemma upload_dir_relI:
  "repo_rel repo = Inr rel \<Longrightarrow> safe_component upload = Inr upload \<Longrightarrow> upload_dir_rel repo upload = Inr (rel @ [''uploads''], upload)"
  by (simp add: upload_dir_rel_def del: safe_component_Inr)

lemma guard_expire_upload:
  assumes w: "world D P" and rel: "repo_rel repo = Inr rel" and A: "\<And>upload p. upload_rel repo upload = Inr p \<Longrightarrow> p \<in> A"
  shows "kept (guarded D P) (fs_guard D P A) (expire_upload (repo, rel @ [''uploads''], name))"
proof -
  have drop: "kept (fs_inv D) (fs_next D P A) (drop_session repo name)"
    by (rule next_mono [OF next_of_safe [where A = "{}"]]) (auto intro!: kept_intros)
  have quiet: "kept (fs_inv D) (fs_next D P A) (on_os (still_stale delay q))" "kept (fs_inv D) (fs_next D P A) (gets f)" for delay q f
    by (rule next_mono [OF next_of_safe [where A = "{}"]], auto intro!: kept_intros kept_still_stale)+
  have unlink: "kept (fs_inv D) (fs_next D P A) (observe (on_os (unlink_beneath (rel @ [''uploads'']) name)) (\<lambda>r.
      and_do (when_do (is_ok r) (modify (\<lambda>s. s\<lparr>fs_quota := end_session (fs_quota s)\<rparr>))) (\<lambda>_. drop_session repo name)))"
    if "safe_component name = Inr name"
    by (rule next_unlink [OF upload_dir_relI [OF rel that]])
      (use A [OF upload_dir_rel_Inr(1) [OF upload_dir_relI [OF rel that]]] ext_end_drop [where b = True] drop in
        \<open>auto simp: is_ok_def when_do_def intro!: fs_nx.kept_and_do fs_nx.kept_ret\<close>)
  let ?go = "and_do (gets (\<lambda>s. gc_delay (fs_gc s))) (\<lambda>delay. and_do (on_os (still_stale delay ((rel @ [''uploads'']) @ [name]))) (\<lambda>stale.
      if \<not> stale then drop_session repo name
      else observe (on_os (unlink_beneath (rel @ [''uploads'']) name)) (\<lambda>r.
           and_do (when_do (is_ok r) (modify (\<lambda>s. s\<lparr>fs_quota := end_session (fs_quota s)\<rparr>))) (\<lambda>_. drop_session repo name))))"
  have go: "kept (fs_inv D) (fs_next D P A) ?go" if "safe_component name = Inr name"
    by (intro fs_nx.kept_and_do quiet kept_if drop unlink that)
  have gcs: "kept gc_canon gc_ext ?go"
    by (intro kept_intros; simp)
  show ?thesis
    unfolding expire_upload_def prod.case
  proof (rule fs_gd.safe_observe [OF guard_session_lock], goal_cases)
    case (1 r)
    then show ?case by (cases r) (simp_all only: sum.case fs_gd.kept_ret guard_of_next [OF go gcs])
  qed
qed

lemma safe_stale_uploads:
  "safe (os_inv H) (evolves H A) (stale_uploads_of delay repo) (list_all (\<lambda>(r, dir, _). \<exists>rel. repo_rel r = Inr rel \<and> dir = rel @ [''uploads'']))"
proof (cases "repo_rel repo")
  case (Inl e)
  then show ?thesis by (simp add: stale_uploads_of_def os_ev.safe_ret)
next
  case (Inr rel)
  show ?thesis
    unfolding stale_uploads_of_def Inr sum.case
    by (rule os_ev.safe_observe [OF kept_os_calls(5)])
      (auto intro!: os_ev.safe_ret os_ev.safe_gets simp: Inr list_all_iff split: sum.splits)
qed

lemma guard_sweep_stale:
  assumes w: "world D P" and A: "\<And>repo upload p. upload_rel repo upload = Inr p \<Longrightarrow> p \<in> A"
  shows "kept (guarded D P) (fs_guard D P A) sweep_stale_uploads"
proof -
  have stale: "safe (guarded D P) (fs_guard D P A) (on_os (collect_each (stale_uploads_of delay) repos))
      (list_all (\<lambda>(r, dir, _). \<exists>rel. repo_rel r = Inr rel \<and> dir = rel @ [''uploads'']))" for delay repos
    by (rule guard_of_next, rule next_mono [OF next_of_safe [OF fs_safe_on_os [OF os_ev.safe_collect_each [OF safe_stale_uploads]] no_staging_empty]])
      (auto intro: kept_intros)
  have expire: "kept (guarded D P) (fs_guard D P A) (try_each expire_upload stale)"
    if "list_all (\<lambda>(r, dir, _). \<exists>rel. repo_rel r = Inr rel \<and> dir = rel @ [''uploads'']) stale" for stale
    by (rule fs_gd.kept_try_each) (use that in \<open>auto simp: list_all_iff intro!: guard_expire_upload [OF w _ A]\<close>)
  have found: "kept (guarded D P) (fs_guard D P A) (on_os discover_repos)"
    by (intro guard_of_kept kept_intros kept_discover_repos)
  show ?thesis
    unfolding sweep_stale_uploads_def
    by (intro fs_gd.kept_and_do fs_gd.kept_gets found fs_gd.safe_and_do [OF stale] fs_gd.kept_try_each guard_expire_pending expire)
qed

lemma guard_sweep:
  assumes "world D P" "sweepable D P A" "\<And>repo upload p. upload_rel repo upload = Inr p \<Longrightarrow> p \<in> A"
  shows "kept (guarded D P) (fs_guard D P A) (sweep_at D now)"
  unfolding sweep_at_def
  by (intro fs_gd.kept_and_do fs_gd.kept_gets kept_if fs_gd.kept_ret fs_gd.kept_try_each guard_sweep_one guard_sweep_stale assms)

section \<open>Start\<close>

lemma fold_meta_kept: "(\<And>x m. P m \<Longrightarrow> P (f x m)) \<Longrightarrow> P m \<Longrightarrow> P (fold f xs m)"
  by (induction xs arbitrary: m) auto

lemma kept_meta_update:
  assumes "\<And>m. P m \<Longrightarrow> P (f m)"
  shows "kept (base_inv D) (fs_ext D P A) (modify (\<lambda>s. s\<lparr>fs_meta := f (fs_meta s)\<rparr>))"
  by (rule fs_ev.kept_modify) (auto simp: fs_ext_def base_inv_def hashed_def assms intro: evolves_refl)

lemma kept_unlinkat: "d @ [c] \<in> A \<Longrightarrow> kept (os_inv H) (evolves H A) (unlinkat d c)"
  by (rule os_safeI, rule wp_unlinkat [OF evolves_refl]) (auto simp: removable_def)

lemma orphan_not_cas: "prefix ''.index.json.'' name \<Longrightarrow> cas_digest (d @ [name]) = None"
  by (rule cas_digest_no_hex) (auto simp: prefix_def not_lower_hex)

lemma kept_sweep_orphans:
  assumes "{p. cas_digest p = None} \<subseteq> A"
  shows "kept (os_inv H) (evolves H A) (sweep_index_tmp_orphans repo)"
  unfolding sweep_index_tmp_orphans_def
  by (intro kept_intros os_ev.kept_try_each kept_is_file_at kept_unlinkat) (use assms orphan_not_cas in auto)

lemma index_not_cas: "last p = ''index.json'' \<Longrightarrow> cas_digest p = None"
  by (cases p rule: rev_cases) (auto simp: cas_digest_no_hex, simp add: cas_digest_def)

lemma kept_recover:
  assumes w: "world D P" and A: "{p. cas_digest p = None} \<subseteq> A"
  shows "kept (base_inv D) (fs_ext D P A) (recover_store D)"
proof -
  have warm: "P (fold (warm_entry D repo) xs m)" if "P m" for repo xs m
    by (rule fold_meta_kept [where P = P, OF _ that]) (auto simp: warm_entry_def intro: worldD(5) [OF w] split: option.splits)
  have foreign: "P (import_foreign_tags (dp_meta D) repo v m)" if "P m" for repo v m
    unfolding import_foreign_tags_def
    by (rule fold_meta_kept [where P = P, OF _ that]) (auto simp: import_tag_def intro: worldD(5) [OF w] split: option.splits)
  have flush: "kept (base_inv D) (fs_ext D P A) (flush_dirty D)"
    by (rule kept_flush_dirty [OF w]) (use A index_not_cas in auto)
  show ?thesis
    unfolding recover_store_def warm_referrers_from_layout_def reconcile_index_json_def reconcile_repo_def reconcile_known_def
    by (intro kept_intros fs_ev.kept_try_each kept_read_index_beneath kept_discover_repos kept_sweep_orphans kept_meta_update
        warm foreign flush A)
qed

lemma base_inv_new:
  assumes "deps_ok D" "os_inv (dp_ext D) t"
  shows "base_inv D (fs_new D cfg q m t)"
  using assms cache_inv_new [of "dp_lru D"]
  by (auto simp: base_inv_def fs_new_def cache_good_def deps_ok_def cache_with_limits_def lru_ok_def)

lemma kept_seed_from_cas: "kept (base_inv D) (fs_ext D P A) (seed_from_cas D)"
  unfolding seed_from_cas_def seed_blob_def
  by (intro kept_intros fs_ev.kept_try_each kept_for_each_cas_blob kept_discover_repos os_ev.kept_collect_each kept_count_uploads)
    auto

end
