(* ===== verification/Fs_History.thy ===== *)
theory Fs_History
  imports Fs_Sweep
begin

text \<open>
  Histories of the filesystem store: a start on a root directory followed by any sequence of storage
  operations, index writes, consistency checks, sweeps and the passing of time. The failures of system
  calls are the schedule of the system state, so a theorem about all histories covers every pattern of
  failing calls.
\<close>

section \<open>Events\<close>

datatype event =
    Ev_Blob_Size string digest
  | Ev_Blob_Exists string digest
  | Ev_Read_Blob string digest
  | Ev_Open_Blob string digest
  | Ev_Begin_Upload string
  | Ev_Append_Upload string string byte_stream "u64 option" u64
  | Ev_Upload_Size string string
  | Ev_Abort_Upload string string
  | Ev_Mount_Blob string string digest
  | Ev_Finish_Upload string string digest u64 byte_stream u64
  | Ev_Put_Blob string digest bytes
  | Ev_Delete_Blob string digest
  | Ev_Put_Manifest string "string option" digest string bytes manifest_links
  | Ev_Get_Manifest string string
  | Ev_Delete_Manifest string digest
  | Ev_List_Tags string "string option" nat
  | Ev_List_Referrers string digest "string option" "string option" nat
  | Ev_Flush
  | Ev_Start_Gc
  | Ev_Sweep nat
  | Ev_Tick nat

text \<open>A value of the type \<open>Digest\<close> is made by the parser or by hashing.\<close>

fun event_ok :: "event \<Rightarrow> bool" where
  "event_ok (Ev_Blob_Size _ d) = digest_wf d"
| "event_ok (Ev_Blob_Exists _ d) = digest_wf d"
| "event_ok (Ev_Read_Blob _ d) = digest_wf d"
| "event_ok (Ev_Open_Blob _ d) = digest_wf d"
| "event_ok (Ev_Mount_Blob _ _ d) = digest_wf d"
| "event_ok (Ev_Finish_Upload _ _ d _ _ _) = digest_wf d"
| "event_ok (Ev_Put_Blob _ d _) = digest_wf d"
| "event_ok (Ev_Delete_Blob _ d) = digest_wf d"
| "event_ok (Ev_Put_Manifest _ _ d _ _ _) = digest_wf d"
| "event_ok (Ev_Delete_Manifest _ d) = digest_wf d"
| "event_ok (Ev_List_Referrers _ d _ _ _) = digest_wf d"
| "event_ok _ = True"

definition silent :: "('s, unit, unit) act \<Rightarrow> 's \<Rightarrow> 's" where
  "silent m s = snd (m s)"

fun run_event :: "('x, 'm, 'f, 'l) deps \<Rightarrow> event \<Rightarrow> ('m, 'f, 'l) fs_store \<Rightarrow> ('m, 'f, 'l) fs_store" where
  "run_event D (Ev_Blob_Size repo d) s = snd (blob_size (fs_storage D) repo d s)"
| "run_event D (Ev_Blob_Exists repo d) s = snd (blob_exists (fs_storage D) repo d s)"
| "run_event D (Ev_Read_Blob repo d) s = snd (read_blob (fs_storage D) repo d s)"
| "run_event D (Ev_Open_Blob repo d) s = snd (open_blob (fs_storage D) repo d s)"
| "run_event D (Ev_Begin_Upload repo) s = snd (begin_upload (fs_storage D) repo s)"
| "run_event D (Ev_Append_Upload repo upload body offset limit) s = snd (append_upload (fs_storage D) repo upload body offset limit s)"
| "run_event D (Ev_Upload_Size repo upload) s = snd (upload_size (fs_storage D) repo upload s)"
| "run_event D (Ev_Abort_Upload repo upload) s = snd (abort_upload (fs_storage D) repo upload s)"
| "run_event D (Ev_Mount_Blob from_repo to_repo d) s = snd (mount_blob (fs_storage D) from_repo to_repo d s)"
| "run_event D (Ev_Finish_Upload repo upload d max_size body limit) s = snd (finish_upload (fs_storage D) repo upload d max_size body limit s)"
| "run_event D (Ev_Put_Blob repo d data) s = snd (put_blob (fs_storage D) repo d data s)"
| "run_event D (Ev_Delete_Blob repo d) s = snd (delete_blob (fs_storage D) repo d s)"
| "run_event D (Ev_Put_Manifest repo tag d mt data links) s = snd (put_manifest (fs_storage D) repo tag d mt data links s)"
| "run_event D (Ev_Get_Manifest repo reference) s = snd (get_manifest (fs_storage D) repo reference s)"
| "run_event D (Ev_Delete_Manifest repo d) s = snd (delete_manifest (fs_storage D) repo d s)"
| "run_event D (Ev_List_Tags repo last_seen limit) s = snd (list_tags (fs_storage D) repo last_seen limit s)"
| "run_event D (Ev_List_Referrers repo d artifact_type last_seen limit) s =
     snd (list_referrers (fs_storage D) repo d artifact_type last_seen limit s)"
| "run_event D Ev_Flush s = silent (flush_dirty D) s"
| "run_event D Ev_Start_Gc s = silent (start_gc D) s"
| "run_event D (Ev_Sweep now) s = silent (sweep_at D now) s"
| "run_event D (Ev_Tick n) s = s\<lparr>fs_os := (fs_os s)\<lparr>os_time := os_time (fs_os s) + n\<rparr>\<rparr>"

text \<open>The store as the program starts it: opened, then recovered.\<close>

definition boot :: "('x, 'm, 'f, 'l) deps \<Rightarrow> store_config \<Rightarrow> quota \<Rightarrow> 'm \<Rightarrow> os \<Rightarrow> ('m, 'f, 'l) fs_store" where
  "boot D cfg q m t = silent (recover_store D) (fs_open D cfg q m t)"

text \<open>A restart keeps the disk; the metadata engine is opened again.\<close>

inductive reach :: "('x, 'm, 'f, 'l) deps \<Rightarrow> ('m, 'f, 'l) fs_store \<Rightarrow> bool" for D where
  start: "os_inv (dp_ext D) t \<Longrightarrow> reach D (boot D cfg q m t)"
| step: "reach D s \<Longrightarrow> event_ok ev \<Longrightarrow> reach D (run_event D ev s)"
| restart: "reach D s \<Longrightarrow> reach D (boot D cfg q m (fs_os s))"

section \<open>Every event keeps the invariant\<close>

text \<open>What an event may take away of the files and of the metadata.\<close>

fun event_within :: "('x, 'm, 'f, 'l) deps \<Rightarrow> ('m \<Rightarrow> bool) \<Rightarrow> path set \<Rightarrow> event \<Rightarrow> bool" where
  "event_within D P A (Ev_Delete_Blob repo d) \<longleftrightarrow> (\<forall>p. blob_rel repo d = Inr p \<longrightarrow> p \<in> A)"
| "event_within D P A (Ev_Delete_Manifest repo d) \<longleftrightarrow> (\<forall>p. blob_rel repo d = Inr p \<longrightarrow> p \<in> A)
     \<and> (\<forall>m. P m \<longrightarrow> P (snd (mt_apply (dp_meta D) (DeleteManifest repo (digest_display d)) m)))"
| "event_within D P A _ \<longleftrightarrow> True"

lemma safe_snd: "safe I E m R \<Longrightarrow> I s \<Longrightarrow> E s (snd (m s))"
  by (auto simp: safe_def wp_def)

lemma guard_next_run:
  "safe (fs_inv D) (fs_next D P A) m R \<Longrightarrow> kept gc_canon gc_ext m \<Longrightarrow> guarded D P s \<Longrightarrow> fs_guard D P A s (snd (m s))"
  by (rule safe_snd [OF guard_of_next])

lemma guard_kept_run:
  "kept (base_inv D) (fs_ext D P {}) m \<Longrightarrow> kept gc_canon gc_ext m \<Longrightarrow> guarded D P s \<Longrightarrow> fs_guard D P A s (snd (m s))"
  by (rule safe_snd [OF guard_of_kept])

lemma guard_cas_run:
  assumes "\<And>B. (\<forall>p. blob_rel repo d = Inr p \<longrightarrow> p \<in> B) \<Longrightarrow> kept (base_inv D) (fs_ext D P B) m" "kept gc_canon gc_ext m"
    and "digest_wf d" "\<forall>p. blob_rel repo d = Inr p \<longrightarrow> p \<in> A" "guarded D P s"
  shows "fs_guard D P A s (snd (m s))"
proof -
  let ?B = "{p. blob_rel repo d = Inr p}"
  have "no_staging ?B"
    by (rule no_staging_subset [OF no_staging_cas]) (use cas_digest_blob_rel [OF _ assms(3)] in auto)
  then show ?thesis
    using assms(1) [of ?B] assms(2,4,5) by (intro guard_next_run [OF next_mono [OF next_of_safe]]) auto
qed

lemma run_event_guard:
  assumes w: "world D P" and s: "guarded D P s" and ev: "event_ok ev" "event_within D P A ev"
    and A: "sweepable D P A" "{p. cas_digest p = None} \<subseteq> A"
  shows "fs_guard D P A s (run_event D ev s)"
proof -
  have up: "p \<in> A" if "upload_rel repo upload = Inr p" for repo upload p using upload_not_cas [OF that] A(2) by auto
  have idx: "{p. last p = ''index.json''} \<subseteq> A" using A(2) index_not_cas by auto
  show ?thesis
  proof (cases ev)
    case (Ev_Delete_Blob repo d)
    then show ?thesis
      using ev s by (auto simp: fs_storage_def intro!: guard_cas_run [where repo = repo and d = d] kept_delete_blob gc_delete_blob w)
  next
    case (Ev_Delete_Manifest repo d)
    then show ?thesis
      using ev s by (auto simp: fs_storage_def intro!: guard_cas_run [where repo = repo and d = d] kept_delete_manifest gc_delete_manifest w)
  next
    case (Ev_Tick n)
    have "same (fs_os s) ((fs_os s)\<lparr>os_time := k\<rparr>)" for k by (auto simp: same_def node_at_def fun_eq_iff)
    moreover have "os_inv (dp_ext D) (fs_os s)" using s by (simp add: fs_inv_def base_inv_def)
    ultimately have "evolves (dp_ext D) A (fs_os s) ((fs_os s)\<lparr>os_time := k\<rparr>)"
        "file_at ((fs_os s)\<lparr>os_time := k\<rparr>) = file_at (fs_os s)" for k
      by (blast intro: same_evolves evolves_refl, blast intro: same_file_at)
    note time = this
    have "staged_ok D ((fs_os s)\<lparr>os_time := k\<rparr>) = staged_ok D (fs_os s)" for k
      by (simp add: staged_ok_def time(2) fun_eq_iff)
    then show ?thesis
      using s Ev_Tick time(1) evolves_inv [OF time(1)] unfolding fs_guard_def fs_next_def fs_inv_def base_inv_def hashed_def by simp
  next
    case (Ev_Sweep now)
    then show ?thesis unfolding Ev_Sweep run_event.simps silent_def by (intro safe_snd [OF guard_sweep [OF w A(1) up] s])
  next
    case Ev_Flush
    then show ?thesis using s next_flush_dirty [OF w idx] by (auto simp: silent_def intro!: guard_next_run gc_flush)
  next
    case Ev_Start_Gc
    then show ?thesis using s kept_start_gc [OF w] by (auto simp: silent_def intro!: guard_kept_run gc_start_gc)
  next
    case (Ev_Append_Upload repo upload body offset limit)
    then show ?thesis using s next_append [OF w up] by (auto simp: fs_storage_def intro!: guard_next_run gc_append)
  next
    case (Ev_Abort_Upload repo upload)
    then show ?thesis using s next_abort [OF w up] by (auto simp: fs_storage_def intro!: guard_next_run gc_uploads)
  next
    case (Ev_Finish_Upload repo upload d max_size body limit)
    then show ?thesis using s ev next_finish [OF w _ up] by (auto simp: fs_storage_def intro!: guard_next_run gc_finish)
  next
    case (Ev_Read_Blob repo d)
    then show ?thesis
      using s ev fs_ev.safe_kept [OF safe_read_blob [OF w]] by (auto simp: fs_storage_def intro!: guard_kept_run gc_queries gc_manifest_queries)
  next
    case (Ev_Open_Blob repo d)
    then show ?thesis
      using s ev fs_ev.safe_kept [OF safe_open_blob] by (auto simp: fs_storage_def intro!: guard_kept_run gc_queries gc_manifest_queries)
  next
    case (Ev_Get_Manifest repo reference)
    then show ?thesis
      using s fs_ev.safe_kept [OF safe_get_manifest [OF w]] by (auto simp: fs_storage_def intro!: guard_kept_run gc_queries gc_manifest_queries)
  qed (use s ev in \<open>auto simp: fs_storage_def intro!: guard_kept_run kept_blob_queries kept_begin_upload kept_mount_blob
      kept_put_blob kept_put_manifest kept_lists gc_queries gc_uploads gc_put_blob gc_put_manifest gc_manifest_queries w\<close>)
qed

lemma boot_keeps:
  assumes w: "world D P" and t: "os_inv (dp_ext D) t"
  shows "evolves (dp_ext D) {p. cas_digest p = None} t (fs_os (boot D cfg q m t))"
    and "fs_inv D (boot D cfg q m t)" and "P m \<Longrightarrow> P (fs_meta (boot D cfg q m t))" and "gc_canon (boot D cfg q m t)"
proof -
  let ?A = "{p. cas_digest p = None}" and ?n = "fs_new D cfg q m t" and ?o = "fs_open D cfg q m t" and ?b = "boot D cfg q m t"
  have n: "base_inv D ?n" by (rule base_inv_new [OF worldD(1) [OF w] t])
  have "fs_ext D P ?A ?n ?o"
    unfolding fs_open_def by (rule safe_snd [OF kept_seed_from_cas n])
  moreover have "fs_ext D P ?A ?o ?b"
    unfolding boot_def silent_def
    by (rule safe_snd [OF kept_recover [OF w subset_refl]]) (use calculation in \<open>simp add: fs_ext_def\<close>)
  ultimately have ext: "fs_ext D P ?A ?n ?b" by (rule fs_ev.trans)
  show "evolves (dp_ext D) ?A t (fs_os ?b)" "P m \<Longrightarrow> P (fs_meta ?b)"
    using ext by (simp_all add: fs_ext_def fs_new_def)
  have "\<not> hashed ?n k h" for k h by (simp add: hashed_def fs_new_def)
  then have "\<not> hashed ?b k h" for k h using ext unfolding fs_ext_def by blast
  then show "fs_inv D ?b" using ext by (simp add: fs_inv_def fs_ext_def)
  have "gc_canon ?n" by (simp add: fs_new_def)
  then have "gc_canon ?o" using safe_snd [OF gc_seed, of ?n] unfolding fs_open_def gc_ext_def by blast
  then show "gc_canon ?b" using safe_snd [OF gc_recover, of ?o] unfolding boot_def silent_def gc_ext_def by blast
qed

lemma world_True: "deps_ok D \<Longrightarrow> world D (\<lambda>_. True)"
  by (simp add: world_def meta_kept_True)

lemma run_event_inv:
  assumes "deps_ok D" "fs_inv D s \<and> gc_canon s" "event_ok ev"
  shows "fs_inv D (run_event D ev s) \<and> gc_canon (run_event D ev s)"
proof -
  have "event_within D (\<lambda>_. True) UNIV ev" by (cases ev) auto
  then have "fs_guard D (\<lambda>_. True) UNIV s (run_event D ev s)"
    using assms by (intro run_event_guard world_True) (auto simp: sweepable_def)
  then show ?thesis by (simp add: fs_guard_def fs_next_def)
qed

lemma reach_inv:
  assumes "reach D s" "deps_ok D"
  shows "fs_inv D s \<and> gc_canon s"
  using assms(1)
proof induction
  case (start t cfg q m)
  then show ?case using boot_keeps(2,4) [OF world_True [OF assms(2)]] by blast
next
  case (step s ev)
  then show ?case by (intro run_event_inv assms(2))
next
  case (restart s cfg q m)
  then have "os_inv (dp_ext D) (fs_os s)" by (simp add: fs_inv_def base_inv_def)
  then show ?case using boot_keeps(2,4) [OF world_True [OF assms(2)]] by blast
qed

end
