(* ===== verification/Fs_Calm.thy ===== *)
theory Fs_Calm
  imports Fs_History
begin

text \<open>
  Runs in which no system call fails any more: what is on disk can be opened, examined and removed.
\<close>

definition calm :: "os \<Rightarrow> bool" where
  "calm t \<longleftrightarrow> os_faults t = []"

lemma sys_call_calm: "calm t \<Longrightarrow> sys_call m t = m t"
  by (simp add: calm_def sys_call_def take_fault_def)

lemma calm_updates [simp]:
  "calm (del_node p t) = calm t" "calm (set_node p n t) = calm t" "calm (set_data i b t) = calm t"
  by (simp_all add: calm_def del_node_def set_node_def set_data_def)

section \<open>Paths\<close>

lemma in_dirs_prefix:
  assumes "in_dirs t" "node_at t (p @ q) \<noteq> None" "q \<noteq> []"
  shows "node_at t p = Some Dir"
  using assms(2,3)
proof (induction q rule: rev_induct)
  case (snoc c q)
  then have "node_at t (p @ q) = Some Dir" using assms(1) unfolding in_dirs_def by (metis append_assoc)
  then show ?case using snoc.IH by (cases "q = []") auto
qed simp

lemma resolve_parents_calm:
  "in_dirs t \<Longrightarrow> node_at t (d @ cs @ [c]) \<noteq> None \<Longrightarrow> resolve_parents t d cs = None"
proof (induction cs arbitrary: d)
  case (Cons x cs)
  have "node_at t (d @ [x]) = Some Dir" using in_dirs_prefix [OF Cons.prems(1), of "d @ [x]" "cs @ [c]"] Cons.prems(2) by simp
  then show ?case using Cons.IH [of "d @ [x]"] Cons.prems by simp
qed simp

lemma openat2_calm:
  assumes "calm t" "in_dirs t" "p \<noteq> []" "node_at t p = Some n" "n \<noteq> Symlink"
  shows "openat2 [] p mode t = open_node mode p t"
proof -
  have "resolve_parents t [] (butlast p) = None"
    using resolve_parents_calm [OF assms(2), of "[]" "butlast p" "last p"] assms(3,4) by simp
  then show ?thesis using assms by (simp add: openat2_def sys_call_calm)
qed

lemmas io_calm = io_def err_map_def lift_res_def observe_def and_do_def ret_def fail_def sys_call_calm

lemma open_root_calm: "calm t \<Longrightarrow> open_root t = (Inr [], t)"
  by (simp add: open_root_def io_calm)

lemma open_beneath_calm:
  assumes "calm t" "in_dirs t" "p \<noteq> []" "node_at t p = Some (Reg i)"
  shows "open_beneath p t = (Inr i, t)"
proof -
  have "openat2_beneath [] p O_Read t = (Inr (Some (Inr (File_Fd i))), t)"
    using openat2_calm [OF assms] assms(3,4) by (simp add: openat2_beneath_def io_calm open_node_def)
  moreover have "regular_file (File_Fd i) t = (Inr i, t)"
    using assms(1) by (simp add: regular_file_def io_calm fstat_def stat_of_def)
  ultimately show ?thesis
    using open_root_calm [OF assms(1)] by (simp add: open_beneath_def resolve_beneath_def and_do_def observe_def)
qed

lemma dir_beneath_calm:
  assumes "calm t" "in_dirs t" "p \<noteq> []" "node_at t p = Some Dir"
  shows "dir_beneath p create t = (Inr p, t)"
proof -
  have "openat2_beneath [] p O_Directory t = (Inr (Some (Inr (Dir_Fd p))), t)"
    using openat2_calm [OF assms] assms(3,4) by (simp add: openat2_beneath_def io_calm open_node_def)
  then show ?thesis
    using open_root_calm [OF assms(1)] by (simp add: dir_beneath_def and_do_def observe_def fd_path_def ret_def)
qed

lemma stat_walk_calm:
  assumes "calm t" "in_dirs t"
  shows "node_at t (d @ cs @ [c]) = Some n \<Longrightarrow> stat_walk d cs c t = (Inr (Some (st_is_file (stat_of t n), st_size (stat_of t n))), t)"
proof (induction cs arbitrary: d)
  case Nil
  then show ?case using assms by (simp add: statat_def io_calm)
next
  case (Cons x cs)
  have "node_at t (d @ [x]) = Some Dir" using in_dirs_prefix [OF assms(2), of "d @ [x]" "cs @ [c]"] Cons.prems by simp
  then show ?case using Cons.IH [of "d @ [x]"] Cons.prems assms by (simp add: openat_def io_calm open_node_def fd_path_def)
qed

lemma stat_beneath_calm:
  assumes "calm t" "in_dirs t" "node_at t (d @ [c]) = Some (Reg i)"
  shows "stat_beneath (d @ [c]) t = (Inr (Some (True, length (os_data t i))), t)"
  using stat_walk_calm [OF assms(1,2), of "[]" d c "Reg i"] assms(3) open_root_calm [OF assms(1)]
  by (simp add: stat_beneath_def and_do_def observe_def stat_of_def)

lemma unlink_beneath_calm:
  assumes "calm t" "in_dirs t" "d \<noteq> []" "node_at t (d @ [c]) = Some (Reg i)"
  shows "unlink_beneath d c t = (Inr (), del_node (d @ [c]) t)"
proof -
  have "node_at t d = Some Dir" using in_dirs_prefix [OF assms(2), of d "[c]"] assms(4) by simp
  then show ?thesis
    using dir_beneath_calm [OF assms(1-3)] assms by (simp add: unlink_beneath_def and_do_def observe_def io_calm unlinkat_def)
qed

section \<open>Reading a blob that is there\<close>

lemma base_inv_dirs: "base_inv D s \<Longrightarrow> in_dirs (fs_os s)"
  using inv_in_dirs unfolding base_inv_def by blast

lemma read_all_calm:
  assumes s: "base_inv D s" "calm (fs_os s)" and d: "blob_rel repo d = Inr p" "blob_file s p" and s1: "fs_os s1 = fs_os s"
  shows "\<exists>b. read_all_beneath p s1 = (Inr b, s1)"
proof -
  have p: "p \<noteq> []" using blob_rel_Inr [OF d(1)] by auto
  obtain j b where f: "node_at (fs_os s) p = Some (Reg j)" "os_data (fs_os s) j = b"
    using d(2) by (auto simp: blob_file_def file_at_Some)
  have "open_beneath p (fs_os s1) = (Inr j, fs_os s1)"
    using open_beneath_calm [OF s(2) base_inv_dirs [OF s(1)] p f(1)] s1 by simp
  then have "read_all_beneath p s1 = (Inr b, s1)"
    using s(2) s1 f(2)
    by (simp add: read_all_beneath_def on_os_def on_part_def and_do_def observe_def err_map_def lift_res_def ret_def io_def read_to_end_def sys_call_calm)
  then show ?thesis by blast
qed

lemma cache_get_calm:
  obtains c s1 where "fs_cache_get D repo ds s = (Inr c, s1)" "fs_os s1 = fs_os s" "fs_presence s1 = fs_presence s"
  by (cases "blob_cache_get (dp_lru D) repo ds (fs_cache s)") (auto simp: fs_cache_get_def)

lemmas read_runs = and_do_def observe_def present_def gets_def lift_res_def ret_def fs_cache_put_def modify_def

lemma read_blob_calm:
  assumes s: "base_inv D s" "calm (fs_os s)" and d: "blob_rel repo d = Inr p" "blob_file s p"
    and present: "maybe_present (dp_filter D) repo (digest_display d) (fs_presence s)"
  shows "\<exists>b s'. fs_read_blob D repo d s = (Inr b, s')"
proof -
  obtain c s1 where c: "fs_cache_get D repo (digest_display d) s = (Inr c :: storage_error + bytes option, s1)"
      "fs_os s1 = fs_os s" "fs_presence s1 = fs_presence s"
    by (rule cache_get_calm)
  obtain b where "read_all_beneath p s1 = (Inr b, s1)" using read_all_calm [OF s d c(2)] by blast
  then show ?thesis
    using c present d(1) by (cases c) (auto simp: fs_read_blob_def read_runs split: option.splits)
qed

lemma get_manifest_calm:
  assumes s: "base_inv D s" "calm (fs_os s)" and d: "blob_rel repo d = Inr p" "blob_file s p"
    and r: "manifest_reference D repo reference s = (Inr (d, mt), s)"
  shows "\<exists>b s'. fs_get_manifest D repo reference s = (Inr \<lparr>mr_digest = d, mr_media_type = mt, mr_bytes = b\<rparr>, s')"
proof -
  obtain c s1 where c: "fs_cache_get D repo (digest_display d) s = (Inr c :: storage_error + bytes option, s1)"
      "fs_os s1 = fs_os s" "fs_presence s1 = fs_presence s"
    by (rule cache_get_calm)
  obtain b where "read_all_beneath p s1 = (Inr b, s1)" using read_all_calm [OF s d c(2)] by blast
  then show ?thesis
    using c r d(1) by (cases c) (auto simp: fs_get_manifest_def read_runs split: option.splits)
qed

end
