(* ===== verification/Fs_Roundtrip.thy ===== *)
theory Fs_Roundtrip
  imports Fs_Calm
begin

text \<open>
  What an acknowledged write leaves behind: the blob is on disk under its digest and the presence
  filter holds it, so that it can be read back.
\<close>

context evolution
begin

lemma wp_then:
  assumes "safe I E m R" "E s t" "\<And>e t'. E s t' \<Longrightarrow> Q (Inl e) t'" "\<And>x t'. E s t' \<Longrightarrow> R x \<Longrightarrow> wp (f x) Q t'"
  shows "wp (and_do m f) Q t"
  unfolding wp_and_do by (rule wp_mono [OF safe_wp [OF assms(1,2)]]) (use assms(3,4) in \<open>auto split: sum.splits\<close>)

lemma wp_observed:
  assumes "safe I E m R" "E s t" "\<And>r t'. E s t' \<Longrightarrow> (\<forall>x. r = Inr x \<longrightarrow> R x) \<Longrightarrow> wp (f r) Q t'"
  shows "wp (observe m f) Q t"
  unfolding wp_observe by (rule wp_mono [OF safe_wp [OF assms(1,2)]]) (use assms(3) in blast)

lemma wp_kept:
  assumes "kept I E m" "E s t" "\<And>r t'. E s t' \<Longrightarrow> Q r t'"
  shows "wp m Q t"
  by (rule wp_mono [OF safe_wp [OF assms(1,2)]]) (use assms(3) in blast)

end

lemma fs_ext_empty_trans: "fs_ext D P {} s t \<Longrightarrow> fs_ext D P A t u \<Longrightarrow> fs_ext D P A s u"
  using fs_ev.trans fs_ext_mono by blast

lemma wp_enter:
  assumes w: "world D P" and s: "base_inv D s" and d: "blob_rel repo d = Inr q" "blob_file s q"
    and Q: "\<And>s'. fs_ext D P {} s s' \<Longrightarrow> entered D s' repo d \<Longrightarrow> Q (Inr ()) s'"
  shows "wp (and_do (blob_entered D repo (digest_display d) ck) (\<lambda>_. admit_release repo (digest_display d))) Q s"
proof -
  let ?m = "and_do (blob_entered D repo (digest_display d) ck) (\<lambda>_. admit_release repo (digest_display d))"
  have "kept (base_inv D) (fs_ext D P {}) ?m" by (intro kept_intros w)
  then have "wp ?m (\<lambda>r s'. fs_ext D P {} s s' \<and> (\<forall>x. r = Inr x \<longrightarrow> True)) s"
    by (rule fs_ev.safe_wp [OF _ fs_ev.refl [OF s]])
  moreover have "wp ?m (\<lambda>r s'. r = Inr ()) s"
    by (simp add: wp_simps blob_entered_def admit_release_def)
  ultimately have "wp ?m (\<lambda>r s'. ((fs_ext D P {} s s' \<and> (\<forall>x. r = Inr x \<longrightarrow> True)) \<and> r = Inr ())
      \<and> (\<exists>pr. fs_presence s' = presence_insert (dp_filter D) repo (digest_display d) pr)) s"
    using wp_blob_entered_presence [of D repo "digest_display d" ck s] by (simp add: wp_conj)
  then show ?thesis
  proof (rule wp_mono, goal_cases)
    case (1 r s')
    then have "entered D s' repo d" using blob_file_ext [OF _ _ d(2)] d(1) unfolding entered_def by blast
    then show ?case using 1 Q by auto
  qed
qed

text \<open>The bytes get their name, by a link to a copy or by a new file.\<close>

lemma wp_publish_or:
  assumes t: "base_inv D t" and dl: "blob_dir_rel repo d = Inr (dir, leaf)" and d: "digest_wf d" "digest_of (dp_ext D) data (algorithm d) = d"
    and linked: "linked \<Longrightarrow> blob_file t (dir @ [leaf])"
    and K: "\<And>r t'. fs_ext D P {} t t' \<Longrightarrow> (is_ok r \<longrightarrow> blob_file t' (dir @ [leaf])) \<Longrightarrow> wp (K r) Q t'"
  shows "wp (observe (if linked then ret () else on_os (publish_bytes dir leaf data commit)) K) Q t"
proof (cases linked)
  case True
  then show ?thesis using K [OF fs_ev.refl [OF t]] linked by (simp add: wp_simps)
next
  case False
  have inv: "os_inv (dp_ext D) (fs_os t)" using t by (simp add: base_inv_def)
  have "wp (publish_bytes dir leaf data commit) (\<lambda>r t'. wp (K r) Q (t\<lparr>fs_os := t'\<rparr>)) (fs_os t)"
  proof (rule wp_publish_bytes [OF evolves_refl [OF inv, of "{}"] inv], goal_cases)
    case 1
    show ?case using blob_dir_rel_cas(2) [OF dl d(1)] by simp
  next
    case (2 x)
    then show ?case using blob_dir_rel_cas(1) [OF dl d(1)] d(2) by simp
  next
    case (3 r t')
    show ?case
      by (rule K) (use 3 t in \<open>auto simp: fs_ext_def base_inv_def hashed_def blob_file_def is_ok_def file_at_Some dest: evolves_inv split: sum.splits\<close>)
  qed
  then show ?thesis using False by (simp add: wp_observe on_os_def wp_on_part)
qed

lemma put_blob_enters:
  assumes w: "world D P" and s: "base_inv D s" and d: "digest_wf d"
  shows "wp (fs_put_blob D repo d data) (\<lambda>r s'. fs_ext D P {} s s' \<and> (r = Inr () \<longrightarrow> entered D s' repo d)) s"
    (is "wp _ ?Q s")
proof (cases "digest_of (dp_ext D) data (algorithm d) = d")
  case False
  then show ?thesis by (simp add: fs_put_blob_def Let_def digest_ct_eq_iff wp_fail fs_ev.refl [OF s])
next
  case True
  have failed: "wp (and_do (modify (\<lambda>s. s\<lparr>fs_quota := release repo charged (fs_quota s)\<rparr>)) (\<lambda>_.
          and_do (admit_release repo (digest_display d)) (\<lambda>_. fail (Io e)))) ?Q u" if "fs_ext D P {} s u" for u e charged
    by (rule fs_ev.wp_then [where R = "\<lambda>_. True", OF _ that])
      (auto intro!: kept_intros fs_ev.wp_then [OF kept_locks(2)] simp: wp_fail)
  have body: "wp (and_do (dedupe_link D repo dir leaf (digest_display d)) (\<lambda>linked.
        and_do (gets fs_commit) (\<lambda>commit.
        observe (if linked then ret () else on_os (publish_bytes dir leaf data commit)) (\<lambda>r. case r of
          Inl e \<Rightarrow>
            and_do (modify (\<lambda>s. s\<lparr>fs_quota := release repo charged (fs_quota s)\<rparr>)) (\<lambda>_.
            and_do (admit_release repo (digest_display d)) (\<lambda>_. fail (Io e)))
        | Inr _ \<Rightarrow>
            and_do (blob_entered D repo (digest_display d) ck) (\<lambda>_. admit_release repo (digest_display d)))))) ?Q t"
    if dl: "blob_dir_rel repo d = Inr (dir, leaf)" and t: "fs_ext D P {} s t" for t dir leaf ck charged
    unfolding wp_and_do [where m = "dedupe_link _ _ _ _ _"]
  proof (rule wp_dedupe_link [OF fs_ev.pres [OF t] dl d, where P = P], goal_cases)
    case (1 linked t1)
    have t1: "fs_ext D P {} s t1" by (rule fs_ev.trans [OF t 1(1)])
    have enter: "wp (and_do (blob_entered D repo (digest_display d) ck) (\<lambda>_. admit_release repo (digest_display d))) ?Q u"
      if "fs_ext D P {} s u" "blob_file u (dir @ [leaf])" for u
      by (rule wp_enter [OF w fs_ev.pres [OF that(1)] blob_dir_rel_Inr(1) [OF dl] that(2)]) (use fs_ev.trans [OF that(1)] in auto)
    show ?case
      unfolding sum.case wp_and_do [where m = "gets _"] wp_gets
    proof (rule wp_publish_or [where P = P, OF fs_ev.pres [OF t1] dl d True], goal_cases)
      case (2 r u)
      have u: "fs_ext D P {} s u" by (rule fs_ev.trans [OF t1 2(1)])
      show ?case using failed [OF u] enter [OF u] 2(2) by (cases r) (simp_all add: is_ok_def)
    qed (use 1(2) in simp)
  qed
  show ?thesis
    unfolding fs_put_blob_def Let_def digest_ct_eq_iff True
    by (simp only: simp_thms if_False, rule fs_ev.wp_then [OF kept_layout(1) fs_ev.refl [OF s]])
      (auto simp: wp_and_do [where m = "lift_res _"] wp_lift_res intro!: fs_ev.wp_then [OF kept_locks(1)]
        fs_ev.wp_then [OF kept_admit_blob] body split: sum.splits prod.splits)
qed

section \<open>Manifests\<close>

lemma wp_recheck:
  assumes ev: "evolves H A s0 s"
    and Q: "\<And>l s'. evolves H A s0 s' \<Longrightarrow> (l = Stored None None \<longrightarrow> (\<forall>p\<in>set rels. \<exists>j b. file_at s' p = Some (j, b))) \<Longrightarrow> (\<exists>m e. l = Stored m e) \<Longrightarrow>
        same s s' \<Longrightarrow> Q (Inr l) s'"
  shows "wp (recheck i rels) Q s"
  using assms
proof (induction rels arbitrary: i s Q)
  case Nil
  then show ?case by (simp add: wp_ret)
next
  case (Cons rel rels)
  show ?case
    unfolding recheck.simps wp_observe
  proof (rule wp_stat_beneath [OF Cons.prems(1)], goal_cases)
    case (1 r s1)
    have stop: "Q (Inr (Stored m e)) s1" if "m \<noteq> None \<or> e \<noteq> None" for m e
      by (rule Cons.prems(2) [OF 1(1)]) (use that 1(2) in auto)
    have go: "wp (recheck (Suc i) rels) Q s1" if z: "r = Inr (Some (True, z))" for z
    proof (rule Cons.IH [OF 1(1)], goal_cases)
      case next1: (1 s' l)
      obtain j where "node_at s rel = Some (Reg j)" using 1(3) z by blast
      then have "file_at s' rel = Some (j, os_data s' j)" using 1(2) next1(4) by (simp add: file_at_Some same_def)
      then show ?case using next1 same_trans [OF 1(2)] by (intro Cons.prems(2)) auto
    qed
    show ?case
      using stop go by (auto simp: wp_ret split: sum.splits option.splits prod.splits bool.splits)
  qed
qed

lemma wp_land_manifest:
  assumes s: "base_inv D s" and dl: "blob_dir_rel repo d = Inr (dir, leaf)" and d: "digest_wf d" "digest_of (dp_ext D) data (algorithm d) = d"
    and Q: "\<And>l s'. fs_ext D P {} s s' \<Longrightarrow> (\<forall>m e. l = Stored m e \<longrightarrow> blob_file s' (dir @ [leaf])) \<Longrightarrow>
        (l = Stored None None \<longrightarrow> (\<forall>p\<in>set required. blob_file s' p)) \<Longrightarrow> Q (Inr l) s'"
  shows "wp (land_manifest D repo rel dir leaf (digest_display d) data required) Q s"
  unfolding land_manifest_def
proof (rule fs_ev.wp_observed [where P = P and A = "{}", OF kept_layout(2) fs_ev.refl [OF s]], goal_cases)
  case (1 r t)
  show ?case
  proof (cases r)
    case (Inl e)
    then show ?thesis using Q [OF 1(1)] by (simp add: wp_ret)
  next
    case (Inr charged)
    show ?thesis
      unfolding Inr sum.case wp_and_do [where m = "dedupe_link _ _ _ _ _"]
    proof (rule wp_dedupe_link [OF fs_ev.pres [OF 1(1)] dl d(1), where P = P], goal_cases)
      case next1: (1 linked t1)
      have t1: "fs_ext D P {} s t1" by (rule fs_ev.trans [OF 1(1) next1(1)])
      show ?case
        unfolding sum.case
      proof (rule wp_publish_or [where P = P, OF fs_ev.pres [OF t1] dl d], goal_cases)
        case (2 r u)
        have u: "fs_ext D P {} s u" by (rule fs_ev.trans [OF t1 2(1)])
        show ?case
        proof (cases r)
          case (Inl e)
          then show ?thesis using Q [OF u] by (simp add: wp_ret)
        next
          case (Inr x)
          have inv: "os_inv (dp_ext D) (fs_os u)" using fs_ev.pres [OF u] by (simp add: base_inv_def)
          have f: "blob_file u (dir @ [leaf])" using 2(2) Inr by (simp add: is_ok_def)
          have "wp (recheck 0 required) (\<lambda>r t'. Q r (u\<lparr>fs_os := t'\<rparr>)) (fs_os u)"
          proof (rule wp_recheck [OF evolves_refl [OF inv, of "{}"]], goal_cases)
            case (1 l t')
            have v: "fs_ext D P {} u (u\<lparr>fs_os := t'\<rparr>)"
              using 1(1) fs_ev.pres [OF u] by (auto simp: fs_ext_def base_inv_def hashed_def dest: evolves_inv)
            show ?case
              by (rule Q [OF fs_ev.trans [OF u v]]) (use 1(2) blob_file_ext [OF v _ f] in \<open>auto simp: blob_file_def\<close>)
          qed
          then show ?thesis unfolding Inr by (simp add: on_os_def wp_on_part)
        qed
      qed (use next1(2) in simp)
    qed
  qed
qed

lemma wp_record_manifest:
  "wp (record_manifest D repo tag ds mt refs ref) (\<lambda>r s'. r = Inr () \<longrightarrow>
     mt_apply (dp_meta D) (PutManifest repo ds mt tag refs ref) (fs_meta s) = (Inr (), fs_meta s')) s"
  by (simp add: record_manifest_def apply_meta_def mark_index_dirty_def wp_simps on_meta_def)
    (auto simp: wp_def map_err_def prod_eq_iff modify_def split: sum.splits)

text \<open>What an acknowledged push of a manifest leaves: its bytes, the blobs it requires, and its record
  in the metadata.\<close>

definition recorded :: "('x, 'm, 'f, 'l) deps \<Rightarrow> ('m \<Rightarrow> bool) \<Rightarrow> ('m, 'f, 'l) fs_store \<Rightarrow> string \<Rightarrow> string option \<Rightarrow> digest \<Rightarrow> string
    \<Rightarrow> manifest_links \<Rightarrow> bool" where
  "recorded D P s repo tag d mt links \<longleftrightarrow>
     (\<forall>x\<in>insert d (set (ml_required links)). \<exists>p. blob_rel repo x = Inr p \<and> blob_file s p)
     \<and> (\<exists>m ref. P m \<and> mt_apply (dp_meta D) (PutManifest repo (digest_display d) mt tag (map digest_display (ml_references links)) ref) m
          = (Inr (), fs_meta s))"

lemma collect_results_members: "collect_results f xs = Inr ys \<Longrightarrow> x \<in> set xs \<Longrightarrow> \<exists>y\<in>set ys. f x = Inr y"
  by (auto simp: collect_results_Inr_iff list_all2_conv_all_nth in_set_conv_nth) 

lemma put_manifest_records:
  assumes w: "world D P" and s: "base_inv D s" "P (fs_meta s)" and d: "digest_wf d"
  shows "wp (fs_put_manifest D repo tag d mt data links) (\<lambda>r s'. fs_ext D P {} s s' \<and> (r = Inr () \<longrightarrow> recorded D P s' repo tag d mt links)) s"
    (is "wp _ ?Q s")
proof (cases "digest_of (dp_ext D) data (algorithm d) = d")
  case False
  then show ?thesis
    by (auto simp: fs_put_manifest_def Let_def digest_ct_eq_iff wp_fail wp_and_do wp_lift_res fs_ev.refl [OF s(1)] split: sum.splits)
next
  case True
  have fin: "wp (record_manifest D repo tag (digest_display d) mt (map digest_display (ml_references links)) ref) ?Q t"
    if t: "fs_ext D P {} s t" and f: "\<forall>x\<in>insert d (set (ml_required links)). \<exists>p. blob_rel repo x = Inr p \<and> blob_file t p" for t ref
  proof -
    let ?m = "record_manifest D repo tag (digest_display d) mt (map digest_display (ml_references links)) ref"
    have "wp ?m (\<lambda>r s'. fs_ext D P {} t s' \<and> (\<forall>x. r = Inr x \<longrightarrow> True)) t"
      by (rule fs_ev.safe_wp [OF kept_record_manifest [OF w] fs_ev.refl [OF fs_ev.pres [OF t]]])
    then have "wp ?m (\<lambda>r s'. (fs_ext D P {} t s' \<and> (\<forall>x. r = Inr x \<longrightarrow> True)) \<and> (r = Inr () \<longrightarrow>
        mt_apply (dp_meta D) (PutManifest repo (digest_display d) mt tag (map digest_display (ml_references links)) ref) (fs_meta t)
          = (Inr (), fs_meta s'))) t"
      using wp_record_manifest by (simp add: wp_conj)
    moreover have "P (fs_meta t)" using t s(2) by (simp add: fs_ext_def)
    moreover have "\<forall>x\<in>insert d (set (ml_required links)). \<exists>p. blob_rel repo x = Inr p \<and> blob_file u p" if "fs_ext D P {} t u" for u
      using f blob_file_ext [OF that] by blast
    ultimately show ?thesis
      by (elim wp_mono) (auto simp: recorded_def intro: fs_ev.trans [OF t])
  qed
  have landed: "wp (land_manifest D repo rel dir leaf (digest_display d) data required) (\<lambda>r s'. case r of Inl e \<Rightarrow> ?Q (Inl e) s'
      | Inr l \<Rightarrow> wp (case l of
          MRejected e \<Rightarrow> fail e
        | MFailed charged e \<Rightarrow> and_do (modify (\<lambda>s. s\<lparr>fs_quota := release repo charged (fs_quota s)\<rparr>)) (\<lambda>_. fail e)
        | Stored missing recheck_error \<Rightarrow>
            and_do (blob_entered D repo (digest_display d) ck) (\<lambda>_.
            and_do (fs_cache_put D repo (digest_display d) data) (\<lambda>_.
            case recheck_error of
              Some e \<Rightarrow> fail e
            | None \<Rightarrow>
                (case missing of
                   Some i \<Rightarrow> fail (MissingReference (digest_display (ml_required links ! i)))
                 | None \<Rightarrow> record_manifest D repo tag (digest_display d) mt (map digest_display (ml_references links)) ref)))) ?Q s') s"
    if dl: "blob_dir_rel repo d = Inr (dir, leaf)" and req: "collect_results (blob_rel repo) (ml_required links) = Inr required" for rel dir leaf required ck ref
  proof (rule wp_land_manifest [OF s(1) dl d True, where P = P], goal_cases)
    case (1 l t)
    have stored: "wp (and_do (blob_entered D repo (digest_display d) ck) (\<lambda>_. and_do (fs_cache_put D repo (digest_display d) data) K)) ?Q t"
      if "\<And>u x. fs_ext D P {} t u \<Longrightarrow> fs_ext D P {} s u \<Longrightarrow> wp (K x) ?Q u" for K
      by (rule fs_ev.wp_then [where P = P and A = "{}", OF kept_blob_entered [OF w] fs_ev.refl [OF fs_ev.pres [OF 1(1)]]])
        (auto intro: fs_ev.trans [OF 1(1)] that
          intro!: fs_ev.wp_then [where P = P and A = "{}" and s = t, OF kept_cache_put [OF w d True]])
    show ?case
    proof (cases l)
      case (MRejected e)
      then show ?thesis using 1(1) by (simp add: wp_fail)
    next
      case (MFailed charged e)
      have "kept (base_inv D) (fs_ext D P {}) (modify (\<lambda>s. s\<lparr>fs_quota := release repo charged (fs_quota s)\<rparr>))"
        by (intro kept_intros) simp
      then show ?thesis
        using MFailed by (simp, intro fs_ev.wp_then [OF _ 1(1)]) (auto simp: wp_fail)
    next
      case (Stored missing err)
      have "wp (case err of Some e \<Rightarrow> fail e | None \<Rightarrow> (case missing of
            Some i \<Rightarrow> fail (MissingReference (digest_display (ml_required links ! i)))
          | None \<Rightarrow> record_manifest D repo tag (digest_display d) mt (map digest_display (ml_references links)) ref)) ?Q u"
        if u: "fs_ext D P {} t u" "fs_ext D P {} s u" for u
      proof (cases "err = None \<and> missing = None")
        case True
        have f: "blob_file u (dir @ [leaf])" "\<And>p. p \<in> set required \<Longrightarrow> blob_file u p"
          using 1(2,3) Stored True blob_file_ext [OF u(1)] by auto
        have "\<forall>x\<in>insert d (set (ml_required links)). \<exists>p. blob_rel repo x = Inr p \<and> blob_file u p"
          using f blob_dir_rel_Inr(1) [OF dl] collect_results_members [OF req] by blast
        then show ?thesis using True fin [OF u(2)] by simp
      qed (use u(2) in \<open>auto simp: wp_fail split: option.splits\<close>)
      then show ?thesis using Stored stored by simp
    qed
  qed
  have err: "?Q (Inl e) s" for e by (simp add: fs_ev.refl [OF s(1)])
  show ?thesis
    unfolding fs_put_manifest_def Let_def digest_ct_eq_iff True
    using err landed
    by (simp add: wp_and_do [where m = "lift_res _"] wp_lift_res wp_and_do [where m = "land_manifest _ _ _ _ _ _ _ _"] split: sum.splits prod.splits)
qed

end
