(* ===== verification/Sample_Store.thy ===== *)
theory Sample_Store
  imports Fs_History
begin

text \<open>
  A store with concrete packages, on an empty directory and with the log engine, for the examples of
  the properties.
\<close>

definition sample_cuckoo :: "string list cuckoo_api" where
  "sample_cuckoo = \<lparr>cf_new = [], cf_add = (\<lambda>k f. (True, k # f)), cf_delete = remove1, cf_contains = (\<lambda>k f. k \<in> set f)\<rparr>"

lemma sample_cuckoo_ok: "cuckoo_ok sample_cuckoo count_list"
proof -
  have "count_list (remove1 k f) x = count_list f x - (if x = k then 1 else 0)" for k x :: string and f
    by (induction f) auto
  moreover have "k \<in> set f" if "0 < count_list f k" for k :: string and f
    using that count_notin [of k f] by fastforce
  ultimately show ?thesis by (simp add: cuckoo_ok_def sample_cuckoo_def)
qed

type_synonym sample_fs = "(log_engine, string list, (string \<times> bytes) list) fs_store"

definition sample_deps :: "(unit, log_engine, string list, (string \<times> bytes) list) deps" where
  "sample_deps = \<lparr>dp_ext = sample_ext, dp_meta = log_meta sample_ext, dp_filter = sample_cuckoo, dp_lru = sample_lru\<rparr>"

lemma sample_deps_ok: "deps_ok sample_deps"
proof -
  have "enc_number n \<noteq> []" for n by (cases n) auto
  then have "enc_json v \<noteq> []" for v by (cases v) auto
  then show ?thesis using sample_hash_ok sample_lru_ok by (simp add: deps_ok_def sample_deps_def sample_ext_def)
qed

definition sample_os :: os where
  "sample_os = \<lparr>os_tree = [], os_data = (\<lambda>_. []), os_mtime = (\<lambda>_. 0), os_next = 0, os_faults = [],
     os_random = (\<lambda>k n. replicate (Suc k) CHR ''0''), os_drawn = 0, os_time = 0, os_outside = (\<lambda>_. Inl ENOENT)\<rparr>"

lemma sample_os_inv: "os_inv H sample_os"
  by (auto simp: os_inv_def in_dirs_def sample_os_def node_at_def lower_hex_def list_all_iff ascii_class_defs)

definition sample_engine :: log_engine where
  "sample_engine = \<lparr>le_store = open_inner sample_ext 0 None empty_disk, le_faults = []\<rparr>"

definition sample_config :: store_config where
  "sample_config = \<lparr>sc_commit = True, sc_gc_enabled = True, sc_gc_delay_secs = 10, sc_dedupe = True,
     sc_small_blob_threshold = 100, sc_cache_max_bytes = 0\<rparr>"

definition sample_fs :: sample_fs where
  "sample_fs = boot sample_deps sample_config (quota_new \<lparr>max_repo_bytes = 0, max_total_bytes = 0, max_upload_sessions = 0\<rparr>)
     sample_engine sample_os"

lemma sample_reach: "reach sample_deps sample_fs"
  unfolding sample_fs_def by (intro reach.start sample_os_inv)

definition even_digest :: digest where
  "even_digest = \<lparr>algorithm = ''sha256'', hex = replicate 63 CHR ''0'' @ ''a''\<rparr>"

definition odd_digest :: digest where
  "odd_digest = \<lparr>algorithm = ''sha256'', hex = replicate 63 CHR ''0'' @ ''b''\<rparr>"

lemma sample_digests_wf: "digest_wf even_digest" "digest_wf odd_digest"
  by (simp_all add: digest_wf_def even_digest_def odd_digest_def lower_hex_def list_all_iff ascii_class_defs)

end
