(* ===== verification/Sample_Runs.thy ===== *)
theory Sample_Runs
  imports Sample_Store Fs_Calm
begin

text \<open>
  Runs of the sample store: a blob and then a manifest that refers to it are pushed and acknowledged.
  The examples of the properties start from the states after these pushes.
\<close>

section \<open>Running an operation\<close>

text \<open>Rules that run an operation step by step: the result of the first part is computed before the
  rest is looked at.\<close>

lemma run_observe: "m s = (r, s') \<Longrightarrow> observe m f s = f r s'"
  by (simp add: observe_def)

lemma run_and_do: "m s = (Inr x, s') \<Longrightarrow> and_do m f s = f x s'" "m s = (Inl e, s') \<Longrightarrow> and_do m f s = (Inl e, s')"
    "m2 s = (Inr False, s') \<Longrightarrow> and_do m2 g s = g False s'" "m2 s = (Inr True, s') \<Longrightarrow> and_do m2 g s = g True s'"
  by (simp_all add: and_do_def observe_def fail_def)

lemma run_err_map: "m s = (r, s') \<Longrightarrow> err_map g m s = (map_err g r, s')"
  by (simp add: err_map_def observe_def lift_res_def)

lemma run_on_part: "m (get s) = (r, t) \<Longrightarrow> on_part get put m s = (r, put t s)"
  by (simp add: on_part_def)

lemma run_ignore: "m s = (r, s') \<Longrightarrow> ignore m s = (Inr (), s')"
  by (simp add: ignore_def observe_def ret_def)

lemma run_io: "m s = (r, s') \<Longrightarrow> io m s = (map_err io_of_errno r, s')"
  by (simp add: io_def run_err_map)

lemma run_sys_call: "os_faults s = [] \<Longrightarrow> sys_call m s = m s"
  by (simp add: sys_call_def take_fault_def)

lemma weak_observe: "s = s' \<Longrightarrow> observe m f s = observe m f s'"
  by simp

lemma weak_and_do: "s = s' \<Longrightarrow> and_do m f s = and_do m f s'"
  by simp

lemmas weak_steps = weak_observe weak_and_do

lemmas runs = run_observe run_and_do run_err_map run_on_part run_ignore run_io run_sys_call lift_res_def ret_def fail_def
  gets_def modify_def on_os_def on_quota_def on_meta_def when_do_def in_dir_def

lemmas os_runs = statat_def openat_def openat2_def open_node_def create_file_def mkdirat_def write_all_def fsync_def
  rename_noreplace_def open_tmpfile_def link_fd_def take_fault_def getrandom_hex_def set_node_def del_node_def set_data_def
  new_inode_def node_at_def fstat_def stat_of_def read_to_end_def

lemmas beneath_runs = dir_beneath_def open_root_def openat2_beneath_def fd_path_def promote_temp_noreplace_def
  tmp_name_def file_of_def sync_dir_def resolve_beneath_def regular_file_def open_beneath_def stat_beneath_def
  io_of_errno_def errno_kind_def

lemma run_admit_blob: "\<not> tracks_bytes (fs_quota s) \<Longrightarrow> admit_blob repo a l n s = (Inr 0, s)"
  by (simp add: admit_blob_def runs cong: weak_steps)

lemma run_dedupe_link: "dedupe_locate ds repo (fs_dedupe s) = None \<Longrightarrow> dedupe_link D repo a l ds s = (Inr False, s)"
  by (simp add: dedupe_link_def runs cong: weak_steps)

section \<open>The log engine without faults\<close>

lemma log_append_ok: "\<exists>ls' seq. append_record E NoFault op ls = (ls', Inr seq)"
  by (simp add: append_record_def Let_def split: option.splits)

lemma log_apply_ok:
  assumes "le_faults m = []"
  shows "fst (mt_apply (log_meta E) op m) = Inr () \<and> le_faults (snd (mt_apply (log_meta E) op m)) = []"
proof -
  obtain ls' seq where "append_record E NoFault op (le_store m) = (ls', Inr seq)" using log_append_ok by metis
  then show ?thesis using assms by (simp add: log_meta_def log_apply_def le_fault_def group_commit_through_def Let_def)
qed

lemma log_relaxed_faults: "le_faults m = [] \<Longrightarrow> le_faults (snd (mt_apply_relaxed (log_meta E) op m)) = []"
  by (simp add: log_meta_def split: prod.splits)

lemma log_relaxed_state:
  assumes "le_faults m = []"
  shows "ls_state (le_store (snd (mt_apply_relaxed (log_meta E) op m))) = apply_in_ram E op (ls_state (le_store m))"
proof -
  obtain ls' seq where a: "append_record E NoFault op (le_store m) = (ls', Inr seq)" using log_append_ok by metis
  then show ?thesis using append_record_state [OF a] assms by (simp add: log_meta_def log_apply_relaxed_def le_fault_def)
qed

lemma log_meta_queries:
  "mt_backrefs (log_meta E) m = log_backrefs (ls_state (le_store m))"
  "mt_manifest_media_type (log_meta E) m = log_manifest_media_type (ls_state (le_store m))"
  "mt_checksum (log_meta E) m = log_checksum (ls_state (le_store m))" "mt_repos (log_meta E) m = log_repos (ls_state (le_store m))"
  "mt_manifests (log_meta E) m = log_manifests (ls_state (le_store m))"
  by (simp_all add: log_meta_def)

section \<open>The empty store\<close>

lemma sample_deps_simps [simp]: "dp_ext sample_deps = sample_ext" "dp_meta sample_deps = log_meta sample_ext"
    "dp_filter sample_deps = sample_cuckoo" "dp_lru sample_deps = sample_lru"
  by (simp_all add: sample_deps_def)

definition sample_quota :: quota where
  "sample_quota = quota_new \<lparr>max_repo_bytes = 0, max_total_bytes = 0, max_upload_sessions = 0\<rparr>"

lemma sample_quota_untracked: "\<not> tracks_bytes (seed_sessions n sample_quota)"
  by (simp add: sample_quota_def tracks_bytes_def seed_sessions_def quota_new_def)

lemma sample_discover: "discover_repos sample_os = (Inr [], sample_os)"
  by (simp add: discover_repos_def runs sample_os_def read_dir_def node_at_def child_names_def List.map_filter_def
      numeral_eq_Suc cong: weak_steps)

lemma sample_seed:
  "fs_os s = sample_os \<Longrightarrow> seed_from_cas sample_deps s = (Inr (), s\<lparr>fs_quota := seed_sessions 0 (fs_quota s)\<rparr>)"
  by (simp add: seed_from_cas_def for_each_cas_blob_def for_each_cas_entry_def runs sample_discover cong: weak_steps)

lemma sample_recover:
  "fs_os s = sample_os \<Longrightarrow> mt_repos (log_meta sample_ext) (fs_meta s) = [] \<Longrightarrow> fs_index_dirty s = [] \<Longrightarrow>
     recover_store sample_deps s = (Inr (), s)"
  by (simp add: recover_store_def warm_referrers_from_layout_def reconcile_index_json_def runs sample_discover
      flush_dirty_def cong: weak_steps)

lemma sample_engine_empty: "mt_repos (log_meta sample_ext) sample_engine = []" "le_faults sample_engine = []"
    "ls_state (le_store sample_engine) = state_default" "log_meta_inv sample_ext sample_engine"
  by (simp_all add: log_meta_def sample_engine_def open_inner_def empty_disk_def log_repos_def state_default_def log_meta_inv_def
      state_inv_def)

lemma sample_fs_eq:
  "sample_fs = (fs_new sample_deps sample_config sample_quota sample_engine sample_os)\<lparr>fs_quota := seed_sessions 0 sample_quota\<rparr>"
  by (simp add: sample_fs_def boot_def silent_def fs_open_def sample_seed sample_recover fs_new_def sample_quota_def [symmetric]
      sample_engine_empty)

section \<open>The pushes\<close>

definition sample_os1 :: os where
  "sample_os1 = sample_os\<lparr>os_tree := [([''a''], Dir), ([''a'', ''oci-layout''], Reg 0)], os_data := (\<lambda>_. [])(0 := OCI_LAYOUT_MARKER),
     os_mtime := (\<lambda>_. 0)(0 := 0), os_next := 1, os_drawn := 1\<rparr>"

definition sample_os2 :: os where
  "sample_os2 = sample_os1\<lparr>os_tree := os_tree sample_os1 @ [([''a'', ''blobs''], Dir), ([''a'', ''blobs'', ''sha256''], Dir),
       ([''a'', ''blobs'', ''sha256'', hex even_digest], Reg 1)],
     os_data := (os_data sample_os1)(1 := ''data''), os_mtime := (os_mtime sample_os1)(1 := 0), os_next := 2\<rparr>"

lemma sample_layout:
  "ensure_layout_beneath [''a''] OCI_LAYOUT_MARKER sample_os = (Inr True, sample_os1)"
  "ensure_layout_beneath [''a''] OCI_LAYOUT_MARKER sample_os2 = (Inr False, sample_os2)"
  by (simp_all add: ensure_layout_beneath_def sample_os2_def sample_os1_def sample_os_def runs os_runs beneath_runs cong: weak_steps)

lemma sample_publish:
  "publish_bytes [''a'', ''blobs'', ''sha256''] (hex even_digest) ''data'' True sample_os1 = (Inr (), sample_os2)"
  by (simp add: publish_bytes_def sample_os2_def sample_os1_def sample_os_def runs os_runs beneath_runs cong: weak_steps)

lemma sample_sync: "sync_dir [] sample_os1 = (Inr (), sample_os1)"
  by (simp add: sync_dir_def sample_os1_def sample_os_def runs os_runs cong: weak_steps)

lemma sample_digests:
  "algorithm even_digest = ''sha256''" "algorithm odd_digest = ''sha256''"
  "digest_of sample_ext ''data'' ''sha256'' = even_digest" "digest_of sample_ext ''m'' ''sha256'' = odd_digest"
  "safe_component (hex even_digest) = Inr (hex even_digest)" "safe_component (hex odd_digest) = Inr (hex odd_digest)"
  "hex even_digest \<noteq> hex odd_digest" "hex odd_digest \<noteq> hex even_digest"
  by (simp_all add: even_digest_def odd_digest_def digest_of_def sha256_of_def sample_ext_def safe_component_def list_ex_iff)

lemma sample_paths: "repo_rel ''a'' = Inr [''a'']" "repo_dir ''a'' = Inr [''a'']"
    "blob_dir_rel ''a'' even_digest = Inr ([''a'', ''blobs'', ''sha256''], hex even_digest)"
    "blob_dir_rel ''a'' odd_digest = Inr ([''a'', ''blobs'', ''sha256''], hex odd_digest)"
    "blob_rel ''a'' even_digest = Inr [''a'', ''blobs'', ''sha256'', hex even_digest]"
  by (simp_all add: blob_rel_def blob_dir_rel_def repo_dir_def repo_rel_def sample_digests) (simp_all add: safe_component_def)

definition sample_meta_state :: state where
  "sample_meta_state = apply_in_ram sample_ext (PutChecksum ''a'' (digest_display even_digest) (crc32c sample_ext ''data'') 4) state_default"

lemma sample_meta_queries: "log_backrefs sample_meta_state r b = []" "log_manifest_media_type sample_meta_state r b = None"
    "log_manifests sample_meta_state r = []" "log_repos sample_meta_state = []" "log_checksum state_default r b = None"
  by (simp_all add: log_backrefs_def sample_meta_state_def repo_mut_def state_default_def entry_or_def repo_state_default_def
      log_manifest_media_type_def log_manifests_def log_repos_def log_checksum_def)

definition sample_gc :: gc_tracker where
  "sample_gc = (gc_new True 10)\<lparr>gc_candidates := [((''a'', digest_display even_digest), 0)]\<rparr>"

lemma sample_put:
  "\<exists>s. fs_put_blob sample_deps ''a'' even_digest ''data'' sample_fs = (Inr (), s) \<and> fs_os s = sample_os2
     \<and> \<not> tracks_bytes (fs_quota s) \<and> (\<forall>x. dedupe_locate x ''a'' (fs_dedupe s) = None) \<and> le_faults (fs_meta s) = []
     \<and> maybe_present sample_cuckoo ''a'' (digest_display even_digest) (fs_presence s)
     \<and> ls_state (le_store (fs_meta s)) = sample_meta_state \<and> fs_gc s = sample_gc"
proof -
  have time: "os_time sample_os2 = 0" by (simp add: sample_os2_def sample_os1_def sample_os_def)
  show ?thesis
    by (simp add: fs_put_blob_def digest_ct_eq_iff sample_digests sample_fs_eq fs_new_def ensure_layout_def sample_layout sample_sync
        runs sample_paths admit_lock_def run_admit_blob sample_quota_untracked run_dedupe_link dedupe_locate_def dedupe_new_def
        sample_publish blob_entered_def admit_release_def sample_config_def Let_def note_blob_entered_def
        dedupe_insert_def log_relaxed_faults sample_engine_empty presence_new_def presence_insert_def maybe_present_def
        sample_cuckoo_def log_relaxed_state log_meta_queries sample_meta_state_def [symmetric] sample_meta_queries
        gc_mark_at_def gc_new_def sample_gc_def time del: apply_in_ram.simps cong: weak_steps)
qed

definition sample_pushed :: sample_fs where
  "sample_pushed = snd (fs_put_blob sample_deps ''a'' even_digest ''data'' sample_fs)"

lemma sample_pushed_facts: "fst (fs_put_blob sample_deps ''a'' even_digest ''data'' sample_fs) = Inr ()" "fs_os sample_pushed = sample_os2"
    "\<not> tracks_bytes (fs_quota sample_pushed)" "dedupe_locate x ''a'' (fs_dedupe sample_pushed) = None"
    "le_faults (fs_meta sample_pushed) = []" 
    "maybe_present sample_cuckoo ''a'' (digest_display even_digest) (fs_presence sample_pushed)"
    "ls_state (le_store (fs_meta sample_pushed)) = sample_meta_state" "fs_gc sample_pushed = sample_gc"
  using sample_put by (auto simp: sample_pushed_def)

definition sample_os3 :: os where
  "sample_os3 = sample_os2\<lparr>os_tree := os_tree sample_os2 @ [([''a'', ''blobs'', ''sha256'', hex odd_digest], Reg 2)],
     os_data := (os_data sample_os2)(2 := ''m''), os_mtime := (os_mtime sample_os2)(2 := 0), os_next := 3\<rparr>"

lemma sample_publish_manifest:
  "publish_bytes [''a'', ''blobs'', ''sha256''] (hex odd_digest) ''m'' True sample_os2 = (Inr (), sample_os3)"
  by (simp add: publish_bytes_def sample_os3_def sample_os2_def sample_os1_def sample_os_def sample_digests runs os_runs
      beneath_runs eval_nat_numeral cong: weak_steps)

lemma sample_recheck:
  "recheck 0 [[''a'', ''blobs'', ''sha256'', hex even_digest]] sample_os3 = (Inr (Stored None None), sample_os3)"
  by (simp add: sample_os3_def sample_os2_def sample_os1_def sample_os_def sample_digests runs os_runs beneath_runs cong: weak_steps)

definition sample_links :: manifest_links where
  "sample_links = \<lparr>ml_references = [even_digest], ml_required = [even_digest], ml_subject = None\<rparr>"

lemma run_record_manifest:
  assumes "le_faults (fs_meta s) = []" "fs_os s = t"
  shows "\<exists>s'. record_manifest sample_deps repo tag ds mt refs ref s = (Inr (), s') \<and> fs_os s' = t"
proof -
  let ?op = "PutManifest repo ds mt tag refs ref"
  obtain m where "mt_apply (log_meta sample_ext) ?op (fs_meta s) = (Inr (), m)"
    using log_apply_ok [OF assms(1), of sample_ext ?op] by (metis prod.collapse)
  then show ?thesis
    using assms by (simp add: record_manifest_def apply_meta_def mark_index_dirty_def runs map_err_def cong: weak_steps)
qed

lemma sample_land:
  "land_manifest sample_deps ''a'' [''a''] [''a'', ''blobs'', ''sha256''] (hex odd_digest) ds ''m''
     [[''a'', ''blobs'', ''sha256'', hex even_digest]] sample_pushed = (Inr (Stored None None), sample_pushed\<lparr>fs_os := sample_os3\<rparr>)"
  by (simp add: land_manifest_def layout_and_admit_def sample_pushed_facts sample_layout runs run_admit_blob run_dedupe_link
      sample_recheck sample_publish_manifest cong: weak_steps del: recheck.simps)

lemma sample_put_manifest:
  "\<exists>s. fs_put_manifest sample_deps ''a'' (Some ''v1'') odd_digest ''t/m'' ''m'' sample_links sample_pushed = (Inr (), s)
     \<and> fs_os s = sample_os3"
proof -
  have tag: "safe_component ''v1'' = Inr ''v1''" by (simp add: safe_component_def)
  define n where "n = note_blob_entered (log_meta sample_ext) ''a'' (digest_display odd_digest)
    (Some \<lparr>ck_crc32c = crc32c sample_ext ''m'', ck_size = 1\<rparr>) (os_time sample_os3) (fs_meta sample_pushed, fs_gc sample_pushed, fs_dedupe sample_pushed)"
  obtain m g d where mgd: "n = (m, g, d)" by (cases n)
  then have "le_faults m = []"
    by (auto simp: n_def note_blob_entered_def Let_def sample_pushed_facts log_relaxed_faults)
  then show ?thesis
    by (simp add: fs_put_manifest_def digest_ct_eq_iff sample_digests tag runs sample_paths sample_links_def sample_land
        blob_entered_def fs_cache_put_def Let_def n_def [symmetric] mgd run_record_manifest cong: weak_steps)
qed

lemma sample_reach_pushed: "reach sample_deps sample_pushed"
proof -
  have "event_ok (Ev_Put_Blob ''a'' even_digest ''data'')" by (simp add: sample_digests_wf)
  from reach.step [OF sample_reach this] show ?thesis by (simp add: sample_pushed_def fs_storage_def)
qed

lemma sample_calm: "calm sample_os2"
  by (simp add: calm_def sample_os2_def sample_os1_def sample_os_def)

lemma sample_blob_file: "blob_file sample_pushed [''a'', ''blobs'', ''sha256'', hex even_digest]"
  by (simp add: blob_file_def file_at_def sample_pushed_facts sample_os2_def sample_os1_def node_at_def)

lemma sample_base_inv: "base_inv sample_deps sample_pushed"
  using reach_inv [OF sample_reach_pushed sample_deps_ok] by (simp add: fs_inv_def)

lemma sample_read: "\<exists>b. fst (read_blob (fs_storage sample_deps) ''a'' even_digest sample_pushed) = Inr b"
proof -
  have "calm (fs_os sample_pushed)" by (simp add: sample_pushed_facts sample_calm)
  from read_blob_calm [OF sample_base_inv this sample_paths(5) sample_blob_file] show ?thesis
    by (auto simp: sample_pushed_facts fs_storage_def)
qed

lemma sample_meta_inv: "log_meta_inv sample_ext (fs_meta sample_pushed)"
proof -
  have w: "world sample_deps (log_meta_inv sample_ext)"
    using sample_deps_ok log_trait.apply_law log_trait.relaxed_law unfolding world_def meta_kept_def sample_deps_simps by (metis prod.collapse)
  have s: "base_inv sample_deps sample_fs" using reach_inv [OF sample_reach sample_deps_ok] by (simp add: fs_inv_def)
  have "fs_meta sample_fs = sample_engine" by (simp add: sample_fs_eq fs_new_def)
  then show ?thesis
    using safe_snd [OF kept_put_blob [OF w sample_digests_wf(1)] s] sample_engine_empty(4) by (auto simp: sample_pushed_def fs_ext_def)
qed

section \<open>Starting the collector\<close>

lemma sample_discover_pushed: "discover_repos sample_os2 = (Inr [''a''], sample_os2)"
  by (simp add: discover_repos_def runs sample_os2_def sample_os1_def sample_os_def read_dir_def os_runs is_file_at_def
      child_names_def List.map_filter_def numeral_eq_Suc cong: weak_steps)

lemma sample_cas_blobs_of: "cas_blobs_of ''a'' sample_os2 = (Inr [(''a'', even_digest, hex even_digest)], sample_os2)"
proof -
  have "parse_digest (''sha256'' @ '':'' @ hex even_digest) = Inr even_digest"
    using parse_digest_display [OF sample_digests_wf(1)] by (simp add: digest_display_def sample_digests)
  then show ?thesis
    by (simp add: runs cas_blobs_of_def Let_def sample_os2_def sample_os1_def sample_os_def read_dir_def os_runs is_file_at_def
        child_names_def List.map_filter_def sample_digests cong: weak_steps)
qed

lemma sample_cas_blobs: "for_each_cas_blob sample_os2 = (Inr [(''a'', even_digest)], sample_os2)"
  by (simp add: for_each_cas_blob_def for_each_cas_entry_def sample_discover_pushed sample_cas_blobs_of runs cong: weak_steps)

lemma sample_no_index: "read_index_beneath E ''a'' sample_os2 = (Inr None, sample_os2)"
  by (simp add: read_index_beneath_def runs sample_paths beneath_runs sample_os2_def sample_os1_def sample_os_def os_runs
      map_err_def io_kind_of_def cong: weak_steps)

definition sample_ready :: sample_fs where
  "sample_ready = run_event sample_deps Ev_Start_Gc sample_pushed"

lemma sample_reach_ready: "reach sample_deps sample_ready"
  unfolding sample_ready_def by (rule reach.step [OF sample_reach_pushed]) simp

lemma sample_ready_eq: "sample_ready = sample_pushed\<lparr>fs_os := sample_os2, fs_gc := gc_set_ready sample_gc\<rparr>"
proof -
  have "\<not> gc_is_ready sample_gc" "\<not> gc_is_root r x sample_gc" for r x
    by (simp_all add: gc_is_ready_def gc_is_root_def sample_gc_def gc_new_def)
  moreover have "gc_mark_at ''a'' (digest_display even_digest) (os_time sample_os2) sample_gc = sample_gc"
    by (simp add: gc_mark_at_def sample_gc_def gc_new_def sample_os2_def sample_os1_def sample_os_def)
  ultimately show ?thesis
    by (simp add: sample_ready_def silent_def start_gc_def runs gc_consistency_check_def sample_discover_pushed log_meta_queries
        sample_meta_queries sample_pushed_facts gc_rebuild_repo_def sample_no_index rebuild_backrefs_def sample_cas_blobs
        seed_unreferenced_def Let_def cong: weak_steps)
qed

end
