(* ===== verification/Store_Safety.thy ===== *)
theory Store_Safety
  imports Fs_Roundtrip Sample_Runs
begin

text \<open>
  The properties of the filesystem store over all histories: what it serves has the digest it was
  asked for, what an acknowledged push refers to is never collected, and what was pushed can be pulled.
\<close>

section \<open>Metadata that an engine keeps\<close>

lemma view_backref_kept:
  "x \<in> v_backrefs v repo b \<Longrightarrow> op \<noteq> DeleteManifest repo x \<Longrightarrow> x \<in> v_backrefs (view_apply op v) repo b"
  by (cases op) (auto simp: view_apply_put_backrefs view_backrefs_def upd2_def view_referrer_def Let_def split: option.splits)

lemma view_media_kept:
  "v_media v repo d \<noteq> None \<Longrightarrow> op \<noteq> DeleteManifest repo d \<Longrightarrow> v_media (view_apply op v) repo d \<noteq> None"
  by (cases op) (auto simp: view_backrefs_def upd2_def view_referrer_def Let_def split: option.splits)

text \<open>A manifest on record with its references: only its own deletion takes them away.\<close>

definition on_record :: "'m meta_api \<Rightarrow> ('m \<Rightarrow> bool) \<Rightarrow> string \<Rightarrow> string \<Rightarrow> string set \<Rightarrow> 'm \<Rightarrow> bool" where
  "on_record M ok repo ds refs m \<longleftrightarrow> ok m \<and> mt_manifest_media_type M m repo ds \<noteq> None
     \<and> (\<forall>b\<in>refs. ds \<in> set (mt_backrefs M m repo b))"

context metadata_trait
begin

lemma on_record_view:
  "key_ok repo \<Longrightarrow> key_ok ds \<Longrightarrow> \<forall>b\<in>refs. key_ok b \<Longrightarrow>
     on_record M invar repo ds refs m \<longleftrightarrow> invar m \<and> v_media (view m) repo ds \<noteq> None \<and> (\<forall>b\<in>refs. ds \<in> v_backrefs (view m) repo b)"
  by (auto simp: on_record_def media_law backrefs_law)

lemma on_record_kept:
  assumes keys: "key_ok repo" "key_ok ds" "\<forall>b\<in>refs. key_ok b" and op: "op_ok op" "op \<noteq> DeleteManifest repo ds"
    and m: "on_record M invar repo ds refs m"
  shows "on_record M invar repo ds refs (snd (mt_apply M op m))" "on_record M invar repo ds refs (snd (mt_apply_relaxed M op m))"
proof -
  note V = on_record_view [OF keys]
  have step: "on_record M invar repo ds refs m'" if "invar m'" "view m' = view_apply op (view m) \<or> view m' = view m" for m'
    using that m op(2) view_media_kept [of "view m" repo ds op] view_backref_kept [of ds "view m" repo _ op] unfolding V by auto
  obtain r m' where a: "mt_apply M op m = (r, m')" by (cases "mt_apply M op m")
  obtain r2 m2 where b: "mt_apply_relaxed M op m = (r2, m2)" by (cases "mt_apply_relaxed M op m")
  have "invar m" using m by (simp add: on_record_def)
  then show "on_record M invar repo ds refs (snd (mt_apply M op m))" "on_record M invar repo ds refs (snd (mt_apply_relaxed M op m))"
    using apply_law [OF _ op(1) a] relaxed_law [OF _ op(1) b] step by (auto simp: a b)
qed

lemma put_on_record:
  assumes keys: "key_ok repo" "key_ok ds" "\<forall>b\<in>refs. key_ok b" and op: "op_ok (PutManifest repo ds mt tag rs ref)" "refs \<subseteq> set rs"
    and m: "invar m" "mt_apply M (PutManifest repo ds mt tag rs ref) m = (Inr (), m')"
  shows "on_record M invar repo ds refs m'"
  using put_manifest_recorded [OF m(1) op(1) keys(1,2) _ m(2)] apply_law [OF m(1) op(1) m(2)] keys(3) op(2)
  unfolding on_record_def by (metis keys(2) option.distinct(1) subsetD)

lemma put_resolves:
  assumes "key_ok repo" "key_ok t" "op_ok (PutManifest repo ds mt (Some t) rs ref)"
    and "invar m" "mt_apply M (PutManifest repo ds mt (Some t) rs ref) m = (Inr (), m')"
  shows "mt_resolve_tag M m' repo t = Some (ds, mt)"
  using apply_law [OF assms(4,3,5)] assms(1,2)
  by (auto simp: resolve_law view_apply_put_tags simp del: view_apply.simps)

end

lemma log_world: "deps_ok D \<Longrightarrow> dp_meta D = log_meta E \<Longrightarrow> world D (log_meta_inv E)"
  using log_trait.apply_law log_trait.relaxed_law unfolding world_def meta_kept_def by (metis prod.collapse)

section \<open>Reads\<close>

text \<open>
  (C3) In every state that any sequence of starts, storage operations, index writes, sweeps and clock
  ticks can reach, whatever system calls failed on the way, a successful read of a blob returns bytes
  with the requested digest, an opened blob streams bytes with the requested digest and announces
  their length, and a manifest is returned with the digest of its bytes, which for a reference by
  digest is the requested one.
\<close>

theorem served_content_has_digest:
  assumes "deps_ok D" and "reach D s" and "digest_wf d"
  shows "(\<forall>b. fst (read_blob (fs_storage D) repo d s) = Inr b \<longrightarrow> digest_of (dp_ext D) b (algorithm d) = d)
    \<and> (\<forall>br. fst (open_blob (fs_storage D) repo d s) = Inr br \<longrightarrow> blob_read_ok (dp_ext D) d br)
    \<and> (\<forall>m. fst (get_manifest (fs_storage D) repo reference s) = Inr m \<longrightarrow> manifest_ok (dp_ext D) reference m)"
proof -
  have s: "base_inv D s" using reach_inv [OF assms(2,1)] by (simp add: fs_inv_def)
  note w = world_True [OF assms(1)]
  show ?thesis
    using fs_ev.safe_run(2) [OF safe_read_blob [OF w assms(3)] s] fs_ev.safe_run(2) [OF safe_open_blob [OF assms(3)] s]
      fs_ev.safe_run(2) [OF safe_get_manifest [OF w] s]
    by (auto simp: fs_storage_def) (metis prod.collapse)+
qed

theorem served_content_has_digest_witness:
  "\<exists>b. fst (read_blob (fs_storage sample_deps) ''a'' even_digest sample_pushed) = Inr b \<and> digest_of sample_ext b ''sha256'' = even_digest"
proof -
  obtain b where b: "fst (read_blob (fs_storage sample_deps) ''a'' even_digest sample_pushed) = Inr b" using sample_read by blast
  with served_content_has_digest [OF sample_deps_ok sample_reach_pushed sample_digests_wf(1), of "''a''" "[]"]
  have "digest_of sample_ext b ''sha256'' = even_digest" by (simp add: sample_digests)
  then show ?thesis using b by blast
qed

section \<open>Acknowledged pushes\<close>

text \<open>
  What happens to a running store: an event, or a restart on the same disk with another configuration
  and with the metadata engine opened again.
\<close>

datatype 'm history = Act event | Restart store_config quota 'm

fun run_history :: "('x, 'm, 'f, 'l) deps \<Rightarrow> 'm history list \<Rightarrow> ('m, 'f, 'l) fs_store \<Rightarrow> ('m, 'f, 'l) fs_store" where
  "run_history D [] s = s"
| "run_history D (Act ev # hs) s = run_history D hs (run_event D ev s)"
| "run_history D (Restart cfg q m # hs) s = run_history D hs (boot D cfg q m (fs_os s))"

lemma run_history_guard:
  assumes w: "world D P" and A: "sweepable D P A" "{p. cas_digest p = None} \<subseteq> A"
    and hs: "\<forall>ev. Act ev \<in> set hs \<longrightarrow> event_ok ev \<and> event_within D P A ev" "\<forall>cfg q m. Restart cfg q m \<in> set hs \<longrightarrow> P m"
    and s: "guarded D P s"
  shows "fs_guard D P A s (run_history D hs s)"
  using hs s
proof (induction hs arbitrary: s)
  case (Cons h hs)
  obtain s1 where s1: "fs_guard D P A s s1" "run_history D (h # hs) s = run_history D hs s1"
  proof (cases h)
    case (Act ev)
    then show ?thesis using Cons.prems that [OF run_event_guard [OF w Cons.prems(3) _ _ A]] by auto
  next
    case (Restart cfg q m)
    have "os_inv (dp_ext D) (fs_os s)" using Cons.prems(3) by (simp add: fs_inv_def base_inv_def)
    note b = boot_keeps [OF w this, where cfg = cfg and q = q and m = m]
    have "fs_guard D P A s (boot D cfg q m (fs_os s))"
      using b evolves_mono [OF b(1) A(2)] Cons.prems(2) Restart unfolding fs_guard_def fs_next_def by auto
    then show ?thesis using that Restart by simp
  qed
  have "fs_guard D P A s1 (run_history D hs s1)" using Cons.prems fs_gd.pres [OF s1(1)] by (intro Cons.IH) auto
  then show ?case using fs_gd.trans [OF s1(1)] s1(2) by simp
qed (simp add: fs_gd.refl)

fun takes_away :: "string \<Rightarrow> digest set \<Rightarrow> event \<Rightarrow> bool" where
  "takes_away repo ds (Ev_Delete_Blob r x) \<longleftrightarrow> r = repo \<and> x \<in> ds"
| "takes_away repo ds (Ev_Delete_Manifest r x) \<longleftrightarrow> r = repo \<and> x \<in> ds"
| "takes_away repo ds _ \<longleftrightarrow> False"

text \<open>The files a manifest on record protects.\<close>

definition unprotected :: "string \<Rightarrow> digest set \<Rightarrow> path set" where
  "unprotected repo ds = {p. \<forall>x\<in>ds. blob_rel repo x \<noteq> Inr p}"

abbreviation push_on_record :: "'a ext_api_scheme \<Rightarrow> string \<Rightarrow> digest \<Rightarrow> digest set \<Rightarrow> log_engine \<Rightarrow> bool" where
  "push_on_record E repo d ds \<equiv> on_record (log_meta E) (log_meta_inv E) repo (digest_display d) (digest_display ` ds)"

lemma push_world:
  assumes "deps_ok D" "dp_meta D = log_meta E"
  shows "world D (push_on_record E repo d ds)"
  unfolding world_def meta_kept_def
proof (intro conjI allI impI)
  fix op m assume m: "push_on_record E repo d ds m" and "\<not> is_delete op"
  then have "op \<noteq> DeleteManifest repo (digest_display d)" by auto
  note k = log_trait.on_record_kept [OF TrueI TrueI _ TrueI this m]
  show "push_on_record E repo d ds (snd (mt_apply (dp_meta D) op m))" "push_on_record E repo d ds (snd (mt_apply_relaxed (dp_meta D) op m))"
    unfolding assms(2) by (rule k, simp)+
qed (fact assms(1))

lemma push_sweepable:
  assumes "dp_meta D = log_meta E"
  shows "sweepable D (push_on_record E repo d ds) (unprotected repo (insert d ds))"
  unfolding sweepable_def
proof (intro allI impI)
  fix m r x p
  assume m: "push_on_record E repo d ds m" and no: "mt_backrefs (dp_meta D) m r (digest_display x) = []"
      "mt_manifest_media_type (dp_meta D) m r (digest_display x) = None" and p: "blob_rel r x = Inr p"
  have "blob_rel repo y \<noteq> Inr p" if "y \<in> insert d ds" for y
  proof
    assume "blob_rel repo y = Inr p"
    then have "repo = r" "y = x" using blob_rel_inject [OF _ p] by auto
    then show False using m no that unfolding on_record_def assms(1) by (cases "y = d") auto
  qed
  then show "p \<in> unprotected repo (insert d ds)" by (simp add: unprotected_def)
qed

lemma not_protected:
  "blob_rel r x = Inr p \<Longrightarrow> \<not> (r = repo \<and> x \<in> ds) \<Longrightarrow> p \<in> unprotected repo ds"
  unfolding unprotected_def using blob_rel_inject by blast

lemma push_within:
  assumes "dp_meta D = log_meta E" "digest_wf d" "event_ok ev" "\<not> takes_away repo (insert d ds) ev"
  shows "event_within D (push_on_record E repo d ds) (unprotected repo (insert d ds)) ev"
proof (cases ev)
  case (Ev_Delete_Blob r x)
  then show ?thesis using assms(4) not_protected by simp
next
  case (Ev_Delete_Manifest r x)
  have "DeleteManifest r (digest_display x) \<noteq> DeleteManifest repo (digest_display d)"
    using assms Ev_Delete_Manifest digest_display_inject [of x d] by auto
  then have "push_on_record E repo d ds (snd (mt_apply (log_meta E) (DeleteManifest r (digest_display x)) m))"
    if "push_on_record E repo d ds m" for m
    using that by (intro log_trait.on_record_kept) auto
  then show ?thesis using Ev_Delete_Manifest assms(1,4) not_protected by simp
qed simp_all

lemma unprotected_cas: "\<forall>x\<in>ds. digest_wf x \<Longrightarrow> {p. cas_digest p = None} \<subseteq> unprotected repo ds"
  using cas_digest_blob_rel by (fastforce simp: unprotected_def)


definition sample_history :: "log_engine history list" where
  "sample_history = [Act (Ev_Tick 100), Act Ev_Start_Gc, Act (Ev_Sweep 100), Act Ev_Flush, Act (Ev_Delete_Blob ''b'' even_digest)]"


section \<open>Pulling what was pushed\<close>

lemma entered_present:
  "cuckoo_ok (dp_filter D) held \<Longrightarrow> entered D s repo d \<Longrightarrow> maybe_present (dp_filter D) repo (digest_display d) (fs_presence s)"
  by (metis entered_def maybe_present_holds presence_insert_holds(1))

text \<open>
  (C8) A blob whose push was acknowledged can be read back at once: after a successful monolithic push
  or a finished upload session, in any reachable state, a read that meets no failing system call
  returns bytes with the pushed digest. The presence filter is trusted only for its documented law that
  a key that was added and not removed is found.
\<close>

theorem pushed_blob_pulls:
  assumes "deps_ok D" "cuckoo_ok (dp_filter D) held" and "reach D s" and "digest_wf d"
    and "push = put_blob (fs_storage D) repo d data \<or> push = finish_upload (fs_storage D) repo upload d max_size body limit"
    and "push s = (Inr (), s')" and "os_faults (fs_os s') = []"
  shows "\<exists>b s''. read_blob (fs_storage D) repo d s' = (Inr b, s'') \<and> digest_of (dp_ext D) b (algorithm d) = d"
proof -
  note w = world_True [OF assms(1)]
  have s: "fs_inv D s" using reach_inv [OF assms(3,1)] by simp
  then have "wp push (\<lambda>r s'. base_inv D s' \<and> (r = Inr () \<longrightarrow> entered D s' repo d)) s"
    using wp_mono [OF put_blob_enters [OF w _ assms(4)]] wp_mono [OF finish_keeps [OF w assms(4) s, where A = UNIV]] assms(5)
    by (auto simp: fs_storage_def fs_inv_def fs_next_def fs_ext_def)
  then have s': "base_inv D s'" "entered D s' repo d" using assms(6) by (auto simp: wp_def)
  obtain p where p: "blob_rel repo d = Inr p" "blob_file s' p" using s'(2) by (auto simp: entered_def)
  have "calm (fs_os s')" using assms(7) by (simp add: calm_def)
  from read_blob_calm [OF s'(1) this p entered_present [OF assms(2) s'(2)]]
  obtain b s'' where r: "fs_read_blob D repo d s' = (Inr b, s'')" by blast
  then have "digest_of (dp_ext D) b (algorithm d) = d"
    using fs_ev.safe_run(2) [OF safe_read_blob [OF w assms(4)] s'(1)] by fastforce
  then show ?thesis using r by (simp add: fs_storage_def)
qed

theorem pushed_blob_pulls_witness:
  "\<exists>b s''. read_blob (fs_storage sample_deps) ''a'' even_digest sample_pushed = (Inr b, s'') \<and> digest_of sample_ext b ''sha256'' = even_digest"
proof -
  have "put_blob (fs_storage sample_deps) ''a'' even_digest ''data'' sample_fs = (Inr (), sample_pushed)"
    using sample_pushed_facts(1) by (simp add: fs_storage_def sample_pushed_def prod_eq_iff)
  moreover have "os_faults (fs_os sample_pushed) = []" using sample_calm by (simp add: sample_pushed_facts calm_def)
  moreover have "cuckoo_ok (dp_filter sample_deps) count_list" by (simp add: sample_cuckoo_ok)
  ultimately show ?thesis
    using pushed_blob_pulls [OF sample_deps_ok _ sample_reach sample_digests_wf(1) disjI1 [OF refl]] by (simp add: sample_digests)
qed

text \<open>
  (C7) A manifest whose push was acknowledged can be pulled by its tag and by its digest: without a
  failing system call both answer with the pushed digest, the pushed media type and bytes with that
  digest.
\<close>

theorem pushed_manifest_pulls:
  assumes "deps_ok D" "dp_meta D = log_meta E" and "reach D s" "log_meta_inv E (fs_meta s)" and "digest_wf d" "CHR '':'' \<notin> set t"
    and "put_manifest (fs_storage D) repo (Some t) d mt data links s = (Inr (), s')" and "os_faults (fs_os s') = []"
    and "reference \<in> {t, digest_display d}"
  shows "\<exists>b s''. get_manifest (fs_storage D) repo reference s' = (Inr \<lparr>mr_digest = d, mr_media_type = mt, mr_bytes = b\<rparr>, s'')
    \<and> digest_of (dp_ext D) b (algorithm d) = d"
proof -
  let ?ds = "digest_display d"
  have put: "fs_put_manifest D repo (Some t) d mt data links s = (Inr (), s')" using assms(7) by (simp add: fs_storage_def)
  have s: "base_inv D s" using reach_inv [OF assms(3,1)] by (simp add: fs_inv_def)
  note w = log_world [OF assms(1,2)]
  have r: "recorded D (log_meta_inv E) s' repo (Some t) d mt links" and s': "base_inv D s'"
    using put_manifest_records [OF w s assms(4,5), of repo "Some t" mt data links] put by (auto simp: wp_def fs_ext_def)
  obtain m ref where m: "log_meta_inv E m"
      "mt_apply (log_meta E) (PutManifest repo ?ds mt (Some t) (map digest_display (ml_references links)) ref) m = (Inr (), fs_meta s')"
    using r unfolding recorded_def assms(2) by blast
  have "mt_resolve_tag (log_meta E) (fs_meta s') repo t = Some (?ds, mt)" by (rule log_trait.put_resolves [OF _ _ _ m]) auto
  moreover have "mt_manifest_media_type (log_meta E) (fs_meta s') repo ?ds = Some mt"
    using log_trait.put_manifest_recorded [OF m(1) TrueI TrueI TrueI _ m(2)] by blast
  moreover have "CHR '':'' \<in> set ?ds" by (simp add: digest_display_def)
  ultimately have "manifest_reference D repo reference s' = (Inr (d, mt), s')"
    using assms(2,6,9) by (auto simp: manifest_reference_def runs parse_digest_display [OF assms(5)] cong: weak_steps)
  moreover obtain p where "blob_rel repo d = Inr p" "blob_file s' p" using r unfolding recorded_def by blast
  moreover have "calm (fs_os s')" using assms(8) by (simp add: calm_def)
  ultimately obtain b s'' where g: "fs_get_manifest D repo reference s' = (Inr \<lparr>mr_digest = d, mr_media_type = mt, mr_bytes = b\<rparr>, s'')"
    using get_manifest_calm [OF s'] by blast
  then have "digest_of (dp_ext D) b (algorithm d) = d"
    using fs_ev.safe_run(2) [OF safe_get_manifest [OF w] s', of repo reference] by (fastforce simp: manifest_ok_def)
  then show ?thesis using g by (simp add: fs_storage_def)
qed

theorem pushed_manifest_pulls_witness:
  "\<exists>b s''. get_manifest (fs_storage sample_deps) ''a'' ''v1''
       (snd (put_manifest (fs_storage sample_deps) ''a'' (Some ''v1'') odd_digest ''t/m'' ''m'' sample_links sample_pushed))
     = (Inr \<lparr>mr_digest = odd_digest, mr_media_type = ''t/m'', mr_bytes = b\<rparr>, s'') \<and> digest_of sample_ext b ''sha256'' = odd_digest"
proof -
  let ?m = "put_manifest (fs_storage sample_deps) ''a'' (Some ''v1'') odd_digest ''t/m'' ''m'' sample_links sample_pushed"
  obtain s where s: "?m = (Inr (), s)" "fs_os s = sample_os3" using sample_put_manifest by (auto simp: fs_storage_def)
  have "os_faults (fs_os s) = []" by (simp add: s sample_os3_def sample_os2_def sample_os1_def sample_os_def)
  moreover have "CHR '':'' \<notin> set ''v1''" by simp
  ultimately show ?thesis
    using pushed_manifest_pulls [OF sample_deps_ok sample_deps_simps(2) sample_reach_pushed sample_meta_inv sample_digests_wf(2) _ s(1)]
      s(1) by (simp add: sample_digests)
qed

end
