(* ===== verification/Gc_Rebuild.thy ===== *)
theory Gc_Rebuild
  imports Sample_Runs
begin

text \<open>
  The consistency check before the first sweep: the walk over the manifests of a repository ends
  however the manifests refer to each other, and it either covers everything reachable from the roots
  or takes the repository out of collection.
\<close>

section \<open>Children on disk\<close>

definition named_by :: "'a ext_api_scheme \<Rightarrow> bytes \<Rightarrow> string set" where
  "named_by E b = (case from_slice E b of Some v \<Rightarrow> set (manifest_children v) | None \<Rightarrow> {})"

text \<open>The digests that some file of the store names, and those that the file of one manifest names.\<close>

definition named :: "'a ext_api_scheme \<Rightarrow> os \<Rightarrow> string set" where
  "named E t = {c. \<exists>p j b. file_at t p = Some (j, b) \<and> c \<in> named_by E b}"

definition kids_of :: "'a ext_api_scheme \<Rightarrow> os \<Rightarrow> string \<Rightarrow> string \<Rightarrow> string set" where
  "kids_of E t repo ds = {c. \<exists>d p j b. parse_digest ds = Inr d \<and> blob_rel repo d = Inr p \<and> file_at t p = Some (j, b) \<and> c \<in> named_by E b}"

definition entry_names :: "'a ext_api_scheme \<Rightarrow> os \<Rightarrow> path \<times> node \<Rightarrow> string set" where
  "entry_names E t = (\<lambda>(_, n). case n of Reg i \<Rightarrow> named_by E (os_data t i) | _ \<Rightarrow> {})"

lemma named_entries: "named E t \<subseteq> (\<Union>e\<in>set (os_tree t). entry_names E t e)"
proof
  fix c assume "c \<in> named E t"
  then obtain p j b where f: "file_at t p = Some (j, b)" "c \<in> named_by E b" by (auto simp: named_def)
  then have "(p, Reg j) \<in> set (os_tree t)" "b = os_data t j"
    by (auto simp: file_at_Some node_at_def split: if_splits dest: map_of_SomeD)
  then show "c \<in> (\<Union>e\<in>set (os_tree t). entry_names E t e)" using f(2) by (force simp: entry_names_def)
qed

lemma entry_names_finite [simp]: "finite (entry_names E t e)"
  by (auto simp: entry_names_def named_by_def split: prod.splits node.splits option.splits)

lemma named_finite [simp]: "finite (named E t)"
  by (rule finite_subset [OF named_entries]) simp

lemma named_fuel: "length roots + card (named E t) \<le> rebuild_fuel E t roots"
proof -
  have "card (\<Union>e\<in>set l. entry_names E t e)
      \<le> sum_list (map (\<lambda>(_, n). case n of Reg i \<Rightarrow> (case from_slice E (os_data t i) of Some v \<Rightarrow> length (manifest_children v) | None \<Rightarrow> 0)
           | _ \<Rightarrow> 0) l)" for l :: "(path \<times> node) list"
  proof (induction l)
    case (Cons a l)
    have "card (entry_names E t a)
        \<le> (case snd a of Reg i \<Rightarrow> (case from_slice E (os_data t i) of Some v \<Rightarrow> length (manifest_children v) | None \<Rightarrow> 0) | _ \<Rightarrow> 0)"
      by (auto simp: entry_names_def named_by_def card_length split: prod.splits node.splits option.splits)
    then show ?case
      using Cons.IH card_Un_le by (fastforce simp: case_prod_beta intro: order_trans [OF card_Un_le] add_mono)
  qed simp
  from this [of "os_tree t"] card_mono [OF _ named_entries [of E t]] show ?thesis by (force simp: rebuild_fuel_def)
qed

lemma same_named: "same t t' \<Longrightarrow> named E t' = named E t" "same t t' \<Longrightarrow> kids_of E t' = kids_of E t"
  by (simp_all add: named_def kids_of_def same_file_at fun_eq_iff)

lemma kids_named: "kids_of E t repo ds \<subseteq> named E t"
  by (auto simp: kids_of_def named_def)

section \<open>Reading a manifest\<close>

lemma wp_read_cas_blob:
  assumes "os_inv H s"
  shows "wp (read_cas_blob_bounded rel n) (\<lambda>r s'. same s s' \<and> (\<forall>b. r = Inr (Some b) \<longrightarrow> (\<exists>j. file_at s rel = Some (j, b)))) s"
    (is "wp _ ?Q s")
  unfolding read_cas_blob_bounded_def wp_observe open_beneath_def
proof (rule wp_resolve_beneath [OF evolves_refl [OF assms, of "{}"]], goal_cases)
  case (2 r s1)
  show ?case
  proof (cases r)
    case (Inr f)
    show ?thesis
      unfolding Inr sum.case wp_and_do [where m = "io (fstat _)"] wp_io
    proof (rule wp_fstat [OF 2(1)], goal_cases)
      case (1 r2 s2)
      show ?case
      proof (cases r2)
        case (Inr st)
        have f: "file_at s rel = Some (f, os_data s f)" using 2(3) \<open>r = Inr f\<close> by (simp add: file_at_def)
        have d: "os_data s2 f = os_data s f" "same s s2" using 1(2) 2(2) same_trans by (auto simp: same_def)
        show ?thesis
          unfolding Inr map_err_def sum.case
        proof (simp add: wp_simps d(2), intro impI wp_read_to_end [OF 1(1)], goal_cases)
          case (1 r3 s3)
          then show ?case using d f same_trans [OF d(2)] by (auto simp: map_err_def wp_simps split: sum.splits)
        qed
      qed (use 1(2) 2(2) in \<open>auto simp: map_err_def wp_simps dest: same_trans\<close>)
    qed
  qed (use 2(2) in \<open>simp add: wp_simps\<close>)
qed simp

section \<open>The walk\<close>

text \<open>A repository is out of collection when it is marked, or when collection is off.\<close>

definition set_aside :: "string \<Rightarrow> gc_tracker \<Rightarrow> bool" where
  "set_aside repo g \<longleftrightarrow> gc_is_unsafe repo g \<or> \<not> gc_enabled g"

lemma set_aside_mark [simp]: "set_aside repo (gc_mark_unsafe repo g)"
  by (simp add: set_aside_def gc_mark_unsafe_def gc_is_unsafe_def)

lemma wp_visit_root:
  assumes "os_inv (dp_ext D) (fs_os s)"
  shows "wp (visit_root D repo ds) (\<lambda>r s'. same (fs_os s) (fs_os s') \<and> (set_aside repo (fs_gc s) \<longrightarrow> set_aside repo (fs_gc s'))
     \<and> (\<exists>cs. r = Inr cs \<and> set cs \<subseteq> named (dp_ext D) (fs_os s)
         \<and> (set_aside repo (fs_gc s') \<or> kids_of (dp_ext D) (fs_os s) repo ds \<subseteq> set cs))) s"
    (is "wp _ ?Q s")
proof (cases "parse_digest ds")
  case (Inl e)
  then show ?thesis by (simp add: visit_root_def wp_simps kids_of_def)
next
  case (Inr d)
  show ?thesis
  proof (cases "blob_dir_rel repo d")
    case bad: (Inl e)
    then show ?thesis using Inr by (simp add: visit_root_def wp_simps mark_repo_unsafe_def)
  next
    case dir: (Inr x)
    obtain p leaf where x: "x = (p, leaf)" by (cases x)
    have rel: "blob_rel repo d = Inr (p @ [leaf])" by (simp add: blob_rel_def dir x)
    show ?thesis
      unfolding visit_root_def Inr sum.case dir x prod.case wp_observe on_os_def wp_on_part
    proof (rule wp_mono [OF wp_read_cas_blob [OF assms]], goal_cases)
      case (1 r t)
      show ?case
      proof (cases "\<exists>b v. r = Inr (Some b) \<and> from_slice (dp_ext D) b = Some v")
        case True
        then obtain b v j where b: "r = Inr (Some b)" "from_slice (dp_ext D) b = Some v" "file_at (fs_os s) (p @ [leaf]) = Some (j, b)"
          using 1 by blast
        then have "set (manifest_children v) = named_by (dp_ext D) b" by (simp add: named_by_def)
        moreover have "kids_of (dp_ext D) (fs_os s) repo ds = named_by (dp_ext D) b"
          using Inr rel b(3) by (auto simp: kids_of_def)
        ultimately show ?thesis using b 1 by (auto simp: wp_simps named_def)
      next
        case False
        then show ?thesis using 1 by (auto simp: wp_simps mark_repo_unsafe_def split: sum.splits option.splits)
      qed
    qed
  qed
qed

lemma push_child_cases:
  "push_child c (tv, all) = (if c \<in> set all then (tv, all) else (c # tv, c # all))"
  by (simp add: push_child_def)

lemma push_children:
  assumes "fold push_child cs (tv, all) = (tv', all')" "finite U" "set cs \<subseteq> U"
  shows "set all' = set all \<union> set cs \<and> set all' - set tv' \<subseteq> set all - set tv
     \<and> length tv' + card (U - set all') = length tv + card (U - set all)"
  using assms
proof (induction cs arbitrary: tv all)
  case (Cons c cs)
  show ?case
  proof (cases "c \<in> set all")
    case True
    then have "set all' = set all \<union> set cs \<and> set all' - set tv' \<subseteq> set all - set tv
       \<and> length tv' + card (U - set all') = length tv + card (U - set all)"
      using Cons.prems by (intro Cons.IH) (simp_all add: push_child_cases)
    then show ?thesis using True by auto
  next
    case False
    have "set all' = set (c # all) \<union> set cs \<and> set all' - set tv' \<subseteq> set (c # all) - set (c # tv)
       \<and> length tv' + card (U - set all') = length (c # tv) + card (U - set (c # all))"
      using Cons.prems False by (intro Cons.IH) (simp_all add: push_child_cases)
    moreover have "U - set (c # all) = (U - set all) - {c}" by auto
    then have "card (U - set all) = Suc (card (U - set (c # all)))"
      using card_Suc_Diff1 [of "U - set all" c] False Cons.prems by simp
    ultimately show ?thesis by auto
  qed
qed simp

text \<open>Every turn takes one entry off the list, and what it adds was not yet among the roots.\<close>

lemma wp_rebuild_loop:
  assumes inv: "os_inv (dp_ext D) (fs_os s)" and fuel: "length tv + card (named (dp_ext D) (fs_os s) - set all) \<le> fuel"
    and tv: "set_aside repo (fs_gc s) \<or> (\<forall>ds\<in>set all - set tv. kids_of (dp_ext D) (fs_os s) repo ds \<subseteq> set all)"
  shows "wp (rebuild_loop D repo fuel tv all) (\<lambda>r s'. same (fs_os s) (fs_os s') \<and> (\<exists>all'. r = Inr (Some all') \<and> set all \<subseteq> set all'
     \<and> (set_aside repo (fs_gc s') \<or> (\<forall>ds\<in>set all'. kids_of (dp_ext D) (fs_os s) repo ds \<subseteq> set all')))) s"
  using assms
proof (induction fuel arbitrary: tv all s)
  case 0
  then show ?case by (auto simp: wp_simps)
next
  case (Suc fuel)
  show ?case
  proof (cases tv)
    case Nil
    then show ?thesis using Suc.prems by (auto simp: wp_simps)
  next
    case (Cons ds tv1)
    let ?U = "named (dp_ext D) (fs_os s)" and ?K = "kids_of (dp_ext D) (fs_os s) repo"
    show ?thesis
      unfolding Cons rebuild_loop.simps wp_and_do
    proof (rule wp_mono [OF wp_visit_root [OF Suc.prems(1)]], goal_cases)
      case (1 r s1)
      then obtain cs where cs: "r = Inr cs" "set cs \<subseteq> ?U" "set_aside repo (fs_gc s1) \<or> ?K ds \<subseteq> set cs"
          and s1: "same (fs_os s) (fs_os s1)" "set_aside repo (fs_gc s) \<longrightarrow> set_aside repo (fs_gc s1)"
        by blast
      obtain tv2 all2 where p: "fold push_child cs (tv1, all) = (tv2, all2)" by (cases "fold push_child cs (tv1, all)")
      note pc = push_children [OF p named_finite cs(2)]
      have sub: "?K x \<subseteq> set all2" if "x \<in> set all2 - set tv2" "\<not> set_aside repo (fs_gc s1)" for x
        using that pc cs(3) s1(2) Suc.prems(3) Cons by (cases "x = ds") auto
      show ?case
        unfolding cs(1) sum.case p prod.case
      proof (rule wp_mono [OF Suc.IH [where s = s1 and tv = tv2 and all = all2]], goal_cases)
        case 3
        then show ?case using sub same_named [OF s1(1), of "dp_ext D"] by auto
      next
        case (4 r s')
        then show ?case using pc same_trans [OF s1(1)] same_named [OF s1(1), of "dp_ext D"] by auto
      qed (use Suc.prems(1,2) Cons pc same_inv [OF s1(1), of "dp_ext D"] same_named [OF s1(1), of "dp_ext D"] in auto)
    qed
  qed
qed

text \<open>
  (C10) The walk over the manifests of a repository ends, in every reachable state: with the fuel it
  starts with, which counts the roots and the children that files of the store name, it always returns
  its set of roots, whatever cycles the manifests form and whatever reads fail. The set contains the
  roots it was given, and either it is closed under the children of every manifest in it or the
  repository has been taken out of collection.
\<close>

theorem rebuild_walk_ends:
  assumes "deps_ok D" and "reach D s"
  shows "\<exists>all s'. rebuild_loop D repo (rebuild_fuel (dp_ext D) (fs_os s) roots) roots roots s = (Inr (Some all), s')
    \<and> set roots \<subseteq> set all
    \<and> (set_aside repo (fs_gc s') \<or> (\<forall>ds\<in>set all. kids_of (dp_ext D) (fs_os s) repo ds \<subseteq> set all))"
proof -
  have inv: "os_inv (dp_ext D) (fs_os s)" using reach_inv [OF assms(2,1)] by (simp add: fs_inv_def base_inv_def)
  have "card (named (dp_ext D) (fs_os s) - set roots) \<le> card (named (dp_ext D) (fs_os s))" by (simp add: card_mono)
  then have "length roots + card (named (dp_ext D) (fs_os s) - set roots) \<le> rebuild_fuel (dp_ext D) (fs_os s) roots"
    using named_fuel [of roots "dp_ext D" "fs_os s"] by linarith
  from wp_rebuild_loop [OF inv this, of repo] show ?thesis by (auto simp: wp_def prod_eq_iff)
qed

theorem rebuild_walk_ends_witness:
  "\<exists>all s'. rebuild_loop sample_deps ''a'' (rebuild_fuel sample_ext sample_os2 [digest_display even_digest])
      [digest_display even_digest] [digest_display even_digest] sample_pushed = (Inr (Some all), s') \<and> digest_display even_digest \<in> set all"
  using rebuild_walk_ends [OF sample_deps_ok sample_reach_pushed, of "''a''" "[digest_display even_digest]"] sample_pushed_facts(2) by auto

end
