(* ===== verification/Os_Frame.thy ===== *)
theory Os_Frame
  imports Evolution
begin

text \<open>
  Relations between states of the system that any quiet call keeps: a call that only consults the
  tree may consume a planned fault and changes nothing else. The rules are proved once for every such
  relation, for the calls and for the operations built from them, and lifted to the store.
\<close>

section \<open>Operations that always answer\<close>

definition answers :: "('s, 'e, 'a) act \<Rightarrow> bool" where
  "answers m \<longleftrightarrow> (\<forall>s. is_ok (fst (m s)))"

lemma is_ok_iff: "is_ok r \<longleftrightarrow> (\<exists>x. r = Inr x)"
  by (cases r) auto

named_theorems answers_intros \<open>operations that never fail\<close>

lemma answers_basic [answers_intros]: "answers (ret x)" "answers (gets g)" "answers (modify h)"
  by (simp_all add: answers_def ret_def gets_def modify_def)

lemma answers_observe [answers_intros]: "(\<And>r. answers (f r)) \<Longrightarrow> answers (observe m f)"
  by (auto simp: answers_def observe_def split: prod.splits)

lemma answers_and_do [answers_intros]:
  assumes "answers m" and "\<And>x. answers (f x)"
  shows "answers (and_do m f)"
  unfolding answers_def
proof
  fix s
  obtain r s' where "m s = (r, s')" by (cases "m s")
  moreover from this obtain x where "r = Inr x" using assms(1) unfolding answers_def by (metis fst_conv is_ok_iff)
  ultimately show "is_ok (fst (and_do m f s))" using assms(2) by (simp add: and_do_def observe_def answers_def)
qed

lemma answers_cases [answers_intros]:
  "(b \<Longrightarrow> answers m) \<Longrightarrow> (\<not> b \<Longrightarrow> answers n) \<Longrightarrow> answers (if b then m else n)"
  "(\<And>e. r = Inl e \<Longrightarrow> answers (f e)) \<Longrightarrow> (\<And>x. r = Inr x \<Longrightarrow> answers (g x)) \<Longrightarrow> answers (case r of Inl e \<Rightarrow> f e | Inr x \<Rightarrow> g x)"
  "(o1 = None \<Longrightarrow> answers m) \<Longrightarrow> (\<And>x. o1 = Some x \<Longrightarrow> answers (h x)) \<Longrightarrow> answers (case o1 of None \<Rightarrow> m | Some x \<Rightarrow> h x)"
  "(\<And>a b. p = (a, b) \<Longrightarrow> answers (k a b)) \<Longrightarrow> answers (case p of (a, b) \<Rightarrow> k a b)"
  "answers (w x) \<Longrightarrow> answers (Let x w)" "(b \<Longrightarrow> answers u) \<Longrightarrow> answers (when_do b u)"
  "(b \<Longrightarrow> answers m) \<Longrightarrow> (\<not> b \<Longrightarrow> answers n) \<Longrightarrow> answers (case b of True \<Rightarrow> m | False \<Rightarrow> n)"
  by (auto simp: when_do_def answers_basic split: sum.splits option.splits prod.splits bool.splits)

lemma answers_on_part [answers_intros]: "answers m \<Longrightarrow> answers (on_part g p m)"
  by (auto simp: answers_def on_part_def split: prod.splits) (metis fst_conv)

lemma answers_on_os [answers_intros]: "answers m \<Longrightarrow> answers (on_os m)"
  unfolding on_os_def by (rule answers_on_part)

lemma answers_try_each [answers_intros]: "(\<And>x. x \<in> set xs \<Longrightarrow> answers (f x)) \<Longrightarrow> answers (try_each f xs)"
  by (induction xs) (auto intro: answers_intros)

lemma answers_collect_each [answers_intros]: "(\<And>x. x \<in> set xs \<Longrightarrow> answers (f x)) \<Longrightarrow> answers (collect_each f xs)"
  by (induction xs) (auto intro: answers_intros)

lemma answers_run: "answers m \<Longrightarrow> \<exists>x s'. m s = (Inr x, s')"
  unfolding answers_def by (metis is_ok_iff prod.collapse)

lemma answers_unit: "answers m \<Longrightarrow> fst (m s) = Inr ()"
  unfolding answers_def is_ok_iff by simp

lemma answers_discover_walk: "answers (discover_walk n rel)"
proof (induction n arbitrary: rel)
  case (Suc n)
  show ?case
    unfolding discover_walk.simps is_file_at_def by (intro answers_intros Suc.IH)
qed (simp add: answers_basic)

lemma answers_for_each_cas_blob [answers_intros]: "answers for_each_cas_entry" "answers for_each_cas_blob"
  unfolding for_each_cas_blob_def for_each_cas_entry_def discover_repos_def cas_blobs_of_def
  by (intro answers_intros answers_discover_walk)+

section \<open>Quiet calls\<close>

definition via_os :: "(os \<Rightarrow> os \<Rightarrow> bool) \<Rightarrow> ('m, 'f, 'l) fs_store \<Rightarrow> ('m, 'f, 'l) fs_store \<Rightarrow> bool" where
  "via_os R s s' \<longleftrightarrow> R (fs_os s) (fs_os s')"

locale os_relation = evolution "\<lambda>_. True" R for R :: "os \<Rightarrow> os \<Rightarrow> bool" +
  assumes fault: "os_faults t = f # fs \<Longrightarrow> R t (t\<lparr>os_faults := fs\<rparr>)"

sublocale os_relation \<subseteq> fsr: evolution "\<lambda>_. True" "via_os R"
  by unfold_locales (auto simp: via_os_def refl intro: trans)

context os_relation
begin

lemma kept_sys_call:
  assumes "\<And>t. R t (snd (m t))"
  shows "kept (\<lambda>_. True) R (sys_call m)"
proof -
  have "R t (snd (sys_call m t))" for t
  proof (cases "os_faults t")
    case Nil
    then show ?thesis using assms by (simp add: sys_call_def take_fault_def)
  next
    case (Cons x fs)
    then show ?thesis
      using fault [OF Cons] trans [OF fault [OF Cons] assms] by (cases x) (simp_all add: sys_call_def take_fault_def)
  qed
  then show ?thesis by (simp add: safe_def wp_def)
qed

lemma quiet_calls [kept_intros]:
  "kept (\<lambda>_. True) R (statat d c)" "kept (\<lambda>_. True) R (read_dir d)" "kept (\<lambda>_. True) R fsync"
  "kept (\<lambda>_. True) R (openat d c O_Directory)" "kept (\<lambda>_. True) R (openat2 d rel O_Directory)"
  "kept (\<lambda>_. True) R (openat d c O_Read)" "kept (\<lambda>_. True) R (openat2 d rel O_Read)"
  "kept (\<lambda>_. True) R (fstat f)" "kept (\<lambda>_. True) R (read_to_end i)" "kept (\<lambda>_. True) R open_root"
  "kept (\<lambda>_. True) R m \<Longrightarrow> kept (\<lambda>_. True) R (io m)"
  unfolding statat_def read_dir_def openat_def openat2_def open_root_def io_def fsync_def fstat_def read_to_end_def
  by (auto intro!: kept_sys_call kept_err_map simp: refl ret_def open_node_def split: option.splits node.splits)

lemma quiet_stat_walk: "kept (\<lambda>_. True) R (stat_walk d cs c)"
  by (induction cs arbitrary: d) (auto intro!: kept_intros)

lemma quiet_dir_walk: "kept (\<lambda>_. True) R (dir_walk False d cs)"
  by (induction cs arbitrary: d) (auto intro!: kept_intros)

lemma quiet_walk_open: "kept (\<lambda>_. True) R (walk_open d cs O_Read)"
  by (induction cs arbitrary: d) (auto intro!: kept_intros)

lemma quiet_beneath [kept_intros]:
  "kept (\<lambda>_. True) R (stat_beneath rel)" "kept (\<lambda>_. True) R (dir_beneath d False)" "kept (\<lambda>_. True) R (open_beneath rel)"
  unfolding stat_beneath_def dir_beneath_def openat2_beneath_def open_beneath_def resolve_beneath_def regular_file_def
  by (intro kept_intros quiet_stat_walk quiet_dir_walk quiet_walk_open)+

lemma quiet_discover_walk: "kept (\<lambda>_. True) R (discover_walk n rel)"
proof (induction n arbitrary: rel)
  case (Suc n)
  show ?case
    unfolding discover_walk.simps is_file_at_def by (intro kept_intros kept_collect_each Suc.IH)
qed (simp add: kept_ret)

lemma quiet_walks [kept_intros]:
  "kept (\<lambda>_. True) R discover_repos" "kept (\<lambda>_. True) R for_each_cas_entry"
  "kept (\<lambda>_. True) R for_each_cas_blob"
  unfolding discover_repos_def for_each_cas_blob_def for_each_cas_entry_def cas_blobs_of_def
  by (intro kept_intros kept_collect_each quiet_discover_walk)+

lemma via_on_os [kept_intros]: "kept (\<lambda>_. True) R m \<Longrightarrow> kept (\<lambda>_. True) (via_os R) (on_os m)"
  by (simp add: safe_def on_os_def wp_on_part via_os_def)

lemma via_modify [kept_intros]: "(\<And>s. fs_os (f s) = fs_os s) \<Longrightarrow> kept (\<lambda>_. True) (via_os R) (modify f)"
  by (simp add: safe_def wp_modify via_os_def refl)

end

end
