(* ===== verification/Gc_Progress.thy ===== *)
theory Gc_Progress
  imports Gc_Rebuild Os_Frame
begin

text \<open>
  The collector makes progress: a sweep only removes names, and without a failing system call it
  removes every due candidate that nothing protects.
\<close>

section \<open>Operations that only remove names\<close>

definition shrinks :: "os \<Rightarrow> os \<Rightarrow> bool" where
  "shrinks t t' \<longleftrightarrow> (\<forall>p. node_at t' p \<noteq> None \<longrightarrow> node_at t' p = node_at t p) \<and> (calm t \<longrightarrow> calm t')"

interpretation sh: os_relation shrinks
  by unfold_locales (auto simp: shrinks_def calm_def node_at_def)

lemma shrinks_file: "shrinks t t' \<Longrightarrow> file_at t p = None \<Longrightarrow> file_at t' p = None"
  by (cases "node_at t' p") (auto simp: shrinks_def file_at_def split: node.splits)

lemma shrinks_del: "shrinks t (del_node p t)"
  by (auto simp: shrinks_def del_node_def node_at_def calm_def delete_conv)

lemma shrink_unlink [kept_intros]:
  "kept (\<lambda>_. True) shrinks (unlinkat d c)" "kept (\<lambda>_. True) shrinks (unlink_beneath d c)"
proof -
  show "kept (\<lambda>_. True) shrinks (unlinkat d c)" for d c
    unfolding unlinkat_def by (rule sh.kept_sys_call) (auto simp: sh.refl shrinks_del split: option.splits node.splits)
  then show "kept (\<lambda>_. True) shrinks (unlink_beneath d c)"
    unfolding unlink_beneath_def by (intro kept_intros)
qed

section \<open>The store while it is swept\<close>

abbreviation fs_shrinks :: "('m, 'f, 'l) fs_store \<Rightarrow> ('m, 'f, 'l) fs_store \<Rightarrow> bool" where
  "fs_shrinks \<equiv> via_os shrinks"

lemma fsh_sweep_stale_uploads: "kept (\<lambda>_. True) fs_shrinks sweep_stale_uploads"
  unfolding sweep_stale_uploads_def expire_pending_def expire_upload_def stale_uploads_of_def session_lock_def
    take_pending_def drop_session_def still_stale_def
  by (intro kept_intros sh.fsr.kept_try_each sh.kept_collect_each) auto

text \<open>What the sweep of one candidate changes.\<close>

definition swept :: "('x, 'm, 'f, 'l) deps \<Rightarrow> string \<Rightarrow> string \<Rightarrow> ('m, 'f, 'l) fs_store \<Rightarrow> ('m, 'f, 'l) fs_store \<Rightarrow> bool" where
  "swept D repo ds s s' \<longleftrightarrow> fs_shrinks s s' \<and> fs_gc s' \<in> {fs_gc s, gc_clear repo ds (fs_gc s)}
     \<and> fs_meta s' \<in> {fs_meta s, snd (mt_apply_relaxed (dp_meta D) (DeleteBlob repo ds) (fs_meta s))}"

lemma swept_refl: "swept D repo ds s s"
  by (simp add: swept_def via_os_def sh.refl)

lemma collect_swept: "swept D repo ds s (snd (collect_blob D repo ds dir leaf s))"
proof -
  have st: "wp (on_os (stat_beneath (dir @ [leaf]))) (\<lambda>r s'. fs_gc s' = fs_gc s \<and> fs_meta s' = fs_meta s \<and> shrinks (fs_os s) (fs_os s')) s"
    using sh.quiet_beneath(1) [of "dir @ [leaf]"] by (simp add: safe_def on_os_def wp_on_part)
  have un: "wp (on_os (unlink_beneath dir leaf)) (\<lambda>r s'. fs_gc s' = fs_gc s \<and> fs_meta s' = fs_meta s \<and> shrinks (fs_os s) (fs_os s')) t"
    if "fs_gc t = fs_gc s \<and> fs_meta t = fs_meta s \<and> shrinks (fs_os s) (fs_os t)" for t
  proof -
    have "wp (unlink_beneath dir leaf) (\<lambda>r. shrinks (fs_os t)) (fs_os t)"
      using shrink_unlink(2) [of dir leaf] by (simp add: safe_def)
    then show ?thesis
      using that sh.trans by (auto simp: on_os_def wp_on_part elim!: wp_mono)
  qed
  have "wp (collect_blob D repo ds dir leaf) (\<lambda>r s'. swept D repo ds s s') s"
    unfolding collect_blob_def wp_observe
  proof (rule wp_mono [OF st], goal_cases)
    case (1 r t)
    show ?case
    proof (cases "\<exists>sz. r = Inr (Some (True, sz))")
      case True
      then obtain sz where r: "r = Inr (Some (True, sz))" by blast
      show ?thesis
        unfolding r sum.case option.case prod.case bool.case wp_observe
        by (rule wp_mono [OF un [OF 1]])
          (auto simp: wp_simps clear_candidate_def blob_left_def note_blob_left_def Let_def swept_def via_os_def split: sum.splits)
    next
      case False
      then show ?thesis
        using 1 by (auto simp: wp_simps clear_candidate_def swept_def via_os_def split: sum.splits option.splits bool.splits)
    qed
  qed
  then show ?thesis by (simp add: wp_def)
qed

lemma sweep_one_swept: "swept D repo ds s (snd (sweep_one D now (repo, ds) s))"
proof -
  have "swept D repo ds s (snd (clear_candidate repo ds s))"
    by (simp add: clear_candidate_def modify_def swept_def via_os_def sh.refl)
  then show ?thesis
    using collect_swept swept_refl
    by (auto simp: sweep_one_def and_do_def observe_def gets_def ret_def split: sum.splits)
qed

lemma fsh_sweep_one: "kept (\<lambda>_. True) fs_shrinks (sweep_one D now k)"
proof (cases k)
  case (Pair repo ds)
  show ?thesis
    unfolding Pair safe_def wp_def by (intro allI impI conjI conjunct1 [OF sweep_one_swept [unfolded swept_def]] TrueI)
qed

lemma gone_stays: "kept (\<lambda>_. True) fs_shrinks m \<Longrightarrow> file_at (fs_os s) p = None \<Longrightarrow> file_at (fs_os (snd (m s))) p = None"
  by (rule shrinks_file [OF safe_snd [where E = fs_shrinks, unfolded via_os_def]]) (simp_all add: via_os_def [abs_def])

lemma gone_and_do:
  "file_at (fs_os (snd (m s))) p = None \<Longrightarrow> (\<And>x. kept (\<lambda>_. True) fs_shrinks (f x)) \<Longrightarrow> file_at (fs_os (snd (and_do m f s))) p = None"
  using gone_stays by (cases "m s"; cases "fst (m s)") (auto simp: and_do_def observe_def fail_def)

section \<open>A candidate waiting to be collected\<close>

definition unprotected_meta :: "'a ext_api_scheme \<Rightarrow> string \<Rightarrow> string \<Rightarrow> log_engine \<Rightarrow> bool" where
  "unprotected_meta E repo ds m \<longleftrightarrow> log_meta_inv E m \<and> mt_backrefs (log_meta E) m repo ds = []
     \<and> mt_manifest_media_type (log_meta E) m repo ds = None"

lemma unprotected_meta_kept:
  assumes "unprotected_meta E repo ds m"
  shows "unprotected_meta E repo ds (snd (mt_apply_relaxed (log_meta E) (DeleteBlob r x) m))"
proof -
  obtain res m' where m': "mt_apply_relaxed (log_meta E) (DeleteBlob r x) m = (res, m')"
    by (cases "mt_apply_relaxed (log_meta E) (DeleteBlob r x) m")
  have inv: "log_meta_inv E m" using assms by (simp add: unprotected_meta_def)
  note l = log_trait.relaxed_law [OF inv TrueI m']
  then have inv': "log_meta_inv E m'" by simp
  have "v_backrefs (log_meta_view m') = v_backrefs (log_meta_view m)" "v_media (log_meta_view m') = v_media (log_meta_view m)"
    using l by auto
  then have "set (mt_backrefs (log_meta E) m' repo ds) = set (mt_backrefs (log_meta E) m repo ds)"
      "mt_manifest_media_type (log_meta E) m' repo ds = mt_manifest_media_type (log_meta E) m repo ds"
    using log_trait.backrefs_law [OF inv] log_trait.backrefs_law [OF inv'] log_trait.media_law [OF inv] log_trait.media_law [OF inv'] by auto
  then show ?thesis using assms inv' by (simp add: unprotected_meta_def m')
qed

definition collectable :: "('x, log_engine, 'f, 'l) deps \<Rightarrow> 'a ext_api_scheme \<Rightarrow> nat \<Rightarrow> string \<Rightarrow> string \<Rightarrow> (log_engine, 'f, 'l) fs_store \<Rightarrow> bool" where
  "collectable D E now repo ds s \<longleftrightarrow> guarded D (\<lambda>_. True) s \<and> calm (fs_os s) \<and> gc_is_due repo ds now (fs_gc s)
     \<and> \<not> gc_is_root repo ds (fs_gc s) \<and> \<not> gc_is_unsafe repo (fs_gc s) \<and> unprotected_meta E repo ds (fs_meta s)"

lemma gc_clear_other:
  "(r, x) \<noteq> (repo, ds) \<Longrightarrow> gc_is_due repo ds now (gc_clear r x g) = gc_is_due repo ds now g"
  "gc_is_root repo ds (gc_clear r x g) = gc_is_root repo ds g" "gc_is_unsafe repo (gc_clear r x g) = gc_is_unsafe repo g"
  by (auto simp: gc_is_due_def gc_is_root_def gc_is_unsafe_def gc_clear_def delete_conv split: option.splits)

lemma sweep_one_guarded:
  assumes "deps_ok D" "guarded D (\<lambda>_. True) s"
  shows "guarded D (\<lambda>_. True) (snd (sweep_one D now k s))"
proof -
  have "sweepable D (\<lambda>_. True) UNIV" by (simp add: sweepable_def)
  from safe_snd [OF guard_sweep_one [OF world_True [OF assms(1)] this] assms(2)] show ?thesis by (rule fs_gd.pres)
qed

lemma collectable_other:
  assumes "deps_ok D" "dp_meta D = log_meta E" "collectable D E now repo ds s" "k \<noteq> (repo, ds)"
  shows "collectable D E now repo ds (snd (sweep_one D now k s))"
proof -
  obtain r x where k: "k = (r, x)" by (cases k)
  have "swept D r x s (snd (sweep_one D now k s))" unfolding k by (rule sweep_one_swept)
  then show ?thesis
    using sweep_one_guarded [OF assms(1)] assms(2-4) unprotected_meta_kept gc_clear_other [where r = r and x = x and repo = repo] k
    unfolding collectable_def swept_def via_os_def shrinks_def by fastforce
qed

lemma collect_removes:
  assumes "base_inv D s" "calm (fs_os s)" "blob_dir_rel repo d = Inr (dir, leaf)"
  shows "file_at (fs_os (snd (collect_blob D repo ds dir leaf s))) (dir @ [leaf]) = None"
proof (cases "file_at (fs_os s) (dir @ [leaf])")
  case None
  then show ?thesis using collect_swept [of D repo ds s dir leaf] shrinks_file by (auto simp: swept_def via_os_def)
next
  case (Some x)
  then obtain i where i: "node_at (fs_os s) (dir @ [leaf]) = Some (Reg i)" by (auto simp: file_at_def split: option.splits node.splits)
  note in_d = base_inv_dirs [OF assms(1)]
  have "dir \<noteq> []" using assms(3) by (auto simp: blob_dir_rel_def and_then_Inr_iff)
  then have "on_os (unlink_beneath dir leaf) s = (Inr (), s\<lparr>fs_os := del_node (dir @ [leaf]) (fs_os s)\<rparr>)"
    using unlink_beneath_calm [OF assms(2) in_d _ i] by (simp add: on_os_def on_part_def)
  moreover have "on_os (stat_beneath (dir @ [leaf])) s = (Inr (Some (True, length (os_data (fs_os s) i))), s)"
    using stat_beneath_calm [OF assms(2) in_d i] by (simp add: on_os_def on_part_def)
  moreover have "file_at (del_node (dir @ [leaf]) t) (dir @ [leaf]) = None" for t
    by (simp add: file_at_def del_node_def node_at_def delete_conv)
  ultimately show ?thesis
    by (simp add: collect_blob_def observe_def blob_left_def modify_def split: prod.splits)
qed

lemma collectable_hit:
  assumes "dp_meta D = log_meta E" "collectable D E now repo (digest_display d) s" "digest_wf d" "blob_rel repo d = Inr p"
  shows "file_at (fs_os (snd (sweep_one D now (repo, digest_display d) s))) p = None"
proof -
  obtain dir leaf where p: "blob_dir_rel repo d = Inr (dir, leaf)" "p = dir @ [leaf]"
    using assms(4) by (auto simp: blob_rel_def and_then_Inr_iff)
  have "base_inv D s" "calm (fs_os s)" using assms(2) by (simp_all add: collectable_def fs_inv_def)
  from collect_removes [OF this p(1)] show ?thesis
    using assms(1,2) p by (simp add: sweep_one_def collectable_def unprotected_meta_def and_do_def observe_def gets_def
        parse_digest_display [OF assms(3)])
qed

lemma sweep_one_ok: "fst (sweep_one D now k s) = Inr ()"
proof (rule answers_unit)
  show "answers (sweep_one D now k)"
    unfolding sweep_one_def collect_blob_def clear_candidate_def blob_left_def by (intro answers_intros)
qed

lemma try_each_ok: "(\<And>x s. fst (f x s) = Inr ()) \<Longrightarrow> try_each f (x # xs) s = try_each f xs (snd (f x s))"
  by (simp add: and_do_def observe_def split: prod.splits) (metis fst_conv snd_conv sum.case(2))

lemma sweep_list_collects:
  assumes D: "deps_ok D" "dp_meta D = log_meta E" and d: "digest_wf d" "blob_rel repo d = Inr p"
  shows "collectable D E now repo (digest_display d) s \<Longrightarrow> (repo, digest_display d) \<in> set ks \<Longrightarrow>
     file_at (fs_os (snd (try_each (sweep_one D now) ks s))) p = None"
proof (induction ks arbitrary: s)
  case (Cons k ks)
  show ?case
  proof (cases "k = (repo, digest_display d)")
    case True
    show ?thesis
      unfolding True try_each_ok [where f = "sweep_one D now", OF sweep_one_ok]
      by (rule gone_stays [OF sh.fsr.kept_try_each [OF fsh_sweep_one] collectable_hit [OF D(2) Cons.prems(1) d]])
  next
    case False
    then show ?thesis
      unfolding try_each_ok [where f = "sweep_one D now", OF sweep_one_ok]
      using Cons.prems by (intro Cons.IH collectable_other [OF D]) auto
  qed
qed simp

text \<open>
  (C9) A due candidate is collected. When the sweep is ready, its repository is not set aside, the
  blob is not a root and neither a manifest nor referred to by one, then one sweep without failing
  system calls leaves no file of that blob, whatever other candidates and stale uploads it handles
  before and after.
\<close>

theorem due_candidate_collected:
  assumes "deps_ok D" "dp_meta D = log_meta E" and "reach D s" "log_meta_inv E (fs_meta s)" and "os_faults (fs_os s) = []"
    and "digest_wf d" "blob_rel repo d = Inr p" "gc_is_ready (fs_gc s)" "gc_is_due repo (digest_display d) now (fs_gc s)"
    and "\<not> gc_is_root repo (digest_display d) (fs_gc s)" "\<not> gc_is_unsafe repo (fs_gc s)"
    and "mt_backrefs (dp_meta D) (fs_meta s) repo (digest_display d) = []"
    and "mt_manifest_media_type (dp_meta D) (fs_meta s) repo (digest_display d) = None"
  shows "file_at (fs_os (run_event D (Ev_Sweep now) s)) p = None"
proof -
  let ?due = "gc_due now (fs_gc s)"
  have c: "collectable D E now repo (digest_display d) s"
    using reach_inv [OF assms(3,1)] assms(2,4,5,9-13) by (simp add: collectable_def unprotected_meta_def calm_def)
  have "(repo, digest_display d) \<in> set ?due"
    using assms(9) by (auto simp: gc_is_due_def gc_due_def split: option.splits dest!: map_of_SomeD) force
  then show ?thesis
    unfolding run_event.simps silent_def sweep_at_def and_do_def [of "gets _"] observe_def [of "gets _"] gets_def
    using assms(8) by (auto intro!: gone_and_do sweep_list_collects [OF assms(1,2,6,7) c] fsh_sweep_stale_uploads)
qed

theorem due_candidate_collected_witness:
  "file_at (fs_os sample_ready) [''a'', ''blobs'', ''sha256'', hex even_digest] \<noteq> None
   \<and> file_at (fs_os (run_event sample_deps (Ev_Sweep 100) sample_ready)) [''a'', ''blobs'', ''sha256'', hex even_digest] = None"
proof -
  have "log_meta_inv sample_ext (fs_meta sample_ready)" "os_faults (fs_os sample_ready) = []"
    using sample_meta_inv sample_calm by (simp_all add: sample_ready_eq calm_def)
  moreover have "gc_is_ready (fs_gc sample_ready)" "gc_is_due ''a'' (digest_display even_digest) 100 (fs_gc sample_ready)"
      "\<not> gc_is_root ''a'' (digest_display even_digest) (fs_gc sample_ready)" "\<not> gc_is_unsafe ''a'' (fs_gc sample_ready)"
    by (simp_all add: sample_ready_eq sample_gc_def gc_new_def gc_set_ready_def gc_is_ready_def gc_is_due_def gc_is_root_def gc_is_unsafe_def)
  moreover have "mt_backrefs (dp_meta sample_deps) (fs_meta sample_ready) ''a'' (digest_display even_digest) = []"
      "mt_manifest_media_type (dp_meta sample_deps) (fs_meta sample_ready) ''a'' (digest_display even_digest) = None"
    by (simp_all add: sample_ready_eq log_meta_queries sample_pushed_facts sample_meta_queries)
  moreover have "file_at (fs_os sample_ready) [''a'', ''blobs'', ''sha256'', hex even_digest] \<noteq> None"
    using sample_blob_file by (auto simp: blob_file_def sample_ready_eq sample_pushed_facts)
  ultimately show ?thesis
    using due_candidate_collected [OF sample_deps_ok sample_deps_simps(2) sample_reach_ready _ _ sample_digests_wf(1) sample_paths(5), of 100]
    by blast
qed

end
