(* ===== verification/Fs_Scrub.thy ===== *)
theory Fs_Scrub
  imports Fs_Gc "HOL-Library.Product_Lexorder" "HOL-Library.Multiset"
begin

text \<open>
  Data scrubbing (\<open>roci-storage/src/fs_storage/scrub.rs\<close>): a pass over all blobs, staggered over the
  repositories, that compares checksums, hashes again where they differ, and moves corrupt blobs and
  their hard-linked copies into quarantine. The limit on the read bandwidth delays the visits and does
  not change them.
\<close>

section \<open>Order of the visits\<close>

datatype blob_entry = BlobEntry (be_repo: string) (be_digest: string) (be_size: u64)

text \<open>The derived order compares the fields one after the other.\<close>

instantiation blob_entry :: linorder
begin

definition less_eq_blob_entry :: "blob_entry \<Rightarrow> blob_entry \<Rightarrow> bool" where
  "less_eq_blob_entry x y \<longleftrightarrow> (be_repo x, be_digest x, be_size x) \<le> (be_repo y, be_digest y, be_size y)"

definition less_blob_entry :: "blob_entry \<Rightarrow> blob_entry \<Rightarrow> bool" where
  "less_blob_entry x y \<longleftrightarrow> (be_repo x, be_digest x, be_size x) < (be_repo y, be_digest y, be_size y)"

instance
  by standard (auto simp: less_eq_blob_entry_def less_blob_entry_def intro: blob_entry.expand)

end

record segment =
  sg_blobs :: "blob_entry list"

definition push_entry :: "blob_entry \<Rightarrow> segment list \<Rightarrow> segment list" where
  "push_entry entry segments =
     (if segments = [] \<or> sg_blobs (last segments) = [] \<or> be_repo (last (sg_blobs (last segments))) \<noteq> be_repo entry
      then segments @ [\<lparr>sg_blobs = [entry]\<rparr>]
      else butlast segments @ [\<lparr>sg_blobs = sg_blobs (last segments) @ [entry]\<rparr>])"

definition entry_of :: "string \<times> digest \<times> string \<Rightarrow> (os, 'e, blob_entry list) act" where
  "entry_of = (\<lambda>(repo, d, name).
     observe (statat (split_on CHR ''/'' repo @ [''blobs'', algorithm d]) name) (\<lambda>st.
       ret [BlobEntry repo (digest_display d) (case st of Inr st \<Rightarrow> of_nat (st_size st) | Inl _ \<Rightarrow> 0)]))"

definition enumerate_segments :: "(os, 'e, segment list) act" where
  "enumerate_segments =
     and_do for_each_cas_entry (\<lambda>blobs.
     and_do (collect_each entry_of blobs) (\<lambda>entries. ret (fold push_entry (sort entries) [])))"

definition staggered_order :: "segment list \<Rightarrow> (nat \<times> nat) list" where
  "staggered_order segments =
     (let max_len = fold max (map (length \<circ> sg_blobs) segments) 0 in
      concat (map (\<lambda>round. List.map_filter (\<lambda>(seg_idx, seg). if round < length (sg_blobs seg) then Some (seg_idx, round) else None)
                     (zip [0..<length segments] segments)) [0..<max_len]))"

definition adaptive_reorder :: "(nat \<times> nat) list \<Rightarrow> nat \<Rightarrow> nat \<Rightarrow> (nat \<times> nat) list" where
  "adaptive_reorder order already_done corrupt_seg =
     (let remaining = drop already_done order in
      filter (\<lambda>(si, _). si = corrupt_seg) remaining @ filter (\<lambda>(si, _). si \<noteq> corrupt_seg) remaining)"

section \<open>Quarantine\<close>

definition QUARANTINE_DIR :: string where
  "QUARANTINE_DIR = ''.roci-quarantine''"

definition quarantine_leaf :: "nat \<Rightarrow> string \<Rightarrow> string \<Rightarrow> string" where
  "quarantine_leaf ts repo digest =
     concat (map (\<lambda>c. if c = CHR ''/'' then ''__'' else [c]) repo) @ ''---''
     @ map (\<lambda>c. if c = CHR '':'' then CHR ''_'' else c) digest @ ''---'' @ show_nat ts"

definition quarantine_blob :: "string \<Rightarrow> digest \<Rightarrow> string \<Rightarrow> unit io" where
  "quarantine_blob repo d digest_str =
     (case blob_dir_rel repo d of
        Inl e \<Rightarrow> fail (Io_Error KInvalidInput (storage_error_display e))
      | Inr (from_dir, from_leaf) \<Rightarrow>
          and_do (gets (\<lambda>t. quarantine_leaf (1000 * os_time t) repo digest_str)) (\<lambda>to_leaf.
          and_do (dir_beneath from_dir False) (\<lambda>from_fd.
          and_do (dir_beneath [QUARANTINE_DIR] True) (\<lambda>to_fd.
          and_do (io (rename_replace from_fd from_leaf to_fd to_leaf)) (\<lambda>_. io fsync)))))"

text \<open>The repositories whose blob of that digest is the same inode.\<close>

definition linked_copy :: "digest \<Rightarrow> nat \<Rightarrow> string \<Rightarrow> string \<times> digest \<times> string \<Rightarrow> (os, 'e, (string \<times> u64) list) act" where
  "linked_copy d corrupt_ino already_repo = (\<lambda>(r, x, name).
     if digest_display x \<noteq> digest_display d \<or> r = already_repo then ret []
     else observe (statat (split_on CHR ''/'' r @ [''blobs'', algorithm x]) name) (\<lambda>st. ret (case st of
            Inr st \<Rightarrow> if st_ino st = Some corrupt_ino then [(r, of_nat (st_size st))] else []
          | Inl _ \<Rightarrow> [])))"

definition quarantine_hard_linked_copies :: "('x, 'm, 'f, 'l) deps \<Rightarrow> string \<Rightarrow> digest \<Rightarrow> nat \<Rightarrow> string
    \<Rightarrow> ('m, 'f, 'l, 'e, unit) fs_act" where
  "quarantine_hard_linked_copies D digest_str d corrupt_ino already_repo =
     and_do (on_os (and_do for_each_cas_entry (collect_each (linked_copy d corrupt_ino already_repo)))) (\<lambda>linked.
     try_each (\<lambda>(other_repo, sz).
       observe (on_os (quarantine_blob other_repo d digest_str)) (\<lambda>r. case r of
         Inr _ \<Rightarrow> blob_left D other_repo digest_str (Some sz)
       | Inl _ \<Rightarrow> ret ())) linked)"

section \<open>One blob\<close>

datatype scrub_result = Scrub_Ok | Repaired | Corrupt | Skipped

text \<open>The read loop over the file, a buffer of 64 KiB at a time.\<close>

function crc_loop :: "'a hash_api_scheme \<Rightarrow> u32 \<Rightarrow> u64 \<Rightarrow> bytes \<Rightarrow> u32 \<times> u64" where
  "crc_loop H crc n rest =
     (if rest = [] then (crc, n)
      else let buf = take 65536 rest in crc_loop H (crc32c_append H crc buf) (n + of_nat (length buf)) (drop 65536 rest))"
  by auto
termination by (relation "measure (\<lambda>(H, crc, n, rest). length rest)") auto

declare crc_loop.simps [simp del]

definition crc32c_of_file :: "'x ext_api_scheme \<Rightarrow> nat \<Rightarrow> (u32 \<times> u64) io" where
  "crc32c_of_file E f = and_do (io (read_to_end f)) (\<lambda>b. ret (crc_loop E 0 0 b))"

text \<open>The fast path: the recorded checksum against the file; no result leads to the full hash.\<close>

definition check_crc :: "'x ext_api_scheme \<Rightarrow> blob_checksum option \<Rightarrow> nat \<Rightarrow> nat \<Rightarrow> (os, 'e, (scrub_result \<times> u64) option) act" where
  "check_crc E recorded file_size f =
     (case recorded of
        Some cksum \<Rightarrow>
          if ck_size cksum = of_nat file_size
          then observe (crc32c_of_file E f) (\<lambda>r. ret (case r of
                 Inr (crc, bytes_read) \<Rightarrow> if crc = ck_crc32c cksum then Some (Scrub_Ok, bytes_read) else None
               | Inl _ \<Rightarrow> Some (Skipped, 0)))
          else ret None
      | None \<Rightarrow> ret None)"

definition quarantine_corrupt :: "('x, 'm, 'f, 'l) deps \<Rightarrow> string \<Rightarrow> string \<Rightarrow> digest \<Rightarrow> path \<Rightarrow> nat \<Rightarrow> u64
    \<Rightarrow> ('m, 'f, 'l, 'e, scrub_result \<times> u64) fs_act" where
  "quarantine_corrupt D repo digest_str d rel hashed_ino file_size =
     observe (on_os (statat (butlast rel) (last rel))) (\<lambda>st. case st of
       Inl _ \<Rightarrow> ret (Corrupt, file_size)
     | Inr st \<Rightarrow>
         if st_ino st \<noteq> Some hashed_ino then ret (Corrupt, file_size)
         else observe (on_os (quarantine_blob repo d digest_str)) (\<lambda>r. case r of
                Inl _ \<Rightarrow> ret (Corrupt, file_size)
              | Inr _ \<Rightarrow>
                  and_do (blob_left D repo digest_str (Some file_size)) (\<lambda>_.
                  and_do (quarantine_hard_linked_copies D digest_str d hashed_ino repo) (\<lambda>_.
                  ret (Corrupt, file_size)))))"

definition hash_file :: "'x ext_api_scheme \<Rightarrow> path \<Rightarrow> string \<Rightarrow> (nat \<times> digest \<times> u32) io" where
  "hash_file E rel alg =
     and_do (open_beneath rel) (\<lambda>f.
     and_do (io (fstat (File_Fd f))) (\<lambda>_.
     and_do (io (read_to_end f)) (\<lambda>data.
     and_do (lift_res (hash_reader E [Inr data] alg)) (\<lambda>(d, crc). ret (f, d, crc)))))"

definition scrub_rehash :: "('x, 'm, 'f, 'l) deps \<Rightarrow> string \<Rightarrow> string \<Rightarrow> digest \<Rightarrow> path \<Rightarrow> bool \<Rightarrow> u64
    \<Rightarrow> ('m, 'f, 'l, 'e, scrub_result \<times> u64) fs_act" where
  "scrub_rehash D repo digest_str d rel had_record file_size =
     observe (on_os (hash_file (dp_ext D) rel (algorithm d))) (\<lambda>r. case r of
       Inl _ \<Rightarrow> ret (Skipped, 0)
     | Inr (hashed_ino, computed_digest, computed_crc) \<Rightarrow>
         if digest_ct_eq computed_digest d
         then and_do (modify (\<lambda>s. s\<lparr>fs_meta := snd (mt_apply_relaxed (dp_meta D)
                        (PutChecksum repo digest_str computed_crc file_size) (fs_meta s))\<rparr>)) (\<lambda>_.
              ret (if had_record then Repaired else Scrub_Ok, file_size))
         else quarantine_corrupt D repo digest_str d rel hashed_ino file_size)"

definition open_for_scrub :: "path \<Rightarrow> (nat \<times> nat) io" where
  "open_for_scrub rel =
     and_do (open_beneath rel) (\<lambda>f. and_do (io (fstat (File_Fd f))) (\<lambda>st. ret (f, st_size st)))"

definition scrub_one_blob :: "('x, 'm, 'f, 'l) deps \<Rightarrow> string \<Rightarrow> string \<Rightarrow> ('m, 'f, 'l, 'e, scrub_result \<times> u64) fs_act" where
  "scrub_one_blob D repo digest_str =
     (case parse_digest digest_str of
        Inl _ \<Rightarrow> ret (Skipped, 0)
      | Inr d \<Rightarrow>
          (case blob_rel repo d of
             Inl _ \<Rightarrow> ret (Skipped, 0)
           | Inr rel \<Rightarrow>
               observe (on_os (open_for_scrub rel)) (\<lambda>r. case r of
                 Inl _ \<Rightarrow> ret (Skipped, 0)
               | Inr (f, file_size) \<Rightarrow>
                   and_do (gets (\<lambda>s. mt_checksum (dp_meta D) (fs_meta s) repo digest_str)) (\<lambda>recorded.
                   and_do (on_os (check_crc (dp_ext D) recorded file_size f)) (\<lambda>fast. case fast of
                     Some r \<Rightarrow> ret r
                   | None \<Rightarrow> scrub_rehash D repo digest_str d rel (recorded \<noteq> None) (of_nat file_size))))))"

section \<open>A pass\<close>

record scrub_counts =
  sc_ok :: u64
  sc_repaired :: u64
  sc_corrupt :: u64
  sc_skipped :: u64
  sc_bytes :: u64

definition count_result :: "scrub_result \<Rightarrow> u64 \<Rightarrow> scrub_counts \<Rightarrow> scrub_counts" where
  "count_result r n c =
     (let c1 = (case r of Scrub_Ok \<Rightarrow> c\<lparr>sc_ok := sc_ok c + 1\<rparr> | Repaired \<Rightarrow> c\<lparr>sc_repaired := sc_repaired c + 1\<rparr>
                | Corrupt \<Rightarrow> c\<lparr>sc_corrupt := sc_corrupt c + 1\<rparr> | Skipped \<Rightarrow> c\<lparr>sc_skipped := sc_skipped c + 1\<rparr>)
      in c1\<lparr>sc_bytes := sc_bytes c1 + n\<rparr>)"

lemma adaptive_reorder_mset: "mset (adaptive_reorder order n seg) = mset (drop n order)"
  by (simp add: adaptive_reorder_def Let_def case_prod_beta)

lemma adaptive_reorder_length [simp]: "length (adaptive_reorder order n seg) = length order - n"
  using adaptive_reorder_mset [of order n seg] by (metis length_drop size_mset)

text \<open>The loop of the pass over \<open>current_order\<close> from \<open>pos\<close> on.\<close>

function scrub_loop :: "('x, 'm, 'f, 'l) deps \<Rightarrow> segment list \<Rightarrow> (nat \<times> nat) list \<Rightarrow> nat \<Rightarrow> scrub_counts
    \<Rightarrow> ('m, 'f, 'l, 'e, scrub_counts) fs_act" where
  "scrub_loop D segments current_order pos counts =
     (if length current_order \<le> pos then ret counts
      else
        let (seg_idx, blob_idx) = current_order ! pos;
            entry = sg_blobs (segments ! seg_idx) ! blob_idx
        in and_do (scrub_one_blob D (be_repo entry) (be_digest entry)) (\<lambda>(result, n).
           scrub_loop D segments
             (if result = Corrupt then take (pos + 1) current_order @ adaptive_reorder current_order (pos + 1) seg_idx else current_order)
             (pos + 1) (count_result result n counts)))"
  by auto
termination by (relation "measure (\<lambda>(D, segments, current_order, pos, counts). length current_order - pos)") auto

declare scrub_loop.simps [simp del]

definition scrub_pass :: "('x, 'm, 'f, 'l) deps \<Rightarrow> ('m, 'f, 'l, 'e, unit) fs_act" where
  "scrub_pass D =
     and_do (on_os enumerate_segments) (\<lambda>segments.
     if segments = [] then ret ()
     else and_do (scrub_loop D segments (staggered_order segments) 0
            \<lparr>sc_ok = 0, sc_repaired = 0, sc_corrupt = 0, sc_skipped = 0, sc_bytes = 0\<rparr>) (\<lambda>_. ret ()))"

end
