(* ===== verification/Scrub_Safety.thy ===== *)
theory Scrub_Safety
  imports Fs_Scrub Os_Frame Gc_Candidates Sample_Runs
begin

text \<open>
  What a scrub pass does to the store: it visits every enumerated blob exactly once, whatever the
  corruption found on the way makes of the order, and it never moves a blob whose bytes have the digest
  of its name, in any state of the tree and under any schedule of faults.
\<close>

section \<open>The order of the visits\<close>

lemma concat_push_entry: "concat (map sg_blobs (push_entry e segs)) = concat (map sg_blobs segs) @ [e]"
proof (cases segs rule: rev_cases)
  case (snoc ys y)
  then show ?thesis by (simp add: push_entry_def)
qed (simp add: push_entry_def)

lemma concat_segments: "concat (map sg_blobs (fold push_entry es segs)) = concat (map sg_blobs segs) @ es"
  by (induction es arbitrary: segs) (simp_all add: concat_push_entry)

lemma fold_max_ge: "x \<in> set xs \<or> x \<le> m \<Longrightarrow> x \<le> fold max xs (m :: nat)"
  by (induction xs arbitrary: m) (simp_all, metis le_max_iff_disj le_refl)

definition round_of :: "segment list \<Rightarrow> nat \<Rightarrow> (nat \<times> nat) list" where
  "round_of segs r = List.map_filter (\<lambda>(i, seg). if r < length (sg_blobs seg) then Some (i, r) else None) (zip [0..<length segs] segs)"

lemma round_of_filter: "round_of segs r = map (\<lambda>i. (i, r)) (filter (\<lambda>i. r < length (sg_blobs (segs ! i))) [0..<length segs])"
proof -
  have "zip [0..<length segs] segs = map (\<lambda>i. (i, segs ! i)) [0..<length segs]" by (rule nth_equalityI) auto
  moreover have "List.map_filter (\<lambda>(i, seg). if r < length (sg_blobs seg) then Some (i, r) else None) (map (\<lambda>i. (i, segs ! i)) is)
      = map (\<lambda>i. (i, r)) (filter (\<lambda>i. r < length (sg_blobs (segs ! i))) is)" for "is"
    by (induction "is") (auto simp: List.map_filter_def)
  ultimately show ?thesis by (simp add: round_of_def)
qed

lemma set_round_of: "set (round_of segs r) = {(i, j). i < length segs \<and> j = r \<and> r < length (sg_blobs (segs ! i))}"
  by (auto simp: round_of_filter)

lemma distinct_round_of: "distinct (round_of segs r)"
  by (simp add: round_of_filter distinct_map inj_on_def)

lemma distinct_rounds: "distinct (concat (map (round_of segs) [0..<n])) \<and> (\<forall>(i, j) \<in> set (concat (map (round_of segs) [0..<n])). j < n)"
  by (induction n) (auto simp: distinct_round_of set_round_of)

definition places :: "segment list \<Rightarrow> (nat \<times> nat) list" where
  "places segs = concat (map (\<lambda>i. map (Pair i) [0..<length (sg_blobs (segs ! i))]) [0..<length segs])"

lemma distinct_places: "distinct (concat (map (\<lambda>i. map (Pair i) (f i)) [0..<n]) :: (nat \<times> nat) list)" if "\<And>i. distinct (f i)"
  using that by (induction n) (auto simp: distinct_map inj_on_def)

lemma mset_staggered: "mset (staggered_order segs) = mset (places segs)"
proof -
  let ?n = "fold max (map (length \<circ> sg_blobs) segs) 0"
  have so: "staggered_order segs = concat (map (round_of segs) [0..<?n])"
    unfolding staggered_order_def Let_def round_of_def [abs_def] ..
  have len: "length (sg_blobs (segs ! i)) \<le> ?n" if "i < length segs" for i
    using that by (intro fold_max_ge) auto
  have "set (staggered_order segs) = set (places segs)"
    unfolding so places_def using len by (auto simp: set_round_of) (use order_less_le_trans in blast)
  moreover have "distinct (staggered_order segs)" using so distinct_rounds by simp
  moreover have "distinct (places segs)" unfolding places_def by (rule distinct_places) simp
  ultimately show ?thesis by (simp add: set_eq_iff_mset_eq_distinct)
qed

definition entry_at :: "segment list \<Rightarrow> nat \<times> nat \<Rightarrow> blob_entry" where
  "entry_at segs = (\<lambda>(i, j). sg_blobs (segs ! i) ! j)"

lemma map_places: "map (entry_at segs) (places segs) = concat (map sg_blobs segs)"
proof -
  have "map (entry_at segs) (places segs) = concat (map (\<lambda>i. sg_blobs (segs ! i)) [0..<length segs])"
    by (simp add: places_def map_concat comp_def entry_at_def map_nth)
  also have "map (\<lambda>i. sg_blobs (segs ! i)) [0..<length segs] = map sg_blobs segs"
    by (rule nth_equalityI) auto
  finally show ?thesis .
qed

definition visit_entry :: "('x, 'm, 'f, 'l) deps \<Rightarrow> blob_entry \<Rightarrow> ('m, 'f, 'l, 'e, unit) fs_act" where
  "visit_entry D e = and_do (scrub_one_blob D (be_repo e) (be_digest e)) (\<lambda>_. ret ())"

lemma answers_scrub_one_blob: "answers (scrub_one_blob D repo digest)"
  unfolding scrub_one_blob_def scrub_rehash_def quarantine_corrupt_def quarantine_hard_linked_copies_def linked_copy_def
    check_crc_def blob_left_def
  by (intro answers_intros)

lemma scrub_loop_step:
  assumes "pos < length order" "scrub_one_blob D (be_repo e) (be_digest e) s = ((Inr (result, n), s1) :: ('e + scrub_result \<times> u64) \<times> _)" "e = entry_at segs (order ! pos)"
  shows "scrub_loop D segs order pos counts s =
    (scrub_loop D segs (if result = Corrupt then take (pos + 1) order @ adaptive_reorder order (pos + 1) (fst (order ! pos)) else order)
      (pos + 1) (count_result result n counts) (s1 :: ('m, 'f, 'l) fs_store) :: ('e + scrub_counts) \<times> _)"
  using assms by (subst scrub_loop.simps) (simp add: and_do_def observe_def entry_at_def Let_def split: prod.splits)

lemma drop_reorder:
  "pos < length order \<Longrightarrow> mset (drop (pos + 1) (if b then take (pos + 1) order @ adaptive_reorder order (pos + 1) i else order)) = mset (drop (pos + 1) order)"
  by (simp add: adaptive_reorder_mset)

lemma scrub_loop_visits:
  "\<exists>vs. mset vs = mset (map (entry_at segs) (drop pos order))
     \<and> and_do (scrub_loop D segs order pos counts) (\<lambda>_. ret ()) s = (try_each (visit_entry D) vs s :: ('e + unit) \<times> _)"
proof (induction "length order - pos" arbitrary: order pos counts s)
  case 0
  then show ?case by (intro exI [of _ "[]"]) (simp add: scrub_loop.simps and_do_def observe_def ret_def)
next
  case (Suc k)
  then have pos: "pos < length order" by simp
  define e where "e = entry_at segs (order ! pos)"
  obtain x s1 where one: "scrub_one_blob D (be_repo e) (be_digest e) s = ((Inr x, s1) :: ('e + _) \<times> _)"
    using answers_run [OF answers_scrub_one_blob] by blast
  obtain result n where x: "x = (result, n)" by (cases x)
  let ?order = "if result = Corrupt then take (pos + 1) order @ adaptive_reorder order (pos + 1) (fst (order ! pos)) else order"
  have "k = length ?order - (pos + 1)" using Suc.hyps(2) pos by auto
  from Suc.hyps(1) [OF this, of "count_result result n counts" s1] obtain vs
    where vs: "mset vs = mset (map (entry_at segs) (drop (pos + 1) ?order))"
      and run: "and_do (scrub_loop D segs ?order (pos + 1) (count_result result n counts)) (\<lambda>_. ret ()) s1
        = (try_each (visit_entry D) vs s1 :: ('e + unit) \<times> _)"
    by (elim exE conjE)
  have "mset (e # vs) = mset (map (entry_at segs) (drop pos order))"
    using vs drop_reorder [OF pos, of "result = Corrupt" "fst (order ! pos)"] pos
    by (simp add: e_def Cons_nth_drop_Suc [symmetric])
  moreover have "and_do (scrub_loop D segs order pos counts) (\<lambda>_. ret ()) s
      = (try_each (visit_entry D) (e # vs) s :: ('e + unit) \<times> _)"
    using scrub_loop_step [OF pos one [unfolded x] e_def] run one x
    by (simp add: visit_entry_def and_do_def observe_def ret_def)
  ultimately show ?case by blast
qed

text \<open>
  (C13) A pass is a run over all blobs. The enumeration always returns; the pass then acts on the store
  exactly like one visit to each enumerated blob, every blob once, in an order that the corruption found
  on the way may change.
\<close>

theorem scrub_visits_every_blob:
  "\<exists>es t vs. and_do for_each_cas_entry (collect_each entry_of) (fs_os s) = ((Inr es, t) :: ('e + _) \<times> _)
     \<and> mset vs = mset es
     \<and> scrub_pass D s = (try_each (visit_entry D) vs (s\<lparr>fs_os := t\<rparr>) :: ('e + unit) \<times> _)"
proof -
  have "answers (and_do for_each_cas_entry (collect_each entry_of) :: (os, 'e, blob_entry list) act)"
    unfolding entry_of_def by (intro answers_intros)
  from answers_run [OF this, of "fs_os s"] obtain es t where es: "and_do for_each_cas_entry (collect_each entry_of) (fs_os s) = ((Inr es, t) :: ('e + _) \<times> _)"
    by blast
  define segs where "segs = fold push_entry (sort es) []"
  have enum: "on_os enumerate_segments s = ((Inr segs, s\<lparr>fs_os := t\<rparr>) :: ('e + _) \<times> _)"
    unfolding on_os_def on_part_def enumerate_segments_def segs_def
    using es by (auto simp: and_do_def observe_def ret_def fail_def split: prod.splits sum.splits)
  have entries: "concat (map sg_blobs segs) = sort es" unfolding segs_def by (simp add: concat_segments)
  obtain vs where vs: "mset vs = mset (map (entry_at segs) (drop 0 (staggered_order segs)))"
      "and_do (scrub_loop D segs (staggered_order segs) 0
         \<lparr>sc_ok = 0, sc_repaired = 0, sc_corrupt = 0, sc_skipped = 0, sc_bytes = 0\<rparr>) (\<lambda>_. ret ()) (s\<lparr>fs_os := t\<rparr>)
       = (try_each (visit_entry D) vs (s\<lparr>fs_os := t\<rparr>) :: ('e + unit) \<times> _)"
    using scrub_loop_visits by blast
  have ms: "mset vs = mset es"
    using vs(1) mset_staggered [of segs] map_places [of segs] entries by (metis drop0 mset_map mset_sort)
  have "scrub_pass D s = (try_each (visit_entry D) vs (s\<lparr>fs_os := t\<rparr>) :: ('e + unit) \<times> _)"
  proof (cases "segs = []")
    case True
    then have "es = []" using entries by (metis concat.simps(1) list.simps(8) mset_sort mset_zero_iff_right)
    then have "vs = []" using ms by simp
    then show ?thesis using True enum by (simp add: scrub_pass_def and_do_def observe_def)
  next
    case False
    then show ?thesis using vs(2) enum by (simp add: scrub_pass_def and_do_def observe_def)
  qed
  with es ms show ?thesis by blast
qed

section \<open>Intact blobs stay\<close>

definition intact :: "'a hash_api_scheme \<Rightarrow> os \<Rightarrow> path \<Rightarrow> bool" where
  "intact H t p \<longleftrightarrow> (\<exists>i d. node_at t p = Some (Reg i) \<and> cas_digest p = Some d \<and> digest_of H (os_data t i) (algorithm d) = d)"

text \<open>Files are only moved away, never an intact blob, and no file appears among the blobs.\<close>

definition spares :: "'a hash_api_scheme \<Rightarrow> os \<Rightarrow> os \<Rightarrow> bool" where
  "spares H t t' \<longleftrightarrow> os_data t' = os_data t \<and> (\<forall>p. intact H t p \<longrightarrow> node_at t' p = node_at t p)
     \<and> (\<forall>p i. 3 \<le> length p \<longrightarrow> node_at t' p = Some (Reg i) \<longrightarrow> node_at t p = Some (Reg i))"

text \<open>Names of files in a blob directory are in lower case, as the store writes them.\<close>

definition lower_names :: "os \<Rightarrow> bool" where
  "lower_names t \<longleftrightarrow> (\<forall>r alg c i. node_at t (r @ [''blobs'', alg, c]) = Some (Reg i) \<longrightarrow> to_ascii_lowercase c = c)"

lemma cas_digest_length: "cas_digest p = Some d \<Longrightarrow> 3 \<le> length p"
  by (auto simp: cas_digest_def split: if_splits)

lemma intact_spared: "spares H t t' \<Longrightarrow> intact H t' p \<longleftrightarrow> intact H t p"
  unfolding spares_def intact_def by (metis cas_digest_length)

interpretation sp: os_relation "spares H" for H :: "'a hash_api_scheme"
proof
  fix t :: os
  show "spares H t t" by (simp add: spares_def)
next
  fix t u v :: os
  assume a: "spares H t u" "spares H u v"
  show "spares H t v" using intact_spared [OF a(1)] a unfolding spares_def by metis
next
  fix t :: os and f fs
  assume "os_faults t = f # fs"
  show "spares H t (t\<lparr>os_faults := fs\<rparr>)" by (simp add: spares_def node_at_def)
qed simp

interpretation sv: evolution "spares H t0" "\<lambda>_. spares H t0" for H :: "'a hash_api_scheme" and t0
  by unfold_locales

interpretation fsv: evolution "\<lambda>s. spares H t0 (fs_os s)" "\<lambda>_ s. spares H t0 (fs_os s)" for H :: "'a hash_api_scheme" and t0
  by unfold_locales

abbreviation sparing :: "'a hash_api_scheme \<Rightarrow> os \<Rightarrow> (os, 'e, 'b) act \<Rightarrow> ('b \<Rightarrow> bool) \<Rightarrow> bool" where
  "sparing H t0 m R \<equiv> safe (spares H t0) (\<lambda>_. spares H t0) m R"

abbreviation fs_sparing :: "'a hash_api_scheme \<Rightarrow> os \<Rightarrow> ('m, 'f, 'l, 'e, 'b) fs_act \<Rightarrow> bool" where
  "fs_sparing H t0 m \<equiv> kept (\<lambda>s. spares H t0 (fs_os s)) (\<lambda>_ s. spares H t0 (fs_os s)) m"

text \<open>A quiet call is sparing, with any property of its result.\<close>

lemma sparing_result:
  assumes "kept (\<lambda>_. True) (spares H) m" "\<And>t r t'. spares H t0 t \<Longrightarrow> m t = (Inr r, t') \<Longrightarrow> R r"
  shows "sparing H t0 m R"
  unfolding safe_def wp_def
proof (intro allI impI conjI)
  fix t assume t: "spares H t0 t"
  obtain r t' where m: "m t = (r, t')" by (cases "m t")
  have "spares H t t'" using assms(1) m by (auto simp: safe_def wp_def) (metis snd_conv)
  then show "spares H t0 (snd (m t))" using t m sp.trans by auto
  fix x assume "fst (m t) = Inr x"
  then show "R x" using assms(2) [OF t] m by simp
qed

lemmas sparing_quiet = sparing_result [where R = "\<lambda>_. True", simplified]

lemmas sparing_calls [kept_intros] =
  sp.quiet_calls(1-10) [THEN sparing_quiet] sp.quiet_beneath [THEN sparing_quiet] sp.quiet_walks [THEN sparing_quiet]

lemma sparing_io [kept_intros]: "kept (spares H t0) (\<lambda>_. spares H t0) m \<Longrightarrow> kept (spares H t0) (\<lambda>_. spares H t0) (io m)"
  unfolding io_def by (rule sv.kept_err_map)

lemma fs_on_os: "sparing H t0 m R \<Longrightarrow> safe (\<lambda>s. spares H t0 (fs_os s)) (\<lambda>_ s. spares H t0 (fs_os s)) (on_os m) R"
  by (simp add: safe_def on_os_def wp_on_part)

lemma fs_sparing_modify [kept_intros]: "(\<And>s. fs_os (f s) = fs_os s) \<Longrightarrow> fs_sparing H t0 (modify f)"
  by (simp add: safe_def wp_modify)

lemma spares_mkdirat [kept_intros]: "kept (\<lambda>_. True) (spares H) (mkdirat d c)"
  unfolding mkdirat_def
  by (rule sp.kept_sys_call) (auto simp: in_dir_def sp.refl spares_def intact_def node_at_set_node split: option.splits)

lemma openat_directory: "openat d c O_Directory t = (Inr f, t') \<Longrightarrow> fd_path f = d @ [c]"
  by (auto simp: openat_def sys_call_def take_fault_def open_node_def fd_path_def
      split: fault.splits prod.splits list.splits option.splits node.splits)

lemma openat2_directory: "openat2 d rel O_Directory t = (Inr f, t') \<Longrightarrow> fd_path f = d @ rel"
  by (auto simp: openat2_def sys_call_def take_fault_def open_node_def fd_path_def
      split: fault.splits prod.splits list.splits option.splits node.splits if_splits)

lemma dir_walk_path: "safe (\<lambda>_. True) (\<lambda>_ _. True) (dir_walk create d cs) (\<lambda>p. p = d @ cs)"
proof (induction cs arbitrary: d create)
  case (Cons c cs)
  have open_d: "safe (\<lambda>_. True) (\<lambda>_ _. True) (openat d c O_Directory) (\<lambda>f. fd_path f = d @ [c])"
    by (auto simp: safe_def wp_def) (metis openat_directory surjective_pairing)
  have walk: "safe (\<lambda>_. True) (\<lambda>_ _. True) (dir_walk b (d @ [c]) cs) (\<lambda>p. p = d @ c # cs)" for b
    using Cons.IH [of b "d @ [c]"] by simp
  show ?case
    unfolding dir_walk.simps
    by (intro any_ev.safe_observe [OF open_d] any_ev.safe_observe [OF any_call])
      (auto intro!: any_ev.safe_fail any_ev.safe_observe [OF any_call] any_ev.safe_observe [OF open_d] walk split: sum.splits)
qed (simp add: any_ev.safe_ret)

lemma dir_beneath_path: "dir_beneath rel create t = (Inr p, t') \<Longrightarrow> p = rel"
proof -
  have o2: "safe (\<lambda>_. True) (\<lambda>_ _. True) (openat2_beneath [] rel O_Directory) (\<lambda>r. \<forall>f. r = Some (Inr f) \<longrightarrow> fd_path f = rel)"
  proof -
    have "safe (\<lambda>_. True) (\<lambda>_ _. True) (openat2 [] rel O_Directory) (\<lambda>f. fd_path f = rel)"
      by (auto simp: safe_def wp_def) (metis append_Nil openat2_directory surjective_pairing)
    then show ?thesis
      unfolding openat2_beneath_def
      by (auto intro!: any_ev.safe_ret any_ev.safe_observe split: sum.splits)
  qed
  have root: "safe (\<lambda>_. True) (\<lambda>_ _. True) open_root (\<lambda>d. d = [])"
    by (auto simp: safe_def wp_def open_root_def io_def err_map_def sys_call_def ret_def observe_def lift_res_def split: prod.splits fault.splits)
  have path: "safe (\<lambda>_. True) (\<lambda>_ _. True) (dir_beneath rel create) (\<lambda>p. p = rel)"
    unfolding dir_beneath_def
    by (rule any_ev.safe_and_do [OF root], simp, rule any_ev.safe_and_do [OF o2])
      (auto intro!: any_ev.safe_ret any_ev.safe_fail dir_walk_path [of _ "[]", simplified] split: option.splits sum.splits)
  assume "dir_beneath rel create t = (Inr p, t')"
  from any_ev.safe_run(2) [OF path TrueI this] show "p = rel" by simp
qed

lemma spares_dir_walk: "kept (\<lambda>_. True) (spares H) (dir_walk create d cs)"
  by (induction cs arbitrary: d) (auto intro!: kept_intros)

lemma spares_dir_beneath [kept_intros]: "kept (\<lambda>_. True) (spares H) (dir_beneath d create)"
  unfolding dir_beneath_def openat2_beneath_def by (intro kept_intros spares_dir_walk)

lemma sparing_dir_beneath: "sparing H t0 (dir_beneath d create) (\<lambda>p. p = d)"
  by (rule sparing_result) (auto intro!: kept_intros dest: dir_beneath_path)

lemma sys_call_spares:
  assumes "\<And>u. node_at u = node_at t \<Longrightarrow> os_data u = os_data t \<Longrightarrow> spares H t (snd (m u))"
  shows "spares H t (snd (sys_call m t))"
  using assms [of t] assms [of "t\<lparr>os_faults := tl (os_faults t)\<rparr>"] sp.fault [of t _ _ H]
  by (auto simp: sys_call_def take_fault_def node_at_def split: list.splits fault.splits)

lemma sparing_rename:
  assumes "\<not> intact H t0 (d @ [c])" "length e < 2"
  shows "sparing H t0 (io (rename_replace d c e f)) (\<lambda>_. True)"
proof -
  have "spares H t (snd (rename_replace d c e f t))" if "spares H t0 t" for t
    unfolding rename_replace_def
  proof (rule sys_call_spares)
    fix u assume u: "node_at u = node_at t" "os_data u = os_data t"
    have away: "\<not> intact H t (d @ [c])" using assms(1) intact_spared [OF that] by simp
    have short: "\<And>p. intact H t p \<Longrightarrow> p \<noteq> e @ [f]" using assms(2) cas_digest_length by (fastforce simp: intact_def)
    show "spares H t (snd (in_dir e (\<lambda>s. case node_at s (d @ [c]) of
         None \<Rightarrow> (Inl ENOENT, s)
       | Some n \<Rightarrow> if node_at s (e @ [f]) = Some Dir then (Inl EISDIR, s)
                   else if n = Dir then (Inl EINVAL, s)
                   else if node_at s (e @ [f]) = Some n then (Inr (), s)
                   else (Inr (), set_node (e @ [f]) n (del_node (d @ [c]) s))) u))"
      using u assms(2) away short
      by (auto simp: in_dir_def spares_def node_at_set_node node_at_del_node split: option.splits)
  qed
  then show ?thesis
    unfolding io_def by (intro sv.kept_err_map) (auto simp: safe_def wp_def intro: sp.trans)
qed

text \<open>A blob of the repository that is not intact.\<close>

definition damaged :: "'a hash_api_scheme \<Rightarrow> os \<Rightarrow> string \<Rightarrow> digest \<Rightarrow> bool" where
  "damaged H t repo d \<longleftrightarrow> (\<forall>p. blob_rel repo d = Inr p \<longrightarrow> \<not> intact H t p)"

lemma sparing_quarantine_blob:
  assumes "damaged H t0 repo d"
  shows "sparing H t0 (quarantine_blob repo d ds) (\<lambda>_. True)"
proof (cases "blob_dir_rel repo d")
  case (Inr p)
  obtain dir leaf where p: "p = (dir, leaf)" by (cases p)
  have away: "\<not> intact H t0 (dir @ [leaf])" using assms blob_dir_rel_Inr(1) [of repo d dir leaf] Inr p by (simp add: damaged_def)
  show ?thesis
    unfolding quarantine_blob_def Inr p sum.case prod.case
    by (rule sv.safe_and_do [OF sv.kept_gets], rule sv.safe_and_do [OF sparing_dir_beneath],
        rule sv.safe_and_do [OF sparing_dir_beneath], rule sv.safe_and_do [OF sparing_rename]) (auto simp: away intro!: kept_intros)
qed (simp add: quarantine_blob_def sv.safe_fail)

lemma damagedI:
  assumes "node_at t p = Some (Reg i)" "blob_rel repo d = Inr p" "digest_wf d" "digest_of H (os_data t i) (algorithm d) \<noteq> d"
  shows "damaged H t repo d"
  using assms cas_digest_blob_rel [OF assms(2,3)] by (auto simp: damaged_def intact_def)

lemma statat_ino: "statat d c t = (Inr st, t') \<Longrightarrow> st_ino st = Some i \<Longrightarrow> node_at t (d @ [c]) = Some (Reg i)"
  by (auto simp: statat_def sys_call_def take_fault_def stat_of_def node_at_def
      split: fault.splits prod.splits list.splits option.splits node.splits if_splits)

lemma sparing_statat: "2 \<le> length d \<Longrightarrow> sparing H t0 (statat d c) (\<lambda>st. st_ino st = Some i \<longrightarrow> node_at t0 (d @ [c]) = Some (Reg i))"
  by (rule sparing_result) (auto intro!: kept_intros dest!: statat_ino simp: spares_def)

lemma sparing_linked_copy:
  assumes names: "lower_names t0" and bad: "digest_of H (os_data t0 i) (algorithm d) \<noteq> d" and wf: "digest_wf d"
    and e: "digest_wf x" "hex x = to_ascii_lowercase c"
  shows "sparing H t0 (linked_copy d i repo (r, x, c)) (list_all (\<lambda>(q, _). damaged H t0 q d))"
proof (cases "digest_display x \<noteq> digest_display d \<or> r = repo")
  case False
  then have x: "x = d" using digest_display_inject [OF e(1) wf] by simp
  let ?p = "split_on CHR ''/'' r @ [''blobs'', algorithm d]"
  have damage: "damaged H t0 r d" if "node_at t0 (?p @ [c]) = Some (Reg i)"
  proof -
    have "to_ascii_lowercase c = c" using names that unfolding lower_names_def by (metis append.assoc append_Cons append_Nil)
    then have "c = hex d" using e(2) x by simp
    then show ?thesis
      using that bad wf by (auto simp: damaged_def intact_def elim!: blob_rel_Inr dest!: repo_rel_Inr)
  qed
  show ?thesis
    unfolding linked_copy_def prod.case if_not_P [OF False] unfolding x
    by (rule sv.safe_observe [OF sparing_statat [where i = i]]) (auto intro!: sv.safe_ret damage split: sum.splits)
qed (auto simp: linked_copy_def intro!: sv.safe_ret)

lemma fs_sparing_hard_linked_copies:
  assumes "lower_names t0" "digest_of H (os_data t0 i) (algorithm d) \<noteq> d" "digest_wf d"
  shows "fs_sparing H t0 (quarantine_hard_linked_copies D ds d i repo)"
proof -
  have entries: "sparing H t0 for_each_cas_entry (list_all (\<lambda>(_, d, c). digest_wf d \<and> hex d = to_ascii_lowercase c))"
    by (rule sparing_result) (auto intro!: kept_intros any_ev.safe_run(2) [OF cas_entries])
  have "sparing H t0 (and_do for_each_cas_entry (collect_each (linked_copy d i repo))) (list_all (\<lambda>(q, _). damaged H t0 q d))"
    by (rule sv.safe_and_do [OF entries]) (auto simp: list_all_iff intro!: sv.safe_collect_each sparing_linked_copy assms)
  then show ?thesis
    unfolding quarantine_hard_linked_copies_def
    by (rule fsv.safe_and_do [OF fs_on_os])
      (auto simp: list_all_iff blob_left_def intro!: fsv.kept_try_each kept_intros fs_on_os sparing_quarantine_blob split: prod.splits)
qed

lemma read_to_end_data: "read_to_end i t = (Inr b, t') \<Longrightarrow> b = os_data t i"
  by (auto simp: read_to_end_def sys_call_def take_fault_def split: fault.splits prod.splits list.splits)

lemma sparing_hash_file: "sparing H t0 (hash_file H rel alg) (\<lambda>(i, d, _). d = digest_of H (os_data t0 i) alg)"
proof -
  have "sparing H t0 (read_to_end i) (\<lambda>b. b = os_data t0 i)" for i
    by (rule sparing_result [OF sp.quiet_calls(9)]) (auto simp: spares_def dest: read_to_end_data)
  then have read: "sparing H t0 (io (read_to_end i)) (\<lambda>b. b = os_data t0 i)" for i
    unfolding io_def by (rule sv.safe_err_map)
  have hash: "hash_reader H [Inr b] alg = Inr (d, crc) \<Longrightarrow> d = digest_of H b alg" for b d crc
    by (auto simp: hash_reader_def digest_of_def sha256_of_def and_then_Inr_iff split: if_splits)
  show ?thesis
    unfolding hash_file_def
    by (rule sv.safe_and_do, rule sparing_quiet [OF sp.quiet_beneath(3)], rule sv.safe_and_do,
        rule sparing_quiet [OF sp.quiet_calls(11) [OF sp.quiet_calls(8)]], rule sv.safe_and_do [OF read], rule sv.safe_and_do [OF sv.safe_lift_res])
      (auto intro!: sv.safe_ret hash)
qed

lemma fs_sparing_scrub_rehash:
  assumes "lower_names t0" "digest_wf d" "blob_rel repo d = Inr rel"
  shows "fs_sparing (dp_ext D) t0 (scrub_rehash D repo ds d rel had sz)"
proof -
  let ?H = "dp_ext D"
  have corrupt: "fs_sparing ?H t0 (quarantine_corrupt D repo ds d rel i sz)" if bad: "digest_of ?H (os_data t0 i) (algorithm d) \<noteq> d" for i
  proof -
    have len: "2 \<le> length (butlast rel)" "butlast rel @ [last rel] = rel" using assms(3) by (auto elim!: blob_rel_Inr simp: butlast_append)
    have "damaged ?H t0 repo d" if "node_at t0 rel = Some (Reg i)"
      using damagedI [OF that assms(3,2) bad] .
    then show ?thesis
      unfolding quarantine_corrupt_def
      by (intro fsv.safe_observe [OF fs_on_os [OF sparing_statat [OF len(1), where i = i]]])
        (auto simp: len blob_left_def intro!: kept_intros fs_on_os sparing_quarantine_blob fs_sparing_hard_linked_copies assms bad
          split: prod.splits)
  qed
  show ?thesis
    unfolding scrub_rehash_def
    by (rule fsv.safe_observe [OF fs_on_os [OF sparing_hash_file]])
      (auto simp: digest_ct_eq_iff intro!: kept_intros corrupt split: prod.splits)
qed

lemma fs_sparing_scrub_one_blob:
  assumes "lower_names t0"
  shows "fs_sparing (dp_ext D) t0 (scrub_one_blob D repo ds)"
  unfolding scrub_one_blob_def open_for_scrub_def check_crc_def crc32c_of_file_def
  by (intro kept_intros fs_on_os fs_sparing_scrub_rehash assms) (auto dest: parse_digest_wf)

lemma fs_sparing_scrub_loop:
  assumes "lower_names t0"
  shows "fs_sparing (dp_ext D) t0 (scrub_loop D segs order pos counts)"
proof (induction "length order - pos" arbitrary: order pos counts)
  case 0
  then show ?case by (subst scrub_loop.simps) (simp add: fsv.kept_ret)
next
  case (Suc k)
  then have "\<not> length order \<le> pos" by simp
  moreover have "k = length (if b then take (pos + 1) order @ adaptive_reorder order (pos + 1) i else order) - (pos + 1)" for b i
    using Suc.hyps(2) by auto
  ultimately show ?case
    by (subst scrub_loop.simps)
      (auto simp only: if_False Let_def split: prod.splits
        intro!: fsv.kept_and_do fs_sparing_scrub_one_blob assms Suc.hyps(1))
qed

lemma fs_sparing_scrub_pass: "lower_names t0 \<Longrightarrow> fs_sparing (dp_ext D) t0 (scrub_pass D)"
  unfolding scrub_pass_def enumerate_segments_def entry_of_def
  by (intro kept_intros fs_on_os fs_sparing_scrub_loop sv.kept_collect_each)

lemma spares_scrub_pass:
  assumes "lower_names (fs_os s)"
  shows "spares (dp_ext D) (fs_os s) (fs_os (snd (scrub_pass D s)))"
  by (rule fsv.safe_run(1) [OF fs_sparing_scrub_pass [OF assms] sp.refl [OF TrueI] prod.collapse [symmetric]])


lemma sample_lower_names: "lower_names sample_os2"
proof -
  have "node_at sample_os2 p = Some (Reg i) \<Longrightarrow> p = [''a'', ''oci-layout''] \<or> p = [''a'', ''blobs'', ''sha256'', hex even_digest]" for p i
    by (auto simp: sample_os2_def sample_os1_def sample_os_def node_at_def split: if_splits)
  moreover have "to_ascii_lowercase (hex even_digest) = hex even_digest"
    using sample_digests_wf(1) by (intro lowercase_id) (simp add: digest_wf_def)
  ultimately show ?thesis unfolding lower_names_def by (fastforce simp: append_eq_Cons_conv)
qed


section \<open>Corrupt blobs leave\<close>

lemma crc_loop_eq: "hash_api_ok H \<Longrightarrow> crc_loop H c n b = (crc32c_append H c b, n + of_nat (length b))"
proof (induction H c n b rule: crc_loop.induct)
  case (1 H c n rest)
  have app: "\<And>x y z. crc32c_append H (crc32c_append H x y) z = crc32c_append H x (y @ z)" "\<And>x. crc32c_append H x [] = x"
    using 1(2) by (auto simp: hash_api_ok_def)
  have "length (take 65536 rest) + length (drop 65536 rest) = length rest" by simp
  then have "(of_nat (length (take 65536 rest)) + of_nat (length (drop 65536 rest)) :: u64) = of_nat (length rest)"
    by (metis of_nat_add)
  with 1 show ?case by (subst crc_loop.simps) (simp add: app Let_def add.assoc)
qed

lemma lower_names_spared: "spares H t t' \<Longrightarrow> lower_names t \<Longrightarrow> lower_names t'"
proof -
  assume t: "spares H t t'" "lower_names t"
  have "node_at t (r @ [''blobs'', alg, c]) = Some (Reg i)" if "node_at t' (r @ [''blobs'', alg, c]) = Some (Reg i)" for r alg c i
    using t(1) that by (simp add: spares_def)
  then show ?thesis using t(2) unfolding lower_names_def by blast
qed

lemma dir_beneath_new:
  assumes "calm t" "node_at t [c] = None"
  shows "dir_beneath [c] True t = (Inr [c], set_node [c] Dir t)"
  using assms
  by (simp add: dir_beneath_def open_root_calm openat2_beneath_def openat2_def openat_def mkdirat_def io_calm open_node_def in_dir_def
      node_at_set_node fd_path_def errno_kind_def io_of_errno_def node_at_def [of _ "[]"])

definition checksum_agrees :: "('x, 'm, 'f, 'l) deps \<Rightarrow> ('m, 'f, 'l) fs_store \<Rightarrow> string \<Rightarrow> string \<Rightarrow> bytes \<Rightarrow> bool" where
  "checksum_agrees D s repo ds b \<longleftrightarrow> (case mt_checksum (dp_meta D) (fs_meta s) repo ds of
     None \<Rightarrow> False | Some ck \<Rightarrow> ck_size ck = of_nat (length b) \<and> ck_crc32c ck = crc32c (dp_ext D) b)"

lemma quarantine_blob_calm:
  assumes t: "calm t" "in_dirs t" and p: "blob_dir_rel repo d = Inr (dir, leaf)" "node_at t (dir @ [leaf]) = Some (Reg i)"
    and q: "node_at t [QUARANTINE_DIR] \<in> {None, Some Dir}" "node_at t [QUARANTINE_DIR, quarantine_leaf (1000 * os_time t) repo ds] = None"
  shows "\<exists>t'. quarantine_blob repo d ds t = (Inr (), t') \<and> node_at t' (dir @ [leaf]) = None
     \<and> node_at t' [QUARANTINE_DIR, quarantine_leaf (1000 * os_time t) repo ds] = Some (Reg i) \<and> os_data t' = os_data t"
proof -
  obtain r where r: "dir = r @ [''blobs'', algorithm d]" using blob_dir_rel_Inr(3) [OF p(1)] by blast
  have dir: "dir_beneath dir False t = (Inr dir, t)"
    using in_dirs_prefix [OF t(2), of dir "[leaf]"] p(2) r by (intro dir_beneath_calm [OF t]) auto
  obtain u where u: "dir_beneath [QUARANTINE_DIR] True t = (Inr [QUARANTINE_DIR], u)" "calm u" "node_at u [QUARANTINE_DIR] = Some Dir"
    "\<And>x. x \<noteq> [QUARANTINE_DIR] \<Longrightarrow> node_at u x = node_at t x" "os_data u = os_data t"
  proof (cases "node_at t [QUARANTINE_DIR]")
    case None
    then show ?thesis
      using dir_beneath_new [OF t(1) None] t(1) by (intro that [of "set_node [QUARANTINE_DIR] Dir t"]) (auto simp: node_at_set_node)
  next
    case (Some n)
    then show ?thesis using q(1) t(1) dir_beneath_calm [OF t, of "[QUARANTINE_DIR]" True] by (intro that [of t]) auto
  qed
  have "dir @ [leaf] \<noteq> [QUARANTINE_DIR]" "dir @ [leaf] \<noteq> [QUARANTINE_DIR, c]" for c using r by (cases r; auto)+
  then show ?thesis
    using dir u p q(2)
    by (simp add: quarantine_blob_def and_do_def observe_def gets_def io_calm rename_replace_def in_dir_def fsync_def node_at_set_node node_at_del_node)
qed

lemma scrub_reaches_rehash:
  assumes "calm (fs_os s)" "in_dirs (fs_os s)" "hash_api_ok (dp_ext D)" "digest_wf d" "blob_rel repo d = Inr p"
    and "file_at (fs_os s) p = Some (i, b)" "\<not> checksum_agrees D s repo (digest_display d) b"
  shows "\<exists>had. scrub_one_blob D repo (digest_display d) s
    = (scrub_rehash D repo (digest_display d) d p had (of_nat (length b)) s :: ('e + scrub_result \<times> u64) \<times> _)"
proof -
  have p: "p \<noteq> []" using assms(5) by (auto elim!: blob_rel_Inr)
  have i: "node_at (fs_os s) p = Some (Reg i)" "os_data (fs_os s) i = b" using assms(6) by (auto simp: file_at_Some)
  have opened: "on_os (open_for_scrub p) s = (Inr (i, length b), s)"
    using open_beneath_calm [OF assms(1,2) p i(1)] i(2) assms(1)
    by (simp add: on_os_def on_part_def open_for_scrub_def and_do_def observe_def io_calm fstat_def stat_of_def)
  have "on_os (check_crc (dp_ext D) (mt_checksum (dp_meta D) (fs_meta s) repo (digest_display d)) (length b) i) s = ((Inr None, s) :: ('e + _) \<times> _)"
    using assms(1,7) i(2) crc_loop_eq [OF assms(3)]
    by (auto simp: on_os_def on_part_def check_crc_def crc32c_of_file_def and_do_def observe_def io_calm read_to_end_def checksum_agrees_def
        crc32c_def split: option.splits)
  then show ?thesis
    using opened by (intro exI) (simp add: scrub_one_blob_def parse_digest_display [OF assms(4)] assms(5) and_do_def observe_def gets_def)
qed

lemma scrub_rehash_quarantines:
  assumes t: "calm (fs_os s)" "in_dirs (fs_os s)" and p: "blob_rel repo d = Inr p" "file_at (fs_os s) p = Some (i, b)"
    and bad: "digest_of (dp_ext D) b (algorithm d) \<noteq> d"
  shows "scrub_rehash D repo ds d p had n s = quarantine_corrupt D repo ds d p i n s"
proof -
  have ne: "p \<noteq> []" using p(1) by (auto elim!: blob_rel_Inr)
  have i: "node_at (fs_os s) p = Some (Reg i)" "os_data (fs_os s) i = b" using p(2) by (auto simp: file_at_Some)
  have "\<exists>crc. hash_reader (dp_ext D) [Inr b] (algorithm d) = Inr (digest_of (dp_ext D) b (algorithm d), crc)"
    by (simp add: hash_reader_def digest_of_def sha256_of_def)
  then obtain crc where "on_os (hash_file (dp_ext D) p (algorithm d)) s = (Inr (i, digest_of (dp_ext D) b (algorithm d), crc), s)"
    using open_beneath_calm [OF t ne i(1)] i(2) t(1)
    by (auto simp: on_os_def on_part_def hash_file_def and_do_def observe_def io_calm fstat_def stat_of_def read_to_end_def)
  then show ?thesis using bad by (simp add: scrub_rehash_def observe_def digest_ct_eq_iff)
qed

lemma answers_hard_linked_copies: "answers (quarantine_hard_linked_copies D ds d i repo)"
  unfolding quarantine_hard_linked_copies_def linked_copy_def blob_left_def by (intro answers_intros)

lemma hard_linked_run:
  assumes "lower_names (fs_os s)" "digest_of H (os_data (fs_os s) i) (algorithm d) \<noteq> d" "digest_wf d"
  shows "\<exists>s'. quarantine_hard_linked_copies D ds d i repo s = ((Inr (), s') :: ('e + unit) \<times> _) \<and> spares H (fs_os s) (fs_os s')"
proof -
  obtain s' where run: "quarantine_hard_linked_copies D ds d i repo s = ((Inr (), s') :: ('e + unit) \<times> _)"
    using answers_run [OF answers_hard_linked_copies] by (metis (full_types) old.unit.exhaust)
  then show ?thesis using fsv.safe_run(1) [OF fs_sparing_hard_linked_copies [OF assms] sp.refl [OF TrueI] run] by blast
qed

lemma statat_calm: "calm t \<Longrightarrow> node_at t (d @ [c]) = Some n \<Longrightarrow> statat d c t = (Inr (stat_of t n), t)"
  by (simp add: statat_def sys_call_calm)

text \<open>
  (C12) A corrupt blob is taken out of the store. When no system call fails, a blob file whose bytes do
  not have the digest of its path, and that the recorded checksum does not vouch for, is reported as
  corrupt by its visit and is no longer at its path afterwards: the bytes cannot be served any more.
  The quarantine directory is there or can be made, and the name in it is free.
\<close>

theorem corrupt_blob_leaves:
  assumes "calm (fs_os s)" "in_dirs (fs_os s)" "lower_names (fs_os s)" "hash_api_ok (dp_ext D)"
    and "digest_wf d" "blob_rel repo d = Inr p" "file_at (fs_os s) p = Some (i, b)"
    and "digest_of (dp_ext D) b (algorithm d) \<noteq> d" "\<not> checksum_agrees D s repo (digest_display d) b"
    and "node_at (fs_os s) [QUARANTINE_DIR] \<in> {None, Some Dir}"
    and "node_at (fs_os s) [QUARANTINE_DIR, quarantine_leaf (1000 * os_time (fs_os s)) repo (digest_display d)] = None"
  shows "\<exists>s'. scrub_one_blob D repo (digest_display d) s = ((Inr (Corrupt, of_nat (length b)), s') :: ('e + _) \<times> _)
    \<and> file_at (fs_os s') p = None"
proof -
  let ?H = "dp_ext D" and ?ds = "digest_display d" and ?t = "fs_os s"
  obtain r where p: "p = r @ [''blobs'', algorithm d, hex d]" "blob_dir_rel repo d = Inr (r @ [''blobs'', algorithm d], hex d)"
    using assms(6) by (auto elim!: blob_rel_Inr)
  have i: "node_at ?t p = Some (Reg i)" "os_data ?t i = b" using assms(7) by (auto simp: file_at_Some)
  obtain t' where q: "quarantine_blob repo d ?ds ?t = (Inr (), t')" "node_at t' p = None" "os_data t' = os_data ?t"
    using quarantine_blob_calm [OF assms(1,2) p(2) _ assms(10,11)] i(1) p(1) by auto
  have dm: "damaged ?H ?t repo d" using i assms(8) by (intro damagedI [OF i(1) assms(6,5)]) simp
  have sp: "spares ?H ?t t'" by (rule sv.safe_run(1) [OF sparing_quarantine_blob [OF dm] sp.refl [OF TrueI] q(1)])
  obtain s2 where left: "blob_left D repo ?ds (Some (of_nat (length b))) (s\<lparr>fs_os := t'\<rparr>) = ((Inr (), s2) :: ('e + _) \<times> _)" "fs_os s2 = t'"
    by (simp add: blob_left_def modify_def split: prod.splits)
  have bad: "digest_of ?H (os_data (fs_os s2) i) (algorithm d) \<noteq> d" using assms(8) i(2) q(3) left(2) by simp
  have names: "lower_names (fs_os s2)" using lower_names_spared [OF sp assms(3)] left(2) by simp
  obtain s3 where linked: "quarantine_hard_linked_copies D ?ds d i repo s2 = ((Inr (), s3) :: ('e + _) \<times> _)" "spares ?H (fs_os s2) (fs_os s3)"
    using hard_linked_run [OF names bad assms(5)] by blast
  have "statat (butlast p) (last p) ?t = (Inr (stat_of ?t (Reg i)), ?t)"
    using i(1) p(1) by (intro statat_calm [OF assms(1)]) (simp add: butlast_append)
  then have "quarantine_corrupt D repo ?ds d p i (of_nat (length b)) s = ((Inr (Corrupt, of_nat (length b)), s3) :: ('e + _) \<times> _)"
    using q(1) left(1) linked(1)
    by (simp add: quarantine_corrupt_def observe_def and_do_def on_os_def on_part_def stat_of_def ret_def)
  moreover have "file_at (fs_os s3) p = None"
    using linked(2) left(2) q(2) p(1) by (auto simp: spares_def file_at_def split: option.splits node.splits)
  ultimately show ?thesis
    using scrub_reaches_rehash [OF assms(1,2,4,5,6,7,9), where 'e = 'e] scrub_rehash_quarantines [OF assms(1,2,6,7,8), where 'e = 'e]
    by metis
qed

definition sample_rotten :: sample_fs where
  "sample_rotten = sample_pushed\<lparr>fs_os := sample_os2\<lparr>os_data := (os_data sample_os2)(1 := ''rot'')\<rparr>\<rparr>"

lemma sample_rotten_simps:
  "node_at (fs_os sample_rotten) = node_at sample_os2" "os_time (fs_os sample_rotten) = os_time sample_os2"
  "fs_meta sample_rotten = fs_meta sample_pushed" "os_faults (fs_os sample_rotten) = os_faults sample_os2"
  by (auto simp: sample_rotten_def node_at_def fun_eq_iff)

lemma sample_rotten_checksum: "\<not> checksum_agrees sample_deps sample_rotten ''a'' (digest_display even_digest) ''rot''"
proof -
  have "log_checksum sample_meta_state ''a'' (digest_display even_digest) = Some \<lparr>ck_crc32c = crc32c sample_ext ''data'', ck_size = 4\<rparr>"
    by (simp add: sample_meta_state_def log_checksum_def repo_mut_def state_default_def entry_or_def repo_state_default_def)
  then show ?thesis
    by (simp add: checksum_agrees_def sample_rotten_simps sample_deps_def log_meta_def sample_pushed_facts)
qed

lemma sample_rotten_file:
  "file_at (fs_os sample_rotten) [''a'', ''blobs'', ''sha256'', hex even_digest] = Some (1, ''rot'')"
  "digest_of sample_ext ''rot'' (algorithm even_digest) \<noteq> even_digest"
  "node_at sample_os2 [QUARANTINE_DIR] = None" "node_at sample_os2 [QUARANTINE_DIR, c] = None"
  by (simp_all add: file_at_def sample_rotten_def sample_os2_def sample_os1_def sample_os_def node_at_def QUARANTINE_DIR_def
      even_digest_def digest_of_def sha256_of_def sample_ext_def)

theorem corrupt_blob_leaves_witness:
  "\<exists>s'. scrub_one_blob sample_deps ''a'' (digest_display even_digest) sample_rotten = ((Inr (Corrupt, of_nat 3), s') :: (io_error + _) \<times> _)
     \<and> file_at (fs_os s') [''a'', ''blobs'', ''sha256'', hex even_digest] = None"
proof -
  have hash_ok: "hash_api_ok sample_ext" by (rule sample_hash_ok)
  have "in_dirs sample_os2" using base_inv_dirs [OF sample_base_inv] by (simp add: sample_pushed_facts)
  then have "\<exists>s'. scrub_one_blob sample_deps ''a'' (digest_display even_digest) sample_rotten
      = ((Inr (Corrupt, of_nat (length ''rot'')), s') :: (io_error + _) \<times> _)
     \<and> file_at (fs_os s') [''a'', ''blobs'', ''sha256'', hex even_digest] = None"
    using sample_calm sample_lower_names hash_ok sample_digests_wf(1)
    by (intro corrupt_blob_leaves [where i = 1] sample_rotten_checksum sample_paths(5))
      (simp_all add: calm_def in_dirs_def lower_names_def sample_rotten_simps sample_rotten_file [unfolded One_nat_def])
  then show ?thesis by simp
qed

end
