(* ===== verification/Spec2Isabelle.thy ===== *)
theory Spec2Isabelle
  imports Meta_Wal Routes Lmdb_Export Index_Write Store_Safety Gc_Progress Scrub_Safety
begin

text \<open>
  A verification library for roci, an OCI distribution registry written in Rust.

  \<^bold>\<open>The program.\<close> An HTTP request enters \<open>roci-core\<close>: it is authenticated and authorized
  (\<open>auth/\<close>), its path is parsed and dispatched (\<open>routes.rs\<close>) to an endpoint (\<open>blobs.rs\<close>, \<open>uploads.rs\<close>,
  \<open>manifests.rs\<close>, \<open>listing.rs\<close>), and the endpoint calls the \<open>Storage\<close> trait of \<open>roci-storage\<close>. The
  filesystem backend (\<open>fs_storage/\<close>) keeps an OCI image layout per repository on disk, metadata (tags,
  referrers, back references, checksums) in one of two engines (\<open>metadata/log.rs\<close>, \<open>metadata/lmdb.rs\<close>),
  and derived indexes in memory (presence filter, dedupe index, cache, quotas, garbage-collection
  tracker). Background tasks write \<open>index.json\<close>, collect unreferenced blobs, expire uploads and
  scrub the blobs for corruption.

  \<^bold>\<open>How the code is translated.\<close> Bytes and strings are char lists; \<open>u32\<close> and \<open>u64\<close> are words, \<open>usize\<close>
  and file lengths natural numbers; \<open>Result\<close> is a sum type with the error on the left; a \<open>HashMap\<close> is
  an association list and a \<open>BTreeMap\<close> a sorted one. A fallible operation on a state is an \<open>act\<close>
  (\<open>Io_Monad\<close>): it maps the state to a result and the state after it, \<open>?\<close> is \<open>and_do\<close> and a match on a
  result \<open>observe\<close>. Third-party packages are parameter records with their documented laws as named
  predicates: \<open>hash_api\<close> and \<open>ext_api\<close> (sha2, crc32c, hmac, serde_json), \<open>auth_api\<close> (bcrypt, base64, ring,
  x509, LDAP, the clock), \<open>http_api\<close> (header values, query decoding), \<open>kv_api\<close> (heed/LMDB), \<open>lru_api\<close>,
  \<open>cuckoo_api\<close>. Every record has a concrete instance that satisfies its laws (\<open>Sample_Packages\<close>,
  \<open>Lmdb_Export\<close>, \<open>Blob_Cache\<close>, \<open>Sample_Store\<close>), which the examples use.

  \<^bold>\<open>The theories.\<close>
  \<^item> \<open>Prelude\<close>, \<open>Utf8\<close>, \<open>Json\<close>, \<open>Packages\<close>: types, lists, strings, words, maps, JSON values and what
    the sources use of Rust's standard library.
  \<^item> \<open>Storage_Error\<close>, \<open>Digest\<close>, \<open>Api_Error\<close>, \<open>Names\<close>: error types and their texts, digests with their
    constant-time comparison and streaming hashes, the error envelope, repository names.
  \<^item> \<open>Meta_Ops\<close>: the metadata operations, pages, the abstract view of a history and the locales
    \<open>metadata_engine\<close> and \<open>metadata_store\<close> of what an engine promises. \<open>Meta_Log\<close>: the maps of the log
    engine, its queries and export. \<open>Wal_Codec\<close>: records, framing, authentication and replay.
    \<open>Meta_Wal\<close>: the log engine with its file, group commit, compaction, crashes. \<open>Lmdb_Keys\<close>,
    \<open>Meta_Lmdb\<close>, \<open>Lmdb_Refine\<close>, \<open>Lmdb_Export\<close>: the LMDB engine, its ten tables as functions of the view,
    export and the agreement of both engines. \<open>Meta_Trait\<close>: the trait object the store holds, as the
    locale \<open>metadata_trait\<close> interpreted for both engines.
  \<^item> \<open>Policy\<close>, \<open>Bearer\<close>, \<open>Auth\<close>: patterns and grants, tokens, credentials and the decision.
  \<^item> \<open>Storage_Api\<close>, \<open>Http_Util\<close>, \<open>Blobs\<close>, \<open>Uploads\<close>, \<open>Manifests\<close>, \<open>Routes\<close>: the storage contract as
    a record of operations, and every endpoint over it.
  \<^item> \<open>Fs_Os\<close>: the system calls over a tree of names and inodes; each call consults a schedule of faults,
    so a theorem about a run covers every pattern of failing calls. \<open>Os_Inv\<close>: its invariant (a file
    under a digest's name has that digest; files lie in directories) and one rule per call.
  \<^item> \<open>Fs_Paths\<close>, \<open>Beneath\<close>, \<open>Publish\<close>, \<open>Upload_Body\<close>: paths below the root, dirfd-anchored access,
    publication and promotion of blobs, streamed bodies. \<open>Quota\<close>, \<open>Blob_Cache\<close>, \<open>Trackers\<close>: accounting,
    cache, presence filter, dedupe index, collector's tracker.
  \<^item> \<open>Layout\<close>, \<open>Layout_Index\<close>, \<open>Fs_State\<close>, \<open>Fs_Index\<close>, \<open>Fs_Storage\<close>, \<open>Fs_Gc\<close>, \<open>Fs_Scrub\<close>: the store's
    state, its index files and start, every operation of the \<open>Storage\<close> trait, the collector, the scrub pass.
  \<^item> \<open>Evolution\<close>: the locale \<open>evolution\<close> of relations that only move forward, with the rules for
    composed operations. \<open>Index_Write\<close>, \<open>Fs_Inv\<close>, \<open>Fs_Safety\<close>, \<open>Fs_Sessions\<close>, \<open>Fs_Finish\<close>,
    \<open>Gc_Candidates\<close>, \<open>Fs_Sweep\<close>: every operation keeps the store's invariant, and which files it may
    change. \<open>Fs_History\<close>: histories of events and restarts, reachable states. \<open>Fs_Calm\<close>,
    \<open>Fs_Roundtrip\<close>: what operations achieve when no call fails, what an acknowledged push leaves.
    \<open>Os_Frame\<close>: the locale \<open>os_relation\<close> of relations that quiet system calls keep.
  \<^item> \<open>Sample_Store\<close>, \<open>Sample_Runs\<close>: a concrete store and its runs for the examples.
    \<open>Store_Safety\<close>, \<open>Gc_Rebuild\<close>, \<open>Gc_Progress\<close>, \<open>Scrub_Safety\<close>: the properties of the store
    over all histories, of the collector and of the scrub pass.

  \<^bold>\<open>What is shown.\<close> The write-ahead log recovers every acknowledged operation after a crash at any
  moment, and both engines answer as the abstract view of the history says. A store never serves bytes
  that do not have the requested digest; what an acknowledged manifest needs is never collected; what
  was pushed can be pulled; the collector's walk ends and its sweep collects what is due. A scrub pass visits
  every blob once, moves no intact blob and takes corrupt ones out. Names, paths,
  ranges, patterns, tokens, password files and JSON nesting are decided as their specifications say,
  and no request is served that the policy does not allow. The texts before the theorems state each
  property. Some theorems show defects: a torn log tail or a failed installation of a compacted log
  loses acknowledged operations, and compaction can change a media type.

  \<^bold>\<open>Bounds.\<close> \<open>rebuild_fuel\<close> counts the roots and every child a file names, and the walk is proved to end
  within it. \<open>discover_walk\<close> has the depth bound 16 of the source. \<open>walk_pages\<close> is given one turn per
  item. All other recursions terminate by structure or by a measure.

  \<^bold>\<open>Not modelled.\<close> Operations of the store run one at a time: the locks and the collector's fence order
  them, and what is proved is about every sequence, not about interleavings inside an operation. The
  durability of the store's own files is not modelled (\<open>fsync\<close> may fail and changes nothing); that of the
  write-ahead log is. Not modelled are the S3 backend (\<open>roci-storage-s3\<close>: requests to a service), the
  command line and the servers (\<open>roci-cli\<close>), telemetry (\<open>roci-telemetry\<close>), the deserialization of the
  configuration (\<open>roci-config\<close>), the choice among several backends (\<open>routing.rs\<close>), the restart snapshot
  (\<open>fast_restart.rs\<close>), the migration between metadata engines (\<open>metadata/mod.rs\<close>), the scrub's bandwidth
  limit, the rate limiter and the connection layer of \<open>roci-core\<close>, and the
  benchmarks and tests.
\<close>

end
